(* ===== verification/HiSTB_Prelude.thy ===== *)
theory HiSTB_Prelude
  imports Main "HOL-Library.Word"
begin

text \<open>
  Shared ground of the development: names for the machine integers of the
  driver sources, the return codes, the platform constants whose header is not
  part of the repository, the arithmetic macros, and generic facts on lists,
  words and association by a key that every component uses.
\<close>

section \<open>Machine integers and return codes\<close>

type_synonym u8 = "8 word"
type_synonym u32 = "32 word"
type_synonym s64 = "64 word"

text \<open>
  \<open>HI_SUCCESS\<close> and \<open>HI_FAILURE\<close> are the two values the functions of the
  drivers return; their numeric values live in a header outside the sources,
  and no function below computes with them.
\<close>

datatype hi_ret = HI_SUCCESS | HI_FAILURE

text \<open>
  \<open>ret_or a b\<close> is the bitwise disjunction of two return codes: success exactly
  if both are (\<open>HI_SUCCESS\<close> is zero, \<open>HI_FAILURE\<close> is not).
\<close>

fun ret_or :: "hi_ret \<Rightarrow> hi_ret \<Rightarrow> hi_ret" where
  "ret_or HI_SUCCESS r = r"
| "ret_or HI_FAILURE r = HI_FAILURE"

text \<open>
  The platform constants that the driver sources use and whose headers
  (\<open>hi_type.h\<close>, \<open>decoder.h\<close>, \<open>message.h\<close>) are outside the repository. They
  are one parameter of the model.
\<close>

record platform =
  HI_INVALID_PTS :: u32
  HI_INVALID_TIME :: u32
  LAST_FRAME_BUF_ID :: u32
  LAST_FRAME_BUF_SIZE :: u32

section \<open>Collections of facts\<close>

named_theorems word_nat \<open>transfer of 32-bit comparisons and arithmetic to natural numbers\<close>

lemmas [word_nat] = word_less_nat_alt word_le_nat_alt unat_div unat_mod

section \<open>Arithmetic on 32-bit values\<close>

text \<open>
  \<open>abs32 x\<close> is the macro \<open>OPTM_ALG_ABS\<close> on a signed operand: the sign test reads
  the value as two's complement. On an unsigned operand the test
  \<open>(x) < 0\<close> never holds, so there the macro is the identity.
\<close>

definition abs32 :: "u32 \<Rightarrow> u32" where
  "abs32 x = (if sint x < 0 then - x else x)"

lemma unat_lt_2p32: "unat (x :: u32) < 2 ^ 32"
  using unsigned_less [of x] by simp

lemma sint_nonneg_small: "unat (x :: u32) < 2 ^ 31 \<Longrightarrow> sint x = int (unat x)"
proof -
  assume "unat x < 2 ^ 31"
  then have "uint x < 2 ^ 31"
    by (metis of_nat_less_iff of_nat_numeral of_nat_power uint_nat)
  then have "signed_take_bit 31 (uint x) = uint x"
    by (simp add: signed_take_bit_int_eq_self_iff)
       (meson neg_le_0_iff_le order_trans unsigned_greater_eq zero_le_numeral)
  moreover have "sint x = signed_take_bit 31 (uint x)"
    by (simp add: sint_uint)
  ultimately show ?thesis by simp
qed

lemma div10_round:
  "((n::nat) + 5) div 10 = n div 10 + (if 4 < n mod 10 then 1 else 0)"
proof -
  have "n + 5 = 10 * (n div 10) + (n mod 10 + 5)" by simp
  then have "(n + 5) div 10 = n div 10 + (n mod 10 + 5) div 10"
    by (metis div_mult_self2 zero_neq_numeral add.commute mult.commute)
  moreover have "(n mod 10 + 5) div 10 = (if 4 < n mod 10 then 1 else 0)"
    using mod_less_divisor [of 10 n] by (auto intro: div_nat_eqI)
  ultimately show ?thesis by simp
qed

lemma sint_eq_unat: "0 \<le> sint (w :: u32) \<Longrightarrow> sint w = int (unat w)"
proof -
  assume "0 \<le> sint w"
  moreover have "sint w < 2 ^ 32" using sint_lt [of w] by simp
  ultimately have "take_bit 32 (sint w) = sint w" by (simp add: take_bit_int_eq_self)
  then show ?thesis by (simp add: uint_sint)
qed

lemma unat_of_nat_small: "n < 2 ^ 32 \<Longrightarrow> unat (of_nat n :: u32) = n"
  by (simp add: unat_of_nat)

lemma sint_of_nat_small: "n < 2 ^ 31 \<Longrightarrow> sint (of_nat n :: u32) = int n"
  by (subst sint_nonneg_small) (simp_all add: unat_of_nat)

lemma of_nat_eq_pred: "n + 1 = unat (w :: u32) \<Longrightarrow> of_nat n = w - 1"
  by (metis add_diff_cancel_right' of_nat_1 of_nat_add of_nat_unat ucast_id)

lemma of_nat_neq_pred:
  assumes "n + 1 < unat (w :: u32)"
  shows "of_nat n \<noteq> w - 1"
proof
  assume "of_nat n = w - 1"
  then have "w = of_nat (n + 1)" by auto
  moreover have "unat (of_nat (n + 1) :: u32) = n + 1"
    using assms unat_lt_2p32 [of w] by (intro unat_of_nat_small) linarith
  ultimately show False using assms by simp
qed

lemma unat_inc: "unat (w :: u32) < 2 ^ 32 - 1 \<Longrightarrow> unat (w + 1) = unat w + 1"
  by (simp add: unat_word_ariths)

lemma abs32_small: "unat x < 2 ^ 31 \<Longrightarrow> abs32 x = x"
  by (simp add: abs32_def sint_nonneg_small)

lemma abs32_0 [simp]: "abs32 0 = 0"
  by (simp add: abs32_def)

section \<open>Finding an element by a key\<close>

text \<open>
  The drivers walk tables and lists from the front and stop at the first hit.
  \<open>find_index P xs\<close> is the index where such a walk stops, if it stops.
\<close>

fun find_index :: "('a \<Rightarrow> bool) \<Rightarrow> 'a list \<Rightarrow> nat option" where
  "find_index P [] = None"
| "find_index P (x # xs) = (if P x then Some 0 else map_option Suc (find_index P xs))"

lemma find_index_None: "find_index P xs = None \<longleftrightarrow> (\<forall>x \<in> set xs. \<not> P x)"
  by (induction xs) auto

lemma find_index_Some:
  "find_index P xs = Some i \<longleftrightarrow> i < length xs \<and> P (xs ! i) \<and> (\<forall>j < i. \<not> P (xs ! j))"
proof (induction xs arbitrary: i)
  case Nil
  then show ?case by simp
next
  case (Cons x xs)
  show ?case
  proof (cases i)
    case 0
    then show ?thesis by auto
  next
    case (Suc k)
    have "(\<forall>j < Suc k. \<not> P ((x # xs) ! j)) \<longleftrightarrow> \<not> P x \<and> (\<forall>j < k. \<not> P (xs ! j))"
      by (auto simp: less_Suc_eq_0_disj)
    with Suc show ?thesis by (simp add: Cons.IH)
  qed
qed

lemma find_index_SomeD:
  assumes "find_index P xs = Some i"
  shows "i < length xs" "P (xs ! i)" "\<And>j. j < i \<Longrightarrow> \<not> P (xs ! j)"
  using assms by (auto simp: find_index_Some)

text \<open>With pairwise different keys the first hit is the only one.\<close>

lemma distinct_key_nth_eq:
  "distinct (map k xs) \<Longrightarrow> i < length xs \<Longrightarrow> j < length xs \<Longrightarrow> k (xs ! i) = k (xs ! j) \<Longrightarrow> i = j"
  by (metis length_map nth_eq_iff_index_eq nth_map)

lemma find_index_key:
  assumes "distinct (map k xs)" "i < length xs"
  shows "find_index (\<lambda>x. k x = k (xs ! i)) xs = Some i"
proof -
  have "k (xs ! j) \<noteq> k (xs ! i)" if "j < i" for j
    using that assms(2) distinct_key_nth_eq [OF assms(1), of j i] by auto
  with assms(2) show ?thesis by (simp add: find_index_Some)
qed

section \<open>Requests that wait for buffers\<close>

text \<open>
  The contract behind flush and pause: a request is answered at once if nothing is in use, and
  otherwise when the last entry in use is given back. \<open>act\<close> are the operations that may
  happen meanwhile; those that \<open>gives\<close> selects give an entry back.
\<close>

fun drain_run ::
  "('s \<Rightarrow> 'a \<Rightarrow> bool) \<Rightarrow> ('s \<Rightarrow> 'a \<Rightarrow> bool) \<Rightarrow> ('s \<Rightarrow> 'a \<Rightarrow> 's option) \<Rightarrow> 's \<Rightarrow> 'a list \<Rightarrow> (nat \<times> 's) option" where
  "drain_run ok gives act s [] = Some (0, s)"
| "drain_run ok gives act s (a # as) =
     (if \<not> ok s a then None else
      case act s a of None \<Rightarrow> None
      | Some s' \<Rightarrow> map_option (\<lambda>(k, s''). (k + (if gives s a then 1 else 0), s'')) (drain_run ok gives act s' as))"

locale drain =
  fixes wf :: "'s \<Rightarrow> bool" and cnt :: "'s \<Rightarrow> nat" and pending :: "'s \<Rightarrow> bool" and dones :: "'s \<Rightarrow> nat"
    and ready :: "'s \<Rightarrow> bool" and request :: "'s \<Rightarrow> 's"
    and ok :: "'s \<Rightarrow> 'a \<Rightarrow> bool" and gives :: "'s \<Rightarrow> 'a \<Rightarrow> bool" and act :: "'s \<Rightarrow> 'a \<Rightarrow> 's option"
  assumes request_law: "wf s \<Longrightarrow> ready s \<Longrightarrow> wf (request s) \<and> cnt (request s) = cnt s \<and>
      (pending (request s) \<longleftrightarrow> cnt s \<noteq> 0) \<and> dones (request s) = dones s + (if cnt s = 0 then 1 else 0)"
    and gives_law: "wf s \<Longrightarrow> ok s a \<Longrightarrow> act s a = Some s' \<Longrightarrow> gives s a \<Longrightarrow> wf s' \<and> cnt s = Suc (cnt s') \<and>
      (pending s' \<longleftrightarrow> pending s \<and> cnt s' \<noteq> 0) \<and> dones s' = dones s + (if pending s \<and> cnt s' = 0 then 1 else 0)"
    and keeps_law: "wf s \<Longrightarrow> ok s a \<Longrightarrow> act s a = Some s' \<Longrightarrow> \<not> gives s a \<Longrightarrow>
      wf s' \<and> (pending s' \<longleftrightarrow> pending s) \<and> dones s' = dones s \<and> (pending s \<longrightarrow> cnt s' = cnt s)"
begin

lemma drain_waits:
  assumes "wf s" "pending s \<longrightarrow> cnt s \<noteq> 0" "drain_run ok gives act s as = Some (k, s')"
  shows "(pending s' \<longleftrightarrow> pending s \<and> k < cnt s) \<and> dones s' = dones s + (if pending s \<and> \<not> k < cnt s then 1 else 0)"
  using assms
proof (induction as arbitrary: s k)
  case Nil
  then show ?case by auto
next
  case (Cons a as)
  obtain s1 k1 where s1: "ok s a" "act s a = Some s1" "drain_run ok gives act s1 as = Some (k1, s')"
    "k = k1 + (if gives s a then 1 else 0)"
    using Cons.prems(3) by (auto split: if_splits option.splits)
  show ?case
  proof (cases "gives s a")
    case True
    note l = gives_law [OF Cons.prems(1) s1(1,2) True]
    then show ?thesis using Cons.IH [OF _ _ s1(3)] s1(4) True by auto
  next
    case False
    note l = keeps_law [OF Cons.prems(1) s1(1,2) False]
    then show ?thesis using Cons.IH [OF _ _ s1(3)] s1(4) False Cons.prems(2) by auto
  qed
qed

lemma answered_once:
  assumes "wf s" "ready s" "drain_run ok gives act (request s) as = Some (k, s')"
  shows "(pending s' \<longleftrightarrow> k < cnt s) \<and> dones s' = dones s + (if k < cnt s then 0 else 1)"
proof -
  note r = request_law [OF assms(1,2)]
  show ?thesis using drain_waits [OF _ _ assms(3)] r by auto
qed

end

text \<open>
  The contract of a queue between two parties: what waits, followed by what an operation hands in,
  is what the operation hands out, followed by what waits then.
\<close>

fun fifo_run ::
  "('s \<Rightarrow> 'a \<Rightarrow> bool) \<Rightarrow> ('s \<Rightarrow> 'a \<Rightarrow> ('x list \<times> 'x list \<times> 's) option) \<Rightarrow> 's \<Rightarrow> 'a list \<Rightarrow>
   ('x list \<times> 'x list \<times> 's) option" where
  "fifo_run ok step s [] = Some ([], [], s)"
| "fifo_run ok step s (a # as) =
     (if \<not> ok s a then None else
      case step s a of None \<Rightarrow> None
      | Some (i, out, s') \<Rightarrow> map_option (\<lambda>(is, outs, s''). (i @ is, out @ outs, s'')) (fifo_run ok step s' as))"

locale fifo =
  fixes wf :: "'s \<Rightarrow> bool" and pending :: "'s \<Rightarrow> 'x list" and ok :: "'s \<Rightarrow> 'a \<Rightarrow> bool"
    and step :: "'s \<Rightarrow> 'a \<Rightarrow> ('x list \<times> 'x list \<times> 's) option"
  assumes step_law: "wf s \<Longrightarrow> ok s a \<Longrightarrow> step s a = Some (ins, outs, s') \<Longrightarrow>
      wf s' \<and> pending s @ ins = outs @ pending s'"
begin

lemma fifo_order:
  assumes "wf s" "fifo_run ok step s as = Some (ins, outs, s')"
  shows "wf s' \<and> pending s @ ins = outs @ pending s'"
  using assms
proof (induction as arbitrary: s ins outs)
  case Nil
  then show ?case by simp
next
  case (Cons a as)
  obtain i1 o1 s1 i2 o2 where s1: "ok s a" "step s a = Some (i1, o1, s1)"
    "fifo_run ok step s1 as = Some (i2, o2, s')" "ins = i1 @ i2" "outs = o1 @ o2"
    using Cons.prems(2) by (auto split: if_splits option.splits)
  have l: "wf s1" "pending s @ i1 = o1 @ pending s1" using step_law [OF Cons.prems(1) s1(1,2)] by auto
  from l(2) have "pending s @ i1 @ i2 = o1 @ pending s1 @ i2" by (metis append.assoc)
  then show ?case using Cons.IH [OF l(1) s1(3)] s1(4,5) by simp
qed

end

text \<open>A queue in which every good operation is possible in every good state.\<close>

locale total_fifo = fifo +
  fixes good :: "'b \<Rightarrow> bool"
  assumes total_law: "wf s \<Longrightarrow> good a \<Longrightarrow> ok s a \<and> (\<exists>ins outs s'. step s a = Some (ins, outs, s'))"
begin

lemma fifo_total:
  assumes "wf s" "list_all good as"
  shows "\<exists>ins outs s'. fifo_run ok step s as = Some (ins, outs, s') \<and> wf s' \<and> pending s @ ins = outs @ pending s'"
proof -
  have "\<exists>ins outs s'. fifo_run ok step s as = Some (ins, outs, s')"
    using assms
  proof (induction as arbitrary: s)
    case Nil
    then show ?case by simp
  next
    case (Cons a as)
    then obtain i out s1 where s1: "ok s a" "step s a = Some (i, out, s1)" using total_law [of s a] by auto
    moreover have "wf s1" using step_law [OF Cons.prems(1) s1] ..
    ultimately show ?case using Cons.IH [of s1] Cons.prems(2) by auto
  qed
  then show ?thesis using fifo_order [OF assms(1)] by blast
qed

end

end
