(* ===== verification/Frame_Rate_Detect.thy ===== *)
theory Frame_Rate_Detect
  imports HiSTB_Prelude "HOL-Library.Monad_Syntax"
begin

text \<open>
  The frame-rate detector of the OMX video decoder driver,
  \<open>drv_omxvdec_alg_frd.c\<close>, with its state record of \<open>drv_omxvdec_alg.h\<close>.
  Rates are in tenths of a frame per second, time stamps in milliseconds.

  All fields are 32-bit words. Where the source assigns an unsigned difference to
  a signed variable and compares it, the model compares \<open>sint\<close> of the same word.
  The history \<open>InPTSSqn\<close> is an array of 100 entries; a read or write outside it
  (and the division by a zero \<open>nowPTSPtr\<close>) has no defined result in C and is the
  outcome \<open>None\<close> of the model.
\<close>

section \<open>State\<close>

definition OPTM_FRD_IN_PTS_SEQUENCE_LENGTH :: nat where
  "OPTM_FRD_IN_PTS_SEQUENCE_LENGTH = 100"

definition OPTM_FRD_INFRAME_RATE_JUMP_THRESHOLD :: u32 where
  "OPTM_FRD_INFRAME_RATE_JUMP_THRESHOLD = 10"

definition OPTM_FRD_INFRAME_RATE_WAVE_THRESHOLD :: u32 where
  "OPTM_FRD_INFRAME_RATE_WAVE_THRESHOLD = 2"

lemmas frd_consts = OPTM_FRD_IN_PTS_SEQUENCE_LENGTH_def
  OPTM_FRD_INFRAME_RATE_JUMP_THRESHOLD_def OPTM_FRD_INFRAME_RATE_WAVE_THRESHOLD_def

record OPTM_ALG_FRD_S =
  InPTSSqn :: "u32 list"
  nowPTSPtr :: u32
  sqn_length :: u32
  u320_Pts :: u32
  u32120_Pts :: u32
  u32QueCnt :: u32
  u32QueRate :: u32
  u32QueStable :: u32
  unableTime :: u32
  InFrameRateLast :: u32
  StableThreshold :: u32
  InFrameRateEqueTime :: u32
  InFrameRate :: u32

definition OPTM_ALG_ROUND :: "u32 \<Rightarrow> u32" where
  "OPTM_ALG_ROUND x = (if x mod 10 > 4 then (x div 10 + 1) * 10 else x)"

definition sqn_get :: "OPTM_ALG_FRD_S \<Rightarrow> u32 \<Rightarrow> u32 option" where
  "sqn_get s i =
     (if unat i < OPTM_FRD_IN_PTS_SEQUENCE_LENGTH then Some (InPTSSqn s ! unat i) else None)"

definition sqn_put :: "OPTM_ALG_FRD_S \<Rightarrow> u32 \<Rightarrow> u32 \<Rightarrow> OPTM_ALG_FRD_S option" where
  "sqn_put s i v =
     (if unat i < OPTM_FRD_IN_PTS_SEQUENCE_LENGTH
      then Some (s\<lparr>InPTSSqn := (InPTSSqn s)[unat i := v]\<rparr>) else None)"

section \<open>Operations\<close>

definition OMX_OPTM_ALG_InPTSSqn_CalNowRate :: "OPTM_ALG_FRD_S \<Rightarrow> u32 \<Rightarrow> u32 option" where
  "OMX_OPTM_ALG_InPTSSqn_CalNowRate s env = do {
     now \<leftarrow> sqn_get s (nowPTSPtr s);
     PtsDiff \<leftarrow> (if env = 1 then do {
          first \<leftarrow> sqn_get s 0;
          (if nowPTSPtr s = 0 then None else Some (10 * (now - first) div nowPTSPtr s)) }
        else do {
          prev \<leftarrow> sqn_get s (nowPTSPtr s - 1);
          Some (10 * (now - prev)) });
     Some (if sint PtsDiff \<le> 100000 \<and> 120 \<le> sint PtsDiff
           then OPTM_ALG_ROUND (1000000 div PtsDiff) div 10 else 0) }"

definition OMX_OPTM_ALG_InPTSSqn_ChangeInFrameRate :: "OPTM_ALG_FRD_S \<Rightarrow> u32 \<Rightarrow> OPTM_ALG_FRD_S" where
  "OMX_OPTM_ALG_InPTSSqn_ChangeInFrameRate s nowRate =
     s\<lparr>InFrameRate := nowRate,
       sqn_length := (if nowRate > 50 then nowRate div 10 else 5),
       StableThreshold := (if nowRate > 300 then nowRate div 100 else 3)\<rparr>"

definition OMX_OPTM_ALG_FrdInfo_Reset ::
  "platform \<Rightarrow> OPTM_ALG_FRD_S \<Rightarrow> u32 \<Rightarrow> OPTM_ALG_FRD_S option" where
  "OMX_OPTM_ALG_FrdInfo_Reset K s ptsNum =
     (let blank = replicate OPTM_FRD_IN_PTS_SEQUENCE_LENGTH (HI_INVALID_PTS K) in
      if ptsNum \<noteq> 0 then
        (if ptsNum = 1 then do {
           nowPts \<leftarrow> sqn_get s (nowPTSPtr s);
           Some (s\<lparr>InPTSSqn := blank[0 := nowPts], nowPTSPtr := 1, InFrameRateEqueTime := 0\<rparr>) }
         else do {
           nowPts \<leftarrow> sqn_get s (nowPTSPtr s);
           prePts \<leftarrow> sqn_get s (nowPTSPtr s - 1);
           Some (s\<lparr>InPTSSqn := blank[0 := prePts, 1 := nowPts], nowPTSPtr := 2,
                   InFrameRateEqueTime := 1\<rparr>) })
      else Some (s\<lparr>InPTSSqn := blank, InFrameRateEqueTime := 0,
                   u320_Pts := HI_INVALID_PTS K, u32120_Pts := HI_INVALID_PTS K,
                   u32QueCnt := 0, u32QueStable := 0\<rparr>))"

text \<open>
  \<open>OMX_OPTM_ALG_FrameRateDetect\<close> is split where its body has sections: the
  long-term statistics over 61 frames, the reaction to a jump of the rate, to a
  repeated rate, and to a full history.
\<close>

definition frd_queue_statistics :: "platform \<Rightarrow> OPTM_ALG_FRD_S \<Rightarrow> u32 \<Rightarrow> OPTM_ALG_FRD_S" where
  "frd_queue_statistics K s0 Pts =
     (let s = (if u320_Pts s0 = HI_INVALID_PTS K then s0\<lparr>u320_Pts := Pts\<rparr>
               else s0\<lparr>u32QueCnt := u32QueCnt s0 + 1\<rparr>) in
      if u32QueCnt s = 61 then
        (let u32Delta = (if Pts > u320_Pts s then (Pts - u320_Pts s) div 60
                         else (u320_Pts s - Pts) div 60);
             u32NewRate = (if u32Delta \<noteq> 0 then 10000 div u32Delta else 0);
             s' = (if u32NewRate - u32QueRate s < 10
                   then (if u32QueStable s < 3 then s\<lparr>u32QueStable := u32QueStable s + 1\<rparr> else s)
                   else s\<lparr>u32QueRate := u32NewRate, u32QueStable := 0\<rparr>)
         in s'\<lparr>u320_Pts := Pts, u32QueCnt := 0\<rparr>)
      else s)"

definition frd_count_unstable :: "OPTM_ALG_FRD_S \<Rightarrow> OPTM_ALG_FRD_S" where
  "frd_count_unstable s =
     (let s' = s\<lparr>unableTime := unableTime s + 1\<rparr> in
      if unableTime s' = 10 then s'\<lparr>InFrameRate := 0, unableTime := 0\<rparr> else s')"

definition frd_near_30fps :: "OPTM_ALG_FRD_S \<Rightarrow> bool" where
  "frd_near_30fps s \<longleftrightarrow> InFrameRateLast s \<ge> 200 \<and> InFrameRateLast s \<le> 400"

definition frd_rate_jump ::
  "platform \<Rightarrow> OPTM_ALG_FRD_S \<Rightarrow> u32 \<Rightarrow> OPTM_ALG_FRD_S option" where
  "frd_rate_jump K s nowRate =
     OMX_OPTM_ALG_FrdInfo_Reset K
       ((frd_count_unstable s)\<lparr>InFrameRateLast := nowRate,
          StableThreshold := (if nowRate > 300 then nowRate div 100 else 3)\<rparr>) 2"

definition frd_count_equal :: "OPTM_ALG_FRD_S \<Rightarrow> u32 \<Rightarrow> OPTM_ALG_FRD_S" where
  "frd_count_equal s nowRate =
     (let s' = s\<lparr>InFrameRateEqueTime := InFrameRateEqueTime s + 1\<rparr> in
      if InFrameRateEqueTime s' = 3 \<or> nowRate = InFrameRate s'
      then s'\<lparr>unableTime := 0\<rparr> else s')"

definition frd_stable_count :: "OPTM_ALG_FRD_S \<Rightarrow> u32" where
  "frd_stable_count s = (if frd_near_30fps s then 10 else StableThreshold s)"

definition frd_rate_repeated :: "OPTM_ALG_FRD_S \<Rightarrow> u32 \<Rightarrow> OPTM_ALG_FRD_S option" where
  "frd_rate_repeated s0 nowRate =
     (let s = frd_count_equal s0 nowRate in
      if InFrameRateEqueTime s = frd_stable_count s then do {
        rate \<leftarrow> OMX_OPTM_ALG_InPTSSqn_CalNowRate s 1;
        (let rateDiff = rate - InFrameRate s in
         if abs32 rateDiff > InFrameRate s div OPTM_FRD_INFRAME_RATE_JUMP_THRESHOLD
         then (let s' = OMX_OPTM_ALG_InPTSSqn_ChangeInFrameRate s rate
               in Some (s'\<lparr>InFrameRateLast := InFrameRate s'\<rparr>))
         else Some s) }
      else Some s)"

definition frd_merge_rate :: "OPTM_ALG_FRD_S \<Rightarrow> u32 \<Rightarrow> OPTM_ALG_FRD_S" where
  "frd_merge_rate s nowRate =
     (if InFrameRate s \<noteq> 0
      then OMX_OPTM_ALG_InPTSSqn_ChangeInFrameRate s ((nowRate + InFrameRate s) div 2)
      else OMX_OPTM_ALG_InPTSSqn_ChangeInFrameRate s nowRate)"

definition frd_adopt_average :: "OPTM_ALG_FRD_S \<Rightarrow> u32 \<Rightarrow> OPTM_ALG_FRD_S" where
  "frd_adopt_average s nowRate =
     (let rateDiff = InFrameRate s - nowRate;
          wave = InFrameRateLast s div OPTM_FRD_INFRAME_RATE_JUMP_THRESHOLD
                   div OPTM_FRD_INFRAME_RATE_WAVE_THRESHOLD;
          s32WaveDelta = (if frd_near_30fps s then 50 else wave) in
      if sint rateDiff > sint s32WaveDelta
      then (frd_merge_rate s nowRate)\<lparr>InFrameRateLast := nowRate\<rparr>
      else if InFrameRateLast s = nowRate
      then (if abs32 rateDiff > wave then frd_merge_rate s nowRate
            else OMX_OPTM_ALG_InPTSSqn_ChangeInFrameRate s nowRate)
      else s\<lparr>InFrameRateLast := nowRate\<rparr>)"

definition frd_history_full :: "platform \<Rightarrow> OPTM_ALG_FRD_S \<Rightarrow> OPTM_ALG_FRD_S option" where
  "frd_history_full K s = do {
     nowRate \<leftarrow> OMX_OPTM_ALG_InPTSSqn_CalNowRate s 1;
     OMX_OPTM_ALG_FrdInfo_Reset K (frd_adopt_average s nowRate) 1 }"

definition frd_update_history ::
  "platform \<Rightarrow> OPTM_ALG_FRD_S \<Rightarrow> u32 \<Rightarrow> OPTM_ALG_FRD_S option" where
  "frd_update_history K s0 Pts = do {
     s \<leftarrow> sqn_put s0 (nowPTSPtr s0) Pts;
     nowRate \<leftarrow> OMX_OPTM_ALG_InPTSSqn_CalNowRate s 0;
     (if nowRate \<noteq> 0 then
        (let rateDiff = nowRate - InFrameRateLast s;
             u32JumpDelta = (if frd_near_30fps s then 200
                             else InFrameRateLast s div OPTM_FRD_INFRAME_RATE_JUMP_THRESHOLD) in
         if abs32 rateDiff > u32JumpDelta then frd_rate_jump K s nowRate
         else do {
           s' \<leftarrow> frd_rate_repeated s nowRate;
           (if nowPTSPtr s' = sqn_length s' - 1 then frd_history_full K s'
            else Some (s'\<lparr>nowPTSPtr := nowPTSPtr s' + 1\<rparr>)) })
      else OMX_OPTM_ALG_FrdInfo_Reset K (frd_count_unstable s) 1) }"

definition frd_restart_history ::
  "platform \<Rightarrow> OPTM_ALG_FRD_S \<Rightarrow> u32 \<Rightarrow> OPTM_ALG_FRD_S option" where
  "frd_restart_history K s Pts = do {
     s1 \<leftarrow> OMX_OPTM_ALG_FrdInfo_Reset K (OMX_OPTM_ALG_InPTSSqn_ChangeInFrameRate s 0) 0;
     s2 \<leftarrow> sqn_put s1 0 Pts;
     Some (s2\<lparr>nowPTSPtr := 1, unableTime := 0, InFrameRateLast := InFrameRate s2\<rparr>) }"

definition OMX_OPTM_ALG_FrameRateDetect ::
  "platform \<Rightarrow> OPTM_ALG_FRD_S \<Rightarrow> u32 \<Rightarrow> (u32 \<times> OPTM_ALG_FRD_S) option" where
  "OMX_OPTM_ALG_FrameRateDetect K s0 Pts = do {
     let s = frd_queue_statistics K s0 Pts;
     first \<leftarrow> sqn_get s 0;
     s1 \<leftarrow> (if first \<noteq> HI_INVALID_PTS K then frd_update_history K s Pts
            else frd_restart_history K s Pts);
     let s2 = (if u32QueStable s1 = 3 \<and> InFrameRate s1 = 0
               then s1\<lparr>InFrameRate := u32QueRate s1\<rparr> else s1);
     Some (InFrameRate s2, s2) }"

text \<open>Feeding a sequence of time stamps; the rate returned for the last one.\<close>

fun frd_run :: "platform \<Rightarrow> OPTM_ALG_FRD_S \<Rightarrow> u32 list \<Rightarrow> (u32 \<times> OPTM_ALG_FRD_S) option" where
  "frd_run K s [] = Some (InFrameRate s, s)"
| "frd_run K s (p # ps) =
     (case OMX_OPTM_ALG_FrameRateDetect K s p of None \<Rightarrow> None | Some (r, s') \<Rightarrow> frd_run K s' ps)"

section \<open>What the detector is compared with\<close>

text \<open>
  \<open>rate_of_interval d\<close> is the rate of frames \<open>d\<close> milliseconds apart, in tenths of
  a frame per second: \<open>1000 / d\<close> frames per second with two digits, rounded to
  one, inside the range from 0.1 to 83.3 frames per second that the driver
  accepts. \<open>steady_frames q d m\<close> are the time stamps of \<open>m\<close> such frames.
\<close>

definition rate_of_interval :: "nat \<Rightarrow> nat" where
  "rate_of_interval d = (if 12 \<le> d \<and> d \<le> 10000 then (100000 div d + 5) div 10 else 0)"

definition frd_rate_word :: "u32 \<Rightarrow> u32" where
  "frd_rate_word PtsDiff = (if sint PtsDiff \<le> 100000 \<and> 120 \<le> sint PtsDiff
           then OPTM_ALG_ROUND (1000000 div PtsDiff) div 10 else 0)"

definition frd_history :: "OPTM_ALG_FRD_S \<Rightarrow> u32 \<Rightarrow> nat \<Rightarrow> nat \<Rightarrow> bool" where
  "frd_history s p d n \<longleftrightarrow> length (InPTSSqn s) = 100 \<and> nowPTSPtr s = of_nat n \<and> 1 \<le> n \<and> n < 100 \<and>
     (\<forall>i < n. InPTSSqn s ! i = p + of_nat (i * d))"

definition frd_len :: "u32 \<Rightarrow> u32" where
  "frd_len r = (if r > 50 then r div 10 else 5)"

definition frd_steady :: "OPTM_ALG_FRD_S \<Rightarrow> u32 \<Rightarrow> nat \<Rightarrow> nat \<Rightarrow> bool" where
  "frd_steady s p d n \<longleftrightarrow> frd_history s p d n \<and>
     InFrameRate s = of_nat (rate_of_interval d) \<and> InFrameRateLast s = of_nat (rate_of_interval d) \<and>
     sqn_length s = frd_len (of_nat (rate_of_interval d)) \<and> n < unat (sqn_length s)"

definition frd_starting :: "OPTM_ALG_FRD_S \<Rightarrow> u32 \<Rightarrow> nat \<Rightarrow> nat \<Rightarrow> u32 \<Rightarrow> bool" where
  "frd_starting s p d n r \<longleftrightarrow> frd_history s p d n \<and> InFrameRate s = 0 \<and> sqn_length s = 5 \<and>
     InFrameRateLast s = r \<and> StableThreshold s = (if r > 300 then r div 100 else 3) \<and>
     InFrameRateEqueTime s = of_nat (n - 1) \<and> u32QueStable s = 0 \<and> unat (u32QueCnt s) < n \<and>
     (n = 1 \<longrightarrow> unableTime s = 0)"

fun steady_frames :: "u32 \<Rightarrow> nat \<Rightarrow> nat \<Rightarrow> u32 list" where
  "steady_frames q d 0 = []"
| "steady_frames q d (Suc m) = q # steady_frames (q + of_nat d) d m"

text \<open>The part of the invariant that does not concern the position in the history.\<close>

definition frd_counts_ok :: "OPTM_ALG_FRD_S \<Rightarrow> bool" where
  "frd_counts_ok s \<longleftrightarrow> length (InPTSSqn s) = 100 \<and>
     unat (u32QueCnt s) \<le> 60 \<and> unat (u32QueStable s) \<le> 3 \<and> unat (unableTime s) \<le> 9"

definition frd_wf :: "platform \<Rightarrow> OPTM_ALG_FRD_S \<Rightarrow> bool" where
  "frd_wf K s \<longleftrightarrow> frd_counts_ok s \<and>
     (InPTSSqn s ! 0 \<noteq> HI_INVALID_PTS K \<longrightarrow> 1 \<le> unat (nowPTSPtr s))"

text \<open>A platform and the state of a freshly reset channel, for concrete runs.\<close>

definition example_platform :: platform where
  "example_platform = \<lparr>HI_INVALID_PTS = - 1, HI_INVALID_TIME = - 1,
     LAST_FRAME_BUF_ID = 0xffff, LAST_FRAME_BUF_SIZE = 1024\<rparr>"

definition example_frd :: OPTM_ALG_FRD_S where
  "example_frd = \<lparr>InPTSSqn = replicate 100 (- 1), nowPTSPtr = 0, sqn_length = 0, u320_Pts = - 1,
     u32120_Pts = - 1, u32QueCnt = 0, u32QueRate = 0, u32QueStable = 0, unableTime = 0,
     InFrameRateLast = 0, StableThreshold = 0, InFrameRateEqueTime = 0, InFrameRate = 0\<rparr>"

section \<open>Rates\<close>

lemma unat_ROUND_div:
  assumes "unat x \<le> 100000"
  shows "unat (OPTM_ALG_ROUND x div 10) = (unat x + 5) div 10"
proof (cases "x mod 10 > 4")
  case True
  then have m: "unat x mod 10 > 4" by (simp add: word_nat)
  have "unat ((x div 10 + 1) * 10) = (unat x div 10 + 1) * 10"
    using assms by (simp add: unat_word_ariths unat_div)
  with True have "unat (OPTM_ALG_ROUND x div 10) = unat x div 10 + 1"
    by (simp add: OPTM_ALG_ROUND_def unat_div)
  with m show ?thesis by (simp add: div10_round)
next
  case False
  then have m: "\<not> unat x mod 10 > 4" by (simp add: word_nat)
  from False have "unat (OPTM_ALG_ROUND x div 10) = unat x div 10"
    by (simp add: OPTM_ALG_ROUND_def unat_div)
  with m show ?thesis by (simp add: div10_round)
qed

lemma frd_rate_word_interval:
  assumes "d < 2 ^ 27"
  shows "frd_rate_word (of_nat (10 * d)) = of_nat (rate_of_interval d)"
proof (cases "12 \<le> d \<and> d \<le> 10000")
  case True
  let ?w = "of_nat (10 * d) :: u32"
  have u: "unat ?w = 10 * d" using True by (subst unat_of_nat_small) auto
  have s: "sint ?w = int (10 * d)" using True by (subst sint_of_nat_small) auto
  have q: "unat (1000000 div ?w) = 100000 div d"
    using div_mult_mult1 [of 10 100000 d] by (simp add: unat_div u del: of_nat_mult)
  have "100000 div d \<le> 100000" by simp
  with q have "unat (OPTM_ALG_ROUND (1000000 div ?w) div 10) = (100000 div d + 5) div 10"
    by (subst unat_ROUND_div) auto
  moreover have "frd_rate_word ?w = OPTM_ALG_ROUND (1000000 div ?w) div 10"
    using True s by (simp add: frd_rate_word_def del: of_nat_mult)
  ultimately have "unat (frd_rate_word ?w) = rate_of_interval d"
    using True by (simp add: rate_of_interval_def)
  then show ?thesis by (metis of_nat_unat ucast_id)
next
  case False
  then show ?thesis 
    using assms by (auto simp: frd_rate_word_def rate_of_interval_def sint_of_nat_small simp del: of_nat_mult)
qed

lemma rate_of_interval_bound: "rate_of_interval d \<le> 833"
proof -
  have "100000 div d \<le> 8333" if "12 \<le> d"
    using div_le_mono2 [of 12 d 100000] that by simp
  then show ?thesis by (auto simp: rate_of_interval_def)
qed

lemma frd_rate_word_bound: "unat (frd_rate_word w) \<le> 833"
proof (cases "sint w \<le> 100000 \<and> 120 \<le> sint w")
  case True
  then have "sint w = int (unat w)" by (intro sint_eq_unat) simp
  with True have u: "120 \<le> unat w" by linarith
  have "unat (1000000 div w) \<le> 8333"
    using div_le_mono2 [of 120 "unat w" 1000000] u by (simp add: unat_div)
  with True show ?thesis by (simp add: frd_rate_word_def unat_ROUND_div)
next
  case False
  then show ?thesis by (auto simp: frd_rate_word_def)
qed

lemma CalNowRate_eq:
  assumes "1 \<le> n" "n < 100" "nowPTSPtr s = of_nat n"
  shows "OMX_OPTM_ALG_InPTSSqn_CalNowRate s env = Some (frd_rate_word
    (if env = 1 then 10 * (InPTSSqn s ! n - InPTSSqn s ! 0) div of_nat n
     else 10 * (InPTSSqn s ! n - InPTSSqn s ! (n - 1))))"
proof -
  obtain m where m: "n = Suc m" using assms(1) by (cases n) auto
  have u: "unat (of_nat n :: u32) = n" "unat (of_nat m :: u32) = m"
    using assms(2) m by (auto intro!: unat_of_nat_small simp del: of_nat_Suc)
  have "of_nat n - (1 :: u32) = of_nat m" using m by simp
  moreover have "of_nat n \<noteq> (0 :: u32)" using u m by (metis nat.distinct(1) unat_0)
  ultimately show ?thesis using assms u m
    by (simp add: OMX_OPTM_ALG_InPTSSqn_CalNowRate_def sqn_get_def frd_consts frd_rate_word_def
        del: of_nat_Suc)
qed

lemma history_put:
  assumes h: "frd_history s p d n" and d: "d \<le> 10000"
  defines "s' \<equiv> s\<lparr>InPTSSqn := (InPTSSqn s)[n := p + of_nat (n * d)]\<rparr>"
  shows "sqn_put s (nowPTSPtr s) (p + of_nat (n * d)) = Some s'"
    and "OMX_OPTM_ALG_InPTSSqn_CalNowRate s' 0 = Some (of_nat (rate_of_interval d))"
    and "OMX_OPTM_ALG_InPTSSqn_CalNowRate s' 1 = Some (of_nat (rate_of_interval d))"
    and "\<And>f. frd_history (s'\<lparr>nowPTSPtr := of_nat n + 1\<rparr>) p d (n + 1) \<longleftrightarrow> n + 1 < 100"
proof -
  note h' = h [unfolded frd_history_def]
  have u: "unat (of_nat n :: u32) = n" using h' by (simp add: unat_of_nat)
  show "sqn_put s (nowPTSPtr s) (p + of_nat (n * d)) = Some s'"
    using h' u by (simp add: sqn_put_def s'_def frd_consts)
  have at: "InPTSSqn s' ! n = p + of_nat (n * d)" "InPTSSqn s' ! 0 = p"
    "InPTSSqn s' ! (n - 1) = p + of_nat ((n - 1) * d)" "nowPTSPtr s' = of_nat n"
    using h' by (auto simp: s'_def)
  have "of_nat (n * d) - of_nat ((n - 1) * d) = (of_nat d :: u32)"
    using h' by (cases n) (simp_all add: algebra_simps)
  then have "InPTSSqn s' ! n - InPTSSqn s' ! (n - 1) = of_nat d"
    unfolding at by (simp only: add_diff_cancel_left)
  then have diff: "10 * (InPTSSqn s' ! n - InPTSSqn s' ! (n - 1)) = of_nat (10 * d)"
    by simp
  show "OMX_OPTM_ALG_InPTSSqn_CalNowRate s' 0 = Some (of_nat (rate_of_interval d))"
    using h' d diff by (simp add: CalNowRate_eq [of n] at(4) frd_rate_word_interval [symmetric] del: of_nat_mult)
  have "10 * (InPTSSqn s' ! n - InPTSSqn s' ! 0) = of_nat (10 * d * n)"
    by (simp add: at mult.commute)
  moreover have "of_nat (10 * d * n) div of_nat n = (of_nat (10 * d) :: u32)"
  proof -
    have "10 * d * n \<le> 10 * 10000 * 100" using d h' by (intro mult_mono) auto
    then have "unat (of_nat (10 * d * n) :: u32) = 10 * d * n"
      by (intro unat_of_nat_small) simp
    then have "unat (of_nat (10 * d * n) div of_nat n :: u32) = 10 * d"
      using h' u by (simp add: unat_div del: of_nat_mult)
    then show ?thesis by (metis of_nat_unat ucast_id)
  qed
  ultimately show "OMX_OPTM_ALG_InPTSSqn_CalNowRate s' 1 = Some (of_nat (rate_of_interval d))"
    using h' d by (simp add: CalNowRate_eq [of n] at(4) frd_rate_word_interval [symmetric] del: of_nat_mult)
  show "frd_history (s'\<lparr>nowPTSPtr := of_nat n + 1\<rparr>) p d (n + 1) \<longleftrightarrow> n + 1 < 100"
    using h' by (auto simp: frd_history_def s'_def nth_list_update less_Suc_eq)
qed

lemma rate_word_facts:
  fixes d defines "r \<equiv> of_nat (rate_of_interval d) :: u32"
  shows "unat r = rate_of_interval d" "unat (frd_len r) \<ge> 5" "unat (frd_len r) \<le> 83"
    "12 \<le> d \<Longrightarrow> d \<le> 10000 \<Longrightarrow> r \<noteq> 0"
proof -
  show u: "unat r = rate_of_interval d"
    using rate_of_interval_bound [of d] by (simp add: r_def unat_of_nat)
  show "unat (frd_len r) \<ge> 5"
    using div_le_mono [of 50 "unat r" 10] by (auto simp: frd_len_def word_less_nat_alt unat_div)
  show "unat (frd_len r) \<le> 83"
    using div_le_mono [OF rate_of_interval_bound [of d], of 10] u by (auto simp: frd_len_def unat_div)
  assume "12 \<le> d" "d \<le> 10000"
  moreover from this have "100000 div d \<ge> 10"
    using div_le_mono2 [of d 10000 100000] by simp
  ultimately have "rate_of_interval d \<ge> 1"
    using div_le_mono [of 15 "100000 div d + 5" 10] by (simp add: rate_of_interval_def)
  with u show "r \<noteq> 0" by auto
qed

lemma queue_statistics_frame [simp]:
  "InPTSSqn (frd_queue_statistics K s p) = InPTSSqn s"
  "nowPTSPtr (frd_queue_statistics K s p) = nowPTSPtr s"
  "sqn_length (frd_queue_statistics K s p) = sqn_length s"
  "unableTime (frd_queue_statistics K s p) = unableTime s"
  "InFrameRateLast (frd_queue_statistics K s p) = InFrameRateLast s"
  "StableThreshold (frd_queue_statistics K s p) = StableThreshold s"
  "InFrameRateEqueTime (frd_queue_statistics K s p) = InFrameRateEqueTime s"
  "InFrameRate (frd_queue_statistics K s p) = InFrameRate s"
  by (simp_all add: frd_queue_statistics_def Let_def)

lemma history_queue_statistics [simp]:
  "frd_history (frd_queue_statistics K s q) p d n = frd_history s p d n"
  by (simp add: frd_history_def)

lemma ChangeInFrameRate_frame [simp]:
  "InPTSSqn (OMX_OPTM_ALG_InPTSSqn_ChangeInFrameRate s r) = InPTSSqn s"
  "nowPTSPtr (OMX_OPTM_ALG_InPTSSqn_ChangeInFrameRate s r) = nowPTSPtr s"
  "InFrameRateLast (OMX_OPTM_ALG_InPTSSqn_ChangeInFrameRate s r) = InFrameRateLast s"
  "InFrameRate (OMX_OPTM_ALG_InPTSSqn_ChangeInFrameRate s r) = r"
  "sqn_length (OMX_OPTM_ALG_InPTSSqn_ChangeInFrameRate s r) = frd_len r"
  "InFrameRateEqueTime (OMX_OPTM_ALG_InPTSSqn_ChangeInFrameRate s r) = InFrameRateEqueTime s"
  by (simp_all add: OMX_OPTM_ALG_InPTSSqn_ChangeInFrameRate_def frd_len_def)

text \<open>Reset keeping one time stamp: the history restarts at the newest.\<close>

lemma FrdInfo_Reset_1:
  assumes "nowPTSPtr s = of_nat n" "n < 100" "length (InPTSSqn s) = 100"
  shows "OMX_OPTM_ALG_FrdInfo_Reset K s 1 =
    Some (s\<lparr>InPTSSqn := (replicate 100 (HI_INVALID_PTS K))[0 := InPTSSqn s ! n], nowPTSPtr := 1,
            InFrameRateEqueTime := 0\<rparr>)"
  using assms by (simp add: OMX_OPTM_ALG_FrdInfo_Reset_def sqn_get_def frd_consts unat_of_nat Let_def)

lemma CalNowRate_cong:
  "InPTSSqn s = InPTSSqn t \<Longrightarrow> nowPTSPtr s = nowPTSPtr t \<Longrightarrow>
   OMX_OPTM_ALG_InPTSSqn_CalNowRate s env = OMX_OPTM_ALG_InPTSSqn_CalNowRate t env"
  by (simp add: OMX_OPTM_ALG_InPTSSqn_CalNowRate_def sqn_get_def)

lemma count_equal_frame [simp]:
  "InPTSSqn (frd_count_equal s r) = InPTSSqn s"
  "nowPTSPtr (frd_count_equal s r) = nowPTSPtr s"
  "sqn_length (frd_count_equal s r) = sqn_length s"
  "InFrameRateLast (frd_count_equal s r) = InFrameRateLast s"
  "StableThreshold (frd_count_equal s r) = StableThreshold s"
  "InFrameRateEqueTime (frd_count_equal s r) = InFrameRateEqueTime s + 1"
  "InFrameRate (frd_count_equal s r) = InFrameRate s"
  "u32QueStable (frd_count_equal s r) = u32QueStable s"
  "u32QueCnt (frd_count_equal s r) = u32QueCnt s"
  by (simp_all add: frd_count_equal_def Let_def)

lemma count_equal_CalNowRate [simp]:
  "OMX_OPTM_ALG_InPTSSqn_CalNowRate (frd_count_equal s r) env = OMX_OPTM_ALG_InPTSSqn_CalNowRate s env"
  by (rule CalNowRate_cong) simp_all

lemma stable_count_equal [simp]: "frd_stable_count (frd_count_equal s r) = frd_stable_count s"
  by (simp add: frd_stable_count_def frd_near_30fps_def)

lemma rate_repeated_same:
  assumes "OMX_OPTM_ALG_InPTSSqn_CalNowRate s 1 = Some (InFrameRate s)"
  shows "frd_rate_repeated s (InFrameRate s) = Some (frd_count_equal s (InFrameRate s))"
  using assms by (simp add: frd_rate_repeated_def Let_def frd_consts)

lemma rate_repeated_miss:
  "InFrameRateEqueTime s + 1 \<noteq> frd_stable_count s \<Longrightarrow> frd_rate_repeated s r = Some (frd_count_equal s r)"
  by (simp add: frd_rate_repeated_def Let_def)

lemma rate_repeated_hit:
  assumes "InFrameRate s = 0" "r \<noteq> 0" "abs32 r = r" "OMX_OPTM_ALG_InPTSSqn_CalNowRate s 1 = Some r"
    and "InFrameRateEqueTime s + 1 = frd_stable_count s"
  shows "frd_rate_repeated s r =
    Some ((OMX_OPTM_ALG_InPTSSqn_ChangeInFrameRate (frd_count_equal s r) r)\<lparr>InFrameRateLast := r\<rparr>)"
  using assms
  by (simp add: frd_rate_repeated_def Let_def frd_consts word_neq_0_conv)

lemma wave_nonneg: "0 \<le> sint ((of_nat (rate_of_interval d) :: u32) div 10 div 2)"
proof -
  have "unat ((of_nat (rate_of_interval d) :: u32) div 10 div 2) \<le> 833"
    using rate_of_interval_bound [of d] rate_word_facts(1) [of d]
    by (simp add: unat_div)
  then show ?thesis by (subst sint_nonneg_small) auto
qed

lemma history_full_steady:
  fixes d defines "r \<equiv> of_nat (rate_of_interval d) :: u32"
  assumes cal: "OMX_OPTM_ALG_InPTSSqn_CalNowRate s 1 = Some r"
    and "InFrameRate s = r" "InFrameRateLast s = r"
    and h: "nowPTSPtr s = of_nat n" "n < 100" "length (InPTSSqn s) = 100"
  shows "\<exists>s'. frd_history_full K s = Some s' \<and> InFrameRate s' = r \<and> InFrameRateLast s' = r \<and>
    sqn_length s' = frd_len r \<and> nowPTSPtr s' = 1 \<and>
    InPTSSqn s' = (replicate 100 (HI_INVALID_PTS K))[0 := InPTSSqn s ! n]"
  using assms wave_nonneg [of d]
  by (simp add: frd_history_full_def frd_adopt_average_def Let_def frd_consts FrdInfo_Reset_1 [of _ n] not_less)

lemma history_singleton:
  "InPTSSqn s = (replicate 100 x)[0 := p] \<Longrightarrow> nowPTSPtr s = 1 \<Longrightarrow> frd_history s p d 1"
  by (simp add: frd_history_def)

lemma detect_nonempty:
  assumes "frd_history s p d n" "p \<noteq> HI_INVALID_PTS K"
    and "frd_update_history K (frd_queue_statistics K s q) q = Some s'" "InFrameRate s' \<noteq> 0 \<or> u32QueStable s' = 0"
  shows "OMX_OPTM_ALG_FrameRateDetect K s q = Some (InFrameRate s', s')"
  using assms by (auto simp: OMX_OPTM_ALG_FrameRateDetect_def sqn_get_def frd_consts frd_history_def)

lemma steady_step:
  assumes st: "frd_steady s p d n" and d: "12 \<le> d" "d \<le> 10000" and p: "p \<noteq> HI_INVALID_PTS K"
  shows "\<exists>s' p' n'. OMX_OPTM_ALG_FrameRateDetect K s (p + of_nat (n * d)) = Some (of_nat (rate_of_interval d), s')
    \<and> frd_steady s' p' d n' \<and> p' + of_nat (n' * d) = p + of_nat ((n + 1) * d)
    \<and> (p' = p \<or> p' = p + of_nat (n * d))"
proof -
  let ?q = "p + of_nat (n * d) :: u32" and ?r = "of_nat (rate_of_interval d) :: u32"
  let ?t = "frd_queue_statistics K s ?q"
  let ?u = "?t\<lparr>InPTSSqn := (InPTSSqn ?t)[n := ?q]\<rparr>"
  let ?v = "frd_count_equal ?u ?r"
  from st have h: "frd_history ?t p d n" and r: "InFrameRate ?u = ?r" "InFrameRateLast ?u = ?r"
    and len: "sqn_length ?u = frd_len ?r" "n < unat (frd_len ?r)"
    by (auto simp: frd_steady_def)
  note h' = h [unfolded frd_history_def]
  note put = history_put [OF h d(2)]
  have rep: "frd_rate_repeated ?u ?r = Some ?v"
    using rate_repeated_same [of ?u] put(3) r(1) by simp
  have upd: "frd_update_history K ?t ?q =
     (if nowPTSPtr ?v = sqn_length ?v - 1 then frd_history_full K ?v
      else Some (?v\<lparr>nowPTSPtr := nowPTSPtr ?v + 1\<rparr>))"
    using put(1,2) rep rate_word_facts(4) [OF d] r by (simp add: frd_update_history_def Let_def)
  show ?thesis
  proof (cases "nowPTSPtr ?v = sqn_length ?v - 1")
    case True
    have "OMX_OPTM_ALG_InPTSSqn_CalNowRate ?v 1 = Some ?r"
      using put(3) CalNowRate_cong [of ?v ?u 1] by simp
    then obtain s' where s': "frd_history_full K ?v = Some s'" "InFrameRate s' = ?r"
      "InFrameRateLast s' = ?r" "sqn_length s' = frd_len ?r" "nowPTSPtr s' = 1"
      "InPTSSqn s' = (replicate 100 (HI_INVALID_PTS K))[0 := ?q]"
      using history_full_steady [of ?v d n K] r h' by auto
    have "frd_steady s' ?q d 1"
      using s' history_singleton [OF s'(6,5)] rate_word_facts(2) [of d] by (simp add: frd_steady_def)
    moreover have "OMX_OPTM_ALG_FrameRateDetect K s ?q = Some (?r, s')"
      using detect_nonempty [of s p d n K ?q s'] h p upd True s' rate_word_facts(4) [OF d] by simp
    ultimately show ?thesis by (intro exI [of _ s'] exI [of _ ?q] exI [of _ 1]) (simp add: algebra_simps)
  next
    case False
    let ?s' = "?v\<lparr>nowPTSPtr := of_nat n + 1\<rparr>"
    have "of_nat n \<noteq> frd_len ?r - 1" using False len h' by simp
    then have "n + 1 \<noteq> unat (frd_len ?r)" by (rule contrapos_nn) (simp add: of_nat_eq_pred)
    then have lt: "n + 1 < unat (frd_len ?r)" using len(2) by simp
    then have "frd_history (?u\<lparr>nowPTSPtr := of_nat n + 1\<rparr>) p d (n + 1)"
      using put(4) rate_word_facts(3) [of d] by simp
    then have "frd_history ?s' p d (n + 1)" by (simp add: frd_history_def)
    with lt r len have "frd_steady ?s' p d (n + 1)" by (simp add: frd_steady_def)
    moreover have "OMX_OPTM_ALG_FrameRateDetect K s ?q = Some (?r, ?s')"
      using detect_nonempty [of s p d n K ?q ?s'] h h' p upd False r rate_word_facts(4) [OF d] by simp
    ultimately show ?thesis by (intro exI [of _ ?s'] exI [of _ p] exI [of _ "n + 1"]) simp
  qed
qed

text \<open>The start of a stream: the first five time stamps.\<close>

lemma queue_statistics_early:
  "unat (u32QueCnt s) < 60 \<Longrightarrow>
   u32QueStable (frd_queue_statistics K s q) = u32QueStable s \<and>
   unat (u32QueCnt (frd_queue_statistics K s q)) \<le> unat (u32QueCnt s) + 1"
proof -
  assume a: "unat (u32QueCnt s) < 60"
  then have "unat (u32QueCnt s + 1) = unat (u32QueCnt s) + 1"
    by (intro unat_inc) simp
  moreover have "u32QueCnt s \<noteq> 61" using a by auto
  moreover from calculation(1) a have "u32QueCnt s + 1 \<noteq> 61" by auto
  ultimately show ?thesis by (simp add: frd_queue_statistics_def Let_def)
qed

lemma first_frame:
  assumes "length (InPTSSqn s) = 100" "InPTSSqn s ! 0 = HI_INVALID_PTS K"
  shows "\<exists>s'. OMX_OPTM_ALG_FrameRateDetect K s p = Some (0, s') \<and> frd_starting s' p d 1 0"
  using assms
  by (simp add: OMX_OPTM_ALG_FrameRateDetect_def sqn_get_def frd_consts frd_restart_history_def
      OMX_OPTM_ALG_FrdInfo_Reset_def sqn_put_def Let_def frd_starting_def frd_history_def
      OMX_OPTM_ALG_InPTSSqn_ChangeInFrameRate_def)

lemma FrdInfo_Reset_2:
  assumes "nowPTSPtr s = of_nat n" "1 \<le> n" "n < 100"
  shows "OMX_OPTM_ALG_FrdInfo_Reset K s 2 =
    Some (s\<lparr>InPTSSqn := (replicate 100 (HI_INVALID_PTS K))[0 := InPTSSqn s ! (n - 1), 1 := InPTSSqn s ! n],
            nowPTSPtr := 2, InFrameRateEqueTime := 1\<rparr>)"
proof -
  obtain m where m: "n = Suc m" using assms(2) by (cases n) auto
  have u: "unat (of_nat n :: u32) = n" "unat (of_nat m :: u32) = m"
    using assms(3) m by (auto intro!: unat_of_nat_small simp del: of_nat_Suc)
  have "of_nat n - (1 :: u32) = of_nat m" using m by simp
  with assms u m show ?thesis
    by (simp add: OMX_OPTM_ALG_FrdInfo_Reset_def sqn_get_def frd_consts Let_def del: of_nat_Suc)
qed

lemma second_frame:
  fixes d defines "r \<equiv> of_nat (rate_of_interval d) :: u32"
  assumes st: "frd_starting s p d 1 0" and d: "12 \<le> d" "d \<le> 10000" and p: "p \<noteq> HI_INVALID_PTS K"
  shows "\<exists>s'. OMX_OPTM_ALG_FrameRateDetect K s (p + of_nat d) = Some (0, s') \<and> frd_starting s' p d 2 r"
proof -
  let ?q = "p + of_nat d :: u32"
  let ?t = "frd_queue_statistics K s ?q"
  let ?u = "?t\<lparr>InPTSSqn := (InPTSSqn ?t)[1 := ?q]\<rparr>"
  from st have h: "frd_history ?t p d 1" and e: "u32QueStable ?t = 0 \<and> unat (u32QueCnt ?t) \<le> 1"
    using queue_statistics_early [of s K ?q] by (auto simp: frd_starting_def)
  note h' = h [unfolded frd_history_def]
  note put = history_put [OF h d(2), simplified]
  have "abs32 r > 0"
    using rate_word_facts(1,4) [of d] d rate_of_interval_bound [of d]
    by (subst abs32_small) (auto simp: r_def word_neq_0_conv [symmetric])
  then have "frd_update_history K ?t ?q = frd_rate_jump K ?u r"
    using put st rate_word_facts(4) [OF d]
    by (simp add: frd_update_history_def Let_def frd_starting_def frd_near_30fps_def r_def frd_consts)
  also have "\<dots> = Some (?u\<lparr>unableTime := unableTime s + 1, InFrameRateLast := r,
      StableThreshold := (if r > 300 then r div 100 else 3),
      InPTSSqn := (replicate 100 (HI_INVALID_PTS K))[0 := p, 1 := ?q], nowPTSPtr := 2,
      InFrameRateEqueTime := 1\<rparr>)"
    (is "_ = Some ?s'")
    using h' put st
    by (simp add: frd_rate_jump_def frd_count_unstable_def Let_def FrdInfo_Reset_2 [of _ 1]
        frd_starting_def unat_eq_0)
  finally have upd: "frd_update_history K ?t ?q = Some ?s'" .
  have "frd_starting ?s' p d 2 r"
    using st e by (auto simp: frd_starting_def frd_history_def less_2_cases_iff)
  moreover have "OMX_OPTM_ALG_FrameRateDetect K s ?q = Some (0, ?s')"
    using detect_nonempty [of s p d 1 K ?q ?s'] h p upd e st by (simp add: frd_starting_def)
  ultimately show ?thesis by blast
qed

lemma rate_word_minus:
  fixes d defines "r \<equiv> of_nat (rate_of_interval d) :: u32"
  assumes "12 \<le> d" "d \<le> 10000"
  shows "sint (0 - r) < 0" "abs32 (0 - r) = r" "r div 10 div 2 < r" "abs32 r = r"
proof -
  have u: "unat r = rate_of_interval d" "r \<noteq> 0" "unat r \<le> 833"
    using rate_word_facts(1,4) [of d] rate_of_interval_bound [of d] assms by auto
  then have sr: "sint r = int (unat r)" by (intro sint_nonneg_small) simp
  have pos: "0 < unat r" using u(2) by (simp add: unat_gt_0)
  have "sint (- r) = signed_take_bit 31 (- int (unat r))"
    using sint_word_minus [of r] sr by simp
  also have "\<dots> = - int (unat r)"
  proof (rule signed_take_bit_int_eq_self)
    have "int (unat r) \<le> 833" using u(3) by linarith
    then show "- (2 ^ 31) \<le> - int (unat r)" "- int (unat r) < 2 ^ 31" by (simp_all del: of_nat_unat)
  qed
  finally show m: "sint (0 - r) < 0" using pos by (simp del: of_nat_unat)
  then show "abs32 (0 - r) = r" by (simp add: abs32_def)
  show "r div 10 div 2 < r" using pos by (simp add: word_less_nat_alt unat_div)
  show "abs32 r = r" using sr by (simp add: abs32_def)
qed

lemma history_full_first:
  fixes d defines "r \<equiv> of_nat (rate_of_interval d) :: u32"
  assumes d: "12 \<le> d" "d \<le> 10000"
    and cal: "OMX_OPTM_ALG_InPTSSqn_CalNowRate s 1 = Some r"
    and f: "InFrameRate s = 0" "InFrameRateLast s = r"
    and h: "nowPTSPtr s = of_nat n" "n < 100" "length (InPTSSqn s) = 100"
  shows "\<exists>s'. frd_history_full K s = Some s' \<and> InFrameRate s' = r \<and> InFrameRateLast s' = r \<and>
    sqn_length s' = frd_len r \<and> nowPTSPtr s' = 1 \<and>
    InPTSSqn s' = (replicate 100 (HI_INVALID_PTS K))[0 := InPTSSqn s ! n]"
proof -
  note m = rate_word_minus [OF d, folded r_def]
  have "0 \<le> sint (if frd_near_30fps s then 50 else r div 10 div 2)"
    using wave_nonneg [of d] by (simp add: r_def)
  with m(1) have "\<not> sint (- r) > sint (if frd_near_30fps s then 50 else r div 10 div 2)" by simp
  moreover have "abs32 (- r) > r div 10 div 2" using m(2,3) by simp
  ultimately show ?thesis using cal f h
    by (simp add: frd_history_full_def frd_adopt_average_def Let_def frd_consts frd_merge_rate_def FrdInfo_Reset_1 [of _ n])
qed

lemma stable_count_len:
  fixes d defines "r \<equiv> of_nat (rate_of_interval d) :: u32"
  assumes "of_nat n = frd_stable_count s" "n \<le> 4"
    and T: "StableThreshold s = (if r > 300 then r div 100 else 3)"
  shows "n + 1 < unat (frd_len r)"
proof -
  have u: "unat (of_nat n :: u32) = n" using assms(3) by (intro unat_of_nat_small) simp
  have "\<not> frd_near_30fps s"
  proof
    assume "frd_near_30fps s"
    then have "n = unat (10 :: u32)" using assms(2) u by (simp add: frd_stable_count_def)
    then show False using assms(3) by simp
  qed
  then have n: "n = (if unat r > 300 then unat r div 100 else 3)"
    using assms(2) T u by (auto simp: frd_stable_count_def word_less_nat_alt unat_div)
  show ?thesis
  proof (cases "n = 4")
    case True
    then have "400 \<le> unat r" using n by (auto split: if_splits)
    then have "40 \<le> unat r div 10" "unat r > 50" using div_le_mono [of 400 "unat r" 10] by auto
    with True show ?thesis by (simp add: frd_len_def word_less_nat_alt unat_div)
  next
    case False
    with assms(3) show ?thesis using rate_word_facts(2) [of d] by (simp add: r_def)
  qed
qed

lemma later_frame:
  fixes d defines "r \<equiv> of_nat (rate_of_interval d) :: u32"
  assumes st: "frd_starting s p d n r" and n: "2 \<le> n" "n \<le> 4" and d: "12 \<le> d" "d \<le> 10000"
    and p: "p \<noteq> HI_INVALID_PTS K"
  shows "\<exists>s'. OMX_OPTM_ALG_FrameRateDetect K s (p + of_nat (n * d)) = Some (InFrameRate s', s') \<and>
    (n < 4 \<and> frd_starting s' p d (n + 1) r \<or> frd_steady s' p d (n + 1) \<or>
     frd_steady s' (p + of_nat (n * d)) d 1 \<and> n = 4)"
proof -
  let ?q = "p + of_nat (n * d) :: u32"
  let ?t = "frd_queue_statistics K s ?q"
  let ?u = "?t\<lparr>InPTSSqn := (InPTSSqn ?t)[n := ?q]\<rparr>"
  note m = rate_word_minus [OF d, folded r_def]
  have rnz: "r \<noteq> 0" using rate_word_facts(4) [OF d] by (simp add: r_def)
  from st have h: "frd_history ?t p d n" by (simp add: frd_starting_def)
  have e: "u32QueStable ?t = 0" "unat (u32QueCnt ?t) < n + 1"
    using st n queue_statistics_early [of s K ?q] by (auto simp: frd_starting_def)
  have ee: "InFrameRateEqueTime ?u + 1 = of_nat n"
    using st n by (simp add: frd_starting_def of_nat_diff)
  note h' = h [unfolded frd_history_def]
  note put = history_put [OF h d(2), folded r_def]
  have upd: "frd_update_history K ?t ?q = (case frd_rate_repeated ?u r of None \<Rightarrow> None | Some s' \<Rightarrow>
     (if nowPTSPtr s' = sqn_length s' - 1 then frd_history_full K s'
      else Some (s'\<lparr>nowPTSPtr := nowPTSPtr s' + 1\<rparr>)))"
    using put(1,2) rnz st by (simp add: frd_update_history_def Let_def frd_starting_def split: option.split)
  show ?thesis
  proof (cases "of_nat n = frd_stable_count ?u")
    case True
    let ?v = "(OMX_OPTM_ALG_InPTSSqn_ChangeInFrameRate (frd_count_equal ?u r) r)\<lparr>InFrameRateLast := r\<rparr>"
    have "InFrameRate ?u = 0" using st by (simp add: frd_starting_def)
    then have rep: "frd_rate_repeated ?u r = Some ?v"
      by (rule rate_repeated_hit [OF _ rnz m(4) put(3) trans [OF ee True]])
    have lt: "n + 1 < unat (frd_len r)"
      using True st unfolding r_def by (intro stable_count_len [of n ?u d]) (auto simp: frd_starting_def n)
    then have "of_nat n \<noteq> frd_len r - 1" by (intro of_nat_neq_pred) simp
    then have up: "frd_update_history K ?t ?q = Some (?v\<lparr>nowPTSPtr := of_nat n + 1\<rparr>)" (is "_ = Some ?s'")
      using upd rep h' by simp
    have "frd_history (?u\<lparr>nowPTSPtr := of_nat n + 1\<rparr>) p d (n + 1)" using put(4) n by simp
    then have "frd_history ?s' p d (n + 1)" by (simp add: frd_history_def)
    then have "frd_steady ?s' p d (n + 1)" using lt by (simp add: frd_steady_def r_def)
    moreover have "OMX_OPTM_ALG_FrameRateDetect K s ?q = Some (InFrameRate ?s', ?s')"
      using detect_nonempty [of s p d n K ?q ?s'] h p up rnz by simp
    ultimately show ?thesis by blast
  next
    case False
    let ?v = "frd_count_equal ?u r"
    have rep: "frd_rate_repeated ?u r = Some ?v"
      using rate_repeated_miss [of ?u r] ee False by simp
    show ?thesis
    proof (cases "n = 4")
      case True
      have "OMX_OPTM_ALG_InPTSSqn_CalNowRate ?v 1 = Some r"
        using put(3) CalNowRate_cong [of ?v ?u 1] by simp
      then obtain s' where s': "frd_history_full K ?v = Some s'" "InFrameRate s' = r"
        "InFrameRateLast s' = r" "sqn_length s' = frd_len r" "nowPTSPtr s' = 1"
        "InPTSSqn s' = (replicate 100 (HI_INVALID_PTS K))[0 := ?q]"
        using history_full_first [OF d, of ?v n K] st h' by (auto simp: frd_starting_def r_def)
      have "frd_update_history K ?t ?q = Some s'"
        using upd rep s'(1) True h' st by (simp add: frd_starting_def)
      then have "OMX_OPTM_ALG_FrameRateDetect K s ?q = Some (InFrameRate s', s')"
        using detect_nonempty [of s p d n K ?q s'] h p s' rnz by simp
      moreover have "frd_steady s' ?q d 1"
        using s' history_singleton [OF s'(6,5)] rate_word_facts(2) [of d] by (simp add: frd_steady_def r_def)
      ultimately show ?thesis using True by blast
    next
      case False
      with n have n3: "n = 2 \<or> n = 3" by auto
      let ?s' = "?v\<lparr>nowPTSPtr := of_nat n + 1\<rparr>"
      have up: "frd_update_history K ?t ?q = Some ?s'"
        using upd rep n3 h' st by (auto simp: frd_starting_def)
      have "frd_history (?u\<lparr>nowPTSPtr := of_nat n + 1\<rparr>) p d (n + 1)" using put(4) n by simp
      then have "frd_history ?s' p d (n + 1)" by (simp add: frd_history_def)
      then have "frd_starting ?s' p d (n + 1) r"
        using st e ee n by (auto simp: frd_starting_def)
      moreover have "OMX_OPTM_ALG_FrameRateDetect K s ?q = Some (InFrameRate ?s', ?s')"
        using detect_nonempty [of s p d n K ?q ?s'] h p up e by simp
      ultimately show ?thesis using n3 by auto
    qed
  qed
qed

lemma run_steady:
  assumes "12 \<le> d" "d \<le> 10000" "frd_steady s p d n" "p \<noteq> HI_INVALID_PTS K"
    and "\<forall>q \<in> set (steady_frames (p + of_nat (n * d)) d m). q \<noteq> HI_INVALID_PTS K"
  shows "\<exists>s'. frd_run K s (steady_frames (p + of_nat (n * d)) d m) = Some (of_nat (rate_of_interval d), s')"
  using assms
proof (induction m arbitrary: s p n)
  case 0
  then show ?case by (simp add: frd_steady_def)
next
  case (Suc m)
  obtain s' p' n' where s': "OMX_OPTM_ALG_FrameRateDetect K s (p + of_nat (n * d))
      = Some (of_nat (rate_of_interval d), s')"
    and st: "frd_steady s' p' d n'" and q: "p' + of_nat (n' * d) = p + of_nat ((n + 1) * d)"
    and p': "p' = p \<or> p' = p + of_nat (n * d)"
    using steady_step [OF Suc.prems(3,1,2,4)] by blast
  have next_q: "p + of_nat (n * d) + of_nat d = p' + of_nat (n' * d)"
    using q by (simp add: algebra_simps)
  have "p' \<noteq> HI_INVALID_PTS K" using p' Suc.prems(4,5) by auto
  moreover have "\<forall>q \<in> set (steady_frames (p' + of_nat (n' * d)) d m). q \<noteq> HI_INVALID_PTS K"
    using Suc.prems(5) unfolding next_q [symmetric] by simp
  ultimately show ?case using Suc.IH [OF Suc.prems(1,2) st] s' next_q by simp
qed

lemma frames_plus: "steady_frames q d (k + m) = steady_frames q d k @ steady_frames (q + of_nat (k * d)) d m"
  by (induction k arbitrary: q) (simp_all add: algebra_simps)

lemma run_starting:
  assumes "12 \<le> d" "d \<le> 10000" "frd_starting s p d n (of_nat (rate_of_interval d))" "2 \<le> n" "n \<le> 4"
    and "p \<noteq> HI_INVALID_PTS K" "4 < n + m"
    and "\<forall>q \<in> set (steady_frames (p + of_nat (n * d)) d m). q \<noteq> HI_INVALID_PTS K"
  shows "\<exists>s'. frd_run K s (steady_frames (p + of_nat (n * d)) d m) = Some (of_nat (rate_of_interval d), s')"
  using assms
proof (induction m arbitrary: s n)
  case 0
  then show ?case by simp
next
  case (Suc m)
  let ?q = "p + of_nat (n * d) :: u32" and ?r = "of_nat (rate_of_interval d) :: u32"
  obtain s' where s': "OMX_OPTM_ALG_FrameRateDetect K s ?q = Some (InFrameRate s', s')"
    and c: "n < 4 \<and> frd_starting s' p d (n + 1) ?r \<or> frd_steady s' p d (n + 1) \<or>
      frd_steady s' ?q d 1 \<and> n = 4"
    using later_frame [OF Suc.prems(3,4,5,1,2,6)] by blast
  have nx: "?q + of_nat d = p + of_nat ((n + 1) * d)" "?q + of_nat d = ?q + of_nat (1 * d)"
    by (simp_all add: algebra_simps)
  have inv: "?q \<noteq> HI_INVALID_PTS K"
    "\<forall>q \<in> set (steady_frames (?q + of_nat d) d m). q \<noteq> HI_INVALID_PTS K"
    using Suc.prems(8) by auto
  from c consider "n < 4" "frd_starting s' p d (n + 1) ?r" | "frd_steady s' p d (n + 1)"
    | "frd_steady s' ?q d 1" by blast
  then have "\<exists>t. frd_run K s' (steady_frames (?q + of_nat d) d m) = Some (?r, t)"
  proof cases
    case 1
    show ?thesis unfolding nx(1)
      by (rule Suc.IH [OF Suc.prems(1,2) 1(2) _ _ Suc.prems(6) _ inv(2) [unfolded nx(1)]])
        (use 1 Suc.prems in simp_all)
  next
    case 2
    show ?thesis unfolding nx(1)
      by (rule run_steady [OF Suc.prems(1,2) 2 Suc.prems(6) inv(2) [unfolded nx(1)]])
  next
    case 3
    show ?thesis unfolding nx(2)
      by (rule run_steady [OF Suc.prems(1,2) 3 inv(1) inv(2) [unfolded nx(2)]])
  qed
  with s' show ?case by simp
qed

lemma counts_ok_updates [simp]:
  "frd_counts_ok (s\<lparr>nowPTSPtr := i\<rparr>) = frd_counts_ok s"
  "frd_counts_ok (s\<lparr>InFrameRate := r\<rparr>) = frd_counts_ok s"
  "frd_counts_ok (s\<lparr>InFrameRateLast := r\<rparr>) = frd_counts_ok s"
  "frd_counts_ok (s\<lparr>StableThreshold := r\<rparr>) = frd_counts_ok s"
  "frd_counts_ok (s\<lparr>InFrameRateEqueTime := r\<rparr>) = frd_counts_ok s"
  "frd_counts_ok (s\<lparr>InPTSSqn := (InPTSSqn s)[i' := x]\<rparr>) = frd_counts_ok s"
  "frd_counts_ok (OMX_OPTM_ALG_InPTSSqn_ChangeInFrameRate s r) = frd_counts_ok s"
  by (simp_all add: frd_counts_ok_def OMX_OPTM_ALG_InPTSSqn_ChangeInFrameRate_def)

lemma counts_ok_count_equal [simp]: "frd_counts_ok s \<Longrightarrow> frd_counts_ok (frd_count_equal s r)"
  by (simp add: frd_counts_ok_def frd_count_equal_def Let_def)

lemma counts_ok_count_unstable: 
  assumes "frd_counts_ok s" shows "frd_counts_ok (frd_count_unstable s)"
proof -
  have u: "unat (unableTime s + 1) = unat (unableTime s) + 1"
    using assms by (intro unat_inc) (simp add: frd_counts_ok_def)
  have "unat (unableTime s + 1) \<le> 9" if "unableTime s + 1 \<noteq> 10"
    using that u assms by (auto simp: frd_counts_ok_def word_unat_eq_iff)
  with assms show ?thesis by (simp add: frd_counts_ok_def frd_count_unstable_def Let_def)
qed

lemma counts_ok_queue_statistics:
  assumes "frd_counts_ok s" shows "frd_counts_ok (frd_queue_statistics K s p)"
proof -
  have u: "unat (u32QueCnt s + 1) = unat (u32QueCnt s) + 1"
    using assms by (intro unat_inc) (simp add: frd_counts_ok_def)
  have c: "unat (u32QueCnt s + 1) \<le> 60" if "u32QueCnt s + 1 \<noteq> 61"
    using that u assms by (auto simp: frd_counts_ok_def word_unat_eq_iff)
  have v: "unat (u32QueStable s + 1) \<le> 3" if "u32QueStable s < 3"
    using that unat_inc [of "u32QueStable s"] by (auto simp: word_less_nat_alt)
  from assms c v show ?thesis by (simp add: frd_counts_ok_def frd_queue_statistics_def Let_def)
qed

lemma Reset_defined:
  assumes "frd_counts_ok s" "nowPTSPtr s = of_nat n" "1 \<le> n" "n < 100" "k = 1 \<or> k = 2"
  shows "\<exists>s'. OMX_OPTM_ALG_FrdInfo_Reset K s k = Some s' \<and> frd_counts_ok s' \<and> 1 \<le> unat (nowPTSPtr s')"
  using assms FrdInfo_Reset_1 [of s n K] FrdInfo_Reset_2 [of s n K]
  by (auto simp: frd_counts_ok_def)

lemma repeated_defined:
  assumes "frd_counts_ok s" "nowPTSPtr s = of_nat n" "1 \<le> n" "n < 100"
  shows "\<exists>s'. frd_rate_repeated s r = Some s' \<and> frd_counts_ok s' \<and> nowPTSPtr s' = of_nat n"
  using assms CalNowRate_eq [of n s 1] by (auto simp: frd_rate_repeated_def Let_def)

lemma full_defined:
  assumes "frd_counts_ok s" "nowPTSPtr s = of_nat n" "1 \<le> n" "n < 100"
  shows "\<exists>s'. frd_history_full K s = Some s' \<and> frd_counts_ok s' \<and> 1 \<le> unat (nowPTSPtr s')"
proof -
  have "frd_counts_ok (frd_adopt_average s r)" "nowPTSPtr (frd_adopt_average s r) = of_nat n" for r
    using assms(1,2) by (simp_all add: frd_adopt_average_def Let_def frd_merge_rate_def)
  then show ?thesis using assms(3,4) CalNowRate_eq [OF assms(3,4,2), of 1] Reset_defined [of _ n 1 K]
    by (simp add: frd_history_full_def)
qed

lemma update_defined:
  assumes c: "frd_counts_ok s" and n: "1 \<le> unat (nowPTSPtr s)" "unat (nowPTSPtr s) < 100"
  shows "\<exists>s'. frd_update_history K s p = Some s' \<and> frd_counts_ok s' \<and> 1 \<le> unat (nowPTSPtr s')"
proof -
  define n where "n = unat (nowPTSPtr s)"
  have n': "1 \<le> n" "n < 100" "nowPTSPtr s = of_nat n" using n by (simp_all add: n_def)
  let ?u = "s\<lparr>InPTSSqn := (InPTSSqn s)[n := p]\<rparr>"
  have un: "unat (nowPTSPtr s) = n" "unat (of_nat n :: u32) = n" by (simp_all add: n_def)
  have put: "sqn_put s (nowPTSPtr s) p = Some ?u"
    using n'(2) un(1) by (simp add: sqn_put_def frd_consts)
  have cal: "OMX_OPTM_ALG_InPTSSqn_CalNowRate ?u 0 = Some (frd_rate_word (10 * (InPTSSqn ?u ! n - InPTSSqn ?u ! (n - 1))))"
    (is "_ = Some ?r") using CalNowRate_eq [of n ?u 0] n' by simp
  have cu: "frd_counts_ok ?u" "nowPTSPtr ?u = of_nat n" using c n' by simp_all
  obtain s1 where s1: "frd_rate_repeated ?u ?r = Some s1" "frd_counts_ok s1" "nowPTSPtr s1 = of_nat n"
    using repeated_defined [OF cu n'(1,2)] by blast
  obtain s2 where s2: "frd_history_full K s1 = Some s2" "frd_counts_ok s2" "1 \<le> unat (nowPTSPtr s2)"
    using full_defined [OF s1(2,3) n'(1,2)] by blast
  have cv: "frd_counts_ok (frd_count_unstable ?u)" "nowPTSPtr (frd_count_unstable ?u) = of_nat n"
    using counts_ok_count_unstable [OF cu(1)] n' by (simp_all add: frd_count_unstable_def Let_def)
  obtain s3 where s3: "OMX_OPTM_ALG_FrdInfo_Reset K (frd_count_unstable ?u) 1 = Some s3"
    "frd_counts_ok s3" "1 \<le> unat (nowPTSPtr s3)"
    using Reset_defined [OF cv n'(1,2)] by blast
  obtain s4 where s4: "frd_rate_jump K ?u ?r = Some s4" "frd_counts_ok s4" "1 \<le> unat (nowPTSPtr s4)"
    unfolding frd_rate_jump_def
    using Reset_defined [of "(frd_count_unstable ?u)\<lparr>InFrameRateLast := ?r, StableThreshold := (if ?r > 300 then ?r div 100 else 3)\<rparr>" n 2 K] cv n'
    by auto
  have s5: "1 \<le> unat (of_nat n + 1 :: u32)"
    using n'(2) unat_inc [of "of_nat n"] un(2) by simp
  show ?thesis using put cal s1 s2 s3 s4 s5
    by (auto simp: frd_update_history_def Let_def)
qed

lemma restart_defined:
  assumes "frd_counts_ok s"
  shows "\<exists>s'. frd_restart_history K s p = Some s' \<and> frd_counts_ok s' \<and> 1 \<le> unat (nowPTSPtr s')"
  using assms by (simp add: frd_restart_history_def OMX_OPTM_ALG_FrdInfo_Reset_def sqn_put_def
      frd_consts frd_counts_ok_def OMX_OPTM_ALG_InPTSSqn_ChangeInFrameRate_def)

text \<open>One call keeps the invariant and is defined while the position is inside the array.\<close>

lemma frd_detect_cases:
  assumes wf: "frd_wf K s"
  shows "(case OMX_OPTM_ALG_FrameRateDetect K s p of
      None \<Rightarrow> InPTSSqn s ! 0 \<noteq> HI_INVALID_PTS K \<and> 100 \<le> unat (nowPTSPtr s)
    | Some (r, s') \<Rightarrow> (InPTSSqn s ! 0 = HI_INVALID_PTS K \<or> unat (nowPTSPtr s) < 100) \<and>
        frd_wf K s' \<and> r = InFrameRate s')"
proof -
  let ?t = "frd_queue_statistics K s p"
  have c: "frd_counts_ok ?t" using wf counts_ok_queue_statistics [of s K p] by (simp add: frd_wf_def)
  have g: "sqn_get ?t 0 = Some (InPTSSqn s ! 0)" by (simp add: sqn_get_def frd_consts)
  show ?thesis
  proof (cases "InPTSSqn s ! 0 = HI_INVALID_PTS K")
    case True
    then show ?thesis using restart_defined [OF c, of K p] g
      by (auto simp: OMX_OPTM_ALG_FrameRateDetect_def Let_def frd_wf_def)
  next
    case False
    then have n: "1 \<le> unat (nowPTSPtr ?t)" using wf by (simp add: frd_wf_def)
    show ?thesis
    proof (cases "unat (nowPTSPtr s) < 100")
      case True
      then show ?thesis using update_defined [OF c n, of K p] g False
        by (auto simp: OMX_OPTM_ALG_FrameRateDetect_def Let_def frd_wf_def)
    next
      case over: False
      then show ?thesis using g False
        by (simp add: OMX_OPTM_ALG_FrameRateDetect_def Let_def frd_update_history_def sqn_put_def frd_consts)
    qed
  qed
qed

lemma frd_detect_wf:
  "frd_wf K s \<Longrightarrow> OMX_OPTM_ALG_FrameRateDetect K s p = Some (r, s') \<Longrightarrow> frd_wf K s'"
  using frd_detect_cases [of K s p] by simp

section \<open>Properties\<close>

text \<open>
  C30: from any reset state of the detector, a stream of at least five frames a
  fixed number of milliseconds apart (12 to 10000) makes the detector return the
  rate of that interval, however long the stream is and wherever its 32-bit time
  stamps wrap around; no access leaves the history array.
\<close>

theorem frd_steady_stream:
  assumes d: "12 \<le> d" "d \<le> 10000" and m: "5 \<le> m"
    and s: "length (InPTSSqn s) = 100" "InPTSSqn s ! 0 = HI_INVALID_PTS K"
    and valid: "\<forall>q \<in> set (steady_frames p d m). q \<noteq> HI_INVALID_PTS K"
  shows "\<exists>s'. frd_run K s (steady_frames p d m) = Some (of_nat (rate_of_interval d), s')"
proof -
  obtain k where k: "m = Suc (Suc k)" "4 < 2 + k" using that [of "m - 2"] m by simp
  have p: "p \<noteq> HI_INVALID_PTS K" using valid k by simp
  obtain s1 where s1: "OMX_OPTM_ALG_FrameRateDetect K s p = Some (0, s1)" "frd_starting s1 p d 1 0"
    using first_frame [OF s] by blast
  obtain s2 where s2: "OMX_OPTM_ALG_FrameRateDetect K s1 (p + of_nat d) = Some (0, s2)"
    "frd_starting s2 p d 2 (of_nat (rate_of_interval d))"
    using second_frame [OF s1(2) d p] by blast
  have eq: "p + of_nat d + of_nat d = p + of_nat (2 * d)" by simp
  have "\<exists>s'. frd_run K s2 (steady_frames (p + of_nat (2 * d)) d k) = Some (of_nat (rate_of_interval d), s')"
    by (rule run_starting [OF d s2(2) _ _ p k(2)]) (use valid k in \<open>auto simp: algebra_simps\<close>)
  then show ?thesis using s1 s2 k(1) eq by (simp add: algebra_simps)
qed

theorem frd_steady_stream_witness:
  "length (InPTSSqn example_frd) = 100 \<and>
   (\<exists>s'. frd_run example_platform example_frd (steady_frames 4294967200 40 7) = Some (250, s'))"
proof -
  have v: "\<forall>q \<in> set (steady_frames 4294967200 40 7). q \<noteq> HI_INVALID_PTS example_platform"
    by code_simp
  have l: "length (InPTSSqn example_frd) = 100" "InPTSSqn example_frd ! 0 = HI_INVALID_PTS example_platform"
    by (simp_all add: example_frd_def example_platform_def)
  have r: "(of_nat (rate_of_interval 40) :: u32) = 250" by (simp add: rate_of_interval_def)
  show ?thesis
    using frd_steady_stream [of 40 7 example_frd example_platform 4294967200] v l r by simp
qed

text \<open>
  In a state that keeps the invariant of the detector, one call is undefined
  (an access outside \<open>InPTSSqn\<close>) exactly if the history is non-empty and its write
  position has passed the end; otherwise it returns the field \<open>InFrameRate\<close> and
  keeps the invariant (history of 100 entries, bounded counters, a write position
  that is at least one).
\<close>

theorem frd_detect_defined:
  assumes wf: "frd_wf K s"
  shows "(case OMX_OPTM_ALG_FrameRateDetect K s p of
      None \<Rightarrow> InPTSSqn s ! 0 \<noteq> HI_INVALID_PTS K \<and> 100 \<le> unat (nowPTSPtr s)
    | Some (r, s') \<Rightarrow> (InPTSSqn s ! 0 = HI_INVALID_PTS K \<or> unat (nowPTSPtr s) < 100) \<and>
        frd_wf K s' \<and> r = InFrameRate s')"
  using frd_detect_cases [OF wf] .

theorem frd_detect_defined_witness:
  "frd_wf example_platform example_frd \<and>
   (\<exists>s'. OMX_OPTM_ALG_FrameRateDetect example_platform example_frd 5 = Some (0, s') \<and>
     frd_wf example_platform s')"
proof -
  have w: "frd_wf example_platform example_frd"
    by (simp add: frd_wf_def frd_counts_ok_def example_frd_def example_platform_def)
  obtain s' where s': "OMX_OPTM_ALG_FrameRateDetect example_platform example_frd 5 = Some (0, s')"
    using first_frame [of example_frd example_platform 5]
    by (auto simp: example_frd_def example_platform_def)
  then show ?thesis using frd_detect_defined [OF w, of 5] w by simp
qed


text \<open>
  The rate computed from the two newest time stamps is the rate of their
  distance, rounded as \<open>rate_of_interval\<close> says, and is zero outside the accepted
  range.
\<close>

theorem frd_now_rate_exact:
  assumes "1 \<le> n" "n < 100" "nowPTSPtr s = of_nat n"
    and "InPTSSqn s ! n - InPTSSqn s ! (n - 1) = of_nat d" "d < 2 ^ 27"
  shows "OMX_OPTM_ALG_InPTSSqn_CalNowRate s 0 = Some (of_nat (rate_of_interval d))"
proof -
  have "10 * (InPTSSqn s ! n - InPTSSqn s ! (n - 1)) = (of_nat (10 * d) :: u32)"
    using assms(4) by simp
  then show ?thesis
    using CalNowRate_eq [OF assms(1,2,3), of 0] frd_rate_word_interval [OF assms(5)] by (simp del: of_nat_mult)
qed

theorem frd_now_rate_exact_witness:
  "OMX_OPTM_ALG_InPTSSqn_CalNowRate
     (example_frd\<lparr>InPTSSqn := (replicate 100 0)[1 := 33], nowPTSPtr := 1\<rparr>) 0 = Some 303"
  using frd_now_rate_exact [of 1 "example_frd\<lparr>InPTSSqn := (replicate 100 0)[1 := 33], nowPTSPtr := 1\<rparr>" 33]
  by (simp add: rate_of_interval_def)

end
