(* ===== verification/Pts_Recovery.thy ===== *)
theory Pts_Recovery
  imports Frame_Rate_Detect
begin

text \<open>
  Recovery of presentation time stamps in the OMX video decoder driver,
  \<open>drv_omxvdec_pts_recv.c\<close>: a table of 16 channels, each with a small life cycle
  (initialised, stopped, started), the frame time in use, and the frame-rate
  detector of the theory \<open>Frame_Rate_Detect\<close>. Time stamps are in milliseconds,
  frame times in microseconds.

  A handle outside the table is refused with \<open>HI_FAILURE\<close> where the source
  checks it; where it does not, and where the detector leaves its history array,
  the outcome is \<open>None\<close>. \<open>IMAGE\<close> keeps the fields of the source's \<open>IMAGE\<close> that
  this code reads or writes.
\<close>

section \<open>State\<close>

definition PTS_REC_MAX_NUM :: nat where "PTS_REC_MAX_NUM = 16"
definition PTS_REC_MAX_FRAMERATE :: u32 where "PTS_REC_MAX_FRAMERATE = 60"
definition PTS_MAX_VALUE :: u32 where "PTS_MAX_VALUE = 0x5B05B05"
definition PTS_MAX_PASSTIME :: u32 where "PTS_MAX_PASSTIME = 120 * 1000"
definition FRMTIME_SERIES_CNT :: u32 where "FRMTIME_SERIES_CNT = 2"
definition FRMTIME_MAX_JUMP :: u32 where "FRMTIME_MAX_JUMP = 1000"

lemmas ptsrec_consts = PTS_REC_MAX_NUM_def PTS_REC_MAX_FRAMERATE_def PTS_MAX_VALUE_def
  PTS_MAX_PASSTIME_def FRMTIME_SERIES_CNT_def FRMTIME_MAX_JUMP_def

datatype PTSREC_CHAN_STATUS_E = PTSREC_CHAN_INITED | PTSREC_CHAN_STOP | PTSREC_CHAN_START

datatype HI_FRMRATE_TYPE_E =
    HI_FRMRATE_TYPE_PTS | HI_FRMRATE_TYPE_STREAM | HI_FRMRATE_TYPE_USER | HI_FRMRATE_TYPE_USER_PTS

text \<open>The source compares channel states with \<open><\<close> and \<open>>\<close>: the order of the enumeration.\<close>

fun status_value :: "PTSREC_CHAN_STATUS_E \<Rightarrow> nat" where
  "status_value PTSREC_CHAN_INITED = 0"
| "status_value PTSREC_CHAN_STOP = 1"
| "status_value PTSREC_CHAN_START = 2"

instantiation PTSREC_CHAN_STATUS_E :: linorder
begin

definition less_eq_PTSREC_CHAN_STATUS_E :: "PTSREC_CHAN_STATUS_E \<Rightarrow> PTSREC_CHAN_STATUS_E \<Rightarrow> bool" where
  "less_eq_PTSREC_CHAN_STATUS_E a b \<longleftrightarrow> status_value a \<le> status_value b"

definition less_PTSREC_CHAN_STATUS_E :: "PTSREC_CHAN_STATUS_E \<Rightarrow> PTSREC_CHAN_STATUS_E \<Rightarrow> bool" where
  "less_PTSREC_CHAN_STATUS_E a b \<longleftrightarrow> status_value a < status_value b"

instance
proof
  fix a b :: PTSREC_CHAN_STATUS_E
  show "a \<le> b \<Longrightarrow> b \<le> a \<Longrightarrow> a = b"
    by (cases a; cases b) (simp_all add: less_eq_PTSREC_CHAN_STATUS_E_def)
qed (auto simp: less_eq_PTSREC_CHAN_STATUS_E_def less_PTSREC_CHAN_STATUS_E_def)

end

lemmas status_order = less_eq_PTSREC_CHAN_STATUS_E_def less_PTSREC_CHAN_STATUS_E_def

record PTSREC_CHAN_INFO_S =
  enStatus :: PTSREC_CHAN_STATUS_E
  u32LastSrcPts :: u32
  u32LastSrcFrmIdx :: u32
  u32FrameNum :: u32
  u32FrameTimeCnt :: u32
  u32LastCalcFrmTime :: u32
  u32CalcFrameTime :: u32
  u32SetFrameTime :: u32
  u32GesFrameTime :: u32
  s32InterPtsDelta :: u32
  enFrmRateType :: HI_FRMRATE_TYPE_E
  stPtsInfo :: OPTM_ALG_FRD_S

record HI_FRMRATE_PARAM_S =
  rate_type :: HI_FRMRATE_TYPE_E
  u32fpsInteger :: u32
  u32fpsDecimal :: u32

record IMAGE =
  frame_num :: u32
  SrcPts :: "64 word"
  PTS :: "64 word"
  image_width :: u32
  image_height :: u32
  frame_rate :: u32
  Rwzb :: u32

type_synonym ptsrec_table = "PTSREC_CHAN_INFO_S list"

section \<open>Life cycle of a channel\<close>

definition PTSREC_InitParam :: "platform \<Rightarrow> PTSREC_CHAN_INFO_S \<Rightarrow> PTSREC_CHAN_INFO_S" where
  "PTSREC_InitParam K c =
     c\<lparr>u32LastSrcPts := HI_INVALID_PTS K, u32LastSrcFrmIdx := - 1, u32FrameNum := 0,
       u32FrameTimeCnt := 0, u32LastCalcFrmTime := HI_INVALID_TIME K,
       u32CalcFrameTime := HI_INVALID_TIME K, u32GesFrameTime := HI_INVALID_TIME K,
       s32InterPtsDelta := 0,
       stPtsInfo := (stPtsInfo c)\<lparr>u320_Pts := HI_INVALID_PTS K, u32120_Pts := HI_INVALID_PTS K,
                                 u32QueCnt := 0, u32QueStable := 0\<rparr>\<rparr>"

text \<open>\<open>OMX_OPTM_ALG_FrdInfo_Reset(.., 0)\<close> on the detector of a channel; it never fails.\<close>

definition ptsrec_frd_reset :: "platform \<Rightarrow> PTSREC_CHAN_INFO_S \<Rightarrow> PTSREC_CHAN_INFO_S" where
  "ptsrec_frd_reset K c =
     (case OMX_OPTM_ALG_FrdInfo_Reset K (stPtsInfo c) 0 of None \<Rightarrow> c | Some f \<Rightarrow> c\<lparr>stPtsInfo := f\<rparr>)"

definition ptsrec_init_chan :: "platform \<Rightarrow> PTSREC_CHAN_INFO_S \<Rightarrow> PTSREC_CHAN_INFO_S" where
  "ptsrec_init_chan K c =
     (let c1 = ptsrec_frd_reset K (PTSREC_InitParam K
                 (c\<lparr>enStatus := PTSREC_CHAN_INITED, u32SetFrameTime := HI_INVALID_TIME K\<rparr>)) in
      c1\<lparr>stPtsInfo := (stPtsInfo c1)\<lparr>u320_Pts := HI_INVALID_PTS K, u32120_Pts := HI_INVALID_PTS K,
                                    u32QueCnt := 0, u32QueStable := 0\<rparr>,
         enFrmRateType := HI_FRMRATE_TYPE_PTS\<rparr>)"

definition OMX_PTSREC_Init :: "platform \<Rightarrow> ptsrec_table \<Rightarrow> hi_ret \<times> ptsrec_table" where
  "OMX_PTSREC_Init K T = (HI_SUCCESS, map (ptsrec_init_chan K) T)"

definition OMX_PTSREC_Free :: "ptsrec_table \<Rightarrow> u32 \<Rightarrow> hi_ret \<times> ptsrec_table" where
  "OMX_PTSREC_Free T h =
     (if PTS_REC_MAX_NUM \<le> unat h then (HI_FAILURE, T)
      else (HI_SUCCESS, T[unat h := (T ! unat h)\<lparr>enStatus := PTSREC_CHAN_INITED\<rparr>]))"

text \<open>
  \<open>OMX_PTSREC_DeInit\<close> frees the first channel that is still allocated and returns
  \<open>HI_FAILURE\<close> at once: the loop does not go on to the others.
\<close>

definition OMX_PTSREC_DeInit :: "ptsrec_table \<Rightarrow> hi_ret \<times> ptsrec_table" where
  "OMX_PTSREC_DeInit T =
     (case find_index (\<lambda>c. enStatus c > PTSREC_CHAN_INITED) T of
        None \<Rightarrow> (HI_SUCCESS, T)
      | Some i \<Rightarrow> (HI_FAILURE, snd (OMX_PTSREC_Free T (of_nat i))))"

definition OMX_PTSREC_Alloc :: "platform \<Rightarrow> ptsrec_table \<Rightarrow> u32 \<Rightarrow> hi_ret \<times> ptsrec_table" where
  "OMX_PTSREC_Alloc K T h =
     (if PTS_REC_MAX_NUM \<le> unat h then (HI_FAILURE, T)
      else if enStatus (T ! unat h) > PTSREC_CHAN_INITED then (HI_FAILURE, T)
      else (HI_SUCCESS, T[unat h := ptsrec_frd_reset K (PTSREC_InitParam K
              ((T ! unat h)\<lparr>enStatus := PTSREC_CHAN_STOP, u32SetFrameTime := HI_INVALID_TIME K\<rparr>))]))"

definition OMX_PTSREC_Start :: "platform \<Rightarrow> ptsrec_table \<Rightarrow> u32 \<Rightarrow> hi_ret \<times> ptsrec_table" where
  "OMX_PTSREC_Start K T h =
     (if PTS_REC_MAX_NUM \<le> unat h then (HI_FAILURE, T)
      else if enStatus (T ! unat h) < PTSREC_CHAN_STOP then (HI_FAILURE, T)
      else (HI_SUCCESS, T[unat h := PTSREC_InitParam K ((T ! unat h)\<lparr>enStatus := PTSREC_CHAN_START\<rparr>)]))"

definition OMX_PTSREC_Stop :: "ptsrec_table \<Rightarrow> u32 \<Rightarrow> hi_ret \<times> ptsrec_table" where
  "OMX_PTSREC_Stop T h =
     (if PTS_REC_MAX_NUM \<le> unat h then (HI_FAILURE, T)
      else if enStatus (T ! unat h) < PTSREC_CHAN_STOP then (HI_FAILURE, T)
      else (HI_SUCCESS, T[unat h := (T ! unat h)\<lparr>enStatus := PTSREC_CHAN_STOP\<rparr>]))"

definition OMX_PTSREC_Reset :: "platform \<Rightarrow> ptsrec_table \<Rightarrow> u32 \<Rightarrow> hi_ret \<times> ptsrec_table" where
  "OMX_PTSREC_Reset K T h =
     (if PTS_REC_MAX_NUM \<le> unat h then (HI_FAILURE, T)
      else if enStatus (T ! unat h) < PTSREC_CHAN_STOP then (HI_FAILURE, T)
      else if enStatus (T ! unat h) > PTSREC_CHAN_STOP then (HI_FAILURE, T)
      else (HI_SUCCESS, T[unat h := ptsrec_frd_reset K (PTSREC_InitParam K (T ! unat h))]))"

section \<open>Configured frame rate\<close>

definition OMX_PTSREC_SetFrmRate :: "ptsrec_table \<Rightarrow> u32 \<Rightarrow> HI_FRMRATE_PARAM_S \<Rightarrow> hi_ret \<times> ptsrec_table" where
  "OMX_PTSREC_SetFrmRate T h p =
     (if PTS_REC_MAX_NUM \<le> unat h then (HI_FAILURE, T)
      else if enStatus (T ! unat h) < PTSREC_CHAN_STOP then (HI_FAILURE, T)
      else
        (let c = (T ! unat h)\<lparr>enFrmRateType := rate_type p\<rparr> in
         if enFrmRateType c = HI_FRMRATE_TYPE_USER \<or> enFrmRateType c = HI_FRMRATE_TYPE_USER_PTS
         then (let u32DivNum = u32fpsInteger p * 1000 + u32fpsDecimal p in
               if u32DivNum > PTS_REC_MAX_FRAMERATE * 1000 \<or> u32DivNum = 0
               then (HI_FAILURE, T[unat h := c])
               else (HI_SUCCESS, T[unat h := c\<lparr>u32SetFrameTime := 1000000000 div u32DivNum\<rparr>]))
         else (HI_SUCCESS, T[unat h := c\<lparr>u32SetFrameTime := - 1\<rparr>])))"

text \<open>
  The division by a zero \<open>u32SetFrameTime\<close> would trap; the outcome is then \<open>None\<close>.
\<close>

definition OMX_PTSREC_GetFrmRate ::
  "platform \<Rightarrow> ptsrec_table \<Rightarrow> u32 \<Rightarrow> HI_FRMRATE_PARAM_S \<Rightarrow> (hi_ret \<times> HI_FRMRATE_PARAM_S) option" where
  "OMX_PTSREC_GetFrmRate K T h p =
     (if PTS_REC_MAX_NUM \<le> unat h then Some (HI_FAILURE, p)
      else if enStatus (T ! unat h) < PTSREC_CHAN_STOP then Some (HI_FAILURE, p)
      else if u32SetFrameTime (T ! unat h) \<noteq> HI_INVALID_TIME K
      then (if u32SetFrameTime (T ! unat h) = 0 then None
            else let u32Val = 1000000000 div u32SetFrameTime (T ! unat h) in
                 Some (HI_SUCCESS, p\<lparr>u32fpsInteger := u32Val div 1000, u32fpsDecimal := u32Val mod 1000\<rparr>))
      else Some (HI_SUCCESS, p\<lparr>u32fpsInteger := 0, u32fpsDecimal := 0\<rparr>))"

definition OMX_PTSREC_GetInterPtsDelta :: "ptsrec_table \<Rightarrow> u32 \<Rightarrow> u32 option" where
  "OMX_PTSREC_GetInterPtsDelta T h =
     (if PTS_REC_MAX_NUM \<le> unat h then None else Some (s32InterPtsDelta (T ! unat h)))"

section \<open>Time stamp of an image\<close>

text \<open>The frame time guessed from the picture size when nothing else is known.\<close>

definition ptsrec_guess :: "platform \<Rightarrow> PTSREC_CHAN_INFO_S \<Rightarrow> IMAGE \<Rightarrow> PTSREC_CHAN_INFO_S" where
  "ptsrec_guess K c img =
     (if u32GesFrameTime c = HI_INVALID_TIME K
      then (if image_width img \<le> 720 \<and> image_height img \<le> 480 then c\<lparr>u32GesFrameTime := 33333\<rparr>
            else c\<lparr>u32GesFrameTime := 40000\<rparr>)
      else c)"

text \<open>The frame time to extrapolate with, by the channel's priority of sources.\<close>

definition ptsrec_frame_time ::
  "platform \<Rightarrow> PTSREC_CHAN_INFO_S \<Rightarrow> IMAGE \<Rightarrow> u32 \<times> PTSREC_CHAN_INFO_S" where
  "ptsrec_frame_time K c img =
     (let guessed = ptsrec_guess K c img in
      if enFrmRateType c = HI_FRMRATE_TYPE_USER
      then (if u32SetFrameTime c \<noteq> HI_INVALID_TIME K then (u32SetFrameTime c, c)
            else if u32CalcFrameTime c \<noteq> HI_INVALID_TIME K then (u32CalcFrameTime c, c)
            else (u32GesFrameTime guessed, guessed))
      else (if u32CalcFrameTime c \<noteq> HI_INVALID_TIME K then (u32CalcFrameTime c, c)
            else if u32SetFrameTime c \<noteq> HI_INVALID_TIME K then (u32SetFrameTime c, c)
            else (u32GesFrameTime guessed, guessed)))"

text \<open>
  The measured frame time from the distance to the last valid stamp; the macro
  \<open>OPTM_ALG_ABS\<close> is applied to an unsigned difference here, so it is the identity.
\<close>

definition ptsrec_measure :: "platform \<Rightarrow> PTSREC_CHAN_INFO_S \<Rightarrow> u32 \<Rightarrow> u32 \<Rightarrow> PTSREC_CHAN_INFO_S" where
  "ptsrec_measure K c u32PtsPass u32NumPass =
     (let time = u32PtsPass * 1000 div u32NumPass;
          c1 = (if u32CalcFrameTime c \<noteq> HI_INVALID_TIME K then
                  (let cnt = (if time - u32LastCalcFrmTime c > FRMTIME_MAX_JUMP then 0
                              else u32FrameTimeCnt c) + 1 in
                   if cnt \<ge> FRMTIME_SERIES_CNT
                   then c\<lparr>u32CalcFrameTime := time, u32FrameTimeCnt := FRMTIME_SERIES_CNT\<rparr>
                   else c\<lparr>u32FrameTimeCnt := cnt\<rparr>)
                else c\<lparr>u32CalcFrameTime := time, u32FrameTimeCnt := u32FrameTimeCnt c + 1\<rparr>)
      in c1\<lparr>u32LastCalcFrmTime := time, s32InterPtsDelta := u32CalcFrameTime c1 div 2000\<rparr>)"

definition ptsrec_valid_pts ::
  "platform \<Rightarrow> PTSREC_CHAN_INFO_S \<Rightarrow> u32 \<Rightarrow> u32 \<Rightarrow> u32 \<Rightarrow> PTSREC_CHAN_INFO_S" where
  "ptsrec_valid_pts K c u32SrcPts u32NumPass num =
     (let c1 = (if u32LastSrcPts c \<noteq> HI_INVALID_PTS K then
                  (let u32PtsPass = (if u32SrcPts \<ge> u32LastSrcPts c then u32SrcPts - u32LastSrcPts c
                                     else PTS_MAX_VALUE - u32LastSrcPts c + u32SrcPts) in
                   if u32NumPass \<noteq> 0 then
                     (if u32PtsPass \<le> PTS_MAX_PASSTIME then ptsrec_measure K c u32PtsPass u32NumPass
                      else if u32SrcPts \<ge> u32LastSrcPts c then c\<lparr>s32InterPtsDelta := 20\<rparr>
                      else c\<lparr>s32InterPtsDelta := - 20\<rparr>)
                   else c\<lparr>s32InterPtsDelta := 20\<rparr>)
                else c\<lparr>s32InterPtsDelta := 20\<rparr>)
      in c1\<lparr>u32LastSrcPts := u32SrcPts, u32LastSrcFrmIdx := num\<rparr>)"

definition ptsrec_invalid_pts ::
  "platform \<Rightarrow> PTSREC_CHAN_INFO_S \<Rightarrow> u32 \<Rightarrow> IMAGE \<Rightarrow> u32 \<times> PTSREC_CHAN_INFO_S" where
  "ptsrec_invalid_pts K c u32NumPass img =
     (if u32LastSrcPts c \<noteq> HI_INVALID_PTS K then
        (let (u32FrameTime, c1) = ptsrec_frame_time K c img in
         (u32LastSrcPts c1 + u32FrameTime * u32NumPass div 1000,
          c1\<lparr>s32InterPtsDelta := u32FrameTime div 2000\<rparr>))
      else (HI_INVALID_PTS K, c\<lparr>s32InterPtsDelta := 0\<rparr>))"

definition PTSREC_FrameRateDetect ::
  "platform \<Rightarrow> PTSREC_CHAN_INFO_S \<Rightarrow> IMAGE \<Rightarrow> (IMAGE \<times> PTSREC_CHAN_INFO_S) option" where
  "PTSREC_FrameRateDetect K c img =
     (if \<not> (Rwzb img > 0 \<or> enFrmRateType c = HI_FRMRATE_TYPE_STREAM
            \<or> enFrmRateType c = HI_FRMRATE_TYPE_USER) then do {
        (u32FrameRate, f) \<leftarrow> OMX_OPTM_ALG_FrameRateDetect K (stPtsInfo c) (ucast (PTS img));
        Some (img\<lparr>frame_rate := u32FrameRate * 1024 div 10\<rparr>, c\<lparr>stPtsInfo := f\<rparr>) }
      else Some (img, c))"

text \<open>
  The inner \<open>None\<close> of the first component is the return value \<open>HI_FAILURE\<close>.
\<close>

definition OMX_PTSREC_CalcStamp ::
  "platform \<Rightarrow> ptsrec_table \<Rightarrow> u32 \<Rightarrow> IMAGE \<Rightarrow> (u32 option \<times> IMAGE \<times> ptsrec_table) option" where
  "OMX_PTSREC_CalcStamp K T h img0 =
     (if PTS_REC_MAX_NUM \<le> unat h then Some (None, img0, T)
      else if enStatus (T ! unat h) < PTSREC_CHAN_START then Some (None, img0, T)
      else
        (let c = (T ! unat h)\<lparr>u32FrameNum := u32FrameNum (T ! unat h) + 1\<rparr>;
             img = img0\<lparr>frame_num := u32FrameNum c\<rparr>;
             u32NumPass = (if u32LastSrcPts c \<noteq> HI_INVALID_PTS K
                           then frame_num img - u32LastSrcFrmIdx c else 0);
             u32SrcPts = ucast (SrcPts img);
             (u32Pts, c1) = (if u32SrcPts \<noteq> HI_INVALID_PTS K
                             then (u32SrcPts, ptsrec_valid_pts K c u32SrcPts u32NumPass (frame_num img))
                             else ptsrec_invalid_pts K c u32NumPass img)
         in do {
           (img2, c2) \<leftarrow> PTSREC_FrameRateDetect K c1 (img\<lparr>PTS := ucast u32Pts\<rparr>);
           Some (Some u32Pts, img2, T[unat h := c2]) }))"

section \<open>Behaviour over time\<close>

text \<open>Stamping a sequence of images of one channel.\<close>

fun ptsrec_run ::
  "platform \<Rightarrow> ptsrec_table \<Rightarrow> u32 \<Rightarrow> IMAGE list \<Rightarrow> (u32 option list \<times> ptsrec_table) option" where
  "ptsrec_run K T h [] = Some ([], T)"
| "ptsrec_run K T h (img # imgs) =
     (case OMX_PTSREC_CalcStamp K T h img of None \<Rightarrow> None
      | Some (r, _, T') \<Rightarrow> map_option (\<lambda>(rs, U). (r # rs, U)) (ptsrec_run K T' h imgs))"

text \<open>The calls the driver makes on the table, from the table after \<open>OMX_PTSREC_Init\<close>.\<close>

inductive ptsrec_step :: "platform \<Rightarrow> ptsrec_table \<Rightarrow> ptsrec_table \<Rightarrow> bool" for K where
  alloc: "ptsrec_step K T (snd (OMX_PTSREC_Alloc K T h))"
| free: "ptsrec_step K T (snd (OMX_PTSREC_Free T h))"
| start: "ptsrec_step K T (snd (OMX_PTSREC_Start K T h))"
| stop: "ptsrec_step K T (snd (OMX_PTSREC_Stop T h))"
| reset: "ptsrec_step K T (snd (OMX_PTSREC_Reset K T h))"
| deinit: "ptsrec_step K T (snd (OMX_PTSREC_DeInit T))"
| set_rate: "ptsrec_step K T (snd (OMX_PTSREC_SetFrmRate T h p))"
| stamp: "OMX_PTSREC_CalcStamp K T h img = Some (r, img', T') \<Longrightarrow> ptsrec_step K T T'"

inductive ptsrec_reachable :: "platform \<Rightarrow> ptsrec_table \<Rightarrow> bool" for K where
  init: "length T = PTS_REC_MAX_NUM \<Longrightarrow> \<forall>c \<in> set T. unat (unableTime (stPtsInfo c)) \<le> 9 \<Longrightarrow>
     ptsrec_reachable K (snd (OMX_PTSREC_Init K T))"
| step: "ptsrec_reachable K T \<Longrightarrow> ptsrec_step K T U \<Longrightarrow> ptsrec_reachable K U"

definition ptsrec_wf :: "platform \<Rightarrow> ptsrec_table \<Rightarrow> bool" where
  "ptsrec_wf K T \<longleftrightarrow> length T = PTS_REC_MAX_NUM \<and> (\<forall>c \<in> set T. frd_wf K (stPtsInfo c))"

text \<open>The frame time a channel extrapolates with when it need not guess one.\<close>

definition ptsrec_known_time :: "platform \<Rightarrow> PTSREC_CHAN_INFO_S \<Rightarrow> u32" where
  "ptsrec_known_time K c =
     (if enFrmRateType c = HI_FRMRATE_TYPE_USER
      then (if u32SetFrameTime c \<noteq> HI_INVALID_TIME K then u32SetFrameTime c else u32CalcFrameTime c)
      else (if u32CalcFrameTime c \<noteq> HI_INVALID_TIME K then u32CalcFrameTime c else u32SetFrameTime c))"

definition example_channel :: PTSREC_CHAN_INFO_S where
  "example_channel = \<lparr>enStatus = PTSREC_CHAN_START, u32LastSrcPts = 1000, u32LastSrcFrmIdx = 4,
     u32FrameNum = 5, u32FrameTimeCnt = 2, u32LastCalcFrmTime = 40000, u32CalcFrameTime = 40000,
     u32SetFrameTime = - 1, u32GesFrameTime = - 1, s32InterPtsDelta = 20,
     enFrmRateType = HI_FRMRATE_TYPE_STREAM, stPtsInfo = example_frd\<rparr>"

definition example_image :: IMAGE where
  "example_image = \<lparr>frame_num = 0, SrcPts = 0xffffffff, PTS = 0, image_width = 1920,
     image_height = 1080, frame_rate = 0, Rwzb = 0\<rparr>"

section \<open>The invariant of the table\<close>

lemma ptsrec_wf_update:
  "ptsrec_wf K T \<Longrightarrow> frd_wf K (stPtsInfo c) \<Longrightarrow> ptsrec_wf K (T[i := c])"
  by (auto simp: ptsrec_wf_def dest: set_update_subset_insert [THEN subsetD])

lemma ptsrec_wf_nth: "ptsrec_wf K T \<Longrightarrow> unat h < PTS_REC_MAX_NUM \<Longrightarrow> frd_wf K (stPtsInfo (T ! unat h))"
  by (simp add: ptsrec_wf_def)

lemma InitParam_wf [simp]:
  "frd_wf K (stPtsInfo c) \<Longrightarrow> frd_wf K (stPtsInfo (PTSREC_InitParam K c))"
  by (simp add: PTSREC_InitParam_def frd_wf_def frd_counts_ok_def)

lemma frd_reset_eq:
  "stPtsInfo (ptsrec_frd_reset K c) =
   (stPtsInfo c)\<lparr>InPTSSqn := replicate 100 (HI_INVALID_PTS K), InFrameRateEqueTime := 0,
      u320_Pts := HI_INVALID_PTS K, u32120_Pts := HI_INVALID_PTS K, u32QueCnt := 0, u32QueStable := 0\<rparr>"
  by (simp add: ptsrec_frd_reset_def OMX_OPTM_ALG_FrdInfo_Reset_def frd_consts Let_def)

lemma frd_reset_wf [simp]:
  "unat (unableTime (stPtsInfo c)) \<le> 9 \<Longrightarrow> frd_wf K (stPtsInfo (ptsrec_frd_reset K c))"
  by (simp add: frd_reset_eq frd_wf_def frd_counts_ok_def)

lemma frd_wf_unable: "frd_wf K f \<Longrightarrow> unat (unableTime f) \<le> 9"
  by (simp add: frd_wf_def frd_counts_ok_def)

lemma ptsrec_wf_unable:
  "ptsrec_wf K T \<Longrightarrow> unat h < PTS_REC_MAX_NUM \<Longrightarrow> unat (unableTime (stPtsInfo (T ! unat h))) \<le> 9"
  by (rule frd_wf_unable, rule ptsrec_wf_nth)

lemma InitParam_unable [simp]: "unableTime (stPtsInfo (PTSREC_InitParam K c)) = unableTime (stPtsInfo c)"
  by (simp add: PTSREC_InitParam_def)

lemma Init_wf:
  assumes "length T = PTS_REC_MAX_NUM" "\<forall>c \<in> set T. unat (unableTime (stPtsInfo c)) \<le> 9"
  shows "ptsrec_wf K (snd (OMX_PTSREC_Init K T))"
proof -
  have "frd_wf K (stPtsInfo (ptsrec_init_chan K c))" if "c \<in> set T" for c
    using that assms(2)
    by (simp add: ptsrec_init_chan_def Let_def frd_reset_eq frd_wf_def frd_counts_ok_def)
  with assms(1) show ?thesis by (simp add: ptsrec_wf_def OMX_PTSREC_Init_def)
qed

lemma ptsrec_chan_frame [simp]:
  "stPtsInfo (ptsrec_guess K c img) = stPtsInfo c"
  "stPtsInfo (ptsrec_measure K c p n) = stPtsInfo c"
  "stPtsInfo (ptsrec_valid_pts K c p n k) = stPtsInfo c"
  "stPtsInfo (snd (ptsrec_frame_time K c img)) = stPtsInfo c"
  "stPtsInfo (snd (ptsrec_invalid_pts K c n img)) = stPtsInfo c"
  by (simp_all add: ptsrec_guess_def ptsrec_measure_def ptsrec_valid_pts_def ptsrec_frame_time_def
      ptsrec_invalid_pts_def Let_def split_beta)

lemma FrameRateDetect_wf:
  assumes "PTSREC_FrameRateDetect K c img = Some (img', c')" "frd_wf K (stPtsInfo c)"
  shows "frd_wf K (stPtsInfo c')"
  using assms frd_detect_wf [OF assms(2)]
  by (auto simp: PTSREC_FrameRateDetect_def split: if_splits bind_splits)

lemma CalcStamp_wf:
  assumes "OMX_PTSREC_CalcStamp K T h img = Some (r, img', T')" "ptsrec_wf K T"
  shows "ptsrec_wf K T'"
proof (cases "PTS_REC_MAX_NUM \<le> unat h \<or> enStatus (T ! unat h) < PTSREC_CHAN_START")
  case True
  then have "OMX_PTSREC_CalcStamp K T h img = Some (None, img, T)"
    by (elim disjE) (simp_all add: OMX_PTSREC_CalcStamp_def)
  then show ?thesis using assms by simp
next
  case False
  then have h: "frd_wf K (stPtsInfo (T ! unat h))" using assms(2) by (simp add: ptsrec_wf_nth)
  obtain c1 img1 c2 where d: "PTSREC_FrameRateDetect K c1 img1 = Some (img', c2)"
    and c1: "stPtsInfo c1 = stPtsInfo (T ! unat h)" and T': "T' = T[unat h := c2]"
    using assms(1) False
    by (auto simp: OMX_PTSREC_CalcStamp_def Let_def split_beta split: bind_splits if_splits)
  have "frd_wf K (stPtsInfo c2)" using FrameRateDetect_wf [OF d] c1 h by simp
  then show ?thesis using T' assms(2) by (simp add: ptsrec_wf_update)
qed

lemma step_wf: "ptsrec_step K T U \<Longrightarrow> ptsrec_wf K T \<Longrightarrow> ptsrec_wf K U"
proof (induction rule: ptsrec_step.induct)
  case (stamp T h img r img' T')
  then show ?case by (rule CalcStamp_wf)
next
  case (deinit T)
  then show ?case
    by (auto simp: OMX_PTSREC_DeInit_def OMX_PTSREC_Free_def ptsrec_wf_nth
        intro!: ptsrec_wf_update split: option.split)
qed (auto simp: OMX_PTSREC_Alloc_def OMX_PTSREC_Free_def OMX_PTSREC_Start_def OMX_PTSREC_Stop_def
    OMX_PTSREC_Reset_def OMX_PTSREC_SetFrmRate_def Let_def ptsrec_wf_nth ptsrec_wf_unable
    intro!: ptsrec_wf_update)

lemma reachable_wf: "ptsrec_reachable K T \<Longrightarrow> ptsrec_wf K T"
  by (induction rule: ptsrec_reachable.induct) (auto intro: Init_wf step_wf)


section \<open>Stamping\<close>

lemma CalcStamp_started:
  assumes "unat h < PTS_REC_MAX_NUM" "enStatus (T ! unat h) = PTSREC_CHAN_START"
  shows "OMX_PTSREC_CalcStamp K T h img0 =
    (let c = (T ! unat h)\<lparr>u32FrameNum := u32FrameNum (T ! unat h) + 1\<rparr>;
         img = img0\<lparr>frame_num := u32FrameNum c\<rparr>;
         u32NumPass = (if u32LastSrcPts c \<noteq> HI_INVALID_PTS K
                       then frame_num img - u32LastSrcFrmIdx c else 0);
         u32SrcPts = ucast (SrcPts img);
         (u32Pts, c1) = (if u32SrcPts \<noteq> HI_INVALID_PTS K
                         then (u32SrcPts, ptsrec_valid_pts K c u32SrcPts u32NumPass (frame_num img))
                         else ptsrec_invalid_pts K c u32NumPass img)
     in do {
       (img2, c2) \<leftarrow> PTSREC_FrameRateDetect K c1 (img\<lparr>PTS := ucast u32Pts\<rparr>);
       Some (Some u32Pts, img2, T[unat h := c2]) })"
  using assms by (simp add: OMX_PTSREC_CalcStamp_def status_order)

lemma FrameRateDetect_off:
  "enFrmRateType c = HI_FRMRATE_TYPE_STREAM \<or> enFrmRateType c = HI_FRMRATE_TYPE_USER \<Longrightarrow>
   PTSREC_FrameRateDetect K c img = Some (img, c)"
  by (auto simp: PTSREC_FrameRateDetect_def)

lemma frd_detect_None:
  "frd_wf K s \<Longrightarrow> OMX_OPTM_ALG_FrameRateDetect K s p = None \<longleftrightarrow>
     InPTSSqn s ! 0 \<noteq> HI_INVALID_PTS K \<and> 100 \<le> unat (nowPTSPtr s)"
  using frd_detect_cases [of K s p] by (cases "OMX_OPTM_ALG_FrameRateDetect K s p") auto

lemma FrameRateDetect_None:
  "PTSREC_FrameRateDetect K c img = None \<longleftrightarrow>
     \<not> (Rwzb img > 0 \<or> enFrmRateType c = HI_FRMRATE_TYPE_STREAM \<or> enFrmRateType c = HI_FRMRATE_TYPE_USER) \<and>
     OMX_OPTM_ALG_FrameRateDetect K (stPtsInfo c) (ucast (PTS img)) = None"
  by (auto simp: PTSREC_FrameRateDetect_def split: bind_splits)

lemma known_time_frame:
  "ptsrec_known_time K c \<noteq> HI_INVALID_TIME K \<Longrightarrow>
   ptsrec_frame_time K c img = (ptsrec_known_time K c, c)"
  by (auto simp: ptsrec_known_time_def ptsrec_frame_time_def Let_def split: if_splits)

lemma ptsrec_type_frame [simp]:
  "enFrmRateType (ptsrec_valid_pts K c p n k) = enFrmRateType c"
  "enFrmRateType (snd (ptsrec_invalid_pts K c n img)) = enFrmRateType c"
  by (simp_all add: ptsrec_guess_def ptsrec_measure_def ptsrec_valid_pts_def ptsrec_frame_time_def
      ptsrec_invalid_pts_def Let_def split_beta)

lemma CalcStamp_detect:
  assumes "unat h < PTS_REC_MAX_NUM" "enStatus (T ! unat h) = PTSREC_CHAN_START"
  shows "\<exists>c1 p. stPtsInfo c1 = stPtsInfo (T ! unat h) \<and> enFrmRateType c1 = enFrmRateType (T ! unat h) \<and>
    (OMX_PTSREC_CalcStamp K T h img = None \<longleftrightarrow> PTSREC_FrameRateDetect K c1
        (img\<lparr>frame_num := u32FrameNum (T ! unat h) + 1, PTS := p\<rparr>) = None)"
proof -
  let ?c = "(T ! unat h)\<lparr>u32FrameNum := u32FrameNum (T ! unat h) + 1\<rparr>"
  let ?img = "img\<lparr>frame_num := u32FrameNum ?c\<rparr>"
  let ?num = "if u32LastSrcPts ?c \<noteq> HI_INVALID_PTS K then frame_num ?img - u32LastSrcFrmIdx ?c else 0"
  let ?r = "if ucast (SrcPts ?img) \<noteq> HI_INVALID_PTS K
            then (ucast (SrcPts ?img), ptsrec_valid_pts K ?c (ucast (SrcPts ?img)) ?num (frame_num ?img))
            else ptsrec_invalid_pts K ?c ?num ?img"
  have "OMX_PTSREC_CalcStamp K T h img = None \<longleftrightarrow>
      PTSREC_FrameRateDetect K (snd ?r) (?img\<lparr>PTS := ucast (fst ?r)\<rparr>) = None"
    unfolding CalcStamp_started [OF assms] Let_def
    by (simp add: split_beta split: bind_splits split del: if_split)
  moreover have "stPtsInfo (snd ?r) = stPtsInfo (T ! unat h)" "enFrmRateType (snd ?r) = enFrmRateType (T ! unat h)"
    by simp_all
  ultimately show ?thesis by (intro exI [of _ "snd ?r"] exI [of _ "ucast (fst ?r)"]) simp
qed

text \<open>The channel after an image without a time stamp of its own.\<close>

definition ptsrec_after_invalid :: "platform \<Rightarrow> PTSREC_CHAN_INFO_S \<Rightarrow> PTSREC_CHAN_INFO_S" where
  "ptsrec_after_invalid K c =
     c\<lparr>u32FrameNum := u32FrameNum c + 1, s32InterPtsDelta := ptsrec_known_time K c div 2000\<rparr>"

lemma after_invalid_frame [simp]:
  "enStatus (ptsrec_after_invalid K c) = enStatus c"
  "u32LastSrcPts (ptsrec_after_invalid K c) = u32LastSrcPts c"
  "u32LastSrcFrmIdx (ptsrec_after_invalid K c) = u32LastSrcFrmIdx c"
  "u32FrameNum (ptsrec_after_invalid K c) = u32FrameNum c + 1"
  "enFrmRateType (ptsrec_after_invalid K c) = enFrmRateType c"
  "ptsrec_known_time K (ptsrec_after_invalid K c) = ptsrec_known_time K c"
  by (simp_all add: ptsrec_after_invalid_def ptsrec_known_time_def)

lemma CalcStamp_invalid:
  assumes h: "unat h < PTS_REC_MAX_NUM" and c: "c = T ! unat h" "enStatus c = PTSREC_CHAN_START"
    and t: "u32LastSrcPts c \<noteq> HI_INVALID_PTS K"
    and type: "enFrmRateType c = HI_FRMRATE_TYPE_STREAM \<or> enFrmRateType c = HI_FRMRATE_TYPE_USER"
    and f: "ptsrec_known_time K c \<noteq> HI_INVALID_TIME K"
    and img: "ucast (SrcPts img) = HI_INVALID_PTS K"
  shows "\<exists>img'. OMX_PTSREC_CalcStamp K T h img = Some (Some (u32LastSrcPts c + ptsrec_known_time K c *
       (u32FrameNum c + 1 - u32LastSrcFrmIdx c) div 1000), img', T[unat h := ptsrec_after_invalid K c])"
proof -
  let ?c = "c\<lparr>u32FrameNum := u32FrameNum c + 1\<rparr>"
  let ?img = "img\<lparr>frame_num := u32FrameNum c + 1\<rparr>"
  have k: "ptsrec_known_time K ?c = ptsrec_known_time K c" by (simp add: ptsrec_known_time_def)
  have i: "ptsrec_invalid_pts K ?c n ?img =
      (u32LastSrcPts c + ptsrec_known_time K c * n div 1000, ptsrec_after_invalid K c)" for n
    using t f known_time_frame [of K ?c ?img] k
    by (simp add: ptsrec_invalid_pts_def ptsrec_after_invalid_def)
  have "PTSREC_FrameRateDetect K (ptsrec_after_invalid K c) x = Some (x, ptsrec_after_invalid K c)" for x
    using type by (intro FrameRateDetect_off) simp
  then show ?thesis
    using h c t img i by (simp add: CalcStamp_started)
qed

lemma word_unat_minus_one: "unat (- 1 :: u32) = 4294967295"
  by (simp add: unsigned_minus_1_eq_mask mask_eq_exp_minus_1)

lemma unat_mult_1000: "unat (x :: u32) \<le> 120000 \<Longrightarrow> unat (x * 1000) = unat x * 1000"
  by (simp add: unat_word_ariths)

lemma div_div_roundtrip:
  assumes "0 < (v::nat)" "v \<le> 60000"
  shows "v \<le> 1000000000 div (1000000000 div v)" "1000000000 div (1000000000 div v) \<le> v + 3"
proof -
  define q where "q = 1000000000 div v"
  have q: "0 < q" using assms by (simp add: q_def div_greater_zero_iff)
  have lo: "v * q \<le> 1000000000" by (simp add: q_def)
  then show "v \<le> 1000000000 div (1000000000 div v)" using q by (simp add: less_eq_div_iff_mult_less_eq flip: q_def)
  have "1000000000 mod v < v" using assms by simp
  then have "1000000000 < v * q + v"
    by (metis add_strict_left_mono mult_div_mod_eq q_def)
  moreover have "v \<le> 4 * q"
  proof -
    have "1000000000 div 60000 \<le> q" unfolding q_def using assms by (intro div_le_mono2) auto
    then show ?thesis using assms by simp
  qed
  ultimately have "1000000000 < (v + 4) * q" by (simp add: algebra_simps)
  then have "1000000000 div q < v + 4" using q by (simp add: div_less_iff_less_mult)
  then show "1000000000 div (1000000000 div v) \<le> v + 3" by (simp flip: q_def)
qed

section \<open>Properties\<close>

text \<open>
  C31: on every table the driver can reach from \<open>OMX_PTSREC_Init\<close> by any sequence
  of its calls there are 16 channels, and stamping an image is undefined exactly if
  the channel is started, uses the rate detector, and the write position of the
  detector's non-empty history has passed its 100 entries; every other call returns
  a stamp or \<open>HI_FAILURE\<close>.
\<close>

theorem ptsrec_reachable_stamp_defined:
  assumes "ptsrec_reachable K T"
  shows "length T = PTS_REC_MAX_NUM \<and>
    (OMX_PTSREC_CalcStamp K T h img = None \<longleftrightarrow>
      unat h < PTS_REC_MAX_NUM \<and> enStatus (T ! unat h) = PTSREC_CHAN_START \<and> Rwzb img = 0 \<and>
      enFrmRateType (T ! unat h) \<noteq> HI_FRMRATE_TYPE_STREAM \<and>
      enFrmRateType (T ! unat h) \<noteq> HI_FRMRATE_TYPE_USER \<and>
      InPTSSqn (stPtsInfo (T ! unat h)) ! 0 \<noteq> HI_INVALID_PTS K \<and>
      100 \<le> unat (nowPTSPtr (stPtsInfo (T ! unat h))))"
proof (cases "unat h < PTS_REC_MAX_NUM \<and> enStatus (T ! unat h) = PTSREC_CHAN_START")
  case True
  then have h: "unat h < PTS_REC_MAX_NUM" "enStatus (T ! unat h) = PTSREC_CHAN_START" by auto
  have wf: "ptsrec_wf K T" using reachable_wf [OF assms] .
  obtain c1 p where c1: "stPtsInfo c1 = stPtsInfo (T ! unat h)" "enFrmRateType c1 = enFrmRateType (T ! unat h)"
    and n: "OMX_PTSREC_CalcStamp K T h img = None \<longleftrightarrow> PTSREC_FrameRateDetect K c1
        (img\<lparr>frame_num := u32FrameNum (T ! unat h) + 1, PTS := p\<rparr>) = None"
    using CalcStamp_detect [OF h] by metis
  have "frd_wf K (stPtsInfo (T ! unat h))" using wf h by (simp add: ptsrec_wf_nth)
  then show ?thesis
    using frd_detect_None [of K "stPtsInfo (T ! unat h)" "ucast p"] n c1 h wf
    by (auto simp: FrameRateDetect_None ptsrec_wf_def simp flip: word_neq_0_conv)
next
  case False
  then have "OMX_PTSREC_CalcStamp K T h img = Some (None, img, T)"
    by (cases "enStatus (T ! unat h)") (auto simp: OMX_PTSREC_CalcStamp_def status_order)
  with False reachable_wf [OF assms] show ?thesis by (auto simp: ptsrec_wf_def)
qed

theorem ptsrec_reachable_stamp_defined_witness:
  "\<exists>T. ptsrec_reachable example_platform T \<and> length T = 16 \<and>
       OMX_PTSREC_CalcStamp example_platform T 3 example_image \<noteq> None"
proof -
  let ?T = "snd (OMX_PTSREC_Init example_platform (replicate 16 example_channel))"
  have r: "ptsrec_reachable example_platform ?T"
    by (rule ptsrec_reachable.init) (simp_all add: ptsrec_consts example_channel_def example_frd_def)
  have "enStatus (?T ! 3) = PTSREC_CHAN_INITED"
    by (simp add: OMX_PTSREC_Init_def ptsrec_init_chan_def ptsrec_frd_reset_def PTSREC_InitParam_def
        OMX_OPTM_ALG_FrdInfo_Reset_def Let_def)
  then show ?thesis
    using ptsrec_reachable_stamp_defined [OF r, of 3 example_image] r by (auto simp: ptsrec_consts)
qed



text \<open>
  An image that carries a time stamp keeps it, and the channel measures the
  frame time from it: if the previous stamp is at most two minutes old and no
  measurement exists yet, the frame time becomes the distance in microseconds over
  the number of images in between, rounded down.
\<close>

theorem ptsrec_valid_stamp:
  assumes "unat h < PTS_REC_MAX_NUM" "length T = PTS_REC_MAX_NUM" "c = T ! unat h"
    and "enStatus c = PTSREC_CHAN_START"
    and "enFrmRateType c = HI_FRMRATE_TYPE_STREAM \<or> enFrmRateType c = HI_FRMRATE_TYPE_USER"
    and "ucast (SrcPts img) = p" "p \<noteq> HI_INVALID_PTS K"
  shows "\<exists>img' T'. OMX_PTSREC_CalcStamp K T h img = Some (Some p, img', T') \<and> PTS img' = ucast p \<and>
      u32LastSrcPts (T' ! unat h) = p \<and>
      u32LastSrcFrmIdx (T' ! unat h) = u32FrameNum (T' ! unat h) \<and>
      (u32LastSrcPts c \<noteq> HI_INVALID_PTS K \<and> u32LastSrcPts c \<le> p \<and> unat (p - u32LastSrcPts c) \<le> 120000 \<and>
       u32CalcFrameTime c = HI_INVALID_TIME K \<and> u32FrameNum c + 1 - u32LastSrcFrmIdx c = of_nat n \<and>
       0 < n \<and> n < 2 ^ 32 \<longrightarrow>
       unat (u32CalcFrameTime (T' ! unat h)) = unat (p - u32LastSrcPts c) * 1000 div n)"
proof -
  let ?c = "c\<lparr>u32FrameNum := u32FrameNum c + 1\<rparr>"
  let ?num = "if u32LastSrcPts c \<noteq> HI_INVALID_PTS K then u32FrameNum c + 1 - u32LastSrcFrmIdx c else 0"
  let ?v = "ptsrec_valid_pts K ?c p ?num (u32FrameNum c + 1)"
  have ty: "enFrmRateType ?v = enFrmRateType c"
    by (simp add: ptsrec_valid_pts_def ptsrec_measure_def Let_def)
  then have "PTSREC_FrameRateDetect K ?v x = Some (x, ?v)" for x
    using assms(5) by (intro FrameRateDetect_off) simp
  then have r: "OMX_PTSREC_CalcStamp K T h img =
      Some (Some p, img\<lparr>frame_num := u32FrameNum c + 1, PTS := ucast p\<rparr>, T[unat h := ?v])"
    using assms(1,2,4-7) by (simp add: CalcStamp_started Let_def assms(3) [symmetric]
        cong: if_cong split del: if_split)
  have l: "u32LastSrcPts ?v = p" "u32LastSrcFrmIdx ?v = u32FrameNum ?v"
    by (simp_all add: ptsrec_valid_pts_def ptsrec_measure_def Let_def)
  have "unat (u32CalcFrameTime ?v) = unat (p - u32LastSrcPts c) * 1000 div n"
    if "u32LastSrcPts c \<noteq> HI_INVALID_PTS K" "u32LastSrcPts c \<le> p" "unat (p - u32LastSrcPts c) \<le> 120000"
      "u32CalcFrameTime c = HI_INVALID_TIME K" "u32FrameNum c + 1 - u32LastSrcFrmIdx c = of_nat n"
      "0 < n" "n < 2 ^ 32"
  proof -
    have n: "unat (of_nat n :: u32) = n" using that(7) by (rule unat_of_nat_small)
    then have n0: "(of_nat n :: u32) \<noteq> 0" using that(6) by auto
    have d: "p - u32LastSrcPts c \<le> PTS_MAX_PASSTIME" using that(3) by (simp add: word_nat ptsrec_consts)
    have m: "unat ((p - u32LastSrcPts c) * 1000) = unat (p - u32LastSrcPts c) * 1000"
      using that(3) by (rule unat_mult_1000)
    have "u32CalcFrameTime ?v = (p - u32LastSrcPts c) * 1000 div of_nat n"
      using that n0 d by (simp add: ptsrec_valid_pts_def ptsrec_measure_def Let_def)
    then have "unat (u32CalcFrameTime ?v) = unat ((p - u32LastSrcPts c) * 1000) div unat (of_nat n :: u32)"
      by (simp only: unat_div)
    then show ?thesis by (simp only: n m)
  qed
  with r l show ?thesis using assms(1,2) by auto
qed

theorem ptsrec_valid_stamp_witness:
  "\<exists>img' T'. OMX_PTSREC_CalcStamp example_platform
       (replicate 16 (example_channel\<lparr>u32CalcFrameTime := - 1\<rparr>)) 3 (example_image\<lparr>SrcPts := 1100\<rparr>) =
     Some (Some 1100, img', T') \<and> unat (u32CalcFrameTime (T' ! 3)) = 50000"
  using ptsrec_valid_stamp [of 3 "replicate 16 (example_channel\<lparr>u32CalcFrameTime := - 1\<rparr>)" _
      "example_image\<lparr>SrcPts := 1100\<rparr>" 1100 example_platform 2]
  by (auto simp: example_channel_def example_image_def example_platform_def ptsrec_consts)

text \<open>
  Setting a frame rate of up to 60 frames per second, in thousandths, and
  reading it back gives the same rate up to three thousandths: the stored frame time
  is a whole number of microseconds, so the rate read is never lower than the one set.
\<close>

theorem ptsrec_frame_rate_roundtrip:
  assumes "unat h < PTS_REC_MAX_NUM" "length T = PTS_REC_MAX_NUM"
    and "enStatus (T ! unat h) = PTSREC_CHAN_STOP \<or> enStatus (T ! unat h) = PTSREC_CHAN_START"
    and "rate_type p = HI_FRMRATE_TYPE_USER \<or> rate_type p = HI_FRMRATE_TYPE_USER_PTS"
    and v: "v = unat (u32fpsInteger p) * 1000 + unat (u32fpsDecimal p)" "0 < v" "v \<le> 60000"
    and inv: "unat (HI_INVALID_TIME K) \<noteq> 1000000000 div v"
  shows "\<exists>T' q. OMX_PTSREC_SetFrmRate T h p = (HI_SUCCESS, T') \<and>
      OMX_PTSREC_GetFrmRate K T' h p0 = Some (HI_SUCCESS, q) \<and> unat (u32fpsDecimal q) < 1000 \<and>
      v \<le> unat (u32fpsInteger q) * 1000 + unat (u32fpsDecimal q) \<and>
      unat (u32fpsInteger q) * 1000 + unat (u32fpsDecimal q) \<le> v + 3"
proof -
  let ?w = "u32fpsInteger p * 1000 + u32fpsDecimal p"
  have w: "unat ?w = v" using v by (simp add: unat_word_ariths)
  have w1: "\<not> ?w > PTS_REC_MAX_FRAMERATE * 1000" "?w \<noteq> 0"
    using w v by (auto simp: word_nat ptsrec_consts word_unat_eq_iff simp del: unat_eq_0)
  let ?t = "1000000000 div ?w"
  have t: "unat ?t = 1000000000 div v" by (simp add: unat_div w)
  have tpos: "0 < 1000000000 div v" using v by (simp add: div_greater_zero_iff)
  have t1: "?t \<noteq> HI_INVALID_TIME K" using inv t by auto
  have t2: "?t \<noteq> 0" using t tpos by auto
  let ?u = "1000000000 div ?t"
  have u: "unat ?u = 1000000000 div (1000000000 div v)" by (simp add: unat_div w)
  obtain T' where T': "OMX_PTSREC_SetFrmRate T h p = (HI_SUCCESS, T')"
    "u32SetFrameTime (T' ! unat h) = ?t" "enStatus (T' ! unat h) = enStatus (T ! unat h)"
    using assms(1-4) w1 by (auto simp: OMX_PTSREC_SetFrmRate_def Let_def status_order)
  then have "OMX_PTSREC_GetFrmRate K T' h p0 =
      Some (HI_SUCCESS, p0\<lparr>u32fpsInteger := ?u div 1000, u32fpsDecimal := ?u mod 1000\<rparr>)"
    using assms(1,3) t1 t2 by (auto simp: OMX_PTSREC_GetFrmRate_def Let_def status_order)
  moreover have "unat (?u div 1000) * 1000 + unat (?u mod 1000) = 1000000000 div (1000000000 div v)"
    using u by (simp add: unat_div unat_mod)
  moreover have "unat (?u mod 1000) < 1000" by (simp add: unat_mod)
  ultimately show ?thesis using T'(1) div_div_roundtrip [OF v(2,3)] by auto
qed

theorem ptsrec_frame_rate_roundtrip_witness:
  "\<exists>T' q. OMX_PTSREC_SetFrmRate (replicate 16 example_channel) 3
        \<lparr>rate_type = HI_FRMRATE_TYPE_USER, u32fpsInteger = 59, u32fpsDecimal = 940\<rparr> = (HI_SUCCESS, T') \<and>
      OMX_PTSREC_GetFrmRate example_platform T' 3
        \<lparr>rate_type = HI_FRMRATE_TYPE_USER, u32fpsInteger = 0, u32fpsDecimal = 0\<rparr> = Some (HI_SUCCESS, q) \<and>
      59940 \<le> unat (u32fpsInteger q) * 1000 + unat (u32fpsDecimal q)"
  using ptsrec_frame_rate_roundtrip [of 3 "replicate 16 example_channel"
      "\<lparr>rate_type = HI_FRMRATE_TYPE_USER, u32fpsInteger = 59, u32fpsDecimal = 940\<rparr>" 59940 example_platform
      "\<lparr>rate_type = HI_FRMRATE_TYPE_USER, u32fpsInteger = 0, u32fpsDecimal = 0\<rparr>"]
  by (auto simp: example_channel_def example_platform_def ptsrec_consts word_unat_minus_one)

end
