(* ===== verification/Omx_Buffers.thy ===== *)
theory Omx_Buffers
  imports HiSTB_Prelude
begin

text \<open>
  The buffers of an OMX decoder channel: \<open>OMXVDEC_BUF_S\<close> of \<open>channel.h\<close>, the address
  tables and the buffer queues that \<open>channel.c\<close>, \<open>decoder_vfmw.c\<close> and
  \<open>processor_vpss.c\<close> keep for the input side (bit stream, raw) and the output side
  (pictures, yuv).

  The source keeps for each side a table of fixed size, the number of entries in
  use, a linked list threaded through the entries and a counter of the entries that the
  hardware side holds, and most functions pick one side by the direction of the
  request. The model has one record \<open>port\<close> for a side; the channel has two of them.
  \<open>bufs\<close> is the memory of the table, followed on the input side by the channel's
  \<open>last_frame\<close>, which is linked into the same list; a pointer to a buffer is its
  position in \<open>bufs\<close>, so the linked list is a list of positions. Linking a node
  twice, or overwriting a node that is linked, has no defined meaning in C and gives
  the outcome \<open>None\<close>.

  The number of entries in use is a natural number: the source only increments it
  below the 32-bit maximum of the table.
\<close>

section \<open>Buffers\<close>

datatype eBUFFER_STATE = BUF_STATE_INVALID | BUF_STATE_IDLE | BUF_STATE_QUEUED | BUF_STATE_USING

datatype eBUFFER_TYPE = OMX_ALLOCATE_USR | OMX_USE_OTHER | OMX_USE_NATIVE | OMX_ALLOCATE_SECURE
  | OMX_ALLOCATE_DRIVER | OMX_BUTT_TYPE

datatype ePORT_DIR = PORT_DIR_INPUT | PORT_DIR_OUTPUT | PORT_DIR_BOTH | PORT_DIR_INVALID

record OMXVDEC_BUF_S =
  buf_type :: eBUFFER_TYPE
  status :: eBUFFER_STATE
  phy_addr :: u32
  private_phy_addr :: u32
  buf_len :: u32
  act_len :: u32
  private_len :: u32
  offset :: u32
  flags :: u32
  buf_id :: u32
  time_stamp :: s64
  usr_tag :: u32
  user_vaddr :: u32
  kern_vaddr :: u32
  client_data :: u32
  u32FrameRate :: u32

record OMXVDEC_FRAME_S =
  phyaddr_Y :: u32
  phyaddr_C :: u32
  stride :: u32
  width :: u32
  height :: u32
  save_yuv :: bool

text \<open>What the user side passes with a request, and what a message carries back.\<close>

record OMXVDEC_BUF_DESC =
  phyaddr :: u32
  buffer_len :: u32
  data_offset :: u32
  data_len :: u32
  private_phyaddr :: u32
  d_private_len :: u32
  d_flags :: u32
  timestamp :: s64
  buffer_type :: eBUFFER_TYPE
  dir :: ePORT_DIR
  out_frame :: OMXVDEC_FRAME_S
  bufferaddr :: u32
  d_client_data :: u32
  u32FrameIndex :: u32
  hTunnelSrc :: u32
  d_u32FrameRate :: u32

text \<open>\<open>memset(.., 0, ..)\<close> on a buffer, a frame and a descriptor.\<close>

definition zero_buf :: OMXVDEC_BUF_S where
  "zero_buf = \<lparr>buf_type = OMX_ALLOCATE_USR, status = BUF_STATE_INVALID, phy_addr = 0,
     private_phy_addr = 0, buf_len = 0, act_len = 0, private_len = 0, offset = 0, flags = 0,
     buf_id = 0, time_stamp = 0, usr_tag = 0, user_vaddr = 0, kern_vaddr = 0, client_data = 0,
     u32FrameRate = 0\<rparr>"

definition zero_frame :: OMXVDEC_FRAME_S where
  "zero_frame = \<lparr>phyaddr_Y = 0, phyaddr_C = 0, stride = 0, width = 0, height = 0, save_yuv = False\<rparr>"

definition zero_desc :: OMXVDEC_BUF_DESC where
  "zero_desc = \<lparr>phyaddr = 0, buffer_len = 0, data_offset = 0, data_len = 0, private_phyaddr = 0,
     d_private_len = 0, d_flags = 0, timestamp = 0, buffer_type = OMX_ALLOCATE_USR,
     dir = PORT_DIR_INPUT, out_frame = zero_frame, bufferaddr = 0, d_client_data = 0,
     u32FrameIndex = 0, hTunnelSrc = 0, d_u32FrameRate = 0\<rparr>"

section \<open>One side of a channel\<close>

record port =
  bufs :: "OMXVDEC_BUF_S list"
  buf_num :: nat
  max_buf_num :: nat
  queue :: "nat list"
  use_cnt :: u32
  flush_pending :: bool

definition port_buf :: "port \<Rightarrow> nat \<Rightarrow> OMXVDEC_BUF_S" where
  "port_buf p i = bufs p ! i"

definition port_put :: "port \<Rightarrow> nat \<Rightarrow> OMXVDEC_BUF_S \<Rightarrow> port" where
  "port_put p i b = p\<lparr>bufs := (bufs p)[i := b]\<rparr>"

text \<open>\<open>list_add_tail\<close> and \<open>list_del\<close> on the queue of the port.\<close>

definition list_add_tail :: "port \<Rightarrow> nat \<Rightarrow> port option" where
  "list_add_tail p i = (if i \<in> set (queue p) then None else Some (p\<lparr>queue := queue p @ [i]\<rparr>))"

definition list_del :: "port \<Rightarrow> nat \<Rightarrow> port" where
  "list_del p i = p\<lparr>queue := remove1 i (queue p)\<rparr>"

definition in_use :: "port \<Rightarrow> nat \<Rightarrow> bool" where
  "in_use p i \<longleftrightarrow> status (port_buf p i) = BUF_STATE_USING"

section \<open>The address table\<close>

definition port_find :: "port \<Rightarrow> u32 \<Rightarrow> nat option" where
  "port_find p a = find_index (\<lambda>b. phy_addr b = a) (take (buf_num p) (bufs p))"

definition port_lookup :: "port \<Rightarrow> OMXVDEC_BUF_DESC \<Rightarrow> (nat \<times> port) option" where
  "port_lookup p d =
     (case port_find p (phyaddr d) of None \<Rightarrow> None
      | Some i \<Rightarrow> Some (i, port_put p i ((port_buf p i)\<lparr>user_vaddr := bufferaddr d\<rparr>)))"

definition port_full :: "port \<Rightarrow> bool" where
  "port_full p \<longleftrightarrow> max_buf_num p \<le> buf_num p"

definition port_insert :: "port \<Rightarrow> OMXVDEC_BUF_DESC \<Rightarrow> u32 \<Rightarrow> port" where
  "port_insert p d kaddr =
     (port_put p (buf_num p)
       ((port_buf p (buf_num p))\<lparr>user_vaddr := bufferaddr d, phy_addr := phyaddr d,
          private_phy_addr := private_phyaddr d, kern_vaddr := kaddr, client_data := d_client_data d,
          buf_len := buffer_len d, act_len := 0, private_len := d_private_len d, offset := 0,
          buf_type := buffer_type d, status := BUF_STATE_IDLE, buf_id := of_nat (buf_num p)\<rparr>))
      \<lparr>buf_num := buf_num p + 1\<rparr>"

text \<open>
  Deleting the entry at position \<open>i\<close>: unless it is the last one, the last entry is
  copied over it, and the queue node with the address of the last entry is replaced
  by the copy, at the tail of the queue.
\<close>

definition port_move_last :: "port \<Rightarrow> nat \<Rightarrow> port option" where
  "port_move_last p i =
     (let last = buf_num p - 1;
          p1 = port_put p i ((port_buf p last)\<lparr>buf_id := of_nat i\<rparr>) in
      case find_index (\<lambda>q. phy_addr (port_buf p1 q) = phy_addr (port_buf p1 last)) (queue p1) of
        None \<Rightarrow> Some p1
      | Some k \<Rightarrow> list_add_tail (list_del p1 (queue p1 ! k)) i)"

definition port_delete :: "port \<Rightarrow> nat \<Rightarrow> port option" where
  "port_delete p i =
     (if i \<in> set (queue p) then None else
      let p0 = port_put p i ((port_buf p i)\<lparr>kern_vaddr := 0\<rparr>);
          last = buf_num p - 1 in
      case (if i < last then port_move_last p0 i else Some p0) of
        None \<Rightarrow> None
      | Some p1 \<Rightarrow> if last \<in> set (queue p1) then None
                   else Some ((port_put p1 last zero_buf)\<lparr>buf_num := last\<rparr>))"

section \<open>The queue\<close>

definition port_enqueue :: "port \<Rightarrow> nat \<Rightarrow> (hi_ret \<times> port) option" where
  "port_enqueue p i =
     (if \<exists>q \<in> set (queue p). phy_addr (port_buf p q) = phy_addr (port_buf p i)
      then Some (HI_FAILURE, p)
      else case list_add_tail (port_put p i ((port_buf p i)\<lparr>status := BUF_STATE_QUEUED\<rparr>)) i of
             None \<Rightarrow> None | Some p' \<Rightarrow> Some (HI_SUCCESS, p'))"

text \<open>
  Handing out the first entry of the queue that is not in use and is large enough
  (\<open>need = 0\<close> on the input side).
\<close>

definition port_first_free :: "port \<Rightarrow> u32 \<Rightarrow> nat option" where
  "port_first_free p need =
     find_index (\<lambda>q. status (port_buf p q) \<noteq> BUF_STATE_USING \<and> need \<le> buf_len (port_buf p q)) (queue p)"

definition port_take :: "port \<Rightarrow> u32 \<Rightarrow> (nat \<times> port) option" where
  "port_take p need =
     (case port_first_free p need of None \<Rightarrow> None
      | Some k \<Rightarrow> let q = queue p ! k in
          Some (q, (port_put p q ((port_buf p q)\<lparr>status := BUF_STATE_USING\<rparr>))\<lparr>use_cnt := use_cnt p + 1\<rparr>))"

text \<open>The first queued entry whose data starts at an address.\<close>

definition port_at :: "port \<Rightarrow> u32 \<Rightarrow> nat option" where
  "port_at p a =
     (case find_index (\<lambda>q. phy_addr (port_buf p q) + offset (port_buf p q) = a) (queue p) of
        None \<Rightarrow> None | Some k \<Rightarrow> Some (queue p ! k))"

definition port_idle :: "port \<Rightarrow> nat \<Rightarrow> port" where
  "port_idle p i = port_put p i ((port_buf p i)\<lparr>status := BUF_STATE_IDLE\<rparr>)"

definition port_uncount :: "port \<Rightarrow> port" where
  "port_uncount p = p\<lparr>use_cnt := (if use_cnt p > 0 then use_cnt p - 1 else 0)\<rparr>"

text \<open>
  The loop of a flush: every queued entry that is not in use leaves the queue, after
  the update \<open>clr\<close>; the entries that left are returned in order.
\<close>

fun flush_loop :: "(OMXVDEC_BUF_S \<Rightarrow> OMXVDEC_BUF_S) \<Rightarrow> port \<Rightarrow> nat list \<Rightarrow> nat list \<times> port" where
  "flush_loop clr p [] = ([], p)"
| "flush_loop clr p (q # qs) =
     (if status (port_buf p q) = BUF_STATE_USING then flush_loop clr p qs
      else let (r, p') = flush_loop clr (list_del (port_put p q (clr (port_buf p q))) q) qs
           in (q # r, p'))"

definition port_flush :: "(OMXVDEC_BUF_S \<Rightarrow> OMXVDEC_BUF_S) \<Rightarrow> port \<Rightarrow> nat list \<times> port" where
  "port_flush clr p = flush_loop clr p (queue p)"

section \<open>The invariant of a port\<close>

text \<open>
  \<open>extra\<close> is the number of buffers behind the table that may be queued too: one on the
  input side (\<open>last_frame\<close>), none on the output side.
\<close>

definition live :: "nat \<Rightarrow> port \<Rightarrow> nat set" where
  "live extra p = {i. i < buf_num p \<or> (max_buf_num p \<le> i \<and> i < max_buf_num p + extra)}"

definition table_wf :: "nat \<Rightarrow> port \<Rightarrow> bool" where
  "table_wf extra p \<longleftrightarrow> length (bufs p) = max_buf_num p + extra \<and> buf_num p \<le> max_buf_num p \<and>
     max_buf_num p < 2 ^ 31 \<and> extra \<le> 1 \<and>
     (\<forall>i < buf_num p. buf_id (port_buf p i) = of_nat i \<and> status (port_buf p i) \<noteq> BUF_STATE_INVALID) \<and>
     (\<forall>i < buf_num p. \<forall>j \<in> live extra p.
        phy_addr (port_buf p i) = phy_addr (port_buf p j) \<longrightarrow> i = j)"

definition queued :: "port \<Rightarrow> nat \<Rightarrow> bool" where
  "queued p i \<longleftrightarrow> status (port_buf p i) = BUF_STATE_QUEUED \<or> status (port_buf p i) = BUF_STATE_USING"

definition users :: "port \<Rightarrow> nat set" where
  "users p = {q \<in> set (queue p). in_use p q}"

definition queue_wf :: "nat \<Rightarrow> port \<Rightarrow> bool" where
  "queue_wf extra p \<longleftrightarrow> distinct (queue p) \<and> set (queue p) \<subseteq> live extra p \<and>
     (\<forall>i \<in> live extra p. queued p i \<longleftrightarrow> i \<in> set (queue p)) \<and>
     use_cnt p = of_nat (card (users p))"

definition port_wf :: "nat \<Rightarrow> port \<Rightarrow> bool" where
  "port_wf extra p \<longleftrightarrow> table_wf extra p \<and> queue_wf extra p"

lemma port_put_simps [simp]:
  "buf_num (port_put p i b) = buf_num p" "max_buf_num (port_put p i b) = max_buf_num p"
  "queue (port_put p i b) = queue p" "use_cnt (port_put p i b) = use_cnt p"
  "flush_pending (port_put p i b) = flush_pending p"
  "length (bufs (port_put p i b)) = length (bufs p)" "live extra (port_put p i b) = live extra p"
  by (simp_all add: port_put_def live_def)

lemma port_buf_put:
  "i < length (bufs p) \<Longrightarrow> port_buf (port_put p i b) j = (if j = i then b else port_buf p j)"
  by (simp add: port_buf_def port_put_def)

lemma port_buf_updates [simp]:
  "port_buf (p\<lparr>queue := q\<rparr>) = port_buf p" "port_buf (p\<lparr>use_cnt := u\<rparr>) = port_buf p"
  "port_buf (p\<lparr>buf_num := n\<rparr>) = port_buf p" "port_buf (p\<lparr>flush_pending := f\<rparr>) = port_buf p"
  by (simp_all add: port_buf_def fun_eq_iff)

lemma live_updates [simp]:
  "live extra (p\<lparr>queue := q\<rparr>) = live extra p" "live extra (p\<lparr>use_cnt := u\<rparr>) = live extra p"
  "live extra (p\<lparr>flush_pending := f\<rparr>) = live extra p"
  by (simp_all add: live_def)

lemma list_del_simps [simp]:
  "bufs (list_del p i) = bufs p" "buf_num (list_del p i) = buf_num p"
  "max_buf_num (list_del p i) = max_buf_num p" "use_cnt (list_del p i) = use_cnt p"
  "flush_pending (list_del p i) = flush_pending p" "queue (list_del p i) = remove1 i (queue p)"
  "port_buf (list_del p i) = port_buf p" "live extra (list_del p i) = live extra p"
  by (simp_all add: list_del_def)

lemma table_wf_updates [simp]:
  "table_wf extra (p\<lparr>queue := q\<rparr>) = table_wf extra p" "table_wf extra (p\<lparr>use_cnt := u\<rparr>) = table_wf extra p"
  "table_wf extra (p\<lparr>flush_pending := f\<rparr>) = table_wf extra p" "table_wf extra (list_del p i) = table_wf extra p"
  by (simp_all add: table_wf_def)

lemma queue_wf_flush_pending [simp]: "queue_wf extra (p\<lparr>flush_pending := f\<rparr>) = queue_wf extra p"
  by (simp add: queue_wf_def users_def in_use_def queued_def)

lemma port_wf_flush_pending [simp]: "port_wf extra (p\<lparr>flush_pending := f\<rparr>) = port_wf extra p"
  by (simp add: port_wf_def)

lemma port_wfD:
  assumes "port_wf extra p"
  shows "length (bufs p) = max_buf_num p + extra" "buf_num p \<le> max_buf_num p" "distinct (queue p)"
    "set (queue p) \<subseteq> live extra p" "use_cnt p = of_nat (card (users p))" "max_buf_num p < 2 ^ 31" "extra \<le> 1"
  using assms by (simp_all add: port_wf_def table_wf_def queue_wf_def)

lemma live_bound: "port_wf extra p \<Longrightarrow> i \<in> live extra p \<Longrightarrow> i < length (bufs p)"
  by (auto simp: port_wf_def table_wf_def live_def)

lemma queue_bound: "port_wf extra p \<Longrightarrow> i \<in> set (queue p) \<Longrightarrow> i < length (bufs p)"
  using live_bound port_wfD(4) by blast

lemma users_finite [simp]: "finite (users p)"
  by (simp add: users_def)

lemma users_small: "port_wf extra p \<Longrightarrow> card (users p) < 2 ^ 32"
proof -
  assume wf: "port_wf extra p"
  have "users p \<subseteq> {..< length (bufs p)}" using wf by (auto simp: users_def dest: queue_bound)
  then have "card (users p) \<le> length (bufs p)" using card_mono [of "{..< length (bufs p)}"] by simp
  then show ?thesis using port_wfD [OF wf] by simp
qed

text \<open>The counter of a port says how many of its queued entries are in use.\<close>

lemma use_cnt_unat: "port_wf extra p \<Longrightarrow> unat (use_cnt p) = card (users p)"
  using users_small by (simp add: port_wfD(5) unat_of_nat_small)

lemma use_cnt_0: "port_wf extra p \<Longrightarrow> use_cnt p = 0 \<longleftrightarrow> users p = {}"
  using use_cnt_unat [of extra p] by (metis card_0_eq unat_0 unsigned_0 users_finite unat_eq_zero)

section \<open>The address table keeps its invariant\<close>

lemma table_key_eq:
  "port_wf extra p \<Longrightarrow> i < buf_num p \<Longrightarrow> j \<in> live extra p \<Longrightarrow>
   phy_addr (port_buf p i) = phy_addr (port_buf p j) \<Longrightarrow> i = j"
  by (simp add: port_wf_def table_wf_def)

lemma port_find_Some:
  assumes "port_wf extra p"
  shows "port_find p a = Some i \<longleftrightarrow> i < buf_num p \<and> phy_addr (port_buf p i) = a"
proof -
  have n: "buf_num p \<le> length (bufs p)" using port_wfD [OF assms] by simp
  have "\<not> phy_addr (port_buf p j) = a" if "i < buf_num p" "phy_addr (port_buf p i) = a" "j < i" for j
    using table_key_eq [OF assms, of i j] that by (auto simp: live_def)
  with n show ?thesis
    by (auto simp: port_find_def find_index_Some port_buf_def)
qed

lemma port_find_None:
  assumes "port_wf extra p"
  shows "port_find p a = None \<longleftrightarrow> (\<forall>i < buf_num p. phy_addr (port_buf p i) \<noteq> a)"
  using port_find_Some [OF assms, of a] by (metis not_None_eq)

lemma port_put_outside: "\<not> i < length (bufs p) \<Longrightarrow> port_put p i b = p"
  by (simp add: port_put_def list_update_beyond)

lemma port_put_field:
  "f b = f (port_buf p i) \<Longrightarrow> f (port_buf (port_put p i b) j) = f (port_buf p j)"
  by (cases "i < length (bufs p)") (auto simp: port_buf_put port_put_outside)

lemma table_wf_put:
  assumes wf: "table_wf extra p" and b: "phy_addr b = phy_addr (port_buf p i)"
    "buf_id b = buf_id (port_buf p i)" "status b \<noteq> BUF_STATE_INVALID"
  shows "table_wf extra (port_put p i b)"
proof -
  have "phy_addr (port_buf (port_put p i b) j) = phy_addr (port_buf p j)"
    "buf_id (port_buf (port_put p i b) j) = buf_id (port_buf p j)" for j
    using b by (simp_all add: port_put_field)
  moreover have "status (port_buf (port_put p i b) j) \<noteq> BUF_STATE_INVALID"
    if "status (port_buf p j) \<noteq> BUF_STATE_INVALID" for j
    using b that by (cases "i < length (bufs p)") (auto simp: port_buf_put port_put_outside)
  ultimately show ?thesis using wf by (simp add: table_wf_def)
qed

lemma queue_wf_put:
  assumes "queue_wf extra p" "status b = status (port_buf p i)"
  shows "queue_wf extra (port_put p i b)"
  using assms by (simp add: queue_wf_def queued_def users_def in_use_def port_put_field)

text \<open>Updates of data that the table and the queue do not rest on.\<close>

lemma port_wf_put:
  assumes "port_wf extra p" "phy_addr b = phy_addr (port_buf p i)"
    "buf_id b = buf_id (port_buf p i)" "status b = status (port_buf p i)"
  shows "port_wf extra (port_put p i b)"
proof -
  have "table_wf extra (port_put p i b)"
    using assms by (simp add: port_wf_def table_wf_def port_put_field)
  then show ?thesis using assms queue_wf_put by (simp add: port_wf_def)
qed

text \<open>The physical addresses bound at a port.\<close>

definition keys :: "port \<Rightarrow> u32 set" where
  "keys p = (\<lambda>i. phy_addr (port_buf p i)) ` {..< buf_num p}"

definition extra_keys :: "nat \<Rightarrow> port \<Rightarrow> u32 set" where
  "extra_keys extra p = (\<lambda>i. phy_addr (port_buf p i)) ` {max_buf_num p ..< max_buf_num p + extra}"

lemma live_keys: "j \<in> live extra p \<Longrightarrow> phy_addr (port_buf p j) \<in> keys p \<union> extra_keys extra p"
  by (auto simp: live_def keys_def extra_keys_def)

lemma port_find_keys: "port_wf extra p \<Longrightarrow> port_find p a = None \<longleftrightarrow> a \<notin> keys p"
  by (auto simp: port_find_None keys_def)

lemma card_keys: "port_wf extra p \<Longrightarrow> card (keys p) = buf_num p"
proof -
  assume "port_wf extra p"
  then have "inj_on (\<lambda>i. phy_addr (port_buf p i)) {..< buf_num p}"
    by (intro inj_onI) (auto simp: live_def dest: table_key_eq)
  then show ?thesis by (simp add: keys_def card_image)
qed

lemma port_insert_simps [simp]:
  "buf_num (port_insert p d k) = Suc (buf_num p)" "max_buf_num (port_insert p d k) = max_buf_num p"
  "queue (port_insert p d k) = queue p" "use_cnt (port_insert p d k) = use_cnt p"
  "length (bufs (port_insert p d k)) = length (bufs p)"
  "live extra (port_insert p d k) = insert (buf_num p) (live extra p)"
  by (auto simp: port_insert_def live_def)

lemma port_insert_buf:
  assumes "port_wf extra p" "\<not> port_full p"
  shows "port_buf (port_insert p d k) j = (if j = buf_num p then port_buf (port_insert p d k) (buf_num p) else port_buf p j)"
    "phy_addr (port_buf (port_insert p d k) (buf_num p)) = phyaddr d"
    "status (port_buf (port_insert p d k) (buf_num p)) = BUF_STATE_IDLE"
    "buf_id (port_buf (port_insert p d k) (buf_num p)) = of_nat (buf_num p)"
proof -
  have "buf_num p < length (bufs p)" using assms port_wfD [OF assms(1)] by (simp add: port_full_def)
  then show "port_buf (port_insert p d k) j = (if j = buf_num p then port_buf (port_insert p d k) (buf_num p) else port_buf p j)"
    "phy_addr (port_buf (port_insert p d k) (buf_num p)) = phyaddr d"
    "status (port_buf (port_insert p d k) (buf_num p)) = BUF_STATE_IDLE"
    "buf_id (port_buf (port_insert p d k) (buf_num p)) = of_nat (buf_num p)"
    by (simp_all add: port_insert_def port_buf_put)
qed

lemma port_insert_wf:
  assumes wf: "port_wf extra p" and full: "\<not> port_full p"
    and new: "phyaddr d \<notin> keys p" "phyaddr d \<notin> extra_keys extra p"
  shows "port_wf extra (port_insert p d k)" (is "port_wf extra ?q")
proof -
  let ?n = "buf_num p"
  have old: "port_buf ?q j = port_buf p j" if "j \<noteq> ?n" for j
    using port_insert_buf(1) [OF wf full, of d k j] that by simp
  have n: "?n < max_buf_num p" using full by (simp add: port_full_def)
  then have fresh: "?n \<notin> live extra p" by (simp add: live_def)
  have key: "phy_addr (port_buf p j) \<noteq> phyaddr d" if "j \<in> live extra p" for j
    using new live_keys [OF that] by auto
  have inj: "i = j" if "i < Suc ?n" "j \<in> insert ?n (live extra p)"
    "phy_addr (port_buf ?q i) = phy_addr (port_buf ?q j)" for i j
  proof (cases "i = ?n")
    case True
    then show ?thesis using that key [of j] old [of j] port_insert_buf(2) [OF wf full, of d k]
      by (cases "j = ?n") auto
  next
    case False
    then have "i < ?n" "i \<in> live extra p" using that by (auto simp: live_def)
    then show ?thesis
      using that key [of i] old False port_insert_buf(2) [OF wf full, of d k] table_key_eq [OF wf, of i j]
      by (cases "j = ?n") auto
  qed
  have id: "buf_id (port_buf ?q j) = of_nat j \<and> status (port_buf ?q j) \<noteq> BUF_STATE_INVALID" if "j < Suc ?n" for j
    using that old [of j] port_insert_buf(3,4) [OF wf full, of d k] wf
    by (cases "j = ?n") (auto simp: port_wf_def table_wf_def)
  have "Suc ?n \<le> max_buf_num p" using n by simp
  then have t: "table_wf extra ?q"
    using wf id inj unfolding port_wf_def table_wf_def port_insert_simps by blast
  have sub: "set (queue p) \<subseteq> live extra p" using wf by (rule port_wfD)
  have "port_buf ?q j = port_buf p j" if "j \<in> set (queue p)" for j
    using that fresh sub by (intro old) auto
  then have "users ?q = users p" by (auto simp: users_def in_use_def)
  moreover have "queued ?q i \<longleftrightarrow> queued p i" if "i \<in> live extra p" for i
  proof -
    have "i \<noteq> ?n" using that fresh by auto
    then show ?thesis using old by (simp add: queued_def)
  qed
  moreover have "\<not> queued ?q ?n" using port_insert_buf(3) [OF wf full] by (simp add: queued_def)
  ultimately have "queue_wf extra ?q" using wf fresh sub by (auto simp: port_wf_def queue_wf_def)
  with t show ?thesis by (simp add: port_wf_def)
qed

lemma port_insert_keys:
  assumes "port_wf extra p" "\<not> port_full p"
  shows "keys (port_insert p d k) = insert (phyaddr d) (keys p)"
proof -
  have "{..< buf_num (port_insert p d k)} = insert (buf_num p) {..< buf_num p}" by auto
  moreover have "phy_addr (port_buf (port_insert p d k) j) = phy_addr (port_buf p j)" if "j < buf_num p" for j
    using port_insert_buf(1) [OF assms, of d k j] that by simp
  ultimately show ?thesis
    using port_insert_buf(2) [OF assms, of d k] by (simp add: keys_def)
qed

text \<open>
  The port after the entry at \<open>i\<close>, which is not queued, has been deleted: the last
  entry takes its place, in the table and, at the tail, in the queue.
\<close>

definition port_deleted :: "port \<Rightarrow> nat \<Rightarrow> port" where
  "port_deleted p i =
     (let last = buf_num p - 1 in
      p\<lparr>bufs := (if i < last then (bufs p)[i := (port_buf p last)\<lparr>buf_id := of_nat i\<rparr>]
                 else bufs p)[last := zero_buf],
        buf_num := last,
        queue := (if last \<in> set (queue p) then remove1 last (queue p) @ [i] else queue p)\<rparr>)"

lemma port_move_last_eq:
  assumes wf: "port_wf extra p" and i: "i < buf_num p - 1" "i \<notin> set (queue p)"
  shows "port_move_last (port_put p i b) i =
    Some (p\<lparr>bufs := (bufs p)[i := (port_buf p (buf_num p - 1))\<lparr>buf_id := of_nat i\<rparr>],
            queue := (if buf_num p - 1 \<in> set (queue p) then remove1 (buf_num p - 1) (queue p) @ [i] else queue p)\<rparr>)"
proof -
  let ?l = "buf_num p - 1"
  let ?p1 = "port_put p i ((port_buf p ?l)\<lparr>buf_id := of_nat i\<rparr>)"
  have il: "i < length (bufs p)" "?l < buf_num p" using port_wfD [OF wf] i by auto
  have buf1: "port_buf ?p1 j = port_buf p j" if "j \<noteq> i" for j using il that by (simp add: port_buf_put)
  have eq: "port_put (port_put p i b) i c = port_put p i c" for c by (simp add: port_put_def)
  have last: "port_buf (port_put p i b) ?l = port_buf p ?l" using il i by (simp add: port_buf_put)
  have hit: "phy_addr (port_buf ?p1 q) = phy_addr (port_buf ?p1 ?l) \<longleftrightarrow> q = ?l" if "q \<in> set (queue p)" for q
  proof -
    have "q \<noteq> i" "q \<in> live extra p" using that i port_wfD(4) [OF wf] by auto
    then show ?thesis using table_key_eq [OF wf il(2), of q] buf1 i by auto
  qed
  show ?thesis
  proof (cases "?l \<in> set (queue p)")
    case True
    then obtain k where k: "find_index (\<lambda>q. phy_addr (port_buf ?p1 q) = phy_addr (port_buf ?p1 ?l)) (queue p) = Some k"
      using hit find_index_None [of "\<lambda>q. phy_addr (port_buf ?p1 q) = phy_addr (port_buf ?p1 ?l)" "queue p"] by auto
    then have "queue p ! k = ?l"
      using find_index_SomeD [OF k] hit by (meson nth_mem)
    with k have "port_move_last (port_put p i b) i = list_add_tail (list_del ?p1 ?l) i"
      by (simp add: port_move_last_def Let_def eq last del: One_nat_def)
    moreover have "i \<notin> set (queue (list_del ?p1 ?l))" using i by (auto dest: notin_set_remove1)
    ultimately show ?thesis using True by (simp add: list_add_tail_def) (simp add: list_del_def port_put_def)
  next
    case False
    then have "find_index (\<lambda>q. phy_addr (port_buf ?p1 q) = phy_addr (port_buf ?p1 ?l)) (queue p) = None"
      using hit by (auto simp: find_index_None)
    then have "port_move_last (port_put p i b) i = Some ?p1"
      by (simp add: port_move_last_def Let_def eq last del: One_nat_def)
    with False show ?thesis by (simp add: port_put_def)
  qed
qed

lemma port_delete_eq:
  assumes wf: "port_wf extra p" and i: "i < buf_num p" "i \<notin> set (queue p)"
  shows "port_delete p i = Some (port_deleted p i)"
proof (cases "i < buf_num p - 1")
  case True
  have "buf_num p - 1 \<notin> set (remove1 (buf_num p - 1) (queue p) @ [i])"
    using port_wfD(3) [OF wf] True by simp
  with True i port_move_last_eq [OF wf True i(2)] show ?thesis
    by (simp add: port_delete_def port_deleted_def Let_def port_put_def)
next
  case False
  then have "i = buf_num p - 1" using i by simp
  with i show ?thesis
    by (simp add: port_delete_def port_deleted_def Let_def port_put_def)
qed

lemma port_delete_undefined: "i \<in> set (queue p) \<Longrightarrow> port_delete p i = None"
  by (simp add: port_delete_def)

lemma port_deleted_simps [simp]:
  "buf_num (port_deleted p i) = buf_num p - 1" "max_buf_num (port_deleted p i) = max_buf_num p"
  "length (bufs (port_deleted p i)) = length (bufs p)" "use_cnt (port_deleted p i) = use_cnt p"
  "flush_pending (port_deleted p i) = flush_pending p"
  by (simp_all add: port_deleted_def Let_def)

lemma port_deleted_buf:
  assumes "port_wf extra p" "i < buf_num p" "j \<noteq> buf_num p - 1"
  shows "port_buf (port_deleted p i) j =
    (if j = i then (port_buf p (buf_num p - 1))\<lparr>buf_id := of_nat i\<rparr> else port_buf p j)"
  using assms port_wfD [OF assms(1)] by (auto simp: port_deleted_def Let_def port_buf_def nth_list_update)

lemma port_deleted_live:
  "port_wf extra p \<Longrightarrow> i < buf_num p \<Longrightarrow> live extra (port_deleted p i) = live extra p - {buf_num p - 1}"
  using port_wfD(2) [of extra p] by (auto simp: live_def)

lemma port_deleted_queue:
  assumes "port_wf extra p" "i < buf_num p" "i \<notin> set (queue p)"
  shows "distinct (queue (port_deleted p i))"
    "set (queue (port_deleted p i)) =
     (if buf_num p - 1 \<in> set (queue p) then insert i (set (queue p) - {buf_num p - 1}) else set (queue p))"
  using assms port_wfD(3) [OF assms(1)] by (auto simp: port_deleted_def Let_def)

text \<open>Deleting renames the last entry to \<open>i\<close>.\<close>

lemma port_deleted_rename:
  assumes wf: "port_wf extra p" and i: "i < buf_num p" "i \<notin> set (queue p)"
    and j: "j \<in> live extra (port_deleted p i)"
  defines "k \<equiv> (if j = i then buf_num p - 1 else j)"
  shows "phy_addr (port_buf (port_deleted p i) j) = phy_addr (port_buf p k)"
    "status (port_buf (port_deleted p i) j) = status (port_buf p k)"
    "j \<in> set (queue (port_deleted p i)) \<longleftrightarrow> k \<in> set (queue p)" "k \<in> live extra p"
proof -
  have "j \<noteq> buf_num p - 1" "j \<in> live extra p" using j by (auto simp: port_deleted_live [OF wf i(1)])
  then show "phy_addr (port_buf (port_deleted p i) j) = phy_addr (port_buf p k)"
    "status (port_buf (port_deleted p i) j) = status (port_buf p k)"
    "j \<in> set (queue (port_deleted p i)) \<longleftrightarrow> k \<in> set (queue p)" "k \<in> live extra p"
    using i port_deleted_buf [OF wf i(1)] port_deleted_queue(2) [OF wf i] by (auto simp: k_def live_def)
qed

lemma port_deleted_users:
  assumes wf: "port_wf extra p" and i: "i < buf_num p" "i \<notin> set (queue p)"
  shows "card (users (port_deleted p i)) = card (users p)"
proof -
  let ?l = "buf_num p - 1"
  let ?f = "\<lambda>j. if j = i then ?l else j"
  have sub: "set (queue (port_deleted p i)) \<subseteq> live extra (port_deleted p i)"
    using i port_wfD(4) [OF wf] port_deleted_queue(2) [OF wf i] port_deleted_live [OF wf i(1)]
    by (auto simp: live_def split: if_splits)
  have "?f ` users (port_deleted p i) = users p"
  proof (intro set_eqI iffI)
    fix q assume "q \<in> ?f ` users (port_deleted p i)"
    then obtain j where "q = ?f j" "j \<in> users (port_deleted p i)" by (rule imageE)
    then have "q = ?f j" "j \<in> set (queue (port_deleted p i))" "in_use (port_deleted p i) j"
      by (simp_all add: users_def)
    then show "q \<in> users p" using sub port_deleted_rename [OF wf i, of j] by (auto simp: users_def in_use_def)
  next
    fix q assume q: "q \<in> users p"
    then have "q \<noteq> i" "q \<in> set (queue p)" "in_use p q" using i by (auto simp: users_def)
    moreover define j where "j = (if q = ?l then i else q)"
    ultimately have j: "j \<in> set (queue (port_deleted p i))" "?f j = q"
      using port_deleted_queue(2) [OF wf i] by auto
    then have "in_use (port_deleted p i) j"
      using sub port_deleted_rename(2) [OF wf i, of j] \<open>in_use p q\<close> by (auto simp: in_use_def)
    with j show "q \<in> ?f ` users (port_deleted p i)" by (force simp: users_def)
  qed
  moreover have "inj_on ?f (users (port_deleted p i))"
    using sub port_deleted_live [OF wf i(1)] by (intro inj_onI) (auto simp: users_def split: if_splits)
  ultimately show ?thesis by (metis card_image)
qed

lemma port_deleted_wf:
  assumes wf: "port_wf extra p" and i: "i < buf_num p" "i \<notin> set (queue p)"
  shows "port_wf extra (port_deleted p i)" (is "port_wf extra ?q")
proof -
  let ?l = "buf_num p - 1"
  have tw: "table_wf extra p" using wf by (simp add: port_wf_def)
  have id: "buf_id (port_buf ?q j) = of_nat j \<and> status (port_buf ?q j) \<noteq> BUF_STATE_INVALID" if "j < ?l" for j
    using that tw i port_deleted_buf [OF wf i(1), of j] by (auto simp: table_wf_def)
  have inj: "j = k" if "j < ?l" "k \<in> live extra ?q" "phy_addr (port_buf ?q j) = phy_addr (port_buf ?q k)" for j k
  proof -
    let ?f = "\<lambda>j. if j = i then ?l else j"
    have j: "j \<in> live extra ?q" using that(1) by (simp add: live_def)
    have "?f j < buf_num p" using that(1) i by auto
    then have "?f j = ?f k"
      using that port_deleted_rename(1,4) [OF wf i j] port_deleted_rename(1,4) [OF wf i that(2)]
      by (intro table_key_eq [OF wf]) auto
    then show ?thesis using that(1,2) port_deleted_live [OF wf i(1)] by (auto split: if_splits)
  qed
  have "?l \<le> max_buf_num p" using port_wfD(2) [OF wf] by simp
  then have "table_wf extra ?q" using tw id inj by (simp add: table_wf_def)
  moreover have "queue_wf extra ?q"
  proof -
    have "set (queue ?q) \<subseteq> live extra ?q"
      using i port_wfD(4) [OF wf] port_deleted_queue(2) [OF wf i] port_deleted_live [OF wf i(1)]
      by (auto simp: live_def split: if_splits)
    moreover have "queued ?q j \<longleftrightarrow> j \<in> set (queue ?q)" if "j \<in> live extra ?q" for j
      using port_deleted_rename(2-4) [OF wf i that] wf by (simp add: queued_def port_wf_def queue_wf_def)
    ultimately show ?thesis
      using port_deleted_queue(1) [OF wf i] port_deleted_users [OF wf i] port_wfD(5) [OF wf]
      by (simp add: queue_wf_def)
  qed
  ultimately show ?thesis by (simp add: port_wf_def)
qed

lemma port_deleted_keys:
  assumes wf: "port_wf extra p" and i: "i < buf_num p" "i \<notin> set (queue p)"
  shows "keys (port_deleted p i) = keys p - {phy_addr (port_buf p i)}"
proof -
  let ?l = "buf_num p - 1"
  let ?f = "\<lambda>j. if j = i then ?l else j"
  have "phy_addr (port_buf (port_deleted p i) j) = phy_addr (port_buf p (?f j))" if "j < ?l" for j
    using that port_deleted_rename(1) [OF wf i, of j] by (simp add: live_def)
  then have "keys (port_deleted p i) = (\<lambda>j. phy_addr (port_buf p j)) ` ?f ` {..< ?l}"
    by (force simp: keys_def image_image)
  also have "?f ` {..< ?l} = {..< buf_num p} - {i}" using i by (force simp: image_iff split: if_splits)
  also have "(\<lambda>j. phy_addr (port_buf p j)) ` \<dots> = keys p - {phy_addr (port_buf p i)}"
    using i table_key_eq [OF wf] by (auto simp: keys_def live_def)
  finally show ?thesis .
qed

section \<open>The queue keeps its invariant\<close>

text \<open>One entry changes its state, and enters, stays in or leaves the queue.\<close>

lemma port_wf_relink:
  assumes wf: "port_wf extra p" and i: "i \<in> live extra p"
    and b: "phy_addr b = phy_addr (port_buf p i)" "i < buf_num p \<Longrightarrow> buf_id b = buf_id (port_buf p i)"
      "status b \<noteq> BUF_STATE_INVALID"
    and qs: "distinct qs" "set qs - {i} = set (queue p) - {i}"
      "i \<in> set qs \<longleftrightarrow> status b = BUF_STATE_QUEUED \<or> status b = BUF_STATE_USING"
    and u: "u = of_nat (card (users p - {i} \<union> (if status b = BUF_STATE_USING then {i} else {})))"
  shows "port_wf extra ((port_put p i b)\<lparr>queue := qs, use_cnt := u\<rparr>)" 
proof -
  define q where "q = (port_put p i b)\<lparr>queue := qs, use_cnt := u\<rparr>"
  have fields: "length (bufs q) = length (bufs p)" "buf_num q = buf_num p" "max_buf_num q = max_buf_num p"
    "queue q = qs" "use_cnt q = u" "live extra q = live extra p"
    by (simp_all add: q_def)
  have il: "i < length (bufs p)" using live_bound [OF wf i] .
  have buf: "port_buf q j = (if j = i then b else port_buf p j)" for j
    using il by (simp add: q_def port_buf_put)
  have key: "phy_addr (port_buf q j) = phy_addr (port_buf p j)" for j by (subst buf) (simp add: b(1))
  have id: "buf_id (port_buf q j) = of_nat j \<and> status (port_buf q j) \<noteq> BUF_STATE_INVALID"
    if "j < buf_num p" for j
    using that wf b by (auto simp: buf port_wf_def table_wf_def)
  have t: "table_wf extra q"
    using wf key id by (simp add: port_wf_def table_wf_def fields)
  have sub: "set qs \<subseteq> live extra p" using qs(2) i port_wfD(4) [OF wf] by blast
  have qd: "queued q j \<longleftrightarrow> j \<in> set qs" if "j \<in> live extra p" for j
  proof (cases "j = i")
    case True
    then show ?thesis using qs(3) by (simp add: queued_def buf)
  next
    case False
    then have "j \<in> set qs \<longleftrightarrow> j \<in> set (queue p)" using qs(2) by blast
    then show ?thesis using False that wf by (simp add: queued_def buf port_wf_def queue_wf_def)
  qed
  have "users q = users p - {i} \<union> (if status b = BUF_STATE_USING then {i} else {})"
    using qs(2,3) by (auto simp: users_def in_use_def buf fields)
  then have "queue_wf extra q" unfolding queue_wf_def fields using qs(1) sub qd u by simp
  with t have "port_wf extra q" by (simp add: port_wf_def)
  then show ?thesis by (simp only: q_def)
qed

lemma port_enqueue_eq:
  assumes wf: "port_wf extra p" and i: "i < buf_num p"
  shows "port_enqueue p i =
    (if i \<in> set (queue p) then Some (HI_FAILURE, p)
     else Some (HI_SUCCESS,
            (port_put p i ((port_buf p i)\<lparr>status := BUF_STATE_QUEUED\<rparr>))\<lparr>queue := queue p @ [i]\<rparr>))"
proof -
  have "(\<exists>q \<in> set (queue p). phy_addr (port_buf p q) = phy_addr (port_buf p i)) \<longleftrightarrow> i \<in> set (queue p)"
    using table_key_eq [OF wf i] port_wfD(4) [OF wf] by (metis subset_iff)
  then show ?thesis by (simp add: port_enqueue_def list_add_tail_def)
qed

lemma port_append_wf:
  assumes wf: "port_wf extra p" and i: "i \<in> live extra p" "i \<notin> set (queue p)"
    and b: "phy_addr b = phy_addr (port_buf p i)" "i < buf_num p \<Longrightarrow> buf_id b = buf_id (port_buf p i)"
      "status b = BUF_STATE_QUEUED"
  shows "port_wf extra ((port_put p i b)\<lparr>queue := queue p @ [i]\<rparr>)"
proof -
  have "users p - {i} = users p" using i by (auto simp: users_def)
  then have "port_wf extra ((port_put p i b)\<lparr>queue := queue p @ [i], use_cnt := use_cnt p\<rparr>)"
    using i b port_wfD(3,5) [OF wf] by (intro port_wf_relink [OF wf i(1)]) auto
  moreover have "(port_put p i b)\<lparr>queue := queue p @ [i], use_cnt := use_cnt p\<rparr> = (port_put p i b)\<lparr>queue := queue p @ [i]\<rparr>"
    by (simp add: port_put_def)
  ultimately show ?thesis by simp
qed

lemma port_enqueue_wf:
  assumes "port_wf extra p" "i < buf_num p" "port_enqueue p i = Some (r, p')"
  shows "port_wf extra p'"
  using assms by (auto simp: port_enqueue_eq [OF assms(1,2)] live_def split: if_splits intro!: port_append_wf)

lemma port_take_SomeD:
  assumes "port_take p need = Some (q, p')"
  shows "q \<in> set (queue p)" "\<not> in_use p q" "need \<le> buf_len (port_buf p q)"
    "p' = (port_put p q ((port_buf p q)\<lparr>status := BUF_STATE_USING\<rparr>))\<lparr>use_cnt := use_cnt p + 1\<rparr>"
  using assms by (auto simp: port_take_def port_first_free_def in_use_def Let_def
      dest: find_index_SomeD split: option.splits)

lemma port_take_wf:
  assumes wf: "port_wf extra p" and t: "port_take p need = Some (q, p')"
  shows "port_wf extra p'"
proof -
  note d = port_take_SomeD [OF t]
  have "q \<notin> users p" using d(2) by (simp add: users_def)
  then have "of_nat (card (users p - {q} \<union> {q})) = use_cnt p + 1" using port_wfD(5) [OF wf] by simp
  then have "port_wf extra ((port_put p q ((port_buf p q)\<lparr>status := BUF_STATE_USING\<rparr>))
      \<lparr>queue := queue p, use_cnt := use_cnt p + 1\<rparr>)"
    using d(1) port_wfD(3,4) [OF wf] by (intro port_wf_relink [OF wf]) auto
  then show ?thesis using d(4) by (simp add: port_put_def)
qed

text \<open>An entry in use is given back: it leaves the queue or is queued again.\<close>

lemma users_remove:
  assumes wf: "port_wf extra p" and q: "q \<in> set (queue p)" "in_use p q"
  shows "(if use_cnt p > 0 then use_cnt p - 1 else 0) = of_nat (card (users p - {q}))"
proof -
  have m: "q \<in> users p" using q by (simp add: users_def)
  then have "card (users p) = Suc (card (users p - {q}))"
    by (metis card_Suc_Diff1 users_finite)
  moreover have "use_cnt p \<noteq> 0" using m use_cnt_0 [OF wf] by auto
  ultimately show ?thesis using port_wfD(5) [OF wf] by (simp add: word_neq_0_conv)
qed

lemma port_return_wf:
  assumes wf: "port_wf extra p" and q: "q \<in> set (queue p)" "in_use p q"
    and b: "phy_addr b = phy_addr (port_buf p q)" "buf_id b = buf_id (port_buf p q)" "status b = BUF_STATE_IDLE"
  shows "port_wf extra (port_uncount (list_del (port_put p q b) q))"
proof -
  have "port_wf extra ((port_put p q b)\<lparr>queue := remove1 q (queue p),
      use_cnt := (if use_cnt p > 0 then use_cnt p - 1 else 0)\<rparr>)"
    using q b port_wfD(3,4) [OF wf] users_remove [OF wf q]
    by (intro port_wf_relink [OF wf]) auto
  then show ?thesis by (simp add: port_uncount_def list_del_def port_put_def cong: if_cong split del: if_split)
qed

lemma port_requeue_wf:
  assumes wf: "port_wf extra p" and q: "q \<in> set (queue p)" "in_use p q"
    and b: "phy_addr b = phy_addr (port_buf p q)" "buf_id b = buf_id (port_buf p q)" "status b = BUF_STATE_QUEUED"
  shows "port_wf extra (port_uncount (port_put p q b))"
proof -
  have "port_wf extra ((port_put p q b)\<lparr>queue := queue p,
      use_cnt := (if use_cnt p > 0 then use_cnt p - 1 else 0)\<rparr>)"
    using q b port_wfD(3,4) [OF wf] users_remove [OF wf q]
    by (intro port_wf_relink [OF wf]) auto
  then show ?thesis by (simp add: port_uncount_def port_put_def cong: if_cong split del: if_split)
qed

lemma port_drop_wf:
  assumes wf: "port_wf extra p" and q: "q \<in> set (queue p)" "\<not> in_use p q"
    and b: "phy_addr b = phy_addr (port_buf p q)" "buf_id b = buf_id (port_buf p q)" "status b = BUF_STATE_IDLE"
  shows "port_wf extra (list_del (port_put p q b) q)" "users (list_del (port_put p q b) q) = users p"
proof -
  have u: "users p - {q} = users p" using q by (auto simp: users_def)
  have "port_wf extra ((port_put p q b)\<lparr>queue := remove1 q (queue p), use_cnt := use_cnt p\<rparr>)"
    using q b u port_wfD(3-5) [OF wf] by (intro port_wf_relink [OF wf]) auto
  then show "port_wf extra (list_del (port_put p q b) q)" by (simp add: list_del_def port_put_def)
  have "q < length (bufs p)" using queue_bound [OF wf q(1)] .
  then show "users (list_del (port_put p q b) q) = users p"
    using q b port_wfD(3) [OF wf] by (auto simp: users_def in_use_def port_buf_put)
qed

section \<open>Flushing\<close>

text \<open>
  A flush gives back the queued entries that are not in use, each once and in queue
  order, and leaves the others as they are.
\<close>

definition clears :: "(OMXVDEC_BUF_S \<Rightarrow> OMXVDEC_BUF_S) \<Rightarrow> bool" where
  "clears clr \<longleftrightarrow> (\<forall>b. phy_addr (clr b) = phy_addr b \<and> buf_id (clr b) = buf_id b \<and> status (clr b) = BUF_STATE_IDLE)"

lemma flush_loop_spec:
  assumes "clears clr" "port_wf extra p" "distinct qs" "set qs \<subseteq> set (queue p)" "flush_loop clr p qs = (r, p')"
  shows "port_wf extra p'" "r = filter (\<lambda>q. \<not> in_use p q) qs"
    "queue p' = filter (\<lambda>q. q \<notin> set r) (queue p)" "users p' = users p"
    "\<And>j. port_buf p' j = (if j \<in> set r then clr (port_buf p j) else port_buf p j)"
    "buf_num p' = buf_num p" "max_buf_num p' = max_buf_num p" "flush_pending p' = flush_pending p"
  using assms
proof (atomize (full), induction qs arbitrary: p r p')
  case Nil
  then show ?case by simp
next
  case (Cons q qs)
  show ?case
  proof (cases "in_use p q")
    case True
    then have l: "flush_loop clr p qs = (r, p')" using Cons.prems(5) by (simp add: in_use_def)
    have s: "distinct qs" "set qs \<subseteq> set (queue p)" using Cons.prems(3,4) by auto
    show ?thesis using Cons.IH [OF Cons.prems(1,2) s l] True by simp
  next
    case False
    let ?b = "clr (port_buf p q)"
    let ?p1 = "list_del (port_put p q ?b) q"
    obtain r' where r': "flush_loop clr ?p1 qs = (r', p')" "r = q # r'"
      using Cons.prems(5) False by (auto simp: in_use_def split: prod.splits)
    have q: "q \<in> set (queue p)" "q \<notin> set qs" "q < length (bufs p)"
      using Cons.prems queue_bound [OF Cons.prems(2)] by auto
    have d: "port_wf extra ?p1" "users ?p1 = users p"
      using port_drop_wf [OF Cons.prems(2) q(1) False, of ?b] Cons.prems(1) by (auto simp: clears_def)
    have buf: "port_buf ?p1 j = (if j = q then ?b else port_buf p j)" for j
      using q by (simp add: port_buf_put)
    have use: "filter (\<lambda>x. \<not> in_use ?p1 x) qs = filter (\<lambda>x. \<not> in_use p x) qs"
      using q(2) by (intro filter_cong) (auto simp: in_use_def buf simp del: list_del_simps)
    have qu: "queue ?p1 = filter (\<lambda>x. x \<noteq> q) (queue p)"
      using port_wfD(3) [OF Cons.prems(2)] by (simp add: distinct_remove1_removeAll removeAll_filter_not_eq eq_commute)
    have "set qs \<subseteq> set (queue ?p1)" using Cons.prems(4) q(2) by (auto simp: qu simp del: list_del_simps)
    note IH = Cons.IH [OF Cons.prems(1) d(1) _ this r'(1)]
    have dq: "distinct qs" using Cons.prems(3) by simp
    have "r' = filter (\<lambda>x. \<not> in_use p x) qs" using IH [OF dq] use by simp
    moreover have "queue p' = filter (\<lambda>x. x \<notin> set r) (queue p)"
      using IH [OF dq] r'(2) by (simp add: qu del: list_del_simps)
    moreover have "port_buf p' j = (if j \<in> set r then clr (port_buf p j) else port_buf p j)" for j
    proof -
      have "port_buf p' j = (if j \<in> set r' then clr (port_buf ?p1 j) else port_buf ?p1 j)"
        using IH [OF dq] by blast
      moreover have "q \<notin> set r'" using \<open>r' = _\<close> q(2) by simp
      ultimately show ?thesis using r'(2) by (auto simp: buf simp del: list_del_simps)
    qed
    ultimately show ?thesis using IH [OF dq] d(2) r'(2) False by simp
  qed
qed

lemma port_flush_spec:
  assumes "clears clr" "port_wf extra p" "port_flush clr p = (r, p')"
  shows "port_wf extra p'" "r = filter (\<lambda>q. \<not> in_use p q) (queue p)"
    "queue p' = filter (in_use p) (queue p)" "users p' = users p"
    "\<And>j. port_buf p' j = (if j \<in> set r then clr (port_buf p j) else port_buf p j)"
    "buf_num p' = buf_num p" "max_buf_num p' = max_buf_num p" "flush_pending p' = flush_pending p"
proof -
  note f = flush_loop_spec [OF assms(1,2) port_wfD(3) [OF assms(2)] subset_refl assms(3) [unfolded port_flush_def]]
  show "port_wf extra p'" "r = filter (\<lambda>q. \<not> in_use p q) (queue p)" "users p' = users p"
    "\<And>j. port_buf p' j = (if j \<in> set r then clr (port_buf p j) else port_buf p j)"
    "buf_num p' = buf_num p" "max_buf_num p' = max_buf_num p" "flush_pending p' = flush_pending p"
    using f by auto
  show "queue p' = filter (in_use p) (queue p)" unfolding f(3) f(2) by (intro filter_cong) auto
qed

section \<open>Taking and giving back\<close>

lemma find_index_filter:
  "(case find_index P xs of None \<Rightarrow> None | Some k \<Rightarrow> Some (xs ! k)) =
   (case filter P xs of [] \<Rightarrow> None | x # _ \<Rightarrow> Some x)"
  by (induction xs) (auto split: option.splits)

lemma filter_remove_hd:
  "distinct xs \<Longrightarrow> filter P xs = x # ys \<Longrightarrow> filter (\<lambda>y. P y \<and> y \<noteq> x) xs = ys"
proof (induction xs)
  case Nil
  then show ?case by simp
next
  case (Cons z zs)
  show ?case
  proof (cases "P z")
    case True
    then have "z = x" "filter P zs = ys" "x \<notin> set zs" using Cons.prems by auto
    then show ?thesis by (auto intro!: filter_cong)
  next
    case False
    then show ?thesis using Cons by auto
  qed
qed

text \<open>The queued entries that are not in use yet, in order.\<close>

definition waiting :: "port \<Rightarrow> nat list" where
  "waiting p = filter (\<lambda>q. \<not> in_use p q) (queue p)"

lemma port_take_waiting:
  assumes "port_wf extra p"
  shows "port_take p 0 = (case waiting p of [] \<Rightarrow> None | q # _ \<Rightarrow>
      Some (q, (port_put p q ((port_buf p q)\<lparr>status := BUF_STATE_USING\<rparr>))\<lparr>use_cnt := use_cnt p + 1\<rparr>))"
proof -
  have "port_take p 0 = map_option (\<lambda>q. (q, (port_put p q ((port_buf p q)\<lparr>status := BUF_STATE_USING\<rparr>))
      \<lparr>use_cnt := use_cnt p + 1\<rparr>)) (case port_first_free p 0 of None \<Rightarrow> None | Some k \<Rightarrow> Some (queue p ! k))"
    by (simp add: port_take_def Let_def split: option.splits)
  also have "(case port_first_free p 0 of None \<Rightarrow> None | Some k \<Rightarrow> Some (queue p ! k)) =
      (case waiting p of [] \<Rightarrow> None | q # _ \<Rightarrow> Some q)"
    using find_index_filter [where P = "\<lambda>q. \<not> in_use p q" and xs = "queue p"] by (simp add: port_first_free_def waiting_def in_use_def)
  finally show ?thesis by (simp split: list.splits)
qed

lemma waiting_taken:
  assumes wf: "port_wf extra p" and t: "port_take p need = Some (q, p')"
  shows "waiting p' = filter (\<lambda>x. x \<noteq> q) (waiting p)"
proof -
  note d = port_take_SomeD [OF t]
  have "q < length (bufs p)" using queue_bound [OF wf d(1)] .
  then have "in_use p' x \<longleftrightarrow> x = q \<or> in_use p x" for x by (simp add: d(4) in_use_def port_buf_put)
  moreover have "queue p' = queue p" by (simp add: d(4))
  ultimately show ?thesis by (auto simp: waiting_def intro!: filter_cong)
qed

lemma waiting_distinct: "port_wf extra p \<Longrightarrow> distinct (waiting p)"
  using port_wfD(3) by (simp add: waiting_def)

lemma waiting_taken_first:
  assumes "port_wf extra p" "port_take p 0 = Some (q, p')"
  shows "waiting p = q # waiting p'"
proof -
  obtain ys where "waiting p = q # ys" using assms(2) by (auto simp: port_take_waiting [OF assms(1)] split: list.splits)
  moreover have "filter (\<lambda>x. x \<noteq> q) ys = ys" if "q \<notin> set ys" for ys :: "nat list"
    using that by (induction ys) auto
  ultimately show ?thesis using waiting_taken [OF assms] waiting_distinct [OF assms(1)] by simp
qed

lemma port_at_SomeD:
  assumes "port_at p a = Some q"
  shows "q \<in> set (queue p)" "phy_addr (port_buf p q) + offset (port_buf p q) = a"
  using assms by (auto simp: port_at_def dest: find_index_SomeD split: option.splits)

lemma port_uncount_simps [simp]:
  "bufs (port_uncount p) = bufs p" "buf_num (port_uncount p) = buf_num p" "queue (port_uncount p) = queue p"
  "max_buf_num (port_uncount p) = max_buf_num p" "flush_pending (port_uncount p) = flush_pending p"
  "port_buf (port_uncount p) = port_buf p"
  by (simp_all add: port_uncount_def)

text \<open>An entry in use that is given back: the counter, the queue and the waiting entries.\<close>

lemma port_return_spec:
  assumes wf: "port_wf extra p" and q: "q \<in> set (queue p)" "in_use p q"
    and b: "status b = BUF_STATE_IDLE"
  defines "p' \<equiv> port_uncount (list_del (port_put p q b) q)"
  shows "unat (use_cnt p') = unat (use_cnt p) - 1" "use_cnt p \<noteq> 0" "waiting p' = waiting p"
    "set (queue p') = set (queue p) - {q}" "flush_pending p' = flush_pending p" "max_buf_num p' = max_buf_num p"
    "\<And>j. j \<noteq> q \<Longrightarrow> port_buf p' j = port_buf p j"
proof -
  have bq: "q < length (bufs p)" using queue_bound [OF wf q(1)] .
  show n: "use_cnt p \<noteq> 0" using q use_cnt_0 [OF wf] by (auto simp: users_def)
  then have "unat (use_cnt p) \<noteq> 0" by (simp add: unat_eq_zero)
  then show "unat (use_cnt p') = unat (use_cnt p) - 1"
    using n by (simp add: p'_def port_uncount_def word_neq_0_conv unat_minus_one)
  show buf: "port_buf p' j = port_buf p j" if "j \<noteq> q" for j using that bq by (simp add: p'_def port_buf_put)
  have d: "distinct (queue p)" using port_wfD(3) [OF wf] .
  have qu: "queue p' = filter (\<lambda>x. x \<noteq> q) (queue p)"
    using d by (simp add: p'_def distinct_remove1_removeAll removeAll_filter_not_eq eq_commute)
  then show "set (queue p') = set (queue p) - {q}" by auto
  have "x \<noteq> q \<and> \<not> in_use p' x \<longleftrightarrow> \<not> in_use p x" for x
    using q(2) buf [of x] by (cases "x = q") (auto simp: in_use_def)
  then show "waiting p' = waiting p" by (simp add: waiting_def qu conj_commute)
  show "flush_pending p' = flush_pending p" "max_buf_num p' = max_buf_num p" by (simp_all add: p'_def)
qed

lemma port_flush_counts:
  assumes "clears clr" "port_wf extra p" "port_flush clr p = (r, p')"
  shows "use_cnt p' = use_cnt p" "waiting p' = []" "r = waiting p"
proof -
  note f = port_flush_spec [OF assms]
  show "use_cnt p' = use_cnt p" using port_wfD(5) [OF assms(2)] port_wfD(5) [OF f(1)] f(4) by simp
  have "in_use p' q" if "q \<in> set (queue p')" for q
    using that f(2,3,5) by (auto simp: in_use_def)
  then show "waiting p' = []" by (simp add: waiting_def filter_empty_conv)
  show "r = waiting p" using f(2) by (simp add: waiting_def)
qed

section \<open>The table as a bounded set\<close>

text \<open>
  A request to bind or unbind a buffer, and what it does to the table of a port
  (the direction is already resolved, and \<open>kaddr\<close> is the kernel address the buffer was
  mapped to). The outer \<open>None\<close> is an undefined outcome.
\<close>

definition port_bind :: "port \<Rightarrow> OMXVDEC_BUF_DESC \<times> u32 \<Rightarrow> (hi_ret \<times> port) option" where
  "port_bind p r =
     (if port_full p \<or> port_find p (phyaddr (fst r)) \<noteq> None then Some (HI_FAILURE, p)
      else Some (HI_SUCCESS, port_insert p (fst r) (snd r)))"

definition port_unbind :: "port \<Rightarrow> OMXVDEC_BUF_DESC \<times> u32 \<Rightarrow> (hi_ret \<times> port) option" where
  "port_unbind p r =
     (case port_find p (phyaddr (fst r)) of None \<Rightarrow> Some (HI_FAILURE, p)
      | Some i \<Rightarrow> map_option (Pair HI_SUCCESS) (port_delete p i))"

definition busy_keys :: "port \<Rightarrow> u32 set" where
  "busy_keys p = (\<lambda>i. phy_addr (port_buf p i)) ` {i \<in> set (queue p). i < buf_num p}"

definition req_key :: "OMXVDEC_BUF_DESC \<times> u32 \<Rightarrow> u32" where
  "req_key r = phyaddr (fst r)"

datatype 'r request = Bind 'r | Unbind 'r

primrec req_arg :: "'r request \<Rightarrow> 'r" where
  "req_arg (Bind r) = r"
| "req_arg (Unbind r) = r"

text \<open>What the table is for: a set of at most \<open>cap\<close> keys.\<close>

fun set_step :: "nat \<Rightarrow> ('r \<Rightarrow> 'k) \<Rightarrow> 'k set \<Rightarrow> 'r request \<Rightarrow> hi_ret \<times> 'k set" where
  "set_step cap key S (Bind r) =
     (if key r \<in> S \<or> cap \<le> card S then (HI_FAILURE, S) else (HI_SUCCESS, insert (key r) S))"
| "set_step cap key S (Unbind r) =
     (if key r \<in> S then (HI_SUCCESS, S - {key r}) else (HI_FAILURE, S))"

fun set_run :: "nat \<Rightarrow> ('r \<Rightarrow> 'k) \<Rightarrow> 'k set \<Rightarrow> 'r request list \<Rightarrow> hi_ret list \<times> 'k set" where
  "set_run cap key S [] = ([], S)"
| "set_run cap key S (q # qs) =
     (let (r, S') = set_step cap key S q; (rs, S'') = set_run cap key S' qs in (r # rs, S''))"

fun request_step ::
  "('s \<Rightarrow> 'r \<Rightarrow> (hi_ret \<times> 's) option) \<Rightarrow> ('s \<Rightarrow> 'r \<Rightarrow> (hi_ret \<times> 's) option) \<Rightarrow>
   's \<Rightarrow> 'r request \<Rightarrow> (hi_ret \<times> 's) option" where
  "request_step bnd unb s (Bind r) = bnd s r"
| "request_step bnd unb s (Unbind r) = unb s r"

fun request_run ::
  "('s \<Rightarrow> 'r \<Rightarrow> (hi_ret \<times> 's) option) \<Rightarrow> ('s \<Rightarrow> 'r \<Rightarrow> (hi_ret \<times> 's) option) \<Rightarrow>
   's \<Rightarrow> 'r request list \<Rightarrow> (hi_ret list \<times> 's) option" where
  "request_run bnd unb s [] = Some ([], s)"
| "request_run bnd unb s (q # qs) =
     (case request_step bnd unb s q of None \<Rightarrow> None
      | Some (r, s') \<Rightarrow> map_option (\<lambda>(rs, s''). (r # rs, s'')) (request_run bnd unb s' qs))"

text \<open>
  The contract of a table of keys with a capacity. \<open>busy\<close> are the keys whose entry is
  linked elsewhere and must not be removed, \<open>reserved\<close> the keys that are taken by
  entries outside the table.
\<close>

locale key_table =
  fixes valid :: "'s \<Rightarrow> bool" and members :: "'s \<Rightarrow> 'k set" and busy :: "'s \<Rightarrow> 'k set"
    and reserved :: "'s \<Rightarrow> 'k set" and cap :: "'s \<Rightarrow> nat" and key :: "'r \<Rightarrow> 'k"
    and bnd :: "'s \<Rightarrow> 'r \<Rightarrow> (hi_ret \<times> 's) option" and unb :: "'s \<Rightarrow> 'r \<Rightarrow> (hi_ret \<times> 's) option"
  assumes bind_refused: "valid s \<Longrightarrow> key r \<in> members s \<or> cap s \<le> card (members s) \<Longrightarrow>
      bnd s r = Some (HI_FAILURE, s)"
    and bind_accepted: "valid s \<Longrightarrow> key r \<notin> members s \<Longrightarrow> card (members s) < cap s \<Longrightarrow> key r \<notin> reserved s \<Longrightarrow>
      \<exists>s'. bnd s r = Some (HI_SUCCESS, s') \<and> valid s' \<and> members s' = insert (key r) (members s) \<and>
           busy s' = busy s \<and> reserved s' = reserved s \<and> cap s' = cap s"
    and unbind_refused: "valid s \<Longrightarrow> key r \<notin> members s \<Longrightarrow> unb s r = Some (HI_FAILURE, s)"
    and unbind_accepted: "valid s \<Longrightarrow> key r \<in> members s \<Longrightarrow> key r \<notin> busy s \<Longrightarrow>
      \<exists>s'. unb s r = Some (HI_SUCCESS, s') \<and> valid s' \<and> members s' = members s - {key r} \<and>
           busy s' = busy s \<and> reserved s' = reserved s \<and> cap s' = cap s"
begin

lemma step_refines:
  assumes "valid s" "key (req_arg q) \<notin> busy s \<union> reserved s"
  shows "\<exists>s'. request_step bnd unb s q = Some (fst (set_step (cap s) key (members s) q), s') \<and> valid s' \<and>
    members s' = snd (set_step (cap s) key (members s) q) \<and>
    busy s' = busy s \<and> reserved s' = reserved s \<and> cap s' = cap s"
proof (cases q)
  case (Bind r)
  then show ?thesis
    using assms bind_refused [of s r] bind_accepted [of s r]
    by (cases "key r \<in> members s \<or> cap s \<le> card (members s)") (auto simp: not_le)
next
  case (Unbind r)
  then show ?thesis
    using assms unbind_refused [of s r] unbind_accepted [of s r] by (cases "key r \<in> members s") auto
qed

lemma run_refines:
  assumes "valid s" "\<forall>q \<in> set qs. key (req_arg q) \<notin> busy s \<union> reserved s"
  shows "\<exists>s'. request_run bnd unb s qs = Some (fst (set_run (cap s) key (members s) qs), s') \<and> valid s' \<and>
    members s' = snd (set_run (cap s) key (members s) qs) \<and> busy s' = busy s"
  using assms
proof (induction qs arbitrary: s)
  case Nil
  then show ?case by simp
next
  case (Cons q qs)
  obtain s1 where s1: "request_step bnd unb s q = Some (fst (set_step (cap s) key (members s) q), s1)" "valid s1"
    "members s1 = snd (set_step (cap s) key (members s) q)"
    "busy s1 = busy s" "reserved s1 = reserved s" "cap s1 = cap s"
    using step_refines [of s q] Cons.prems by auto
  then obtain s' where "request_run bnd unb s1 qs = Some (fst (set_run (cap s) key (members s1) qs), s')" "valid s'"
    "members s' = snd (set_run (cap s) key (members s1) qs)" "busy s' = busy s"
    using Cons.IH [of s1] Cons.prems by auto
  with s1 show ?case by (auto simp: split_beta Let_def)
qed

end

lemma busy_keys_deleted:
  assumes wf: "port_wf extra p" and i: "i < buf_num p" "i \<notin> set (queue p)"
  shows "busy_keys (port_deleted p i) = busy_keys p"
proof -
  let ?l = "buf_num p - 1"
  let ?f = "\<lambda>j. if j = i then ?l else j"
  have ren: "phy_addr (port_buf (port_deleted p i) j) = phy_addr (port_buf p (?f j))"
    "j \<in> set (queue (port_deleted p i)) \<longleftrightarrow> ?f j \<in> set (queue p)" if "j < ?l" for j
    using that port_deleted_rename(1,3) [OF wf i, of j] by (auto simp: live_def)
  have "?f ` {j \<in> set (queue (port_deleted p i)). j < ?l} = {j \<in> set (queue p). j < buf_num p}"
  proof (intro set_eqI iffI)
    fix q assume "q \<in> ?f ` {j \<in> set (queue (port_deleted p i)). j < ?l}"
    then obtain j where "q = ?f j" "j \<in> set (queue (port_deleted p i))" "j < ?l" by (elim imageE) simp
    then show "q \<in> {j \<in> set (queue p). j < buf_num p}" using ren(2) [of j] i by auto
  next
    fix q assume q: "q \<in> {j \<in> set (queue p). j < buf_num p}"
    define j where "j = (if q = ?l then i else q)"
    have "i < ?l" if "q = ?l"
    proof -
      have "i \<noteq> ?l" using that q i by auto
      then show ?thesis using i by linarith
    qed
    then have "j < ?l" "?f j = q" using q i by (auto simp: j_def)
    then show "q \<in> ?f ` {j \<in> set (queue (port_deleted p i)). j < ?l}" using ren(2) [of j] q by force
  qed
  then have "busy_keys p = (\<lambda>j. phy_addr (port_buf p j)) ` ?f ` {j \<in> set (queue (port_deleted p i)). j < ?l}"
    by (simp add: busy_keys_def)
  also have "\<dots> = busy_keys (port_deleted p i)"
    using ren(1) by (force simp: busy_keys_def image_image)
  finally show ?thesis by simp
qed

lemma port_insert_frame:
  assumes "port_wf extra p" "\<not> port_full p"
  shows "busy_keys (port_insert p d k) = busy_keys p" "extra_keys extra (port_insert p d k) = extra_keys extra p"
proof -
  have old: "port_buf (port_insert p d k) j = port_buf p j" if "j \<noteq> buf_num p" for j
    using port_insert_buf(1) [OF assms, of d k j] that by simp
  have "buf_num p \<notin> set (queue p)" using assms port_wfD(4) [OF assms(1)] by (auto simp: live_def port_full_def)
  then have "{i \<in> set (queue p). i < Suc (buf_num p)} = {i \<in> set (queue p). i < buf_num p}"
    by (auto simp: less_Suc_eq)
  then show "busy_keys (port_insert p d k) = busy_keys p" using old by (simp add: busy_keys_def)
  show "extra_keys extra (port_insert p d k) = extra_keys extra p"
    using old assms(2) by (simp add: extra_keys_def port_full_def)
qed

lemma extra_keys_deleted:
  assumes "port_wf extra p" "i < buf_num p"
  shows "extra_keys extra (port_deleted p i) = extra_keys extra p"
proof -
  have "port_buf (port_deleted p i) j = port_buf p j" if "max_buf_num p \<le> j" for j
    using that assms port_wfD(2) [OF assms(1)] port_deleted_buf [OF assms, of j] by simp
  then show ?thesis by (simp add: extra_keys_def)
qed

lemma key_table_port: "key_table (port_wf extra) keys busy_keys (extra_keys extra) max_buf_num req_key port_bind port_unbind"
proof
  fix s :: port and r :: "OMXVDEC_BUF_DESC \<times> u32"
  assume wf: "port_wf extra s"
  have full: "port_full s \<longleftrightarrow> max_buf_num s \<le> card (keys s)" by (simp add: port_full_def card_keys [OF wf])
  note find = port_find_keys [OF wf, of "phyaddr (fst r)"]
  show "req_key r \<in> keys s \<or> max_buf_num s \<le> card (keys s) \<Longrightarrow> port_bind s r = Some (HI_FAILURE, s)"
    using find full by (auto simp: port_bind_def req_key_def)
  show "req_key r \<notin> keys s \<Longrightarrow> port_unbind s r = Some (HI_FAILURE, s)"
    using find by (simp add: port_unbind_def req_key_def)
  assume "req_key r \<notin> keys s" "card (keys s) < max_buf_num s" "req_key r \<notin> extra_keys extra s"
  then show "\<exists>s'. port_bind s r = Some (HI_SUCCESS, s') \<and> port_wf extra s' \<and> keys s' = insert (req_key r) (keys s) \<and>
      busy_keys s' = busy_keys s \<and> extra_keys extra s' = extra_keys extra s \<and> max_buf_num s' = max_buf_num s"
    using find full port_insert_wf [OF wf] port_insert_keys [OF wf] port_insert_frame [OF wf]
    by (simp add: port_bind_def req_key_def)
next
  fix s :: port and r :: "OMXVDEC_BUF_DESC \<times> u32"
  assume wf: "port_wf extra s" and r: "req_key r \<in> keys s" "req_key r \<notin> busy_keys s"
  then obtain i where i: "port_find s (req_key r) = Some i" "i < buf_num s" "phy_addr (port_buf s i) = req_key r"
    using port_find_keys [OF wf, of "req_key r"] port_find_Some [OF wf] by auto
  have q: "i \<notin> set (queue s)"
  proof
    assume "i \<in> set (queue s)"
    then have "phy_addr (port_buf s i) \<in> busy_keys s" using i(2) by (simp add: busy_keys_def)
    then show False using r(2) i(3) by simp
  qed
  show "\<exists>s'. port_unbind s r = Some (HI_SUCCESS, s') \<and> port_wf extra s' \<and> keys s' = keys s - {req_key r} \<and>
      busy_keys s' = busy_keys s \<and> extra_keys extra s' = extra_keys extra s \<and> max_buf_num s' = max_buf_num s"
    using i port_delete_eq [OF wf i(2) q] port_deleted_wf [OF wf i(2) q] port_deleted_keys [OF wf i(2) q]
      busy_keys_deleted [OF wf i(2) q] extra_keys_deleted [OF wf i(2)]
    by (simp add: port_unbind_def req_key_def)
qed

interpretation raw_table: key_table "port_wf 1" keys busy_keys "extra_keys 1" max_buf_num req_key port_bind port_unbind
  by (rule key_table_port)

interpretation yuv_table: key_table "port_wf 0" keys busy_keys "extra_keys 0" max_buf_num req_key port_bind port_unbind
  by (rule key_table_port)

text \<open>A port with two buffers, one of them queued, for concrete runs.\<close>

definition example_buf :: "u32 \<Rightarrow> nat \<Rightarrow> eBUFFER_STATE \<Rightarrow> OMXVDEC_BUF_S" where
  "example_buf a i st = zero_buf\<lparr>phy_addr := a, buf_id := of_nat i, buf_len := 4096, status := st\<rparr>"

definition example_port :: port where
  "example_port = \<lparr>bufs = [example_buf 0x1000 0 BUF_STATE_IDLE, example_buf 0x2000 1 BUF_STATE_QUEUED,
       zero_buf, example_buf 0x9000 0xffff BUF_STATE_IDLE],
     buf_num = 2, max_buf_num = 3, queue = [1], use_cnt = 0, flush_pending = False\<rparr>"

lemma example_port_simps [simp]:
  "buf_num example_port = 2" "max_buf_num example_port = 3" "queue example_port = [1]"
  "use_cnt example_port = 0" "length (bufs example_port) = 4" "flush_pending example_port = False"
  "port_buf example_port 0 = example_buf 0x1000 0 BUF_STATE_IDLE"
  "port_buf example_port (Suc 0) = example_buf 0x2000 1 BUF_STATE_QUEUED"
  "port_buf example_port 3 = example_buf 0x9000 0xffff BUF_STATE_IDLE"
  by (simp_all add: port_buf_def example_port_def)

lemma example_buf_simps [simp]:
  "phy_addr (example_buf a i st) = a" "buf_id (example_buf a i st) = of_nat i" "status (example_buf a i st) = st"
  "buf_len (example_buf a i st) = 4096" "offset (example_buf a i st) = 0"
  by (simp_all add: example_buf_def zero_buf_def)

lemma example_port_live: "live (Suc 0) example_port = {0, Suc 0, 3}"
  by (auto simp: live_def)

lemma lessThan_2: "{..< 2 :: nat} = {0, Suc 0}"
  by auto

lemma example_port_keys:
  "keys example_port = {0x1000, 0x2000}" "busy_keys example_port = {0x2000}" "extra_keys (Suc 0) example_port = {0x9000}"
proof -
  have "{i. i = Suc 0 \<and> i < 2} = {Suc 0}" "{3 ..< 4 :: nat} = {3}" by auto
  then show "keys example_port = {0x1000, 0x2000}" "busy_keys example_port = {0x2000}"
    "extra_keys (Suc 0) example_port = {0x9000}"
    by (simp_all add: keys_def busy_keys_def extra_keys_def lessThan_2)
qed

lemma example_port_wf: "port_wf 1 example_port"
proof -
  have n: "i < 2 \<longleftrightarrow> i = 0 \<or> i = Suc 0" for i by auto
  have "users example_port = {}" by (simp add: users_def in_use_def)
  then have "queue_wf 1 example_port" by (simp add: queue_wf_def example_port_live queued_def)
  moreover have "table_wf 1 example_port" by (simp add: table_wf_def example_port_live n)
  ultimately show ?thesis by (simp add: port_wf_def)
qed

section \<open>Properties\<close>



text \<open>
  Unbinding a buffer that is linked in the queue is undefined: the table entry that
  holds the list node is overwritten while the node is still linked.
\<close>

theorem unbind_queued_undefined:
  assumes "port_wf extra p" "phyaddr (fst r) \<in> busy_keys p"
  shows "port_unbind p r = None"
proof -
  obtain i where "i \<in> set (queue p)" "i < buf_num p" "phy_addr (port_buf p i) = phyaddr (fst r)"
    using assms(2) by (auto simp: busy_keys_def)
  then have "port_find p (phyaddr (fst r)) = Some i" "port_delete p i = None"
    using port_find_Some [OF assms(1)] port_delete_undefined by auto
  then show ?thesis by (simp add: port_unbind_def)
qed

theorem unbind_queued_undefined_witness:
  "port_wf 1 example_port \<and> port_unbind example_port (zero_desc\<lparr>phyaddr := 0x2000\<rparr>, 0) = None"
  using unbind_queued_undefined [OF example_port_wf, of "(zero_desc\<lparr>phyaddr := 0x2000\<rparr>, 0)"]
    example_port_wf
  by (simp add: example_port_keys)

end
