(* ===== verification/Omx_State.thy ===== *)
theory Omx_State
  imports Omx_Buffers Pts_Recovery
begin

text \<open>
  The state of the OMX video decoder driver: the channel context of \<open>channel.h\<close>, the
  tunable globals, the messages posted to the user side, and the calls into the parts
  that are not in the repository (video firmware, video post-processor, memory
  manager, files, clock).

  A call into one of those parts is a value of \<open>ext_call\<close>. The environment \<open>env\<close> gives
  its return code and output words as a function of all calls made before, so it
  may behave in any way; every call is recorded in \<open>calls\<close>. Callbacks that such a part
  makes into the driver are separate steps. \<open>message_queue\<close> (also outside the repository)
  appends to \<open>msgs\<close>, the sequence of messages posted for a channel.

  The model is the build without \<open>HI_TVP_SUPPORT\<close> and without \<open>BPP_MODE_ENABLE\<close> (0 in
  \<open>omxvdec.h\<close>). Spin locks are not modelled: a function of the driver is one step.
\<close>

section \<open>Calls out of the driver\<close>

record MMZ_BUFFER_S =
  u32StartPhyAddr :: u32
  u32StartVirAddr :: u32
  u32Size :: u32

definition zero_mmz :: MMZ_BUFFER_S where
  "zero_mmz = \<lparr>u32StartPhyAddr = 0, u32StartVirAddr = 0, u32Size = 0\<rparr>"

datatype VDEC_CID =
    VDEC_CID_GET_CHAN_DETAIL_MEMSIZE_WITH_OPTION | VDEC_CID_CREATE_CHAN_WITH_OPTION
  | VDEC_CID_DESTROY_CHAN | VDEC_CID_START_CHAN | VDEC_CID_STOP_CHAN | VDEC_CID_RESET_CHAN
  | VDEC_CID_RESET_CHAN_WITH_OPTION | VDEC_CID_CFG_CHAN | VDEC_CID_SET_STREAM_INTF
  | VDEC_CID_GET_IMAGE_INTF | VDEC_CID_RELEASE_STREAM | VDEC_CID_ALLOC_MEM_TO_CHANNEL
  | VDEC_CID_EXTRA_WAKEUP_THREAD | VDEC_CID_START_LOWDLAY_CALC | VDEC_CID_STOP_LOWDLAY_CALC
  | VDEC_CID_SET_FRAME_RATE

datatype VPSS_CMD = VPSS_COMMAND_IMAGEREADY | VPSS_COMMAND_STOREPRIV | VPSS_COMMAND_START
  | VPSS_COMMAND_STOP | VPSS_COMMAND_RESET

text \<open>
  The arguments that matter are words: the channel handle, the command and the words
  passed with it.
\<close>

datatype ext_call =
    GET_VFMW_FUNC | GET_VPSS_FUNC | VFMW_INIT | VFMW_EXIT
  | VFMW_CONTROL u32 VDEC_CID "u32 list"
  | VFMW_READ_IMAGE u32 | VFMW_RELEASE_IMAGE u32 "u32 list"
  | VPSS_GLOBAL_INIT | VPSS_GLOBAL_DEINIT | VPSS_DEFAULT_CFG | VPSS_CREATE "u32 list"
  | VPSS_REGIST_HOOK u32 u32 | VPSS_SET_SOURCE u32 | VPSS_DEFAULT_PORT_CFG
  | VPSS_CREATE_PORT u32 "u32 list" | VPSS_DESTROY_PORT u32 | VPSS_DESTROY u32
  | VPSS_SEND_COMMAND u32 VPSS_CMD "u32 list" | VPSS_ENABLE_PORT u32 bool
  | MMZ_ALLOC_MAP u32 | MMZ_ALLOC u32 | MMZ_MAP_CACHE u32 | MMZ_UNMAP_RELEASE u32
  | MMZ_MAP u32 | MMZ_UNMAP u32 u32
  | MSG_QUEUE_INIT | MSG_QUEUE_DEINIT | MSG_DEQUEUE
  | KZALLOC | KFREE | GET_TIME | LD_START u32 | LD_STOP
  | RAW_OPEN u32 | RAW_CLOSE | RAW_WRITE u32 u32
  | TASK_CREATE | TASK_DESTROY | MSLEEP

type_synonym env = "ext_call list \<Rightarrow> ext_call \<Rightarrow> hi_ret \<times> u32 list"

record world =
  calls :: "ext_call list"
  pts_table :: ptsrec_table

definition ext :: "env \<Rightarrow> ext_call \<Rightarrow> world \<Rightarrow> hi_ret \<times> world" where
  "ext E a w = (fst (E (calls w) a), w\<lparr>calls := calls w @ [a]\<rparr>)"

text \<open>The words a call writes back, missing ones read as zero.\<close>

definition word_at :: "u32 list \<Rightarrow> nat \<Rightarrow> u32" where
  "word_at ws i = (if i < length ws then ws ! i else 0)"

definition ext_out :: "env \<Rightarrow> ext_call \<Rightarrow> world \<Rightarrow> hi_ret \<times> u32 list \<times> world" where
  "ext_out E a w = (fst (E (calls w) a), snd (E (calls w) a), w\<lparr>calls := calls w @ [a]\<rparr>)"

text \<open>A call whose result the source ignores.\<close>

definition ext_do :: "env \<Rightarrow> ext_call \<Rightarrow> world \<Rightarrow> world" where
  "ext_do E a w = snd (ext E a w)"

definition OMX_GetTimeInMs :: "env \<Rightarrow> world \<Rightarrow> u32 \<times> world" where
  "OMX_GetTimeInMs E w = (let (_, ws, w') = ext_out E GET_TIME w in (word_at ws 0, w'))"

section \<open>Messages and states\<close>

definition VDEC_S_SUCCESS :: u32 where "VDEC_S_SUCCESS = 0"
definition VDEC_S_FAILED :: u32 where "VDEC_S_FAILED = 1"
definition VDEC_ERR_ILLEGAL_OP :: u32 where "VDEC_ERR_ILLEGAL_OP = 0x20003"
definition VDEC_ERR_BAD_STATE :: u32 where "VDEC_ERR_BAD_STATE = 0x20008"
definition VDEC_ERR_HW_FATAL :: u32 where "VDEC_ERR_HW_FATAL = 0x2000a"

datatype msgcode =
    VDEC_MSG_RESP_START_DONE | VDEC_MSG_RESP_STOP_DONE | VDEC_MSG_RESP_PAUSE_DONE
  | VDEC_MSG_RESP_RESUME_DONE | VDEC_MSG_RESP_FLUSH_INPUT_DONE | VDEC_MSG_RESP_FLUSH_OUTPUT_DONE
  | VDEC_MSG_RESP_INPUT_DONE | VDEC_MSG_RESP_OUTPUT_DONE | VDEC_EVT_REPORT_IMG_SIZE_CHG

datatype msgdata = NO_DATA | BUF_DATA OMXVDEC_BUF_DESC | IMG_SIZE u32 u32 u32

datatype msg = Msg msgcode u32 msgdata

datatype eCHAN_STATE = CHAN_STATE_INVALID | CHAN_STATE_IDLE | CHAN_STATE_WORK | CHAN_STATE_PAUSE
  | CHAN_STATE_PAUSE_PENDING

datatype eDFS_STATE = DFS_INIT | DFS_WAIT_ALLOC | DFS_WAIT_INSERT | DFS_WAIT_BIND | DFS_WAIT_FILL
  | DFS_WAIT_ACTIVATE | DFS_ALREADY_ALLOC

datatype eMEM_ALLOC = ALLOC_BY_MMZ | ALLOC_BY_PRE | ALLOC_BY_SEC

datatype OMX_PIX_FORMAT_E = OMX_PIX_FMT_NV12 | OMX_PIX_FMT_NV21 | OMX_PIX_FMT_YUV420Planar
  | OMX_PIX_FMT_YUV420Tile | OMX_PIX_BUTT

text \<open>
  The coding standards of \<open>VID_STD_E\<close> and \<open>OMXVDEC_CODEC_EXT\<close>; \<open>STD_OTHER\<close> stands for
  a number that names none of them.
\<close>

datatype VID_STD = STD_H264 | STD_VC1 | STD_MPEG4 | STD_MPEG2 | STD_H263 | STD_DIVX3 | STD_AVS
  | STD_JPEG | STD_REAL8 | STD_REAL9 | STD_VP6 | STD_VP6F | STD_VP6A | STD_VP8
  | STD_SORENSON | STD_MVC | STD_HEVC | STD_RAW | STD_USER | STD_WMV | STD_MJPEG | STD_OTHER u32

record OMXVDEC_CHAN_STATINFO =
  DecoderIn :: u32
  DecoderOut :: u32
  ProcessorIn :: u32
  ProcessorOut :: u32

record OMXVDEC_LOWDELAY_PROC_RECORD =
  usrtag_start_time :: u32
  interval :: u32
  current_tag :: u32
  time_record :: "u32 list list"
  time_cost_sum :: u32
  average_time_cost :: u32
  rec_index :: u32

record globals =
  g_FastOutputMode :: bool
  g_LowDelayStatistics :: bool
  g_lowdelay_count_frame :: u32
  g_DispNum :: u32
  g_SegSize :: u32
  g_DynamicFsEnable :: bool
  g_RawMoveEnable :: bool
  g_FrameRateLimit :: bool
  g_DeInterlaceEnable :: bool
  g_SaveRawEnable :: bool
  g_SaveYuvEnable :: bool
  g_SaveNum :: u32
  g_SavePath :: string
  g_SaveName :: string
  g_TraceOption :: u32

text \<open>The values the settings are initialised with.\<close>

definition default_globals :: globals where
  "default_globals = \<lparr>g_FastOutputMode = False, g_LowDelayStatistics = False, g_lowdelay_count_frame = 100,
     g_DispNum = 4, g_SegSize = 2, g_DynamicFsEnable = True, g_RawMoveEnable = True, g_FrameRateLimit = True,
     g_DeInterlaceEnable = False, g_SaveRawEnable = False, g_SaveYuvEnable = False, g_SaveNum = 0,
     g_SavePath = ''/mnt'', g_SaveName = ''omx'', g_TraceOption = 0\<rparr>"

section \<open>The channel context\<close>

text \<open>
  \<open>in_port\<close> holds \<open>in_buf_table\<close>, \<open>input_buf_num\<close>, \<open>max_in_buf_num\<close>, \<open>raw_queue\<close>,
  \<open>raw_use_cnt\<close>, \<open>input_flush_pending\<close> and \<open>last_frame\<close>; \<open>out_port\<close> holds \<open>out_buf_table\<close>,
  \<open>output_buf_num\<close>, \<open>max_out_buf_num\<close>, \<open>yuv_queue\<close>, \<open>yuv_use_cnt\<close> and
  \<open>output_flush_pending\<close>. The one-bit fields are truth values.
\<close>

record OMXVDEC_CHAN_CTX =
  channel_id :: u32
  decoder_id :: u32
  processor_id :: u32
  port_id :: u32
  m_use_native_buf :: bool
  out_width :: u32
  out_height :: u32
  out_stride :: u32
  protocol :: VID_STD
  bReversed :: u32
  bStorePrivateData :: bool
  ref_frame_num :: u32
  ref_frame_size :: u32
  dfs_delay_time :: u32
  in_port :: port
  out_port :: port
  pause_pending :: bool
  eos_in_list :: bool
  eos_recv_flag :: bool
  eof_send_flag :: bool
  recfg_flag :: bool
  reset_pending :: bool
  seek_pending :: bool
  progress :: bool
  file_dec :: u32
  last_frame_processor_got :: u8
  last_frame_image_id :: u8
  last_frame_info_0 :: u8
  last_frame_info_1 :: u8
  bLowdelay :: u32
  color_format :: OMX_PIX_FORMAT_E
  state :: eCHAN_STATE
  dfs_alloc_flag :: eDFS_STATE
  eSCDMemAlloc :: eMEM_ALLOC
  eVDHMemAlloc :: eMEM_ALLOC
  eEXTRAMemAlloc :: eMEM_ALLOC
  channel_extra_buf :: MMZ_BUFFER_S
  decoder_scd_buf :: MMZ_BUFFER_S
  decoder_vdh_buf :: MMZ_BUFFER_S
  raw_file :: bool
  omx_chan_statinfo :: OMXVDEC_CHAN_STATINFO
  omx_vdec_lowdelay_proc_rec :: "OMXVDEC_LOWDELAY_PROC_RECORD option"
  msgs :: "msg list"

definition LAST_FRAME_FLAG_NULL :: u8 where "LAST_FRAME_FLAG_NULL = 0"
definition DECODER_REPORT_LAST_FRAME :: u8 where "DECODER_REPORT_LAST_FRAME = 1"
definition PROCESSOR_GOT_LAST_FRAME :: u8 where "PROCESSOR_GOT_LAST_FRAME = 2"
definition REPORT_LAST_FRAME_SUCCESS :: u32 where "REPORT_LAST_FRAME_SUCCESS = 0"
definition REPORT_LAST_FRAME_FAIL :: u32 where "REPORT_LAST_FRAME_FAIL = 1"
definition REPORT_LAST_FRAME_WITH_ID :: u32 where "REPORT_LAST_FRAME_WITH_ID = 2"

definition VDEC_BUFFERFLAG_EOS :: u32 where "VDEC_BUFFERFLAG_EOS = 0x01"
definition VDEC_BUFFERFLAG_ENDOFFRAME :: u32 where "VDEC_BUFFERFLAG_ENDOFFRAME = 0x10"

text \<open>\<open>last_frame\<close> is the entry behind the input table.\<close>

definition last_slot :: "OMXVDEC_CHAN_CTX \<Rightarrow> nat" where
  "last_slot c = max_buf_num (in_port c)"

definition last_frame :: "OMXVDEC_CHAN_CTX \<Rightarrow> OMXVDEC_BUF_S" where
  "last_frame c = port_buf (in_port c) (last_slot c)"

definition message_queue :: "OMXVDEC_CHAN_CTX \<Rightarrow> msgcode \<Rightarrow> u32 \<Rightarrow> msgdata \<Rightarrow> OMXVDEC_CHAN_CTX" where
  "message_queue c code st d = c\<lparr>msgs := msgs c @ [Msg code st d]\<rparr>"

definition channel_report_message :: "OMXVDEC_CHAN_CTX \<Rightarrow> msgcode \<Rightarrow> msgdata \<Rightarrow> hi_ret \<times> OMXVDEC_CHAN_CTX" where
  "channel_report_message c code d = (HI_SUCCESS, message_queue c code VDEC_S_SUCCESS d)"

text \<open>The two tests of the low-delay mode in the source.\<close>

definition lowdelay_on :: "globals \<Rightarrow> OMXVDEC_CHAN_CTX \<Rightarrow> bool" where
  "lowdelay_on G c \<longleftrightarrow> bLowdelay c \<noteq> 0 \<or> g_FastOutputMode G"

definition lowdelay_true :: "globals \<Rightarrow> OMXVDEC_CHAN_CTX \<Rightarrow> bool" where
  "lowdelay_true G c \<longleftrightarrow> bLowdelay c = 1 \<or> g_FastOutputMode G"

section \<open>The low-delay record\<close>

definition OMX_LOWDELAY_REC_NODE_NUM :: nat where "OMX_LOWDELAY_REC_NODE_NUM = 10"
definition OMX_LOWDELAY_REC_ITEM :: nat where "OMX_LOWDELAY_REC_ITEM = 9"
definition OMX_LOWDELAY_REC_USERTAG :: nat where "OMX_LOWDELAY_REC_USERTAG = 0"
definition OMX_LOWDELAY_REC_NODE_STATE :: nat where "OMX_LOWDELAY_REC_NODE_STATE = 1"
definition OMX_LOWDELAY_REC_ETB_TIME :: nat where "OMX_LOWDELAY_REC_ETB_TIME = 2"
definition OMX_LOWDELAY_REC_VFMW_RCV_STRM_TIME :: nat where "OMX_LOWDELAY_REC_VFMW_RCV_STRM_TIME = 3"
definition OMX_LOWDELAY_REC_VFMW_RLS_STRM_TIME :: nat where "OMX_LOWDELAY_REC_VFMW_RLS_STRM_TIME = 4"
definition OMX_LOWDELAY_REC_VFMW_RPO_IMG_TIME :: nat where "OMX_LOWDELAY_REC_VFMW_RPO_IMG_TIME = 5"
definition OMX_LOWDELAY_REC_VPSS_RCV_IMG_TIME :: nat where "OMX_LOWDELAY_REC_VPSS_RCV_IMG_TIME = 6"
definition OMX_LOWDELAY_REC_VPSS_RPO_IMG_TIME :: nat where "OMX_LOWDELAY_REC_VPSS_RPO_IMG_TIME = 7"
definition OMX_LOWDELAY_REC_TOTAL_USED_TIME :: nat where "OMX_LOWDELAY_REC_TOTAL_USED_TIME = 8"

lemmas lowdelay_consts = OMX_LOWDELAY_REC_NODE_NUM_def OMX_LOWDELAY_REC_ITEM_def OMX_LOWDELAY_REC_USERTAG_def
  OMX_LOWDELAY_REC_NODE_STATE_def OMX_LOWDELAY_REC_ETB_TIME_def OMX_LOWDELAY_REC_VFMW_RCV_STRM_TIME_def
  OMX_LOWDELAY_REC_VFMW_RLS_STRM_TIME_def OMX_LOWDELAY_REC_VFMW_RPO_IMG_TIME_def
  OMX_LOWDELAY_REC_VPSS_RCV_IMG_TIME_def OMX_LOWDELAY_REC_VPSS_RPO_IMG_TIME_def
  OMX_LOWDELAY_REC_TOTAL_USED_TIME_def

definition rec_put :: "OMXVDEC_LOWDELAY_PROC_RECORD \<Rightarrow> nat \<Rightarrow> nat \<Rightarrow> u32 \<Rightarrow> OMXVDEC_LOWDELAY_PROC_RECORD" where
  "rec_put R i k v = R\<lparr>time_record := (time_record R)[i := (time_record R ! i)[k := v]]\<rparr>"

definition rec_find :: "(u32 list \<Rightarrow> bool) \<Rightarrow> OMXVDEC_LOWDELAY_PROC_RECORD \<Rightarrow> nat option" where
  "rec_find P R = find_index P (take OMX_LOWDELAY_REC_NODE_NUM (time_record R))"

definition rec_tagged :: "u32 \<Rightarrow> u32 list \<Rightarrow> bool" where
  "rec_tagged tag row \<longleftrightarrow> row ! OMX_LOWDELAY_REC_USERTAG = tag \<and> row ! OMX_LOWDELAY_REC_NODE_STATE = 1"

text \<open>
  The end of a frame: its total time goes into the statistics (a division by
  \<open>g_lowdelay_count_frame\<close>, which the user can set to zero) and its row is copied to the last
  row, the one that is printed.
\<close>

definition rec_report ::
  "u32 \<Rightarrow> OMXVDEC_LOWDELAY_PROC_RECORD \<Rightarrow> nat \<Rightarrow> u32 \<Rightarrow> OMXVDEC_LOWDELAY_PROC_RECORD option" where
  "rec_report cnt R i time =
     (let R1 = rec_put R i OMX_LOWDELAY_REC_VPSS_RPO_IMG_TIME time;
          total = time_record R1 ! i ! OMX_LOWDELAY_REC_VPSS_RPO_IMG_TIME
                    - time_record R1 ! i ! OMX_LOWDELAY_REC_ETB_TIME;
          R2 = (rec_put R1 i OMX_LOWDELAY_REC_TOTAL_USED_TIME total)\<lparr>rec_index := rec_index R1 + 1\<rparr>;
          R3 = (if rec_index R2 < cnt then Some (R2\<lparr>time_cost_sum := time_cost_sum R2 + total\<rparr>)
                else if cnt = 0 then None
                else Some (R2\<lparr>average_time_cost := time_cost_sum R2 div cnt, rec_index := 0, time_cost_sum := 0\<rparr>))
      in map_option (\<lambda>R. R\<lparr>time_record := (time_record R)[OMX_LOWDELAY_REC_NODE_NUM := time_record R ! i]\<rparr>) R3)"

definition rec_purge :: "OMXVDEC_LOWDELAY_PROC_RECORD \<Rightarrow> u32 \<Rightarrow> OMXVDEC_LOWDELAY_PROC_RECORD" where
  "rec_purge R tag =
     R\<lparr>time_record :=
        map (\<lambda>row. if row ! OMX_LOWDELAY_REC_USERTAG \<le> tag then replicate OMX_LOWDELAY_REC_ITEM 0 else row)
          (take OMX_LOWDELAY_REC_NODE_NUM (time_record R))
        @ drop OMX_LOWDELAY_REC_NODE_NUM (time_record R)\<rparr>"

definition rec_add ::
  "u32 \<Rightarrow> OMXVDEC_LOWDELAY_PROC_RECORD \<Rightarrow> u32 \<Rightarrow> nat \<Rightarrow> u32 \<Rightarrow> OMXVDEC_LOWDELAY_PROC_RECORD option" where
  "rec_add cnt R tag ty time =
     (if ty = OMX_LOWDELAY_REC_ETB_TIME then
        (case rec_find (\<lambda>row. row ! OMX_LOWDELAY_REC_NODE_STATE = 0) R of None \<Rightarrow> Some R
         | Some i \<Rightarrow> Some (R\<lparr>time_record := (time_record R)[i :=
              (replicate OMX_LOWDELAY_REC_ITEM 0)[OMX_LOWDELAY_REC_USERTAG := tag,
                 OMX_LOWDELAY_REC_ETB_TIME := time, OMX_LOWDELAY_REC_NODE_STATE := 1]]\<rparr>))
      else if ty = OMX_LOWDELAY_REC_VFMW_RCV_STRM_TIME \<or> ty = OMX_LOWDELAY_REC_VFMW_RLS_STRM_TIME
            \<or> ty = OMX_LOWDELAY_REC_VFMW_RPO_IMG_TIME \<or> ty = OMX_LOWDELAY_REC_VPSS_RCV_IMG_TIME then
        (case rec_find (rec_tagged tag) R of None \<Rightarrow> Some R | Some i \<Rightarrow> Some (rec_put R i ty time))
      else if ty = OMX_LOWDELAY_REC_VPSS_RPO_IMG_TIME then
        map_option (\<lambda>R. rec_purge R tag)
          (case rec_find (rec_tagged tag) R of None \<Rightarrow> Some R | Some i \<Rightarrow> rec_report cnt R i time)
      else Some R)"

definition channel_add_lowdelay_tag_time ::
  "globals \<Rightarrow> OMXVDEC_CHAN_CTX \<Rightarrow> u32 \<Rightarrow> nat \<Rightarrow> u32 \<Rightarrow> OMXVDEC_CHAN_CTX option" where
  "channel_add_lowdelay_tag_time G c tag ty time =
     (case omx_vdec_lowdelay_proc_rec c of None \<Rightarrow> None
      | Some R \<Rightarrow> map_option (\<lambda>R'. c\<lparr>omx_vdec_lowdelay_proc_rec := Some R'\<rparr>)
                    (rec_add (g_lowdelay_count_frame G) R tag ty time))"

text \<open>The guarded call that most handlers make: only in low-delay mode and with a record.\<close>

definition lowdelay_note ::
  "env \<Rightarrow> globals \<Rightarrow> OMXVDEC_CHAN_CTX \<Rightarrow> world \<Rightarrow> u32 \<Rightarrow> nat \<Rightarrow> (OMXVDEC_CHAN_CTX \<times> world) option" where
  "lowdelay_note E G c w tag ty =
     (if lowdelay_on G c \<and> omx_vdec_lowdelay_proc_rec c \<noteq> None then
        (let (t, w1) = OMX_GetTimeInMs E w in
         map_option (\<lambda>c'. (c', w1)) (channel_add_lowdelay_tag_time G c tag ty t))
      else Some (c, w))"

section \<open>The driver\<close>

datatype eTASK_STATE = TASK_STATE_INVALID | TASK_STATE_SLEEPING | TASK_STATE_ONCALL | TASK_STATE_RUNNING

record driver =
  open_count :: u32
  total_chan_num :: u32
  task_state :: eTASK_STATE
  task_thread :: bool
  chan_list :: "OMXVDEC_CHAN_CTX list"
  globs :: globals
  wld :: world

definition find_chan :: "(OMXVDEC_CHAN_CTX \<Rightarrow> u32) \<Rightarrow> driver \<Rightarrow> u32 \<Rightarrow> nat option" where
  "find_chan key d handle =
     (if sint handle < 0 then None else find_index (\<lambda>c. key c = handle) (chan_list d))"

definition channel_find_inst_by_channel_id :: "driver \<Rightarrow> u32 \<Rightarrow> nat option" where
  "channel_find_inst_by_channel_id = find_chan channel_id"

definition channel_find_inst_by_decoder_id :: "driver \<Rightarrow> u32 \<Rightarrow> nat option" where
  "channel_find_inst_by_decoder_id = find_chan decoder_id"

definition channel_find_inst_by_processor_id :: "driver \<Rightarrow> u32 \<Rightarrow> nat option" where
  "channel_find_inst_by_processor_id = find_chan processor_id"

definition channel_find_inst_need_wake_up :: "driver \<Rightarrow> nat option" where
  "channel_find_inst_need_wake_up d = find_index (\<lambda>c. dfs_alloc_flag c = DFS_WAIT_ALLOC) (chan_list d)"

text \<open>Running a channel operation on the channel at a position of the list.\<close>

definition put_chan :: "driver \<Rightarrow> nat \<Rightarrow> OMXVDEC_CHAN_CTX \<Rightarrow> world \<Rightarrow> driver" where
  "put_chan d i c w = d\<lparr>chan_list := (chan_list d)[i := c], wld := w\<rparr>"

section \<open>Memory\<close>

text \<open>
  \<open>omxvdec_release_mem\<close>: nothing for a buffer of size zero; the other ways to allocate
  are not part of the modelled build.
\<close>

definition omxvdec_release_mem :: "env \<Rightarrow> MMZ_BUFFER_S \<Rightarrow> eMEM_ALLOC \<Rightarrow> world \<Rightarrow> MMZ_BUFFER_S \<times> world" where
  "omxvdec_release_mem E b how w =
     (if u32Size b \<noteq> 0
      then (zero_mmz, if how = ALLOC_BY_MMZ then ext_do E (MMZ_UNMAP_RELEASE (u32StartPhyAddr b)) w else w)
      else (b, w))"

text \<open>A buffer as the memory manager fills it in: physical address, virtual address, size.\<close>

definition mmz_of :: "u32 list \<Rightarrow> MMZ_BUFFER_S" where
  "mmz_of ws = \<lparr>u32StartPhyAddr = word_at ws 0, u32StartVirAddr = word_at ws 1, u32Size = word_at ws 2\<rparr>"

section \<open>The latency of a frame\<close>

definition rec_wf :: "OMXVDEC_LOWDELAY_PROC_RECORD \<Rightarrow> bool" where
  "rec_wf R \<longleftrightarrow> length (time_record R) = Suc OMX_LOWDELAY_REC_NODE_NUM \<and>
     (\<forall>row \<in> set (time_record R). length row = OMX_LOWDELAY_REC_ITEM)"

text \<open>The frame \<open>tag\<close> came in at \<open>t0\<close>: one row, and no other, is kept for it.\<close>

definition tracked :: "u32 \<Rightarrow> u32 \<Rightarrow> OMXVDEC_LOWDELAY_PROC_RECORD \<Rightarrow> bool" where
  "tracked tag t0 R \<longleftrightarrow> (\<exists>i < OMX_LOWDELAY_REC_NODE_NUM. rec_tagged tag (time_record R ! i) \<and>
     time_record R ! i ! OMX_LOWDELAY_REC_ETB_TIME = t0 \<and>
     (\<forall>j < OMX_LOWDELAY_REC_NODE_NUM. rec_tagged tag (time_record R ! j) \<longrightarrow> j = i))"

type_synonym rec_event = "u32 \<times> nat \<times> u32"

fun rec_run :: "u32 \<Rightarrow> OMXVDEC_LOWDELAY_PROC_RECORD \<Rightarrow> rec_event list \<Rightarrow> OMXVDEC_LOWDELAY_PROC_RECORD option" where
  "rec_run cnt R [] = Some R"
| "rec_run cnt R ((tag, ty, time) # evs) =
     (case rec_add cnt R tag ty time of None \<Rightarrow> None | Some R' \<Rightarrow> rec_run cnt R' evs)"

text \<open>
  What may happen between the two ends of a frame: its own stations, and anything of other
  frames, except that no later frame is finished first.
\<close>

definition between :: "u32 \<Rightarrow> rec_event \<Rightarrow> bool" where
  "between tag = (\<lambda>(tag', ty, time).
     (ty = OMX_LOWDELAY_REC_ETB_TIME \<longrightarrow> tag' \<noteq> tag) \<and> (ty = OMX_LOWDELAY_REC_VPSS_RPO_IMG_TIME \<longrightarrow> tag' < tag))"

lemma rec_find_Some:
  "rec_wf R \<Longrightarrow> rec_find P R = Some i \<longleftrightarrow>
     i < OMX_LOWDELAY_REC_NODE_NUM \<and> P (time_record R ! i) \<and> (\<forall>j < i. \<not> P (time_record R ! j))"
  by (auto simp: rec_find_def find_index_Some rec_wf_def)

lemma rec_put_row:
  "rec_wf R \<Longrightarrow> i < OMX_LOWDELAY_REC_NODE_NUM \<Longrightarrow>
   time_record (rec_put R i k v) ! j = (if j = i then (time_record R ! i)[k := v] else time_record R ! j)"
  by (simp add: rec_put_def rec_wf_def)

lemma rec_wf_rows:
  "rec_wf R \<Longrightarrow> length row = OMX_LOWDELAY_REC_ITEM \<Longrightarrow> rec_wf (R\<lparr>time_record := (time_record R)[i := row]\<rparr>)"
  by (auto simp: rec_wf_def dest!: set_update_subset_insert [THEN subsetD])

lemma rec_wf_length: "rec_wf R \<Longrightarrow> i < Suc OMX_LOWDELAY_REC_NODE_NUM \<Longrightarrow> length (time_record R ! i) = OMX_LOWDELAY_REC_ITEM"
  by (simp add: rec_wf_def)

lemma rec_put_wf: "rec_wf R \<Longrightarrow> i < OMX_LOWDELAY_REC_NODE_NUM \<Longrightarrow> rec_wf (rec_put R i k v)"
  by (simp add: rec_put_def rec_wf_rows rec_wf_length)

lemma rec_purge_wf: "rec_wf R \<Longrightarrow> rec_wf (rec_purge R tag)"
  by (auto simp: rec_wf_def rec_purge_def lowdelay_consts dest: in_set_takeD in_set_dropD)

lemma rec_purge_row:
  "rec_wf R \<Longrightarrow> j < Suc OMX_LOWDELAY_REC_NODE_NUM \<Longrightarrow> time_record (rec_purge R tag) ! j =
     (if j < OMX_LOWDELAY_REC_NODE_NUM \<and> time_record R ! j ! OMX_LOWDELAY_REC_USERTAG \<le> tag
      then replicate OMX_LOWDELAY_REC_ITEM 0 else time_record R ! j)"
  by (auto simp: rec_wf_def rec_purge_def nth_append less_Suc_eq)

text \<open>The report of a frame, if the number of counted frames is not zero.\<close>

definition reported_row :: "u32 list \<Rightarrow> u32 \<Rightarrow> u32 list" where
  "reported_row row time = row[OMX_LOWDELAY_REC_VPSS_RPO_IMG_TIME := time,
     OMX_LOWDELAY_REC_TOTAL_USED_TIME := time - row ! OMX_LOWDELAY_REC_ETB_TIME]"

lemma rec_report_row:
  assumes wf: "rec_wf R" and i: "i < OMX_LOWDELAY_REC_NODE_NUM" and cnt: "cnt \<noteq> 0"
  obtains R' where "rec_report cnt R i time = Some R'" "rec_wf R'"
    "\<And>j. j < OMX_LOWDELAY_REC_NODE_NUM \<Longrightarrow>
       time_record R' ! j = (if j = i then reported_row (time_record R ! i) time else time_record R ! j)"
    "time_record R' ! OMX_LOWDELAY_REC_NODE_NUM = reported_row (time_record R ! i) time"
proof -
  let ?row = "reported_row (time_record R ! i) time"
  have row: "length (time_record R ! i) = OMX_LOWDELAY_REC_ITEM" "length (time_record R) = Suc OMX_LOWDELAY_REC_NODE_NUM"
    using wf i by (simp_all add: rec_wf_length rec_wf_def)
  let ?T = "(time_record R)[i := ?row, OMX_LOWDELAY_REC_NODE_NUM := ?row]"
  have "rec_wf (R\<lparr>time_record := (time_record R)[i := ?row]\<rparr>)"
    using wf row by (intro rec_wf_rows) (simp_all add: reported_row_def)
  from rec_wf_rows [OF this, of ?row OMX_LOWDELAY_REC_NODE_NUM] have T: "rec_wf (S\<lparr>time_record := ?T\<rparr>)" for S :: OMXVDEC_LOWDELAY_PROC_RECORD
    using row by (simp add: reported_row_def rec_wf_def)
  have "\<exists>S. rec_report cnt R i time = Some (S\<lparr>time_record := ?T\<rparr>)"
    using row i cnt by (auto simp: rec_report_def rec_put_def Let_def reported_row_def lowdelay_consts intro: exI)
  then obtain S where "rec_report cnt R i time = Some (S\<lparr>time_record := ?T\<rparr>)" ..
  then show thesis using T row i by (intro that) auto
qed

lemma reported_row_fields:
  assumes "length row = OMX_LOWDELAY_REC_ITEM"
  shows "rec_tagged tag (reported_row row time) \<longleftrightarrow> rec_tagged tag row"
    "reported_row row time ! OMX_LOWDELAY_REC_ETB_TIME = row ! OMX_LOWDELAY_REC_ETB_TIME"
    "reported_row row time ! OMX_LOWDELAY_REC_USERTAG = row ! OMX_LOWDELAY_REC_USERTAG"
    "reported_row row time ! OMX_LOWDELAY_REC_TOTAL_USED_TIME = time - row ! OMX_LOWDELAY_REC_ETB_TIME"
  using assms by (simp_all add: reported_row_def rec_tagged_def lowdelay_consts)

text \<open>
  Rows may change as long as the rows of the frame keep its tag and its start, and no other row
  becomes a row of the frame.
\<close>

lemma tracked_mono:
  assumes "tracked tag t0 R"
    and "\<And>j. j < OMX_LOWDELAY_REC_NODE_NUM \<Longrightarrow> rec_tagged tag (time_record R' ! j) \<longleftrightarrow> rec_tagged tag (time_record R ! j)"
    and "\<And>j. j < OMX_LOWDELAY_REC_NODE_NUM \<Longrightarrow> rec_tagged tag (time_record R ! j) \<Longrightarrow>
      time_record R' ! j ! OMX_LOWDELAY_REC_ETB_TIME = time_record R ! j ! OMX_LOWDELAY_REC_ETB_TIME"
  shows "tracked tag t0 R'"
  using assms unfolding tracked_def by metis

lemma tracked_purge: "rec_wf R \<Longrightarrow> tracked tag t0 R \<Longrightarrow> tag' < tag \<Longrightarrow> tracked tag t0 (rec_purge R tag')"
  by (erule tracked_mono)
     (auto simp: rec_purge_row rec_tagged_def OMX_LOWDELAY_REC_ITEM_def OMX_LOWDELAY_REC_NODE_STATE_def)

text \<open>The row a frame starts with.\<close>

definition started_row :: "u32 \<Rightarrow> u32 \<Rightarrow> u32 list" where
  "started_row tag time = (replicate OMX_LOWDELAY_REC_ITEM 0)[OMX_LOWDELAY_REC_USERTAG := tag,
     OMX_LOWDELAY_REC_ETB_TIME := time, OMX_LOWDELAY_REC_NODE_STATE := 1]"

lemma started_row_fields:
  "rec_tagged tag (started_row tag' time) \<longleftrightarrow> tag' = tag" "length (started_row tag' time) = OMX_LOWDELAY_REC_ITEM"
  "started_row tag' time ! OMX_LOWDELAY_REC_ETB_TIME = time"
  by (simp_all add: started_row_def rec_tagged_def lowdelay_consts)

lemma not_tagged: "row ! OMX_LOWDELAY_REC_NODE_STATE = 0 \<Longrightarrow> \<not> rec_tagged tag row"
  by (simp add: rec_tagged_def)

lemma rec_add_start:
  "rec_add cnt R tag OMX_LOWDELAY_REC_ETB_TIME time =
     (case rec_find (\<lambda>row. row ! OMX_LOWDELAY_REC_NODE_STATE = 0) R of None \<Rightarrow> Some R
      | Some i \<Rightarrow> Some (R\<lparr>time_record := (time_record R)[i := started_row tag time]\<rparr>))"
  unfolding rec_add_def started_row_def by simp

lemma rec_add_tracked:
  assumes wf: "rec_wf R" and tr: "tracked tag t0 R" and b: "between tag (tag', ty, time)" and cnt: "cnt \<noteq> 0"
  shows "\<exists>R'. rec_add cnt R tag' ty time = Some R' \<and> rec_wf R' \<and> tracked tag t0 R'"
proof -
  note len = rec_wf_length [OF wf]
  consider (etb) "ty = OMX_LOWDELAY_REC_ETB_TIME" | (stn) "ty \<in> {3, 4, 5, 6}" | (rpo) "ty = OMX_LOWDELAY_REC_VPSS_RPO_IMG_TIME"
    | (other) "ty \<notin> {2, 3, 4, 5, 6, 7}"
    by (auto simp: lowdelay_consts)
  then show ?thesis
  proof cases
    case etb
    show ?thesis
    proof (cases "rec_find (\<lambda>row. row ! OMX_LOWDELAY_REC_NODE_STATE = 0) R")
      case None
      then show ?thesis using etb wf tr by (simp add: rec_add_start)
    next
      case (Some i)
      let ?R = "R\<lparr>time_record := (time_record R)[i := started_row tag' time]\<rparr>"
      have i: "i < OMX_LOWDELAY_REC_NODE_NUM" "\<not> rec_tagged tag (time_record R ! i)"
        using iffD1 [OF rec_find_Some [OF wf] Some] not_tagged by auto
      have "length (time_record R) = Suc OMX_LOWDELAY_REC_NODE_NUM" using wf by (simp add: rec_wf_def)
      then have row: "time_record ?R ! j = (if j = i then started_row tag' time else time_record R ! j)" for j
        using i by simp
      have "\<not> rec_tagged tag (started_row tag' time)" using b etb by (simp add: between_def started_row_fields)
      with i(2) have "tracked tag t0 ?R" using tr by (elim tracked_mono) (simp_all only: row split: if_splits, auto)
      moreover have "rec_wf ?R" using wf by (intro rec_wf_rows) (simp_all add: started_row_fields)
      ultimately show ?thesis using etb Some by (simp add: rec_add_start)
    qed
  next
    case stn
    then have e: "rec_add cnt R tag' ty time =
      (case rec_find (rec_tagged tag') R of None \<Rightarrow> Some R | Some i \<Rightarrow> Some (rec_put R i ty time))"
      by (auto simp: rec_add_def lowdelay_consts)
    show ?thesis
    proof (cases "rec_find (rec_tagged tag') R")
      case None
      then show ?thesis using e wf tr by simp
    next
      case (Some i)
      then have i: "i < OMX_LOWDELAY_REC_NODE_NUM" using rec_find_Some [OF wf] by blast
      have "tracked tag t0 (rec_put R i ty time)" using tr stn
        by (elim tracked_mono)
           (auto simp: rec_put_row [OF wf i] rec_tagged_def lowdelay_consts)
      then show ?thesis using e Some rec_put_wf [OF wf i] by simp
    qed
  next
    case rpo
    then have lt: "tag' < tag" using b by (simp add: between_def)
    show ?thesis
    proof (cases "rec_find (rec_tagged tag') R")
      case None
      then show ?thesis using rpo tracked_purge [OF wf tr lt] rec_purge_wf [OF wf] by (simp add: rec_add_def lowdelay_consts)
    next
      case (Some i)
      then have i: "i < OMX_LOWDELAY_REC_NODE_NUM" using rec_find_Some [OF wf] by blast
      obtain R' where R': "rec_report cnt R i time = Some R'" "rec_wf R'"
        "\<And>j. j < OMX_LOWDELAY_REC_NODE_NUM \<Longrightarrow>
           time_record R' ! j = (if j = i then reported_row (time_record R ! i) time else time_record R ! j)"
        using rec_report_row [OF wf i cnt] by metis
      have "tracked tag t0 R'" using tr
        by (rule tracked_mono) (use i R'(3) reported_row_fields [OF len, of i] in auto)
      then show ?thesis using rpo Some R' tracked_purge [OF R'(2) _ lt] rec_purge_wf [OF R'(2)]
        by (simp add: rec_add_def lowdelay_consts)
    qed
  next
    case other
    then show ?thesis using wf tr by (simp add: rec_add_def lowdelay_consts)
  qed
qed

lemma rec_run_tracked:
  assumes "rec_wf R" "tracked tag t0 R" "list_all (between tag) evs" "cnt \<noteq> 0"
  shows "\<exists>R'. rec_run cnt R evs = Some R' \<and> rec_wf R' \<and> tracked tag t0 R'"
  using assms
proof (induction evs arbitrary: R)
  case Nil
  then show ?case by simp
next
  case (Cons e evs)
  obtain tag' ty time where e: "e = (tag', ty, time)" by (cases e)
  obtain R1 where R1: "rec_add cnt R tag' ty time = Some R1" "rec_wf R1" "tracked tag t0 R1"
    using rec_add_tracked [OF Cons.prems(1,2), of tag' ty time cnt] Cons.prems(3,4) e by auto
  then show ?case using Cons.IH [OF R1(2,3)] Cons.prems(3,4) e by simp
qed

lemma rec_finish:
  assumes "rec_wf R" "tracked tag t0 R" "cnt \<noteq> 0"
  shows "\<exists>R'. rec_add cnt R tag OMX_LOWDELAY_REC_VPSS_RPO_IMG_TIME t1 = Some R' \<and> rec_wf R' \<and>
    time_record R' ! OMX_LOWDELAY_REC_NODE_NUM ! OMX_LOWDELAY_REC_USERTAG = tag \<and>
    time_record R' ! OMX_LOWDELAY_REC_NODE_NUM ! OMX_LOWDELAY_REC_TOTAL_USED_TIME = t1 - t0 \<and>
    (\<forall>j < OMX_LOWDELAY_REC_NODE_NUM. \<not> rec_tagged tag (time_record R' ! j))"
proof -
  obtain i where i: "i < OMX_LOWDELAY_REC_NODE_NUM" "rec_tagged tag (time_record R ! i)"
    "time_record R ! i ! OMX_LOWDELAY_REC_ETB_TIME = t0" "\<forall>j < i. \<not> rec_tagged tag (time_record R ! j)"
    using assms(2) unfolding tracked_def by (metis less_imp_neq order.strict_trans)
  then have f: "rec_find (rec_tagged tag) R = Some i" using rec_find_Some [OF assms(1)] by blast
  obtain R' where R': "rec_report cnt R i t1 = Some R'" "rec_wf R'"
    "time_record R' ! OMX_LOWDELAY_REC_NODE_NUM = reported_row (time_record R ! i) t1"
    using rec_report_row [OF assms(1) i(1) assms(3)] by metis
  have "\<not> rec_tagged tag (time_record (rec_purge R' tag) ! j)" if "j < OMX_LOWDELAY_REC_NODE_NUM" for j
    using that R'(2) by (auto simp: rec_purge_row rec_tagged_def OMX_LOWDELAY_REC_ITEM_def OMX_LOWDELAY_REC_NODE_STATE_def)
  moreover have "time_record R ! i ! OMX_LOWDELAY_REC_USERTAG = tag" using i(2) by (simp add: rec_tagged_def)
  ultimately show ?thesis
    using f R' i reported_row_fields [OF rec_wf_length [OF assms(1)], of i] rec_purge_wf [OF R'(2)]
    by (auto simp: rec_add_def rec_purge_row lowdelay_consts(5,6,7,8,9,10))
qed

lemma rec_begin:
  assumes wf: "rec_wf R" and new: "\<forall>j < OMX_LOWDELAY_REC_NODE_NUM. \<not> rec_tagged tag (time_record R ! j)"
    and free: "\<exists>j < OMX_LOWDELAY_REC_NODE_NUM. time_record R ! j ! OMX_LOWDELAY_REC_NODE_STATE = 0"
  shows "\<exists>R'. rec_add cnt R tag OMX_LOWDELAY_REC_ETB_TIME t0 = Some R' \<and> rec_wf R' \<and> tracked tag t0 R'"
proof -
  have len: "length (time_record R) = Suc OMX_LOWDELAY_REC_NODE_NUM" using wf by (simp add: rec_wf_def)
  obtain k where k: "k < OMX_LOWDELAY_REC_NODE_NUM" "time_record R ! k ! OMX_LOWDELAY_REC_NODE_STATE = 0"
    using free by auto
  then have "time_record R ! k \<in> set (take OMX_LOWDELAY_REC_NODE_NUM (time_record R))"
    using len by (metis length_take less_SucI min_less_iff_conj nth_mem nth_take)
  then have "rec_find (\<lambda>row. row ! OMX_LOWDELAY_REC_NODE_STATE = 0) R \<noteq> None"
    using k(2) by (auto simp: rec_find_def find_index_None)
  then obtain i where i: "rec_find (\<lambda>row. row ! OMX_LOWDELAY_REC_NODE_STATE = 0) R = Some i" by auto
  let ?R = "R\<lparr>time_record := (time_record R)[i := started_row tag t0]\<rparr>"
  have n: "i < OMX_LOWDELAY_REC_NODE_NUM" using i rec_find_Some [OF wf] by blast
  then have row: "time_record ?R ! j = (if j = i then started_row tag t0 else time_record R ! j)" for j
    using len by simp
  have "tracked tag t0 ?R" unfolding tracked_def row
    using n new by (auto simp: started_row_fields intro!: exI [of _ i])
  moreover have "rec_wf ?R" using wf by (intro rec_wf_rows) (simp_all add: started_row_fields)
  ultimately show ?thesis using i by (simp add: rec_add_start)
qed

text \<open>
  In low-delay mode the latency shown for a frame is the time between its stream entering
  the driver and its picture leaving it, whatever other frames and stations are recorded in between,
  as long as a row is free and no later frame leaves first; its row is then free again. (The counted
  number of frames must not be zero: the statistics divide by it.)
\<close>

theorem lowdelay_latency:
  assumes "rec_wf R" "cnt \<noteq> 0"
    and "\<forall>j < OMX_LOWDELAY_REC_NODE_NUM. \<not> rec_tagged tag (time_record R ! j)"
    and "\<exists>j < OMX_LOWDELAY_REC_NODE_NUM. time_record R ! j ! OMX_LOWDELAY_REC_NODE_STATE = 0"
    and "list_all (between tag) evs"
  shows "\<exists>R'. rec_run cnt R ((tag, OMX_LOWDELAY_REC_ETB_TIME, t0) # evs @
      [(tag, OMX_LOWDELAY_REC_VPSS_RPO_IMG_TIME, t1)]) = Some R' \<and>
    time_record R' ! OMX_LOWDELAY_REC_NODE_NUM ! OMX_LOWDELAY_REC_USERTAG = tag \<and>
    time_record R' ! OMX_LOWDELAY_REC_NODE_NUM ! OMX_LOWDELAY_REC_TOTAL_USED_TIME = t1 - t0 \<and>
    (\<forall>j < OMX_LOWDELAY_REC_NODE_NUM. \<not> rec_tagged tag (time_record R' ! j))"
proof -
  have run: "rec_run cnt R (xs @ ys) = Option.bind (rec_run cnt R xs) (\<lambda>R. rec_run cnt R ys)" for R xs ys
    by (induction xs arbitrary: R) (auto split: option.splits)
  obtain R1 where R1: "rec_add cnt R tag OMX_LOWDELAY_REC_ETB_TIME t0 = Some R1" "rec_wf R1" "tracked tag t0 R1"
    using rec_begin [OF assms(1,3,4)] by blast
  obtain R2 where R2: "rec_run cnt R1 evs = Some R2" "rec_wf R2" "tracked tag t0 R2"
    using rec_run_tracked [OF R1(2,3) assms(5,2)] by blast
  show ?thesis using rec_finish [OF R2(2,3) assms(2), of t1] R1(1) R2(1) by (auto simp: run)
qed

definition example_rec :: OMXVDEC_LOWDELAY_PROC_RECORD where
  "example_rec = \<lparr>usrtag_start_time = 0, interval = 4, current_tag = 12, time_record = replicate 11 (replicate 9 0),
     time_cost_sum = 0, average_time_cost = 0, rec_index = 0\<rparr>"

theorem lowdelay_latency_witness:
  "\<exists>R'. rec_run 100 example_rec [(12, OMX_LOWDELAY_REC_ETB_TIME, 5000), (16, OMX_LOWDELAY_REC_ETB_TIME, 5010),
      (12, OMX_LOWDELAY_REC_VFMW_RCV_STRM_TIME, 5011), (12, OMX_LOWDELAY_REC_VPSS_RPO_IMG_TIME, 5033)] = Some R' \<and>
    time_record R' ! OMX_LOWDELAY_REC_NODE_NUM ! OMX_LOWDELAY_REC_TOTAL_USED_TIME = 33"
proof -
  have "rec_wf example_rec" "\<forall>j < OMX_LOWDELAY_REC_NODE_NUM. \<not> rec_tagged 12 (time_record example_rec ! j)"
    "\<exists>j < OMX_LOWDELAY_REC_NODE_NUM. time_record example_rec ! j ! OMX_LOWDELAY_REC_NODE_STATE = 0"
    by (auto simp: example_rec_def rec_wf_def rec_tagged_def lowdelay_consts intro!: exI [of _ 0])
  moreover have "list_all (between 12) [(16, OMX_LOWDELAY_REC_ETB_TIME, 5010), (12, OMX_LOWDELAY_REC_VFMW_RCV_STRM_TIME, 5011)]"
    by (simp add: between_def lowdelay_consts)
  ultimately show ?thesis
    using lowdelay_latency [of example_rec 100 12 "[(16, OMX_LOWDELAY_REC_ETB_TIME, 5010), (12, OMX_LOWDELAY_REC_VFMW_RCV_STRM_TIME, 5011)]" 5000 5033]
    by (auto simp del: rec_run.simps)
qed

text \<open>
  With the counted number of frames set to zero, as the debug interface allows, the first
  finished frame of a low-delay channel divides by zero, whatever was recorded before.
\<close>

theorem lowdelay_count_zero_undefined:
  assumes "rec_find (rec_tagged tag) R = Some i"
  shows "rec_add 0 R tag OMX_LOWDELAY_REC_VPSS_RPO_IMG_TIME time = None"
  using assms by (simp add: rec_add_def rec_report_def Let_def lowdelay_consts)

theorem lowdelay_count_zero_undefined_witness:
  "rec_add 0 (example_rec\<lparr>time_record := [[7, 1, 0, 0, 0, 0, 0, 0, 0]]\<rparr>) 7 OMX_LOWDELAY_REC_VPSS_RPO_IMG_TIME 9 = None"
  by (rule lowdelay_count_zero_undefined [where i = 0]) (simp add: rec_find_def rec_tagged_def lowdelay_consts)

section \<open>The invariant of a channel\<close>

text \<open>
  Both sides are well formed; a flush or a pause is pending only while some buffer is still in use;
  \<open>eos_in_list\<close> says whether the last frame is queued, and no other entry has its number.
\<close>

definition chan_wf :: "platform \<Rightarrow> OMXVDEC_CHAN_CTX \<Rightarrow> bool" where
  "chan_wf K c \<longleftrightarrow> port_wf 1 (in_port c) \<and> port_wf 0 (out_port c) \<and>
     (flush_pending (in_port c) \<longrightarrow> use_cnt (in_port c) \<noteq> 0) \<and>
     (flush_pending (out_port c) \<or> pause_pending c \<longrightarrow> use_cnt (out_port c) \<noteq> 0) \<and>
     (eos_in_list c \<longleftrightarrow> last_slot c \<in> set (queue (in_port c))) \<and>
     (eos_in_list c \<longrightarrow> buf_id (last_frame c) = LAST_FRAME_BUF_ID K) \<and>
     max_buf_num (in_port c) \<le> unat (LAST_FRAME_BUF_ID K)"

lemma chan_wfD:
  assumes "chan_wf K c"
  shows "port_wf 1 (in_port c)" "port_wf 0 (out_port c)"
    "flush_pending (in_port c) \<Longrightarrow> use_cnt (in_port c) \<noteq> 0"
    "flush_pending (out_port c) \<Longrightarrow> use_cnt (out_port c) \<noteq> 0" "pause_pending c \<Longrightarrow> use_cnt (out_port c) \<noteq> 0"
    "eos_in_list c \<longleftrightarrow> last_slot c \<in> set (queue (in_port c))"
    "eos_in_list c \<Longrightarrow> buf_id (last_frame c) = LAST_FRAME_BUF_ID K"
    "max_buf_num (in_port c) \<le> unat (LAST_FRAME_BUF_ID K)"
  using assms by (auto simp: chan_wf_def)

text \<open>Everything the invariant reads.\<close>

lemma chan_wf_cong:
  "in_port c' = in_port c \<Longrightarrow> out_port c' = out_port c \<Longrightarrow> pause_pending c' = pause_pending c \<Longrightarrow>
   eos_in_list c' = eos_in_list c \<Longrightarrow> chan_wf K c' \<longleftrightarrow> chan_wf K c"
  by (simp add: chan_wf_def last_slot_def last_frame_def)

lemma last_frame_only:
  assumes "chan_wf K c" "q \<in> set (queue (in_port c))"
  shows "buf_id (port_buf (in_port c) q) = LAST_FRAME_BUF_ID K \<longleftrightarrow> q = last_slot c"
proof (cases "q = last_slot c")
  case True
  then show ?thesis using assms chan_wfD(6,7) [OF assms(1)] by (simp add: last_frame_def)
next
  case False
  note wf = chan_wfD(1) [OF assms(1)]
  have "q < buf_num (in_port c)" using False assms(2) port_wfD(4) [OF wf] by (auto simp: live_def last_slot_def)
  moreover from this have "buf_id (port_buf (in_port c) q) = of_nat q" using wf by (simp add: port_wf_def table_wf_def)
  moreover have "unat (of_nat q :: u32) = q"
    using calculation(1) port_wfD(2,6) [OF wf] by (intro unat_of_nat_small) simp
  ultimately show ?thesis using False chan_wfD(8) [OF assms(1)] port_wfD(2) [OF wf] by auto
qed

lemma message_queue_simps [simp]:
  "in_port (message_queue c code st d) = in_port c" "out_port (message_queue c code st d) = out_port c"
  "pause_pending (message_queue c code st d) = pause_pending c" "eos_in_list (message_queue c code st d) = eos_in_list c"
  "state (message_queue c code st d) = state c" "msgs (message_queue c code st d) = msgs c @ [Msg code st d]"
  "omx_vdec_lowdelay_proc_rec (message_queue c code st d) = omx_vdec_lowdelay_proc_rec c"
  "chan_wf K (message_queue c code st d) = chan_wf K c" "channel_id (message_queue c code st d) = channel_id c"
  by (simp_all add: message_queue_def chan_wf_def last_slot_def last_frame_def)

text \<open>A replaced input side.\<close>

lemma chan_wf_in_port:
  assumes "chan_wf K c" "port_wf 1 p" "max_buf_num p = max_buf_num (in_port c)"
    and "flush_pending p \<longrightarrow> use_cnt p \<noteq> 0" "eos \<longleftrightarrow> last_slot c \<in> set (queue p)"
    and "eos \<Longrightarrow> buf_id (port_buf p (last_slot c)) = LAST_FRAME_BUF_ID K"
  shows "chan_wf K (c\<lparr>in_port := p, eos_in_list := eos\<rparr>)"
  using assms by (simp add: chan_wf_def last_slot_def last_frame_def)

lemma chan_wf_out_port:
  "chan_wf K c \<Longrightarrow> port_wf 0 p \<Longrightarrow> (flush_pending p \<or> pp \<longrightarrow> use_cnt p \<noteq> 0) \<Longrightarrow>
   chan_wf K (c\<lparr>out_port := p, pause_pending := pp\<rparr>)"
  by (simp add: chan_wf_def last_slot_def last_frame_def)

text \<open>The low-delay record is all a note touches in the channel.\<close>

lemma lowdelay_note_frame:
  assumes "lowdelay_note E G c w tag ty = Some (c', w')"
  obtains R where "c' = c\<lparr>omx_vdec_lowdelay_proc_rec := R\<rparr>"
proof (cases "lowdelay_on G c \<and> omx_vdec_lowdelay_proc_rec c \<noteq> None")
  case True
  then show thesis using assms that
    by (auto simp: lowdelay_note_def channel_add_lowdelay_tag_time_def split: option.splits prod.splits)
next
  case False
  then show thesis using assms that [of "omx_vdec_lowdelay_proc_rec c"] by (auto simp: lowdelay_note_def)
qed

lemma lowdelay_note_defined:
  assumes "g_lowdelay_count_frame G \<noteq> 0"
  obtains R w' where "lowdelay_note E G c w tag ty = Some (c\<lparr>omx_vdec_lowdelay_proc_rec := R\<rparr>, w')"
proof -
  have "rec_add (g_lowdelay_count_frame G) R tag ty time \<noteq> None" for R time
    using assms by (auto simp: rec_add_def rec_report_def Let_def split: option.splits)
  then have "lowdelay_note E G c w tag ty \<noteq> None"
    by (auto simp: lowdelay_note_def channel_add_lowdelay_tag_time_def split: option.splits prod.splits)
  then obtain c' w' where n: "lowdelay_note E G c w tag ty = Some (c', w')" by auto
  then show thesis using lowdelay_note_frame that by metis
qed

lemma lowdelay_note_off: "omx_vdec_lowdelay_proc_rec c = None \<Longrightarrow> lowdelay_note E G c w tag ty = Some (c, w)"
  by (simp add: lowdelay_note_def)

lemma noted_wf:
  assumes "chan_wf K c" "lowdelay_note E G c w tag ty = Some (c', w')"
  shows "chan_wf K (c'\<lparr>omx_chan_statinfo := st\<rparr>)"
proof -
  obtain R where R: "c' = c\<lparr>omx_vdec_lowdelay_proc_rec := R\<rparr>" using lowdelay_note_frame [OF assms(2)] .
  show ?thesis using assms(1) by (rule iffD1 [OF chan_wf_cong, rotated -1]) (simp_all add: R)
qed

end
