(* ===== verification/Omx_Decoder.thy ===== *)
theory Omx_Decoder
  imports Omx_State
begin

unbundle bit_operations_syntax

text \<open>
  The decoder side of a channel, \<open>decoder_vfmw.c\<close>: the stream interface the video
  firmware calls back (\<open>decoder_get_stream\<close>, \<open>decoder_release_stream\<close>), its event
  handler, and the operations the channel calls. The firmware itself is the
  environment.
\<close>

section \<open>The stream interface\<close>

record STREAM_DATA_S =
  PhyAddr :: u32
  VirAddr :: u32
  Length :: u32
  Pts :: s64
  Flags :: u32
  BufLen :: u32
  CfgWidth :: u32
  CfgHeight :: u32
  UserTag :: u32
  IsSeekPending :: bool
  is_not_last_packet_flag :: bool
  is_stream_end_flag :: bool

definition stream_of :: "platform \<Rightarrow> OMXVDEC_CHAN_CTX \<Rightarrow> OMXVDEC_BUF_S \<Rightarrow> STREAM_DATA_S" where
  "stream_of K c b = \<lparr>PhyAddr = phy_addr b + offset b, VirAddr = kern_vaddr b + offset b,
     Length = act_len b, Pts = time_stamp b, Flags = flags b, BufLen = buf_len b,
     CfgWidth = out_width c, CfgHeight = out_height c, UserTag = usr_tag b,
     IsSeekPending = seek_pending c,
     is_not_last_packet_flag = (flags b AND VDEC_BUFFERFLAG_ENDOFFRAME = 0),
     is_stream_end_flag = (buf_id b = LAST_FRAME_BUF_ID K)\<rparr>"

text \<open>
  In low-delay mode a sixteen byte end code is appended to the data of a complete H.264
  frame, if the buffer has room for it. (The bytes of the buffers are not modelled.)
\<close>

definition stream_end_code :: "globals \<Rightarrow> OMXVDEC_CHAN_CTX \<Rightarrow> STREAM_DATA_S \<Rightarrow> STREAM_DATA_S" where
  "stream_end_code G c sd =
     (if lowdelay_on G c \<and> \<not> is_not_last_packet_flag sd \<and> protocol c = STD_H264
         \<and> \<not> Length sd + 16 > BufLen sd
      then sd\<lparr>Length := Length sd + 16\<rparr> else sd)"

definition get_stream ::
  "env \<Rightarrow> globals \<Rightarrow> platform \<Rightarrow> OMXVDEC_CHAN_CTX \<Rightarrow> world \<Rightarrow>
   (STREAM_DATA_S option \<times> OMXVDEC_CHAN_CTX \<times> world) option" where
  "get_stream E G K c w =
     (if state c \<noteq> CHAN_STATE_WORK then Some (None, c, w)
      else if queue (in_port c) = [] then Some (None, c, w)
      else if flush_pending (in_port c) then Some (None, c, w)
      else case port_take (in_port c) 0 of None \<Rightarrow> Some (None, c, w)
        | Some (q, p) \<Rightarrow>
            let sd = stream_of K c (port_buf (in_port c) q);
                c1 = c\<lparr>in_port := p, seek_pending := False\<rparr> in
            (case lowdelay_note E G c1 w (UserTag sd) OMX_LOWDELAY_REC_VFMW_RCV_STRM_TIME of None \<Rightarrow> None
             | Some (c2, w2) \<Rightarrow>
                 let st = omx_chan_statinfo c2;
                     c3 = c2\<lparr>omx_chan_statinfo := st\<lparr>DecoderIn := DecoderIn st + 1\<rparr>\<rparr> in
                 Some (Some (stream_end_code G c3 sd), c3, w2)))"

text \<open>\<open>None\<close> in the first component of the result is \<open>HI_FAILURE\<close>.\<close>

definition decoder_get_stream ::
  "env \<Rightarrow> platform \<Rightarrow> driver \<Rightarrow> u32 \<Rightarrow> (STREAM_DATA_S option \<times> driver) option" where
  "decoder_get_stream E K d chan_id =
     (case channel_find_inst_by_channel_id d chan_id of None \<Rightarrow> Some (None, d)
      | Some i \<Rightarrow> map_option (\<lambda>(r, c, w). (r, put_chan d i c w))
                    (get_stream E (globs d) K (chan_list d ! i) (wld d)))"

text \<open>
  The descriptor in the message that gives a stream buffer back. \<open>junk\<close> is the
  uninitialised stack memory the source fills it in.
\<close>

definition returned_stream :: "OMXVDEC_BUF_DESC \<Rightarrow> OMXVDEC_BUF_S \<Rightarrow> OMXVDEC_BUF_DESC" where
  "returned_stream junk b =
     junk\<lparr>dir := PORT_DIR_INPUT, bufferaddr := user_vaddr b, buffer_len := buf_len b,
          d_client_data := client_data b, data_len := 0, timestamp := 0, phyaddr := phy_addr b\<rparr>"

definition stream_flush_done :: "OMXVDEC_CHAN_CTX \<Rightarrow> OMXVDEC_CHAN_CTX" where
  "stream_flush_done c =
     (if flush_pending (in_port c) \<and> use_cnt (in_port c) = 0
      then (message_queue c VDEC_MSG_RESP_FLUSH_INPUT_DONE VDEC_S_SUCCESS NO_DATA)
             \<lparr>in_port := (in_port c)\<lparr>flush_pending := False\<rparr>\<rparr>
      else c)"

definition give_back_stream :: "platform \<Rightarrow> OMXVDEC_BUF_DESC \<Rightarrow> OMXVDEC_CHAN_CTX \<Rightarrow> nat \<Rightarrow> OMXVDEC_CHAN_CTX" where
  "give_back_stream K junk c q =
     (let b = port_buf (in_port c) q;
          last = (buf_id b = LAST_FRAME_BUF_ID K);
          b' = (if last then b\<lparr>status := BUF_STATE_IDLE\<rparr>
                else b\<lparr>status := BUF_STATE_IDLE, act_len := 0\<rparr>);
          c1 = (if last then c\<lparr>eos_in_list := False\<rparr>
                else message_queue c VDEC_MSG_RESP_INPUT_DONE VDEC_S_SUCCESS (BUF_DATA (returned_stream junk b))) in
      stream_flush_done (c1\<lparr>in_port := port_uncount (list_del (port_put (in_port c) q b') q)\<rparr>))"

definition release_stream ::
  "env \<Rightarrow> globals \<Rightarrow> platform \<Rightarrow> OMXVDEC_BUF_DESC \<Rightarrow> STREAM_DATA_S \<Rightarrow> OMXVDEC_CHAN_CTX \<Rightarrow> world \<Rightarrow>
   (hi_ret \<times> OMXVDEC_CHAN_CTX \<times> world) option" where
  "release_stream E G K junk sd c w =
     (if queue (in_port c) = [] then Some (HI_SUCCESS, c, w)
      else case port_at (in_port c) (PhyAddr sd) of None \<Rightarrow> Some (HI_FAILURE, c, w)
        | Some q \<Rightarrow> map_option (Pair HI_SUCCESS)
            (lowdelay_note E G (give_back_stream K junk c q) w (UserTag sd) OMX_LOWDELAY_REC_VFMW_RLS_STRM_TIME))"

definition decoder_release_stream ::
  "env \<Rightarrow> platform \<Rightarrow> OMXVDEC_BUF_DESC \<Rightarrow> driver \<Rightarrow> u32 \<Rightarrow> STREAM_DATA_S option \<Rightarrow> (hi_ret \<times> driver) option" where
  "decoder_release_stream E K junk d chan_id stream_data =
     (case stream_data of None \<Rightarrow> Some (HI_FAILURE, d)
      | Some sd \<Rightarrow>
         (case channel_find_inst_by_channel_id d chan_id of None \<Rightarrow> Some (HI_FAILURE, d)
          | Some i \<Rightarrow> map_option (\<lambda>(r, c, w). (r, put_chan d i c w))
                        (release_stream E (globs d) K junk sd (chan_list d ! i) (wld d))))"

section \<open>Events of the firmware\<close>

datatype VDEC_EVNT = EVNT_NEW_IMAGE "u32 option" | EVNT_NEED_ARRANGE u32 u32
  | EVNT_LAST_FRAME "u32 option" | EVNT_OTHER

definition processor_inform_img_ready :: "env \<Rightarrow> OMXVDEC_CHAN_CTX \<Rightarrow> world \<Rightarrow> hi_ret \<times> world" where
  "processor_inform_img_ready E c w = ext E (VPSS_SEND_COMMAND (processor_id c) VPSS_COMMAND_IMAGEREADY []) w"

definition new_image_event ::
  "env \<Rightarrow> globals \<Rightarrow> u32 \<Rightarrow> OMXVDEC_CHAN_CTX \<Rightarrow> world \<Rightarrow> (hi_ret \<times> OMXVDEC_CHAN_CTX \<times> world) option" where
  "new_image_event E G tag c w =
     (case lowdelay_note E G c w tag OMX_LOWDELAY_REC_VFMW_RPO_IMG_TIME of None \<Rightarrow> None
      | Some (c1, w1) \<Rightarrow>
          let st = omx_chan_statinfo c1;
              c2 = c1\<lparr>omx_chan_statinfo := st\<lparr>DecoderOut := DecoderOut st + 1\<rparr>\<rparr>;
              (r, w2) = processor_inform_img_ready E c2 w1 in
          Some (r, c2, w2))"

definition last_frame_event :: "u32 \<Rightarrow> OMXVDEC_CHAN_CTX \<Rightarrow> OMXVDEC_CHAN_CTX" where
  "last_frame_event arg c =
     (let c1 = c\<lparr>last_frame_info_0 := DECODER_REPORT_LAST_FRAME, last_frame_info_1 := ucast arg\<rparr> in
      if arg = REPORT_LAST_FRAME_SUCCESS then c1
      else if arg = REPORT_LAST_FRAME_FAIL then c1
      else c1\<lparr>last_frame_info_1 := ucast REPORT_LAST_FRAME_WITH_ID, last_frame_image_id := ucast arg\<rparr>)"

definition decoder_event_handler ::
  "env \<Rightarrow> driver \<Rightarrow> u32 \<Rightarrow> VDEC_EVNT \<Rightarrow> (hi_ret \<times> driver) option" where
  "decoder_event_handler E d chan_id ev =
     (case channel_find_inst_by_decoder_id d chan_id of None \<Rightarrow> Some (HI_FAILURE, d)
      | Some i \<Rightarrow> let c = chan_list d ! i in
         (case ev of
            EVNT_NEW_IMAGE None \<Rightarrow> Some (HI_SUCCESS, d)
          | EVNT_NEW_IMAGE (Some tag) \<Rightarrow>
              map_option (\<lambda>(r, c', w'). (r, put_chan d i c' w')) (new_image_event E (globs d) tag c (wld d))
          | EVNT_NEED_ARRANGE num sz \<Rightarrow>
              (let (t, w1) = OMX_GetTimeInMs E (wld d) in
               Some (HI_SUCCESS, (put_chan d i (c\<lparr>dfs_alloc_flag := DFS_WAIT_ALLOC, dfs_delay_time := t,
                 ref_frame_num := num, ref_frame_size := sz\<rparr>) w1)\<lparr>task_state := TASK_STATE_ONCALL\<rparr>))
          | EVNT_LAST_FRAME None \<Rightarrow> Some (HI_FAILURE, d)
          | EVNT_LAST_FRAME (Some arg) \<Rightarrow> Some (HI_SUCCESS, put_chan d i (last_frame_event arg c) (wld d))
          | EVNT_OTHER \<Rightarrow> Some (HI_SUCCESS, d)))"

section \<open>Creating a decoder\<close>

text \<open>
  Of the configuration only the fields the driver reads or writes. \<open>IsAdvProfile\<close> and
  \<open>bReversed\<close> are members of one union and share the word \<open>StdExt\<close>.
\<close>

record VDEC_CHAN_CFG_S =
  eVidStd :: VID_STD
  StdExt :: u32
  s32DecMode :: u32
  s32DecOrderOutput :: u32
  s32LowdlyEnable :: u32
  s32ModuleLowlyEnable :: u32
  s32ChanLowlyEnable :: u32
  s32MaxRawPacketNum :: u32
  cfg_s32MaxWidth :: u32
  cfg_s32MaxHeight :: u32

record OMXVDEC_DRV_CFG =
  cfg_width :: u32
  cfg_height :: u32
  cfg_stride :: u32
  cfg_inbuf_num :: u32
  cfg_outbuf_num :: u32
  cfg_color_format :: OMX_PIX_FORMAT_E
  cfg_m_use_native_buf :: bool
  chan_cfg :: VDEC_CHAN_CFG_S

record VDEC_CHAN_OPTION_S =
  eAdapterType :: u32
  Purpose :: u32
  MemAllocMode :: u32
  s32MaxWidth :: u32
  s32MaxHeight :: u32
  s32MaxSliceNum :: u32
  s32MaxSpsNum :: u32
  s32MaxPpsNum :: u32
  s32MaxRefFrameNum :: u32
  s32SupportBFrame :: u32
  s32SupportH264 :: u32
  s32ReRangeEn :: u32
  s32SCDBufSize :: u32
  s32DisplayFrameNum :: u32
  ChanMemVdh :: MMZ_BUFFER_S
  ChanMemScd :: MMZ_BUFFER_S
  u32DynamicFrameStoreAllocEn :: u32
  s32DelayTime :: u32
  s32ExtraFrameStoreNum :: u32
  u32SelfAdaptionDFS :: u32
  u32CfgFrameNum :: u32
  u32NeedMMZ :: u32
  u32MaxMemUse :: u32
  s32IsSecMode :: u32

definition zero_option :: VDEC_CHAN_OPTION_S where
  "zero_option = \<lparr>eAdapterType = 0, Purpose = 0, MemAllocMode = 0, s32MaxWidth = 0, s32MaxHeight = 0,
     s32MaxSliceNum = 0, s32MaxSpsNum = 0, s32MaxPpsNum = 0, s32MaxRefFrameNum = 0, s32SupportBFrame = 0,
     s32SupportH264 = 0, s32ReRangeEn = 0, s32SCDBufSize = 0, s32DisplayFrameNum = 0,
     ChanMemVdh = zero_mmz, ChanMemScd = zero_mmz, u32DynamicFrameStoreAllocEn = 0, s32DelayTime = 0,
     s32ExtraFrameStoreNum = 0, u32SelfAdaptionDFS = 0, u32CfgFrameNum = 0, u32NeedMMZ = 0,
     u32MaxMemUse = 0, s32IsSecMode = 0\<rparr>"

text \<open>The words of the option block that the firmware reads.\<close>

definition option_words :: "u32 \<Rightarrow> VDEC_CHAN_OPTION_S \<Rightarrow> u32 list" where
  "option_words cap p = [cap, eAdapterType p, Purpose p, MemAllocMode p, s32MaxWidth p, s32MaxHeight p,
     s32MaxSliceNum p, s32MaxSpsNum p, s32MaxPpsNum p, s32MaxRefFrameNum p, s32SupportBFrame p,
     s32SupportH264 p, s32ReRangeEn p, s32SCDBufSize p, s32DisplayFrameNum p,
     u32Size (ChanMemVdh p), u32StartPhyAddr (ChanMemVdh p), u32Size (ChanMemScd p), u32StartPhyAddr (ChanMemScd p),
     u32DynamicFrameStoreAllocEn p, s32ExtraFrameStoreNum p, u32SelfAdaptionDFS p, u32CfgFrameNum p,
     u32NeedMMZ p, u32MaxMemUse p, s32IsSecMode p]"

definition cfg_words :: "VDEC_CHAN_CFG_S \<Rightarrow> u32 list" where
  "cfg_words p = [StdExt p, s32DecMode p, s32DecOrderOutput p, s32LowdlyEnable p, s32ModuleLowlyEnable p,
     s32ChanLowlyEnable p, s32MaxRawPacketNum p, cfg_s32MaxWidth p, cfg_s32MaxHeight p]"

definition CAP_LEVEL_MPEG_720 :: u32 where "CAP_LEVEL_MPEG_720 = 3"
definition CAP_LEVEL_MPEG_FHD :: u32 where "CAP_LEVEL_MPEG_FHD = 4"
definition CAP_LEVEL_H264_720 :: u32 where "CAP_LEVEL_H264_720 = 8"
definition CAP_LEVEL_H264_FHD :: u32 where "CAP_LEVEL_H264_FHD = 9"
definition CAP_LEVEL_4096x2160 :: u32 where "CAP_LEVEL_4096x2160 = 18"
definition CAP_LEVEL_MVC_FHD :: u32 where "CAP_LEVEL_MVC_FHD = 26"
definition CAP_LEVEL_HEVC_720 :: u32 where "CAP_LEVEL_HEVC_720 = 30"
definition CAP_LEVEL_HEVC_FHD :: u32 where "CAP_LEVEL_HEVC_FHD = 31"
definition CAP_LEVEL_HEVC_UHD :: u32 where "CAP_LEVEL_HEVC_UHD = 32"

lemmas cap_levels = CAP_LEVEL_MPEG_720_def CAP_LEVEL_MPEG_FHD_def CAP_LEVEL_H264_720_def CAP_LEVEL_H264_FHD_def
  CAP_LEVEL_4096x2160_def CAP_LEVEL_MVC_FHD_def CAP_LEVEL_HEVC_720_def CAP_LEVEL_HEVC_FHD_def CAP_LEVEL_HEVC_UHD_def

datatype eCFG_CAP = CFG_CAP_SD | CFG_CAP_HD | CFG_CAP_UHD

definition config_cap :: "OMXVDEC_CHAN_CTX \<Rightarrow> eCFG_CAP" where
  "config_cap c =
     (if out_width c * out_height c > 1920 * 1088 then CFG_CAP_UHD
      else if out_width c * out_height c > 1280 * 768 then CFG_CAP_HD else CFG_CAP_SD)"

definition cap_option :: "globals \<Rightarrow> OMXVDEC_CHAN_CTX \<Rightarrow> VDEC_CHAN_OPTION_S \<Rightarrow> VDEC_CHAN_OPTION_S" where
  "cap_option G c p =
     (case config_cap c of
        CFG_CAP_UHD \<Rightarrow> p\<lparr>s32MaxWidth := max 4096 (out_width c), s32MaxHeight := max 2304 (out_height c),
                         s32SCDBufSize := 4 * g_SegSize G * 1024 * 1024, s32MaxRefFrameNum := 4\<rparr>
      | CFG_CAP_HD \<Rightarrow> p\<lparr>s32MaxWidth := max 1920 (out_width c), s32MaxHeight := max 1088 (out_height c),
                         s32SCDBufSize := g_SegSize G * 1024 * 1024, s32MaxRefFrameNum := 10\<rparr>
      | CFG_CAP_SD \<Rightarrow> p\<lparr>s32MaxWidth := max 1280 (out_width c), s32MaxHeight := max 768 (out_height c),
                         s32SCDBufSize := g_SegSize G * 1024 * 1024, s32MaxRefFrameNum := 12\<rparr>)"

definition std_option :: "VID_STD \<Rightarrow> eCFG_CAP \<Rightarrow> VDEC_CHAN_OPTION_S \<Rightarrow> u32 \<times> VDEC_CHAN_OPTION_S" where
  "std_option vstd cap p =
     (let h264 = p\<lparr>s32SupportH264 := 1, s32MaxSliceNum := 136, s32MaxSpsNum := 32, s32MaxPpsNum := 256\<rparr> in
      if vstd = STD_HEVC then
        (case cap of CFG_CAP_SD \<Rightarrow> CAP_LEVEL_HEVC_720 | CFG_CAP_HD \<Rightarrow> CAP_LEVEL_HEVC_FHD
         | CFG_CAP_UHD \<Rightarrow> CAP_LEVEL_HEVC_UHD, h264)
      else if vstd = STD_H264 \<or> vstd = STD_MVC then
        (if vstd = STD_MVC then CAP_LEVEL_MVC_FHD
         else case cap of CFG_CAP_SD \<Rightarrow> CAP_LEVEL_H264_720 | CFG_CAP_HD \<Rightarrow> CAP_LEVEL_H264_FHD
              | CFG_CAP_UHD \<Rightarrow> CAP_LEVEL_4096x2160, h264)
      else
        (case cap of CFG_CAP_SD \<Rightarrow> CAP_LEVEL_MPEG_720 | CFG_CAP_HD \<Rightarrow> CAP_LEVEL_MPEG_FHD
         | CFG_CAP_UHD \<Rightarrow> CAP_LEVEL_4096x2160,
         p\<lparr>s32MaxRefFrameNum := (if vstd = STD_VP8 then 3 else 2)\<rparr>))"

definition soft_std :: "VID_STD \<Rightarrow> bool" where
  "soft_std vstd \<longleftrightarrow> vstd = STD_H263 \<or> vstd = STD_SORENSON"

definition dfs_option :: "globals \<Rightarrow> VID_STD \<Rightarrow> VDEC_CHAN_OPTION_S \<Rightarrow> VDEC_CHAN_OPTION_S" where
  "dfs_option G vstd p =
     (if g_DynamicFsEnable G \<and> \<not> soft_std vstd
      then p\<lparr>u32DynamicFrameStoreAllocEn := 1, s32ExtraFrameStoreNum := g_DispNum G, u32SelfAdaptionDFS := 1,
             u32CfgFrameNum := 0, s32DelayTime := 0, u32NeedMMZ := 1, u32MaxMemUse := - 1\<rparr>
      else p)"

definition decoder_init_option ::
  "globals \<Rightarrow> OMXVDEC_CHAN_CTX \<Rightarrow> VDEC_CHAN_CFG_S \<Rightarrow> VDEC_CHAN_OPTION_S \<Rightarrow>
   OMXVDEC_CHAN_CTX \<times> u32 \<times> VDEC_CHAN_OPTION_S" where
  "decoder_init_option G c0 cfg p0 =
     (let vstd = eVidStd cfg;
          c = c0\<lparr>protocol := (if vstd = STD_VC1 \<and> StdExt cfg = 0 then STD_WMV else vstd),
                 bReversed := (if vstd = STD_VP6 \<or> vstd = STD_VP6F \<or> vstd = STD_VP6A then StdExt cfg else 0)\<rparr>;
          p1 = p0\<lparr>eAdapterType := 1, Purpose := 1, MemAllocMode := 3, s32SupportBFrame := 1, s32ReRangeEn := 1,
                  s32DisplayFrameNum := g_DispNum G\<rparr>;
          (cap, p2) = std_option vstd (config_cap c) (cap_option G c p1)
      in (c, cap, dfs_option G vstd p2))"

text \<open>
  The \<open>goto\<close> labels of \<open>decoder_create_inst\<close>: from \<open>error3\<close> on everything is undone,
  \<open>error0\<close> undoes nothing. An allocation that fails leaves the buffer description
  unchanged.
\<close>

datatype 'a attempt = Goto nat OMXVDEC_CHAN_CTX world | Done 'a

definition decoder_alloc_vdh ::
  "env \<Rightarrow> u32 \<Rightarrow> VDEC_CHAN_OPTION_S \<Rightarrow> OMXVDEC_CHAN_CTX \<Rightarrow> world \<Rightarrow>
   (VDEC_CHAN_OPTION_S \<times> OMXVDEC_CHAN_CTX \<times> world) attempt" where
  "decoder_alloc_vdh E sz opt c w =
     (if u32DynamicFrameStoreAllocEn opt = 1 \<and> \<not> soft_std (protocol c)
      then Done (opt\<lparr>ChanMemVdh := zero_mmz\<rparr>, c, w)
      else if \<not> soft_std (protocol c) then
        (case ext_out E (MMZ_ALLOC_MAP sz) w of (r, ws, w1) \<Rightarrow>
         if r \<noteq> HI_SUCCESS then Goto 0 (c\<lparr>eVDHMemAlloc := ALLOC_BY_MMZ\<rparr>) w1
         else Done (opt\<lparr>ChanMemVdh := mmz_of ws\<rparr>,
                    c\<lparr>eVDHMemAlloc := ALLOC_BY_MMZ, decoder_vdh_buf := mmz_of ws\<rparr>, w1))
      else
        (case ext_out E (MMZ_ALLOC sz) w of (r, ws, w1) \<Rightarrow>
         if r \<noteq> HI_SUCCESS then Goto 0 c w1
         else let c1 = c\<lparr>eVDHMemAlloc := ALLOC_BY_MMZ, decoder_vdh_buf := mmz_of ws\<rparr> in
           (case ext_out E (MMZ_MAP_CACHE (u32StartPhyAddr (mmz_of ws))) w1 of (r2, ws2, w2) \<Rightarrow>
            if r2 \<noteq> HI_SUCCESS then Goto 1 c1 w2
            else let b = (decoder_vdh_buf c1)\<lparr>u32StartVirAddr := word_at ws2 0\<rparr> in
                 Done (opt\<lparr>ChanMemVdh := b\<rparr>, c1\<lparr>decoder_vdh_buf := b\<rparr>, w2))))"

definition decoder_alloc_scd ::
  "env \<Rightarrow> u32 \<Rightarrow> VDEC_CHAN_OPTION_S \<Rightarrow> OMXVDEC_CHAN_CTX \<Rightarrow> world \<Rightarrow>
   (VDEC_CHAN_OPTION_S \<times> OMXVDEC_CHAN_CTX \<times> world) attempt" where
  "decoder_alloc_scd E sz opt c w =
     (if sint sz \<le> 0 then Done (opt, c, w)
      else if \<not> soft_std (protocol c) then
        (case ext_out E (MMZ_ALLOC_MAP sz) w of (r, ws, w1) \<Rightarrow>
         if r \<noteq> HI_SUCCESS then Goto 1 c w1
         else Done (opt\<lparr>ChanMemScd := mmz_of ws\<rparr>,
                    c\<lparr>eSCDMemAlloc := ALLOC_BY_MMZ, decoder_scd_buf := mmz_of ws\<rparr>, w1))
      else
        (case ext_out E (MMZ_ALLOC sz) w of (r, ws, w1) \<Rightarrow>
         if r \<noteq> HI_SUCCESS then Goto 1 c w1
         else let c1 = c\<lparr>eSCDMemAlloc := ALLOC_BY_MMZ, decoder_scd_buf := mmz_of ws\<rparr> in
           (case ext_out E (MMZ_MAP_CACHE (u32StartPhyAddr (mmz_of ws))) w1 of (r2, ws2, w2) \<Rightarrow>
            if r2 \<noteq> HI_SUCCESS then Goto 2 c1 w2
            else let b = (decoder_scd_buf c1)\<lparr>u32StartVirAddr := word_at ws2 0\<rparr> in
                 Done (opt\<lparr>ChanMemScd := b\<rparr>, c1\<lparr>decoder_scd_buf := b\<rparr>, w2))))"

definition decoder_chan_cfg :: "globals \<Rightarrow> OMXVDEC_CHAN_CTX \<Rightarrow> VDEC_CHAN_CFG_S \<Rightarrow> VDEC_CHAN_CFG_S" where
  "decoder_chan_cfg G c cfg0 =
     (let cfg1 = (if \<not> g_RawMoveEnable G then cfg0\<lparr>s32MaxRawPacketNum := - 1\<rparr> else cfg0);
          cfg2 = (if lowdelay_true G c
                  then cfg1\<lparr>s32DecMode := 1, s32DecOrderOutput := 1, s32LowdlyEnable := 0,
                            s32ModuleLowlyEnable := 1, s32ChanLowlyEnable := 1\<rparr>
                  else cfg1)
      in cfg2\<lparr>cfg_s32MaxWidth := 4096, cfg_s32MaxHeight := 2304\<rparr>)"

text \<open>Configuration of the created decoder and the exchange of the interfaces.\<close>

definition decoder_connect ::
  "env \<Rightarrow> VDEC_CHAN_CFG_S \<Rightarrow> OMXVDEC_CHAN_CTX \<Rightarrow> world \<Rightarrow> (OMXVDEC_CHAN_CTX \<times> world) attempt" where
  "decoder_connect E cfg c w =
     (case ext E (VFMW_CONTROL (decoder_id c) VDEC_CID_CFG_CHAN (cfg_words cfg)) w of (r1, w1) \<Rightarrow>
      if r1 \<noteq> HI_SUCCESS then Goto 3 c w1 else
      case ext E (VFMW_CONTROL (decoder_id c) VDEC_CID_SET_STREAM_INTF [channel_id c]) w1 of (r2, w2) \<Rightarrow>
      if r2 \<noteq> HI_SUCCESS then Goto 3 c w2 else
      case ext E (VFMW_CONTROL (decoder_id c) VDEC_CID_GET_IMAGE_INTF [channel_id c]) w2 of (r3, w3) \<Rightarrow>
      if r3 \<noteq> HI_SUCCESS then Goto 3 c w3 else Done (c, w3))"

definition HI_ID_VDEC_HANDLE :: "u32 \<Rightarrow> OMXVDEC_CHAN_CTX \<Rightarrow> u32" where
  "HI_ID_VDEC_HANDLE id_vdec c = push_bit 16 id_vdec OR channel_id c"

definition decoder_create_cleanup :: "env \<Rightarrow> nat \<Rightarrow> OMXVDEC_CHAN_CTX \<Rightarrow> world \<Rightarrow> OMXVDEC_CHAN_CTX \<times> world" where
  "decoder_create_cleanup E label c w =
     (let w1 = (if 3 \<le> label then ext_do E (VFMW_CONTROL (decoder_id c) VDEC_CID_DESTROY_CHAN []) w else w);
          (scd, w2) = (if 2 \<le> label then omxvdec_release_mem E (decoder_scd_buf c) (eSCDMemAlloc c) w1
                       else (decoder_scd_buf c, w1));
          (vdh, w3) = (if 1 \<le> label then omxvdec_release_mem E (decoder_vdh_buf c) (eVDHMemAlloc c) w2
                       else (decoder_vdh_buf c, w2))
      in (c\<lparr>decoder_scd_buf := scd, decoder_vdh_buf := vdh\<rparr>, w3))"

definition decoder_try_create ::
  "env \<Rightarrow> globals \<Rightarrow> VDEC_CHAN_CFG_S \<Rightarrow> OMXVDEC_CHAN_CTX \<Rightarrow> world \<Rightarrow> (OMXVDEC_CHAN_CTX \<times> world) attempt" where
  "decoder_try_create E G cfg c0 w0 =
     (case decoder_init_option G c0 cfg zero_option of (c, cap, opt) \<Rightarrow>
      case ext_out E (VFMW_CONTROL (- 1) VDEC_CID_GET_CHAN_DETAIL_MEMSIZE_WITH_OPTION (option_words cap opt)) w0 of
        (r, ms, w1) \<Rightarrow>
      if r \<noteq> HI_SUCCESS then Goto 0 c w1 else
      let vdh_size = (if soft_std (protocol c)
                      then (if cap < CAP_LEVEL_MPEG_FHD then 22 * 1024 * 1024 else 45 * 1024 * 1024)
                      else word_at ms 0) in
      case decoder_alloc_vdh E vdh_size (opt\<lparr>s32IsSecMode := 0\<rparr>) c w1 of Goto l c' w' \<Rightarrow> Goto l c' w'
      | Done (opt1, c1, w2) \<Rightarrow>
        (case decoder_alloc_scd E (word_at ms 1) opt1 c1 w2 of Goto l c' w' \<Rightarrow> Goto l c' w'
         | Done (opt2, c2, w3) \<Rightarrow>
           (case ext_out E (VFMW_CONTROL (- 1) VDEC_CID_CREATE_CHAN_WITH_OPTION (option_words cap opt2)) w3 of
              (r4, ids, w4) \<Rightarrow>
            if r4 \<noteq> HI_SUCCESS then Goto 2 c2 w4
            else let c3 = c2\<lparr>decoder_id := word_at ids 0\<rparr> in
                 decoder_connect E (decoder_chan_cfg G c3 cfg) c3 w4)))"

text \<open>
  \<open>id_vdec\<close> is the module number \<open>HI_ID_VDEC\<close>, whose header is outside the repository. A
  failure of the low-delay statistics returns without undoing anything.
\<close>

definition decoder_create_inst ::
  "env \<Rightarrow> globals \<Rightarrow> u32 \<Rightarrow> VDEC_CHAN_CFG_S \<Rightarrow> OMXVDEC_CHAN_CTX \<Rightarrow> world \<Rightarrow> hi_ret \<times> OMXVDEC_CHAN_CTX \<times> world" where
  "decoder_create_inst E G id_vdec cfg c0 w0 =
     (case decoder_try_create E G cfg c0 w0 of
        Goto label c w \<Rightarrow> (HI_FAILURE, decoder_create_cleanup E label c w)
      | Done (c, w) \<Rightarrow>
          if g_LowDelayStatistics G then
            (let h = HI_ID_VDEC_HANDLE id_vdec c;
                 (r, w1) = ext E (VFMW_CONTROL (decoder_id c) VDEC_CID_START_LOWDLAY_CALC [h]) w in
             if r \<noteq> HI_SUCCESS then (HI_FAILURE, c, w1)
             else (HI_SUCCESS, c, ext_do E (LD_START h) w1))
          else (HI_SUCCESS, c, w))"

section \<open>The other operations\<close>

definition decoder_control :: "env \<Rightarrow> VDEC_CID \<Rightarrow> u32 list \<Rightarrow> OMXVDEC_CHAN_CTX \<Rightarrow> world \<Rightarrow> hi_ret \<times> world" where
  "decoder_control E cid args c w = ext E (VFMW_CONTROL (decoder_id c) cid args) w"

definition decoder_release_inst :: "env \<Rightarrow> OMXVDEC_CHAN_CTX \<Rightarrow> world \<Rightarrow> hi_ret \<times> OMXVDEC_CHAN_CTX \<times> world" where
  "decoder_release_inst E c w =
     (let (r, w1) = decoder_control E VDEC_CID_DESTROY_CHAN [] c w;
          (scd, w2) = (if u32Size (decoder_scd_buf c) \<noteq> 0 \<and> u32StartPhyAddr (decoder_scd_buf c) \<noteq> 0
                       then omxvdec_release_mem E (decoder_scd_buf c) (eSCDMemAlloc c) w1
                       else (decoder_scd_buf c, w1));
          (vdh, w3) = (if u32Size (decoder_vdh_buf c) \<noteq> 0 \<and> u32StartPhyAddr (decoder_vdh_buf c) \<noteq> 0
                       then omxvdec_release_mem E (decoder_vdh_buf c) (eVDHMemAlloc c) w2
                       else (decoder_vdh_buf c, w2))
      in (r, c\<lparr>decoder_scd_buf := scd, decoder_vdh_buf := vdh\<rparr>, w3))"

definition decoder_start_inst :: "env \<Rightarrow> OMXVDEC_CHAN_CTX \<Rightarrow> world \<Rightarrow> hi_ret \<times> world" where
  "decoder_start_inst E c w = decoder_control E VDEC_CID_START_CHAN [] c w"

definition decoder_stop_inst :: "env \<Rightarrow> OMXVDEC_CHAN_CTX \<Rightarrow> world \<Rightarrow> hi_ret \<times> world" where
  "decoder_stop_inst E c w = decoder_control E VDEC_CID_STOP_CHAN [] c w"

definition decoder_reset_inst :: "env \<Rightarrow> OMXVDEC_CHAN_CTX \<Rightarrow> world \<Rightarrow> hi_ret \<times> world" where
  "decoder_reset_inst E c w = decoder_control E VDEC_CID_RESET_CHAN [] c w"

definition decoder_reset_inst_with_option :: "env \<Rightarrow> OMXVDEC_CHAN_CTX \<Rightarrow> world \<Rightarrow> hi_ret \<times> world" where
  "decoder_reset_inst_with_option E c w = decoder_control E VDEC_CID_RESET_CHAN_WITH_OPTION [0, 1] c w"

definition decoder_clear_stream :: "env \<Rightarrow> OMXVDEC_CHAN_CTX \<Rightarrow> world \<Rightarrow> hi_ret \<times> world" where
  "decoder_clear_stream E c w = decoder_control E VDEC_CID_RELEASE_STREAM [] c w"

definition decoder_alloc_mem :: "env \<Rightarrow> u32 list \<Rightarrow> OMXVDEC_CHAN_CTX \<Rightarrow> world \<Rightarrow> hi_ret \<times> world" where
  "decoder_alloc_mem E args c w = decoder_control E VDEC_CID_ALLOC_MEM_TO_CHANNEL args c w"

datatype DECODER_CMD_E = DEC_CMD_CLEAR_STREAM | DEC_CMD_ALLOC_MEM | DEC_CMD_OTHER

fun decoder_command_handler :: "env \<Rightarrow> DECODER_CMD_E \<Rightarrow> u32 list \<Rightarrow> OMXVDEC_CHAN_CTX \<Rightarrow> world \<Rightarrow> hi_ret \<times> world" where
  "decoder_command_handler E DEC_CMD_CLEAR_STREAM args c w = decoder_clear_stream E c w"
| "decoder_command_handler E DEC_CMD_ALLOC_MEM args c w = decoder_alloc_mem E args c w"
| "decoder_command_handler E DEC_CMD_OTHER args c w = (HI_FAILURE, w)"

text \<open>
  \<open>decoder_init\<close>: the second test of the source, that the function table is not null, is
  the first output word of the call.
\<close>

definition decoder_init :: "env \<Rightarrow> world \<Rightarrow> hi_ret \<times> world" where
  "decoder_init E w =
     (case ext_out E GET_VFMW_FUNC w of (r, ws, w1) \<Rightarrow>
      if r \<noteq> HI_SUCCESS \<or> word_at ws 0 = 0 then (HI_FAILURE, w1) else
      case ext E VFMW_INIT w1 of (r2, w2) \<Rightarrow> (if r2 \<noteq> HI_SUCCESS then HI_FAILURE else HI_SUCCESS, w2))"

definition decoder_exit :: "env \<Rightarrow> world \<Rightarrow> hi_ret \<times> world" where
  "decoder_exit E w = ext E VFMW_EXIT w"

section \<open>The stream interface keeps the invariant\<close>

text \<open>What a request for a stream does when it is served.\<close>

lemma get_stream_SomeD:
  assumes "get_stream E G K c w = Some (Some sd, c', w')"
  obtains q p R st where "port_take (in_port c) 0 = Some (q, p)" "state c = CHAN_STATE_WORK" "\<not> flush_pending (in_port c)"
    "c' = c\<lparr>in_port := p, seek_pending := False, omx_vdec_lowdelay_proc_rec := R, omx_chan_statinfo := st\<rparr>"
    "PhyAddr sd = phy_addr (port_buf (in_port c) q) + offset (port_buf (in_port c) q)"
    "Pts sd = time_stamp (port_buf (in_port c) q)" "Flags sd = flags (port_buf (in_port c) q)"
proof -
  obtain q p where t: "port_take (in_port c) 0 = Some (q, p)" "state c = CHAN_STATE_WORK" "\<not> flush_pending (in_port c)"
    using assms by (auto simp: get_stream_def split: if_splits option.splits prod.splits)
  let ?sd = "stream_of K c (port_buf (in_port c) q)"
  let ?c1 = "c\<lparr>in_port := p, seek_pending := False\<rparr>"
  have "queue (in_port c) \<noteq> []" using port_take_SomeD(1) [OF t(1)] by auto
  then obtain c2 where n: "lowdelay_note E G ?c1 w (UserTag ?sd) OMX_LOWDELAY_REC_VFMW_RCV_STRM_TIME = Some (c2, w')"
    and c': "c' = c2\<lparr>omx_chan_statinfo := (omx_chan_statinfo c2)\<lparr>DecoderIn := DecoderIn (omx_chan_statinfo c2) + 1\<rparr>\<rparr>"
    and sd: "sd = stream_end_code G c' ?sd"
    using assms t by (auto simp: get_stream_def Let_def split: option.splits prod.splits)
  obtain R where "c2 = ?c1\<lparr>omx_vdec_lowdelay_proc_rec := R\<rparr>" using lowdelay_note_frame [OF n] .
  then show thesis using t c' sd by (intro that) (auto simp: stream_end_code_def stream_of_def)
qed

lemma get_stream_None: "get_stream E G K c w = Some (None, c', w') \<Longrightarrow> c' = c \<and> w' = w"
  by (auto simp: get_stream_def Let_def split: if_splits option.splits prod.splits)

lemma taken_in_port_wf:
  assumes wf: "chan_wf K c" and t: "port_take (in_port c) 0 = Some (q, p)" and f: "\<not> flush_pending (in_port c)"
  shows "chan_wf K (c\<lparr>in_port := p\<rparr>)"
proof -
  note d = port_take_SomeD [OF t]
  note w = chan_wfD [OF wf]
  have "chan_wf K (c\<lparr>in_port := p, eos_in_list := eos_in_list c\<rparr>)"
  proof (intro chan_wf_in_port [OF wf port_take_wf [OF w(1) t]])
    show "max_buf_num p = max_buf_num (in_port c)" "flush_pending p \<longrightarrow> use_cnt p \<noteq> 0"
      "eos_in_list c \<longleftrightarrow> last_slot c \<in> set (queue p)"
      using f w(6) by (simp_all add: d(4))
    show "buf_id (port_buf p (last_slot c)) = LAST_FRAME_BUF_ID K" if "eos_in_list c"
      using w(7) [OF that] by (simp add: d(4) port_put_field last_frame_def)
  qed
  then show ?thesis by simp
qed

lemma get_stream_wf:
  assumes "chan_wf K c" "get_stream E G K c w = Some (r, c', w')"
  shows "chan_wf K c'"
proof (cases r)
  case None
  then show ?thesis using assms(1) get_stream_None assms(2) by blast
next
  case (Some sd)
  obtain q p R st where g: "port_take (in_port c) 0 = Some (q, p)" "\<not> flush_pending (in_port c)"
    "c' = c\<lparr>in_port := p, seek_pending := False, omx_vdec_lowdelay_proc_rec := R, omx_chan_statinfo := st\<rparr>"
    using get_stream_SomeD [OF assms(2) [unfolded Some]] by metis
  have "chan_wf K c' \<longleftrightarrow> chan_wf K (c\<lparr>in_port := p\<rparr>)" by (rule chan_wf_cong) (simp_all add: g(3))
  then show ?thesis using taken_in_port_wf [OF assms(1) g(1,2)] by simp
qed

lemma stream_flush_done_simps [simp]:
  "out_port (stream_flush_done c) = out_port c" "pause_pending (stream_flush_done c) = pause_pending c"
  "eos_in_list (stream_flush_done c) = eos_in_list c" "state (stream_flush_done c) = state c"
  "bufs (in_port (stream_flush_done c)) = bufs (in_port c)" "queue (in_port (stream_flush_done c)) = queue (in_port c)"
  "use_cnt (in_port (stream_flush_done c)) = use_cnt (in_port c)"
  "max_buf_num (in_port (stream_flush_done c)) = max_buf_num (in_port c)"
  "port_buf (in_port (stream_flush_done c)) = port_buf (in_port c)"
  "port_wf extra (in_port (stream_flush_done c)) = port_wf extra (in_port c)"
  "flush_pending (in_port (stream_flush_done c)) \<longleftrightarrow> flush_pending (in_port c) \<and> use_cnt (in_port c) \<noteq> 0"
  by (auto simp: stream_flush_done_def)

text \<open>The entry that a returned stream buffer becomes.\<close>

definition idle_stream :: "platform \<Rightarrow> OMXVDEC_BUF_S \<Rightarrow> OMXVDEC_BUF_S" where
  "idle_stream K b = (if buf_id b = LAST_FRAME_BUF_ID K then b\<lparr>status := BUF_STATE_IDLE\<rparr>
     else b\<lparr>status := BUF_STATE_IDLE, act_len := 0\<rparr>)"

lemma idle_stream_simps [simp]:
  "phy_addr (idle_stream K b) = phy_addr b" "buf_id (idle_stream K b) = buf_id b"
  "status (idle_stream K b) = BUF_STATE_IDLE"
  by (simp_all add: idle_stream_def)

definition returned_port :: "platform \<Rightarrow> OMXVDEC_CHAN_CTX \<Rightarrow> nat \<Rightarrow> port" where
  "returned_port K c q = port_uncount (list_del (port_put (in_port c) q (idle_stream K (port_buf (in_port c) q))) q)"

lemma give_back_stream_fields:
  fixes c K junk q
  defines "c' \<equiv> give_back_stream K junk c q"
  shows "out_port c' = out_port c" "pause_pending c' = pause_pending c" "state c' = state c"
    "eos_in_list c' \<longleftrightarrow> eos_in_list c \<and> buf_id (port_buf (in_port c) q) \<noteq> LAST_FRAME_BUF_ID K"
    "in_port c' = (returned_port K c q)\<lparr>flush_pending :=
       (flush_pending (in_port c) \<and> use_cnt (returned_port K c q) \<noteq> 0)\<rparr>"
  by (auto simp: c'_def give_back_stream_def returned_port_def idle_stream_def Let_def stream_flush_done_def)

lemma give_back_stream_wf:
  assumes wf: "chan_wf K c" and q: "q \<in> set (queue (in_port c))" "in_use (in_port c) q"
  shows "chan_wf K (give_back_stream K junk c q)" (is "chan_wf K ?c")
proof -
  note w = chan_wfD [OF wf]
  let ?p = "returned_port K c q"
  have pw: "port_wf 1 ?p" unfolding returned_port_def using port_return_wf [OF w(1) q] by simp
  note sp = port_return_spec [OF w(1) q, of "idle_stream K (port_buf (in_port c) q)", folded returned_port_def]
  have eos: "eos_in_list ?c \<longleftrightarrow> last_slot c \<in> set (queue ?p)"
    using last_frame_only [OF wf q(1)] w(6) sp(4) by (auto simp: give_back_stream_fields)
  have id: "buf_id (port_buf ?p (last_slot c)) = LAST_FRAME_BUF_ID K" if "eos_in_list ?c"
  proof -
    have "last_slot c \<noteq> q" using that eos sp(4) by auto
    then show ?thesis using that w(7) sp(7) by (simp add: give_back_stream_fields last_frame_def)
  qed
  have "chan_wf K (c\<lparr>in_port := in_port ?c, eos_in_list := eos_in_list ?c\<rparr>)"
    using pw sp(6) eos id by (intro chan_wf_in_port [OF wf]) (simp_all add: give_back_stream_fields(5))
  then show ?thesis by (rule iffD1 [OF chan_wf_cong, rotated -1]) (simp_all add: give_back_stream_fields)
qed

text \<open>The firmware may only give back a stream it holds.\<close>

definition stream_held :: "OMXVDEC_CHAN_CTX \<Rightarrow> u32 \<Rightarrow> bool" where
  "stream_held c a \<longleftrightarrow> (case port_at (in_port c) a of None \<Rightarrow> True | Some q \<Rightarrow> in_use (in_port c) q)"

lemma release_stream_cases:
  assumes "release_stream E G K junk sd c w = Some (r, c', w')"
  obtains (refused) "port_at (in_port c) (PhyAddr sd) = None" "c' = c" "w' = w"
  | (given) q R where "port_at (in_port c) (PhyAddr sd) = Some q" "r = HI_SUCCESS"
      "c' = (give_back_stream K junk c q)\<lparr>omx_vdec_lowdelay_proc_rec := R\<rparr>"
proof (cases "port_at (in_port c) (PhyAddr sd)")
  case None
  then show thesis using assms refused by (auto simp: release_stream_def split: if_splits)
next
  case (Some q)
  have "queue (in_port c) \<noteq> []" using port_at_SomeD(1) [OF Some] by auto
  then obtain z where "lowdelay_note E G (give_back_stream K junk c q) w (UserTag sd)
      OMX_LOWDELAY_REC_VFMW_RLS_STRM_TIME = Some z" "Some (r, c', w') = Some (HI_SUCCESS, z)"
    using assms Some by (auto simp: release_stream_def)
  then have n: "lowdelay_note E G (give_back_stream K junk c q) w (UserTag sd)
      OMX_LOWDELAY_REC_VFMW_RLS_STRM_TIME = Some (c', w')" "r = HI_SUCCESS" by simp_all
  from lowdelay_note_frame [OF n(1)] show thesis using given [OF Some n(2)] .
qed

lemma release_stream_wf:
  assumes "chan_wf K c" "stream_held c (PhyAddr sd)" "release_stream E G K junk sd c w = Some (r, c', w')"
  shows "chan_wf K c'"
  using assms(3)
proof (cases rule: release_stream_cases)
  case refused
  then show ?thesis using assms(1) by simp
next
  case (given q R)
  then have "chan_wf K (give_back_stream K junk c q)"
    using assms(1,2) port_at_SomeD(1) [OF given(1)] by (intro give_back_stream_wf) (auto simp: stream_held_def)
  then show ?thesis by (rule iffD1 [OF chan_wf_cong, rotated -1]) (simp_all add: given(3))
qed

lemma new_image_event_wf:
  assumes "chan_wf K c" "new_image_event E G tag c w = Some (r, c', w')"
  shows "chan_wf K c'"
proof -
  obtain c1 w1 where n: "lowdelay_note E G c w tag OMX_LOWDELAY_REC_VFMW_RPO_IMG_TIME = Some (c1, w1)"
    and c': "c' = c1\<lparr>omx_chan_statinfo := (omx_chan_statinfo c1)\<lparr>DecoderOut := DecoderOut (omx_chan_statinfo c1) + 1\<rparr>\<rparr>"
    using assms(2) by (auto simp: new_image_event_def Let_def split: option.splits prod.splits)
  show ?thesis using noted_wf [OF assms(1) n] c' by simp
qed

lemma last_frame_event_wf: "chan_wf K c \<Longrightarrow> chan_wf K (last_frame_event arg c)"
  by (erule iffD1 [OF chan_wf_cong, rotated -1]) (simp_all add: last_frame_event_def Let_def)

end
