(* ===== verification/Omx_Processor.thy ===== *)
theory Omx_Processor
  imports Omx_Decoder
begin

text \<open>
  The picture side of a channel, \<open>processor_vpss.c\<close>: the frame buffers the video
  post-processor (VPSS) takes, gives back and reports, the images it pulls from the
  decoder, and the operations the channel calls. The post-processor itself is the
  environment.
\<close>

section \<open>Frame buffers\<close>

text \<open>
  Macros and constants of headers outside the repository, among them the kernel's \<open>__va\<close>
  and the size of \<open>OMXVDEC_BUF_S\<close> on the target.
\<close>

record vpss_platform =
  PORTHANDLE_TO_VPSSID :: "u32 \<Rightarrow> u32"
  HI_SYS_GET_STRIDE :: "u32 \<Rightarrow> u32"
  VPSS_INVALID_HANDLE :: u32
  HI_ID_VDEC :: u32
  kernel_va :: "u32 \<Rightarrow> u32"
  sizeof_buf :: u32

definition HI_OMX_GET_STRIDE :: "u32 \<Rightarrow> u32" where
  "HI_OMX_GET_STRIDE w = (w + (16 - 1)) AND NOT (16 - 1)"

definition DEFAULT_FRAME_SIZE :: "u32 \<Rightarrow> u32 \<Rightarrow> u32" where
  "DEFAULT_FRAME_SIZE w h = (w * h * 3) div 2"

record EXTERNAL_FRAME_STORE_S =
  fs_PhyAddr :: u32
  fs_VirAddr :: u32
  fs_Length :: u32
  fs_PrivatePhyAddr :: u32
  fs_PrivateLength :: u32

definition processor_get_frame ::
  "OMXVDEC_CHAN_CTX \<Rightarrow> u32 \<Rightarrow> EXTERNAL_FRAME_STORE_S option \<times> OMXVDEC_CHAN_CTX" where
  "processor_get_frame c expect_length =
     (if state c \<noteq> CHAN_STATE_WORK then (None, c)
      else if flush_pending (out_port c) then (None, c)
      else if queue (out_port c) = [] then (None, c)
      else case port_take (out_port c) expect_length of None \<Rightarrow> (None, c)
        | Some (q, p) \<Rightarrow> let b = port_buf (out_port c) q in
            (Some \<lparr>fs_PhyAddr = phy_addr b + offset b, fs_VirAddr = kern_vaddr b + offset b,
                   fs_Length = buf_len b, fs_PrivatePhyAddr = private_phy_addr b,
                   fs_PrivateLength = private_len b\<rparr>, c\<lparr>out_port := p\<rparr>))"

text \<open>The pending flush and pause are answered once no picture is in use any more.\<close>

definition answer_flush :: "OMXVDEC_CHAN_CTX \<Rightarrow> OMXVDEC_CHAN_CTX" where
  "answer_flush c =
     (if flush_pending (out_port c)
      then (message_queue c VDEC_MSG_RESP_FLUSH_OUTPUT_DONE VDEC_S_SUCCESS NO_DATA)
             \<lparr>out_port := (out_port c)\<lparr>flush_pending := False\<rparr>\<rparr>
      else c)"

definition answer_pause :: "OMXVDEC_CHAN_CTX \<Rightarrow> OMXVDEC_CHAN_CTX" where
  "answer_pause c =
     (if pause_pending c
      then (message_queue c VDEC_MSG_RESP_PAUSE_DONE VDEC_S_SUCCESS NO_DATA)\<lparr>pause_pending := False\<rparr>
      else c)"

definition frames_done :: "OMXVDEC_CHAN_CTX \<Rightarrow> OMXVDEC_CHAN_CTX" where
  "frames_done c = (if use_cnt (out_port c) = 0 then answer_pause (answer_flush c) else c)"

definition returned_frame :: "OMXVDEC_BUF_S \<Rightarrow> OMXVDEC_BUF_DESC" where
  "returned_frame b = zero_desc\<lparr>dir := PORT_DIR_OUTPUT, bufferaddr := user_vaddr b,
     buffer_len := buf_len b, d_client_data := client_data b, data_len := 0, timestamp := 0\<rparr>"

definition processor_release_frame :: "OMXVDEC_CHAN_CTX \<Rightarrow> u32 \<Rightarrow> hi_ret \<times> OMXVDEC_CHAN_CTX" where
  "processor_release_frame c a =
     (if a = 0 then (HI_FAILURE, c)
      else if queue (out_port c) = [] then (HI_SUCCESS, c)
      else case port_at (out_port c) a of None \<Rightarrow> (HI_FAILURE, c)
        | Some q \<Rightarrow>
            let b = port_buf (out_port c) q;
                c1 = c\<lparr>out_port := port_uncount (port_idle (out_port c) q)\<rparr> in
            if flush_pending (out_port c1) \<or> pause_pending c1
            then (HI_SUCCESS, frames_done (message_queue (c1\<lparr>out_port := list_del (out_port c1) q\<rparr>)
                    VDEC_MSG_RESP_OUTPUT_DONE VDEC_S_SUCCESS (BUF_DATA (returned_frame b))))
            else (HI_SUCCESS, c1\<lparr>out_port := port_put (out_port c1) q
                    ((port_buf (out_port c1) q)\<lparr>status := BUF_STATE_QUEUED\<rparr>)\<rparr>))"

section \<open>Reported pictures\<close>

record HI_DRV_VID_FRAME_ADDR_S =
  u32PhyAddr_Y :: u32
  u32Stride_Y :: u32
  u32PhyAddr_C :: u32
  u32Stride_C :: u32

datatype HI_DRV_FRAME_TYPE_E = HI_DRV_FT_NOT_STEREO | HI_DRV_FT_SBS | HI_DRV_FT_TAB | HI_DRV_FT_FPK
  | HI_DRV_FT_OTHER

datatype HI_DRV_PIX_FORMAT_E = HI_DRV_PIX_FMT_NV12 | HI_DRV_PIX_FMT_NV21 | HI_DRV_PIX_FMT_YUV420M
  | HI_DRV_PIX_FMT_NV21_TILE | HI_DRV_PIX_FMT_NV21_TILE_CMP

datatype HI_DRV_FIELD_MODE_E = HI_DRV_FIELD_TOP | HI_DRV_FIELD_BOTTOM | HI_DRV_FIELD_ALL | HI_DRV_FIELD_BUTT

text \<open>
  The picture description, with the members of its private part the driver computes
  (source, colour space and graphic mode are set to constants and left out).
  \<open>u32LastFlag\<close> is the test against \<open>DEF_HI_DRV_VPSS_LAST_FRAME_FLAG\<close>.
\<close>

record HI_DRV_VIDEO_FRAME_S =
  stBufAddr_0 :: HI_DRV_VID_FRAME_ADDR_S
  stBufAddr_1 :: HI_DRV_VID_FRAME_ADDR_S
  u32Width :: u32
  u32Height :: u32
  u32AspectWidth :: u32
  u32AspectHeight :: u32
  f_u32FrameRate :: u32
  f_u32FrameIndex :: u32
  f_hTunnelSrc :: u32
  u32TunnelPhyAddr :: u32
  u32ErrorLevel :: u32
  u32Circumrotate :: u32
  s64OmxPts :: s64
  bTopFieldFirst :: bool
  bProgressive :: bool
  ePixFormat :: HI_DRV_PIX_FORMAT_E
  enFieldMode :: HI_DRV_FIELD_MODE_E
  eFrmType :: HI_DRV_FRAME_TYPE_E
  u32LastFlag :: bool
  u32BufferID :: u32
  priv_image_id :: u32
  priv_image_id_1 :: u32
  priv_BTLImageID :: u32
  priv_Is1D :: u32
  priv_Usertag :: u32
  priv_InterPtsDelta :: u32
  priv_Interlace :: bool
  priv_Width :: u32
  priv_Height :: u32
  priv_FrmRate :: u32
  priv_en3dType :: HI_DRV_FRAME_TYPE_E

definition zero_addr :: HI_DRV_VID_FRAME_ADDR_S where
  "zero_addr = \<lparr>u32PhyAddr_Y = 0, u32Stride_Y = 0, u32PhyAddr_C = 0, u32Stride_C = 0\<rparr>"

definition zero_video_frame :: HI_DRV_VIDEO_FRAME_S where
  "zero_video_frame = \<lparr>stBufAddr_0 = zero_addr, stBufAddr_1 = zero_addr, u32Width = 0, u32Height = 0,
     u32AspectWidth = 0, u32AspectHeight = 0, f_u32FrameRate = 0, f_u32FrameIndex = 0, f_hTunnelSrc = 0,
     u32TunnelPhyAddr = 0, u32ErrorLevel = 0, u32Circumrotate = 0, s64OmxPts = 0, bTopFieldFirst = False,
     bProgressive = False, ePixFormat = HI_DRV_PIX_FMT_NV12, enFieldMode = HI_DRV_FIELD_TOP,
     eFrmType = HI_DRV_FT_NOT_STEREO, u32LastFlag = False, u32BufferID = 0, priv_image_id = 0,
     priv_image_id_1 = 0, priv_BTLImageID = 0, priv_Is1D = 0, priv_Usertag = 0, priv_InterPtsDelta = 0,
     priv_Interlace = False, priv_Width = 0, priv_Height = 0, priv_FrmRate = 0, priv_en3dType = HI_DRV_FT_NOT_STEREO\<rparr>"

definition reported_desc :: "globals \<Rightarrow> OMXVDEC_CHAN_CTX \<Rightarrow> OMXVDEC_BUF_S \<Rightarrow> HI_DRV_VIDEO_FRAME_S \<Rightarrow> OMXVDEC_BUF_DESC" where
  "reported_desc G c b f =
     (let a = stBufAddr_0 f; flushing = flush_pending (out_port c) in
      zero_desc\<lparr>dir := PORT_DIR_OUTPUT, bufferaddr := user_vaddr b, buffer_len := buf_len b,
        d_client_data := client_data b, phyaddr := u32PhyAddr_Y a,
        d_flags := (if last_frame_info_0 c = PROCESSOR_GOT_LAST_FRAME \<and> u32LastFlag f
                    then VDEC_BUFFERFLAG_ENDOFFRAME OR VDEC_BUFFERFLAG_EOS else VDEC_BUFFERFLAG_ENDOFFRAME),
        out_frame := \<lparr>phyaddr_Y = u32PhyAddr_Y a, phyaddr_C = u32PhyAddr_C a, stride = u32Stride_Y a,
                      width = u32Width f, height = u32Height f, save_yuv = g_SaveYuvEnable G\<rparr>,
        u32FrameIndex := f_u32FrameIndex f, hTunnelSrc := f_hTunnelSrc f, d_u32FrameRate := f_u32FrameRate f,
        data_len := (if flushing then 0 else (u32Stride_Y a * u32Height f * 3) div 2),
        timestamp := (if flushing then 0 else s64OmxPts f)\<rparr>)"

definition processor_report_frame ::
  "globals \<Rightarrow> OMXVDEC_CHAN_CTX \<Rightarrow> HI_DRV_VIDEO_FRAME_S \<Rightarrow> hi_ret \<times> OMXVDEC_CHAN_CTX" where
  "processor_report_frame G c f =
     (let a = u32PhyAddr_Y (stBufAddr_0 f) in
      if a = 0 then (HI_FAILURE, c)
      else if queue (out_port c) = [] then (HI_FAILURE, c)
      else case port_at (out_port c) a of None \<Rightarrow> (HI_FAILURE, c)
        | Some q \<Rightarrow>
            let b = port_buf (out_port c) q;
                desc = reported_desc G c b f;
                got_last = (last_frame_info_0 c = PROCESSOR_GOT_LAST_FRAME \<and> u32LastFlag f);
                c1 = c\<lparr>out_port := list_del (port_put (out_port c) q
                         (b\<lparr>status := BUF_STATE_IDLE, act_len := data_len desc\<rparr>)) q\<rparr>;
                c2 = (if got_last then c1\<lparr>last_frame_info_0 := LAST_FRAME_FLAG_NULL,
                                          eof_send_flag := \<not> eof_send_flag c1\<rparr> else c1);
                c3 = message_queue c2 VDEC_MSG_RESP_OUTPUT_DONE VDEC_S_SUCCESS (BUF_DATA desc)
            in (HI_SUCCESS, frames_done (c3\<lparr>out_port := port_uncount (out_port c3)\<rparr>)))"

section \<open>Requests of the post-processor\<close>

record HI_DRV_VPSS_FRMBUF_S =
  hPort :: u32
  u32FrmW :: u32
  u32FrmH :: u32
  u32Stride :: u32
  frm_StartPhyAddr :: u32
  frm_StartVirAddr :: u32
  u32PrivDataPhyAddr :: u32
  u32PrivDataSize :: u32

definition port_matches :: "vpss_platform \<Rightarrow> OMXVDEC_CHAN_CTX \<Rightarrow> u32 \<Rightarrow> bool" where
  "port_matches V c port \<longleftrightarrow> PORTHANDLE_TO_VPSSID V port = processor_id c \<and> port = port_id c"

definition image_size_change :: "vpss_platform \<Rightarrow> OMXVDEC_CHAN_CTX \<Rightarrow> u32 \<Rightarrow> u32 \<Rightarrow> OMXVDEC_CHAN_CTX" where
  "image_size_change V c fw fh =
     (let st = (if m_use_native_buf c then HI_SYS_GET_STRIDE V fw else HI_OMX_GET_STRIDE fw) in
      message_queue (c\<lparr>out_width := fw, out_height := fh, out_stride := st, recfg_flag := True\<rparr>)
        VDEC_EVT_REPORT_IMG_SIZE_CHG VDEC_S_SUCCESS (IMG_SIZE fw fh st))"

definition processor_get_frame_buffer ::
  "vpss_platform \<Rightarrow> OMXVDEC_CHAN_CTX \<Rightarrow> HI_DRV_VPSS_FRMBUF_S \<Rightarrow>
   hi_ret \<times> HI_DRV_VPSS_FRMBUF_S \<times> OMXVDEC_CHAN_CTX" where
  "processor_get_frame_buffer V c f =
     (if \<not> port_matches V c (hPort f) then (HI_FAILURE, f, c)
      else if u32FrmW f \<noteq> out_width c \<or> u32FrmH f \<noteq> out_height c
      then (HI_FAILURE, f, image_size_change V c (u32FrmW f) (u32FrmH f))
      else if out_stride c < out_width c then (HI_FAILURE, f, c)
      else
        (let f1 = f\<lparr>u32Stride := out_stride c\<rparr> in
         case processor_get_frame c (DEFAULT_FRAME_SIZE (u32Stride f1) (u32FrmH f1)) of
           (None, c1) \<Rightarrow> (HI_FAILURE, f1, c1)
         | (Some s, c1) \<Rightarrow>
             (HI_SUCCESS,
              if fs_PhyAddr s \<noteq> 0 \<and> fs_VirAddr s \<noteq> 0
              then f1\<lparr>frm_StartPhyAddr := fs_PhyAddr s, frm_StartVirAddr := fs_VirAddr s,
                      u32PrivDataPhyAddr := fs_PrivatePhyAddr s, u32PrivDataSize := fs_PrivateLength s\<rparr>
              else f1, c1)))"

text \<open>
  The source reads the argument of a release both as a frame buffer (its address) and as a
  reported frame (its last-frame flag); the two readings are separate arguments here.
\<close>

definition processor_release_frame_buffer ::
  "vpss_platform \<Rightarrow> OMXVDEC_CHAN_CTX \<Rightarrow> u32 \<Rightarrow> bool \<Rightarrow> u32 \<Rightarrow> hi_ret \<times> OMXVDEC_CHAN_CTX" where
  "processor_release_frame_buffer V c port last_flag a =
     (if \<not> port_matches V c port then (HI_FAILURE, c)
      else processor_release_frame
             (if last_frame_info_0 c = PROCESSOR_GOT_LAST_FRAME \<and> last_flag
              then c\<lparr>last_frame_info_0 := LAST_FRAME_FLAG_NULL\<rparr> else c) a)"

definition processor_report_new_frame ::
  "env \<Rightarrow> globals \<Rightarrow> vpss_platform \<Rightarrow> OMXVDEC_CHAN_CTX \<Rightarrow> world \<Rightarrow> u32 \<Rightarrow> HI_DRV_VIDEO_FRAME_S \<Rightarrow>
   (hi_ret \<times> OMXVDEC_CHAN_CTX \<times> world) option" where
  "processor_report_new_frame E G V c w port f =
     (if \<not> port_matches V c port then Some (HI_FAILURE, c, w)
      else case processor_report_frame G c f of (r, c1) \<Rightarrow>
        if r \<noteq> HI_SUCCESS then Some (HI_FAILURE, c1, w) else
        case (if eFrmType f \<noteq> HI_DRV_FT_NOT_STEREO
              then processor_report_frame G c1 (f\<lparr>stBufAddr_0 := stBufAddr_1 f\<rparr>)
              else (HI_SUCCESS, c1)) of (r2, c2) \<Rightarrow>
        if r2 \<noteq> HI_SUCCESS then Some (HI_FAILURE, c2, w) else
        (case lowdelay_note E G c2 w (priv_Usertag f) OMX_LOWDELAY_REC_VPSS_RPO_IMG_TIME of None \<Rightarrow> None
         | Some (c3, w3) \<Rightarrow>
             let st = omx_chan_statinfo c3 in
             Some (HI_SUCCESS, c3\<lparr>omx_chan_statinfo := st\<lparr>ProcessorOut := ProcessorOut st + 1\<rparr>\<rparr>, w3)))"

definition channel_check_avaible_frame_buffer :: "OMXVDEC_CHAN_CTX \<Rightarrow> hi_ret" where
  "channel_check_avaible_frame_buffer c =
     (if \<exists>q \<in> set (queue (out_port c)). status (port_buf (out_port c) q) = BUF_STATE_QUEUED
      then HI_SUCCESS else HI_FAILURE)"

text \<open>
  The last frame is reported by hand when the decoder has none left: up to 501 attempts to
  get a frame buffer, five milliseconds apart. \<open>others i\<close> is what the rest of the system
  does to the channel during the sleep after attempt \<open>i\<close>.
\<close>

definition last_video_frame :: "EXTERNAL_FRAME_STORE_S \<Rightarrow> HI_DRV_VIDEO_FRAME_S" where
  "last_video_frame s =
     zero_video_frame\<lparr>u32LastFlag := True, stBufAddr_0 := zero_addr\<lparr>u32PhyAddr_Y := fs_PhyAddr s\<rparr>\<rparr>"

fun report_last_loop ::
  "env \<Rightarrow> globals \<Rightarrow> (nat \<Rightarrow> OMXVDEC_CHAN_CTX \<Rightarrow> OMXVDEC_CHAN_CTX) \<Rightarrow> nat \<Rightarrow> OMXVDEC_CHAN_CTX \<Rightarrow> world \<Rightarrow>
   hi_ret \<times> OMXVDEC_CHAN_CTX \<times> world" where
  "report_last_loop E G others 0 c w = (HI_FAILURE, c, w)"
| "report_last_loop E G others (Suc n) c w =
     (case processor_get_frame c 0 of
        (Some s, c1) \<Rightarrow> (HI_SUCCESS, snd (processor_report_frame G c1 (last_video_frame s)), w)
      | (None, c1) \<Rightarrow> report_last_loop E G others n (others n c1) (ext_do E MSLEEP w))"

definition processor_report_last_frame ::
  "env \<Rightarrow> globals \<Rightarrow> (nat \<Rightarrow> OMXVDEC_CHAN_CTX \<Rightarrow> OMXVDEC_CHAN_CTX) \<Rightarrow> OMXVDEC_CHAN_CTX \<Rightarrow> world \<Rightarrow>
   hi_ret \<times> OMXVDEC_CHAN_CTX \<times> world" where
  "processor_report_last_frame E G others c w = report_last_loop E G others 501 c w"

datatype VPSS_EVENT =
    VPSS_EVENT_CHECK_FRAMEBUFFER
  | VPSS_EVENT_BUFLIST_FULL
  | VPSS_EVENT_GET_FRMBUFFER HI_DRV_VPSS_FRMBUF_S
  | VPSS_EVENT_REL_FRMBUFFER u32 bool u32
  | VPSS_EVENT_NEW_FRAME u32 HI_DRV_VIDEO_FRAME_S
  | VPSS_EVENT_OTHER

text \<open>What the handler writes into the argument of the event.\<close>

datatype event_out = NO_OUT | AVAILABLE bool | FRMBUF HI_DRV_VPSS_FRMBUF_S

definition processor_event ::
  "env \<Rightarrow> globals \<Rightarrow> vpss_platform \<Rightarrow> OMXVDEC_CHAN_CTX \<Rightarrow> world \<Rightarrow> VPSS_EVENT \<Rightarrow>
   (hi_ret \<times> event_out \<times> OMXVDEC_CHAN_CTX \<times> world) option" where
  "processor_event E G V c w ev =
     (case ev of
        VPSS_EVENT_CHECK_FRAMEBUFFER \<Rightarrow>
          Some (HI_SUCCESS, AVAILABLE (channel_check_avaible_frame_buffer c = HI_SUCCESS), c, w)
      | VPSS_EVENT_BUFLIST_FULL \<Rightarrow> Some (HI_SUCCESS, NO_OUT, c, w)
      | VPSS_EVENT_GET_FRMBUFFER f \<Rightarrow>
          (let (r, f', c') = processor_get_frame_buffer V c f in Some (r, FRMBUF f', c', w))
      | VPSS_EVENT_REL_FRMBUFFER port flag a \<Rightarrow>
          (let (r, c') = processor_release_frame_buffer V c port flag a in Some (r, NO_OUT, c', w))
      | VPSS_EVENT_NEW_FRAME port f \<Rightarrow>
          map_option (\<lambda>(r, c', w'). (r, NO_OUT, c', w')) (processor_report_new_frame E G V c w port f)
      | VPSS_EVENT_OTHER \<Rightarrow> Some (HI_FAILURE, NO_OUT, c, w))"

text \<open>The outer \<open>None\<close> of the event is a null argument.\<close>

definition processor_event_handler ::
  "env \<Rightarrow> vpss_platform \<Rightarrow> driver \<Rightarrow> u32 \<Rightarrow> VPSS_EVENT option \<Rightarrow> (hi_ret \<times> event_out \<times> driver) option" where
  "processor_event_handler E V d chan_id args =
     (case args of None \<Rightarrow> Some (HI_FAILURE, NO_OUT, d)
      | Some ev \<Rightarrow>
         (case channel_find_inst_by_channel_id d chan_id of None \<Rightarrow> Some (HI_FAILURE, NO_OUT, d)
          | Some i \<Rightarrow> map_option (\<lambda>(r, out, c, w). (r, out, put_chan d i c w))
              (processor_event E (globs d) V (chan_list d ! i) (wld d) ev)))"

section \<open>Images\<close>

text \<open>
  The decoded image, with the members the driver reads: \<open>core\<close> are those of the time-stamp
  recovery.
\<close>

record VFMW_IMAGE =
  core :: IMAGE
  img_format :: u32
  top_luma_phy_addr :: u32
  top_chrom_phy_addr :: u32
  top_luma_phy_addr_1 :: u32
  top_chrom_phy_addr_1 :: u32
  image_stride :: u32
  disp_width :: u32
  disp_height :: u32
  img_AspectWidth :: u32
  img_AspectHeight :: u32
  error_level :: u32
  seq_img_cnt :: u32
  eFramePackingType :: u32
  image_id :: u32
  image_id_1 :: u32
  btl_imageid :: u32
  btl_Is1D :: u32
  Usertag :: u32
  line_num_phy_addr :: u32
  is_1Dcompress :: u32
  is_3D :: u32
  img_last_frame :: u32

text \<open>The image as the words \<open>read_image\<close> writes.\<close>

definition image_of :: "u32 list \<Rightarrow> VFMW_IMAGE" where
  "image_of ws = \<lparr>core = \<lparr>frame_num = word_at ws 0,
       SrcPts = push_bit 32 (ucast (word_at ws 2)) OR ucast (word_at ws 1),
       PTS = push_bit 32 (ucast (word_at ws 4)) OR ucast (word_at ws 3),
       image_width = word_at ws 5, image_height = word_at ws 6, frame_rate = word_at ws 7, Rwzb = word_at ws 8\<rparr>,
     img_format = word_at ws 9, top_luma_phy_addr = word_at ws 10, top_chrom_phy_addr = word_at ws 11,
     top_luma_phy_addr_1 = word_at ws 12, top_chrom_phy_addr_1 = word_at ws 13, image_stride = word_at ws 14,
     disp_width = word_at ws 15, disp_height = word_at ws 16, img_AspectWidth = word_at ws 17,
     img_AspectHeight = word_at ws 18, error_level = word_at ws 19, seq_img_cnt = word_at ws 20,
     eFramePackingType = word_at ws 21, image_id = word_at ws 22, image_id_1 = word_at ws 23,
     btl_imageid = word_at ws 24, btl_Is1D = word_at ws 25, Usertag = word_at ws 26,
     line_num_phy_addr = word_at ws 27, is_1Dcompress = word_at ws 28, is_3D = word_at ws 29,
     img_last_frame = word_at ws 30\<rparr>"

definition REALID :: "u32 \<Rightarrow> u32" where
  "REALID i = i mod 100 + 2"

definition image_pix_format :: "OMXVDEC_CHAN_CTX \<Rightarrow> VFMW_IMAGE \<Rightarrow> HI_DRV_PIX_FORMAT_E" where
  "image_pix_format c m =
     (if soft_std (protocol c) then HI_DRV_PIX_FMT_NV21
      else if is_1Dcompress m = 0 then HI_DRV_PIX_FMT_NV21_TILE else HI_DRV_PIX_FMT_NV21_TILE_CMP)"

definition image_rotate :: "OMXVDEC_CHAN_CTX \<Rightarrow> u32" where
  "image_rotate c =
     (if protocol c = STD_VP6A then bReversed c AND 1
      else if protocol c = STD_VP6 \<or> protocol c = STD_VP6F then (if bReversed c AND 1 = 0 then 1 else 0)
      else 0)"

definition image_progressive :: "VFMW_IMAGE \<Rightarrow> bool" where
  "image_progressive m \<longleftrightarrow> img_format m AND 0x300 = 0 \<or> disp_height m \<le> 288"

definition image_field_mode :: "VFMW_IMAGE \<Rightarrow> HI_DRV_FIELD_MODE_E" where
  "image_field_mode m =
     (let x = img_format m AND 0xC00 in
      if x = 0x400 then HI_DRV_FIELD_TOP else if x = 0x800 then HI_DRV_FIELD_BOTTOM
      else if x = 0xC00 then HI_DRV_FIELD_ALL else HI_DRV_FIELD_BUTT)"

definition image_addr :: "OMXVDEC_CHAN_CTX \<Rightarrow> VFMW_IMAGE \<Rightarrow> HI_DRV_VID_FRAME_ADDR_S" where
  "image_addr c m =
     (let st = (if soft_std (protocol c) \<or> protocol c = STD_MJPEG then image_stride m else image_stride m div 16) in
      \<lparr>u32PhyAddr_Y = top_luma_phy_addr m, u32Stride_Y = st, u32PhyAddr_C = top_chrom_phy_addr m, u32Stride_C = st\<rparr>)"

definition image_frame_type :: "VFMW_IMAGE \<Rightarrow> HI_DRV_FRAME_TYPE_E" where
  "image_frame_type m =
     (if eFramePackingType m = 0 then HI_DRV_FT_NOT_STEREO else if eFramePackingType m = 1 then HI_DRV_FT_SBS
      else if eFramePackingType m = 2 then HI_DRV_FT_TAB else if eFramePackingType m = 3 then HI_DRV_FT_FPK
      else HI_DRV_FT_OTHER)"

definition image_to_frame :: "vpss_platform \<Rightarrow> OMXVDEC_CHAN_CTX \<Rightarrow> VFMW_IMAGE \<Rightarrow> HI_DRV_VIDEO_FRAME_S \<Rightarrow> HI_DRV_VIDEO_FRAME_S" where
  "image_to_frame V c m f0 =
     (let f1 = f0\<lparr>bTopFieldFirst := (img_format m AND 0x3000 \<noteq> 0), ePixFormat := image_pix_format c m,
                  u32Circumrotate := image_rotate c, bProgressive := image_progressive m,
                  enFieldMode := image_field_mode m, stBufAddr_0 := image_addr c m\<rparr>;
          f2 = (if is_3D m \<noteq> 0
                then f1\<lparr>stBufAddr_1 := \<lparr>u32PhyAddr_Y = top_luma_phy_addr_1 m, u32Stride_Y = image_stride m div 16,
                          u32PhyAddr_C = top_chrom_phy_addr_1 m, u32Stride_C = image_stride m div 16\<rparr>\<rparr>
                else f1);
          f3 = f2\<lparr>u32AspectWidth := img_AspectWidth m, u32AspectHeight := img_AspectHeight m,
                  u32Width := disp_width m, u32Height := disp_height m, u32ErrorLevel := error_level m,
                  s64OmxPts := SrcPts (core m), f_u32FrameIndex := seq_img_cnt m,
                  f_hTunnelSrc := HI_ID_VDEC_HANDLE (HI_ID_VDEC V) c\<rparr>
      in if protocol c = STD_MVC then f3\<lparr>eFrmType := image_frame_type m\<rparr> else f3)"

text \<open>\<open>do_div\<close> by 1000: the source time stamp in milliseconds, rounded to the nearest.\<close>

definition pts_to_ms :: "s64 \<Rightarrow> s64 \<times> s64" where
  "pts_to_ms p = (let q = p div 1000; r = p mod 1000 in (if r \<ge> 500 then q + 1 else q, r))"

text \<open>The frame rate of an image, in thousandths; an implausible one keeps the channel's.\<close>

definition image_rate :: "OMXVDEC_CHAN_CTX \<Rightarrow> u32 \<Rightarrow> u32" where
  "image_rate c r =
     (let v = r div 1024 * 1000 + r mod 1024 in
      if v < 10000 \<or> v > 75000 then u32FrameRate (last_frame c) else v)"

definition set_frame_rate :: "OMXVDEC_CHAN_CTX \<Rightarrow> u32 \<Rightarrow> OMXVDEC_CHAN_CTX" where
  "set_frame_rate c v =
     c\<lparr>in_port := port_put (in_port c) (last_slot c) ((last_frame c)\<lparr>u32FrameRate := v\<rparr>)\<rparr>"

text \<open>
  When no image is ready: if the decoder has reported its last frame and the processor has it
  (or the report failed), the last frame is reported by hand.
\<close>

definition no_image ::
  "env \<Rightarrow> globals \<Rightarrow> (nat \<Rightarrow> OMXVDEC_CHAN_CTX \<Rightarrow> OMXVDEC_CHAN_CTX) \<Rightarrow> OMXVDEC_CHAN_CTX \<Rightarrow> world \<Rightarrow>
   OMXVDEC_CHAN_CTX \<times> world" where
  "no_image E G others c w =
     (if last_frame_info_0 c = DECODER_REPORT_LAST_FRAME
         \<and> (last_frame_processor_got c = last_frame_image_id c
            \<or> last_frame_info_1 c = ucast REPORT_LAST_FRAME_FAIL)
      then snd (processor_report_last_frame E G others (c\<lparr>last_frame_info_0 := PROCESSOR_GOT_LAST_FRAME\<rparr>) w)
      else (c, w))"

text \<open>
  An image that was read. The stamp is computed on the millisecond time stamp; its
  only results used here are the frame rate and the interlace offset of the channel
  (\<open>OMX_PTSREC_GetInterPtsDelta\<close> reads outside its table for a channel number above 15).
\<close>

definition got_image ::
  "env \<Rightarrow> globals \<Rightarrow> platform \<Rightarrow> vpss_platform \<Rightarrow> VFMW_IMAGE \<Rightarrow> HI_DRV_VIDEO_FRAME_S \<Rightarrow> OMXVDEC_CHAN_CTX \<Rightarrow> world \<Rightarrow>
   (HI_DRV_VIDEO_FRAME_S \<times> OMXVDEC_CHAN_CTX \<times> world) option" where
  "got_image E G K V m f0 c0 w0 =
     (let f1 = image_to_frame V c0 m f0;
          c1 = c0\<lparr>progress := bProgressive f1\<rparr>;
          core1 = (core m)\<lparr>SrcPts := fst (pts_to_ms (SrcPts (core m)))\<rparr> in
      case OMX_PTSREC_CalcStamp K (pts_table w0) (channel_id c1) core1 of None \<Rightarrow> None
      | Some (_, core2, T) \<Rightarrow>
        (let w1 = w0\<lparr>pts_table := T\<rparr>;
             v = image_rate c1 (frame_rate core2);
             w2 = (if v > 30000 \<and> v \<noteq> u32FrameRate (last_frame c1)
                   then ext_do E (VFMW_CONTROL (decoder_id c1) VDEC_CID_SET_FRAME_RATE [v div 1000]) w1 else w1);
             c2 = set_frame_rate c1 v in
         case OMX_PTSREC_GetInterPtsDelta T (channel_id c1) of None \<Rightarrow> None
         | Some delta \<Rightarrow>
           (let f2 = f1\<lparr>f_u32FrameRate := v, u32BufferID := image_id m, priv_Interlace := bProgressive f1,
                        priv_image_id := image_id m, priv_image_id_1 := image_id_1 m,
                        priv_BTLImageID := btl_imageid m, priv_Is1D := btl_Is1D m, priv_Usertag := Usertag m,
                        priv_InterPtsDelta := delta, priv_Width := disp_width m, priv_Height := disp_height m,
                        priv_FrmRate := v, priv_en3dType := eFrmType f1,
                        u32TunnelPhyAddr := (if lowdelay_true G c2 then line_num_phy_addr m else 0)\<rparr>;
                c3 = (if img_last_frame m = 1 then c2\<lparr>last_frame_image_id := ucast (REALID (image_id m))\<rparr> else c2);
                c4 = c3\<lparr>last_frame_processor_got := ucast (REALID (image_id m))\<rparr> in
            case lowdelay_note E G c4 w2 (Usertag m) OMX_LOWDELAY_REC_VPSS_RCV_IMG_TIME of None \<Rightarrow> None
            | Some (c5, w5) \<Rightarrow>
              let st = omx_chan_statinfo c5 in
              Some (f2, c5\<lparr>omx_chan_statinfo := st\<lparr>ProcessorIn := ProcessorIn st + 1\<rparr>\<rparr>, w5))))"

definition get_image ::
  "env \<Rightarrow> globals \<Rightarrow> platform \<Rightarrow> vpss_platform \<Rightarrow> (nat \<Rightarrow> OMXVDEC_CHAN_CTX \<Rightarrow> OMXVDEC_CHAN_CTX) \<Rightarrow>
   HI_DRV_VIDEO_FRAME_S \<Rightarrow> OMXVDEC_CHAN_CTX \<Rightarrow> world \<Rightarrow>
   (HI_DRV_VIDEO_FRAME_S option \<times> OMXVDEC_CHAN_CTX \<times> world) option" where
  "get_image E G K V others f c w =
     (if reset_pending c then Some (None, c, w)
      else case ext_out E (VFMW_READ_IMAGE (decoder_id c)) w of (r, ws, w1) \<Rightarrow>
        if r \<noteq> HI_SUCCESS then Some (None, no_image E G others c w1)
        else map_option (\<lambda>(f', c', w'). (Some f', c', w')) (got_image E G K V (image_of ws) f c w1))"

definition processor_get_image ::
  "env \<Rightarrow> platform \<Rightarrow> vpss_platform \<Rightarrow> (nat \<Rightarrow> OMXVDEC_CHAN_CTX \<Rightarrow> OMXVDEC_CHAN_CTX) \<Rightarrow>
   driver \<Rightarrow> u32 \<Rightarrow> HI_DRV_VIDEO_FRAME_S option \<Rightarrow> (HI_DRV_VIDEO_FRAME_S option \<times> driver) option" where
  "processor_get_image E K V others d vpss_id frame =
     (case frame of None \<Rightarrow> Some (None, d)
      | Some f \<Rightarrow>
         (case channel_find_inst_by_processor_id d vpss_id of None \<Rightarrow> Some (None, d)
          | Some i \<Rightarrow> map_option (\<lambda>(r, c, w). (r, put_chan d i c w))
              (get_image E (globs d) K V others f (chan_list d ! i) (wld d))))"

definition release_image_words :: "HI_DRV_VIDEO_FRAME_S \<Rightarrow> u32 list" where
  "release_image_words f = [u32Stride_Y (stBufAddr_0 f), u32Height f, u32Width f, u32PhyAddr_Y (stBufAddr_0 f),
     u32PhyAddr_Y (stBufAddr_0 f), priv_image_id f, priv_image_id_1 f, priv_BTLImageID f, priv_Is1D f]"

definition processor_release_image ::
  "env \<Rightarrow> driver \<Rightarrow> u32 \<Rightarrow> HI_DRV_VIDEO_FRAME_S option \<Rightarrow> hi_ret \<times> driver" where
  "processor_release_image E d vpss_id frame =
     (case frame of None \<Rightarrow> (HI_FAILURE, d)
      | Some f \<Rightarrow>
         (case channel_find_inst_by_processor_id d vpss_id of None \<Rightarrow> (HI_FAILURE, d)
          | Some i \<Rightarrow>
              (let (r, w) = ext E (VFMW_RELEASE_IMAGE (decoder_id (chan_list d ! i)) (release_image_words f)) (wld d)
               in (r, d\<lparr>wld := w\<rparr>))))"

section \<open>The operations the channel calls\<close>

definition processor_color_omx_to_hal :: "OMX_PIX_FORMAT_E \<Rightarrow> HI_DRV_PIX_FORMAT_E" where
  "processor_color_omx_to_hal fmt =
     (case fmt of OMX_PIX_FMT_NV12 \<Rightarrow> HI_DRV_PIX_FMT_NV12 | OMX_PIX_FMT_NV21 \<Rightarrow> HI_DRV_PIX_FMT_NV21
      | OMX_PIX_FMT_YUV420Planar \<Rightarrow> HI_DRV_PIX_FMT_YUV420M | _ \<Rightarrow> HI_DRV_PIX_FMT_NV12)"

definition processor_init :: "env \<Rightarrow> world \<Rightarrow> hi_ret \<times> world" where
  "processor_init E w =
     (case ext_out E GET_VPSS_FUNC w of (r, ws, w1) \<Rightarrow>
      if r \<noteq> HI_SUCCESS \<or> word_at ws 0 = 0 then (HI_FAILURE, w1) else
      case ext E VPSS_GLOBAL_INIT w1 of (r2, w2) \<Rightarrow> (if r2 \<noteq> HI_SUCCESS then HI_FAILURE else HI_SUCCESS, w2))"

definition processor_exit :: "env \<Rightarrow> world \<Rightarrow> hi_ret \<times> world" where
  "processor_exit E w = ext E VPSS_GLOBAL_DEINIT w"

text \<open>The words of the port configuration the driver sets.\<close>

definition pix_number :: "HI_DRV_PIX_FORMAT_E \<Rightarrow> u32" where
  "pix_number f = (case f of HI_DRV_PIX_FMT_NV12 \<Rightarrow> 0 | HI_DRV_PIX_FMT_NV21 \<Rightarrow> 1 | HI_DRV_PIX_FMT_YUV420M \<Rightarrow> 2
     | HI_DRV_PIX_FMT_NV21_TILE \<Rightarrow> 3 | HI_DRV_PIX_FMT_NV21_TILE_CMP \<Rightarrow> 4)"

definition port_cfg_words :: "globals \<Rightarrow> OMXVDEC_CHAN_CTX \<Rightarrow> OMX_PIX_FORMAT_E \<Rightarrow> u32 list" where
  "port_cfg_words G c fmt = [0, 0, pix_number (processor_color_omx_to_hal fmt),
     if g_FrameRateLimit G then 30 else 30000, if protocol c = STD_MVC then 1 else 0,
     if lowdelay_true G c then 1 else 0]"

definition processor_create_inst ::
  "env \<Rightarrow> globals \<Rightarrow> vpss_platform \<Rightarrow> OMX_PIX_FORMAT_E \<Rightarrow> OMXVDEC_CHAN_CTX \<Rightarrow> world \<Rightarrow>
   hi_ret \<times> OMXVDEC_CHAN_CTX \<times> world" where
  "processor_create_inst E G V fmt c0 w0 =
     (let c = c0\<lparr>processor_id := VPSS_INVALID_HANDLE V, port_id := VPSS_INVALID_HANDLE V\<rparr>;
          err = (\<lambda>c w. (HI_FAILURE, c\<lparr>processor_id := VPSS_INVALID_HANDLE V\<rparr>, ext_do E (VPSS_DESTROY (processor_id c)) w)) in
      case ext E VPSS_DEFAULT_CFG w0 of (r1, w1) \<Rightarrow>
      if r1 \<noteq> HI_SUCCESS then (HI_FAILURE, c, w1) else
      case ext_out E (VPSS_CREATE [if g_DeInterlaceEnable G then 1 else 0]) w1 of (r2, ids, w2) \<Rightarrow>
      if r2 \<noteq> HI_SUCCESS then (HI_FAILURE, c, w2) else
      let c2 = c\<lparr>processor_id := word_at ids 0\<rparr> in
      case ext E (VPSS_REGIST_HOOK (processor_id c2) (channel_id c2)) w2 of (r3, w3) \<Rightarrow>
      if r3 \<noteq> HI_SUCCESS then err c2 w3 else
      case ext E (VPSS_SET_SOURCE (processor_id c2)) w3 of (r4, w4) \<Rightarrow>
      if r4 \<noteq> HI_SUCCESS then err c2 w4 else
      case ext E VPSS_DEFAULT_PORT_CFG w4 of (r5, w5) \<Rightarrow>
      if r5 \<noteq> HI_SUCCESS then err c2 w5 else
      let c3 = c2\<lparr>color_format := fmt\<rparr> in
      case ext_out E (VPSS_CREATE_PORT (processor_id c3) (port_cfg_words G c3 fmt)) w5 of (r6, ps, w6) \<Rightarrow>
      if r6 \<noteq> HI_SUCCESS then err c3 w6 else (HI_SUCCESS, c3\<lparr>port_id := word_at ps 0\<rparr>, w6))"

definition processor_release_inst ::
  "env \<Rightarrow> vpss_platform \<Rightarrow> OMXVDEC_CHAN_CTX \<Rightarrow> world \<Rightarrow> hi_ret \<times> OMXVDEC_CHAN_CTX \<times> world" where
  "processor_release_inst E V c w =
     (if port_id c = VPSS_INVALID_HANDLE V then (HI_FAILURE, c, w)
      else
        (let w1 = ext_do E (VPSS_DESTROY_PORT (port_id c)) w;
             c1 = c\<lparr>port_id := VPSS_INVALID_HANDLE V\<rparr> in
         if processor_id c1 = VPSS_INVALID_HANDLE V then (HI_FAILURE, c1, w1)
         else (HI_SUCCESS, c1\<lparr>processor_id := VPSS_INVALID_HANDLE V\<rparr>, ext_do E (VPSS_DESTROY (processor_id c1)) w1)))"

definition processor_start_inst :: "env \<Rightarrow> OMXVDEC_CHAN_CTX \<Rightarrow> world \<Rightarrow> hi_ret \<times> world" where
  "processor_start_inst E c w =
     (let w1 = ext_do E (VPSS_SEND_COMMAND (processor_id c) VPSS_COMMAND_STOREPRIV
                           [if bStorePrivateData c then 1 else 0]) w in
      case ext E (VPSS_ENABLE_PORT (port_id c) True) w1 of (r2, w2) \<Rightarrow>
      if r2 \<noteq> HI_SUCCESS then (HI_FAILURE, w2)
      else ext E (VPSS_SEND_COMMAND (processor_id c) VPSS_COMMAND_START []) w2)"

definition processor_stop_inst :: "env \<Rightarrow> OMXVDEC_CHAN_CTX \<Rightarrow> world \<Rightarrow> hi_ret \<times> world" where
  "processor_stop_inst E c w =
     (case ext E (VPSS_ENABLE_PORT (port_id c) False) w of (r1, w1) \<Rightarrow>
      if r1 \<noteq> HI_SUCCESS then (HI_FAILURE, w1)
      else ext E (VPSS_SEND_COMMAND (processor_id c) VPSS_COMMAND_STOP []) w1)"

definition processor_reset_inst :: "env \<Rightarrow> OMXVDEC_CHAN_CTX \<Rightarrow> world \<Rightarrow> hi_ret \<times> world" where
  "processor_reset_inst E c w = ext E (VPSS_SEND_COMMAND (processor_id c) VPSS_COMMAND_RESET []) w"

section \<open>Frame buffers keep the invariant\<close>

lemma get_frame_Some:
  assumes "processor_get_frame c len = (Some s, c')"
  obtains q p where "c' = c\<lparr>out_port := p\<rparr>" "port_take (out_port c) len = Some (q, p)"
    "state c = CHAN_STATE_WORK" "\<not> flush_pending (out_port c)" "fs_Length s = buf_len (port_buf (out_port c) q)"
    "fs_PhyAddr s = phy_addr (port_buf (out_port c) q) + offset (port_buf (out_port c) q)"
proof -
  have g: "state c = CHAN_STATE_WORK" "\<not> flush_pending (out_port c)" "queue (out_port c) \<noteq> []"
    using assms by (auto simp: processor_get_frame_def split: if_splits)
  show thesis
  proof (cases "port_take (out_port c) len")
    case None
    then show thesis using assms g by (simp add: processor_get_frame_def)
  next
    case (Some t)
    obtain q p where t: "t = (q, p)" by (cases t)
    show thesis using assms g Some t by (intro that [of p q]) (auto simp: processor_get_frame_def Let_def)
  qed
qed

lemma get_frame_None: "processor_get_frame c len = (None, c') \<Longrightarrow> c' = c"
  by (auto simp: processor_get_frame_def Let_def split: if_splits option.splits prod.splits)

lemma taken_out_port_wf:
  assumes wf: "chan_wf K c" and t: "port_take (out_port c) need = Some (q, p)"
  shows "chan_wf K (c\<lparr>out_port := p\<rparr>)"
proof -
  note w = chan_wfD [OF wf]
  have pw: "port_wf 0 p" using port_take_wf [OF w(2) t] .
  have "q \<in> users p" using port_take_SomeD [OF t] queue_bound [OF w(2)] by (simp add: users_def in_use_def port_buf_put)
  then have "use_cnt p \<noteq> 0" using use_cnt_0 [OF pw] by auto
  then have "chan_wf K (c\<lparr>out_port := p, pause_pending := pause_pending c\<rparr>)"
    by (intro chan_wf_out_port [OF wf pw]) simp
  then show ?thesis by simp
qed

lemma get_frame_wf:
  assumes "chan_wf K c" "processor_get_frame c len = (r, c')"
  shows "chan_wf K c'"
proof (cases r)
  case None
  then show ?thesis using assms(1) get_frame_None assms(2) by blast
next
  case (Some s)
  show ?thesis using get_frame_Some [OF assms(2) [unfolded Some]] taken_out_port_wf [OF assms(1)] by metis
qed

text \<open>
  The answers after a frame came back: flush and pause are answered together when no frame is in
  use any more.
\<close>

lemma frames_done_fields:
  fixes c
  defines "c' \<equiv> frames_done c"
  shows "in_port c' = in_port c" "eos_in_list c' = eos_in_list c" "state c' = state c"
    "out_port c' = (out_port c)\<lparr>flush_pending := (flush_pending (out_port c) \<and> use_cnt (out_port c) \<noteq> 0)\<rparr>"
    "pause_pending c' \<longleftrightarrow> pause_pending c \<and> use_cnt (out_port c) \<noteq> 0"
    "omx_vdec_lowdelay_proc_rec c' = omx_vdec_lowdelay_proc_rec c"
  by (auto simp: c'_def frames_done_def answer_pause_def answer_flush_def)

lemma frames_done_wf:
  assumes "chan_wf K c0" "in_port c = in_port c0" "eos_in_list c = eos_in_list c0" "port_wf 0 (out_port c)"
  shows "chan_wf K (frames_done c)"
proof -
  have "chan_wf K (c0\<lparr>out_port := out_port (frames_done c), pause_pending := pause_pending (frames_done c)\<rparr>)"
    using assms(4) by (intro chan_wf_out_port [OF assms(1)]) (simp_all add: frames_done_fields)
  then show ?thesis by (rule iffD1 [OF chan_wf_cong, rotated -1]) (simp_all add: frames_done_fields assms)
qed

text \<open>The post-processor may only give back a frame it holds.\<close>

definition frame_held :: "OMXVDEC_CHAN_CTX \<Rightarrow> u32 \<Rightarrow> bool" where
  "frame_held c a \<longleftrightarrow> (case port_at (out_port c) a of None \<Rightarrow> True | Some q \<Rightarrow> in_use (out_port c) q)"

lemma list_del_uncount: "list_del (port_uncount p) q = port_uncount (list_del p q)"
  by (simp add: list_del_def port_uncount_def)

lemma port_put_uncount: "port_put (port_uncount p) q b = port_uncount (port_put p q b)"
  by (simp add: port_put_def port_uncount_def)

lemma port_put_put: "port_put (port_put p q b) q b' = port_put p q b'"
  by (simp add: port_put_def)

text \<open>The output side after a frame was released: out of the queue, or waiting again.\<close>

definition released_port :: "OMXVDEC_CHAN_CTX \<Rightarrow> nat \<Rightarrow> port" where
  "released_port c q =
     (let p = out_port c; b = port_buf p q in
      if flush_pending p \<or> pause_pending c then port_uncount (list_del (port_put p q (b\<lparr>status := BUF_STATE_IDLE\<rparr>)) q)
      else port_uncount (port_put p q (b\<lparr>status := BUF_STATE_QUEUED\<rparr>)))"

lemma release_frame_cases:
  fixes c a
  obtains (refused) r where "processor_release_frame c a = (r, c)" "a = 0 \<or> port_at (out_port c) a = None"
  | (waits) q where "a \<noteq> 0" "port_at (out_port c) a = Some q" "flush_pending (out_port c) \<or> pause_pending c"
      "processor_release_frame c a = (HI_SUCCESS, frames_done (message_queue (c\<lparr>out_port := released_port c q\<rparr>)
         VDEC_MSG_RESP_OUTPUT_DONE VDEC_S_SUCCESS (BUF_DATA (returned_frame (port_buf (out_port c) q)))))"
  | (again) q where "a \<noteq> 0" "port_at (out_port c) a = Some q" "\<not> flush_pending (out_port c)" "\<not> pause_pending c"
      "q < length (bufs (out_port c)) \<Longrightarrow> processor_release_frame c a = (HI_SUCCESS, c\<lparr>out_port := released_port c q\<rparr>)"
proof (cases "a = 0 \<or> port_at (out_port c) a = None")
  case True
  then have "processor_release_frame c a =
      (if a = 0 then HI_FAILURE else if queue (out_port c) = [] then HI_SUCCESS else HI_FAILURE, c)"
    by (auto simp: processor_release_frame_def)
  then show thesis using True by (rule refused)
next
  case False
  then obtain q where q: "a \<noteq> 0" "port_at (out_port c) a = Some q" by auto
  have ne: "queue (out_port c) \<noteq> []" using port_at_SomeD(1) [OF q(2)] by auto
  show thesis
  proof (cases "flush_pending (out_port c) \<or> pause_pending c")
    case True
    show thesis using q ne True
      by (intro waits [OF q True])
         (auto simp: processor_release_frame_def released_port_def Let_def port_idle_def list_del_uncount)
  next
    case nf: False
    show thesis using q ne nf
      by (intro again [OF q])
         (auto simp: processor_release_frame_def released_port_def Let_def port_idle_def port_put_uncount port_put_put port_buf_put)
  qed
qed

lemma released_port_wf:
  assumes "port_wf 0 (out_port c)" "q \<in> set (queue (out_port c))" "in_use (out_port c) q"
  shows "port_wf 0 (released_port c q)"
  using port_return_wf [OF assms] port_requeue_wf [OF assms] by (simp add: released_port_def Let_def)

lemma release_frame_wf:
  assumes wf: "chan_wf K c" and h: "frame_held c a" and r: "processor_release_frame c a = (r, c')"
  shows "chan_wf K c'"
proof (cases rule: release_frame_cases [where c = c and a = a])
  case (refused r)
  then show ?thesis using wf r by simp
next
  case (waits q)
  then have "port_wf 0 (released_port c q)" using h port_at_SomeD(1) [OF waits(2)]
    by (intro released_port_wf chan_wfD(2) [OF wf]) (simp_all add: frame_held_def)
  then show ?thesis using r waits(4) frames_done_wf [OF wf] by auto
next
  case (again q)
  have q: "q \<in> set (queue (out_port c))" "in_use (out_port c) q" using h again port_at_SomeD(1) by (auto simp: frame_held_def)
  have "port_wf 0 (released_port c q)" using released_port_wf chan_wfD(2) [OF wf] q by blast
  moreover have "\<not> flush_pending (released_port c q)" using again by (simp add: released_port_def Let_def)
  ultimately have "chan_wf K (c\<lparr>out_port := released_port c q, pause_pending := pause_pending c\<rparr>)"
    using again(4) by (intro chan_wf_out_port [OF wf]) auto
  then show ?thesis using r again(5) queue_bound [OF chan_wfD(2) [OF wf] q(1)] by simp
qed

text \<open>A reported frame always leaves the queue.\<close>

definition reported_port :: "OMXVDEC_CHAN_CTX \<Rightarrow> nat \<Rightarrow> u32 \<Rightarrow> port" where
  "reported_port c q len = port_uncount (list_del (port_put (out_port c) q
     ((port_buf (out_port c) q)\<lparr>status := BUF_STATE_IDLE, act_len := len\<rparr>)) q)"

lemma reported_port_wf:
  assumes "port_wf 0 (out_port c)" "q \<in> set (queue (out_port c))" "in_use (out_port c) q"
  shows "port_wf 0 (reported_port c q len)"
  using port_return_wf [OF assms] by (simp add: reported_port_def)

lemma report_frame_cases:
  fixes G c f
  defines "a \<equiv> u32PhyAddr_Y (stBufAddr_0 f)"
  obtains (refused) "processor_report_frame G c f = (HI_FAILURE, c)" "a = 0 \<or> port_at (out_port c) a = None"
  | (reported) q i e where "a \<noteq> 0" "port_at (out_port c) a = Some q"
      "processor_report_frame G c f = (HI_SUCCESS, frames_done (c
         \<lparr>last_frame_info_0 := i, eof_send_flag := e,
          msgs := msgs c @ [Msg VDEC_MSG_RESP_OUTPUT_DONE VDEC_S_SUCCESS
                              (BUF_DATA (reported_desc G c (port_buf (out_port c) q) f))],
          out_port := reported_port c q (data_len (reported_desc G c (port_buf (out_port c) q) f))\<rparr>))"
proof (cases "a = 0 \<or> port_at (out_port c) a = None")
  case True
  then have "processor_report_frame G c f = (HI_FAILURE, c)" by (auto simp: processor_report_frame_def a_def Let_def)
  then show thesis using True by (rule refused)
next
  case False
  then obtain q where q: "a \<noteq> 0" "port_at (out_port c) a = Some q" by auto
  have ne: "queue (out_port c) \<noteq> []" using port_at_SomeD(1) [OF q(2)] by auto
  let ?last = "last_frame_info_0 c = PROCESSOR_GOT_LAST_FRAME \<and> u32LastFlag f"
  show thesis
  proof (rule reported [OF q])
    show "processor_report_frame G c f = (HI_SUCCESS, frames_done (c
         \<lparr>last_frame_info_0 := if ?last then LAST_FRAME_FLAG_NULL else last_frame_info_0 c,
          eof_send_flag := if ?last then \<not> eof_send_flag c else eof_send_flag c,
          msgs := msgs c @ [Msg VDEC_MSG_RESP_OUTPUT_DONE VDEC_S_SUCCESS
                              (BUF_DATA (reported_desc G c (port_buf (out_port c) q) f))],
          out_port := reported_port c q (data_len (reported_desc G c (port_buf (out_port c) q) f))\<rparr>))"
      using q ne by (auto simp: processor_report_frame_def a_def Let_def reported_port_def message_queue_def)
  qed
qed

lemma report_frame_wf:
  assumes wf: "chan_wf K c" and h: "frame_held c (u32PhyAddr_Y (stBufAddr_0 f))"
    and r: "processor_report_frame G c f = (r, c')"
  shows "chan_wf K c'"
proof (cases rule: report_frame_cases [where G = G and c = c and f = f])
  case refused
  then show ?thesis using wf r by simp
next
  case (reported q i e)
  have "port_wf 0 (reported_port c q len)" for len
    using h reported(2) port_at_SomeD(1) [OF reported(2)]
    by (intro reported_port_wf chan_wfD(2) [OF wf]) (simp_all add: frame_held_def)
  then show ?thesis using r reported(3) frames_done_wf [OF wf] by auto
qed

text \<open>A frame that was just taken is the one its address leads to, or one that is in use too.\<close>

lemma taken_frame_held:
  assumes wf: "port_wf extra p" and t: "port_take p 0 = Some (q, p')"
    and a: "port_at p' (phy_addr (port_buf p q) + offset (port_buf p q)) = Some q'"
  shows "in_use p' q'"
proof -
  obtain k where k: "k < length (queue p)" "queue p ! k = q" "\<And>j. j < k \<Longrightarrow> in_use p (queue p ! j)"
    using t by (auto simp: port_take_def port_first_free_def in_use_def Let_def dest: find_index_SomeD split: option.splits)
  note d = port_take_SomeD [OF t]
  have ql: "q < length (bufs p)" using queue_bound [OF wf d(1)] .
  have addr: "phy_addr (port_buf p' j) = phy_addr (port_buf p j)" "offset (port_buf p' j) = offset (port_buf p j)" for j
    using ql by (simp_all add: d(4) port_put_field)
  have qu: "queue p' = queue p" by (simp add: d(4))
  have use: "in_use p' j \<longleftrightarrow> j = q \<or> in_use p j" for j using ql by (simp add: d(4) in_use_def port_buf_put)
  obtain i where i: "i < length (queue p)" "q' = queue p ! i"
    "\<And>j. j < i \<Longrightarrow> phy_addr (port_buf p (queue p ! j)) + offset (port_buf p (queue p ! j))
        \<noteq> phy_addr (port_buf p q) + offset (port_buf p q)"
    using a by (auto simp: port_at_def addr qu dest: find_index_SomeD split: option.splits)
  have "\<not> k < i" using i(3) [of k] k(2) by auto
  then show ?thesis using i(2) k(2,3) use by (cases "i = k") auto
qed

lemma report_last_loop_wf:
  assumes "chan_wf K c" and "\<And>i c. chan_wf K c \<Longrightarrow> chan_wf K (others i c)"
  shows "chan_wf K (fst (snd (report_last_loop E G others n c w)))"
  using assms(1)
proof (induction n arbitrary: c w)
  case 0
  then show ?case by simp
next
  case (Suc n)
  obtain r c1 where g: "processor_get_frame c 0 = (r, c1)" by (cases "processor_get_frame c 0")
  have c1: "chan_wf K c1" using get_frame_wf [OF Suc.prems g] .
  show ?case
  proof (cases r)
    case None
    then show ?thesis using g Suc.IH [OF assms(2) [OF c1]] by simp
  next
    case (Some s)
    obtain q p where t: "c1 = c\<lparr>out_port := p\<rparr>" "port_take (out_port c) 0 = Some (q, p)"
      "fs_PhyAddr s = phy_addr (port_buf (out_port c) q) + offset (port_buf (out_port c) q)"
      using get_frame_Some [OF g [unfolded Some]] by metis
    have "frame_held c1 (u32PhyAddr_Y (stBufAddr_0 (last_video_frame s)))"
      using taken_frame_held [OF chan_wfD(2) [OF Suc.prems] t(2)] t
      by (auto simp: frame_held_def last_video_frame_def split: option.splits)
    then show ?thesis using report_frame_wf [OF c1 _ surjective_pairing] g Some by simp
  qed
qed

lemma no_image_wf:
  assumes "chan_wf K c" and "\<And>i c. chan_wf K c \<Longrightarrow> chan_wf K (others i c)"
  shows "chan_wf K (fst (no_image E G others c w))"
proof -
  have "chan_wf K (c\<lparr>last_frame_info_0 := PROCESSOR_GOT_LAST_FRAME\<rparr>)"
    using assms(1) by (rule iffD1 [OF chan_wf_cong, rotated -1]) simp_all
  from report_last_loop_wf [OF this assms(2)] assms(1) show ?thesis
    by (simp add: no_image_def processor_report_last_frame_def)
qed

lemma set_frame_rate_wf:
  assumes wf: "chan_wf K c"
  shows "chan_wf K (set_frame_rate c v)"
proof -
  note w = chan_wfD [OF wf]
  let ?p = "port_put (in_port c) (last_slot c) ((last_frame c)\<lparr>u32FrameRate := v\<rparr>)"
  have "port_wf 1 ?p" by (intro port_wf_put [OF w(1)]) (simp_all add: last_frame_def)
  then have "chan_wf K (c\<lparr>in_port := ?p, eos_in_list := eos_in_list c\<rparr>)"
    using w(3,6,7) by (intro chan_wf_in_port [OF wf]) (auto simp: port_put_field last_frame_def)
  then show ?thesis by (simp add: set_frame_rate_def)
qed

lemma got_image_wf:
  assumes "chan_wf K c" "got_image E G K' V m f c w = Some (f', c', w')"
  shows "chan_wf K c'"
proof -
  let ?c1 = "c\<lparr>progress := bProgressive (image_to_frame V c m f)\<rparr>"
  have "chan_wf K ?c1" using assms(1) by (rule iffD1 [OF chan_wf_cong, rotated -1]) simp_all
  then have r: "chan_wf K (set_frame_rate ?c1 v)" for v by (rule set_frame_rate_wf)
  have r1: "chan_wf K ((set_frame_rate ?c1 v)\<lparr>last_frame_processor_got := i\<rparr>)" for v i
    using r [of v] by (rule iffD1 [OF chan_wf_cong, rotated -1]) simp_all
  have r2: "chan_wf K ((set_frame_rate ?c1 v)\<lparr>last_frame_image_id := k, last_frame_processor_got := i\<rparr>)" for v i k
    using r [of v] by (rule iffD1 [OF chan_wf_cong, rotated -1]) simp_all
  show ?thesis using assms(2) unfolding got_image_def Let_def
    by (auto split: option.splits prod.splits if_split_asm intro: noted_wf [OF r1] noted_wf [OF r2])
qed

lemma get_image_wf:
  assumes "chan_wf K c" "\<And>i c. chan_wf K c \<Longrightarrow> chan_wf K (others i c)"
    and "get_image E G K' V others f c w = Some (r, c', w')"
  shows "chan_wf K c'"
proof (cases "reset_pending c")
  case True
  then show ?thesis using assms(1,3) by (simp add: get_image_def)
next
  case False
  obtain r1 ws w1 where x: "ext_out E (VFMW_READ_IMAGE (decoder_id c)) w = (r1, ws, w1)" by (rule prod_cases3)
  show ?thesis
  proof (cases "r1 = HI_SUCCESS")
    case True
    then show ?thesis using assms(3) False x got_image_wf [OF assms(1)] by (auto simp: get_image_def)
  next
    case nf: False
    then have "no_image E G others c w1 = (c', w')" using assms(3) False x by (simp add: get_image_def)
    then have "c' = fst (no_image E G others c w1)" by simp
    then show ?thesis using no_image_wf [where others = others, OF assms(1,2)] by simp
  qed
qed

text \<open>The post-processor keeps to its side of the contract: it gives back or reports frames it holds.\<close>

definition event_ok :: "globals \<Rightarrow> OMXVDEC_CHAN_CTX \<Rightarrow> VPSS_EVENT \<Rightarrow> bool" where
  "event_ok G c ev = (case ev of
       VPSS_EVENT_REL_FRMBUFFER port flag a \<Rightarrow> frame_held c a
     | VPSS_EVENT_NEW_FRAME port f \<Rightarrow> frame_held c (u32PhyAddr_Y (stBufAddr_0 f)) \<and>
         (eFrmType f \<noteq> HI_DRV_FT_NOT_STEREO \<longrightarrow>
          frame_held (snd (processor_report_frame G c f)) (u32PhyAddr_Y (stBufAddr_1 f)))
     | _ \<Rightarrow> True)"

lemma get_frame_buffer_wf:
  assumes wf: "chan_wf K c" and g: "processor_get_frame_buffer V c f = (r, f', c')"
  shows "chan_wf K c'"
proof -
  have "chan_wf K (image_size_change V c a b)" for a b
  proof -
    have "chan_wf K (image_size_change V c a b) \<longleftrightarrow> chan_wf K c"
      by (rule chan_wf_cong) (simp_all add: image_size_change_def Let_def)
    then show ?thesis using wf by simp
  qed
  moreover have "chan_wf K c1" if "processor_get_frame c n = (s, c1)" for n s c1 using get_frame_wf [OF wf that] .
  ultimately show ?thesis using g wf
    by (auto simp: processor_get_frame_buffer_def Let_def split: if_splits prod.splits option.splits)
qed

lemma release_frame_buffer_wf:
  assumes wf: "chan_wf K c" and h: "frame_held c a" and g: "processor_release_frame_buffer V c port flag a = (r, c')"
  shows "chan_wf K c'"
proof -
  let ?c = "c\<lparr>last_frame_info_0 := LAST_FRAME_FLAG_NULL\<rparr>"
  have "chan_wf K ?c" using wf by (rule iffD1 [OF chan_wf_cong, rotated -1]) simp_all
  moreover have "frame_held ?c a" using h by (simp add: frame_held_def split: option.splits)
  ultimately show ?thesis using g wf release_frame_wf [OF wf h] release_frame_wf [of K ?c a]
    by (auto simp: processor_release_frame_buffer_def split: if_splits)
qed

lemma report_new_frame_wf:
  assumes wf: "chan_wf K c" and ok: "event_ok G c (VPSS_EVENT_NEW_FRAME port f)"
    and r: "processor_report_new_frame E G V c w port f = Some (r, c', w')"
  shows "chan_wf K c'"
proof -
  obtain r1 c1 where r1: "processor_report_frame G c f = (r1, c1)" by (cases "processor_report_frame G c f")
  have c1: "chan_wf K c1" using report_frame_wf [OF wf _ r1] ok by (simp add: event_ok_def)
  have c2: "chan_wf K c2" if "processor_report_frame G c1 (f\<lparr>stBufAddr_0 := stBufAddr_1 f\<rparr>) = (r2, c2)"
    "eFrmType f \<noteq> HI_DRV_FT_NOT_STEREO" for r2 c2
    using that ok r1 by (intro report_frame_wf [OF c1]) (auto simp: event_ok_def)
  show ?thesis using r r1 c1 c2 wf noted_wf
    by (auto simp: processor_report_new_frame_def Let_def split: if_splits prod.splits option.splits)
qed

lemma processor_event_wf:
  assumes "chan_wf K c" "event_ok G c ev" "processor_event E G V c w ev = Some (r, out, c', w')"
  shows "chan_wf K c'"
proof (cases ev)
  case (VPSS_EVENT_GET_FRMBUFFER f)
  then show ?thesis using assms get_frame_buffer_wf by (auto simp: processor_event_def split: prod.splits)
next
  case (VPSS_EVENT_REL_FRMBUFFER port flag a)
  then show ?thesis using assms release_frame_buffer_wf
    by (auto simp: processor_event_def event_ok_def split: prod.splits)
next
  case (VPSS_EVENT_NEW_FRAME port f)
  then show ?thesis using assms report_new_frame_wf by (auto simp: processor_event_def)
qed (use assms in \<open>simp_all add: processor_event_def\<close>)

end
