(* ===== verification/Omx_Channel.thy ===== *)
theory Omx_Channel
  imports Omx_Processor
begin

text \<open>
  The channel of the OMX video decoder driver, \<open>channel.c\<close>: buffers bound by the user
  side, streams and frames handed in, flush, start, stop, pause and resume, and the creation
  and release of channels. The tables and queues are those of \<open>Omx_Buffers\<close>.

  A buffer of one table that is linked into the queue of the other (a user may pass the wrong
  direction with a stream or a frame) is outside the model: the outcome is \<open>None\<close>, as
  for a node linked twice.
\<close>

section \<open>Buffers of the user side\<close>

definition channel_map_kernel_viraddr ::
  "env \<Rightarrow> vpss_platform \<Rightarrow> OMXVDEC_BUF_DESC \<Rightarrow> world \<Rightarrow> u32 option \<times> world" where
  "channel_map_kernel_viraddr E V d w =
     (if buffer_type d = OMX_USE_NATIVE then (Some (kernel_va V (phyaddr d)), w)
      else case ext_out E (MMZ_MAP (phyaddr d)) w of (r, ws, w1) \<Rightarrow>
        if r \<noteq> HI_SUCCESS then (None, w1) else (Some (word_at ws 0), w1))"

definition channel_unmap_kernel_viraddr :: "env \<Rightarrow> OMXVDEC_BUF_S \<Rightarrow> world \<Rightarrow> world" where
  "channel_unmap_kernel_viraddr E b w = ext_do E (MMZ_UNMAP (phy_addr b) (kern_vaddr b)) w"

definition side_insert ::
  "env \<Rightarrow> vpss_platform \<Rightarrow> port \<Rightarrow> OMXVDEC_BUF_DESC \<Rightarrow> world \<Rightarrow> hi_ret \<times> port \<times> world" where
  "side_insert E V p d w =
     (if port_full p then (HI_FAILURE, p, w)
      else if port_find p (phyaddr d) \<noteq> None then (HI_FAILURE, p, w)
      else case channel_map_kernel_viraddr E V d w of
          (None, w1) \<Rightarrow> (HI_FAILURE, p, w1)
        | (Some kaddr, w1) \<Rightarrow> (HI_SUCCESS, port_insert p d kaddr, w1))"

definition channel_insert_addr_table ::
  "env \<Rightarrow> vpss_platform \<Rightarrow> OMXVDEC_CHAN_CTX \<Rightarrow> OMXVDEC_BUF_DESC \<Rightarrow> world \<Rightarrow> hi_ret \<times> OMXVDEC_CHAN_CTX \<times> world" where
  "channel_insert_addr_table E V c d w =
     (case dir d of
        PORT_DIR_INPUT \<Rightarrow> (let (r, p, w1) = side_insert E V (in_port c) d w in (r, c\<lparr>in_port := p\<rparr>, w1))
      | PORT_DIR_OUTPUT \<Rightarrow>
          (let (r, p, w1) = side_insert E V (out_port c) d w in
           (r, if r = HI_SUCCESS
               then c\<lparr>out_port := p,
                      bStorePrivateData := \<not> (private_phyaddr d = 0xffffffff \<or> private_phyaddr d = 0)\<rparr>
               else c, w1))
      | _ \<Rightarrow> (HI_FAILURE, c, w))"

definition side_delete :: "env \<Rightarrow> port \<Rightarrow> OMXVDEC_BUF_DESC \<Rightarrow> world \<Rightarrow> (hi_ret \<times> port \<times> world) option" where
  "side_delete E p d w =
     (case port_find p (phyaddr d) of None \<Rightarrow> Some (HI_FAILURE, p, w)
      | Some i \<Rightarrow>
          map_option (\<lambda>p'. (HI_SUCCESS, p',
              if buffer_type d \<noteq> OMX_ALLOCATE_DRIVER then channel_unmap_kernel_viraddr E (port_buf p i) w else w))
            (port_delete p i))"

definition channel_delete_addr_table ::
  "env \<Rightarrow> OMXVDEC_CHAN_CTX \<Rightarrow> OMXVDEC_BUF_DESC \<Rightarrow> world \<Rightarrow> (hi_ret \<times> OMXVDEC_CHAN_CTX \<times> world) option" where
  "channel_delete_addr_table E c d w =
     (case dir d of
        PORT_DIR_INPUT \<Rightarrow> map_option (\<lambda>(r, p, w1). (r, c\<lparr>in_port := p\<rparr>, w1)) (side_delete E (in_port c) d w)
      | PORT_DIR_OUTPUT \<Rightarrow> map_option (\<lambda>(r, p, w1). (r, c\<lparr>out_port := p\<rparr>, w1)) (side_delete E (out_port c) d w)
      | _ \<Rightarrow> Some (HI_FAILURE, c, w))"

definition channel_bind_user_buffer ::
  "env \<Rightarrow> vpss_platform \<Rightarrow> OMXVDEC_CHAN_CTX \<Rightarrow> OMXVDEC_BUF_DESC \<Rightarrow> world \<Rightarrow> hi_ret \<times> OMXVDEC_CHAN_CTX \<times> world" where
  "channel_bind_user_buffer E V c d w =
     (if phyaddr d = 0 then (HI_FAILURE, c, w)
      else case channel_insert_addr_table E V c d w of (r, c1, w1) \<Rightarrow>
        if r \<noteq> HI_SUCCESS then (HI_FAILURE, c1, w1)
        else (HI_SUCCESS, c1\<lparr>out_stride := stride (out_frame d)\<rparr>, w1))"

definition channel_unbind_user_buffer ::
  "env \<Rightarrow> OMXVDEC_CHAN_CTX \<Rightarrow> OMXVDEC_BUF_DESC \<Rightarrow> world \<Rightarrow> (hi_ret \<times> OMXVDEC_CHAN_CTX \<times> world) option" where
  "channel_unbind_user_buffer E c d w =
     (if phyaddr d = 0 then Some (HI_FAILURE, c, w) else channel_delete_addr_table E c d w)"

section \<open>Streams and frames of the user side\<close>

text \<open>
  \<open>channel_lookup_addr_table\<close> for a stream: the outer \<open>None\<close> is a buffer of the output
  table.
\<close>

definition lookup_stream :: "OMXVDEC_CHAN_CTX \<Rightarrow> OMXVDEC_BUF_DESC \<Rightarrow> (nat \<times> OMXVDEC_CHAN_CTX) option option" where
  "lookup_stream c d =
     (case dir d of
        PORT_DIR_INPUT \<Rightarrow> Some (map_option (\<lambda>(i, p). (i, c\<lparr>in_port := p\<rparr>)) (port_lookup (in_port c) d))
      | PORT_DIR_OUTPUT \<Rightarrow> (if port_lookup (out_port c) d = None then Some None else None)
      | _ \<Rightarrow> Some None)"

definition lookup_frame :: "OMXVDEC_CHAN_CTX \<Rightarrow> OMXVDEC_BUF_DESC \<Rightarrow> (nat \<times> OMXVDEC_CHAN_CTX) option option" where
  "lookup_frame c d =
     (case dir d of
        PORT_DIR_OUTPUT \<Rightarrow> Some (map_option (\<lambda>(i, p). (i, c\<lparr>out_port := p\<rparr>)) (port_lookup (out_port c) d))
      | PORT_DIR_INPUT \<Rightarrow> (if port_lookup (in_port c) d = None then Some None else None)
      | _ \<Rightarrow> Some None)"

definition channel_insert_in_raw_list :: "OMXVDEC_CHAN_CTX \<Rightarrow> nat \<Rightarrow> (hi_ret \<times> OMXVDEC_CHAN_CTX) option" where
  "channel_insert_in_raw_list c i =
     map_option (\<lambda>(r, p). (r, c\<lparr>in_port := p\<rparr>)) (port_enqueue (in_port c) i)"

definition channel_insert_in_yuv_list :: "OMXVDEC_CHAN_CTX \<Rightarrow> nat \<Rightarrow> (hi_ret \<times> OMXVDEC_CHAN_CTX) option" where
  "channel_insert_in_yuv_list c i =
     map_option (\<lambda>(r, p). (r, c\<lparr>out_port := p\<rparr>)) (port_enqueue (out_port c) i)"

definition channel_save_stream ::
  "env \<Rightarrow> globals \<Rightarrow> OMXVDEC_CHAN_CTX \<Rightarrow> OMXVDEC_BUF_S \<Rightarrow> world \<Rightarrow> OMXVDEC_CHAN_CTX \<times> world" where
  "channel_save_stream E G c b w =
     (let (c1, w1) =
            (if g_SaveRawEnable G \<and> \<not> raw_file c
             then (let (r, w1) = ext E (RAW_OPEN (channel_id c)) w in (c\<lparr>raw_file := (r = HI_SUCCESS)\<rparr>, w1))
             else if \<not> g_SaveRawEnable G \<and> raw_file c
             then (c\<lparr>raw_file := False\<rparr>, ext_do E RAW_CLOSE w)
             else (c, w))
      in (c1, if raw_file c1 then ext_do E (RAW_WRITE (kern_vaddr b) (act_len b)) w1 else w1))"

text \<open>The user tag of a stream in low-delay mode.\<close>

definition tag_stream ::
  "env \<Rightarrow> globals \<Rightarrow> OMXVDEC_CHAN_CTX \<Rightarrow> nat \<Rightarrow> world \<Rightarrow> (OMXVDEC_CHAN_CTX \<times> world) option" where
  "tag_stream E G c i w =
     (case omx_vdec_lowdelay_proc_rec c of None \<Rightarrow> Some (c, w)
      | Some R \<Rightarrow>
          if lowdelay_on G c then
            lowdelay_note E G
              (c\<lparr>in_port := port_put (in_port c) i ((port_buf (in_port c) i)\<lparr>usr_tag := current_tag R\<rparr>),
                 omx_vdec_lowdelay_proc_rec := Some (R\<lparr>current_tag := current_tag R + interval R\<rparr>)\<rparr>)
              w (current_tag R) OMX_LOWDELAY_REC_ETB_TIME
          else Some (c, w))"

definition empty_data ::
  "env \<Rightarrow> globals \<Rightarrow> OMXVDEC_CHAN_CTX \<Rightarrow> OMXVDEC_BUF_DESC \<Rightarrow> world \<Rightarrow>
   (hi_ret \<times> OMXVDEC_CHAN_CTX \<times> world) option" where
  "empty_data E G c d w =
     (let refuse = (\<lambda>c w. Some (HI_FAILURE,
            message_queue c VDEC_MSG_RESP_INPUT_DONE VDEC_ERR_ILLEGAL_OP (BUF_DATA d), w)) in
      case lookup_stream c d of None \<Rightarrow> None
      | Some None \<Rightarrow> refuse c w
      | Some (Some (i, c1)) \<Rightarrow>
          (let c2 = c1\<lparr>in_port := port_put (in_port c1) i ((port_buf (in_port c1) i)
                 \<lparr>act_len := data_len d, offset := data_offset d, time_stamp := timestamp d, flags := d_flags d\<rparr>)\<rparr> in
           case tag_stream E G c2 i w of None \<Rightarrow> None
           | Some (c3, w3) \<Rightarrow>
               (case channel_insert_in_raw_list c3 i of None \<Rightarrow> None
                | Some (r, c4) \<Rightarrow>
                    if r \<noteq> HI_SUCCESS then refuse c4 w3
                    else Some (HI_SUCCESS, channel_save_stream E G c4 (port_buf (in_port c4) i) w3))))"

definition channel_add_last_frame :: "platform \<Rightarrow> OMXVDEC_BUF_S \<Rightarrow> OMXVDEC_BUF_S" where
  "channel_add_last_frame K b =
     b\<lparr>act_len := buf_len b, offset := 0, flags := VDEC_BUFFERFLAG_ENDOFFRAME,
       time_stamp := ucast (HI_INVALID_PTS K), buf_id := LAST_FRAME_BUF_ID K\<rparr>"

definition empty_eos :: "platform \<Rightarrow> OMXVDEC_CHAN_CTX \<Rightarrow> OMXVDEC_CHAN_CTX option" where
  "empty_eos K c =
     map_option (\<lambda>c. c\<lparr>eos_recv_flag := \<not> eos_recv_flag c\<rparr>)
       (if \<not> eos_in_list c then
          map_option (\<lambda>p. c\<lparr>in_port := p, eos_in_list := True\<rparr>)
            (list_add_tail (port_put (in_port c) (last_slot c)
               ((channel_add_last_frame K (last_frame c))\<lparr>status := BUF_STATE_QUEUED\<rparr>)) (last_slot c))
        else Some c)"

definition channel_empty_this_stream ::
  "env \<Rightarrow> globals \<Rightarrow> platform \<Rightarrow> OMXVDEC_CHAN_CTX \<Rightarrow> OMXVDEC_BUF_DESC \<Rightarrow> world \<Rightarrow>
   (hi_ret \<times> OMXVDEC_CHAN_CTX \<times> world) option" where
  "channel_empty_this_stream E G K c d w =
     (case (if data_len d \<noteq> 0 then empty_data E G c d w else Some (HI_SUCCESS, c, w)) of None \<Rightarrow> None
      | Some (r, c1, w1) \<Rightarrow>
          if r \<noteq> HI_SUCCESS then Some (HI_FAILURE, c1, w1) else
          (case (if d_flags d AND VDEC_BUFFERFLAG_EOS \<noteq> 0 then empty_eos K c1 else Some c1) of None \<Rightarrow> None
           | Some c2 \<Rightarrow>
               (let c3 = (if data_len d = 0
                          then message_queue c2 VDEC_MSG_RESP_INPUT_DONE VDEC_S_SUCCESS (BUF_DATA d) else c2) in
                Some (HI_SUCCESS, c3,
                  if lowdelay_true G c3
                  then ext_do E (VFMW_CONTROL (decoder_id c3) VDEC_CID_EXTRA_WAKEUP_THREAD []) w1 else w1))))"

definition channel_fill_this_frame ::
  "OMXVDEC_CHAN_CTX \<Rightarrow> OMXVDEC_BUF_DESC \<Rightarrow> (hi_ret \<times> OMXVDEC_CHAN_CTX) option" where
  "channel_fill_this_frame c d =
     (let refuse = (\<lambda>c. Some (HI_FAILURE,
            message_queue c VDEC_MSG_RESP_OUTPUT_DONE VDEC_ERR_ILLEGAL_OP (BUF_DATA d))) in
      case lookup_frame c d of None \<Rightarrow> None
      | Some None \<Rightarrow> refuse c
      | Some (Some (i, c1)) \<Rightarrow>
          (let c2 = c1\<lparr>out_port := port_put (out_port c1) i ((port_buf (out_port c1) i)
                 \<lparr>offset := data_offset d, act_len := 0\<rparr>)\<rparr> in
           case channel_insert_in_yuv_list c2 i of None \<Rightarrow> None
           | Some (r, c3) \<Rightarrow> if r \<noteq> HI_SUCCESS then refuse c3 else Some (HI_SUCCESS, c3)))"

section \<open>Flushing\<close>

definition clear_stream :: "platform \<Rightarrow> OMXVDEC_BUF_S \<Rightarrow> OMXVDEC_BUF_S" where
  "clear_stream K b =
     (if buf_id b \<noteq> LAST_FRAME_BUF_ID K then b\<lparr>status := BUF_STATE_IDLE, act_len := 0\<rparr>
      else b\<lparr>status := BUF_STATE_IDLE\<rparr>)"

definition flushed_stream :: "OMXVDEC_BUF_S \<Rightarrow> OMXVDEC_BUF_DESC" where
  "flushed_stream b = zero_desc\<lparr>dir := PORT_DIR_INPUT, bufferaddr := user_vaddr b,
     buffer_len := buf_len b, d_client_data := client_data b, data_len := 0, timestamp := 0\<rparr>"

definition input_done :: "OMXVDEC_BUF_DESC \<Rightarrow> msg" where
  "input_done d = Msg VDEC_MSG_RESP_INPUT_DONE VDEC_S_SUCCESS (BUF_DATA d)"

definition output_done :: "OMXVDEC_BUF_DESC \<Rightarrow> msg" where
  "output_done d = Msg VDEC_MSG_RESP_OUTPUT_DONE VDEC_S_SUCCESS (BUF_DATA d)"

definition channel_flush_in_port ::
  "env \<Rightarrow> platform \<Rightarrow> OMXVDEC_CHAN_CTX \<Rightarrow> world \<Rightarrow> hi_ret \<times> OMXVDEC_CHAN_CTX \<times> world" where
  "channel_flush_in_port E K c w =
     (let (out, p) = port_flush (clear_stream K) (in_port c);
          is_last = (\<lambda>q. buf_id (port_buf (in_port c) q) = LAST_FRAME_BUF_ID K);
          c1 = c\<lparr>in_port := p,
                 eos_in_list := (eos_in_list c \<and> \<not> list_ex is_last out),
                 msgs := msgs c @ map (\<lambda>q. input_done (flushed_stream (port_buf (in_port c) q)))
                                    (filter (\<lambda>q. \<not> is_last q) out)\<rparr>;
          c2 = (if use_cnt (in_port c1) > 0 then c1\<lparr>in_port := (in_port c1)\<lparr>flush_pending := True\<rparr>\<rparr>
                else message_queue c1 VDEC_MSG_RESP_FLUSH_INPUT_DONE VDEC_S_SUCCESS NO_DATA)
      in (HI_SUCCESS, c2,
          if flush_pending (in_port c2) then snd (decoder_command_handler E DEC_CMD_CLEAR_STREAM [] c2 w) else w))"

definition channel_reset_inst ::
  "env \<Rightarrow> platform \<Rightarrow> OMXVDEC_CHAN_CTX \<Rightarrow> world \<Rightarrow> hi_ret \<times> OMXVDEC_CHAN_CTX \<times> world" where
  "channel_reset_inst E K c w =
     (let c1 = c\<lparr>reset_pending := True\<rparr>;
          (_, w1) = processor_reset_inst E c1 w;
          (r, w2) = decoder_reset_inst_with_option E c1 w1;
          w3 = w2\<lparr>pts_table := snd (OMX_PTSREC_Reset K (pts_table w2) (channel_id c1))\<rparr>
      in (r, c1\<lparr>reset_pending := False\<rparr>, w3))"

definition flush_frames :: "OMXVDEC_CHAN_CTX \<Rightarrow> OMXVDEC_CHAN_CTX" where
  "flush_frames c =
     (let (out, p) = port_flush (\<lambda>b. b\<lparr>status := BUF_STATE_IDLE\<rparr>) (out_port c);
          c1 = c\<lparr>out_port := p,
                 msgs := msgs c @ map (\<lambda>q. output_done (returned_frame (port_buf (out_port c) q))) out\<rparr>
      in if use_cnt (out_port c1) > 0 then c1\<lparr>out_port := (out_port c1)\<lparr>flush_pending := True\<rparr>\<rparr>
         else message_queue c1 VDEC_MSG_RESP_FLUSH_OUTPUT_DONE VDEC_S_SUCCESS NO_DATA)"

definition channel_flush_out_port ::
  "env \<Rightarrow> platform \<Rightarrow> OMXVDEC_CHAN_CTX \<Rightarrow> world \<Rightarrow> hi_ret \<times> OMXVDEC_CHAN_CTX \<times> world" where
  "channel_flush_out_port E K c w =
     (let (c1, w1) = (if recfg_flag c then (c\<lparr>recfg_flag := False\<rparr>, w)
                      else let (_, c', w') = channel_reset_inst E K c w in (c'\<lparr>seek_pending := True\<rparr>, w'))
      in (HI_SUCCESS, flush_frames c1, w1))"

definition channel_flush_inst ::
  "env \<Rightarrow> platform \<Rightarrow> OMXVDEC_CHAN_CTX \<Rightarrow> ePORT_DIR \<Rightarrow> world \<Rightarrow> hi_ret \<times> OMXVDEC_CHAN_CTX \<times> world" where
  "channel_flush_inst E K c pdir w =
     (let (ret_in, c1, w1) = (if pdir = PORT_DIR_INPUT \<or> pdir = PORT_DIR_BOTH
                              then channel_flush_in_port E K c w else (HI_SUCCESS, c, w));
          (ret_out, c2, w2) = (if pdir = PORT_DIR_OUTPUT \<or> pdir = PORT_DIR_BOTH
                               then channel_flush_out_port E K c1 w1 else (HI_SUCCESS, c1, w1))
      in (ret_or ret_in ret_out, c2, w2))"

section \<open>Start, stop, pause, resume\<close>

definition lowdelay_restart :: "globals \<Rightarrow> OMXVDEC_CHAN_CTX \<Rightarrow> OMXVDEC_CHAN_CTX" where
  "lowdelay_restart G c =
     (if lowdelay_on G c
      then c\<lparr>omx_vdec_lowdelay_proc_rec := map_option (\<lambda>R. R\<lparr>current_tag := usrtag_start_time R + interval R,
               time_cost_sum := 0, average_time_cost := 0, rec_index := 0,
               time_record := replicate 11 (replicate 9 0)\<rparr>) (omx_vdec_lowdelay_proc_rec c)\<rparr>
      else c)"

definition channel_start_inst ::
  "env \<Rightarrow> globals \<Rightarrow> platform \<Rightarrow> OMXVDEC_CHAN_CTX \<Rightarrow> world \<Rightarrow> hi_ret \<times> OMXVDEC_CHAN_CTX \<times> world" where
  "channel_start_inst E G K c w =
     (let post = (\<lambda>c st. message_queue c VDEC_MSG_RESP_START_DONE st NO_DATA) in
      if state c = CHAN_STATE_WORK then (HI_FAILURE, post c VDEC_S_FAILED, w) else
      let c1 = lowdelay_restart G c in
      case decoder_start_inst E c1 w of (r1, w1) \<Rightarrow>
      if r1 \<noteq> HI_SUCCESS then (r1, post c1 VDEC_S_FAILED, w1) else
      case processor_start_inst E c1 w1 of (r2, w2) \<Rightarrow>
      if r2 \<noteq> HI_SUCCESS
      then (case decoder_stop_inst E c1 w2 of (r3, w3) \<Rightarrow> (r3, post c1 VDEC_S_FAILED, w3))
      else (r2, post (c1\<lparr>state := CHAN_STATE_WORK\<rparr>) VDEC_S_SUCCESS,
            w2\<lparr>pts_table := snd (OMX_PTSREC_Start K (pts_table w2) (channel_id c1))\<rparr>))"

definition channel_stop_inst :: "env \<Rightarrow> OMXVDEC_CHAN_CTX \<Rightarrow> world \<Rightarrow> hi_ret \<times> OMXVDEC_CHAN_CTX \<times> world" where
  "channel_stop_inst E c w =
     (let post = (\<lambda>c st. message_queue c VDEC_MSG_RESP_STOP_DONE st NO_DATA) in
      if state c = CHAN_STATE_IDLE then (HI_FAILURE, post c VDEC_ERR_BAD_STATE, w)
      else
        (let c1 = c\<lparr>state := CHAN_STATE_IDLE\<rparr>;
             (r1, w1) = decoder_stop_inst E c1 w;
             (r2, w2) = processor_stop_inst E c1 w1;
             st = (if r1 = HI_SUCCESS \<and> r2 = HI_SUCCESS then VDEC_S_SUCCESS else VDEC_ERR_HW_FATAL)
         in (HI_SUCCESS, post c1 st,
             w2\<lparr>pts_table := snd (OMX_PTSREC_Stop (pts_table w2) (channel_id c1))\<rparr>)))"

definition channel_pause_inst :: "OMXVDEC_CHAN_CTX \<Rightarrow> hi_ret \<times> OMXVDEC_CHAN_CTX" where
  "channel_pause_inst c =
     (if state c \<noteq> CHAN_STATE_WORK
      then (HI_FAILURE, message_queue c VDEC_MSG_RESP_PAUSE_DONE VDEC_ERR_BAD_STATE NO_DATA)
      else if use_cnt (out_port c) = 0
      then (HI_SUCCESS, message_queue (c\<lparr>state := CHAN_STATE_PAUSE\<rparr>) VDEC_MSG_RESP_PAUSE_DONE VDEC_S_SUCCESS NO_DATA)
      else (HI_SUCCESS, c\<lparr>state := CHAN_STATE_PAUSE, pause_pending := True\<rparr>))"

definition channel_resume_inst :: "OMXVDEC_CHAN_CTX \<Rightarrow> hi_ret \<times> OMXVDEC_CHAN_CTX" where
  "channel_resume_inst c =
     (if state c \<noteq> CHAN_STATE_PAUSE
      then (HI_FAILURE, message_queue c VDEC_MSG_RESP_RESUME_DONE VDEC_ERR_BAD_STATE NO_DATA)
      else (HI_SUCCESS, message_queue (c\<lparr>pause_pending := False, state := CHAN_STATE_WORK\<rparr>)
              VDEC_MSG_RESP_RESUME_DONE VDEC_S_SUCCESS NO_DATA))"

section \<open>Creating and releasing channels\<close>

text \<open>
  The loop that looks for a channel number: as long as some channel has the candidate, the
  next number is tried. With all numbers taken it would not end.
\<close>

partial_function (option) free_channel_id :: "u32 list \<Rightarrow> u32 \<Rightarrow> u32 option" where
  "free_channel_id ids k = (if k \<in> set ids then free_channel_id ids (k + 1) else Some k)"

definition channel_add_chan_record :: "driver \<Rightarrow> OMXVDEC_CHAN_CTX \<Rightarrow> (nat \<times> driver) option" where
  "channel_add_chan_record d c =
     map_option (\<lambda>k. (length (chan_list d),
         d\<lparr>chan_list := chan_list d @ [c\<lparr>channel_id := k\<rparr>], total_chan_num := total_chan_num d + 1\<rparr>))
       (free_channel_id (map channel_id (chan_list d)) 0)"

text \<open>\<open>list_del\<close> of the channel at a position of the list.\<close>

definition channel_delete_chan_record :: "driver \<Rightarrow> nat \<Rightarrow> driver" where
  "channel_delete_chan_record d i =
     d\<lparr>chan_list := take i (chan_list d) @ drop (Suc i) (chan_list d), total_chan_num := total_chan_num d - 1\<rparr>"

definition channel_init :: "env \<Rightarrow> world \<Rightarrow> hi_ret \<times> world" where
  "channel_init E w =
     (case decoder_init E w of (r1, w1) \<Rightarrow>
      if r1 \<noteq> HI_SUCCESS then (HI_FAILURE, w1) else
      case processor_init E w1 of (r2, w2) \<Rightarrow>
      if r2 \<noteq> HI_SUCCESS then (HI_FAILURE, snd (decoder_exit E w2)) else (HI_SUCCESS, w2))"

definition channel_exit :: "env \<Rightarrow> world \<Rightarrow> world" where
  "channel_exit E w = snd (processor_exit E (snd (decoder_exit E w)))"

definition zero_port :: port where
  "zero_port = \<lparr>bufs = [], buf_num = 0, max_buf_num = 0, queue = [], use_cnt = 0, flush_pending = False\<rparr>"

text \<open>A context as \<open>kzalloc\<close> returns it.\<close>

definition zero_chan :: OMXVDEC_CHAN_CTX where
  "zero_chan = \<lparr>channel_id = 0, decoder_id = 0, processor_id = 0, port_id = 0, m_use_native_buf = False,
     out_width = 0, out_height = 0, out_stride = 0, protocol = STD_OTHER 0, bReversed = 0,
     bStorePrivateData = False, ref_frame_num = 0, ref_frame_size = 0, dfs_delay_time = 0,
     in_port = zero_port, out_port = zero_port, pause_pending = False, eos_in_list = False,
     eos_recv_flag = False, eof_send_flag = False, recfg_flag = False, reset_pending = False,
     seek_pending = False, progress = False, file_dec = 0, last_frame_processor_got = 0,
     last_frame_image_id = 0, last_frame_info_0 = 0, last_frame_info_1 = 0, bLowdelay = 0,
     color_format = OMX_PIX_FMT_NV12, state = CHAN_STATE_INVALID, dfs_alloc_flag = DFS_INIT,
     eSCDMemAlloc = ALLOC_BY_MMZ, eVDHMemAlloc = ALLOC_BY_MMZ, eEXTRAMemAlloc = ALLOC_BY_MMZ,
     channel_extra_buf = zero_mmz, decoder_scd_buf = zero_mmz, decoder_vdh_buf = zero_mmz,
     raw_file = False, omx_chan_statinfo = \<lparr>DecoderIn = 0, DecoderOut = 0, ProcessorIn = 0, ProcessorOut = 0\<rparr>,
     omx_vdec_lowdelay_proc_rec = None, msgs = []\<rparr>"

definition zero_rec :: OMXVDEC_LOWDELAY_PROC_RECORD where
  "zero_rec = \<lparr>usrtag_start_time = 0, interval = 0, current_tag = 0, time_record = replicate 11 (replicate 9 0),
     time_cost_sum = 0, average_time_cost = 0, rec_index = 0\<rparr>"

definition table_size :: "platform \<Rightarrow> vpss_platform \<Rightarrow> OMXVDEC_DRV_CFG \<Rightarrow> u32" where
  "table_size K V cfg = LAST_FRAME_BUF_SIZE K + 16 + (cfg_inbuf_num cfg + cfg_outbuf_num cfg) * sizeof_buf V"

text \<open>
  The tables in the memory that was allocated, whose contents \<open>mem\<close> are not cleared. The
  last frame is at its start.
\<close>

definition channel_tables ::
  "platform \<Rightarrow> (nat \<Rightarrow> OMXVDEC_BUF_S) \<Rightarrow> OMXVDEC_DRV_CFG \<Rightarrow> MMZ_BUFFER_S \<Rightarrow> OMXVDEC_CHAN_CTX \<Rightarrow> OMXVDEC_CHAN_CTX" where
  "channel_tables K mem cfg b c =
     (let n = unat (cfg_inbuf_num cfg); m = unat (cfg_outbuf_num cfg);
          last = zero_buf\<lparr>phy_addr := u32StartPhyAddr b, kern_vaddr := u32StartVirAddr b,
                          buf_len := LAST_FRAME_BUF_SIZE K, u32FrameRate := 30000\<rparr> in
      c\<lparr>channel_extra_buf := b, eEXTRAMemAlloc := ALLOC_BY_MMZ,
        in_port := zero_port\<lparr>bufs := map mem [0..<n] @ [last], max_buf_num := n\<rparr>,
        out_port := zero_port\<lparr>bufs := map mem [n..<n + m], max_buf_num := m\<rparr>\<rparr>)"

definition channel_lowdelay_record ::
  "env \<Rightarrow> globals \<Rightarrow> OMXVDEC_CHAN_CTX \<Rightarrow> world \<Rightarrow> OMXVDEC_CHAN_CTX \<times> world" where
  "channel_lowdelay_record E G c w =
     (if lowdelay_on G c then
        (case ext E KZALLOC w of (r, w1) \<Rightarrow>
         if r \<noteq> HI_SUCCESS then (c\<lparr>omx_vdec_lowdelay_proc_rec := None\<rparr>, w1)
         else let (t1, w2) = OMX_GetTimeInMs E w1; (t2, w3) = OMX_GetTimeInMs E w2 in
              (c\<lparr>omx_vdec_lowdelay_proc_rec :=
                   Some (zero_rec\<lparr>usrtag_start_time := t1 AND 0xFF, interval := (t2 AND 0xF) + 1\<rparr>)\<rparr>, w3))
      else (c\<lparr>omx_vdec_lowdelay_proc_rec := None\<rparr>, w))"

text \<open>
  The parts of a channel after it got its number: message queue, decoder, processor and
  memory, each failure undoing the earlier ones (labels \<open>cleanup1\<close> to \<open>cleanup4\<close>). The
  result is the finished context or \<open>None\<close>, and the world.
\<close>

definition channel_build ::
  "env \<Rightarrow> globals \<Rightarrow> platform \<Rightarrow> vpss_platform \<Rightarrow> (nat \<Rightarrow> OMXVDEC_BUF_S) \<Rightarrow> OMXVDEC_DRV_CFG \<Rightarrow>
   OMXVDEC_CHAN_CTX \<Rightarrow> world \<Rightarrow> OMXVDEC_CHAN_CTX option \<times> world" where
  "channel_build E G K V mem cfg c0 w0 =
     (case ext E MSG_QUEUE_INIT w0 of (r1, w1) \<Rightarrow>
      if r1 \<noteq> HI_SUCCESS then (None, w1) else
      let c1 = c0\<lparr>bLowdelay := s32LowdlyEnable (chan_cfg cfg), m_use_native_buf := cfg_m_use_native_buf cfg,
                  out_width := cfg_width cfg, out_height := cfg_height cfg, out_stride := cfg_stride cfg\<rparr> in
      case decoder_create_inst E G (HI_ID_VDEC V) (chan_cfg cfg) c1 w1 of (r2, c2, w2) \<Rightarrow>
      if r2 \<noteq> HI_SUCCESS then (None, ext_do E MSG_QUEUE_DEINIT w2) else
      case processor_create_inst E G V (cfg_color_format cfg) c2 w2 of (r3, c3, w3) \<Rightarrow>
      if r3 \<noteq> HI_SUCCESS
      then (None, ext_do E MSG_QUEUE_DEINIT (snd (snd (decoder_release_inst E c3 w3)))) else
      case ext_out E (MMZ_ALLOC_MAP (table_size K V cfg)) w3 of (r4, ws, w4) \<Rightarrow>
      if r4 \<noteq> HI_SUCCESS
      then (case processor_release_inst E V c3 w4 of (_, c5, w5) \<Rightarrow>
            (None, ext_do E MSG_QUEUE_DEINIT (snd (snd (decoder_release_inst E c5 w5))))) else
      case channel_lowdelay_record E G (channel_tables K mem cfg (mmz_of ws) c3) w4 of (c4, w5) \<Rightarrow>
      (Some (c4\<lparr>state := CHAN_STATE_IDLE\<rparr>),
       w5\<lparr>pts_table := snd (OMX_PTSREC_Alloc K (pts_table w5) (channel_id c4))\<rparr>))"

text \<open>
  \<open>channel_create_inst\<close> returns the number of the channel or \<open>HI_FAILURE\<close> (\<open>None\<close> in the first
  component); the outer \<open>None\<close> is a search for a number that does not end.
\<close>

definition channel_create_inst ::
  "env \<Rightarrow> platform \<Rightarrow> vpss_platform \<Rightarrow> (nat \<Rightarrow> OMXVDEC_BUF_S) \<Rightarrow> u32 \<Rightarrow> OMXVDEC_DRV_CFG \<Rightarrow> driver \<Rightarrow>
   (u32 option \<times> driver) option" where
  "channel_create_inst E K V mem fd cfg d =
     (case ext E KZALLOC (wld d) of (r, w1) \<Rightarrow>
      if r \<noteq> HI_SUCCESS then Some (None, d\<lparr>wld := w1\<rparr>) else
      case channel_add_chan_record (d\<lparr>wld := w1\<rparr>) (zero_chan\<lparr>file_dec := fd\<rparr>) of None \<Rightarrow> None
      | Some (i, d1) \<Rightarrow>
          (case channel_build E (globs d) K V mem cfg (chan_list d1 ! i) w1 of
             (None, w2) \<Rightarrow> Some (None, (channel_delete_chan_record d1 i)\<lparr>wld := ext_do E KFREE w2\<rparr>)
           | (Some c, w2) \<Rightarrow> Some (Some (channel_id c), put_chan d1 i c w2)))"

text \<open>Unmapping every entry of a table that is not marked invalid, bound or not.\<close>

fun unmap_table :: "env \<Rightarrow> OMXVDEC_BUF_S list \<Rightarrow> world \<Rightarrow> world" where
  "unmap_table E [] w = w"
| "unmap_table E (b # bs) w =
     unmap_table E bs (if status b \<noteq> BUF_STATE_INVALID \<and> buf_type b \<noteq> OMX_ALLOCATE_DRIVER
                       then ext_do E (MMZ_UNMAP (phy_addr b) (kern_vaddr b)) w else w)"

definition release_lowdelay_stats ::
  "env \<Rightarrow> globals \<Rightarrow> vpss_platform \<Rightarrow> OMXVDEC_CHAN_CTX \<Rightarrow> world \<Rightarrow> hi_ret \<times> world" where
  "release_lowdelay_stats E G V c w =
     (if g_LowDelayStatistics G then
        (case ext E (VFMW_CONTROL (decoder_id c) VDEC_CID_STOP_LOWDLAY_CALC [HI_ID_VDEC_HANDLE (HI_ID_VDEC V) c]) w of
           (r, w1) \<Rightarrow> if r \<noteq> HI_SUCCESS then (HI_FAILURE, w1) else (HI_SUCCESS, ext_do E LD_STOP w1))
      else (HI_SUCCESS, w))"

definition channel_teardown ::
  "env \<Rightarrow> globals \<Rightarrow> vpss_platform \<Rightarrow> OMXVDEC_CHAN_CTX \<Rightarrow> world \<Rightarrow> world" where
  "channel_teardown E G V c w =
     (let w1 = (if state c = CHAN_STATE_WORK \<or> state c = CHAN_STATE_PAUSE
                then snd (processor_stop_inst E c (snd (decoder_stop_inst E c w))) else w);
          (_, c2, w2) = processor_release_inst E V c w1;
          (_, c3, w3) = decoder_release_inst E c2 w2;
          w4 = unmap_table E (take (max_buf_num (in_port c)) (bufs (in_port c))) w3;
          w5 = unmap_table E (take (max_buf_num (out_port c)) (bufs (out_port c))) w4;
          w6 = (if raw_file c then ext_do E RAW_CLOSE w5 else w5);
          (_, w7) = omxvdec_release_mem E (channel_extra_buf c) (eEXTRAMemAlloc c) w6;
          w8 = ext_do E MSG_QUEUE_DEINIT w7;
          w9 = w8\<lparr>pts_table := snd (OMX_PTSREC_Free (pts_table w8) (channel_id c))\<rparr>;
          w10 = (if lowdelay_on G c \<and> omx_vdec_lowdelay_proc_rec c \<noteq> None then ext_do E KFREE w9 else w9)
      in ext_do E KFREE w10)"

definition channel_release_inst :: "env \<Rightarrow> vpss_platform \<Rightarrow> driver \<Rightarrow> nat \<Rightarrow> hi_ret \<times> driver" where
  "channel_release_inst E V d i =
     (let c = chan_list d ! i in
      case release_lowdelay_stats E (globs d) V c (wld d) of (r, w) \<Rightarrow>
      if r \<noteq> HI_SUCCESS then (HI_FAILURE, d\<lparr>wld := w\<rparr>)
      else (HI_SUCCESS, (channel_delete_chan_record d i)\<lparr>wld := channel_teardown E (globs d) V c w\<rparr>))"

section \<open>The channel keeps its invariant\<close>

lemma chan_wf_in:
  assumes "chan_wf K c" "port_wf 1 p" "max_buf_num p = max_buf_num (in_port c)"
    "flush_pending p = flush_pending (in_port c)" "use_cnt p = use_cnt (in_port c)"
    "last_slot c \<in> set (queue p) \<longleftrightarrow> last_slot c \<in> set (queue (in_port c))"
    "buf_id (port_buf p (last_slot c)) = buf_id (last_frame c)"
  shows "chan_wf K (c\<lparr>in_port := p\<rparr>)"
  using assms by (simp add: chan_wf_def last_slot_def last_frame_def)

lemma chan_wf_out:
  assumes "chan_wf K c" "port_wf 0 p" "flush_pending p = flush_pending (out_port c)" "use_cnt p = use_cnt (out_port c)"
  shows "chan_wf K (c\<lparr>out_port := p\<rparr>)"
  using assms by (simp add: chan_wf_def last_slot_def last_frame_def)

lemma last_slot_in_port: "max_buf_num p = max_buf_num (in_port c) \<Longrightarrow> last_slot (c\<lparr>in_port := p\<rparr>) = last_slot c"
  by (simp add: last_slot_def)

lemma extra_keys_in: "extra_keys 1 (in_port c) = {phy_addr (last_frame c)}"
  by (simp add: extra_keys_def last_frame_def last_slot_def)

lemma extra_keys_0: "extra_keys 0 p = {}"
  by (simp add: extra_keys_def)

text \<open>A user must not bind the address of the driver's own last-frame buffer.\<close>

definition bind_ok :: "OMXVDEC_CHAN_CTX \<Rightarrow> OMXVDEC_BUF_DESC \<Rightarrow> bool" where
  "bind_ok c d \<longleftrightarrow> dir d = PORT_DIR_INPUT \<longrightarrow> phyaddr d \<noteq> phy_addr (last_frame c)"

lemma side_insert_cases:
  assumes "side_insert E V p d w = (r, p', w')" "port_wf extra p"
  obtains "r = HI_FAILURE" "p' = p"
  | k where "r = HI_SUCCESS" "p' = port_insert p d k" "\<not> port_full p" "phyaddr d \<notin> keys p"
  using assms(1) port_find_keys [OF assms(2), of "phyaddr d"] that
  by (auto simp: side_insert_def split: if_splits prod.splits option.splits)

lemma bind_wf:
  assumes wf: "chan_wf K c" and ok: "bind_ok c d" and b: "channel_bind_user_buffer E V c d w = (r, c', w')"
  shows "chan_wf K c'"
proof -
  note w = chan_wfD [OF wf]
  have i: "chan_wf K (c\<lparr>in_port := p\<rparr>)" if s: "side_insert E V (in_port c) d w = (r', p, w1)" and din: "dir d = PORT_DIR_INPUT" for r' p w1
    using s w(1)
  proof (cases rule: side_insert_cases)
    case 1
    then show ?thesis using wf by simp
  next
    case (2 k)
    have n: "last_slot c \<noteq> buf_num (in_port c)" using 2(3) by (simp add: last_slot_def port_full_def)
    show ?thesis unfolding 2(2)
    proof (rule chan_wf_in [OF wf])
      show "port_wf 1 (port_insert (in_port c) d k)"
        using 2(3,4) ok din extra_keys_in [of c] by (intro port_insert_wf [OF w(1)]) (auto simp: bind_ok_def)
      show "buf_id (port_buf (port_insert (in_port c) d k) (last_slot c)) = buf_id (last_frame c)"
        using n port_insert_buf(1) [OF w(1) 2(3), of d k "last_slot c"] by (simp add: last_frame_def)
    qed (simp_all, simp add: port_insert_def)
  qed
  have o: "chan_wf K (c\<lparr>out_port := p, bStorePrivateData := s\<rparr>)" if "side_insert E V (out_port c) d w = (r', p, w1)" for r' p w1 s
    using that w(2)
  proof (cases rule: side_insert_cases)
    case 1
    then show ?thesis using wf by (elim iffD1 [OF chan_wf_cong, rotated -1]) simp_all
  next
    case (2 k)
    have "chan_wf K (c\<lparr>out_port := p\<rparr>)" unfolding 2(2)
      using 2(3,4) extra_keys_0 by (intro chan_wf_out [OF wf] port_insert_wf [OF w(2)]) (simp_all add: port_insert_def)
    then show ?thesis by (rule iffD1 [OF chan_wf_cong, rotated -1]) simp_all
  qed
  have "chan_wf K c1" if "channel_insert_addr_table E V c d w = (r', c1, w1)" for r' c1 w1
    using that i o wf by (auto simp: channel_insert_addr_table_def split: ePORT_DIR.splits prod.splits if_splits)
  moreover have "chan_wf K (c1\<lparr>out_stride := s\<rparr>) = chan_wf K c1" for c1 s by (rule chan_wf_cong) simp_all
  ultimately show ?thesis using b wf by (auto simp: channel_bind_user_buffer_def split: if_splits prod.splits)
qed

lemma side_delete_wf:
  assumes s: "side_delete E p d w = Some (r, p', w')" and wf: "port_wf extra p"
  shows "port_wf extra p' \<and> max_buf_num p' = max_buf_num p \<and> flush_pending p' = flush_pending p \<and> use_cnt p' = use_cnt p \<and>
    (\<forall>j \<ge> max_buf_num p. (j \<in> set (queue p') \<longleftrightarrow> j \<in> set (queue p)) \<and> port_buf p' j = port_buf p j)"
proof (cases "port_find p (phyaddr d)")
  case None
  then show ?thesis using s wf by (simp add: side_delete_def)
next
  case (Some i)
  have i: "i < buf_num p" using Some port_find_Some [OF wf] by blast
  have q: "i \<notin> set (queue p)"
    using s Some port_delete_undefined by (auto simp: side_delete_def)
  have p': "p' = port_deleted p i" using s Some port_delete_eq [OF wf i q] by (auto simp: side_delete_def)
  have "(j \<in> set (queue p') \<longleftrightarrow> j \<in> set (queue p)) \<and> port_buf p' j = port_buf p j" if "max_buf_num p \<le> j" for j
    using that i port_wfD(2) [OF wf] port_deleted_queue(2) [OF wf i q] port_deleted_buf [OF wf i, of j] by (auto simp: p')
  then show ?thesis using port_deleted_wf [OF wf i q] by (simp add: p')
qed

lemma unbind_wf:
  assumes wf: "chan_wf K c" and u: "channel_unbind_user_buffer E c d w = Some (r, c', w')"
  shows "chan_wf K c'"
proof -
  note w = chan_wfD [OF wf]
  have i: "chan_wf K (c\<lparr>in_port := p\<rparr>)" if "side_delete E (in_port c) d w = Some (r', p, w1)" for r' p w1
    using side_delete_wf [OF that w(1)] by (intro chan_wf_in [OF wf]) (simp_all add: last_slot_def last_frame_def)
  have o: "chan_wf K (c\<lparr>out_port := p\<rparr>)" if "side_delete E (out_port c) d w = Some (r', p, w1)" for r' p w1
    using side_delete_wf [OF that w(2)] by (intro chan_wf_out [OF wf]) simp_all
  show ?thesis using u wf i o
    by (auto simp: channel_unbind_user_buffer_def channel_delete_addr_table_def split: if_splits ePORT_DIR.splits)
qed

lemma port_put_same: "port_put p i (port_buf p i) = p"
  by (simp add: port_put_def port_buf_def)

lemma tag_stream_frame:
  assumes "tag_stream E G c i w = Some (c', w')"
  obtains R t where "c' = c\<lparr>in_port := port_put (in_port c) i ((port_buf (in_port c) i)\<lparr>usr_tag := t\<rparr>),
    omx_vdec_lowdelay_proc_rec := R\<rparr>"
proof (cases "omx_vdec_lowdelay_proc_rec c = None \<or> \<not> lowdelay_on G c")
  case True
  then have "c' = c" using assms by (auto simp: tag_stream_def split: option.splits)
  moreover have "(port_buf (in_port c) i)\<lparr>usr_tag := usr_tag (port_buf (in_port c) i)\<rparr> = port_buf (in_port c) i" by simp
  ultimately show thesis
    by (intro that [where t = "usr_tag (port_buf (in_port c) i)" and R = "omx_vdec_lowdelay_proc_rec c"]) (simp add: port_put_same)
next
  case False
  then obtain R where R: "omx_vdec_lowdelay_proc_rec c = Some R" "lowdelay_on G c" by auto
  let ?c = "c\<lparr>in_port := port_put (in_port c) i ((port_buf (in_port c) i)\<lparr>usr_tag := current_tag R\<rparr>),
    omx_vdec_lowdelay_proc_rec := Some (R\<lparr>current_tag := current_tag R + interval R\<rparr>)\<rparr>"
  have "lowdelay_note E G ?c w (current_tag R) OMX_LOWDELAY_REC_ETB_TIME = Some (c', w')"
    using assms R by (simp add: tag_stream_def)
  then obtain R' where "c' = ?c\<lparr>omx_vdec_lowdelay_proc_rec := R'\<rparr>" by (rule lowdelay_note_frame)
  then show thesis by (intro that) simp
qed

lemma save_stream_frame: "\<exists>b. fst (channel_save_stream E G c buf w) = c\<lparr>raw_file := b\<rparr>"
proof -
  define c1 where "c1 = fst (if g_SaveRawEnable G \<and> \<not> raw_file c
      then (let (r, w1) = ext E (RAW_OPEN (channel_id c)) w in (c\<lparr>raw_file := (r = HI_SUCCESS)\<rparr>, w1))
      else if \<not> g_SaveRawEnable G \<and> raw_file c then (c\<lparr>raw_file := False\<rparr>, ext_do E RAW_CLOSE w) else (c, w))"
  have "fst (channel_save_stream E G c buf w) = c1"
    by (simp add: channel_save_stream_def c1_def Let_def split_beta)
  moreover have "c1 = c\<lparr>raw_file := raw_file c1\<rparr>"
    by (simp add: c1_def Let_def split_beta)
  ultimately show ?thesis by metis
qed

text \<open>The entry that a stream handed in becomes.\<close>

definition handed_in :: "OMXVDEC_BUF_DESC \<Rightarrow> u32 \<Rightarrow> OMXVDEC_BUF_S \<Rightarrow> OMXVDEC_BUF_S" where
  "handed_in d t b = b\<lparr>user_vaddr := bufferaddr d, act_len := data_len d, offset := data_offset d,
     time_stamp := timestamp d, flags := d_flags d, usr_tag := t\<rparr>"

lemma handed_in_simps [simp]:
  "phy_addr (handed_in d t b) = phy_addr b" "buf_id (handed_in d t b) = buf_id b" "status (handed_in d t b) = status b"
  "offset (handed_in d t b) = data_offset d" "time_stamp (handed_in d t b) = timestamp d" "flags (handed_in d t b) = d_flags d"
  by (simp_all add: handed_in_def)

text \<open>
  The three ways a stream with data ends: no such buffer, a buffer that is still queued (whose entry is
  overwritten nevertheless), or a buffer appended to the queue.
\<close>

lemma empty_data_cases:
  assumes wf: "port_wf 1 (in_port c)" and e: "empty_data E G c d w = Some (r, c', w')"
  obtains (unknown) "lookup_stream c d = Some None" "r = HI_FAILURE"
      "c' = message_queue c VDEC_MSG_RESP_INPUT_DONE VDEC_ERR_ILLEGAL_OP (BUF_DATA d)"
  | (twice) i t R where "r = HI_FAILURE" "port_find (in_port c) (phyaddr d) = Some i" "i \<in> set (queue (in_port c))"
      "c' = message_queue (c\<lparr>omx_vdec_lowdelay_proc_rec := R,
         in_port := port_put (in_port c) i (handed_in d t (port_buf (in_port c) i))\<rparr>) VDEC_MSG_RESP_INPUT_DONE VDEC_ERR_ILLEGAL_OP (BUF_DATA d)"
  | (queued) i t R b where "r = HI_SUCCESS" "port_find (in_port c) (phyaddr d) = Some i" "i \<notin> set (queue (in_port c))"
      "c' = c\<lparr>omx_vdec_lowdelay_proc_rec := R,
         in_port := (port_put (in_port c) i ((handed_in d t (port_buf (in_port c) i))\<lparr>status := BUF_STATE_QUEUED\<rparr>))
            \<lparr>queue := queue (in_port c) @ [i]\<rparr>, raw_file := b\<rparr>"
proof (cases "lookup_stream c d")
  case None
  then show thesis using e by (simp add: empty_data_def Let_def)
next
  case (Some o1)
  show thesis
  proof (cases o1)
    case None
    then show thesis using e Some by (intro unknown) (auto simp: empty_data_def Let_def)
  next
    case (Some o2)
    then obtain i c1 where l: "lookup_stream c d = Some (Some (i, c1))" using \<open>lookup_stream c d = Some o1\<close> by (cases o2) auto
    then have f: "port_find (in_port c) (phyaddr d) = Some i"
      and c1: "c1 = c\<lparr>in_port := port_put (in_port c) i ((port_buf (in_port c) i)\<lparr>user_vaddr := bufferaddr d\<rparr>)\<rparr>"
      by (auto simp: lookup_stream_def port_lookup_def split: ePORT_DIR.splits option.splits if_splits)
    have i: "i < buf_num (in_port c)" using f port_find_Some [OF wf] by blast
    then have il: "i < length (bufs (in_port c))" using port_wfD(1,2) [OF wf] by simp
    let ?c2 = "c1\<lparr>in_port := port_put (in_port c1) i ((port_buf (in_port c1) i)
                 \<lparr>act_len := data_len d, offset := data_offset d, time_stamp := timestamp d, flags := d_flags d\<rparr>)\<rparr>"
    obtain c3 w3 where g: "tag_stream E G ?c2 i w = Some (c3, w3)"
      using e l by (auto simp: empty_data_def Let_def split: option.splits)
    then obtain R t where "c3 = ?c2\<lparr>in_port := port_put (in_port ?c2) i ((port_buf (in_port ?c2) i)\<lparr>usr_tag := t\<rparr>),
        omx_vdec_lowdelay_proc_rec := R\<rparr>" by (rule tag_stream_frame)
    then have c3: "c3 = c\<lparr>in_port := port_put (in_port c) i (handed_in d t (port_buf (in_port c) i)),
        omx_vdec_lowdelay_proc_rec := R\<rparr>"
      using il by (simp add: c1 port_put_put port_buf_put handed_in_def)
    have "port_wf 1 (port_put (in_port c) i (handed_in d t (port_buf (in_port c) i)))"
      by (rule port_wf_put [OF wf]) simp_all
    then have w3: "port_wf 1 (in_port c3)" by (simp add: c3)
    have enq: "port_enqueue (in_port c3) i = (if i \<in> set (queue (in_port c)) then Some (HI_FAILURE, in_port c3)
       else Some (HI_SUCCESS, (port_put (in_port c3) i ((port_buf (in_port c3) i)\<lparr>status := BUF_STATE_QUEUED\<rparr>))
              \<lparr>queue := queue (in_port c) @ [i]\<rparr>))"
      using port_enqueue_eq [OF w3, of i] i by (simp add: c3)
    show thesis
    proof (cases "i \<in> set (queue (in_port c))")
      case True
      then show thesis using e l g enq
        by (intro twice [where R = R and t = t, OF _ f True]) (auto simp: empty_data_def Let_def channel_insert_in_raw_list_def c3)
    next
      case False
      let ?c4 = "c3\<lparr>in_port := (port_put (in_port c3) i ((port_buf (in_port c3) i)\<lparr>status := BUF_STATE_QUEUED\<rparr>))
              \<lparr>queue := queue (in_port c) @ [i]\<rparr>\<rparr>"
      have "r = HI_SUCCESS" "channel_save_stream E G ?c4 (port_buf (in_port ?c4) i) w3 = (c', w')"
        using e l g enq False by (auto simp: empty_data_def Let_def channel_insert_in_raw_list_def)
      moreover obtain b where "fst (channel_save_stream E G ?c4 (port_buf (in_port ?c4) i) w3) = ?c4\<lparr>raw_file := b\<rparr>"
        using save_stream_frame by blast
      ultimately show thesis using il by (intro queued [OF _ f False]) (simp_all add: c3 port_put_put port_buf_put)
    qed
  qed
qed

lemma put_in_wf:
  assumes "chan_wf K c" "phy_addr b = phy_addr (port_buf (in_port c) i)" "buf_id b = buf_id (port_buf (in_port c) i)"
    "status b = status (port_buf (in_port c) i)"
  shows "chan_wf K (c\<lparr>in_port := port_put (in_port c) i b\<rparr>)"
  using port_wf_put [OF chan_wfD(1) [OF assms(1)] assms(2-4)] assms(3)
  by (intro chan_wf_in [OF assms(1)]) (simp_all add: port_put_field last_frame_def)

lemma empty_data_wf:
  assumes wf: "chan_wf K c" and e: "empty_data E G c d w = Some (r, c', w')"
  shows "chan_wf K c'"
proof -
  note w = chan_wfD [OF wf]
  have lowdelay: "chan_wf K (c\<lparr>omx_vdec_lowdelay_proc_rec := R, in_port := p\<rparr>) = chan_wf K (c\<lparr>in_port := p\<rparr>)" for R p
    by (rule chan_wf_cong) simp_all
  show ?thesis using w(1) e
  proof (cases rule: empty_data_cases)
    case unknown
    then show ?thesis using wf by simp
  next
    case (twice i t R)
    have "chan_wf K (c\<lparr>in_port := port_put (in_port c) i (handed_in d t (port_buf (in_port c) i))\<rparr>)"
      by (rule put_in_wf [OF wf]) simp_all
    then show ?thesis using twice(4) lowdelay by simp
  next
    case (queued i t R b)
    let ?b = "(handed_in d t (port_buf (in_port c) i))\<lparr>status := BUF_STATE_QUEUED\<rparr>"
    let ?p = "(port_put (in_port c) i ?b)\<lparr>queue := queue (in_port c) @ [i]\<rparr>"
    have i: "i < buf_num (in_port c)" using queued(2) port_find_Some [OF w(1)] by blast
    have "chan_wf K (c\<lparr>in_port := ?p\<rparr>)"
    proof (rule chan_wf_in [OF wf])
      show "port_wf 1 ?p" using i queued(3) by (intro port_append_wf [OF w(1)]) (simp_all add: live_def)
      show "last_slot c \<in> set (queue ?p) \<longleftrightarrow> last_slot c \<in> set (queue (in_port c))"
        using i port_wfD(2) [OF w(1)] by (auto simp: last_slot_def)
      show "buf_id (port_buf ?p (last_slot c)) = buf_id (last_frame c)" by (simp add: port_put_field last_frame_def)
    qed simp_all
    then show ?thesis unfolding queued(4) by (rule iffD1 [OF chan_wf_cong, rotated -1]) simp_all
  qed
qed

lemma empty_eos_wf:
  assumes wf: "chan_wf K c" and e: "empty_eos K c = Some c'"
  shows "chan_wf K c'"
proof (cases "eos_in_list c")
  case True
  then have "c' = c\<lparr>eos_recv_flag := \<not> eos_recv_flag c\<rparr>" using e by (simp add: empty_eos_def)
  then show ?thesis using wf by (elim iffD1 [OF chan_wf_cong, rotated -1]) simp_all
next
  case False
  note w = chan_wfD [OF wf]
  let ?b = "(channel_add_last_frame K (last_frame c))\<lparr>status := BUF_STATE_QUEUED\<rparr>"
  let ?p = "(port_put (in_port c) (last_slot c) ?b)\<lparr>queue := queue (in_port c) @ [last_slot c]\<rparr>"
  have nq: "last_slot c \<notin> set (queue (in_port c))" using False w(6) by simp
  then have c': "c' = c\<lparr>in_port := ?p, eos_in_list := True, eos_recv_flag := \<not> eos_recv_flag c\<rparr>"
    using e False by (auto simp: empty_eos_def list_add_tail_def)
  have l: "last_slot c \<in> live 1 (in_port c)" by (simp add: live_def last_slot_def)
  have "\<not> last_slot c < buf_num (in_port c)" using port_wfD(2) [OF w(1)] by (simp add: last_slot_def)
  then have "port_wf 1 ?p" using nq
    by (intro port_append_wf [OF w(1) l]) (simp_all add: last_frame_def channel_add_last_frame_def)
  moreover have "port_buf ?p (last_slot c) = ?b" using live_bound [OF w(1) l] by (simp add: port_buf_put)
  ultimately have "chan_wf K (c\<lparr>in_port := ?p, eos_in_list := True\<rparr>)"
    using w(3) by (intro chan_wf_in_port [OF wf]) (simp_all add: channel_add_last_frame_def)
  then show ?thesis unfolding c' by (rule iffD1 [OF chan_wf_cong, rotated -1]) simp_all
qed

lemma empty_this_stream_wf:
  assumes wf: "chan_wf K c" and e: "channel_empty_this_stream E G K c d w = Some (r, c', w')"
  shows "chan_wf K c'"
proof -
  obtain r1 c1 w1 where d: "(if data_len d \<noteq> 0 then empty_data E G c d w else Some (HI_SUCCESS, c, w)) = Some (r1, c1, w1)"
    using e by (auto simp: channel_empty_this_stream_def split: option.splits)
  have c1: "chan_wf K c1" using d wf empty_data_wf by (auto split: if_splits)
  have c2: "chan_wf K c2" if "empty_eos K c1 = Some c2" for c2 using empty_eos_wf [OF c1 that] .
  show ?thesis using e d c1 c2
    by (auto simp: channel_empty_this_stream_def Let_def split: if_split_asm option.splits)
qed

lemma fill_cases:
  assumes wf: "port_wf 0 (out_port c)" and f: "channel_fill_this_frame c d = Some (r, c')"
  obtains (refused) "r = HI_FAILURE" "c' = message_queue c VDEC_MSG_RESP_OUTPUT_DONE VDEC_ERR_ILLEGAL_OP (BUF_DATA d)"
  | (twice) i where "r = HI_FAILURE" "i < buf_num (out_port c)" "i \<in> set (queue (out_port c))"
      "c' = message_queue (c\<lparr>out_port := port_put (out_port c) i ((port_buf (out_port c) i)
         \<lparr>user_vaddr := bufferaddr d, offset := data_offset d, act_len := 0\<rparr>)\<rparr>)
         VDEC_MSG_RESP_OUTPUT_DONE VDEC_ERR_ILLEGAL_OP (BUF_DATA d)"
  | (queued) i where "r = HI_SUCCESS" "i < buf_num (out_port c)" "i \<notin> set (queue (out_port c))"
      "c' = c\<lparr>out_port := (port_put (out_port c) i ((port_buf (out_port c) i)\<lparr>user_vaddr := bufferaddr d,
         offset := data_offset d, act_len := 0, status := BUF_STATE_QUEUED\<rparr>))\<lparr>queue := queue (out_port c) @ [i]\<rparr>\<rparr>"
proof (cases "lookup_frame c d")
  case None
  then show thesis using f by (simp add: channel_fill_this_frame_def Let_def)
next
  case (Some o1)
  show thesis
  proof (cases o1)
    case None
    then show thesis using f Some by (intro refused) (auto simp: channel_fill_this_frame_def Let_def)
  next
    case (Some o2)
    then obtain i c1 where l: "lookup_frame c d = Some (Some (i, c1))" using \<open>lookup_frame c d = Some o1\<close> by (cases o2) auto
    then have "port_find (out_port c) (phyaddr d) = Some i"
      and c1: "c1 = c\<lparr>out_port := port_put (out_port c) i ((port_buf (out_port c) i)\<lparr>user_vaddr := bufferaddr d\<rparr>)\<rparr>"
      by (auto simp: lookup_frame_def port_lookup_def split: ePORT_DIR.splits option.splits if_splits)
    then have i: "i < buf_num (out_port c)" using port_find_Some [OF wf] by blast
    then have il: "i < length (bufs (out_port c))" using port_wfD(1,2) [OF wf] by simp
    let ?b = "(port_buf (out_port c) i)\<lparr>user_vaddr := bufferaddr d, offset := data_offset d, act_len := 0\<rparr>"
    let ?p = "port_put (out_port c) i ?b"
    have w: "port_wf 0 ?p" by (rule port_wf_put [OF wf]) simp_all
    have "channel_fill_this_frame c d = (case channel_insert_in_yuv_list (c\<lparr>out_port := ?p\<rparr>) i of None \<Rightarrow> None
        | Some (r, c3) \<Rightarrow> if r \<noteq> HI_SUCCESS
            then Some (HI_FAILURE, message_queue c3 VDEC_MSG_RESP_OUTPUT_DONE VDEC_ERR_ILLEGAL_OP (BUF_DATA d))
            else Some (HI_SUCCESS, c3))"
      using l il by (simp add: channel_fill_this_frame_def Let_def c1 port_put_put port_buf_put)
    then show thesis
      using f i il port_enqueue_eq [OF w, of i] twice [of i] queued [of i]
      by (cases "i \<in> set (queue (out_port c))")
         (auto simp: channel_insert_in_yuv_list_def port_put_put port_buf_put)
  qed
qed

lemma fill_wf:
  assumes wf: "chan_wf K c" and f: "channel_fill_this_frame c d = Some (r, c')"
  shows "chan_wf K c'"
  using chan_wfD(2) [OF wf] f
proof (cases rule: fill_cases)
  case refused
  then show ?thesis using wf by simp
next
  case (twice i)
  have "chan_wf K (c\<lparr>out_port := port_put (out_port c) i ((port_buf (out_port c) i)
      \<lparr>user_vaddr := bufferaddr d, offset := data_offset d, act_len := 0\<rparr>)\<rparr>)"
    by (intro chan_wf_out [OF wf] port_wf_put [OF chan_wfD(2) [OF wf]]) simp_all
  then show ?thesis using twice(4) by simp
next
  case (queued i)
  then show ?thesis unfolding queued(4)
    by (intro chan_wf_out [OF wf] port_append_wf [OF chan_wfD(2) [OF wf]]) (simp_all add: live_def)
qed

lemma clears_stream: "clears (clear_stream K)"
  by (simp add: clears_def clear_stream_def)

lemma clears_frame: "clears (\<lambda>b. b\<lparr>status := BUF_STATE_IDLE\<rparr>)"
  by (simp add: clears_def)

text \<open>What a flush of the input side leaves of a channel and what it posts.\<close>

lemma flush_in_port_spec:
  assumes wf: "chan_wf K c" and f: "channel_flush_in_port E K c w = (r, c', w')"
  shows "chan_wf K c'" "r = HI_SUCCESS" "waiting (in_port c') = []" "use_cnt (in_port c') = use_cnt (in_port c)"
    "flush_pending (in_port c') \<longleftrightarrow> use_cnt (in_port c) \<noteq> 0"
    "msgs c' = msgs c @ map (\<lambda>q. input_done (flushed_stream (port_buf (in_port c) q)))
        (filter (\<lambda>q. q \<noteq> last_slot c) (waiting (in_port c))) @
      (if use_cnt (in_port c) = 0 then [Msg VDEC_MSG_RESP_FLUSH_INPUT_DONE VDEC_S_SUCCESS NO_DATA] else [])"
    "out_port c' = out_port c" "state c' = state c" "pause_pending c' = pause_pending c"
proof -
  note w = chan_wfD [OF wf]
  let ?last = "\<lambda>q. buf_id (port_buf (in_port c) q) = LAST_FRAME_BUF_ID K"
  obtain out p where fl: "port_flush (clear_stream K) (in_port c) = (out, p)" by (rule prod.exhaust)
  note s = port_flush_spec [OF clears_stream w(1) fl] and n = port_flush_counts [OF clears_stream w(1) fl]
  define pend where "pend = (use_cnt (in_port c) \<noteq> 0)"
  have fp: "pend = (flush_pending (in_port c) \<or> use_cnt (in_port c) \<noteq> 0)" using w(3) by (auto simp: pend_def)
  have last: "?last q \<longleftrightarrow> q = last_slot c" if "q \<in> set out" for q
    using that s(2) by (intro last_frame_only [OF wf]) simp
  have pos: "(0 < use_cnt (in_port c)) = pend" by (simp add: pend_def word_neq_0_conv)
  have c': "c' = (if pend then c\<lparr>in_port := p\<lparr>flush_pending := True\<rparr>, eos_in_list := (eos_in_list c \<and> \<not> list_ex ?last out),
      msgs := msgs c @ map (\<lambda>q. input_done (flushed_stream (port_buf (in_port c) q))) (filter (\<lambda>q. \<not> ?last q) out)\<rparr>
    else message_queue (c\<lparr>in_port := p, eos_in_list := (eos_in_list c \<and> \<not> list_ex ?last out),
      msgs := msgs c @ map (\<lambda>q. input_done (flushed_stream (port_buf (in_port c) q))) (filter (\<lambda>q. \<not> ?last q) out)\<rparr>)
      VDEC_MSG_RESP_FLUSH_INPUT_DONE VDEC_S_SUCCESS NO_DATA)" and r: "r = HI_SUCCESS"
    using f fl n(1) pos by (auto simp: channel_flush_in_port_def Let_def)
  have pf: "\<not> flush_pending p" if "\<not> pend" using that fp s(8) by simp
  have msgs: "filter (\<lambda>q. \<not> ?last q) out = filter (\<lambda>q. q \<noteq> last_slot c) (waiting (in_port c))"
    using n(3) last by (intro filter_cong) auto
  have ex: "list_ex ?last out \<longleftrightarrow> last_slot c \<in> set out" using last by (auto simp: list_ex_iff)
  have eos: "eos_in_list c' \<longleftrightarrow> last_slot c \<in> set (queue p)" using w(6) s(2,3) ex by (auto simp: c')
  have id: "buf_id (port_buf p (last_slot c)) = LAST_FRAME_BUF_ID K" if "eos_in_list c'"
  proof -
    have "eos_in_list c" using that by (auto simp: c' split: if_splits)
    then show ?thesis using w(7) s(5) by (simp add: last_frame_def clear_stream_def)
  qed
  let ?p = "p\<lparr>flush_pending := pend\<rparr>"
  have ip: "in_port c' = ?p" using pf s(8) fp by (auto simp: c')
  have "chan_wf K (c\<lparr>in_port := ?p, eos_in_list := eos_in_list c'\<rparr>)"
    using s(1,7) eos id n(1) by (intro chan_wf_in_port [OF wf]) (auto simp: pend_def)
  then show "chan_wf K c'" by (rule iffD1 [OF chan_wf_cong, rotated -1]) (simp_all add: ip, simp_all add: c')
  show "waiting (in_port c') = []" using n(2) by (simp add: ip waiting_def in_use_def)
  show "use_cnt (in_port c') = use_cnt (in_port c)" "flush_pending (in_port c') \<longleftrightarrow> use_cnt (in_port c) \<noteq> 0"
    using n(1) by (simp_all add: ip pend_def)
  show "msgs c' = msgs c @ map (\<lambda>q. input_done (flushed_stream (port_buf (in_port c) q)))
        (filter (\<lambda>q. q \<noteq> last_slot c) (waiting (in_port c))) @
      (if use_cnt (in_port c) = 0 then [Msg VDEC_MSG_RESP_FLUSH_INPUT_DONE VDEC_S_SUCCESS NO_DATA] else [])"
    by (simp add: c' msgs) (simp add: pend_def)
  show "r = HI_SUCCESS" by (rule r)
  show "out_port c' = out_port c" "state c' = state c" "pause_pending c' = pause_pending c" by (simp_all add: c')
qed

lemma flush_frames_spec:
  assumes wf: "chan_wf K c"
  defines "c' \<equiv> flush_frames c"
  shows "chan_wf K c'" "waiting (out_port c') = []" "use_cnt (out_port c') = use_cnt (out_port c)"
    "flush_pending (out_port c') \<longleftrightarrow> use_cnt (out_port c) \<noteq> 0"
    "msgs c' = msgs c @ map (\<lambda>q. output_done (returned_frame (port_buf (out_port c) q))) (waiting (out_port c)) @
      (if use_cnt (out_port c) = 0 then [Msg VDEC_MSG_RESP_FLUSH_OUTPUT_DONE VDEC_S_SUCCESS NO_DATA] else [])"
    "in_port c' = in_port c" "pause_pending c' = pause_pending c" "eos_in_list c' = eos_in_list c" "state c' = state c"
proof -
  note w = chan_wfD [OF wf]
  obtain out p where fl: "port_flush (\<lambda>b. b\<lparr>status := BUF_STATE_IDLE\<rparr>) (out_port c) = (out, p)" by (rule prod.exhaust)
  note s = port_flush_spec [OF clears_frame w(2) fl] and n = port_flush_counts [OF clears_frame w(2) fl]
  define pend where "pend = (use_cnt (out_port c) \<noteq> 0)"
  have pos: "(0 < use_cnt (out_port c)) = pend" by (simp add: pend_def word_neq_0_conv)
  have pf: "\<not> flush_pending p" if "\<not> pend" using that w(4) s(8) by (auto simp: pend_def)
  have c': "c' = (if pend then c\<lparr>msgs := msgs c @ map (\<lambda>q. output_done (returned_frame (port_buf (out_port c) q))) out,
        out_port := p\<lparr>flush_pending := True\<rparr>\<rparr>
    else message_queue (c\<lparr>out_port := p, msgs := msgs c @ map (\<lambda>q. output_done (returned_frame (port_buf (out_port c) q))) out\<rparr>)
      VDEC_MSG_RESP_FLUSH_OUTPUT_DONE VDEC_S_SUCCESS NO_DATA)"
    using fl n(1) pos by (auto simp: c'_def flush_frames_def Let_def)
  let ?p = "p\<lparr>flush_pending := pend\<rparr>"
  have op: "out_port c' = ?p" using pf by (auto simp: c')
  have "chan_wf K (c\<lparr>out_port := ?p, pause_pending := pause_pending c\<rparr>)"
    using s(1) n(1) w(5) by (intro chan_wf_out_port [OF wf]) (auto simp: pend_def)
  then show "chan_wf K c'" by (rule iffD1 [OF chan_wf_cong, rotated -1]) (simp_all add: op, simp_all add: c')
  show "waiting (out_port c') = []" using n(2) by (simp add: op waiting_def in_use_def)
  show "use_cnt (out_port c') = use_cnt (out_port c)" "flush_pending (out_port c') \<longleftrightarrow> use_cnt (out_port c) \<noteq> 0"
    using n(1) by (simp_all add: op pend_def)
  show "msgs c' = msgs c @ map (\<lambda>q. output_done (returned_frame (port_buf (out_port c) q))) (waiting (out_port c)) @
      (if use_cnt (out_port c) = 0 then [Msg VDEC_MSG_RESP_FLUSH_OUTPUT_DONE VDEC_S_SUCCESS NO_DATA] else [])"
    by (simp add: c' n(3)) (simp add: pend_def)
  show "in_port c' = in_port c" "pause_pending c' = pause_pending c" "eos_in_list c' = eos_in_list c" "state c' = state c"
    by (simp_all add: c')
qed

text \<open>The reset around a flush of the output side.\<close>

definition before_flush :: "OMXVDEC_CHAN_CTX \<Rightarrow> OMXVDEC_CHAN_CTX" where
  "before_flush c = (if recfg_flag c then c\<lparr>recfg_flag := False\<rparr> else c\<lparr>reset_pending := False, seek_pending := True\<rparr>)"

lemma flush_out_port_frames: "\<exists>w'. channel_flush_out_port E K c w = (HI_SUCCESS, flush_frames (before_flush c), w')"
  by (simp add: channel_flush_out_port_def channel_reset_inst_def before_flush_def Let_def split: prod.splits)

lemma before_flush_simps [simp]:
  "in_port (before_flush c) = in_port c" "out_port (before_flush c) = out_port c" "msgs (before_flush c) = msgs c"
  "pause_pending (before_flush c) = pause_pending c" "eos_in_list (before_flush c) = eos_in_list c"
  "state (before_flush c) = state c"
  by (simp_all add: before_flush_def)

lemma before_flush_wf [simp]: "chan_wf K (before_flush c) = chan_wf K c"
  by (rule chan_wf_cong) simp_all

lemma flush_inst_wf:
  assumes "chan_wf K c" "channel_flush_inst E K' c pdir w = (r, c', w')" "LAST_FRAME_BUF_ID K' = LAST_FRAME_BUF_ID K"
  shows "chan_wf K c'"
proof -
  have k: "chan_wf K' x = chan_wf K x" for x using assms(3) by (simp add: chan_wf_def)
  have i: "chan_wf K c1" if "channel_flush_in_port E K' c w = (r1, c1, w1)" for r1 c1 w1
    using flush_in_port_spec(1) [OF _ that] assms(1) by (simp add: k)
  have o: "chan_wf K c2" if "channel_flush_out_port E K' c1 w1 = (r2, c2, w2)" "chan_wf K c1" for r2 c1 c2 w1 w2
    using that flush_out_port_frames [of E K' c1 w1] flush_frames_spec(1) [of K "before_flush c1"] by auto
  show ?thesis using assms(1,2) i o
    by (auto simp: channel_flush_inst_def Let_def split: prod.splits if_split_asm)
qed

lemma lowdelay_restart_wf: "chan_wf K (lowdelay_restart G c) = chan_wf K c"
  by (rule chan_wf_cong) (simp_all add: lowdelay_restart_def)

lemma start_wf:
  assumes "chan_wf K c" "channel_start_inst E G K' c w = (r, c', w')"
  shows "chan_wf K c'"
proof -
  have s: "chan_wf K (x\<lparr>state := st\<rparr>) = chan_wf K x" for x st by (rule chan_wf_cong) simp_all
  show ?thesis using assms by (auto simp: channel_start_inst_def Let_def lowdelay_restart_wf s split: if_splits prod.splits)
qed

lemma stop_wf:
  assumes "chan_wf K c" "channel_stop_inst E c w = (r, c', w')"
  shows "chan_wf K c'"
proof -
  have s: "chan_wf K (x\<lparr>state := st\<rparr>) = chan_wf K x" for x st by (rule chan_wf_cong) simp_all
  show ?thesis using assms by (auto simp: channel_stop_inst_def Let_def s split: if_splits prod.splits)
qed

lemma pause_wf: "chan_wf K c \<Longrightarrow> channel_pause_inst c = (r, c') \<Longrightarrow> chan_wf K c'"
  by (auto simp: channel_pause_inst_def chan_wf_def last_slot_def last_frame_def split: if_splits)

lemma resume_wf: "chan_wf K c \<Longrightarrow> channel_resume_inst c = (r, c') \<Longrightarrow> chan_wf K c'"
  by (auto simp: channel_resume_inst_def chan_wf_def last_slot_def last_frame_def split: if_splits)

end
