(* ===== verification/Omx_Protocol.thy ===== *)
theory Omx_Protocol
  imports Omx_Channel
begin

text \<open>
  The protocols between the user side, the firmware and the post-processor that run over a
  channel: streams are delivered in the order they were handed in, and a flush or a pause is
  answered exactly when the last buffer in use came back. Each protocol is an
  interpretation of an interface of the prelude on the operations of the channel.
\<close>

section \<open>Streams in order\<close>

datatype stream_op = Empty_Stream OMXVDEC_BUF_DESC | Get_Stream | Release_Stream STREAM_DATA_S

text \<open>What identifies a stream: where its data is, its time stamp and its flags.\<close>

type_synonym stream_item = "u32 \<times> s64 \<times> u32"

definition stream_item :: "OMXVDEC_BUF_S \<Rightarrow> stream_item" where
  "stream_item b = (phy_addr b + offset b, time_stamp b, flags b)"

definition waiting_streams :: "OMXVDEC_CHAN_CTX \<Rightarrow> stream_item list" where
  "waiting_streams c = map (\<lambda>q. stream_item (port_buf (in_port c) q)) (waiting (in_port c))"

text \<open>
  A user hands in only bound buffers it owns (that are not queued), the firmware gives back only
  streams it holds.
\<close>

fun stream_ok :: "OMXVDEC_CHAN_CTX \<times> world \<Rightarrow> stream_op \<Rightarrow> bool" where
  "stream_ok (c, w) (Empty_Stream d) \<longleftrightarrow> dir d = PORT_DIR_INPUT \<and>
     (data_len d \<noteq> 0 \<longrightarrow> (case port_find (in_port c) (phyaddr d) of None \<Rightarrow> False | Some i \<Rightarrow> i \<notin> set (queue (in_port c))))"
| "stream_ok (c, w) Get_Stream \<longleftrightarrow> True"
| "stream_ok (c, w) (Release_Stream sd) \<longleftrightarrow> stream_held c (PhyAddr sd)"

definition handed_streams :: "platform \<Rightarrow> OMXVDEC_CHAN_CTX \<Rightarrow> OMXVDEC_BUF_DESC \<Rightarrow> stream_item list" where
  "handed_streams K c d =
     (if data_len d \<noteq> 0 then [(phyaddr d + data_offset d, timestamp d, d_flags d)] else []) @
     (if d_flags d AND VDEC_BUFFERFLAG_EOS \<noteq> 0 \<and> \<not> eos_in_list c
      then [(phy_addr (last_frame c), ucast (HI_INVALID_PTS K), VDEC_BUFFERFLAG_ENDOFFRAME)] else [])"

fun stream_step ::
  "env \<Rightarrow> globals \<Rightarrow> platform \<Rightarrow> OMXVDEC_BUF_DESC \<Rightarrow> OMXVDEC_CHAN_CTX \<times> world \<Rightarrow> stream_op \<Rightarrow>
   (stream_item list \<times> stream_item list \<times> OMXVDEC_CHAN_CTX \<times> world) option" where
  "stream_step E G K junk (c, w) (Empty_Stream d) =
     map_option (\<lambda>(r, c', w'). (handed_streams K c d, [], c', w')) (channel_empty_this_stream E G K c d w)"
| "stream_step E G K junk (c, w) Get_Stream =
     map_option (\<lambda>(r, c', w'). ([], case r of None \<Rightarrow> [] | Some sd \<Rightarrow> [(PhyAddr sd, Pts sd, Flags sd)], c', w'))
       (get_stream E G K c w)"
| "stream_step E G K junk (c, w) (Release_Stream sd) =
     map_option (\<lambda>(r, c', w'). ([], [], c', w')) (release_stream E G K junk sd c w)"

lemma waiting_append:
  assumes "port_wf extra p" "i \<in> live extra p" "i \<notin> set (queue p)" "status b = BUF_STATE_QUEUED"
  shows "waiting ((port_put p i b)\<lparr>queue := queue p @ [i]\<rparr>) = waiting p @ [i]"
    "map (\<lambda>q. f (port_buf ((port_put p i b)\<lparr>queue := queue p @ [i]\<rparr>) q)) (waiting p @ [i]) =
     map (\<lambda>q. f (port_buf p q)) (waiting p) @ [f b]"
proof -
  have il: "i < length (bufs p)" using live_bound [OF assms(1,2)] .
  have "q \<noteq> i" if "q \<in> set (queue p)" for q using that assms(3) by auto
  then show "waiting ((port_put p i b)\<lparr>queue := queue p @ [i]\<rparr>) = waiting p @ [i]"
    using il assms(4) by (auto simp: waiting_def in_use_def port_buf_put intro!: filter_cong)
  show "map (\<lambda>q. f (port_buf ((port_put p i b)\<lparr>queue := queue p @ [i]\<rparr>) q)) (waiting p @ [i]) =
     map (\<lambda>q. f (port_buf p q)) (waiting p) @ [f b]"
    using il assms(3) by (auto simp: port_buf_put waiting_def)
qed

lemma empty_data_streams:
  assumes wf: "chan_wf K c" and i: "port_find (in_port c) (phyaddr d) = Some i" "i \<notin> set (queue (in_port c))"
    and din: "dir d = PORT_DIR_INPUT" and e: "empty_data E G c d w = Some (r, c', w')"
  shows "r = HI_SUCCESS" "waiting_streams c' = waiting_streams c @ [(phyaddr d + data_offset d, timestamp d, d_flags d)]"
    "eos_in_list c' = eos_in_list c" "phy_addr (last_frame c') = phy_addr (last_frame c)" "last_slot c' = last_slot c"
proof -
  note w = chan_wfD(1) [OF wf]
  have l: "lookup_stream c d \<noteq> Some None" using i din by (simp add: lookup_stream_def port_lookup_def)
  have ib: "i < buf_num (in_port c)" "phy_addr (port_buf (in_port c) i) = phyaddr d" using i(1) port_find_Some [OF w] by blast+
  have all: "r = HI_SUCCESS \<and> waiting_streams c' = waiting_streams c @ [(phyaddr d + data_offset d, timestamp d, d_flags d)] \<and>
    eos_in_list c' = eos_in_list c \<and> phy_addr (last_frame c') = phy_addr (last_frame c) \<and> last_slot c' = last_slot c"
    using w e
  proof (cases rule: empty_data_cases)
    case unknown
    then show ?thesis using l by simp
  next
    case (twice j t R)
    then show ?thesis using i by simp
  next
    case (queued j t R b)
    then have j: "j = i" using i by simp
    let ?b = "(handed_in d t (port_buf (in_port c) i))\<lparr>status := BUF_STATE_QUEUED\<rparr>"
    have live: "i \<in> live 1 (in_port c)" using ib by (simp add: live_def)
    note a = waiting_append [OF w live i(2), of ?b]
    have "waiting_streams c' = waiting_streams c @ [stream_item ?b]"
      using a(2) [of stream_item] a(1) by (simp add: waiting_streams_def queued(4) j)
    moreover have "stream_item ?b = (phyaddr d + data_offset d, timestamp d, d_flags d)" using ib by (simp add: stream_item_def)
    moreover have "phy_addr (last_frame c') = phy_addr (last_frame c)" "last_slot c' = last_slot c"
      by (simp_all add: queued(4) j last_frame_def last_slot_def port_put_field)
    ultimately show ?thesis using queued by simp
  qed
  then show "r = HI_SUCCESS" "waiting_streams c' = waiting_streams c @ [(phyaddr d + data_offset d, timestamp d, d_flags d)]"
    "eos_in_list c' = eos_in_list c" "phy_addr (last_frame c') = phy_addr (last_frame c)" "last_slot c' = last_slot c"
    by simp_all
qed

lemma empty_eos_streams:
  assumes wf: "chan_wf K c" and e: "empty_eos K c = Some c'"
  shows "waiting_streams c' = waiting_streams c @ (if eos_in_list c then []
    else [(phy_addr (last_frame c), ucast (HI_INVALID_PTS K), VDEC_BUFFERFLAG_ENDOFFRAME)])"
proof (cases "eos_in_list c")
  case True
  then show ?thesis using e by (auto simp: empty_eos_def waiting_streams_def)
next
  case False
  note w = chan_wfD [OF wf]
  let ?b = "(channel_add_last_frame K (last_frame c))\<lparr>status := BUF_STATE_QUEUED\<rparr>"
  have nq: "last_slot c \<notin> set (queue (in_port c))" using False w(6) by simp
  have live: "last_slot c \<in> live 1 (in_port c)" by (simp add: live_def last_slot_def)
  have ip: "in_port c' = (port_put (in_port c) (last_slot c) ?b)\<lparr>queue := queue (in_port c) @ [last_slot c]\<rparr>"
    using e False nq by (auto simp: empty_eos_def list_add_tail_def)
  note a = waiting_append [OF w(1) live nq, of ?b]
  have "waiting_streams c' = waiting_streams c @ [stream_item ?b]"
    using a(2) [of stream_item] a(1) by (simp add: waiting_streams_def ip)
  moreover have "stream_item ?b = (phy_addr (last_frame c), ucast (HI_INVALID_PTS K), VDEC_BUFFERFLAG_ENDOFFRAME)"
    by (simp add: stream_item_def channel_add_last_frame_def)
  ultimately show ?thesis using False by simp
qed

lemma empty_streams:
  assumes wf: "chan_wf K c" and ok: "stream_ok (c, w) (Empty_Stream d)"
    and e: "channel_empty_this_stream E G K c d w = Some (r, c', w')"
  shows "waiting_streams c' = waiting_streams c @ handed_streams K c d"
proof -
  obtain r1 c1 w1 where d: "(if data_len d \<noteq> 0 then empty_data E G c d w else Some (HI_SUCCESS, c, w)) = Some (r1, c1, w1)"
    using e by (auto simp: channel_empty_this_stream_def split: option.splits)
  have c1: "r1 = HI_SUCCESS \<and> chan_wf K c1 \<and> eos_in_list c1 = eos_in_list c \<and> phy_addr (last_frame c1) = phy_addr (last_frame c) \<and>
    waiting_streams c1 = waiting_streams c @ (if data_len d \<noteq> 0 then [(phyaddr d + data_offset d, timestamp d, d_flags d)] else [])"
  proof (cases "data_len d = 0")
    case True
    then show ?thesis using d wf by simp
  next
    case False
    then obtain i where i: "port_find (in_port c) (phyaddr d) = Some i" "i \<notin> set (queue (in_port c))" "dir d = PORT_DIR_INPUT"
      using ok by (auto split: option.splits)
    have ed: "empty_data E G c d w = Some (r1, c1, w1)" using d False by simp
    show ?thesis using empty_data_streams [OF wf i ed] empty_data_wf [OF wf ed] False by simp
  qed
  obtain c2 where c2: "(if d_flags d AND VDEC_BUFFERFLAG_EOS \<noteq> 0 then empty_eos K c1 else Some c1) = Some c2"
    "waiting_streams c' = waiting_streams c2"
    using e d c1 by (auto simp: channel_empty_this_stream_def Let_def waiting_streams_def split: option.splits if_splits)
  then show ?thesis using c1 empty_eos_streams [of K c1 c2] by (auto simp: handed_streams_def split: if_splits)
qed

lemma get_streams:
  assumes wf: "chan_wf K c" and g: "get_stream E G K c w = Some (Some sd, c', w')"
  shows "waiting_streams c = (PhyAddr sd, Pts sd, Flags sd) # waiting_streams c'"
proof -
  obtain q p R st where t: "port_take (in_port c) 0 = Some (q, p)"
    "c' = c\<lparr>in_port := p, seek_pending := False, omx_vdec_lowdelay_proc_rec := R, omx_chan_statinfo := st\<rparr>"
    "stream_item (port_buf (in_port c) q) = (PhyAddr sd, Pts sd, Flags sd)"
    using get_stream_SomeD [OF g] by (metis stream_item_def)
  note w = chan_wfD(1) [OF wf]
  have "stream_item (port_buf p j) = stream_item (port_buf (in_port c) j)" for j
    using port_take_SomeD(4) [OF t(1)] by (simp add: port_put_field stream_item_def)
  then show ?thesis using waiting_taken_first [OF w t(1)] t(2,3) by (simp add: waiting_streams_def)
qed

lemma release_streams:
  assumes wf: "chan_wf K c" and h: "stream_held c (PhyAddr sd)" and r: "release_stream E G K junk sd c w = Some (r, c', w')"
  shows "waiting_streams c' = waiting_streams c"
  using r
proof (cases rule: release_stream_cases)
  case refused
  then show ?thesis by simp
next
  case (given q R)
  have q: "q \<in> set (queue (in_port c))" "in_use (in_port c) q"
    using given(1) h port_at_SomeD(1) by (auto simp: stream_held_def)
  let ?p = "returned_port K c q"
  note sp = port_return_spec [OF chan_wfD(1) [OF wf] q, of "idle_stream K (port_buf (in_port c) q)", folded returned_port_def]
  have "waiting (in_port c') = waiting (in_port c)"
    using sp(3) by (simp add: given(3) give_back_stream_fields(5) waiting_def in_use_def)
  moreover have "port_buf (in_port c') j = port_buf (in_port c) j" if "j \<in> set (waiting (in_port c))" for j
  proof -
    have "j \<noteq> q" using that q(2) by (auto simp: waiting_def)
    then show ?thesis using sp(7) by (simp add: given(3) give_back_stream_fields(5))
  qed
  ultimately show ?thesis by (simp add: waiting_streams_def)
qed

definition pending_streams :: "OMXVDEC_CHAN_CTX \<times> world \<Rightarrow> stream_item list" where
  "pending_streams s = waiting_streams (fst s)"

definition channel_ok :: "platform \<Rightarrow> OMXVDEC_CHAN_CTX \<times> world \<Rightarrow> bool" where
  "channel_ok K s \<longleftrightarrow> chan_wf K (fst s)"

interpretation streams: fifo "channel_ok K" pending_streams stream_ok "stream_step E G K junk" for E G K junk
proof
  fix s a ins outs s'
  assume wf: "channel_ok K s" and ok: "stream_ok s a" and st: "stream_step E G K junk s a = Some (ins, outs, s')"
  obtain c w where s: "s = (c, w)" by (cases s)
  have cw: "chan_wf K c" using wf by (simp add: channel_ok_def s)
  show "channel_ok K s' \<and> pending_streams s @ ins = outs @ pending_streams s'"
  proof (cases a)
    case (Empty_Stream d)
    then show ?thesis using st empty_streams [OF cw ok [unfolded s Empty_Stream]] empty_this_stream_wf [OF cw]
      by (auto simp: s channel_ok_def pending_streams_def)
  next
    case Get_Stream
    then show ?thesis using st get_streams [OF cw] get_stream_wf [OF cw] get_stream_None
      by (fastforce simp: s channel_ok_def pending_streams_def split: option.splits)
  next
    case (Release_Stream sd)
    then show ?thesis using st ok release_streams [OF cw] release_stream_wf [OF cw]
      by (auto simp: s channel_ok_def pending_streams_def)
  qed
qed

section \<open>A concrete channel\<close>

definition example_env :: env where
  "example_env = (\<lambda>past a. (HI_SUCCESS, [0x100, 0x200, 0x300]))"

definition omx_platform :: platform where
  "omx_platform = \<lparr>HI_INVALID_PTS = 0xffffffff, HI_INVALID_TIME = 0xffffffff, LAST_FRAME_BUF_ID = 0xffff,
     LAST_FRAME_BUF_SIZE = 1024\<rparr>"

definition example_out_port :: port where
  "example_out_port = \<lparr>bufs = [example_buf 0x5000 0 BUF_STATE_USING, example_buf 0x6000 1 BUF_STATE_QUEUED],
     buf_num = 2, max_buf_num = 2, queue = [0, 1], use_cnt = 1, flush_pending = False\<rparr>"

definition example_chan :: OMXVDEC_CHAN_CTX where
  "example_chan = zero_chan\<lparr>in_port := example_port, out_port := example_out_port, state := CHAN_STATE_WORK\<rparr>"

definition example_world :: world where
  "example_world = \<lparr>calls = [], pts_table = []\<rparr>"

lemma example_out_port_wf: "port_wf 0 example_out_port"
proof -
  have l: "live 0 example_out_port = {0, 1}" by (auto simp: live_def example_out_port_def)
  have b: "port_buf example_out_port 0 = example_buf 0x5000 0 BUF_STATE_USING"
    "port_buf example_out_port (Suc 0) = example_buf 0x6000 1 BUF_STATE_QUEUED"
    by (simp_all add: port_buf_def example_out_port_def)
  have n: "i < 2 \<longleftrightarrow> i = 0 \<or> i = Suc 0" for i :: nat by auto
  have f: "buf_num example_out_port = 2" "max_buf_num example_out_port = 2" "queue example_out_port = [0, 1]"
    "use_cnt example_out_port = 1" "length (bufs example_out_port) = 2"
    by (simp_all add: example_out_port_def)
  have "users example_out_port = {0}" by (auto simp: users_def in_use_def b f)
  then have "queue_wf 0 example_out_port" by (simp add: queue_wf_def l queued_def b f)
  moreover have "table_wf 0 example_out_port" by (simp add: table_wf_def l n b f)
  ultimately show ?thesis by (simp add: port_wf_def)
qed

lemma example_chan_wf: "chan_wf omx_platform example_chan"
  using example_port_wf example_out_port_wf
  by (simp add: chan_wf_def example_chan_def zero_chan_def last_slot_def omx_platform_def example_out_port_def)

lemmas evaluate = example_env_def omx_platform_def example_chan_def example_port_def example_out_port_def example_world_def
  example_buf_def zero_buf_def zero_desc_def zero_frame_def zero_chan_def default_globals_def
  channel_empty_this_stream_def empty_data_def empty_eos_def lookup_stream_def port_lookup_def port_find_def port_buf_def
  port_put_def list_add_tail_def list_del_def tag_stream_def channel_insert_in_raw_list_def port_enqueue_def
  channel_save_stream_def channel_add_last_frame_def last_frame_def last_slot_def message_queue_def lowdelay_on_def
  lowdelay_true_def lowdelay_note_def get_stream_def stream_of_def stream_end_code_def port_take_def port_first_free_def
  handed_streams_def waiting_streams_def waiting_def stream_item_def in_use_def Let_def
  VDEC_BUFFERFLAG_EOS_def VDEC_BUFFERFLAG_ENDOFFRAME_def



section \<open>Answers to a flush of the input side\<close>

definition answers :: "msgcode \<Rightarrow> OMXVDEC_CHAN_CTX \<Rightarrow> nat" where
  "answers code c = length (filter (\<lambda>m. case m of Msg k st d \<Rightarrow> k = code) (msgs c))"

lemma answers_post [simp]:
  "answers code (message_queue c k st d) = answers code c + (if k = code then 1 else 0)"
  by (simp add: answers_def)

lemma answers_cong: "msgs c' = msgs c \<Longrightarrow> answers code c' = answers code c"
  by (simp add: answers_def)

lemma answers_frame [simp]:
  "answers code (c\<lparr>in_port := p\<rparr>) = answers code c" "answers code (c\<lparr>out_port := p\<rparr>) = answers code c"
  "answers code (c\<lparr>omx_vdec_lowdelay_proc_rec := R\<rparr>) = answers code c" "answers code (c\<lparr>eos_in_list := e\<rparr>) = answers code c"
  "answers code (c\<lparr>pause_pending := b\<rparr>) = answers code c" "answers code (c\<lparr>state := s\<rparr>) = answers code c"
  "answers code (c\<lparr>raw_file := b\<rparr>) = answers code c" "answers code (c\<lparr>eos_recv_flag := b\<rparr>) = answers code c"
  by (simp_all add: answers_def)

definition streams_in_use :: "OMXVDEC_CHAN_CTX \<times> world \<Rightarrow> nat" where
  "streams_in_use s = unat (use_cnt (in_port (fst s)))"

definition input_pending :: "OMXVDEC_CHAN_CTX \<times> world \<Rightarrow> bool" where
  "input_pending s = flush_pending (in_port (fst s))"

definition input_answers :: "OMXVDEC_CHAN_CTX \<times> world \<Rightarrow> nat" where
  "input_answers s = answers VDEC_MSG_RESP_FLUSH_INPUT_DONE (fst s)"

definition flush_input :: "env \<Rightarrow> platform \<Rightarrow> OMXVDEC_CHAN_CTX \<times> world \<Rightarrow> OMXVDEC_CHAN_CTX \<times> world" where
  "flush_input E K s = snd (channel_flush_in_port E K (fst s) (snd s))"

text \<open>During a flush the user may go on handing in streams, valid or not; the firmware gives back what it holds.\<close>

fun returns_stream :: "OMXVDEC_CHAN_CTX \<times> world \<Rightarrow> stream_op \<Rightarrow> bool" where
  "returns_stream (c, w) (Release_Stream sd) \<longleftrightarrow> port_at (in_port c) (PhyAddr sd) \<noteq> None"
| "returns_stream (c, w) _ \<longleftrightarrow> False"

fun returns_held :: "OMXVDEC_CHAN_CTX \<times> world \<Rightarrow> stream_op \<Rightarrow> bool" where
  "returns_held (c, w) (Release_Stream sd) \<longleftrightarrow> stream_held c (PhyAddr sd)"
| "returns_held (c, w) _ \<longleftrightarrow> True"

fun stream_act ::
  "env \<Rightarrow> globals \<Rightarrow> platform \<Rightarrow> OMXVDEC_BUF_DESC \<Rightarrow> OMXVDEC_CHAN_CTX \<times> world \<Rightarrow> stream_op \<Rightarrow>
   (OMXVDEC_CHAN_CTX \<times> world) option" where
  "stream_act E G K junk (c, w) (Empty_Stream d) = map_option snd (channel_empty_this_stream E G K c d w)"
| "stream_act E G K junk (c, w) Get_Stream = map_option snd (get_stream E G K c w)"
| "stream_act E G K junk (c, w) (Release_Stream sd) = map_option snd (release_stream E G K junk sd c w)"

definition same_input :: "OMXVDEC_CHAN_CTX \<Rightarrow> OMXVDEC_CHAN_CTX \<Rightarrow> bool" where
  "same_input c c' \<longleftrightarrow> (flush_pending (in_port c) \<longrightarrow> use_cnt (in_port c') = use_cnt (in_port c)) \<and> flush_pending (in_port c') = flush_pending (in_port c) \<and>
     answers VDEC_MSG_RESP_FLUSH_INPUT_DONE c' = answers VDEC_MSG_RESP_FLUSH_INPUT_DONE c"

lemma empty_same_input:
  assumes wf: "chan_wf K c" and e: "channel_empty_this_stream E G K' c d w = Some (r, c', w')"
  shows "same_input c c'"
proof -
  have data: "same_input c c1" if "empty_data E G c d w = Some (r1, c1, w1)" for r1 c1 w1
    using chan_wfD(1) [OF wf] that by (cases rule: empty_data_cases) (simp_all add: same_input_def)
  have eos: "same_input c c2" if "same_input c c1" "empty_eos K' c1 = Some c2" for c1 c2
    using that by (auto simp: same_input_def empty_eos_def list_add_tail_def split: if_splits)
  obtain r1 c1 w1 where d: "(if data_len d \<noteq> 0 then empty_data E G c d w else Some (HI_SUCCESS, c, w)) = Some (r1, c1, w1)"
    using e by (auto simp: channel_empty_this_stream_def split: option.splits)
  have c1: "same_input c c1" using d data by (auto simp: same_input_def split: if_splits)
  show ?thesis
  proof (cases "r1 = HI_SUCCESS")
    case False
    then show ?thesis using e d c1 by (auto simp: channel_empty_this_stream_def)
  next
    case True
    obtain c2 where c2: "(if d_flags d AND VDEC_BUFFERFLAG_EOS \<noteq> 0 then empty_eos K' c1 else Some c1) = Some c2"
      using e d True by (auto simp: channel_empty_this_stream_def split: option.splits)
    have "same_input c c2" using c2 c1 eos [OF c1] by (simp split: if_splits)
    moreover have "c' = (if data_len d = 0 then message_queue c2 VDEC_MSG_RESP_INPUT_DONE VDEC_S_SUCCESS (BUF_DATA d) else c2)"
      using e d True c2 by (auto simp: channel_empty_this_stream_def Let_def)
    ultimately show ?thesis by (simp add: same_input_def)
  qed
qed

lemma get_same_input:
  assumes "get_stream E G K c w = Some (r, c', w')"
  shows "same_input c c'"
proof (cases r)
  case None
  then show ?thesis using get_stream_None [OF assms [unfolded None]] by (simp add: same_input_def)
next
  case (Some sd)
  obtain q p R st where t: "port_take (in_port c) 0 = Some (q, p)" and "\<not> flush_pending (in_port c)"
    "c' = c\<lparr>in_port := p, seek_pending := False, omx_vdec_lowdelay_proc_rec := R, omx_chan_statinfo := st\<rparr>"
    using get_stream_SomeD [OF assms [unfolded Some]] by metis
  then show ?thesis using port_take_SomeD(4) [OF t] by (simp add: same_input_def answers_def)
qed

lemma give_back_answers:
  fixes junk
  assumes "q \<in> set (queue (in_port c))" "in_use (in_port c) q" "chan_wf K c"
  defines "c' \<equiv> give_back_stream K junk c q"
  shows "unat (use_cnt (in_port c)) = Suc (unat (use_cnt (in_port c')))"
    "flush_pending (in_port c') \<longleftrightarrow> flush_pending (in_port c) \<and> use_cnt (in_port c') \<noteq> 0"
    "answers VDEC_MSG_RESP_FLUSH_INPUT_DONE c' = answers VDEC_MSG_RESP_FLUSH_INPUT_DONE c +
       (if flush_pending (in_port c) \<and> use_cnt (in_port c') = 0 then 1 else 0)"
proof -
  note sp = port_return_spec [OF chan_wfD(1) [OF assms(3)] assms(1,2), of "idle_stream K (port_buf (in_port c) q)", folded returned_port_def]
  have "unat (use_cnt (in_port c)) \<noteq> 0" using sp(2) by (simp add: unat_eq_zero)
  then show "unat (use_cnt (in_port c)) = Suc (unat (use_cnt (in_port c')))"
    using sp(1) by (simp add: c'_def give_back_stream_fields(5))
  show "flush_pending (in_port c') \<longleftrightarrow> flush_pending (in_port c) \<and> use_cnt (in_port c') \<noteq> 0"
    by (simp add: c'_def give_back_stream_fields(5))
  have u: "use_cnt (in_port c') = use_cnt (returned_port K c q)" by (simp add: c'_def give_back_stream_fields(5))
  show "answers VDEC_MSG_RESP_FLUSH_INPUT_DONE c' = answers VDEC_MSG_RESP_FLUSH_INPUT_DONE c +
       (if flush_pending (in_port c) \<and> use_cnt (in_port c') = 0 then 1 else 0)"
    unfolding u by (auto simp: c'_def give_back_stream_def returned_port_def idle_stream_def Let_def stream_flush_done_def)
qed

lemma flush_input_answers:
  assumes "chan_wf K c"
  shows "answers VDEC_MSG_RESP_FLUSH_INPUT_DONE (fst (snd (channel_flush_in_port E K c w))) =
    answers VDEC_MSG_RESP_FLUSH_INPUT_DONE c + (if use_cnt (in_port c) = 0 then 1 else 0)"
proof -
  have "filter (\<lambda>m. case m of Msg k st d \<Rightarrow> k = VDEC_MSG_RESP_FLUSH_INPUT_DONE) (map (\<lambda>q. input_done (f q)) xs) = []"
    for f and xs :: "nat list" by (induction xs) (simp_all add: input_done_def)
  moreover obtain r c' w' where f: "channel_flush_in_port E K c w = (r, c', w')" by (rule prod_cases3)
  ultimately show ?thesis using flush_in_port_spec(6) [OF assms f] by (simp add: answers_def)
qed

interpretation input_flush: drain "channel_ok K" streams_in_use input_pending input_answers "\<lambda>_. True"
  "flush_input E K" returns_held returns_stream "stream_act E G K junk" for E G K junk
proof
  fix s :: "OMXVDEC_CHAN_CTX \<times> world"
  obtain c w where s: "s = (c, w)" by (cases s)
  assume "channel_ok K s"
  then have wf: "chan_wf K c" by (simp add: channel_ok_def s)
  obtain r c' w' where f: "channel_flush_in_port E K c w = (r, c', w')" by (rule prod_cases3)
  note sp = flush_in_port_spec [OF wf f]
  show "channel_ok K (flush_input E K s) \<and> streams_in_use (flush_input E K s) = streams_in_use s \<and>
    (input_pending (flush_input E K s) \<longleftrightarrow> streams_in_use s \<noteq> 0) \<and>
    input_answers (flush_input E K s) = input_answers s + (if streams_in_use s = 0 then 1 else 0)"
    using sp flush_input_answers [OF wf, of E w] f
    by (simp add: s channel_ok_def flush_input_def streams_in_use_def input_pending_def input_answers_def unat_eq_zero)
next
  fix s s' :: "OMXVDEC_CHAN_CTX \<times> world" and a
  obtain c w where s: "s = (c, w)" by (cases s)
  obtain c' w' where s': "s' = (c', w')" by (cases s')
  assume "channel_ok K s" "returns_held s a" "stream_act E G K junk s a = Some s'" "returns_stream s a"
  then have wf: "chan_wf K c" by (simp add: channel_ok_def s)
  obtain sd q where a: "a = Release_Stream sd" "port_at (in_port c) (PhyAddr sd) = Some q"
    using \<open>returns_stream s a\<close> by (cases a) (auto simp: s)
  obtain r where rel: "release_stream E G K junk sd c w = Some (r, c', w')"
    using \<open>stream_act E G K junk s a = Some s'\<close> by (auto simp: s s' a)
  have h: "stream_held c (PhyAddr sd)" using \<open>returns_held s a\<close> by (simp add: s a)
  obtain R where c': "c' = (give_back_stream K junk c q)\<lparr>omx_vdec_lowdelay_proc_rec := R\<rparr>"
    using rel a(2) by (cases rule: release_stream_cases) auto
  have q: "q \<in> set (queue (in_port c))" "in_use (in_port c) q" using a(2) h port_at_SomeD(1) by (auto simp: stream_held_def)
  show "channel_ok K s' \<and> streams_in_use s = Suc (streams_in_use s') \<and>
    (input_pending s' \<longleftrightarrow> input_pending s \<and> streams_in_use s' \<noteq> 0) \<and>
    input_answers s' = input_answers s + (if input_pending s \<and> streams_in_use s' = 0 then 1 else 0)"
    using give_back_answers [OF q wf, of junk] release_stream_wf [OF wf h rel]
    by (simp add: s s' c' channel_ok_def streams_in_use_def input_pending_def input_answers_def unat_eq_zero)
next
  fix s s' :: "OMXVDEC_CHAN_CTX \<times> world" and a
  obtain c w where s: "s = (c, w)" by (cases s)
  obtain c' w' where s': "s' = (c', w')" by (cases s')
  assume "channel_ok K s" "returns_held s a" "stream_act E G K junk s a = Some s'" "\<not> returns_stream s a"
  then have wf: "chan_wf K c" by (simp add: channel_ok_def s)
  have "chan_wf K c' \<and> same_input c c'"
  proof (cases a)
    case (Empty_Stream d)
    then show ?thesis using \<open>stream_act E G K junk s a = Some s'\<close> empty_same_input [OF wf] empty_this_stream_wf [OF wf]
      by (auto simp: s s')
  next
    case Get_Stream
    then obtain r where g: "get_stream E G K c w = Some (r, c', w')" using \<open>stream_act E G K junk s a = Some s'\<close> by (auto simp: s s')
    show ?thesis using get_stream_wf [OF wf g] get_same_input [OF g] by simp
  next
    case (Release_Stream sd)
    then have "c' = c" using \<open>stream_act E G K junk s a = Some s'\<close> \<open>\<not> returns_stream s a\<close>
      by (auto simp: s s' release_stream_def split: if_splits)
    then show ?thesis using wf by (simp add: same_input_def)
  qed
  then show "channel_ok K s' \<and> (input_pending s' \<longleftrightarrow> input_pending s) \<and> input_answers s' = input_answers s \<and>
      (input_pending s \<longrightarrow> streams_in_use s' = streams_in_use s)"
    by (simp add: s s' channel_ok_def same_input_def streams_in_use_def input_pending_def input_answers_def)
qed

section \<open>Answers to a flush of the output side and to a pause\<close>

datatype frame_op = Fill_Frame OMXVDEC_BUF_DESC | Get_Frame u32 | Return_Frame u32 | Report_Frame HI_DRV_VIDEO_FRAME_S

fun frame_act :: "globals \<Rightarrow> OMXVDEC_CHAN_CTX \<Rightarrow> frame_op \<Rightarrow> OMXVDEC_CHAN_CTX option" where
  "frame_act G c (Fill_Frame d) = map_option snd (channel_fill_this_frame c d)"
| "frame_act G c (Get_Frame len) = Some (snd (processor_get_frame c len))"
| "frame_act G c (Return_Frame a) = Some (snd (processor_release_frame c a))"
| "frame_act G c (Report_Frame f) = Some (snd (processor_report_frame G c f))"

text \<open>The address a frame comes back with.\<close>

fun frame_addr :: "frame_op \<Rightarrow> u32 option" where
  "frame_addr (Return_Frame a) = Some a"
| "frame_addr (Report_Frame f) = Some (u32PhyAddr_Y (stBufAddr_0 f))"
| "frame_addr _ = None"

definition returns_frame :: "OMXVDEC_CHAN_CTX \<Rightarrow> frame_op \<Rightarrow> bool" where
  "returns_frame c a = (case frame_addr a of None \<Rightarrow> False | Some x \<Rightarrow> x \<noteq> 0 \<and> port_at (out_port c) x \<noteq> None)"

definition returns_held_frame :: "OMXVDEC_CHAN_CTX \<Rightarrow> frame_op \<Rightarrow> bool" where
  "returns_held_frame c a = (case frame_addr a of None \<Rightarrow> True | Some x \<Rightarrow> frame_held c x)"

definition frames_in_use :: "OMXVDEC_CHAN_CTX \<Rightarrow> nat" where
  "frames_in_use c = unat (use_cnt (out_port c))"

definition output_pending :: "OMXVDEC_CHAN_CTX \<Rightarrow> bool" where
  "output_pending c = flush_pending (out_port c)"

definition pause_waiting :: "OMXVDEC_CHAN_CTX \<Rightarrow> bool" where
  "pause_waiting c \<longleftrightarrow> pause_pending c \<and> state c \<noteq> CHAN_STATE_WORK"

text \<open>A working channel has no unanswered pause.\<close>

definition pause_ok :: "platform \<Rightarrow> OMXVDEC_CHAN_CTX \<Rightarrow> bool" where
  "pause_ok K c \<longleftrightarrow> chan_wf K c \<and> (pause_pending c \<longrightarrow> state c \<noteq> CHAN_STATE_WORK)"

lemma frames_done_answers:
  "answers VDEC_MSG_RESP_FLUSH_OUTPUT_DONE (frames_done c) = answers VDEC_MSG_RESP_FLUSH_OUTPUT_DONE c +
     (if flush_pending (out_port c) \<and> use_cnt (out_port c) = 0 then 1 else 0)"
  "answers VDEC_MSG_RESP_PAUSE_DONE (frames_done c) = answers VDEC_MSG_RESP_PAUSE_DONE c +
     (if pause_pending c \<and> use_cnt (out_port c) = 0 then 1 else 0)"
  by (simp_all add: frames_done_def answer_pause_def answer_flush_def)

text \<open>What a frame that comes back does to the channel, whichever way it takes.\<close>

definition frame_came_back :: "OMXVDEC_CHAN_CTX \<Rightarrow> OMXVDEC_CHAN_CTX \<Rightarrow> bool" where
  "frame_came_back c c' \<longleftrightarrow> frames_in_use c = Suc (frames_in_use c') \<and> state c' = state c \<and>
     (flush_pending (out_port c') \<longleftrightarrow> flush_pending (out_port c) \<and> frames_in_use c' \<noteq> 0) \<and>
     (pause_pending c' \<longleftrightarrow> pause_pending c \<and> frames_in_use c' \<noteq> 0) \<and>
     answers VDEC_MSG_RESP_FLUSH_OUTPUT_DONE c' = answers VDEC_MSG_RESP_FLUSH_OUTPUT_DONE c +
       (if flush_pending (out_port c) \<and> frames_in_use c' = 0 then 1 else 0) \<and>
     answers VDEC_MSG_RESP_PAUSE_DONE c' = answers VDEC_MSG_RESP_PAUSE_DONE c +
       (if pause_pending c \<and> frames_in_use c' = 0 then 1 else 0)"

lemma frame_came_backI:
  assumes "chan_wf K c" "q \<in> set (queue (out_port c))" "in_use (out_port c) q"
    and p: "use_cnt (out_port c1) = use_cnt (port_uncount (out_port c))" "flush_pending (out_port c1) = flush_pending (out_port c)"
    and f: "pause_pending c1 = pause_pending c" "state c1 = state c"
      "\<And>code. code \<in> {VDEC_MSG_RESP_FLUSH_OUTPUT_DONE, VDEC_MSG_RESP_PAUSE_DONE} \<Longrightarrow> answers code c1 = answers code c"
  shows "frame_came_back c (frames_done c1)"
proof -
  have "use_cnt (out_port c) \<noteq> 0" using assms(2,3) use_cnt_0 [OF chan_wfD(2) [OF assms(1)]] by (auto simp: users_def)
  then have "unat (use_cnt (out_port c)) = Suc (unat (use_cnt (port_uncount (out_port c))))"
    using unat_minus_one [of "use_cnt (out_port c)"] by (simp add: port_uncount_def word_neq_0_conv unat_gt_0)
  then show ?thesis
    using p f by (simp add: frame_came_back_def frames_in_use_def frames_done_fields frames_done_answers unat_eq_zero)
qed

lemma released_port_counts:
  "use_cnt (released_port c q) = use_cnt (port_uncount (out_port c))" "flush_pending (released_port c q) = flush_pending (out_port c)"
  by (simp_all add: released_port_def Let_def port_uncount_def)

lemma reported_port_counts:
  "use_cnt (reported_port c q len) = use_cnt (port_uncount (out_port c))" "flush_pending (reported_port c q len) = flush_pending (out_port c)"
  by (simp_all add: reported_port_def port_uncount_def)

lemma frame_returned:
  assumes wf: "chan_wf K c" and h: "returns_held_frame c a" and r: "returns_frame c a" and act: "frame_act G c a = Some c'"
  shows "chan_wf K c' \<and> frame_came_back c c'"
proof -
  obtain x q where x: "frame_addr a = Some x" "x \<noteq> 0" "port_at (out_port c) x = Some q" "frame_held c x"
    using r h by (auto simp: returns_frame_def returns_held_frame_def split: option.splits)
  have q: "q \<in> set (queue (out_port c))" "in_use (out_port c) q" using x port_at_SomeD(1) by (auto simp: frame_held_def)
  show ?thesis
  proof (cases a)
    case (Return_Frame y)
    then have y: "y = x" "c' = snd (processor_release_frame c x)" using x act by auto
    show ?thesis
    proof (cases rule: release_frame_cases [where c = c and a = x])
      case (refused r)
      then show ?thesis using x by simp
    next
      case (waits q')
      let ?c1 = "message_queue (c\<lparr>out_port := released_port c q\<rparr>) VDEC_MSG_RESP_OUTPUT_DONE VDEC_S_SUCCESS
        (BUF_DATA (returned_frame (port_buf (out_port c) q)))"
      have "frame_came_back c (frames_done ?c1)"
        by (rule frame_came_backI [OF wf q]) (auto simp: released_port_counts)
      then show ?thesis using waits x y release_frame_wf [OF wf x(4) surjective_pairing] by simp
    next
      case (again q')
      have b: "q < length (bufs (out_port c))" using queue_bound [OF chan_wfD(2) [OF wf] q(1)] .
      let ?c1 = "c\<lparr>out_port := released_port c q\<rparr>"
      have "frame_came_back c (frames_done ?c1)"
        by (rule frame_came_backI [OF wf q]) (auto simp: released_port_counts)
      moreover have "frames_done ?c1 = ?c1" using again
        by (simp add: frames_done_def answer_pause_def answer_flush_def released_port_counts)
      ultimately show ?thesis using again x y b release_frame_wf [OF wf x(4) surjective_pairing] by simp
    qed
  next
    case (Report_Frame f)
    then have f: "u32PhyAddr_Y (stBufAddr_0 f) = x" "c' = snd (processor_report_frame G c f)" using x act by auto
    show ?thesis
    proof (cases rule: report_frame_cases [where G = G and c = c and f = f])
      case refused
      then show ?thesis using x f by simp
    next
      case (reported q' i e)
      then have q': "q' = q" using x f by simp
      let ?d = "reported_desc G c (port_buf (out_port c) q) f"
      let ?c1 = "c\<lparr>last_frame_info_0 := i, eof_send_flag := e,
          msgs := msgs c @ [Msg VDEC_MSG_RESP_OUTPUT_DONE VDEC_S_SUCCESS (BUF_DATA ?d)],
          out_port := reported_port c q (data_len ?d)\<rparr>"
      have "frame_came_back c (frames_done ?c1)"
        by (rule frame_came_backI [OF wf q]) (auto simp: reported_port_counts answers_def)
      then show ?thesis using reported(3) q' f x report_frame_wf [OF wf _ surjective_pairing, of f G] by simp
    qed
  qed (use x in auto)
qed

text \<open>Everything else leaves the flags and the answers alone, and the counter while new frames are refused.\<close>

definition same_output :: "OMXVDEC_CHAN_CTX \<Rightarrow> OMXVDEC_CHAN_CTX \<Rightarrow> bool" where
  "same_output c c' \<longleftrightarrow>
     (flush_pending (out_port c) \<or> state c \<noteq> CHAN_STATE_WORK \<longrightarrow> use_cnt (out_port c') = use_cnt (out_port c)) \<and> flush_pending (out_port c') = flush_pending (out_port c) \<and>
     pause_pending c' = pause_pending c \<and> state c' = state c \<and>
     answers VDEC_MSG_RESP_FLUSH_OUTPUT_DONE c' = answers VDEC_MSG_RESP_FLUSH_OUTPUT_DONE c \<and>
     answers VDEC_MSG_RESP_PAUSE_DONE c' = answers VDEC_MSG_RESP_PAUSE_DONE c"

lemma frame_kept:
  assumes wf: "chan_wf K c" and r: "\<not> returns_frame c a" and act: "frame_act G c a = Some c'"
  shows "chan_wf K c' \<and> same_output c c'"
proof -
  have same: ?thesis if "c' = c" using that wf by (simp add: same_output_def)
  show ?thesis
  proof (cases a)
    case (Fill_Frame d)
    then obtain r where f: "channel_fill_this_frame c d = Some (r, c')" using act by auto
    from chan_wfD(2) [OF wf] f have "same_output c c'" by (cases rule: fill_cases) (simp_all add: same_output_def)
    then show ?thesis using fill_wf [OF wf f] by simp
  next
    case (Get_Frame len)
    obtain r where g: "processor_get_frame c len = (r, c')" using act Get_Frame by (cases "processor_get_frame c len") auto
    have "same_output c c'"
    proof (cases r)
      case None
      then show ?thesis using get_frame_None [OF g [unfolded None]] by (simp add: same_output_def)
    next
      case (Some s)
      obtain q p where t: "port_take (out_port c) len = Some (q, p)" and "c' = c\<lparr>out_port := p\<rparr>" "state c = CHAN_STATE_WORK"
        "\<not> flush_pending (out_port c)" using get_frame_Some [OF g [unfolded Some]] by metis
      then show ?thesis using port_take_SomeD(4) [OF t] by (simp add: same_output_def)
    qed
    then show ?thesis using get_frame_wf [OF wf g] by simp
  next
    case (Return_Frame x)
    then show ?thesis using act r
      by (intro same) (auto simp: returns_frame_def processor_release_frame_def)
  next
    case (Report_Frame f)
    then show ?thesis using act r
      by (intro same) (auto simp: returns_frame_def processor_report_frame_def Let_def)
  qed
qed

definition flush_output :: "env \<Rightarrow> platform \<Rightarrow> world \<Rightarrow> OMXVDEC_CHAN_CTX \<Rightarrow> OMXVDEC_CHAN_CTX" where
  "flush_output E K w c = fst (snd (channel_flush_out_port E K c w))"

definition pause :: "OMXVDEC_CHAN_CTX \<Rightarrow> OMXVDEC_CHAN_CTX" where
  "pause c = snd (channel_pause_inst c)"

lemma flush_output_spec:
  assumes "chan_wf K c"
  shows "chan_wf K (flush_output E K w c)" "frames_in_use (flush_output E K w c) = frames_in_use c"
    "output_pending (flush_output E K w c) \<longleftrightarrow> frames_in_use c \<noteq> 0"
    "answers VDEC_MSG_RESP_FLUSH_OUTPUT_DONE (flush_output E K w c) =
       answers VDEC_MSG_RESP_FLUSH_OUTPUT_DONE c + (if frames_in_use c = 0 then 1 else 0)"
proof -
  obtain w' where f: "flush_output E K w c = flush_frames (before_flush c)"
    using flush_out_port_frames [of E K c w] by (auto simp: flush_output_def)
  have wf: "chan_wf K (before_flush c)" using assms by simp
  note sp = flush_frames_spec [OF wf, folded f]
  show "chan_wf K (flush_output E K w c)" by (rule sp(1))
  show "frames_in_use (flush_output E K w c) = frames_in_use c"
    "output_pending (flush_output E K w c) \<longleftrightarrow> frames_in_use c \<noteq> 0"
    by (simp_all add: frames_in_use_def output_pending_def sp(3,4) unat_eq_zero)
  have "filter (\<lambda>m. case m of Msg k st d \<Rightarrow> k = VDEC_MSG_RESP_FLUSH_OUTPUT_DONE) (map (\<lambda>q. output_done (g q)) xs) = []"
    for g and xs :: "nat list" by (induction xs) (simp_all add: output_done_def)
  then show "answers VDEC_MSG_RESP_FLUSH_OUTPUT_DONE (flush_output E K w c) =
       answers VDEC_MSG_RESP_FLUSH_OUTPUT_DONE c + (if frames_in_use c = 0 then 1 else 0)"
    by (simp add: answers_def frames_in_use_def sp(5) unat_eq_zero)
qed

interpretation output_flush: drain "chan_wf K" frames_in_use output_pending "answers VDEC_MSG_RESP_FLUSH_OUTPUT_DONE"
  "\<lambda>_. True" "flush_output E K w" returns_held_frame returns_frame "frame_act G" for E G K w
proof
  fix s s' a
  show "chan_wf K (flush_output E K w s) \<and> frames_in_use (flush_output E K w s) = frames_in_use s \<and>
    (output_pending (flush_output E K w s) \<longleftrightarrow> frames_in_use s \<noteq> 0) \<and>
    answers VDEC_MSG_RESP_FLUSH_OUTPUT_DONE (flush_output E K w s) =
      answers VDEC_MSG_RESP_FLUSH_OUTPUT_DONE s + (if frames_in_use s = 0 then 1 else 0)" if "chan_wf K s"
    using flush_output_spec [OF that] by blast
  show "chan_wf K s' \<and> frames_in_use s = Suc (frames_in_use s') \<and>
    (output_pending s' \<longleftrightarrow> output_pending s \<and> frames_in_use s' \<noteq> 0) \<and>
    answers VDEC_MSG_RESP_FLUSH_OUTPUT_DONE s' = answers VDEC_MSG_RESP_FLUSH_OUTPUT_DONE s +
      (if output_pending s \<and> frames_in_use s' = 0 then 1 else 0)"
    if "chan_wf K s" "returns_held_frame s a" "frame_act G s a = Some s'" "returns_frame s a"
    using frame_returned [OF that(1,2,4,3)] by (simp add: frame_came_back_def output_pending_def)
  show "chan_wf K s' \<and> (output_pending s' \<longleftrightarrow> output_pending s) \<and>
    answers VDEC_MSG_RESP_FLUSH_OUTPUT_DONE s' = answers VDEC_MSG_RESP_FLUSH_OUTPUT_DONE s \<and>
    (output_pending s \<longrightarrow> frames_in_use s' = frames_in_use s)"
    if "chan_wf K s" "frame_act G s a = Some s'" "\<not> returns_frame s a"
    using frame_kept [OF that(1,3,2)] by (simp add: same_output_def output_pending_def frames_in_use_def)
qed

interpretation pausing: drain "pause_ok K" frames_in_use pause_waiting "answers VDEC_MSG_RESP_PAUSE_DONE"
  "\<lambda>c. state c = CHAN_STATE_WORK" pause returns_held_frame returns_frame "frame_act G" for G K
proof
  fix s s' a
  show "pause_ok K (pause s) \<and> frames_in_use (pause s) = frames_in_use s \<and>
    (pause_waiting (pause s) \<longleftrightarrow> frames_in_use s \<noteq> 0) \<and>
    answers VDEC_MSG_RESP_PAUSE_DONE (pause s) = answers VDEC_MSG_RESP_PAUSE_DONE s + (if frames_in_use s = 0 then 1 else 0)"
    if "pause_ok K s" "state s = CHAN_STATE_WORK"
    using that pause_wf [OF _ surjective_pairing, of K s, folded pause_def]
    by (auto simp: pause_ok_def pause_def channel_pause_inst_def frames_in_use_def pause_waiting_def unat_eq_zero)
  show "pause_ok K s' \<and> frames_in_use s = Suc (frames_in_use s') \<and>
    (pause_waiting s' \<longleftrightarrow> pause_waiting s \<and> frames_in_use s' \<noteq> 0) \<and>
    answers VDEC_MSG_RESP_PAUSE_DONE s' = answers VDEC_MSG_RESP_PAUSE_DONE s +
      (if pause_waiting s \<and> frames_in_use s' = 0 then 1 else 0)"
    if "pause_ok K s" "returns_held_frame s a" "frame_act G s a = Some s'" "returns_frame s a"
    using frame_returned [of K, OF _ that(2,4,3)] that(1) by (auto simp: frame_came_back_def pause_waiting_def pause_ok_def)
  show "pause_ok K s' \<and> (pause_waiting s' \<longleftrightarrow> pause_waiting s) \<and>
    answers VDEC_MSG_RESP_PAUSE_DONE s' = answers VDEC_MSG_RESP_PAUSE_DONE s \<and>
    (pause_waiting s \<longrightarrow> frames_in_use s' = frames_in_use s)"
    if "pause_ok K s" "frame_act G s a = Some s'" "\<not> returns_frame s a"
    using frame_kept [of K, OF _ that(3,2)] that(1)
    by (auto simp: same_output_def pause_waiting_def frames_in_use_def pause_ok_def)
qed

section \<open>A flush and a pause are answered exactly once\<close>

text \<open>The example channel after the firmware has taken a stream, and that stream.\<close>

definition busy_chan :: OMXVDEC_CHAN_CTX where
  "busy_chan = (case get_stream example_env default_globals omx_platform example_chan example_world of
     None \<Rightarrow> example_chan | Some (_, c, _) \<Rightarrow> c)"

definition example_stream :: STREAM_DATA_S where
  "example_stream = stream_of omx_platform example_chan (port_buf example_port 1)"

lemmas evaluate_protocol = evaluate busy_chan_def example_stream_def answers_def channel_flush_in_port_def port_flush_def
  clear_stream_def decoder_clear_stream_def ext_def release_stream_def give_back_stream_def stream_flush_done_def
  port_at_def stream_held_def returned_stream_def port_uncount_def input_done_def flushed_stream_def
  processor_release_frame_def port_idle_def returned_frame_def frames_done_def answer_flush_def answer_pause_def
  frame_held_def output_done_def channel_pause_inst_def channel_flush_out_port_def flush_frames_def channel_reset_inst_def
  processor_get_frame_def before_flush_def returns_frame_def returns_held_frame_def

lemma busy_chan_wf: "chan_wf omx_platform busy_chan"
  using get_stream_wf [OF example_chan_wf] example_chan_wf by (auto simp: busy_chan_def split: option.splits)


text \<open>
  C11: a flush of the input side is answered exactly once, however the run goes on: with the
  \<open>n\<close> streams the firmware held given back (at once if it held none), and not before,
  whatever is handed in, asked for or given back meanwhile; until then the flush stays pending.
\<close>

theorem flush_input_answered:
  assumes "chan_wf K c" "channel_flush_in_port E K c w = (r, c1, w1)" "n = unat (use_cnt (in_port c))"
    and "drain_run returns_held returns_stream (stream_act E G K junk) (c1, w1) ops = Some (given, c2, w2)"
  shows "(flush_pending (in_port c2) \<longleftrightarrow> given < n) \<and>
    answers VDEC_MSG_RESP_FLUSH_INPUT_DONE c2 = answers VDEC_MSG_RESP_FLUSH_INPUT_DONE c + (if given < n then 0 else 1)"
proof -
  have r: "flush_input E K (c, w) = (c1, w1)" using assms(2) by (simp add: flush_input_def)
  have ok: "channel_ok K (c, w)" using assms(1) by (simp add: channel_ok_def)
  show ?thesis
    using input_flush.answered_once [where K = K and E = E and G = G and junk = junk, OF ok TrueI, unfolded r, OF assms(4)] assms(3)
    by (simp add: streams_in_use_def input_pending_def input_answers_def)
qed

theorem flush_input_answered_witness:
  "\<exists>c1 w1 c2 w2 c3 w3. use_cnt (in_port busy_chan) = 1 \<and>
     channel_flush_in_port example_env omx_platform busy_chan example_world = (HI_SUCCESS, c1, w1) \<and>
     drain_run returns_held returns_stream (stream_act example_env default_globals omx_platform zero_desc) (c1, w1)
       [Get_Stream] = Some (0, c2, w2) \<and> flush_pending (in_port c2) \<and>
     drain_run returns_held returns_stream (stream_act example_env default_globals omx_platform zero_desc) (c1, w1)
       [Get_Stream, Release_Stream example_stream, Get_Stream] = Some (1, c3, w3) \<and>
     \<not> flush_pending (in_port c3) \<and> answers VDEC_MSG_RESP_FLUSH_INPUT_DONE c3 = 1"
proof -
  obtain r c1 w1 where f: "channel_flush_in_port example_env omx_platform busy_chan example_world = (r, c1, w1)"
    by (rule prod_cases3)
  let ?run = "drain_run returns_held returns_stream (stream_act example_env default_globals omx_platform zero_desc)
    (snd (channel_flush_in_port example_env omx_platform busy_chan example_world))"
  have u: "use_cnt (in_port busy_chan) = 1" "r = HI_SUCCESS" "answers VDEC_MSG_RESP_FLUSH_INPUT_DONE busy_chan = 0"
    using f by (simp_all add: evaluate_protocol)
  have k: "map_option fst (?run [Get_Stream]) = Some 0" "map_option fst (?run [Get_Stream, Release_Stream example_stream, Get_Stream]) = Some 1"
    by (simp_all add: evaluate_protocol)
  obtain c2 w2 where c2: "?run [Get_Stream] = Some (0, c2, w2)" using k(1) by (auto simp del: drain_run.simps)
  obtain c3 w3 where c3: "?run [Get_Stream, Release_Stream example_stream, Get_Stream] = Some (1, c3, w3)"
    using k(2) by (auto simp del: drain_run.simps)
  show ?thesis
    using flush_input_answered [OF busy_chan_wf f refl] c2 c3 f u by (auto simp del: drain_run.simps)
qed

text \<open>
  C12: a flush of the output side is answered exactly once: when the frames the post-processor held
  have come back, whether as decoded frames or unused, and not before.
\<close>

theorem flush_output_answered:
  assumes "chan_wf K c" "channel_flush_out_port E K c w = (r, c1, w1)" "n = unat (use_cnt (out_port c))"
    and "drain_run returns_held_frame returns_frame (frame_act G) c1 ops = Some (given, c2)"
  shows "(flush_pending (out_port c2) \<longleftrightarrow> given < n) \<and>
    answers VDEC_MSG_RESP_FLUSH_OUTPUT_DONE c2 = answers VDEC_MSG_RESP_FLUSH_OUTPUT_DONE c + (if given < n then 0 else 1)"
proof -
  have r: "flush_output E K w c = c1" using assms(2) by (simp add: flush_output_def)
  show ?thesis
    using output_flush.answered_once [where K = K and E = E and G = G and w = w, OF assms(1) TrueI, unfolded r, OF assms(4)] assms(3)
    by (simp add: frames_in_use_def output_pending_def)
qed

theorem flush_output_answered_witness:
  "\<exists>c1 w1 c2 c3. channel_flush_out_port example_env omx_platform example_chan example_world = (HI_SUCCESS, c1, w1) \<and>
     drain_run returns_held_frame returns_frame (frame_act default_globals) c1 [Get_Frame 64] = Some (0, c2) \<and>
     flush_pending (out_port c2) \<and>
     drain_run returns_held_frame returns_frame (frame_act default_globals) c1 [Get_Frame 64, Return_Frame 0x5000] = Some (1, c3) \<and>
     \<not> flush_pending (out_port c3) \<and> answers VDEC_MSG_RESP_FLUSH_OUTPUT_DONE c3 = 1"
proof -
  obtain r c1 w1 where f: "channel_flush_out_port example_env omx_platform example_chan example_world = (r, c1, w1)"
    by (rule prod_cases3)
  let ?run = "drain_run returns_held_frame returns_frame (frame_act default_globals)"
  have u: "use_cnt (out_port example_chan) = 1" "answers VDEC_MSG_RESP_FLUSH_OUTPUT_DONE example_chan = 0"
    by (simp_all add: evaluate_protocol)
  have c1: "r = HI_SUCCESS" "c1 = flush_frames (before_flush example_chan)"
    using flush_out_port_frames [of example_env omx_platform example_chan example_world] f by auto
  have k: "map_option fst (?run c1 [Get_Frame 64]) = Some 0" "map_option fst (?run c1 [Get_Frame 64, Return_Frame 0x5000]) = Some 1"
    unfolding c1(2) by (simp_all add: evaluate_protocol)
  obtain c2 where c2: "?run c1 [Get_Frame 64] = Some (0, c2)" using k(1) by (auto simp del: drain_run.simps)
  obtain c3 where c3: "?run c1 [Get_Frame 64, Return_Frame 0x5000] = Some (1, c3)" using k(2) by (auto simp del: drain_run.simps)
  show ?thesis
    using flush_output_answered [OF example_chan_wf f refl] c2 c3 c1(1) f u by (auto simp del: drain_run.simps)
qed

text \<open>
  C13: a pause of a working channel is answered exactly once: when the frames the post-processor
  held have come back, and not before.
\<close>

theorem pause_answered:
  assumes "chan_wf K c" "state c = CHAN_STATE_WORK" "\<not> pause_pending c" "n = unat (use_cnt (out_port c))"
    and "drain_run returns_held_frame returns_frame (frame_act G) (snd (channel_pause_inst c)) ops = Some (given, c2)"
  shows "(pause_waiting c2 \<longleftrightarrow> given < n) \<and>
    answers VDEC_MSG_RESP_PAUSE_DONE c2 = answers VDEC_MSG_RESP_PAUSE_DONE c + (if given < n then 0 else 1)"
proof -
  have ok: "pause_ok K c" using assms(1,3) by (simp add: pause_ok_def)
  show ?thesis
    using pausing.answered_once [where K = K and G = G, OF ok assms(2), unfolded pause_def, OF assms(5)] assms(4)
    by (simp add: frames_in_use_def)
qed
theorem pause_answered_witness:
  "\<exists>c2 c3.
     drain_run returns_held_frame returns_frame (frame_act default_globals) (snd (channel_pause_inst example_chan)) [Get_Frame 64] =
       Some (0, c2) \<and> pause_waiting c2 \<and>
     drain_run returns_held_frame returns_frame (frame_act default_globals) (snd (channel_pause_inst example_chan))
       [Get_Frame 64, Return_Frame 0x5000] = Some (1, c3) \<and>
     \<not> pause_waiting c3 \<and> answers VDEC_MSG_RESP_PAUSE_DONE c3 = 1"
proof -
  let ?run = "drain_run returns_held_frame returns_frame (frame_act default_globals) (snd (channel_pause_inst example_chan))"
  have u: "use_cnt (out_port example_chan) = 1" "answers VDEC_MSG_RESP_PAUSE_DONE example_chan = 0"
    "state example_chan = CHAN_STATE_WORK" "\<not> pause_pending example_chan"
    by (simp_all add: evaluate_protocol)
  have k: "map_option fst (?run [Get_Frame 64]) = Some 0" "map_option fst (?run [Get_Frame 64, Return_Frame 0x5000]) = Some 1"
    by (simp_all add: evaluate_protocol)
  obtain c2 where c2: "?run [Get_Frame 64] = Some (0, c2)" using k(1) by (auto simp del: drain_run.simps)
  obtain c3 where c3: "?run [Get_Frame 64, Return_Frame 0x5000] = Some (1, c3)" using k(2) by (auto simp del: drain_run.simps)
  show ?thesis
    using pause_answered [OF example_chan_wf u(3,4) refl] c2 c3 u by (auto simp del: drain_run.simps)
qed

text \<open>
  C17: a flush of both sides returns every waiting buffer once, in the order of the queues, streams
  first, and leaves none waiting; the driver's last frame goes away silently. Each
  side is answered at once if none of its buffers is in use.
\<close>

theorem flush_returns_waiting:
  assumes "chan_wf K c" "channel_flush_inst E K c PORT_DIR_BOTH w = (r, c', w')"
  shows "r = HI_SUCCESS \<and> waiting (in_port c') = [] \<and> waiting (out_port c') = [] \<and>
    msgs c' = msgs c @
      map (\<lambda>q. input_done (flushed_stream (port_buf (in_port c) q))) (filter (\<lambda>q. q \<noteq> last_slot c) (waiting (in_port c))) @
      (if use_cnt (in_port c) = 0 then [Msg VDEC_MSG_RESP_FLUSH_INPUT_DONE VDEC_S_SUCCESS NO_DATA] else []) @
      map (\<lambda>q. output_done (returned_frame (port_buf (out_port c) q))) (waiting (out_port c)) @
      (if use_cnt (out_port c) = 0 then [Msg VDEC_MSG_RESP_FLUSH_OUTPUT_DONE VDEC_S_SUCCESS NO_DATA] else [])"
proof -
  obtain r1 c1 w1 where i: "channel_flush_in_port E K c w = (r1, c1, w1)" by (rule prod_cases3)
  note si = flush_in_port_spec [OF assms(1) i]
  have wf: "chan_wf K (before_flush c1)" using si(1) by simp
  obtain w2 where o: "channel_flush_out_port E K c1 w1 = (HI_SUCCESS, flush_frames (before_flush c1), w2)"
    using flush_out_port_frames by blast
  note so = flush_frames_spec [OF wf]
  have "r = HI_SUCCESS" "c' = flush_frames (before_flush c1)"
    using assms(2) si(2) by (auto simp: channel_flush_inst_def i o)
  then show ?thesis using si so by simp
qed

theorem flush_returns_waiting_witness:
  "\<exists>c' w'. channel_flush_inst example_env omx_platform example_chan PORT_DIR_BOTH example_world = (HI_SUCCESS, c', w') \<and>
    msgs c' = [input_done (flushed_stream (port_buf example_port 1)), Msg VDEC_MSG_RESP_FLUSH_INPUT_DONE VDEC_S_SUCCESS NO_DATA,
      output_done (returned_frame (port_buf example_out_port 1))]"
proof -
  obtain r c' w' where f: "channel_flush_inst example_env omx_platform example_chan PORT_DIR_BOTH example_world = (r, c', w')"
    by (rule prod_cases3)
  have e: "in_port example_chan = example_port" "out_port example_chan = example_out_port" "msgs example_chan = []"
    "waiting example_port = [1]" "waiting example_out_port = [1]" "last_slot example_chan = 3" "use_cnt example_out_port = 1"
    by (simp_all add: evaluate)
  show ?thesis using flush_returns_waiting [OF example_chan_wf f] f by (simp add: e)
qed

end
