(* ===== verification/Omx_Entry.thy ===== *)
theory Omx_Entry
  imports Omx_Channel
begin

text \<open>
  The character device of the OMX video decoder driver, \<open>omxvdec.c\<close>: opening and closing
  the device and the dispatch of its requests to the channels.
\<close>

datatype dev_ret = DEV_OK | DEV_EFAULT | DEV_EINVAL | DEV_EIO | DEV_EAGAIN | DEV_ENOTTY | DEV_EBUSY | DEV_FAILURE

section \<open>Opening and closing\<close>

definition MAX_OPEN_COUNT :: u32 where "MAX_OPEN_COUNT = 32"

text \<open>The work of the first open: start the parts, the allocation task and the time-stamp table.\<close>

definition first_open :: "env \<Rightarrow> platform \<Rightarrow> driver \<Rightarrow> hi_ret \<times> driver" where
  "first_open E K d =
     (case channel_init E (wld d) of (r1, w1) \<Rightarrow>
      if r1 \<noteq> HI_SUCCESS then (HI_FAILURE, d\<lparr>wld := w1\<rparr>) else
      case (if g_DynamicFsEnable (globs d) \<and> \<not> task_thread d then ext E TASK_CREATE w1 else (HI_SUCCESS, w1)) of
        (r2, w2) \<Rightarrow>
      if r2 \<noteq> HI_SUCCESS then (HI_FAILURE, d\<lparr>wld := channel_exit E w2\<rparr>)
      else (HI_SUCCESS, d\<lparr>task_thread := task_thread d \<or> g_DynamicFsEnable (globs d),
                          wld := w2\<lparr>pts_table := snd (OMX_PTSREC_Init K (pts_table w2))\<rparr>\<rparr>))"

definition omxvdec_open :: "env \<Rightarrow> platform \<Rightarrow> driver \<Rightarrow> dev_ret \<times> driver" where
  "omxvdec_open E K d =
     (if open_count d < MAX_OPEN_COUNT then
        (let d1 = d\<lparr>open_count := open_count d + 1\<rparr> in
         if open_count d1 = 1 then
           (case first_open E K d1 of (r, d2) \<Rightarrow>
            if r \<noteq> HI_SUCCESS then (DEV_FAILURE, d2\<lparr>open_count := open_count d2 - 1\<rparr>) else (DEV_OK, d2))
         else (DEV_OK, d1))
      else (DEV_EBUSY, d))"

text \<open>
  The walk over the channels of a file that is closed, from position \<open>i\<close> over the \<open>n\<close>
  channels that are left; a released channel leaves the list.
\<close>

fun release_loop :: "env \<Rightarrow> vpss_platform \<Rightarrow> u32 \<Rightarrow> nat \<Rightarrow> nat \<Rightarrow> driver \<Rightarrow> driver" where
  "release_loop E V fd 0 i d = d"
| "release_loop E V fd (Suc n) i d =
     (if file_dec (chan_list d ! i) = fd \<and> state (chan_list d ! i) \<noteq> CHAN_STATE_INVALID
      then (case channel_release_inst E V d i of (r, d') \<Rightarrow>
            if r = HI_SUCCESS then release_loop E V fd n i d' else release_loop E V fd n (Suc i) d')
      else release_loop E V fd n (Suc i) d)"

definition omxvdec_release :: "env \<Rightarrow> vpss_platform \<Rightarrow> u32 \<Rightarrow> driver \<Rightarrow> dev_ret \<times> driver" where
  "omxvdec_release E V fd d =
     (let d1 = release_loop E V fd (length (chan_list d)) 0 d;
          d2 = (if open_count d1 > 0 then d1\<lparr>open_count := open_count d1 - 1\<rparr> else d1);
          d3 = (if open_count d2 = 0
                then (let w = ext_do E TASK_DESTROY (channel_exit E (wld d2)) in
                      d2\<lparr>task_thread := False,
                         wld := w\<lparr>pts_table := snd (OMX_PTSREC_DeInit (pts_table w))\<rparr>\<rparr>)
                else d2)
      in (DEV_OK, d3))"

section \<open>Requests\<close>

text \<open>
  \<open>None\<close> in the argument of a request is a failing \<open>copy_from_user\<close>; the truth values say
  whether \<open>copy_to_user\<close> succeeds.
\<close>

datatype ioctl =
    VDEC_IOCTL_CHAN_CREATE "OMXVDEC_DRV_CFG option" bool
  | VDEC_IOCTL_CHAN_RELEASE
  | VDEC_IOCTL_FLUSH_PORT "ePORT_DIR option"
  | VDEC_IOCTL_CHAN_BIND_BUFFER "OMXVDEC_BUF_DESC option"
  | VDEC_IOCTL_CHAN_UNBIND_BUFFER "OMXVDEC_BUF_DESC option"
  | VDEC_IOCTL_FILL_OUTPUT_FRAME "OMXVDEC_BUF_DESC option"
  | VDEC_IOCTL_EMPTY_INPUT_STREAM "OMXVDEC_BUF_DESC option"
  | VDEC_IOCTL_CHAN_START | VDEC_IOCTL_CHAN_STOP | VDEC_IOCTL_CHAN_PAUSE | VDEC_IOCTL_CHAN_RESUME
  | VDEC_IOCTL_CHAN_GET_MSG bool
  | VDEC_IOCTL_OTHER

definition dev_of :: "hi_ret \<Rightarrow> dev_ret" where
  "dev_of r = (if r = HI_SUCCESS then DEV_OK else DEV_EFAULT)"

text \<open>
  \<open>channel_get_message\<close>: the queue is outside the repository; its first output word says
  whether a failure is \<open>-EAGAIN\<close>.
\<close>

definition channel_get_message :: "env \<Rightarrow> world \<Rightarrow> dev_ret \<times> world" where
  "channel_get_message E w =
     (case ext_out E MSG_DEQUEUE w of (r, ws, w1) \<Rightarrow>
      (if r = HI_SUCCESS then DEV_OK else if word_at ws 0 = 1 then DEV_EAGAIN else DEV_EFAULT, w1))"

text \<open>A request to an existing channel.\<close>

definition chan_ioctl ::
  "env \<Rightarrow> globals \<Rightarrow> platform \<Rightarrow> vpss_platform \<Rightarrow> OMXVDEC_CHAN_CTX \<Rightarrow> world \<Rightarrow> ioctl \<Rightarrow>
   (dev_ret \<times> OMXVDEC_CHAN_CTX \<times> world) option" where
  "chan_ioctl E G K V c w req =
     (let fin = map_option (\<lambda>(r, c', w'). (dev_of r, c', w')) in
      case req of
        VDEC_IOCTL_CHAN_BIND_BUFFER None \<Rightarrow> Some (DEV_EIO, c, w)
      | VDEC_IOCTL_CHAN_BIND_BUFFER (Some d) \<Rightarrow> fin (Some (channel_bind_user_buffer E V c d w))
      | VDEC_IOCTL_CHAN_UNBIND_BUFFER None \<Rightarrow> Some (DEV_EIO, c, w)
      | VDEC_IOCTL_CHAN_UNBIND_BUFFER (Some d) \<Rightarrow> fin (channel_unbind_user_buffer E c d w)
      | VDEC_IOCTL_EMPTY_INPUT_STREAM None \<Rightarrow> Some (DEV_EIO, c, w)
      | VDEC_IOCTL_EMPTY_INPUT_STREAM (Some d) \<Rightarrow> fin (channel_empty_this_stream E G K c d w)
      | VDEC_IOCTL_FILL_OUTPUT_FRAME None \<Rightarrow> Some (DEV_EIO, c, w)
      | VDEC_IOCTL_FILL_OUTPUT_FRAME (Some d) \<Rightarrow>
          fin (map_option (\<lambda>(r, c'). (r, c', w)) (channel_fill_this_frame c d))
      | VDEC_IOCTL_FLUSH_PORT None \<Rightarrow> Some (DEV_EFAULT, c, w)
      | VDEC_IOCTL_FLUSH_PORT (Some pdir) \<Rightarrow> fin (Some (channel_flush_inst E K c pdir w))
      | VDEC_IOCTL_CHAN_GET_MSG copied \<Rightarrow>
          (case channel_get_message E w of (r, w1) \<Rightarrow>
           Some (if r = DEV_OK \<and> \<not> copied then DEV_EIO else r, c, w1))
      | VDEC_IOCTL_CHAN_PAUSE \<Rightarrow> (case channel_pause_inst c of (r, c') \<Rightarrow> fin (Some (r, c', w)))
      | VDEC_IOCTL_CHAN_RESUME \<Rightarrow> (case channel_resume_inst c of (r, c') \<Rightarrow> fin (Some (r, c', w)))
      | VDEC_IOCTL_CHAN_START \<Rightarrow> fin (Some (channel_start_inst E G K c w))
      | VDEC_IOCTL_CHAN_STOP \<Rightarrow> fin (Some (channel_stop_inst E c w))
      | _ \<Rightarrow> Some (DEV_ENOTTY, c, w))"

text \<open>
  The result carries the number of a created channel. \<open>chan_num\<close> is \<open>None\<close> if the request
  itself cannot be copied.
\<close>

definition omxvdec_ioctl ::
  "env \<Rightarrow> platform \<Rightarrow> vpss_platform \<Rightarrow> (nat \<Rightarrow> OMXVDEC_BUF_S) \<Rightarrow> u32 \<Rightarrow> driver \<Rightarrow> u32 option \<Rightarrow> ioctl \<Rightarrow>
   (dev_ret \<times> u32 option \<times> driver) option" where
  "omxvdec_ioctl E K V mem fd d chan_num req =
     (case chan_num of None \<Rightarrow> Some (DEV_EFAULT, None, d)
      | Some chan_id \<Rightarrow>
        (case req of
           VDEC_IOCTL_CHAN_CREATE None copied \<Rightarrow> Some (DEV_EFAULT, None, d)
         | VDEC_IOCTL_CHAN_CREATE (Some cfg) copied \<Rightarrow>
             map_option (\<lambda>(k, d'). case k of None \<Rightarrow> (DEV_EFAULT, None, d')
                | Some n \<Rightarrow> if sint n < 0 then (DEV_EFAULT, None, d')
                            else if copied then (DEV_OK, Some n, d') else (DEV_EIO, None, d'))
               (channel_create_inst E K V mem fd cfg d)
         | _ \<Rightarrow>
             if sint chan_id < 0 then Some (DEV_EINVAL, None, d)
             else (case channel_find_inst_by_channel_id d chan_id of None \<Rightarrow> Some (DEV_EFAULT, None, d)
               | Some i \<Rightarrow>
                   if req = VDEC_IOCTL_CHAN_RELEASE
                   then (case channel_release_inst E V d i of (r, d') \<Rightarrow> Some (dev_of r, None, d'))
                   else map_option (\<lambda>(r, c, w). (r, None, put_chan d i c w))
                          (chan_ioctl E (globs d) K V (chan_list d ! i) (wld d) req))))"

end
