(* ===== verification/Omx_Proc.thy ===== *)
theory Omx_Proc
  imports Omx_State "HOL-Library.Char_ord"
begin

text \<open>
  The debug interface of the OMX video decoder driver in \<open>/proc\<close>, \<open>omxvdec.c\<close>: the
  two words of a command line, the numbers in it, and the settings a command changes.
  Characters are bytes and compared as unsigned numbers, as \<open>char\<close> is on the target.
\<close>

section \<open>Numbers\<close>

text \<open>A character of a zero-terminated string; zero behind its end.\<close>

definition char_at :: "string \<Rightarrow> nat \<Rightarrow> nat" where
  "char_at s i = (if i < length s then of_char (s ! i) else 0)"

definition digit_value :: "nat \<Rightarrow> nat \<Rightarrow> nat option" where
  "digit_value weight ch =
     (if weight = 16 \<and> 97 \<le> ch \<and> ch \<le> 102 then Some (ch - 97 + 10)
      else if weight = 16 \<and> 65 \<le> ch \<and> ch \<le> 70 then Some (ch - 65 + 10)
      else if 48 \<le> ch \<and> ch \<le> 57 then Some (ch - 48)
      else None)"

fun value_loop :: "string \<Rightarrow> nat \<Rightarrow> nat \<Rightarrow> nat \<Rightarrow> u32 \<Rightarrow> u32 option" where
  "value_loop s weight 0 i dat = Some dat"
| "value_loop s weight (Suc n) i dat =
     (if char_at s i < 0x20 then Some dat
      else case digit_value weight (char_at s i) of None \<Rightarrow> None
        | Some k \<Rightarrow> value_loop s weight n (Suc i) (dat * of_nat weight + of_nat k))"

definition omxvdec_string_to_value :: "string \<Rightarrow> u32 option" where
  "omxvdec_string_to_value s =
     (if char_at s 0 = 48 \<and> (char_at s 1 = 120 \<or> char_at s 1 = 88)
      then value_loop s 16 8 2 0 else value_loop s 10 10 0 0)"

section \<open>Commands\<close>

text \<open>
  One word of the line: leading blanks are skipped, control characters are dropped, a blank
  after the word ends it.
\<close>

fun scan_word :: "string \<Rightarrow> string \<Rightarrow> string \<times> string" where
  "scan_word acc [] = (acc, [])"
| "scan_word acc (ch # rest) =
     (if acc = [] \<and> ch = CHR '' '' then scan_word acc rest
      else let acc' = (if ch > CHR '' '' then acc @ [ch] else acc) in
           if acc' \<noteq> [] \<and> ch = CHR '' '' then (acc', ch # rest) else scan_word acc' rest)"

definition scan_line :: "string \<Rightarrow> string \<times> string" where
  "scan_line buf = (let (w1, rest) = scan_word [] buf; (w2, _) = scan_word [] rest in (w1, w2))"

definition PATH_LEN :: nat where "PATH_LEN = 64"
definition NAME_LEN :: nat where "NAME_LEN = 64"

text \<open>The argument of an on/off or start/stop command.\<close>

definition switch :: "string \<Rightarrow> string \<Rightarrow> string \<Rightarrow> bool option" where
  "switch on off s = (if s = on then Some True else if s = off then Some False else None)"

definition save_path :: "string \<Rightarrow> string option" where
  "save_path s =
     (if 0 < length s \<and> length s < PATH_LEN \<and> hd s = CHR ''/''
      then Some (if last s = CHR ''/'' then butlast s else s) else None)"

definition save_name :: "string \<Rightarrow> string option" where
  "save_name s = (if 0 < length s \<and> length s < NAME_LEN then Some s else None)"

text \<open>A command with its argument; \<open>None\<close> is the label \<open>error\<close>, which changes nothing.\<close>

definition proc_command :: "globals \<Rightarrow> string \<Rightarrow> string \<Rightarrow> globals option" where
  "proc_command G cmd arg =
     (if cmd = ''set_print'' then map_option (\<lambda>v. G\<lparr>g_TraceOption := v\<rparr>) (omxvdec_string_to_value arg)
      else if cmd = ''save_raw'' then
        map_option (\<lambda>b. if b then G\<lparr>g_SaveRawEnable := True, g_SaveNum := g_SaveNum G + 1\<rparr>
                        else G\<lparr>g_SaveRawEnable := False\<rparr>) (switch ''start'' ''stop'' arg)
      else if cmd = ''save_yuv'' then
        map_option (\<lambda>b. if b then G\<lparr>g_SaveYuvEnable := True, g_SaveNum := g_SaveNum G + 1\<rparr>
                        else G\<lparr>g_SaveYuvEnable := False\<rparr>) (switch ''start'' ''stop'' arg)
      else if cmd = ''save_path'' then map_option (\<lambda>s. G\<lparr>g_SavePath := s\<rparr>) (save_path arg)
      else if cmd = ''set_SaveName'' then map_option (\<lambda>s. G\<lparr>g_SaveName := s\<rparr>) (save_name arg)
      else if cmd = ''limit_framerate'' then map_option (\<lambda>b. G\<lparr>g_FrameRateLimit := b\<rparr>) (switch ''on'' ''off'' arg)
      else if cmd = ''set_RawMove'' then map_option (\<lambda>b. G\<lparr>g_RawMoveEnable := b\<rparr>) (switch ''on'' ''off'' arg)
      else if cmd = ''set_Dei'' then map_option (\<lambda>b. G\<lparr>g_DeInterlaceEnable := b\<rparr>) (switch ''on'' ''off'' arg)
      else if cmd = ''set_FastOutput'' then map_option (\<lambda>b. G\<lparr>g_FastOutputMode := b\<rparr>) (switch ''on'' ''off'' arg)
      else if cmd = ''set_DispNum'' then map_option (\<lambda>v. G\<lparr>g_DispNum := v\<rparr>) (omxvdec_string_to_value arg)
      else if cmd = ''set_SegSize'' then map_option (\<lambda>v. G\<lparr>g_SegSize := v\<rparr>) (omxvdec_string_to_value arg)
      else if cmd = ''set_Dfs'' then map_option (\<lambda>b. G\<lparr>g_DynamicFsEnable := b\<rparr>) (switch ''on'' ''off'' arg)
      else if cmd = ''set_LDCountFrm'' then map_option (\<lambda>v. G\<lparr>g_lowdelay_count_frame := v\<rparr>) (omxvdec_string_to_value arg)
      else if cmd = ''set_LD'' then map_option (\<lambda>b. G\<lparr>g_LowDelayStatistics := b\<rparr>) (switch ''on'' ''off'' arg)
      else if cmd = ''help'' then Some G
      else None)"

definition DBG_CMD_LEN :: nat where "DBG_CMD_LEN = 256"

text \<open>
  Writing to the file: \<open>None\<close> in the first component is \<open>HI_FAILURE\<close>, otherwise the number
  of bytes taken. The argument is \<open>None\<close> when it cannot be copied.
\<close>

definition omxvdec_write_proc :: "globals \<Rightarrow> nat \<Rightarrow> string option \<Rightarrow> nat option \<times> globals" where
  "omxvdec_write_proc G count user =
     (if DBG_CMD_LEN \<le> count then (None, G)
      else case user of None \<Rightarrow> (None, G)
        | Some buf \<Rightarrow>
            if count < 1 then (Some count, G)
            else (let (cmd, arg) = scan_line (take count buf) in
                  (Some count, case proc_command G cmd arg of None \<Rightarrow> G | Some G' \<Rightarrow> G')))"

section \<open>Numbers and words\<close>

text \<open>The decimal notation of a number.\<close>

fun digits :: "nat \<Rightarrow> nat list" where
  "digits n = (if n < 10 then [n] else digits (n div 10) @ [n mod 10])"

declare digits.simps [simp del]

definition dec_string :: "nat \<Rightarrow> string" where
  "dec_string n = map (\<lambda>k. char_of (48 + k)) (digits n)"

lemma digits_small: "\<forall>k \<in> set (digits n). k < 10"
  by (induction n rule: digits.induct) (subst digits.simps, auto)

lemma digits_value: "foldl (\<lambda>a k. a * 10 + k) 0 (digits n) = n"
  by (induction n rule: digits.induct) (subst digits.simps, auto)

lemma digits_length: "n < 10 ^ Suc k \<Longrightarrow> length (digits n) \<le> Suc k"
proof (induction k arbitrary: n)
  case 0
  then show ?case by (subst digits.simps) simp
next
  case (Suc k)
  show ?case
  proof (cases "n < 10")
    case True
    then show ?thesis by (subst digits.simps) simp
  next
    case False
    have "n div 10 < 10 ^ Suc k" using Suc.prems by (simp add: div_less_iff_less_mult mult.commute)
    then show ?thesis using Suc.IH [of "n div 10"] False by (subst digits.simps) simp
  qed
qed

lemma digits_nonempty: "digits n \<noteq> []"
  by (subst digits.simps) simp

lemma of_nat_foldl:
  "(of_nat (foldl (\<lambda>a k. a * 10 + k) a ks) :: u32) = foldl (\<lambda>a k. a * 10 + of_nat k) (of_nat a) ks"
  by (induction ks arbitrary: a) simp_all

lemma of_char_digit: "k < 10 \<Longrightarrow> of_char (char_of (48 + k) :: char) = (48 + k :: nat)"
  by (simp add: of_char_of)

lemma value_loop_digits:
  assumes "drop i s = map (\<lambda>k. char_of (48 + k)) ks" "\<forall>k \<in> set ks. k < 10" "length ks \<le> n"
  shows "value_loop s 10 n i dat = Some (foldl (\<lambda>a k. a * 10 + of_nat k) dat ks)"
  using assms
proof (induction n arbitrary: i ks dat)
  case 0
  then show ?case by simp
next
  case (Suc n)
  show ?case
  proof (cases ks)
    case Nil
    then have "length s \<le> i" using Suc.prems(1) by simp
    then show ?thesis using Nil by (simp add: char_at_def)
  next
    case (Cons k ks')
    then have d: "drop i s = char_of (48 + k) # map (\<lambda>k. char_of (48 + k)) ks'" using Suc.prems(1) by simp
    have t: "drop (Suc i) s = tl (drop i s)" by (simp only: drop_Suc tl_drop)
    have "drop i s \<noteq> []" unfolding d by simp
    then have "i < length s" by simp
    then have i: "i < length s" "s ! i = char_of (48 + k)" "drop (Suc i) s = map (\<lambda>k. char_of (48 + k)) ks'"
      using nth_via_drop [OF d] t d by simp_all
    have k: "k < 10" using Suc.prems(2) Cons by simp
    have c: "char_at s i = 48 + k" using i k by (simp add: char_at_def of_char_digit)
    then have "digit_value 10 (char_at s i) = Some k" using k by (simp add: digit_value_def)
    then show ?thesis using Suc.IH [OF i(3)] Suc.prems(2,3) Cons c by simp
  qed
qed

text \<open>
  C33: a decimal number below \<open>2 ^ 32\<close> written into a command is read back exactly; none of
  its up to ten digits is lost.
\<close>

theorem proc_number_roundtrip:
  assumes "n < 2 ^ 32"
  shows "omxvdec_string_to_value (dec_string n) = Some (of_nat n)"
proof -
  have "n < 10 ^ Suc 9" using assms by simp
  then have l: "length (digits n) \<le> 10" using digits_length by fastforce
  have "char_at (dec_string n) 1 \<noteq> 120 \<and> char_at (dec_string n) 1 \<noteq> 88"
  proof (cases "1 < length (digits n)")
    case True
    then have "digits n ! 1 < 10" using digits_small nth_mem by blast
    then show ?thesis using True by (simp add: char_at_def dec_string_def of_char_digit)
  next
    case False
    then show ?thesis by (simp add: char_at_def dec_string_def)
  qed
  then have "omxvdec_string_to_value (dec_string n) = value_loop (dec_string n) 10 10 0 0"
    by (auto simp: omxvdec_string_to_value_def)
  also have "\<dots> = Some (foldl (\<lambda>a k. a * 10 + of_nat k) 0 (digits n))"
    using value_loop_digits [of 0 "dec_string n" "digits n" 10 0] digits_small l by (simp add: dec_string_def)
  also have "\<dots> = Some (of_nat n)" using of_nat_foldl [of 0 "digits n"] by (simp add: digits_value)
  finally show ?thesis .
qed

theorem proc_number_roundtrip_witness:
  "omxvdec_string_to_value (dec_string 4294967295) = Some (- 1)"
  using proc_number_roundtrip [of 4294967295] by simp

text \<open>A word of a command: one character at least, none of them blank or a control character.\<close>

definition proc_word :: "string \<Rightarrow> bool" where
  "proc_word s \<longleftrightarrow> s \<noteq> [] \<and> (\<forall>ch \<in> set s. ch > CHR '' '')"

lemma scan_blanks: "scan_word [] (replicate k CHR '' '' @ s) = scan_word [] s"
  by (induction k) simp_all

lemma scan_graph:
  "acc \<noteq> [] \<or> s = [] \<or> hd s \<noteq> CHR '' '' \<Longrightarrow> \<forall>ch \<in> set s. ch > CHR '' '' \<Longrightarrow> scan_word acc (s @ rest) = scan_word (acc @ s) rest"
  by (induction s arbitrary: acc) (auto simp: Let_def)

lemma scan_word_blank:
  assumes "proc_word s"
  shows "scan_word [] (s @ CHR '' '' # rest) = (s, CHR '' '' # rest)" "scan_word [] (s @ [CHR ''\<newline>'']) = (s, [])"
proof -
  have h: "hd s \<noteq> CHR '' ''" using assms by (cases s) (auto simp: proc_word_def)
  then have "scan_word [] (s @ r) = scan_word s r" for r
    using assms scan_graph [of "[]" s r] by (auto simp: proc_word_def)
  then show "scan_word [] (s @ CHR '' '' # rest) = (s, CHR '' '' # rest)" "scan_word [] (s @ [CHR ''\<newline>'']) = (s, [])"
    using assms by (auto simp: proc_word_def Let_def)
qed

lemma scan_words:
  assumes "proc_word w1" "proc_word w2"
  shows "scan_line (replicate a CHR '' '' @ w1 @ replicate (Suc b) CHR '' '' @ w2 @ [CHR ''\<newline>'']) = (w1, w2)"
  using scan_word_blank [OF assms(1)] scan_word_blank [OF assms(2)] scan_blanks [of "Suc b" "w2 @ [CHR ''\<newline>'']"]
  by (simp add: scan_line_def scan_blanks)

text \<open>
  A command line of two words, with any number of blanks before and between them and
  the usual line end, is split into exactly these words, and the settings
  become what the command with that argument makes of them; a line the driver rejects leaves
  them unchanged.
\<close>

theorem proc_line_executed:
  assumes "proc_word w1" "proc_word w2"
    and "buf = replicate a CHR '' '' @ w1 @ replicate (Suc b) CHR '' '' @ w2 @ [CHR ''\<newline>'']"
    and "length buf < DBG_CMD_LEN"
  shows "omxvdec_write_proc G (length buf) (Some buf) =
    (Some (length buf), case proc_command G w1 w2 of None \<Rightarrow> G | Some G' \<Rightarrow> G')"
  using assms scan_words [OF assms(1,2), of a b] by (simp add: omxvdec_write_proc_def)

theorem proc_line_executed_witness:
  "omxvdec_write_proc default_globals 19 (Some ''  set_Dfs      off\<newline>'') =
     (Some 19, default_globals\<lparr>g_DynamicFsEnable := False\<rparr>)"
proof -
  have w: "proc_word ''set_Dfs'' \<and> proc_word ''off''" by (simp add: proc_word_def less_char_def)
  have b: "''  set_Dfs      off\<newline>'' = replicate 2 CHR '' '' @ ''set_Dfs'' @ replicate (Suc 5) CHR '' '' @ ''off'' @ [CHR ''\<newline>'']"
    by (simp add: numeral_eq_Suc)
  have "proc_command default_globals ''set_Dfs'' ''off'' = Some (default_globals\<lparr>g_DynamicFsEnable := False\<rparr>)"
    by (simp add: proc_command_def switch_def)
  with proc_line_executed [OF conjunct1 [OF w] conjunct2 [OF w] b, of default_globals] show ?thesis
    by (simp add: DBG_CMD_LEN_def eval_nat_numeral)
qed

definition settings_wf :: "globals \<Rightarrow> bool" where
  "settings_wf G \<longleftrightarrow> length (g_SavePath G) < PATH_LEN \<and> length (g_SaveName G) < NAME_LEN"

lemma save_path_bound: "pred_option (\<lambda>t. length t < PATH_LEN) (save_path s)"
  by (auto simp: save_path_def)

lemma save_name_bound: "pred_option (\<lambda>t. length t < NAME_LEN) (save_name s)"
  by (auto simp: save_name_def)

lemma pred_option_if: "pred_option P x \<Longrightarrow> pred_option P y \<Longrightarrow> pred_option P (if b then x else y)"
  by simp

lemma pred_option_map: "pred_option Q x \<Longrightarrow> (\<And>y. Q y \<Longrightarrow> P (f y)) \<Longrightarrow> pred_option P (map_option f x)"
  by (cases x) simp_all

lemma proc_command_wf: "settings_wf G \<Longrightarrow> pred_option settings_wf (proc_command G cmd arg)"
  unfolding proc_command_def settings_wf_def
  by (intro pred_option_if pred_option_map [OF save_path_bound] pred_option_map [OF save_name_bound])
     (simp_all add: option.pred_map option.pred_True o_def pred_option_if cong: if_cong)

text \<open>
  No write, whatever its bytes and its length, makes the save path or the save name
  longer than the driver's buffers for them.
\<close>

theorem proc_write_keeps_buffers:
  assumes "settings_wf G" "omxvdec_write_proc G count user = (r, G')"
  shows "settings_wf G'"
  using assms proc_command_wf [OF assms(1)]
  by (auto simp: omxvdec_write_proc_def split: if_splits option.splits prod.splits) (metis option.pred_inject(2))

theorem proc_write_keeps_buffers_witness:
  "settings_wf (snd (omxvdec_write_proc default_globals 16 (Some ''save_path /data\<newline>'')))"
proof -
  have "settings_wf default_globals" by (simp add: settings_wf_def default_globals_def PATH_LEN_def NAME_LEN_def)
  from proc_write_keeps_buffers [OF this surjective_pairing] show ?thesis .
qed

end
