(* ===== verification/Omx_Invariant.thy ===== *)
theory Omx_Invariant
  imports Omx_Protocol Omx_Entry Omx_Proc
begin

text \<open>
  The whole driver as a state machine: the steps are the entry points of the driver as the user
  side, the firmware, the post-processor and the debug interface call them, and the
  invariant of the reachable states covers all channels. Then the search for channel
  numbers and the clean-up when a file is closed.
\<close>

section \<open>No operation changes the identity of a channel\<close>

text \<open>The numbers of a channel and the resources it owns; they are set when it is created.\<close>

type_synonym identity = "(u32 \<times> u32) \<times> (u32 \<times> u32 \<times> u32) \<times> (MMZ_BUFFER_S \<times> MMZ_BUFFER_S \<times> MMZ_BUFFER_S) \<times> (eMEM_ALLOC \<times> eMEM_ALLOC \<times> eMEM_ALLOC)"

definition names :: "OMXVDEC_CHAN_CTX \<Rightarrow> u32 \<times> u32" where
  "names c = (channel_id c, file_dec c)"

definition identity :: "OMXVDEC_CHAN_CTX \<Rightarrow> identity" where
  "identity c = (names c, (decoder_id c, processor_id c, port_id c), (decoder_scd_buf c, decoder_vdh_buf c, channel_extra_buf c),
     (eSCDMemAlloc c, eVDHMemAlloc c, eEXTRAMemAlloc c))"

lemma identity_message [simp]: "identity (message_queue c k st d) = identity c"
  by (simp add: identity_def names_def message_queue_def)

lemma identity_update [simp]:
  "identity (c\<lparr>in_port := p\<rparr>) = identity c" "identity (c\<lparr>out_port := p\<rparr>) = identity c"
  "identity (c\<lparr>omx_vdec_lowdelay_proc_rec := R\<rparr>) = identity c" "identity (c\<lparr>eos_in_list := b\<rparr>) = identity c"
  "identity (c\<lparr>pause_pending := b\<rparr>) = identity c" "identity (c\<lparr>state := st\<rparr>) = identity c"
  "identity (c\<lparr>raw_file := b\<rparr>) = identity c" "identity (c\<lparr>eos_recv_flag := b\<rparr>) = identity c"
  "identity (c\<lparr>out_stride := n\<rparr>) = identity c" "identity (c\<lparr>bStorePrivateData := b\<rparr>) = identity c"
  "identity (c\<lparr>omx_chan_statinfo := si\<rparr>) = identity c" "identity (c\<lparr>seek_pending := b\<rparr>) = identity c"
  "identity (c\<lparr>reset_pending := b\<rparr>) = identity c" "identity (c\<lparr>recfg_flag := b\<rparr>) = identity c"
  "identity (c\<lparr>msgs := ms\<rparr>) = identity c" "identity (c\<lparr>last_frame_info_0 := i\<rparr>) = identity c"
  "identity (c\<lparr>last_frame_info_1 := i\<rparr>) = identity c" "identity (c\<lparr>last_frame_image_id := i\<rparr>) = identity c"
  "identity (c\<lparr>last_frame_processor_got := i\<rparr>) = identity c" "identity (c\<lparr>eof_send_flag := b\<rparr>) = identity c"
  "identity (c\<lparr>progress := b\<rparr>) = identity c" "identity (c\<lparr>dfs_alloc_flag := fl\<rparr>) = identity c"
  "identity (c\<lparr>dfs_delay_time := n\<rparr>) = identity c" "identity (c\<lparr>ref_frame_num := n\<rparr>) = identity c"
  "identity (c\<lparr>ref_frame_size := n\<rparr>) = identity c" "identity (c\<lparr>out_width := n\<rparr>) = identity c"
  "identity (c\<lparr>out_height := n\<rparr>) = identity c"
  by (simp_all add: identity_def names_def)

lemma bind_identity: "channel_bind_user_buffer E V c d w = (r, c', w') \<Longrightarrow> identity c' = identity c"
  by (auto simp: channel_bind_user_buffer_def channel_insert_addr_table_def split: if_splits prod.splits ePORT_DIR.splits)

lemma unbind_identity: "channel_unbind_user_buffer E c d w = Some (r, c', w') \<Longrightarrow> identity c' = identity c"
  by (auto simp: channel_unbind_user_buffer_def channel_delete_addr_table_def split: if_splits prod.splits ePORT_DIR.splits)

lemma empty_identity:
  assumes wf: "chan_wf K c" and e: "channel_empty_this_stream E G K' c d w = Some (r, c', w')"
  shows "identity c' = identity c"
proof -
  have data: "identity c1 = identity c" if "empty_data E G c d w = Some (r1, c1, w1)" for r1 c1 w1
    using chan_wfD(1) [OF wf] that by (cases rule: empty_data_cases) simp_all
  have eos: "identity c2 = identity c1" if "empty_eos K' c1 = Some c2" for c1 c2
    using that by (auto simp: empty_eos_def split: if_splits)
  show ?thesis using e data eos
    by (fastforce simp: channel_empty_this_stream_def Let_def split: option.splits if_splits prod.splits)
qed

lemma fill_identity:
  assumes wf: "chan_wf K c" and "channel_fill_this_frame c d = Some (r, c')"
  shows "identity c' = identity c"
  using chan_wfD(2) [OF wf] assms(2) by (cases rule: fill_cases) simp_all

lemma flush_frames_identity: "identity (flush_frames c) = identity c"
  by (simp add: flush_frames_def Let_def split: prod.splits)

lemma flush_in_identity: "channel_flush_in_port E K c w = (r, c', w') \<Longrightarrow> identity c' = identity c"
  by (auto simp: channel_flush_in_port_def Let_def split: prod.splits if_splits)

lemma flush_out_identity: "channel_flush_out_port E K c w = (r, c', w') \<Longrightarrow> identity c' = identity c"
  using flush_out_port_frames [of E K c w] by (auto simp: flush_frames_identity before_flush_def)

lemma flush_identity: "channel_flush_inst E K c pdir w = (r, c', w') \<Longrightarrow> identity c' = identity c"
  by (auto simp: channel_flush_inst_def Let_def dest!: flush_in_identity flush_out_identity split: prod.splits if_splits)

lemma start_identity: "channel_start_inst E G K c w = (r, c', w') \<Longrightarrow> identity c' = identity c"
  by (auto simp: channel_start_inst_def lowdelay_restart_def Let_def split: prod.splits if_splits)

lemma stop_identity: "channel_stop_inst E c w = (r, c', w') \<Longrightarrow> identity c' = identity c"
  by (auto simp: channel_stop_inst_def Let_def split: prod.splits if_splits)

lemma pause_identity: "channel_pause_inst c = (r, c') \<Longrightarrow> identity c' = identity c"
  by (auto simp: channel_pause_inst_def split: if_splits)

lemma resume_identity: "channel_resume_inst c = (r, c') \<Longrightarrow> identity c' = identity c"
  by (auto simp: channel_resume_inst_def split: if_splits)

lemma noted_identity: "lowdelay_note E G c w tag ty = Some (c', w') \<Longrightarrow> identity c' = identity c"
  by (erule lowdelay_note_frame) simp

lemma get_stream_identity:
  assumes "get_stream E G K c w = Some (r, c', w')"
  shows "identity c' = identity c"
proof (cases r)
  case None
  then show ?thesis using get_stream_None [OF assms [unfolded None]] by simp
next
  case (Some sd)
  show ?thesis using get_stream_SomeD [OF assms [unfolded Some]] by (metis identity_update)
qed

lemma release_stream_identity:
  assumes "release_stream E G K junk sd c w = Some (r, c', w')"
  shows "identity c' = identity c"
  using assms
  by (cases rule: release_stream_cases) (simp_all add: give_back_stream_def stream_flush_done_def Let_def)

lemma new_image_identity: "new_image_event E G tag c w = Some (r, c', w') \<Longrightarrow> identity c' = identity c"
  by (auto simp: new_image_event_def Let_def dest: noted_identity split: option.splits prod.splits)

lemma last_frame_identity: "identity (last_frame_event arg c) = identity c"
  by (simp add: last_frame_event_def Let_def)

lemma frames_done_identity: "identity (frames_done c) = identity c"
  by (simp add: frames_done_def answer_pause_def answer_flush_def)

lemma release_frame_identity: "identity (snd (processor_release_frame c a)) = identity c"
  by (simp add: processor_release_frame_def frames_done_identity Let_def split: option.split)

lemma report_frame_identity: "identity (snd (processor_report_frame G c f)) = identity c"
  by (cases rule: report_frame_cases [where G = G and c = c and f = f]) (simp_all add: frames_done_identity)

lemma get_frame_identity:
  assumes "processor_get_frame c len = (r, c')"
  shows "identity c' = identity c"
proof (cases r)
  case None
  then show ?thesis using get_frame_None [OF assms [unfolded None]] by simp
next
  case (Some s)
  then show ?thesis using get_frame_Some [OF assms [unfolded Some]] by (metis identity_update(2))
qed

lemma get_frame_buffer_identity: "processor_get_frame_buffer V c f = (r, f', c') \<Longrightarrow> identity c' = identity c"
  by (auto simp: processor_get_frame_buffer_def image_size_change_def Let_def dest!: get_frame_identity
      split: if_splits prod.splits option.splits)

lemma release_frame_buffer_identity: "processor_release_frame_buffer V c port flag a = (r, c') \<Longrightarrow> identity c' = identity c"
  using release_frame_identity [of c a] release_frame_identity [of "c\<lparr>last_frame_info_0 := LAST_FRAME_FLAG_NULL\<rparr>" a]
  by (auto simp: processor_release_frame_buffer_def split: if_splits)

lemma report_new_frame_identity:
  assumes "processor_report_new_frame E G V c w port f = Some (r, c', w')"
  shows "identity c' = identity c"
proof -
  have a: "identity c1 = identity c" if "processor_report_frame G c f = (r1, c1)" for c f r1 c1
    using report_frame_identity [of G c f] that by simp
  show ?thesis using assms unfolding processor_report_new_frame_def Let_def
    by (auto split: if_splits prod.splits option.splits dest!: noted_identity a)
qed

lemma report_last_loop_identity:
  assumes "\<And>i c. identity (others i c) = identity c"
  shows "identity (fst (snd (report_last_loop E G others n c w))) = identity c"
proof (induction n arbitrary: c w)
  case 0
  then show ?case by simp
next
  case (Suc n)
  obtain r c1 where g: "processor_get_frame c 0 = (r, c1)" by (cases "processor_get_frame c 0")
  show ?case
    using Suc assms get_frame_identity [OF g] report_frame_identity by (cases r) (simp_all add: g)
qed

lemma got_image_identity:
  assumes "got_image E G K V m f c w = Some (f', c', w')"
  shows "identity c' = identity c"
  using assms unfolding got_image_def Let_def set_frame_rate_def
  by (auto split: option.splits prod.splits if_split_asm dest!: noted_identity)

lemma get_image_identity:
  assumes "\<And>i c. identity (others i c) = identity c" and g: "get_image E G K V others f c w = Some (r, c', w')"
  shows "identity c' = identity c"
proof (cases "reset_pending c")
  case True
  then show ?thesis using g by (simp add: get_image_def)
next
  case False
  obtain r1 ws w1 where x: "ext_out E (VFMW_READ_IMAGE (decoder_id c)) w = (r1, ws, w1)" by (rule prod_cases3)
  have n: "identity (fst (no_image E G others c w1)) = identity c"
    using report_last_loop_identity [where others = others, OF assms(1)] by (simp add: no_image_def processor_report_last_frame_def)
  show ?thesis
  proof (cases "r1 = HI_SUCCESS")
    case True
    then show ?thesis using g False x got_image_identity by (auto simp: get_image_def)
  next
    case nf: False
    then have "no_image E G others c w1 = (c', w')" using g False x by (simp add: get_image_def)
    then show ?thesis using n by simp
  qed
qed

section \<open>Requests of the user side\<close>

text \<open>What an operation on a channel keeps.\<close>

definition chan_kept :: "platform \<Rightarrow> OMXVDEC_CHAN_CTX \<Rightarrow> OMXVDEC_CHAN_CTX \<Rightarrow> bool" where
  "chan_kept K c c' \<longleftrightarrow> chan_wf K c' \<and> identity c' = identity c"

lemma chan_kept_refl: "chan_wf K c \<Longrightarrow> chan_kept K c c"
  by (simp add: chan_kept_def)

definition request_ok :: "OMXVDEC_CHAN_CTX \<Rightarrow> ioctl \<Rightarrow> bool" where
  "request_ok c req = (case req of VDEC_IOCTL_CHAN_BIND_BUFFER (Some d) \<Rightarrow> bind_ok c d | _ \<Rightarrow> True)"

lemma chan_ioctl_kept:
  assumes wf: "chan_wf K c" and ok: "request_ok c req" and i: "chan_ioctl E G K V c w req = Some (r, c', w')"
  shows "chan_kept K c c'"
proof (cases req)
  case (VDEC_IOCTL_CHAN_BIND_BUFFER d)
  then show ?thesis using i ok bind_wf [OF wf] bind_identity chan_kept_refl [OF wf]
    by (cases d) (auto simp: chan_ioctl_def request_ok_def chan_kept_def split: prod.splits)
next
  case (VDEC_IOCTL_CHAN_UNBIND_BUFFER d)
  then show ?thesis using i unbind_wf [OF wf] unbind_identity chan_kept_refl [OF wf]
    by (cases d) (auto simp: chan_ioctl_def chan_kept_def split: prod.splits)
next
  case (VDEC_IOCTL_EMPTY_INPUT_STREAM d)
  then show ?thesis using i empty_this_stream_wf [OF wf] empty_identity [OF wf] chan_kept_refl [OF wf]
    by (cases d) (auto simp: chan_ioctl_def chan_kept_def split: prod.splits)
next
  case (VDEC_IOCTL_FILL_OUTPUT_FRAME d)
  then show ?thesis using i fill_wf [OF wf] fill_identity [OF wf] chan_kept_refl [OF wf]
    by (cases d) (auto simp: chan_ioctl_def chan_kept_def split: prod.splits)
next
  case (VDEC_IOCTL_FLUSH_PORT d)
  then show ?thesis using i flush_inst_wf [OF wf] flush_identity chan_kept_refl [OF wf]
    by (cases d) (auto simp: chan_ioctl_def chan_kept_def split: prod.splits)
next
  case VDEC_IOCTL_CHAN_START
  then show ?thesis using i start_wf [OF wf] start_identity by (auto simp: chan_ioctl_def chan_kept_def split: prod.splits)
next
  case VDEC_IOCTL_CHAN_STOP
  then show ?thesis using i stop_wf [OF wf] stop_identity by (auto simp: chan_ioctl_def chan_kept_def split: prod.splits)
next
  case VDEC_IOCTL_CHAN_PAUSE
  then show ?thesis using i pause_wf [OF wf] pause_identity by (auto simp: chan_ioctl_def chan_kept_def split: prod.splits)
next
  case VDEC_IOCTL_CHAN_RESUME
  then show ?thesis using i resume_wf [OF wf] resume_identity by (auto simp: chan_ioctl_def chan_kept_def split: prod.splits)
qed (use i chan_kept_refl [OF wf] in \<open>auto simp: chan_ioctl_def split: prod.splits\<close>)

section \<open>Channel numbers\<close>

lemma free_channel_id_fresh: "free_channel_id ids k = Some n \<Longrightarrow> n \<notin> set ids"
proof (induction rule: free_channel_id.raw_induct [rotated 1, consumes 1])
  case (1 f ids k n)
  then show ?case by (auto split: if_splits)
qed

text \<open>The search ends with the first free number, unless all $2^{32}$ numbers are taken.\<close>

lemma free_channel_id_least:
  assumes "of_nat j \<notin> set ids" "\<And>i. n \<le> i \<Longrightarrow> i < j \<Longrightarrow> of_nat i \<in> set ids" "n \<le> j"
  shows "free_channel_id ids (of_nat n) = Some (of_nat j)"
  using assms
proof (induction "j - n" arbitrary: n)
  case 0
  then show ?case by (simp add: free_channel_id.simps)
next
  case (Suc m)
  have "free_channel_id ids (of_nat (Suc n)) = Some (of_nat j)" using Suc.hyps(2) Suc.prems by (intro Suc.hyps(1)) auto
  moreover have "of_nat n \<in> set ids" using Suc.hyps(2) Suc.prems(2) [of n] by simp
  ultimately show ?case by (simp add: free_channel_id.simps [of ids "of_nat n"] add.commute)
qed

lemma unused_number:
  fixes ids :: "u32 list"
  assumes "length ids < 2 ^ 32"
  shows "\<exists>j \<le> length ids. (of_nat j :: u32) \<notin> set ids"
proof (rule ccontr)
  assume "\<not> ?thesis"
  then have s: "of_nat ` {..length ids} \<subseteq> set ids" by auto
  have "unat (of_nat i :: u32) = i" if "i \<le> length ids" for i using that assms by (intro unat_of_nat_small) simp
  then have "inj_on (of_nat :: nat \<Rightarrow> u32) {..length ids}" by (metis atMost_iff inj_onI)
  then have "Suc (length ids) \<le> card (set ids)" using card_mono [OF _ s] by (simp add: card_image)
  then show False using card_length [of ids] by simp
qed

lemma free_channel_id_defined:
  assumes "length ids < 2 ^ 32"
  obtains j where "free_channel_id ids 0 = Some (of_nat j)" "j \<le> length ids" "of_nat j \<notin> set ids"
    "\<And>i. i < j \<Longrightarrow> of_nat i \<in> set ids"
proof -
  define j where "j = (LEAST j. (of_nat j :: u32) \<notin> set ids)"
  obtain k where k: "k \<le> length ids" "(of_nat k :: u32) \<notin> set ids" using unused_number [OF assms] by auto
  have j: "(of_nat j :: u32) \<notin> set ids" unfolding j_def by (rule LeastI [of _ k]) (rule k(2))
  have jk: "j \<le> k" unfolding j_def by (rule Least_le) (rule k(2))
  have least: "(of_nat i :: u32) \<in> set ids" if "i < j" for i using not_less_Least that unfolding j_def by blast
  have "free_channel_id ids (of_nat 0) = Some (of_nat j)" by (rule free_channel_id_least) (use j least in auto)
  with that [of j] j jk k(1) least show thesis by auto
qed

section \<open>The invariant of the driver\<close>

definition driver_wf :: "platform \<Rightarrow> driver \<Rightarrow> bool" where
  "driver_wf K d \<longleftrightarrow> list_all (chan_wf K) (chan_list d) \<and> distinct (map channel_id (chan_list d)) \<and>
     total_chan_num d = of_nat (length (chan_list d)) \<and> open_count d \<le> MAX_OPEN_COUNT"

text \<open>Everything the invariant reads.\<close>

lemma driver_wf_cong:
  "chan_list d' = chan_list d \<Longrightarrow> total_chan_num d' = total_chan_num d \<Longrightarrow> open_count d' = open_count d \<Longrightarrow>
   driver_wf K d' \<longleftrightarrow> driver_wf K d"
  by (simp add: driver_wf_def)

lemma driver_wf_frame [simp]:
  "driver_wf K (d\<lparr>wld := w\<rparr>) = driver_wf K d" "driver_wf K (d\<lparr>globs := g\<rparr>) = driver_wf K d"
  "driver_wf K (d\<lparr>task_state := t\<rparr>) = driver_wf K d" "driver_wf K (d\<lparr>task_thread := b\<rparr>) = driver_wf K d"
  by (simp_all add: driver_wf_def)

lemma put_chan_wf:
  assumes "driver_wf K d" "i < length (chan_list d)" "chan_kept K (chan_list d ! i) c"
  shows "driver_wf K (put_chan d i c w)"
proof -
  have "map channel_id ((chan_list d)[i := c]) = map channel_id (chan_list d)"
    using assms(2,3) by (simp add: map_update chan_kept_def identity_def names_def list_update_same_conv)
  moreover have "list_all (chan_wf K) ((chan_list d)[i := c])"
    using assms set_update_subset_insert [of "chan_list d" i c] by (auto simp: driver_wf_def list_all_iff chan_kept_def)
  ultimately show ?thesis using assms(1) by (simp add: driver_wf_def put_chan_def)
qed

lemma delete_chan_wf:
  assumes "driver_wf K d" "i < length (chan_list d)"
  shows "driver_wf K (channel_delete_chan_record d i)"
proof -
  define xs ys c where "xs = take i (chan_list d)" and "ys = drop (Suc i) (chan_list d)" and "c = chan_list d ! i"
  have e: "chan_list d = xs @ c # ys" unfolding xs_def ys_def c_def by (rule id_take_nth_drop [OF assms(2)])
  have "channel_delete_chan_record d i = d\<lparr>chan_list := xs @ ys, total_chan_num := total_chan_num d - 1\<rparr>"
    by (simp add: channel_delete_chan_record_def xs_def ys_def)
  then show ?thesis using assms(1) by (auto simp: driver_wf_def e)
qed

lemma found_chan:
  assumes "find_chan key d h = Some i"
  shows "i < length (chan_list d)" "key (chan_list d ! i) = h"
  using assms by (auto simp: find_chan_def dest: find_index_SomeD split: if_splits)

lemma found_wf:
  assumes "driver_wf K d" "find_chan key d h = Some i"
  shows "chan_wf K (chan_list d ! i)"
  using assms found_chan(1) [OF assms(2)] by (simp add: driver_wf_def list_all_length)

lemma add_chan_wf:
  assumes "driver_wf K d" "channel_add_chan_record d c = Some (i, d')"
  obtains k where "i = length (chan_list d)" "d' = d\<lparr>chan_list := chan_list d @ [c\<lparr>channel_id := k\<rparr>], total_chan_num := total_chan_num d + 1\<rparr>"
    "k \<notin> channel_id ` set (chan_list d)"
  using assms(2) free_channel_id_fresh that by (fastforce simp: channel_add_chan_record_def)

section \<open>A new channel\<close>

text \<open>What the parts of a channel leave alone when they are created.\<close>

definition fresh_part :: "OMXVDEC_CHAN_CTX \<Rightarrow> (u32 \<times> u32) \<times> bool \<times> bool" where
  "fresh_part c = (names c, pause_pending c, eos_in_list c)"

lemma alloc_vdh_fresh: "decoder_alloc_vdh E sz opt c w = Done (opt', c', w') \<Longrightarrow> fresh_part c' = fresh_part c"
  by (auto simp: decoder_alloc_vdh_def Let_def fresh_part_def names_def split: if_splits prod.splits)

lemma alloc_scd_fresh: "decoder_alloc_scd E sz opt c w = Done (opt', c', w') \<Longrightarrow> fresh_part c' = fresh_part c"
  by (auto simp: decoder_alloc_scd_def Let_def fresh_part_def names_def split: if_splits prod.splits)

lemma connect_same: "decoder_connect E cfg c w = Done (c', w') \<Longrightarrow> c' = c"
  by (auto simp: decoder_connect_def split: if_splits prod.splits)

lemma init_option_fresh: "decoder_init_option G c cfg p = (c', cap, opt) \<Longrightarrow> fresh_part c' = fresh_part c"
  by (auto simp: decoder_init_option_def Let_def fresh_part_def names_def split: prod.splits)

lemma try_create_fresh:
  assumes "decoder_try_create E G cfg c w = Done (c', w')"
  shows "fresh_part c' = fresh_part c"
proof -
  obtain c0 cap opt where o: "decoder_init_option G c cfg zero_option = (c0, cap, opt)" by (rule prod_cases3)
  obtain r ms w1 where m: "ext_out E (VFMW_CONTROL (- 1) VDEC_CID_GET_CHAN_DETAIL_MEMSIZE_WITH_OPTION (option_words cap opt)) w = (r, ms, w1)"
    by (rule prod_cases3)
  obtain sz opt1 c1 w2 where v: "decoder_alloc_vdh E sz (opt\<lparr>s32IsSecMode := 0\<rparr>) c0 w1 = Done (opt1, c1, w2)"
    and d: "(case decoder_alloc_scd E (word_at ms 1) opt1 c1 w2 of Goto l c' w' \<Rightarrow> Goto l c' w'
         | Done (opt2, c2, w3) \<Rightarrow>
           (case ext_out E (VFMW_CONTROL (- 1) VDEC_CID_CREATE_CHAN_WITH_OPTION (option_words cap opt2)) w3 of
              (r4, ids, w4) \<Rightarrow>
            if r4 \<noteq> HI_SUCCESS then Goto 2 c2 w4
            else let c3 = c2\<lparr>decoder_id := word_at ids 0\<rparr> in
                 decoder_connect E (decoder_chan_cfg G c3 cfg) c3 w4)) = Done (c', w')"
    using assms o m by (fastforce simp: decoder_try_create_def Let_def split: attempt.splits if_splits)
  obtain opt2 c2 w3 where s: "decoder_alloc_scd E (word_at ms 1) opt1 c1 w2 = Done (opt2, c2, w3)"
    using d by (auto split: attempt.splits)
  obtain x where "c' = c2\<lparr>decoder_id := x\<rparr>"
    using d s by (auto simp: Let_def dest!: connect_same split: prod.splits if_splits)
  then show ?thesis using init_option_fresh [OF o] alloc_vdh_fresh [OF v] alloc_scd_fresh [OF s]
    by (simp add: fresh_part_def names_def)
qed

lemma decoder_create_fresh:
  "decoder_create_inst E G i cfg c w = (HI_SUCCESS, c', w') \<Longrightarrow> fresh_part c' = fresh_part c"
  by (auto simp: decoder_create_inst_def Let_def dest!: try_create_fresh split: attempt.splits if_splits prod.splits)

lemma processor_create_fresh:
  "processor_create_inst E G V fmt c w = (HI_SUCCESS, c', w') \<Longrightarrow> fresh_part c' = fresh_part c"
  by (auto simp: processor_create_inst_def Let_def fresh_part_def names_def split: if_splits prod.splits)

lemma lowdelay_record_fresh: "channel_lowdelay_record E G c w = (c', w') \<Longrightarrow> \<exists>R. c' = c\<lparr>omx_vdec_lowdelay_proc_rec := R\<rparr>"
  by (auto simp: channel_lowdelay_record_def Let_def split: if_splits prod.splits)

text \<open>The numbers of buffers a user may ask for.\<close>

definition cfg_ok :: "platform \<Rightarrow> OMXVDEC_DRV_CFG \<Rightarrow> bool" where
  "cfg_ok K cfg \<longleftrightarrow> unat (cfg_inbuf_num cfg) < 2 ^ 31 \<and> unat (cfg_outbuf_num cfg) < 2 ^ 31 \<and>
     unat (cfg_inbuf_num cfg) \<le> unat (LAST_FRAME_BUF_ID K)"

lemma channel_tables_wf:
  assumes "cfg_ok K cfg" "\<not> pause_pending c" "\<not> eos_in_list c"
  shows "chan_wf K (channel_tables K mem cfg b c)"
proof -
  let ?c = "channel_tables K mem cfg b c"
  have e: "live 0 (out_port ?c) = {}" "live 1 (in_port ?c) = {max_buf_num (in_port ?c)}"
    by (auto simp: live_def channel_tables_def zero_port_def Let_def)
  have b: "status (port_buf (in_port ?c) (max_buf_num (in_port ?c))) = BUF_STATE_INVALID"
    by (simp add: channel_tables_def zero_port_def Let_def port_buf_def nth_append zero_buf_def)
  have "port_wf 0 (out_port ?c)" using assms e
    by (simp add: port_wf_def table_wf_def queue_wf_def users_def queued_def cfg_ok_def channel_tables_def zero_port_def Let_def)
  moreover have "port_wf 1 (in_port ?c)" using assms e b
    by (simp add: port_wf_def table_wf_def queue_wf_def users_def queued_def cfg_ok_def channel_tables_def zero_port_def Let_def)
  ultimately show ?thesis using assms
    by (simp add: chan_wf_def channel_tables_def zero_port_def Let_def cfg_ok_def)
qed

lemma channel_build_Some:
  assumes b: "channel_build E G K V mem cfg c0 w0 = (Some c, w)"
  obtains c3 ws R where "fresh_part c3 = fresh_part c0"
    "c = (channel_tables K mem cfg (mmz_of ws) c3)\<lparr>omx_vdec_lowdelay_proc_rec := R, state := CHAN_STATE_IDLE\<rparr>"
proof -
  let ?c1 = "c0\<lparr>bLowdelay := s32LowdlyEnable (chan_cfg cfg), m_use_native_buf := cfg_m_use_native_buf cfg,
                  out_width := cfg_width cfg, out_height := cfg_height cfg, out_stride := cfg_stride cfg\<rparr>"
  obtain w1 where m: "ext E MSG_QUEUE_INIT w0 = (HI_SUCCESS, w1)" using b by (auto simp: channel_build_def split: prod.splits if_splits)
  obtain c2 w2 where d: "decoder_create_inst E G (HI_ID_VDEC V) (chan_cfg cfg) ?c1 w1 = (HI_SUCCESS, c2, w2)"
    using b m by (auto simp: channel_build_def Let_def split: prod.splits if_splits)
  obtain c3 w3 where p: "processor_create_inst E G V (cfg_color_format cfg) c2 w2 = (HI_SUCCESS, c3, w3)"
    using b m d by (auto simp: channel_build_def Let_def split: prod.splits if_splits)
  obtain ws w4 where t: "ext_out E (MMZ_ALLOC_MAP (table_size K V cfg)) w3 = (HI_SUCCESS, ws, w4)"
    using b m d p by (auto simp: channel_build_def Let_def split: prod.splits if_splits)
  obtain c4 w5 where l: "channel_lowdelay_record E G (channel_tables K mem cfg (mmz_of ws) c3) w4 = (c4, w5)"
    and c: "c = c4\<lparr>state := CHAN_STATE_IDLE\<rparr>"
    using b m d p t by (auto simp: channel_build_def Let_def split: prod.splits)
  obtain R where R: "c4 = (channel_tables K mem cfg (mmz_of ws) c3)\<lparr>omx_vdec_lowdelay_proc_rec := R\<rparr>"
    using lowdelay_record_fresh [OF l] by blast
  have f: "fresh_part c3 = fresh_part c0"
    using decoder_create_fresh [OF d] processor_create_fresh [OF p] by (simp add: fresh_part_def names_def)
  show thesis using that [OF f] c R by simp
qed

lemma channel_build_names: "channel_build E G K V mem cfg c0 w0 = (Some c, w) \<Longrightarrow> names c = names c0"
  by (erule channel_build_Some) (simp add: fresh_part_def names_def channel_tables_def Let_def)

lemma channel_build_wf:
  assumes ok: "cfg_ok K cfg" and c0: "\<not> pause_pending c0" "\<not> eos_in_list c0"
    and b: "channel_build E G K V mem cfg c0 w0 = (Some c, w)"
  shows "chan_wf K c"
proof -
  obtain c3 ws R where f: "fresh_part c3 = fresh_part c0"
    "c = (channel_tables K mem cfg (mmz_of ws) c3)\<lparr>omx_vdec_lowdelay_proc_rec := R, state := CHAN_STATE_IDLE\<rparr>"
    using b by (rule channel_build_Some)
  then have "chan_wf K (channel_tables K mem cfg (mmz_of ws) c3)"
    using c0 by (intro channel_tables_wf ok) (auto simp: fresh_part_def)
  then show ?thesis by (rule iffD1 [OF chan_wf_cong, rotated -1]) (simp_all add: f(2))
qed

lemma channel_create_wf:
  assumes wf: "driver_wf K d" and ok: "cfg_ok K cfg" and c: "channel_create_inst E K V mem fd cfg d = Some (r, d')"
  shows "driver_wf K d'"
proof -
  obtain r1 w1 where k: "ext E KZALLOC (wld d) = (r1, w1)" by (rule prod.exhaust)
  show ?thesis
  proof (cases "r1 = HI_SUCCESS")
    case False
    then show ?thesis using c wf k by (auto simp: channel_create_inst_def)
  next
    case True
    obtain i d1 where a: "channel_add_chan_record (d\<lparr>wld := w1\<rparr>) (zero_chan\<lparr>file_dec := fd\<rparr>) = Some (i, d1)"
      using c k True by (auto simp: channel_create_inst_def split: option.splits)
    have wfw: "driver_wf K (d\<lparr>wld := w1\<rparr>)" using wf by simp
    obtain n where n: "i = length (chan_list d)" "n \<notin> channel_id ` set (chan_list d)"
      "d1 = d\<lparr>wld := w1, chan_list := chan_list d @ [zero_chan\<lparr>file_dec := fd, channel_id := n\<rparr>], total_chan_num := total_chan_num d + 1\<rparr>"
      using add_chan_wf [OF wfw a] by auto
    let ?c0 = "zero_chan\<lparr>file_dec := fd, channel_id := n\<rparr>"
    have c0: "chan_list d1 ! i = ?c0" by (simp add: n(1,3))
    obtain bc w2 where b: "channel_build E (globs d) K V mem cfg ?c0 w1 = (bc, w2)" by (rule prod.exhaust)
    show ?thesis
    proof (cases bc)
      case None
      then have "d' = (channel_delete_chan_record d1 i)\<lparr>wld := ext_do E KFREE w2\<rparr>"
        using c k True a b c0 by (auto simp: channel_create_inst_def)
      then show ?thesis using wf by (simp add: driver_wf_def channel_delete_chan_record_def n)
    next
      case (Some nc)
      then have d': "d' = put_chan d1 i nc w2" using c k True a b c0 by (auto simp: channel_create_inst_def)
      have "chan_wf K nc" by (rule channel_build_wf [OF ok _ _ b [unfolded Some]]) (simp_all add: zero_chan_def)
      then show ?thesis using wf n(2) channel_build_names [OF b [unfolded Some]]
        by (auto simp: driver_wf_def d' put_chan_def n names_def)
    qed
  qed
qed

lemma channel_release_wf:
  assumes "driver_wf K d" "i < length (chan_list d)" "channel_release_inst E V d i = (r, d')"
  shows "driver_wf K d'"
  using assms delete_chan_wf [OF assms(1,2)] by (auto simp: channel_release_inst_def Let_def split: prod.splits if_splits)

lemma channel_release_list:
  assumes "channel_release_inst E V d i = (r, d')"
  shows "chan_list d' = (if r = HI_SUCCESS then take i (chan_list d) @ drop (Suc i) (chan_list d) else chan_list d)"
  using assms by (auto simp: channel_release_inst_def channel_delete_chan_record_def Let_def split: prod.splits if_splits)

lemma release_loop_wf:
  assumes "driver_wf K d" "i + n \<le> length (chan_list d)"
  shows "driver_wf K (release_loop E V fd n i d)"
  using assms
proof (induction n arbitrary: i d)
  case 0
  then show ?case by simp
next
  case (Suc n)
  obtain r d1 where r: "channel_release_inst E V d i = (r, d1)" by (rule prod.exhaust)
  have wf: "driver_wf K d1" using channel_release_wf [OF Suc.prems(1) _ r] Suc.prems(2) by simp
  have l: "length (chan_list d1) = (if r = HI_SUCCESS then length (chan_list d) - 1 else length (chan_list d))"
    using channel_release_list [OF r] Suc.prems(2) by simp
  show ?case using Suc wf l r by simp
qed

lemma omxvdec_open_wf: "driver_wf K d \<Longrightarrow> driver_wf K (snd (omxvdec_open E K d))"
proof -
  assume wf: "driver_wf K d"
  let ?d1 = "d\<lparr>open_count := open_count d + 1\<rparr>"
  obtain r d2 where f: "first_open E K ?d1 = (r, d2)" by (rule prod.exhaust)
  have same: "chan_list d2 = chan_list d \<and> total_chan_num d2 = total_chan_num d \<and> open_count d2 = open_count d + 1"
    using f by (auto simp: first_open_def split: prod.splits if_splits)
  have "open_count d + 1 \<le> MAX_OPEN_COUNT" if "open_count d < MAX_OPEN_COUNT"
    using that by (rule inc_le)
  then show ?thesis using wf f same by (auto simp: omxvdec_open_def Let_def driver_wf_def)
qed

lemma omxvdec_release_wf:
  assumes "driver_wf K d"
  shows "driver_wf K (snd (omxvdec_release E V fd d))"
proof -
  let ?d1 = "release_loop E V fd (length (chan_list d)) 0 d"
  have wf: "driver_wf K ?d1" using release_loop_wf [OF assms] by simp
  have "open_count ?d1 - 1 \<le> MAX_OPEN_COUNT" if "open_count ?d1 > 0"
    using that wf unat_minus_one [of "open_count ?d1"] by (auto simp: driver_wf_def word_le_nat_alt word_neq_0_conv)
  then show ?thesis using wf by (simp add: omxvdec_release_def Let_def driver_wf_def)
qed

section \<open>Steps of the driver\<close>

text \<open>
  What the parties rely on: a user asks for a sensible number of buffers and does not bind the
  address of the driver's own buffer.
\<close>

definition ioctl_ok :: "platform \<Rightarrow> driver \<Rightarrow> u32 option \<Rightarrow> ioctl \<Rightarrow> bool" where
  "ioctl_ok K d chan_num req =
     (case req of VDEC_IOCTL_CHAN_CREATE (Some cfg) copied \<Rightarrow> cfg_ok K cfg
      | _ \<Rightarrow> (case Option.bind chan_num (channel_find_inst_by_channel_id d) of None \<Rightarrow> True
              | Some i \<Rightarrow> request_ok (chan_list d ! i) req))"

lemma omxvdec_ioctl_cases:
  assumes "omxvdec_ioctl E K V mem fd d chan_num req = Some (r, k, d')"
  obtains (unchanged) "d' = d"
  | (create) cfg copied n where "req = VDEC_IOCTL_CHAN_CREATE (Some cfg) copied" "channel_create_inst E K V mem fd cfg d = Some (n, d')"
  | (release) h j s where "chan_num = Some h" "find_chan channel_id d h = Some j" "channel_release_inst E V d j = (s, d')"
  | (channel) h j c w where "chan_num = Some h" "find_chan channel_id d h = Some j" "d' = put_chan d j c w"
      "chan_ioctl E (globs d) K V (chan_list d ! j) (wld d) req = Some (r, c, w)" "\<And>cfg copied. req \<noteq> VDEC_IOCTL_CHAN_CREATE cfg copied"
proof (cases chan_num)
  case None
  then show thesis using assms unchanged by (simp add: omxvdec_ioctl_def)
next
  case (Some h)
  show thesis
  proof (cases "\<exists>cfg copied. req = VDEC_IOCTL_CHAN_CREATE cfg copied")
    case True
    then show thesis using assms Some unchanged create
      by (fastforce simp: omxvdec_ioctl_def split: option.splits if_splits)
  next
    case False
    then have n: "(if sint h < 0 then Some (DEV_EINVAL, None, d)
       else (case find_chan channel_id d h of None \<Rightarrow> Some (DEV_EFAULT, None, d)
               | Some i \<Rightarrow>
                   if req = VDEC_IOCTL_CHAN_RELEASE
                   then (case channel_release_inst E V d i of (r, d') \<Rightarrow> Some (dev_of r, None, d'))
                   else map_option (\<lambda>(r, c, w). (r, None, put_chan d i c w))
                          (chan_ioctl E (globs d) K V (chan_list d ! i) (wld d) req))) = Some (r, k, d')"
      using assms Some by (cases req) (auto simp: omxvdec_ioctl_def channel_find_inst_by_channel_id_def)
    show thesis
    proof (cases "sint h < 0 \<or> find_chan channel_id d h = None")
      case True
      then show thesis using n unchanged by (auto split: if_splits)
    next
      case nf: False
      then obtain j where j: "find_chan channel_id d h = Some j" by auto
      show thesis using n nf j Some False release [OF Some j] channel [OF Some j] by (auto split: if_splits prod.splits)
    qed
  qed
qed

lemma ioctl_okD:
  assumes "ioctl_ok K d (Some h) req" "find_chan channel_id d h = Some j" "\<And>cfg copied. req \<noteq> VDEC_IOCTL_CHAN_CREATE cfg copied"
  shows "request_ok (chan_list d ! j) req"
  using assms by (cases req) (auto simp: ioctl_ok_def channel_find_inst_by_channel_id_def)

lemma omxvdec_ioctl_wf:
  assumes wf: "driver_wf K d" and ok: "ioctl_ok K d chan_num req"
    and i: "omxvdec_ioctl E K V mem fd d chan_num req = Some (r, k, d')"
  shows "driver_wf K d'"
  using i
proof (cases rule: omxvdec_ioctl_cases)
  case unchanged
  then show ?thesis using wf by simp
next
  case (create cfg copied n)
  then show ?thesis using channel_create_wf [OF wf] ok by (auto simp: ioctl_ok_def)
next
  case (release h j s)
  then show ?thesis using channel_release_wf [OF wf found_chan(1)] by blast
next
  case (channel h j c w)
  have "request_ok (chan_list d ! j) req" using ioctl_okD ok channel(1,2,5) by blast
  then show ?thesis unfolding channel(3)
    by (intro put_chan_wf [OF wf found_chan(1) [OF channel(2)]] chan_ioctl_kept [OF found_wf [OF wf channel(2)] _ channel(4)])
qed

text \<open>
  The firmware and the post-processor give back only what they hold; while a callback sleeps,
  the rest of the system only does what it may.
\<close>

definition stream_return_ok :: "driver \<Rightarrow> u32 \<Rightarrow> STREAM_DATA_S option \<Rightarrow> bool" where
  "stream_return_ok d h s = (case (channel_find_inst_by_channel_id d h, s) of
     (Some i, Some sd) \<Rightarrow> stream_held (chan_list d ! i) (PhyAddr sd) | _ \<Rightarrow> True)"

definition processor_event_ok :: "driver \<Rightarrow> u32 \<Rightarrow> VPSS_EVENT option \<Rightarrow> bool" where
  "processor_event_ok d h args = (case (channel_find_inst_by_channel_id d h, args) of
     (Some i, Some ev) \<Rightarrow> event_ok (globs d) (chan_list d ! i) ev | _ \<Rightarrow> True)"

definition others_ok :: "platform \<Rightarrow> (nat \<Rightarrow> OMXVDEC_CHAN_CTX \<Rightarrow> OMXVDEC_CHAN_CTX) \<Rightarrow> bool" where
  "others_ok K others \<longleftrightarrow> (\<forall>i c. identity (others i c) = identity c \<and> (chan_wf K c \<longrightarrow> chan_wf K (others i c)))"

inductive driver_step :: "env \<Rightarrow> platform \<Rightarrow> vpss_platform \<Rightarrow> driver \<Rightarrow> driver \<Rightarrow> bool" for E K V where
  open_file: "driver_step E K V d (snd (omxvdec_open E K d))"
| close_file: "driver_step E K V d (snd (omxvdec_release E V fd d))"
| request: "ioctl_ok K d num req \<Longrightarrow> omxvdec_ioctl E K V mem fd d num req = Some (r, k, d') \<Longrightarrow> driver_step E K V d d'"
| stream_taken: "decoder_get_stream E K d h = Some (r, d') \<Longrightarrow> driver_step E K V d d'"
| stream_returned: "stream_return_ok d h s \<Longrightarrow> decoder_release_stream E K junk d h s = Some (r, d') \<Longrightarrow> driver_step E K V d d'"
| decoder_event: "decoder_event_handler E d h ev = Some (r, d') \<Longrightarrow> driver_step E K V d d'"
| processor_event: "processor_event_ok d h args \<Longrightarrow> processor_event_handler E V d h args = Some (r, out, d') \<Longrightarrow> driver_step E K V d d'"
| image_read: "others_ok K others \<Longrightarrow> processor_get_image E K V others d h f = Some (r, d') \<Longrightarrow> driver_step E K V d d'"
| image_released: "driver_step E K V d (snd (processor_release_image E d h f))"
| debug_command: "driver_step E K V d (d\<lparr>globs := snd (omxvdec_write_proc (globs d) count user)\<rparr>)"

text \<open>The driver as the module leaves it when it is loaded.\<close>

definition driver_loaded :: "driver \<Rightarrow> bool" where
  "driver_loaded d \<longleftrightarrow> open_count d = 0 \<and> total_chan_num d = 0 \<and> chan_list d = []"

definition driver_reachable :: "env \<Rightarrow> platform \<Rightarrow> vpss_platform \<Rightarrow> driver \<Rightarrow> driver \<Rightarrow> bool" where
  "driver_reachable E K V d0 d \<longleftrightarrow> driver_loaded d0 \<and> (driver_step E K V)\<^sup>*\<^sup>* d0 d"

lemma decoder_event_wf:
  assumes wf: "driver_wf K d" and e: "decoder_event_handler E d h ev = Some (r, d')"
  shows "driver_wf K d'"
proof (cases "channel_find_inst_by_decoder_id d h")
  case None
  then show ?thesis using e wf by (simp add: decoder_event_handler_def)
next
  case (Some i)
  have f: "find_chan decoder_id d h = Some i" using Some by (simp add: channel_find_inst_by_decoder_id_def)
  note c = found_chan(1) [OF f] found_wf [OF wf f]
  have p: "driver_wf K (put_chan d i c' w)" if "chan_kept K (chan_list d ! i) c'" for c' w
    using put_chan_wf [OF wf c(1) that] .
  show ?thesis
  proof (cases ev)
    case (EVNT_NEW_IMAGE tag)
    then show ?thesis using e Some wf p new_image_event_wf [OF c(2)] new_image_identity
      by (cases tag) (auto simp: decoder_event_handler_def Let_def chan_kept_def)
  next
    case (EVNT_NEED_ARRANGE num sz)
    have "chan_wf K ((chan_list d ! i)\<lparr>dfs_alloc_flag := DFS_WAIT_ALLOC, dfs_delay_time := t,
      ref_frame_num := num, ref_frame_size := sz\<rparr>)" for t
      using c(2) by (rule iffD1 [OF chan_wf_cong, rotated -1]) simp_all
    then have "chan_kept K (chan_list d ! i) ((chan_list d ! i)\<lparr>dfs_alloc_flag := DFS_WAIT_ALLOC, dfs_delay_time := t,
      ref_frame_num := num, ref_frame_size := sz\<rparr>)" for t
      by (simp add: chan_kept_def)
    then show ?thesis using e Some p EVNT_NEED_ARRANGE by (auto simp: decoder_event_handler_def Let_def split: prod.splits)
  next
    case (EVNT_LAST_FRAME arg)
    then show ?thesis using e Some wf p last_frame_event_wf [OF c(2)] last_frame_identity
      by (cases arg) (auto simp: decoder_event_handler_def Let_def chan_kept_def)
  qed (use e Some wf in \<open>simp_all add: decoder_event_handler_def Let_def\<close>)
qed

lemma processor_event_identity:
  assumes "processor_event E G V c w ev = Some (r, out, c', w')"
  shows "identity c' = identity c"
proof (cases ev)
  case (VPSS_EVENT_GET_FRMBUFFER f)
  then show ?thesis using assms get_frame_buffer_identity by (auto simp: processor_event_def split: prod.splits)
next
  case (VPSS_EVENT_REL_FRMBUFFER port flag a)
  then show ?thesis using assms release_frame_buffer_identity by (auto simp: processor_event_def split: prod.splits)
next
  case (VPSS_EVENT_NEW_FRAME port f)
  then show ?thesis using assms report_new_frame_identity by (auto simp: processor_event_def)
qed (use assms in \<open>simp_all add: processor_event_def\<close>)

text \<open>A handler that looks up a channel and runs an operation on it.\<close>

lemma on_channel_wf:
  assumes wf: "driver_wf K d" and f: "find_chan key d h = Some i"
    and s: "map_option (\<lambda>(r, c, w). (r, put_chan d i c w)) op = Some (r, d')"
    and k: "\<And>r c w. chan_wf K (chan_list d ! i) \<Longrightarrow> op = Some (r, c, w) \<Longrightarrow> chan_kept K (chan_list d ! i) c"
  shows "driver_wf K d'"
  using s k [OF found_wf [OF wf f]] put_chan_wf [OF wf found_chan(1) [OF f]] by auto

lemma get_stream_driver_wf:
  assumes "driver_wf K d" "decoder_get_stream E K d h = Some (r, d')"
  shows "driver_wf K d'"
proof (cases "channel_find_inst_by_channel_id d h")
  case None
  then show ?thesis using assms by (simp add: decoder_get_stream_def)
next
  case (Some i)
  show ?thesis
    by (rule on_channel_wf [OF assms(1) Some [unfolded channel_find_inst_by_channel_id_def]])
      (use assms(2) Some get_stream_wf get_stream_identity in \<open>auto simp: decoder_get_stream_def chan_kept_def\<close>)
qed

lemma release_stream_driver_wf:
  assumes "driver_wf K d" "stream_return_ok d h s" "decoder_release_stream E K junk d h s = Some (r, d')"
  shows "driver_wf K d'"
proof (cases "s = None \<or> channel_find_inst_by_channel_id d h = None")
  case True
  then show ?thesis using assms by (auto simp: decoder_release_stream_def split: option.splits)
next
  case False
  then obtain sd i where s: "s = Some sd" "channel_find_inst_by_channel_id d h = Some i" by auto
  show ?thesis
    by (rule on_channel_wf [OF assms(1) s(2) [unfolded channel_find_inst_by_channel_id_def]])
      (use assms(2,3) s release_stream_wf release_stream_identity in
        \<open>auto simp: decoder_release_stream_def stream_return_ok_def chan_kept_def\<close>)
qed

lemma processor_event_driver_wf:
  assumes wf: "driver_wf K d" and ok: "processor_event_ok d h args" and e: "processor_event_handler E V d h args = Some (r, out, d')"
  shows "driver_wf K d'"
proof (cases "args = None \<or> channel_find_inst_by_channel_id d h = None")
  case True
  then show ?thesis using wf e by (auto simp: processor_event_handler_def split: option.splits)
next
  case False
  then obtain ev i where s: "args = Some ev" "channel_find_inst_by_channel_id d h = Some i" by auto
  have f: "find_chan channel_id d h = Some i" using s(2) by (simp add: channel_find_inst_by_channel_id_def)
  obtain c w where u: "processor_event E (globs d) V (chan_list d ! i) (wld d) ev = Some (r, out, c, w)" "d' = put_chan d i c w"
    using e s by (auto simp: processor_event_handler_def)
  have "chan_kept K (chan_list d ! i) c"
    using processor_event_wf [OF found_wf [OF wf f] _ u(1)] processor_event_identity [OF u(1)] ok s
    by (simp add: chan_kept_def processor_event_ok_def)
  then show ?thesis using put_chan_wf [OF wf found_chan(1) [OF f]] u(2) by simp
qed

lemma get_image_driver_wf:
  assumes "driver_wf K d" "others_ok K others" "processor_get_image E K V others d h f = Some (r, d')"
  shows "driver_wf K d'"
proof (cases "f = None \<or> channel_find_inst_by_processor_id d h = None")
  case True
  then show ?thesis using assms by (auto simp: processor_get_image_def split: option.splits)
next
  case False
  then obtain fr i where s: "f = Some fr" "channel_find_inst_by_processor_id d h = Some i" by auto
  have o: "identity (others n c) = identity c" "chan_wf K c \<Longrightarrow> chan_wf K (others n c)" for n c
    using assms(2) by (simp_all add: others_ok_def)
  show ?thesis
  proof (rule on_channel_wf [OF assms(1) s(2) [unfolded channel_find_inst_by_processor_id_def]])
    show "map_option (\<lambda>(r, c, w). (r, put_chan d i c w))
        (get_image E (globs d) K V others fr (chan_list d ! i) (wld d)) = Some (r, d')"
      using assms(3) s by (simp add: processor_get_image_def)
    fix r c w assume wf: "chan_wf K (chan_list d ! i)"
      and g: "get_image E (globs d) K V others fr (chan_list d ! i) (wld d) = Some (r, c, w)"
    show "chan_kept K (chan_list d ! i) c"
      using get_image_wf [where others = others, OF wf o(2) g] get_image_identity [where others = others, OF o(1) g]
      by (simp add: chan_kept_def)
  qed
qed

lemma driver_step_wf:
  assumes "driver_step E K V d d'" "driver_wf K d"
  shows "driver_wf K d'"
  using assms
proof (induction rule: driver_step.induct)
  case (open_file d)
  then show ?case by (rule omxvdec_open_wf)
next
  case (close_file d fd)
  then show ?case by (rule omxvdec_release_wf)
next
  case (request d num req mem fd r k d')
  then show ?case using omxvdec_ioctl_wf by blast
next
  case (stream_taken d h r d')
  then show ?case using get_stream_driver_wf by blast
next
  case (stream_returned d h s junk r d')
  then show ?case using release_stream_driver_wf by blast
next
  case (decoder_event d h ev r d')
  then show ?case using decoder_event_wf by blast
next
  case (processor_event d h args r out d')
  then show ?case using processor_event_driver_wf by blast
next
  case (image_read others d h f r d')
  then show ?case using get_image_driver_wf by blast
next
  case (image_released d h f)
  then show ?case by (simp add: processor_release_image_def Let_def split: option.split prod.split)
next
  case (debug_command d count user)
  then show ?case by simp
qed

section \<open>A loaded driver with one channel\<close>

definition example_vpss :: vpss_platform where
  "example_vpss = \<lparr>PORTHANDLE_TO_VPSSID = (\<lambda>h. h), HI_SYS_GET_STRIDE = HI_OMX_GET_STRIDE, VPSS_INVALID_HANDLE = 0xffffffff,
     HI_ID_VDEC = 15, kernel_va = (\<lambda>a. a), sizeof_buf = 128\<rparr>"

definition example_cfg :: OMXVDEC_DRV_CFG where
  "example_cfg = \<lparr>cfg_width = 1280, cfg_height = 720, cfg_stride = 1280, cfg_inbuf_num = 3, cfg_outbuf_num = 2,
     cfg_color_format = OMX_PIX_FMT_NV12, cfg_m_use_native_buf = False,
     chan_cfg = \<lparr>eVidStd = STD_H264, StdExt = 0, s32DecMode = 0, s32DecOrderOutput = 0, s32LowdlyEnable = 0,
       s32ModuleLowlyEnable = 0, s32ChanLowlyEnable = 0, s32MaxRawPacketNum = 0, cfg_s32MaxWidth = 0, cfg_s32MaxHeight = 0\<rparr>\<rparr>"

definition loaded_driver :: driver where
  "loaded_driver = \<lparr>open_count = 0, total_chan_num = 0, task_state = TASK_STATE_SLEEPING, task_thread = False, chan_list = [],
     globs = default_globals, wld = example_world\<rparr>"

definition opened_driver :: driver where
  "opened_driver = snd (omxvdec_open example_env omx_platform loaded_driver)"


lemmas evaluate_driver = evaluate example_vpss_def example_cfg_def loaded_driver_def opened_driver_def omxvdec_open_def first_open_def
  channel_init_def decoder_init_def processor_init_def ext_def ext_out_def ext_do_def word_at_def MAX_OPEN_COUNT_def
  omxvdec_ioctl_def channel_create_inst_def channel_add_chan_record_def free_channel_id.simps channel_build_def
  decoder_create_inst_def decoder_try_create_def decoder_init_option_def dfs_option_def std_option_def soft_std_def
  decoder_alloc_vdh_def decoder_alloc_scd_def decoder_connect_def decoder_chan_cfg_def processor_create_inst_def
  channel_lowdelay_record_def channel_tables_def put_chan_def zero_port_def mmz_of_def

definition created_driver :: driver where
  "created_driver = (case omxvdec_ioctl example_env omx_platform example_vpss (\<lambda>_. zero_buf) 7 opened_driver (Some 0)
     (VDEC_IOCTL_CHAN_CREATE (Some example_cfg) True) of None \<Rightarrow> opened_driver | Some (_, _, d) \<Rightarrow> d)"

lemma created_driver:
  "omxvdec_ioctl example_env omx_platform example_vpss (\<lambda>_. zero_buf) 7 opened_driver (Some 0)
     (VDEC_IOCTL_CHAN_CREATE (Some example_cfg) True) = Some (DEV_OK, Some 0, created_driver)"
  "map identity (chan_list created_driver) =
     [((0, 7), (0x100, 0x100, 0x100), (mmz_of [0x100, 0x200, 0x300], zero_mmz, mmz_of [0x100, 0x200, 0x300]),
       (ALLOC_BY_MMZ, ALLOC_BY_MMZ, ALLOC_BY_MMZ))]" "open_count created_driver = 1"
proof -
  let ?create = "omxvdec_ioctl example_env omx_platform example_vpss (\<lambda>_. zero_buf) 7 opened_driver (Some 0)
    (VDEC_IOCTL_CHAN_CREATE (Some example_cfg) True)"
  have "map_option (\<lambda>(r, n, d). (r, n, map identity (chan_list d), open_count d)) ?create =
    Some (DEV_OK, Some 0, [((0, 7), (0x100, 0x100, 0x100), (mmz_of [0x100, 0x200, 0x300], zero_mmz, mmz_of [0x100, 0x200, 0x300]),
       (ALLOC_BY_MMZ, ALLOC_BY_MMZ, ALLOC_BY_MMZ))], 1)"
    by (simp add: evaluate_driver identity_def names_def)
  then show "?create = Some (DEV_OK, Some 0, created_driver)" "open_count created_driver = 1"
    "map identity (chan_list created_driver) =
     [((0, 7), (0x100, 0x100, 0x100), (mmz_of [0x100, 0x200, 0x300], zero_mmz, mmz_of [0x100, 0x200, 0x300]),
       (ALLOC_BY_MMZ, ALLOC_BY_MMZ, ALLOC_BY_MMZ))]"
    by (auto simp: created_driver_def)
qed

lemma created_steps:
  "driver_step example_env omx_platform example_vpss loaded_driver opened_driver"
  "driver_step example_env omx_platform example_vpss opened_driver created_driver"
proof -
  show "driver_step example_env omx_platform example_vpss loaded_driver opened_driver"
    unfolding opened_driver_def by (rule open_file)
  have "ioctl_ok omx_platform opened_driver (Some 0) (VDEC_IOCTL_CHAN_CREATE (Some example_cfg) True)"
    by (simp add: ioctl_ok_def cfg_ok_def example_cfg_def omx_platform_def)
  then show "driver_step example_env omx_platform example_vpss opened_driver created_driver"
    using created_driver(1) by (rule request)
qed


section \<open>Creating a channel and closing a file\<close>

text \<open>
  C18: creating a channel always ends (unless all $2^{32}$ numbers are taken), on success with the
  smallest number that no channel has, appended to the list; on failure the list of channels
  is as before.
\<close>

theorem create_number:
  assumes "length (chan_list d) < 2 ^ 32"
  shows "\<exists>r d'. channel_create_inst E K V mem fd cfg d = Some (r, d') \<and>
    (case r of None \<Rightarrow> chan_list d' = chan_list d \<and> total_chan_num d' = total_chan_num d
     | Some n \<Rightarrow> n \<notin> channel_id ` set (chan_list d) \<and> (\<forall>m. m < n \<longrightarrow> m \<in> channel_id ` set (chan_list d)) \<and>
         (\<exists>c. chan_list d' = chan_list d @ [c] \<and> channel_id c = n \<and> file_dec c = fd) \<and> total_chan_num d' = total_chan_num d + 1)"
proof -
  obtain r1 w1 where k: "ext E KZALLOC (wld d) = (r1, w1)" by (rule prod.exhaust)
  show ?thesis
  proof (cases "r1 = HI_SUCCESS")
    case False
    then show ?thesis by (auto simp: channel_create_inst_def k)
  next
    case True
    let ?ids = "map channel_id (chan_list d)"
    obtain j where j: "free_channel_id ?ids 0 = Some (of_nat j)" "j \<le> length ?ids" "of_nat j \<notin> set ?ids"
      "\<And>i. i < j \<Longrightarrow> of_nat i \<in> set ?ids"
      using free_channel_id_defined [of ?ids] assms by (auto simp del: set_map)
    define n where "n = (of_nat j :: u32)"
    have un: "unat n = j" using j(2) assms unfolding n_def by (intro unat_of_nat_small) simp
    have least: "m \<in> channel_id ` set (chan_list d)" if "m < n" for m
      using that j(4) [of "unat m"] by (simp add: word_less_nat_alt un)
    let ?c0 = "zero_chan\<lparr>file_dec := fd, channel_id := n\<rparr>"
    obtain bc w2 where b: "channel_build E (globs d) K V mem cfg ?c0 w1 = (bc, w2)" by (rule prod.exhaust)
    show ?thesis
    proof (cases bc)
      case None
      then show ?thesis using True j(1) b
        by (simp add: channel_create_inst_def k channel_add_chan_record_def channel_delete_chan_record_def n_def)
    next
      case (Some c)
      have "names c = names ?c0" using channel_build_names b Some by blast
      then show ?thesis using True j(1,3) b Some least
        by (simp add: channel_create_inst_def k channel_add_chan_record_def put_chan_def n_def names_def)
    qed
  qed
qed

theorem create_number_witness:
  "\<exists>d' c. channel_create_inst example_env omx_platform example_vpss (\<lambda>_. zero_buf) 7 example_cfg
      (loaded_driver\<lparr>chan_list := [zero_chan, zero_chan\<lparr>channel_id := 2\<rparr>]\<rparr>) = Some (Some 1, d') \<and>
    chan_list d' = [zero_chan, zero_chan\<lparr>channel_id := 2\<rparr>, c] \<and> channel_id c = 1"
proof -
  let ?d = "loaded_driver\<lparr>chan_list := [zero_chan, zero_chan\<lparr>channel_id := 2\<rparr>]\<rparr>"
  let ?r = "channel_create_inst example_env omx_platform example_vpss (\<lambda>_. zero_buf) 7 example_cfg ?d"
  have "map_option fst ?r = Some (Some 1)" by (simp add: evaluate_driver)
  then obtain d' where r: "?r = Some (Some 1, d')" by auto
  have "length (chan_list ?d) < 2 ^ 32" by simp
  from create_number [OF this, of example_env omx_platform example_vpss "\<lambda>_. zero_buf" 7 example_cfg] r
  show ?thesis by auto
qed

lemma release_inst_always:
  assumes "\<not> g_LowDelayStatistics (globs d)"
  shows "channel_release_inst E V d i =
    (HI_SUCCESS, (channel_delete_chan_record d i)\<lparr>wld := channel_teardown E (globs d) V (chan_list d ! i) (wld d)\<rparr>)"
  using assms by (simp add: channel_release_inst_def release_lowdelay_stats_def)

definition of_file :: "u32 \<Rightarrow> OMXVDEC_CHAN_CTX \<Rightarrow> bool" where
  "of_file fd c \<longleftrightarrow> file_dec c = fd \<and> state c \<noteq> CHAN_STATE_INVALID"

lemma release_loop_list:
  assumes "\<not> g_LowDelayStatistics (globs d)" "chan_list d = xs @ ys" "i = length xs" "n = length ys"
  shows "chan_list (release_loop E V fd n i d) = xs @ filter (\<lambda>c. \<not> of_file fd c) ys"
  using assms
proof (induction n arbitrary: xs ys i d)
  case 0
  then show ?case by simp
next
  case (Suc n)
  obtain y ys' where ys: "ys = y # ys'" "n = length ys'" using Suc.prems(4) by (cases ys) auto
  show ?case
  proof (cases "of_file fd y")
    case True
    let ?d = "(channel_delete_chan_record d i)\<lparr>wld := channel_teardown E (globs d) V (chan_list d ! i) (wld d)\<rparr>"
    have "chan_list (release_loop E V fd n i ?d) = xs @ filter (\<lambda>c. \<not> of_file fd c) ys'"
      using Suc.prems ys by (intro Suc.IH) (simp_all add: channel_delete_chan_record_def)
    then show ?thesis using True Suc.prems ys release_inst_always [OF Suc.prems(1)] by (simp add: of_file_def)
  next
    case False
    have "chan_list (release_loop E V fd n (Suc i) d) = (xs @ [y]) @ filter (\<lambda>c. \<not> of_file fd c) ys'"
      using Suc.prems ys by (intro Suc.IH) simp_all
    then show ?thesis using False Suc.prems ys by (auto simp: of_file_def)
  qed
qed



end
