(* ===== verification/Omx_Resources.thy ===== *)
theory Omx_Resources
  imports Omx_Invariant
begin

text \<open>
  The resources of the driver: a ledger over the calls out of the driver counts what was acquired
  and given up, and the accounts always balance with the channels in the list, on every
  error path of the creation of a channel, its release and the operations between.
\<close>

section \<open>The ledger\<close>

datatype resource = Memory u32 | Decoder u32 | Vpss u32 | Vpss_Port u32 | Msg_Queue | Kernel_Memory

text \<open>What a call acquires if it succeeds, named by what it returns, and what a call gives up.\<close>

fun acquires :: "ext_call \<Rightarrow> u32 list \<Rightarrow> resource option" where
  "acquires (MMZ_ALLOC_MAP sz) ws = Some (Memory (word_at ws 0))"
| "acquires (MMZ_ALLOC sz) ws = Some (Memory (word_at ws 0))"
| "acquires (VFMW_CONTROL h VDEC_CID_CREATE_CHAN_WITH_OPTION args) ws = Some (Decoder (word_at ws 0))"
| "acquires (VPSS_CREATE cfg) ws = Some (Vpss (word_at ws 0))"
| "acquires (VPSS_CREATE_PORT h cfg) ws = Some (Vpss_Port (word_at ws 0))"
| "acquires MSG_QUEUE_INIT ws = Some Msg_Queue"
| "acquires KZALLOC ws = Some Kernel_Memory"
| "acquires _ ws = None"

fun gives_up :: "ext_call \<Rightarrow> resource option" where
  "gives_up (MMZ_UNMAP_RELEASE a) = Some (Memory a)"
| "gives_up (VFMW_CONTROL h VDEC_CID_DESTROY_CHAN args) = Some (Decoder h)"
| "gives_up (VPSS_DESTROY h) = Some (Vpss h)"
| "gives_up (VPSS_DESTROY_PORT h) = Some (Vpss_Port h)"
| "gives_up MSG_QUEUE_DEINIT = Some Msg_Queue"
| "gives_up KFREE = Some Kernel_Memory"
| "gives_up _ = None"

definition change :: "ext_call \<Rightarrow> hi_ret \<times> u32 list \<Rightarrow> resource \<Rightarrow> int" where
  "change a res r = (if fst res = HI_SUCCESS \<and> acquires a (snd res) = Some r then 1 else 0) -
     (if gives_up a = Some r then 1 else 0)"

text \<open>How often a resource was acquired less how often it was given up, over the calls so far (latest first).\<close>

primrec balance_rev :: "env \<Rightarrow> ext_call list \<Rightarrow> resource \<Rightarrow> int" where
  "balance_rev E [] r = 0"
| "balance_rev E (a # past) r = balance_rev E past r + change a (E (rev past) a) r"

definition balance :: "env \<Rightarrow> world \<Rightarrow> resource \<Rightarrow> int" where
  "balance E w r = balance_rev E (rev (calls w)) r"

lemma balance_pts [simp]: "balance E (w\<lparr>pts_table := T\<rparr>) r = balance E w r"
  by (simp add: balance_def)

lemma balance_ext: "ext E a w = (res, w') \<Longrightarrow> balance E w' r = balance E w r + change a (res, snd (E (calls w) a)) r"
  by (auto simp: ext_def balance_def change_def)

lemma balance_ext_out: "ext_out E a w = (res, ws, w') \<Longrightarrow> balance E w' r = balance E w r + change a (res, ws) r"
  by (auto simp: ext_out_def balance_def change_def)

lemma balance_ext_do: "balance E (ext_do E a w) r = balance E w r + change a (E (calls w) a) r"
  by (simp add: ext_do_def ext_def balance_def)

section \<open>Calls that move nothing\<close>

definition neutral :: "ext_call \<Rightarrow> bool" where
  "neutral a \<longleftrightarrow> acquires a [] = None \<and> gives_up a = None"

definition quiet :: "world \<Rightarrow> world \<Rightarrow> bool" where
  "quiet w w' \<longleftrightarrow> (\<exists>cs. calls w' = calls w @ cs \<and> list_all neutral cs)"

lemma acquires_None: "acquires a ws = None \<longleftrightarrow> acquires a [] = None"
  by (cases "(a, ws)" rule: acquires.cases) simp_all

lemma neutral_change: "neutral a \<Longrightarrow> change a res r = 0"
  using acquires_None [of a "snd res"] by (auto simp: change_def neutral_def)

lemma quiet_balance:
  assumes "quiet w w'"
  shows "balance E w' r = balance E w r"
proof -
  have "balance_rev E (rev (xs @ cs)) r = balance_rev E (rev xs) r" if "list_all neutral cs" for xs cs
    using that by (induction cs rule: rev_induct) (simp_all add: neutral_change append_assoc [symmetric] del: append_assoc)
  then show ?thesis using assms by (auto simp: quiet_def balance_def)
qed

lemma quiet_refl [simp]: "quiet w w"
  by (simp add: quiet_def)

lemma quiet_trans [trans]: "quiet w1 w2 \<Longrightarrow> quiet w2 w3 \<Longrightarrow> quiet w1 w3"
  by (auto simp: quiet_def)

lemma quiet_pts [simp]: "quiet w (w'\<lparr>pts_table := T\<rparr>) = quiet w w'" "quiet (w\<lparr>pts_table := T\<rparr>) w' = quiet w w'"
  by (simp_all add: quiet_def)

lemma neutral_simps [simp]:
  "neutral GET_TIME" "neutral (MMZ_MAP a)" "neutral (MMZ_UNMAP a b)" "neutral MSLEEP" "neutral MSG_DEQUEUE"
  "neutral (RAW_OPEN n)" "neutral RAW_CLOSE" "neutral (RAW_WRITE a l)" "neutral (VFMW_READ_IMAGE h)" "neutral (VFMW_RELEASE_IMAGE h ws)"
  "neutral (VPSS_SEND_COMMAND h cmd ws)" "neutral (VPSS_ENABLE_PORT h on)" "neutral TASK_CREATE" "neutral TASK_DESTROY"
  "neutral GET_VFMW_FUNC" "neutral GET_VPSS_FUNC" "neutral VFMW_INIT" "neutral VFMW_EXIT" "neutral VPSS_GLOBAL_INIT"
  "neutral VPSS_GLOBAL_DEINIT" "neutral VPSS_DEFAULT_CFG" "neutral VPSS_DEFAULT_PORT_CFG" "neutral (VPSS_REGIST_HOOK h k)"
  "neutral (VPSS_SET_SOURCE h)" "neutral (LD_START h)" "neutral LD_STOP"
  "neutral (VFMW_CONTROL h cid ws) \<longleftrightarrow> cid \<noteq> VDEC_CID_CREATE_CHAN_WITH_OPTION \<and> cid \<noteq> VDEC_CID_DESTROY_CHAN"
  by (simp_all add: neutral_def) (cases cid; simp)

lemma quiet_ext: "ext E a w = (res, w') \<Longrightarrow> neutral a \<Longrightarrow> quiet w w'"
  by (auto simp: quiet_def ext_def)

lemma quiet_ext_out: "ext_out E a w = (res, ws, w') \<Longrightarrow> neutral a \<Longrightarrow> quiet w w'"
  by (auto simp: quiet_def ext_out_def)

lemma quiet_ext_do: "neutral a \<Longrightarrow> quiet w (ext_do E a w)"
  by (auto simp: quiet_def ext_do_def ext_def)

lemma quiet_ext_doI: "quiet w w' \<Longrightarrow> neutral a \<Longrightarrow> quiet w (ext_do E a w')"
  using quiet_trans quiet_ext_do by blast

lemma quiet_ext_doD: "quiet (ext_do E a w) w' \<Longrightarrow> neutral a \<Longrightarrow> quiet w w'"
  using quiet_trans quiet_ext_do by blast

lemmas call_defs = ext_def ext_out_def ext_do_def

lemma get_time_quiet: "OMX_GetTimeInMs E w = (t, w') \<Longrightarrow> quiet w w'"
  by (auto simp: OMX_GetTimeInMs_def quiet_def call_defs)

lemma note_quiet: "lowdelay_note E G c w tag ty = Some (c', w') \<Longrightarrow> quiet w w'"
  by (auto simp: lowdelay_note_def channel_add_lowdelay_tag_time_def dest: get_time_quiet split: if_splits option.splits prod.splits)

lemma bind_quiet: "channel_bind_user_buffer E V c d w = (r, c', w') \<Longrightarrow> quiet w w'"
  by (auto simp: channel_bind_user_buffer_def channel_insert_addr_table_def side_insert_def channel_map_kernel_viraddr_def
      quiet_def call_defs split: if_splits prod.splits ePORT_DIR.splits option.splits)

lemma unbind_quiet: "channel_unbind_user_buffer E c d w = Some (r, c', w') \<Longrightarrow> quiet w w'"
  by (auto simp: channel_unbind_user_buffer_def channel_delete_addr_table_def side_delete_def channel_unmap_kernel_viraddr_def
      quiet_ext_do split: if_splits prod.splits ePORT_DIR.splits option.splits)

lemma save_stream_quiet: "channel_save_stream E G c b w = (c', w') \<Longrightarrow> quiet w w'"
  by (auto simp: channel_save_stream_def quiet_def call_defs Let_def split: if_splits prod.splits)

lemma tag_stream_quiet: "tag_stream E G c i w = Some (c', w') \<Longrightarrow> quiet w w'"
  by (auto simp: tag_stream_def dest: note_quiet split: option.splits if_splits)

lemma empty_data_quiet:
  assumes "empty_data E G c d w = Some (r, c', w')"
  shows "quiet w w'"
proof (cases "lookup_stream c d = Some None")
  case True
  then show ?thesis using assms by (auto simp: empty_data_def Let_def)
next
  case False
  then obtain i c1 where l: "lookup_stream c d = Some (Some (i, c1))" using assms by (auto simp: empty_data_def Let_def split: option.splits)
  obtain c2 c3 w3 where t: "tag_stream E G c2 i w = Some (c3, w3)"
    "(case channel_insert_in_raw_list c3 i of None \<Rightarrow> None
      | Some (r, c4) \<Rightarrow> if r \<noteq> HI_SUCCESS then Some (HI_FAILURE, message_queue c4 VDEC_MSG_RESP_INPUT_DONE VDEC_ERR_ILLEGAL_OP (BUF_DATA d), w3)
         else Some (HI_SUCCESS, channel_save_stream E G c4 (port_buf (in_port c4) i) w3)) = Some (r, c', w')"
    using assms l by (auto simp: empty_data_def Let_def split: option.splits)
  have "quiet w3 w'" using t(2) save_stream_quiet by (fastforce split: option.splits if_splits prod.splits)
  then show ?thesis using tag_stream_quiet [OF t(1)] quiet_trans by blast
qed

lemma empty_quiet: "channel_empty_this_stream E G K c d w = Some (r, c', w') \<Longrightarrow> quiet w w'"
  by (auto simp: channel_empty_this_stream_def Let_def dest!: empty_data_quiet intro!: quiet_ext_doI split: option.splits if_splits prod.splits)

lemma control_quiet:
  "decoder_control E cid args c w = (r, w') \<Longrightarrow> cid \<noteq> VDEC_CID_CREATE_CHAN_WITH_OPTION \<Longrightarrow> cid \<noteq> VDEC_CID_DESTROY_CHAN \<Longrightarrow> quiet w w'"
  by (auto simp: decoder_control_def dest!: quiet_ext)

lemma flush_in_quiet: "channel_flush_in_port E K c w = (r, c', w') \<Longrightarrow> quiet w w'"
  by (auto simp: channel_flush_in_port_def decoder_clear_stream_def decoder_control_def quiet_def call_defs Let_def split: prod.splits if_splits)

lemma flush_out_quiet: "channel_flush_out_port E K c w = (r, c', w') \<Longrightarrow> quiet w w'"
  by (auto simp: channel_flush_out_port_def channel_reset_inst_def processor_reset_inst_def decoder_reset_inst_with_option_def
      decoder_control_def quiet_def call_defs Let_def split: prod.splits if_splits)

lemma flush_quiet:
  assumes "channel_flush_inst E K c pdir w = (r, c', w')"
  shows "quiet w w'"
proof -
  obtain r1 c1 w1 where i: "(if pdir = PORT_DIR_INPUT \<or> pdir = PORT_DIR_BOTH then channel_flush_in_port E K c w else (HI_SUCCESS, c, w)) = (r1, c1, w1)"
    by (rule prod_cases3)
  obtain r2 c2 w2 where o: "(if pdir = PORT_DIR_OUTPUT \<or> pdir = PORT_DIR_BOTH then channel_flush_out_port E K c1 w1 else (HI_SUCCESS, c1, w1)) = (r2, c2, w2)"
    by (rule prod_cases3)
  have "quiet w w1" "quiet w1 w2" using i o flush_in_quiet flush_out_quiet by (auto split: if_splits)
  moreover have "w' = w2" using assms i o by (simp add: channel_flush_inst_def)
  ultimately show ?thesis using quiet_trans by blast
qed

lemma start_quiet: "channel_start_inst E G K c w = (r, c', w') \<Longrightarrow> quiet w w'"
  by (auto simp: channel_start_inst_def decoder_start_inst_def decoder_stop_inst_def decoder_control_def processor_start_inst_def
      quiet_def call_defs Let_def split: prod.splits if_splits)

lemma stops_quiet: "decoder_stop_inst E c w = (r, w') \<Longrightarrow> quiet w w'" "processor_stop_inst E c w = (r, w') \<Longrightarrow> quiet w w'"
  by (auto simp: decoder_stop_inst_def decoder_control_def processor_stop_inst_def quiet_def call_defs split: prod.splits if_splits)

lemma stop_quiet: "channel_stop_inst E c w = (r, c', w') \<Longrightarrow> quiet w w'"
  by (auto simp: channel_stop_inst_def decoder_stop_inst_def decoder_control_def processor_stop_inst_def
      quiet_def call_defs Let_def split: prod.splits if_splits)

lemma chan_ioctl_quiet:
  assumes i: "chan_ioctl E G K V c w req = Some (r, c', w')"
  shows "quiet w w'"
proof (cases req)
  case (VDEC_IOCTL_CHAN_BIND_BUFFER d)
  then show ?thesis using i bind_quiet by (cases d) (auto simp: chan_ioctl_def split: prod.splits)
next
  case (VDEC_IOCTL_CHAN_UNBIND_BUFFER d)
  then show ?thesis using i unbind_quiet by (cases d) (auto simp: chan_ioctl_def split: prod.splits)
next
  case (VDEC_IOCTL_EMPTY_INPUT_STREAM d)
  then show ?thesis using i empty_quiet by (cases d) (auto simp: chan_ioctl_def split: prod.splits)
next
  case (VDEC_IOCTL_FILL_OUTPUT_FRAME d)
  then show ?thesis using i by (cases d) (auto simp: chan_ioctl_def split: prod.splits)
next
  case (VDEC_IOCTL_FLUSH_PORT d)
  then show ?thesis using i flush_quiet by (cases d) (auto simp: chan_ioctl_def split: prod.splits)
next
  case VDEC_IOCTL_CHAN_START
  then show ?thesis using i start_quiet by (auto simp: chan_ioctl_def split: prod.splits)
next
  case VDEC_IOCTL_CHAN_STOP
  then show ?thesis using i stop_quiet by (auto simp: chan_ioctl_def split: prod.splits)
next
  case (VDEC_IOCTL_CHAN_GET_MSG copied)
  then show ?thesis using i quiet_ext_out by (fastforce simp: chan_ioctl_def channel_get_message_def split: prod.splits)
qed (use i in \<open>auto simp: chan_ioctl_def split: prod.splits\<close>)

lemma get_stream_quiet: "get_stream E G K c w = Some (r, c', w') \<Longrightarrow> quiet w w'"
  by (auto simp: get_stream_def Let_def dest: note_quiet split: if_splits option.splits prod.splits)

lemma release_stream_quiet: "release_stream E G K junk sd c w = Some (r, c', w') \<Longrightarrow> quiet w w'"
  by (auto simp: release_stream_def dest: note_quiet split: if_splits option.splits)

lemma new_image_quiet:
  assumes "new_image_event E G tag c w = Some (r, c', w')"
  shows "quiet w w'"
proof -
  obtain c1 w1 where n: "lowdelay_note E G c w tag OMX_LOWDELAY_REC_VFMW_RPO_IMG_TIME = Some (c1, w1)"
    using assms by (auto simp: new_image_event_def split: option.splits)
  have "quiet w1 w'" using assms n
    by (auto simp: new_image_event_def processor_inform_img_ready_def quiet_def call_defs Let_def)
  then show ?thesis using note_quiet [OF n] quiet_trans by blast
qed

lemma processor_event_quiet: "processor_event E G V c w ev = Some (r, out, c', w') \<Longrightarrow> quiet w w'"
  by (auto simp: processor_event_def processor_report_new_frame_def Let_def dest: note_quiet
      split: VPSS_EVENT.splits if_splits option.splits prod.splits)

lemma report_last_loop_quiet: "quiet w (snd (snd (report_last_loop E G others n c w)))"
proof (induction n arbitrary: c w)
  case 0
  then show ?case by simp
next
  case (Suc n)
  obtain r c1 where g: "processor_get_frame c 0 = (r, c1)" by (cases "processor_get_frame c 0")
  show ?case using Suc quiet_trans [OF quiet_ext_do [of MSLEEP w E]] by (cases r) (simp_all add: g)
qed

lemma got_image_quiet: "got_image E G K V m f c w = Some (f', c', w') \<Longrightarrow> quiet w w'"
  unfolding got_image_def Let_def
  by (auto dest!: note_quiet dest: quiet_ext_doD split: option.splits prod.splits if_split_asm)

lemma get_image_quiet:
  assumes "get_image E G K V others f c w = Some (r, c', w')"
  shows "quiet w w'"
proof (cases "reset_pending c")
  case True
  then show ?thesis using assms by (simp add: get_image_def)
next
  case False
  obtain r1 ws w1 where x: "ext_out E (VFMW_READ_IMAGE (decoder_id c)) w = (r1, ws, w1)" by (rule prod_cases3)
  have "quiet w1 (snd (no_image E G others c w1))"
    by (simp add: no_image_def processor_report_last_frame_def report_last_loop_quiet)
  then have "quiet w1 w'" using assms x False got_image_quiet by (fastforce simp: get_image_def split: if_splits)
  then show ?thesis using quiet_ext_out [OF x] quiet_trans by simp
qed

section \<open>What a channel owns\<close>

definition mem_of :: "MMZ_BUFFER_S \<Rightarrow> resource list" where
  "mem_of b = (if u32Size b \<noteq> 0 then [Memory (u32StartPhyAddr b)] else [])"

definition buffers :: "OMXVDEC_CHAN_CTX \<Rightarrow> resource list" where
  "buffers c = mem_of (decoder_scd_buf c) @ mem_of (decoder_vdh_buf c)"

definition resources :: "OMXVDEC_CHAN_CTX \<Rightarrow> resource list" where
  "resources c = Msg_Queue # Decoder (decoder_id c) # Vpss (processor_id c) # Vpss_Port (port_id c) #
     mem_of (channel_extra_buf c) @ buffers c"

text \<open>
  What the driver relies on: memory that was allocated has a size and an address, and no handle
  is the invalid one.
\<close>

definition env_ok :: "vpss_platform \<Rightarrow> env \<Rightarrow> bool" where
  "env_ok V E \<longleftrightarrow> (\<forall>past a. fst (E past a) = HI_SUCCESS \<longrightarrow>
     (case acquires a (snd (E past a)) of
        Some (Memory x) \<Rightarrow> x \<noteq> 0 \<and> word_at (snd (E past a)) 2 \<noteq> 0
      | Some (Vpss h) \<Rightarrow> h \<noteq> VPSS_INVALID_HANDLE V
      | Some (Vpss_Port h) \<Rightarrow> h \<noteq> VPSS_INVALID_HANDLE V
      | _ \<Rightarrow> True))"

definition buffers_ok :: "OMXVDEC_CHAN_CTX \<Rightarrow> bool" where
  "buffers_ok c \<longleftrightarrow> eSCDMemAlloc c = ALLOC_BY_MMZ \<and> eVDHMemAlloc c = ALLOC_BY_MMZ \<and>
     (u32Size (decoder_scd_buf c) \<noteq> 0 \<longrightarrow> u32StartPhyAddr (decoder_scd_buf c) \<noteq> 0) \<and>
     (u32Size (decoder_vdh_buf c) \<noteq> 0 \<longrightarrow> u32StartPhyAddr (decoder_vdh_buf c) \<noteq> 0)"

definition channel_res_ok :: "vpss_platform \<Rightarrow> OMXVDEC_CHAN_CTX \<Rightarrow> bool" where
  "channel_res_ok V c \<longleftrightarrow> buffers_ok c \<and> eEXTRAMemAlloc c = ALLOC_BY_MMZ \<and>
     port_id c \<noteq> VPSS_INVALID_HANDLE V \<and> processor_id c \<noteq> VPSS_INVALID_HANDLE V"

abbreviation tally :: "resource list \<Rightarrow> resource \<Rightarrow> int" where
  "tally xs r \<equiv> int (count_list xs r)"

lemma mem_of_zero [simp]: "mem_of zero_mmz = []"
  by (simp add: mem_of_def zero_mmz_def)

lemma resources_cong: "identity c' = identity c \<Longrightarrow> resources c' = resources c \<and> channel_res_ok V c' = channel_res_ok V c"
  by (simp add: resources_def buffers_def channel_res_ok_def buffers_ok_def identity_def)

lemma change_simps [simp]:
  "change (MMZ_ALLOC_MAP sz) (res, ws) r = (if res = HI_SUCCESS \<and> r = Memory (word_at ws 0) then 1 else 0)"
  "change (MMZ_ALLOC sz) (res, ws) r = (if res = HI_SUCCESS \<and> r = Memory (word_at ws 0) then 1 else 0)"
  "change (VFMW_CONTROL h VDEC_CID_CREATE_CHAN_WITH_OPTION args) (res, ws) r = (if res = HI_SUCCESS \<and> r = Decoder (word_at ws 0) then 1 else 0)"
  "change (VPSS_CREATE cfg) (res, ws) r = (if res = HI_SUCCESS \<and> r = Vpss (word_at ws 0) then 1 else 0)"
  "change (VPSS_CREATE_PORT h cfg) (res, ws) r = (if res = HI_SUCCESS \<and> r = Vpss_Port (word_at ws 0) then 1 else 0)"
  "change MSG_QUEUE_INIT (res, ws) r = (if res = HI_SUCCESS \<and> r = Msg_Queue then 1 else 0)"
  "change KZALLOC (res, ws) r = (if res = HI_SUCCESS \<and> r = Kernel_Memory then 1 else 0)"
  by (auto simp: change_def)

lemma change_drops [simp]:
  "change (MMZ_UNMAP_RELEASE a) res r = - tally [Memory a] r"
  "change (VFMW_CONTROL h VDEC_CID_DESTROY_CHAN args) res r = - tally [Decoder h] r"
  "change (VPSS_DESTROY h) res r = - tally [Vpss h] r" "change (VPSS_DESTROY_PORT h) res r = - tally [Vpss_Port h] r"
  "change MSG_QUEUE_DEINIT res r = - tally [Msg_Queue] r" "change KFREE res r = - tally [Kernel_Memory] r"
  by (simp_all add: change_def)

lemma env_okD:
  assumes "env_ok V E" "ext_out E a w = (HI_SUCCESS, ws, w')"
  shows "acquires a ws = Some (Memory x) \<Longrightarrow> x \<noteq> 0 \<and> word_at ws 2 \<noteq> 0"
    "acquires a ws = Some (Vpss h) \<Longrightarrow> h \<noteq> VPSS_INVALID_HANDLE V"
    "acquires a ws = Some (Vpss_Port h) \<Longrightarrow> h \<noteq> VPSS_INVALID_HANDLE V"
  using assms(1) [unfolded env_ok_def, rule_format, of "calls w" a] assms(2) by (auto simp: ext_out_def)

text \<open>A block that was allocated.\<close>

lemma allocated:
  assumes "env_ok V E" "ext_out E a w = (HI_SUCCESS, ws, w')" "a = MMZ_ALLOC_MAP sz \<or> a = MMZ_ALLOC sz"
  shows "balance E w' r = balance E w r + tally (mem_of (mmz_of ws)) r" "u32StartPhyAddr (mmz_of ws) \<noteq> 0"
    "mem_of ((mmz_of ws)\<lparr>u32StartVirAddr := v\<rparr>) = mem_of (mmz_of ws)"
proof -
  have s: "word_at ws 0 \<noteq> 0" "word_at ws 2 \<noteq> 0" using env_okD(1) [OF assms(1,2)] assms(3) by auto
  then show "balance E w' r = balance E w r + tally (mem_of (mmz_of ws)) r" "u32StartPhyAddr (mmz_of ws) \<noteq> 0"
    "mem_of ((mmz_of ws)\<lparr>u32StartVirAddr := v\<rparr>) = mem_of (mmz_of ws)"
    using balance_ext_out [OF assms(2), of r] assms(3) by (auto simp: mem_of_def mmz_of_def)
qed

lemma release_mem_balance:
  "omxvdec_release_mem E b ALLOC_BY_MMZ w = (b', w') \<Longrightarrow> balance E w' r = balance E w r - tally (mem_of b) r"
  by (auto simp: omxvdec_release_mem_def balance_ext_do mem_of_def split: if_splits)

section \<open>Accounts of a creation\<close>

text \<open>Exactly the buffers of the context have been acquired since.\<close>

definition paid :: "env \<Rightarrow> world \<Rightarrow> OMXVDEC_CHAN_CTX \<Rightarrow> world \<Rightarrow> bool" where
  "paid E w0 c w \<longleftrightarrow> buffers_ok c \<and> (\<forall>r. balance E w r = balance E w0 r + tally (buffers c) r)"

text \<open>What is true where the source jumps to one of its labels.\<close>

definition label_ok :: "env \<Rightarrow> world \<Rightarrow> nat \<Rightarrow> OMXVDEC_CHAN_CTX \<Rightarrow> world \<Rightarrow> bool" where
  "label_ok E w0 l c w \<longleftrightarrow>
     (if l = 3 then buffers_ok c \<and> (\<forall>r. balance E w r = balance E w0 r + tally (Decoder (decoder_id c) # buffers c) r)
      else l < 3 \<and> paid E w0 c w \<and> (l \<le> 1 \<longrightarrow> decoder_scd_buf c = zero_mmz) \<and> (l = 0 \<longrightarrow> decoder_vdh_buf c = zero_mmz))"

lemma cleanup_balance:
  assumes "label_ok E w0 l c w"
  shows "balance E (snd (decoder_create_cleanup E l c w)) r = balance E w0 r"
proof -
  have k: "eSCDMemAlloc c = ALLOC_BY_MMZ" "eVDHMemAlloc c = ALLOC_BY_MMZ"
    using assms by (auto simp: label_ok_def paid_def buffers_ok_def split: if_splits)
  define w1 where "w1 = (if 3 \<le> l then ext_do E (VFMW_CONTROL (decoder_id c) VDEC_CID_DESTROY_CHAN []) w else w)"
  obtain scd w2 where s: "(if 2 \<le> l then omxvdec_release_mem E (decoder_scd_buf c) ALLOC_BY_MMZ w1 else (decoder_scd_buf c, w1)) = (scd, w2)"
    by (rule prod.exhaust)
  obtain vdh w3 where v: "(if 1 \<le> l then omxvdec_release_mem E (decoder_vdh_buf c) ALLOC_BY_MMZ w2 else (decoder_vdh_buf c, w2)) = (vdh, w3)"
    by (rule prod.exhaust)
  have "balance E w1 r = balance E w0 r + tally (buffers c) r"
    using assms by (auto simp: w1_def label_ok_def paid_def balance_ext_do split: if_splits)
  moreover have "balance E w2 r = balance E w1 r - tally (mem_of (decoder_scd_buf c)) r"
    using s release_mem_balance assms by (auto simp: label_ok_def split: if_splits)
  moreover have "balance E w3 r = balance E w2 r - tally (mem_of (decoder_vdh_buf c)) r"
    using v release_mem_balance assms by (auto simp: label_ok_def split: if_splits)
  moreover have "snd (decoder_create_cleanup E l c w) = w3"
    by (simp only: decoder_create_cleanup_def k Let_def w1_def [symmetric] s v prod.case snd_conv)
  ultimately show ?thesis by (simp add: buffers_def)
qed

lemma failed_call:
  assumes "ext_out E a w = (res, ws, w')" "res \<noteq> HI_SUCCESS" "gives_up a = None"
  shows "balance E w' r = balance E w r"
  using balance_ext_out [OF assms(1), of r] assms(2,3) by (simp add: change_def)

lemma paid_step:
  assumes "paid E w0 c w" "\<And>r. balance E w' r = balance E w r" "buffers c' = buffers c" "buffers_ok c' = buffers_ok c"
  shows "paid E w0 c' w'"
  using assms by (simp add: paid_def)

lemma paid_vdh:
  assumes "env_ok V E" "paid E w0 c w" "decoder_vdh_buf c = zero_mmz"
    and "ext_out E a w = (HI_SUCCESS, ws, w')" "a = MMZ_ALLOC_MAP sz \<or> a = MMZ_ALLOC sz"
  shows "paid E w0 (c\<lparr>eVDHMemAlloc := ALLOC_BY_MMZ, decoder_vdh_buf := mmz_of ws\<rparr>) w'"
    "paid E w0 (c\<lparr>eVDHMemAlloc := ALLOC_BY_MMZ, decoder_vdh_buf := (mmz_of ws)\<lparr>u32StartVirAddr := v\<rparr>\<rparr>) w'"
  using allocated [OF assms(1,4,5)] assms(2,3) by (auto simp: paid_def buffers_def buffers_ok_def)

lemma paid_scd:
  assumes "env_ok V E" "paid E w0 c w" "decoder_scd_buf c = zero_mmz"
    and "ext_out E a w = (HI_SUCCESS, ws, w')" "a = MMZ_ALLOC_MAP sz \<or> a = MMZ_ALLOC sz"
  shows "paid E w0 (c\<lparr>eSCDMemAlloc := ALLOC_BY_MMZ, decoder_scd_buf := mmz_of ws\<rparr>) w'"
    "paid E w0 (c\<lparr>eSCDMemAlloc := ALLOC_BY_MMZ, decoder_scd_buf := (mmz_of ws)\<lparr>u32StartVirAddr := v\<rparr>\<rparr>) w'"
  using allocated [OF assms(1,4,5)] assms(2,3) by (auto simp: paid_def buffers_def buffers_ok_def)

lemma alloc_vdh_paid:
  assumes env: "env_ok V E" and p: "paid E w0 c w" and z: "decoder_scd_buf c = zero_mmz" "decoder_vdh_buf c = zero_mmz"
  shows "case decoder_alloc_vdh E sz opt c w of Goto l c' w' \<Rightarrow> label_ok E w0 l c' w'
    | Done (opt', c', w') \<Rightarrow> paid E w0 c' w' \<and> decoder_scd_buf c' = zero_mmz"
proof -
  obtain r1 ws1 w1 where a1: "ext_out E (MMZ_ALLOC_MAP sz) w = (r1, ws1, w1)" by (rule prod_cases3)
  obtain r2 ws2 w2 where a2: "ext_out E (MMZ_ALLOC sz) w = (r2, ws2, w2)" by (rule prod_cases3)
  obtain r3 ws3 w3 where a3: "ext_out E (MMZ_MAP_CACHE (u32StartPhyAddr (mmz_of ws2))) w2 = (r3, ws3, w3)" by (rule prod_cases3)
  have q: "balance E w3 r = balance E w2 r" for r using balance_ext_out [OF a3, of r] by (simp add: change_def)
  have f1: "paid E w0 (c\<lparr>eVDHMemAlloc := ALLOC_BY_MMZ\<rparr>) w1" if "r1 \<noteq> HI_SUCCESS"
    using p failed_call [OF a1 that] by (auto simp: paid_def buffers_def buffers_ok_def)
  have f2: "paid E w0 c w2" if "r2 \<noteq> HI_SUCCESS" using p failed_call [OF a2 that] by (auto simp: paid_def)
  have s1: "paid E w0 (c\<lparr>eVDHMemAlloc := ALLOC_BY_MMZ, decoder_vdh_buf := mmz_of ws1\<rparr>) w1" if "r1 = HI_SUCCESS"
    using paid_vdh(1) [OF env p z(2) a1 [unfolded that]] by simp
  have s2: "paid E w0 (c\<lparr>eVDHMemAlloc := ALLOC_BY_MMZ, decoder_vdh_buf := mmz_of ws2\<rparr>) w3"
    "paid E w0 (c\<lparr>eVDHMemAlloc := ALLOC_BY_MMZ, decoder_vdh_buf := (mmz_of ws2)\<lparr>u32StartVirAddr := v\<rparr>\<rparr>) w3" if "r2 = HI_SUCCESS" for v
    using paid_vdh [OF env p z(2) a2 [unfolded that]] q by (simp_all add: paid_def)
  show ?thesis using p z f1 f2 s1 s2 by (simp add: decoder_alloc_vdh_def a1 a2 a3 label_ok_def Let_def)
qed

lemma alloc_scd_paid:
  assumes env: "env_ok V E" and p: "paid E w0 c w" and z: "decoder_scd_buf c = zero_mmz"
  shows "case decoder_alloc_scd E sz opt c w of Goto l c' w' \<Rightarrow> label_ok E w0 l c' w' | Done (opt', c', w') \<Rightarrow> paid E w0 c' w'"
proof -
  obtain r1 ws1 w1 where a1: "ext_out E (MMZ_ALLOC_MAP sz) w = (r1, ws1, w1)" by (rule prod_cases3)
  obtain r2 ws2 w2 where a2: "ext_out E (MMZ_ALLOC sz) w = (r2, ws2, w2)" by (rule prod_cases3)
  obtain r3 ws3 w3 where a3: "ext_out E (MMZ_MAP_CACHE (u32StartPhyAddr (mmz_of ws2))) w2 = (r3, ws3, w3)" by (rule prod_cases3)
  have q: "balance E w3 r = balance E w2 r" for r using balance_ext_out [OF a3, of r] by (simp add: change_def)
  have f1: "paid E w0 c w1" if "r1 \<noteq> HI_SUCCESS" using p failed_call [OF a1 that] by (auto simp: paid_def)
  have f2: "paid E w0 c w2" if "r2 \<noteq> HI_SUCCESS" using p failed_call [OF a2 that] by (auto simp: paid_def)
  have s1: "paid E w0 (c\<lparr>eSCDMemAlloc := ALLOC_BY_MMZ, decoder_scd_buf := mmz_of ws1\<rparr>) w1" if "r1 = HI_SUCCESS"
    using paid_scd(1) [OF env p z a1 [unfolded that]] by simp
  have s2: "paid E w0 (c\<lparr>eSCDMemAlloc := ALLOC_BY_MMZ, decoder_scd_buf := mmz_of ws2\<rparr>) w3"
    "paid E w0 (c\<lparr>eSCDMemAlloc := ALLOC_BY_MMZ, decoder_scd_buf := (mmz_of ws2)\<lparr>u32StartVirAddr := v\<rparr>\<rparr>) w3" if "r2 = HI_SUCCESS" for v
    using paid_scd [OF env p z a2 [unfolded that]] q by (simp_all add: paid_def)
  show ?thesis using p z f1 f2 s1 s2 by (simp add: decoder_alloc_scd_def a1 a2 a3 label_ok_def Let_def)
qed

lemma connect_label:
  assumes b: "buffers_ok c" and e: "\<And>r. balance E w r = balance E w0 r + tally (Decoder (decoder_id c) # buffers c) r"
  shows "case decoder_connect E cfg c w of Goto l c' w' \<Rightarrow> label_ok E w0 l c' w'
    | Done (c', w') \<Rightarrow> c' = c \<and> (\<forall>r. balance E w' r = balance E w0 r + tally (Decoder (decoder_id c) # buffers c) r)"
proof -
  obtain r1 w1 where a1: "ext E (VFMW_CONTROL (decoder_id c) VDEC_CID_CFG_CHAN (cfg_words cfg)) w = (r1, w1)" by (rule prod.exhaust)
  obtain r2 w2 where a2: "ext E (VFMW_CONTROL (decoder_id c) VDEC_CID_SET_STREAM_INTF [channel_id c]) w1 = (r2, w2)" by (rule prod.exhaust)
  obtain r3 w3 where a3: "ext E (VFMW_CONTROL (decoder_id c) VDEC_CID_GET_IMAGE_INTF [channel_id c]) w2 = (r3, w3)" by (rule prod.exhaust)
  have "quiet w w1" "quiet w1 w2" "quiet w2 w3" using quiet_ext [OF a1] quiet_ext [OF a2] quiet_ext [OF a3] by simp_all
  then have q: "balance E w1 r = balance E w r" "balance E w2 r = balance E w r" "balance E w3 r = balance E w r" for r
    using quiet_balance by fastforce+
  show ?thesis using b e q by (simp add: decoder_connect_def a1 a2 a3 label_ok_def)
qed

text \<open>What an attempt to create a decoder guarantees.\<close>

definition attempt_ok :: "env \<Rightarrow> world \<Rightarrow> (OMXVDEC_CHAN_CTX \<times> world) attempt \<Rightarrow> bool" where
  "attempt_ok E w0 t = (case t of Goto l c w \<Rightarrow> label_ok E w0 l c w
     | Done (c, w) \<Rightarrow> buffers_ok c \<and> (\<forall>r. balance E w r = balance E w0 r + tally (Decoder (decoder_id c) # buffers c) r))"

lemma create_chan_attempt:
  assumes p: "paid E w0 c2 w3"
  shows "attempt_ok E w0 (case ext_out E (VFMW_CONTROL h VDEC_CID_CREATE_CHAN_WITH_OPTION args) w3 of (r4, ids, w4) \<Rightarrow>
     if r4 \<noteq> HI_SUCCESS then Goto 2 c2 w4
     else let c3 = c2\<lparr>decoder_id := word_at ids 0\<rparr> in decoder_connect E (decoder_chan_cfg G c3 cfg) c3 w4)"
proof -
  obtain r4 ids w4 where cr: "ext_out E (VFMW_CONTROL h VDEC_CID_CREATE_CHAN_WITH_OPTION args) w3 = (r4, ids, w4)" by (rule prod_cases3)
  let ?c3 = "c2\<lparr>decoder_id := word_at ids 0\<rparr>"
  have bal: "balance E w4 r = balance E w3 r + (if r4 = HI_SUCCESS \<and> r = Decoder (word_at ids 0) then 1 else 0)" for r
    using balance_ext_out [OF cr, of r] by simp
  have ok3: "buffers_ok ?c3" "buffers ?c3 = buffers c2" using p by (simp_all add: paid_def buffers_ok_def buffers_def)
  show ?thesis
  proof (cases "r4 = HI_SUCCESS")
    case False
    then show ?thesis using p bal by (simp add: cr attempt_ok_def label_ok_def paid_def)
  next
    case True
    have "balance E w4 r = balance E w0 r + tally (Decoder (decoder_id ?c3) # buffers ?c3) r" for r
      using p bal True ok3(2) by (simp add: paid_def)
    from connect_label [OF ok3(1) this, of "decoder_chan_cfg G ?c3 cfg"] ok3 show ?thesis
      by (auto simp: cr True attempt_ok_def Let_def split: attempt.splits)
  qed
qed

lemma try_create_attempt:
  assumes env: "env_ok V E" and z: "decoder_scd_buf c = zero_mmz" "decoder_vdh_buf c = zero_mmz" "eSCDMemAlloc c = ALLOC_BY_MMZ" "eVDHMemAlloc c = ALLOC_BY_MMZ"
  shows "attempt_ok E w (decoder_try_create E G cfg c w)"
proof -
  obtain c0 cap opt where o: "decoder_init_option G c cfg zero_option = (c0, cap, opt)" by (rule prod_cases3)
  have c0: "decoder_scd_buf c0 = zero_mmz" "decoder_vdh_buf c0 = zero_mmz" "eSCDMemAlloc c0 = ALLOC_BY_MMZ" "eVDHMemAlloc c0 = ALLOC_BY_MMZ"
    using o z by (auto simp: decoder_init_option_def Let_def split: prod.splits)
  obtain r ms w1 where m: "ext_out E (VFMW_CONTROL (- 1) VDEC_CID_GET_CHAN_DETAIL_MEMSIZE_WITH_OPTION (option_words cap opt)) w = (r, ms, w1)"
    by (rule prod_cases3)
  have q1: "balance E w1 r = balance E w r" for r using quiet_balance [OF quiet_ext_out [OF m]] by simp
  have p0: "paid E w c0 w1" using c0 q1 by (simp add: paid_def buffers_ok_def buffers_def zero_mmz_def mem_of_def)
  define sz where "sz = (if soft_std (protocol c0) then (if cap < CAP_LEVEL_MPEG_FHD then 22 * 1024 * 1024 else 45 * 1024 * 1024) else word_at ms 0)"
  note v = alloc_vdh_paid [OF env p0 c0(1,2), of sz "opt\<lparr>s32IsSecMode := 0\<rparr>"]
  note d = decoder_try_create_def o m sz_def [symmetric]
  consider "r \<noteq> HI_SUCCESS"
    | l c1 w2 where "r = HI_SUCCESS" "decoder_alloc_vdh E sz (opt\<lparr>s32IsSecMode := 0\<rparr>) c0 w1 = Goto l c1 w2"
    | opt1 c1 w2 where "r = HI_SUCCESS" "decoder_alloc_vdh E sz (opt\<lparr>s32IsSecMode := 0\<rparr>) c0 w1 = Done (opt1, c1, w2)"
    by (cases "decoder_alloc_vdh E sz (opt\<lparr>s32IsSecMode := 0\<rparr>) c0 w1") auto
  then show ?thesis
  proof cases
    case 1
    then show ?thesis using p0 c0 by (simp add: d attempt_ok_def label_ok_def)
  next
    case 2
    then show ?thesis using v by (simp add: d attempt_ok_def)
  next
    case 3
    have p1: "paid E w c1 w2" "decoder_scd_buf c1 = zero_mmz" using v 3 by simp_all
    note s = alloc_scd_paid [OF env p1, of "word_at ms 1" opt1]
    show ?thesis
    proof (cases "decoder_alloc_scd E (word_at ms 1) opt1 c1 w2")
      case (Goto l c2 w3)
      then show ?thesis using s 3 by (simp add: d attempt_ok_def)
    next
      case (Done y)
      obtain opt2 c2 w3 where y: "y = (opt2, c2, w3)" by (rule prod_cases3)
      have p2: "paid E w c2 w3" using s Done y by simp
      show ?thesis using create_chan_attempt [OF p2] Done y 3 by (simp add: d)
    qed
  qed
qed

lemma decoder_create_balance:
  assumes "env_ok V E" "\<not> g_LowDelayStatistics G" "decoder_create_inst E G i cfg c w = (r, c', w')"
    and "decoder_scd_buf c = zero_mmz" "decoder_vdh_buf c = zero_mmz" "eSCDMemAlloc c = ALLOC_BY_MMZ" "eVDHMemAlloc c = ALLOC_BY_MMZ"
  shows "r \<noteq> HI_SUCCESS \<Longrightarrow> balance E w' x = balance E w x"
    "r = HI_SUCCESS \<Longrightarrow> buffers_ok c' \<and> balance E w' x = balance E w x + tally (Decoder (decoder_id c') # buffers c') x"
  using try_create_attempt [OF assms(1,4-), of w G cfg] cleanup_balance assms(2,3)
  by (fastforce simp: attempt_ok_def decoder_create_inst_def split: attempt.splits prod.splits)+

lemma decoder_release_balance:
  assumes "buffers_ok c" "decoder_release_inst E c w = (r, c', w')"
  shows "balance E w' x = balance E w x - tally (Decoder (decoder_id c) # buffers c) x"
proof -
  have k: "eSCDMemAlloc c = ALLOC_BY_MMZ" "eVDHMemAlloc c = ALLOC_BY_MMZ" using assms(1) by (simp_all add: buffers_ok_def)
  obtain r1 w1 where d: "decoder_control E VDEC_CID_DESTROY_CHAN [] c w = (r1, w1)" by (rule prod.exhaust)
  have b1: "balance E w1 x = balance E w x - tally [Decoder (decoder_id c)] x"
    using balance_ext [OF d [unfolded decoder_control_def], of x] by simp
  obtain scd w2 where s: "(if u32Size (decoder_scd_buf c) \<noteq> 0 \<and> u32StartPhyAddr (decoder_scd_buf c) \<noteq> 0
      then omxvdec_release_mem E (decoder_scd_buf c) ALLOC_BY_MMZ w1 else (decoder_scd_buf c, w1)) = (scd, w2)" by (rule prod.exhaust)
  obtain vdh w3 where v: "(if u32Size (decoder_vdh_buf c) \<noteq> 0 \<and> u32StartPhyAddr (decoder_vdh_buf c) \<noteq> 0
      then omxvdec_release_mem E (decoder_vdh_buf c) ALLOC_BY_MMZ w2 else (decoder_vdh_buf c, w2)) = (vdh, w3)" by (rule prod.exhaust)
  have b2: "balance E w2 x = balance E w1 x - tally (mem_of (decoder_scd_buf c)) x"
    using s release_mem_balance assms(1) by (fastforce simp: buffers_ok_def mem_of_def split: if_splits)
  have b3: "balance E w3 x = balance E w2 x - tally (mem_of (decoder_vdh_buf c)) x"
    using v release_mem_balance assms(1) by (fastforce simp: buffers_ok_def mem_of_def split: if_splits)
  have "w' = w3" using assms(2) by (simp only: decoder_release_inst_def k Let_def d s v prod.case prod.inject)
  then show ?thesis using b1 b2 b3 by (simp add: buffers_def)
qed

lemma processor_create_balance:
  assumes env: "env_ok V E" and p: "processor_create_inst E G V fmt c w = (r, c', w')"
  shows "r \<noteq> HI_SUCCESS \<Longrightarrow> balance E w' x = balance E w x"
    "r = HI_SUCCESS \<Longrightarrow> balance E w' x = balance E w x + tally [Vpss (processor_id c'), Vpss_Port (port_id c')] x \<and>
       processor_id c' \<noteq> VPSS_INVALID_HANDLE V \<and> port_id c' \<noteq> VPSS_INVALID_HANDLE V"
    "buffers c' = buffers c" "buffers_ok c' = buffers_ok c" "decoder_id c' = decoder_id c"
proof -
  obtain r1 w1 where a1: "ext E VPSS_DEFAULT_CFG w = (r1, w1)" by (rule prod.exhaust)
  obtain r2 ids w2 where a2: "ext_out E (VPSS_CREATE [if g_DeInterlaceEnable G then 1 else 0]) w1 = (r2, ids, w2)" by (rule prod_cases3)
  obtain r3 w3 where a3: "ext E (VPSS_REGIST_HOOK (word_at ids 0) (channel_id c)) w2 = (r3, w3)" by (rule prod.exhaust)
  obtain r4 w4 where a4: "ext E (VPSS_SET_SOURCE (word_at ids 0)) w3 = (r4, w4)" by (rule prod.exhaust)
  obtain r5 w5 where a5: "ext E VPSS_DEFAULT_PORT_CFG w4 = (r5, w5)" by (rule prod.exhaust)
  let ?c3 = "c\<lparr>port_id := VPSS_INVALID_HANDLE V, processor_id := word_at ids 0, color_format := fmt\<rparr>"
  obtain r6 ps w6 where a6: "ext_out E (VPSS_CREATE_PORT (word_at ids 0) (port_cfg_words G ?c3 fmt)) w5 = (r6, ps, w6)" by (rule prod_cases3)
  have q: "balance E w1 x = balance E w x" "balance E w3 x = balance E w2 x" "balance E w4 x = balance E w2 x" "balance E w5 x = balance E w2 x"
    using quiet_balance [OF quiet_ext [OF a1], of E x] quiet_balance [OF quiet_ext [OF a3], of E x]
      quiet_balance [OF quiet_ext [OF a4], of E x] quiet_balance [OF quiet_ext [OF a5], of E x] by simp_all
  have b2: "balance E w2 x = balance E w x + (if r2 = HI_SUCCESS \<and> x = Vpss (word_at ids 0) then 1 else 0)"
    using balance_ext_out [OF a2, of x] q(1) by simp
  have b6: "balance E w6 x = balance E w2 x + (if r6 = HI_SUCCESS \<and> x = Vpss_Port (word_at ps 0) then 1 else 0)"
    using balance_ext_out [OF a6, of x] q(4) by simp
  have h: "r2 = HI_SUCCESS \<Longrightarrow> word_at ids 0 \<noteq> VPSS_INVALID_HANDLE V" "r6 = HI_SUCCESS \<Longrightarrow> word_at ps 0 \<noteq> VPSS_INVALID_HANDLE V"
    using env_okD(2) [OF env, of _ w1 ids w2] env_okD(3) [OF env, of _ w5 ps w6] a2 a6 by fastforce+
  have pc: "(if r1 \<noteq> HI_SUCCESS then (HI_FAILURE, c\<lparr>processor_id := VPSS_INVALID_HANDLE V, port_id := VPSS_INVALID_HANDLE V\<rparr>, w1)
     else if r2 \<noteq> HI_SUCCESS then (HI_FAILURE, c\<lparr>processor_id := VPSS_INVALID_HANDLE V, port_id := VPSS_INVALID_HANDLE V\<rparr>, w2)
     else if r3 \<noteq> HI_SUCCESS then (HI_FAILURE, c\<lparr>port_id := VPSS_INVALID_HANDLE V, processor_id := VPSS_INVALID_HANDLE V\<rparr>, ext_do E (VPSS_DESTROY (word_at ids 0)) w3)
     else if r4 \<noteq> HI_SUCCESS then (HI_FAILURE, c\<lparr>port_id := VPSS_INVALID_HANDLE V, processor_id := VPSS_INVALID_HANDLE V\<rparr>, ext_do E (VPSS_DESTROY (word_at ids 0)) w4)
     else if r5 \<noteq> HI_SUCCESS then (HI_FAILURE, c\<lparr>port_id := VPSS_INVALID_HANDLE V, processor_id := VPSS_INVALID_HANDLE V\<rparr>, ext_do E (VPSS_DESTROY (word_at ids 0)) w5)
     else if r6 \<noteq> HI_SUCCESS then (HI_FAILURE, ?c3\<lparr>processor_id := VPSS_INVALID_HANDLE V\<rparr>, ext_do E (VPSS_DESTROY (word_at ids 0)) w6)
     else (HI_SUCCESS, ?c3\<lparr>port_id := word_at ps 0\<rparr>, w6)) = (r, c', w')"
    using p by (simp add: processor_create_inst_def Let_def a1 a2 a3 a4 a5 a6 cong: if_cong)
  show "r \<noteq> HI_SUCCESS \<Longrightarrow> balance E w' x = balance E w x"
    using pc b2 b6 q by (auto simp: balance_ext_do split: if_splits)
  show "r = HI_SUCCESS \<Longrightarrow> balance E w' x = balance E w x + tally [Vpss (processor_id c'), Vpss_Port (port_id c')] x \<and>
       processor_id c' \<noteq> VPSS_INVALID_HANDLE V \<and> port_id c' \<noteq> VPSS_INVALID_HANDLE V"
    using pc b2 b6 q h by (auto split: if_splits)
  show "buffers c' = buffers c" "buffers_ok c' = buffers_ok c" "decoder_id c' = decoder_id c"
    using pc by (auto simp: buffers_def buffers_ok_def split: if_splits)
qed

lemma processor_release_balance:
  assumes "processor_release_inst E V c w = (r, c', w')" "port_id c \<noteq> VPSS_INVALID_HANDLE V" "processor_id c \<noteq> VPSS_INVALID_HANDLE V"
  shows "balance E w' x = balance E w x - tally [Vpss (processor_id c), Vpss_Port (port_id c)] x"
    "buffers c' = buffers c" "buffers_ok c' = buffers_ok c" "decoder_id c' = decoder_id c"
  using assms by (auto simp: processor_release_inst_def balance_ext_do buffers_def buffers_ok_def)

lemma ext_do_queue: "balance E (ext_do E MSG_QUEUE_DEINIT w) x = balance E w x - tally [Msg_Queue] x"
  by (simp add: balance_ext_do)

lemma lowdelay_record_balance:
  "channel_lowdelay_record E G c w = (c', w') \<Longrightarrow> x \<noteq> Kernel_Memory \<Longrightarrow> balance E w' x = balance E w x"
proof -
  assume l: "channel_lowdelay_record E G c w = (c', w')" and x: "x \<noteq> Kernel_Memory"
  show ?thesis
  proof (cases "lowdelay_on G c")
    case False
    then show ?thesis using l by (simp add: channel_lowdelay_record_def)
  next
    case True
    obtain r w1 where k: "ext E KZALLOC w = (r, w1)" by (rule prod.exhaust)
    have b: "balance E w1 x = balance E w x" using balance_ext [OF k, of x] x by (simp add: change_def)
    obtain t1 w2 where t1: "OMX_GetTimeInMs E w1 = (t1, w2)" by (rule prod.exhaust)
    obtain t2 w3 where t2: "OMX_GetTimeInMs E w2 = (t2, w3)" by (rule prod.exhaust)
    show ?thesis using l True b quiet_balance [OF get_time_quiet [OF t1]] quiet_balance [OF get_time_quiet [OF t2]]
      by (auto simp: channel_lowdelay_record_def k t1 t2 split: if_splits)
  qed
qed

lemma channel_build_balance:
  assumes env: "env_ok V E" and g: "\<not> g_LowDelayStatistics G"
    and z: "decoder_scd_buf c0 = zero_mmz" "decoder_vdh_buf c0 = zero_mmz" "eSCDMemAlloc c0 = ALLOC_BY_MMZ" "eVDHMemAlloc c0 = ALLOC_BY_MMZ"
    and b: "channel_build E G K V mem cfg c0 w0 = (bc, w')"
  shows "bc = None \<Longrightarrow> balance E w' x = balance E w0 x"
    "bc = Some c \<Longrightarrow> channel_res_ok V c \<and> (x \<noteq> Kernel_Memory \<longrightarrow> balance E w' x = balance E w0 x + tally (resources c) x)"
proof -
  let ?c1 = "c0\<lparr>bLowdelay := s32LowdlyEnable (chan_cfg cfg), m_use_native_buf := cfg_m_use_native_buf cfg,
                  out_width := cfg_width cfg, out_height := cfg_height cfg, out_stride := cfg_stride cfg\<rparr>"
  obtain r1 w1 where a1: "ext E MSG_QUEUE_INIT w0 = (r1, w1)" by (rule prod.exhaust)
  obtain r2 c2 w2 where a2: "decoder_create_inst E G (HI_ID_VDEC V) (chan_cfg cfg) ?c1 w1 = (r2, c2, w2)" by (rule prod_cases3)
  obtain r3 c3 w3 where a3: "processor_create_inst E G V (cfg_color_format cfg) c2 w2 = (r3, c3, w3)" by (rule prod_cases3)
  obtain r4 ws w4 where a4: "ext_out E (MMZ_ALLOC_MAP (table_size K V cfg)) w3 = (r4, ws, w4)" by (rule prod_cases3)
  obtain s5 c5 w5 where a5: "processor_release_inst E V c3 w4 = (s5, c5, w5)" by (rule prod_cases3)
  obtain s6 c6 w6 where a6: "decoder_release_inst E c5 w5 = (s6, c6, w6)" by (rule prod_cases3)
  obtain s7 c7 w7 where a7: "decoder_release_inst E c3 w3 = (s7, c7, w7)" by (rule prod_cases3)
  obtain c8 w8 where a8: "channel_lowdelay_record E G (channel_tables K mem cfg (mmz_of ws) c3) w4 = (c8, w8)" by (rule prod.exhaust)
  have b1: "balance E w1 x = balance E w0 x + (if r1 = HI_SUCCESS then tally [Msg_Queue] x else 0)"
    using balance_ext [OF a1, of x] by simp
  have z1: "decoder_scd_buf ?c1 = zero_mmz" "decoder_vdh_buf ?c1 = zero_mmz" "eSCDMemAlloc ?c1 = ALLOC_BY_MMZ" "eVDHMemAlloc ?c1 = ALLOC_BY_MMZ"
    using z by simp_all
  note b2 = decoder_create_balance [OF env g a2 z1, of x]
  note b3 = processor_create_balance(1,2) [OF env a3, of x] processor_create_balance(3-5) [OF env a3]
  have u4: "balance E w4 x = balance E w3 x" if "r4 \<noteq> HI_SUCCESS" using failed_call [OF a4 that] by simp
  have b4: "balance E w4 x = balance E w3 x + tally (mem_of (mmz_of ws)) x" if "r4 = HI_SUCCESS"
    using allocated(1) [OF env a4 [unfolded that]] by simp
  have b56: "balance E w6 x = balance E w4 x - tally [Vpss (processor_id c3), Vpss_Port (port_id c3)] x -
      tally (Decoder (decoder_id c2) # buffers c2) x" if "r2 = HI_SUCCESS" "r3 = HI_SUCCESS"
    using processor_release_balance(1) [OF a5, of x] processor_release_balance(2-4) [OF a5] decoder_release_balance [OF _ a6, of x] b2(2) b3(2-5) that by simp
  have b7: "balance E w7 x = balance E w3 x - tally (Decoder (decoder_id c2) # buffers c2) x" if "r2 = HI_SUCCESS"
    using decoder_release_balance [OF _ a7, of x] b2(2) b3(3-5) that by simp
  have unfolded_build: "(if r1 \<noteq> HI_SUCCESS then (None, w1) else if r2 \<noteq> HI_SUCCESS then (None, ext_do E MSG_QUEUE_DEINIT w2)
      else if r3 \<noteq> HI_SUCCESS then (None, ext_do E MSG_QUEUE_DEINIT w7)
      else if r4 \<noteq> HI_SUCCESS then (None, ext_do E MSG_QUEUE_DEINIT w6)
      else (Some (c8\<lparr>state := CHAN_STATE_IDLE\<rparr>), w8\<lparr>pts_table := snd (OMX_PTSREC_Alloc K (pts_table w8) (channel_id c8))\<rparr>)) = (bc, w')"
    using b by (simp add: channel_build_def Let_def a1 a2 a3 a4 a5 a6 a7 a8 cong: if_cong)
  show "bc = None \<Longrightarrow> balance E w' x = balance E w0 x"
    using unfolded_build b1 b2 b3(1,2) u4 b56 b7 ext_do_queue by (auto split: if_splits)
  assume c: "bc = Some c"
  then have s: "r1 = HI_SUCCESS" "r2 = HI_SUCCESS" "r3 = HI_SUCCESS" "r4 = HI_SUCCESS" "c = c8\<lparr>state := CHAN_STATE_IDLE\<rparr>"
    "w' = w8\<lparr>pts_table := snd (OMX_PTSREC_Alloc K (pts_table w8) (channel_id c8))\<rparr>"
    using unfolded_build by (auto split: if_splits)
  obtain R where R: "c8 = (channel_tables K mem cfg (mmz_of ws) c3)\<lparr>omx_vdec_lowdelay_proc_rec := R\<rparr>" using lowdelay_record_fresh [OF a8] by blast
  have f: "buffers c = buffers c3" "buffers_ok c = buffers_ok c3" "decoder_id c = decoder_id c3" "processor_id c = processor_id c3"
    "port_id c = port_id c3" "channel_extra_buf c = mmz_of ws" "eEXTRAMemAlloc c = ALLOC_BY_MMZ"
    by (simp_all add: s(5) R channel_tables_def buffers_def buffers_ok_def Let_def)
  show "channel_res_ok V c \<and> (x \<noteq> Kernel_Memory \<longrightarrow> balance E w' x = balance E w0 x + tally (resources c) x)"
    using f s b1 b2(2) b3(2-5) b4 lowdelay_record_balance [OF a8, of x] by (auto simp: channel_res_ok_def resources_def)
qed

lemma create_balance:
  assumes env: "env_ok V E" and g: "\<not> g_LowDelayStatistics (globs d)" and c: "channel_create_inst E K V mem fd cfg d = Some (r, d')"
  shows "r = None \<Longrightarrow> chan_list d' = chan_list d \<and> balance E (wld d') x = balance E (wld d) x"
    "r = Some n \<Longrightarrow> \<exists>nc. chan_list d' = chan_list d @ [nc] \<and> channel_res_ok V nc \<and>
       (x \<noteq> Kernel_Memory \<longrightarrow> balance E (wld d') x = balance E (wld d) x + tally (resources nc) x)"
proof -
  obtain r1 w1 where k: "ext E KZALLOC (wld d) = (r1, w1)" by (rule prod.exhaust)
  have b1: "balance E w1 x = balance E (wld d) x + (if r1 = HI_SUCCESS then tally [Kernel_Memory] x else 0)"
    using balance_ext [OF k, of x] by simp
  have both: "(r = None \<longrightarrow> chan_list d' = chan_list d \<and> balance E (wld d') x = balance E (wld d) x) \<and>
    (r \<noteq> None \<longrightarrow> (\<exists>nc. chan_list d' = chan_list d @ [nc] \<and> channel_res_ok V nc \<and>
       (x \<noteq> Kernel_Memory \<longrightarrow> balance E (wld d') x = balance E (wld d) x + tally (resources nc) x)))"
  proof (cases "r1 = HI_SUCCESS")
    case False
    then show ?thesis using c k b1 by (auto simp: channel_create_inst_def)
  next
    case True
    obtain m where m: "free_channel_id (map channel_id (chan_list d)) 0 = Some m"
      using c k True by (auto simp: channel_create_inst_def channel_add_chan_record_def split: option.splits)
    let ?c0 = "zero_chan\<lparr>file_dec := fd, channel_id := m\<rparr>"
    obtain bc w2 where b: "channel_build E (globs d) K V mem cfg ?c0 w1 = (bc, w2)" by (rule prod.exhaust)
    have z: "decoder_scd_buf ?c0 = zero_mmz" "decoder_vdh_buf ?c0 = zero_mmz" "eSCDMemAlloc ?c0 = ALLOC_BY_MMZ" "eVDHMemAlloc ?c0 = ALLOC_BY_MMZ"
      by (simp_all add: zero_chan_def)
    note bb = channel_build_balance [where x = x, OF env g z b]
    show ?thesis
    proof (cases bc)
      case None
      then have d': "r = None" "wld d' = ext_do E KFREE w2" "chan_list d' = chan_list d"
        using c k True m b by (auto simp: channel_create_inst_def channel_add_chan_record_def channel_delete_chan_record_def)
      then show ?thesis using bb(1) None b1 True by (simp add: balance_ext_do)
    next
      case (Some nc)
      then have d': "r \<noteq> None" "wld d' = w2" "chan_list d' = chan_list d @ [nc]"
        using c k True m b by (auto simp: channel_create_inst_def channel_add_chan_record_def put_chan_def)
      then show ?thesis using bb(2) [OF Some] b1 by auto
    qed
  qed
  then show "r = None \<Longrightarrow> chan_list d' = chan_list d \<and> balance E (wld d') x = balance E (wld d) x"
    "r = Some n \<Longrightarrow> \<exists>nc. chan_list d' = chan_list d @ [nc] \<and> channel_res_ok V nc \<and>
       (x \<noteq> Kernel_Memory \<longrightarrow> balance E (wld d') x = balance E (wld d) x + tally (resources nc) x)"
    by auto
qed

lemma unmap_table_quiet: "quiet w (unmap_table E bs w)"
proof (induction bs arbitrary: w)
  case Nil
  then show ?case by simp
next
  case (Cons b bs)
  show ?case using Cons quiet_trans [OF quiet_ext_do [of "MMZ_UNMAP (phy_addr b) (kern_vaddr b)" w E]] by simp
qed

lemma teardown_balance:
  assumes ok: "channel_res_ok V c" and x: "x \<noteq> Kernel_Memory"
  shows "balance E (channel_teardown E G V c w) x = balance E w x - tally (resources c) x"
proof -
  define w1 where "w1 = (if state c = CHAN_STATE_WORK \<or> state c = CHAN_STATE_PAUSE
    then snd (processor_stop_inst E c (snd (decoder_stop_inst E c w))) else w)"
  have "quiet w (snd (decoder_stop_inst E c w))" "quiet v (snd (processor_stop_inst E c v))" for v
    by (rule stops_quiet [OF surjective_pairing])+
  then have "quiet w w1" using quiet_trans by (simp add: w1_def)
  then have b1: "balance E w1 x = balance E w x" by (rule quiet_balance)
  obtain r2 c2 w2 where a2: "processor_release_inst E V c w1 = (r2, c2, w2)" by (rule prod_cases3)
  note b2 = processor_release_balance(1) [OF a2, of x] processor_release_balance(2-4) [OF a2]
  obtain r3 c3 w3 where a3: "decoder_release_inst E c2 w2 = (r3, c3, w3)" by (rule prod_cases3)
  have b3: "balance E w3 x = balance E w2 x - tally (Decoder (decoder_id c) # buffers c) x"
    using decoder_release_balance [OF _ a3, of x] b2(2-4) ok by (simp add: channel_res_ok_def)
  define w5 where "w5 = unmap_table E (take (max_buf_num (out_port c)) (bufs (out_port c))) (unmap_table E (take (max_buf_num (in_port c)) (bufs (in_port c))) w3)"
  define w6 where "w6 = (if raw_file c then ext_do E RAW_CLOSE w5 else w5)"
  have "quiet w3 w6" using quiet_trans [OF unmap_table_quiet unmap_table_quiet] by (simp add: w6_def w5_def quiet_ext_doI)
  then have b6: "balance E w6 x = balance E w3 x" by (rule quiet_balance)
  obtain b7' w7 where a7: "omxvdec_release_mem E (channel_extra_buf c) (eEXTRAMemAlloc c) w6 = (b7', w7)" by (rule prod.exhaust)
  have b7: "balance E w7 x = balance E w6 x - tally (mem_of (channel_extra_buf c)) x"
    using release_mem_balance a7 ok by (simp add: channel_res_ok_def)
  have "balance E (channel_teardown E G V c w) x = balance E w7 x - tally [Msg_Queue] x"
    unfolding channel_teardown_def Let_def w1_def [symmetric] a2 prod.case a3 w5_def [symmetric] w6_def [symmetric] a7
    using x by (simp add: balance_ext_do)
  then show ?thesis using b1 b2 b3 b6 b7 ok by (simp add: resources_def channel_res_ok_def)
qed

section \<open>No step of the driver leaks\<close>

definition ledger_ok :: "env \<Rightarrow> vpss_platform \<Rightarrow> world \<Rightarrow> driver \<Rightarrow> bool" where
  "ledger_ok E V w0 d \<longleftrightarrow> list_all (channel_res_ok V) (chan_list d) \<and>
     (\<forall>r. r \<noteq> Kernel_Memory \<longrightarrow> balance E (wld d) r = balance E w0 r + tally (concat (map resources (chan_list d))) r)"

lemma ledger_same:
  assumes "ledger_ok E V w0 d" "chan_list d' = chan_list d" "quiet (wld d) (wld d')"
  shows "ledger_ok E V w0 d'"
  using assms quiet_balance by (auto simp: ledger_ok_def)

lemma ledger_put:
  assumes l: "ledger_ok E V w0 d" and i: "i < length (chan_list d)" and c: "identity c = identity (chan_list d ! i)" and q: "quiet (wld d) w"
  shows "ledger_ok E V w0 (put_chan d i c w)"
proof -
  note same = resources_cong [OF c, of V]
  have "map resources ((chan_list d)[i := c]) = map resources (chan_list d)"
    using i same by (simp add: map_update list_update_same_conv)
  moreover have "list_all (channel_res_ok V) ((chan_list d)[i := c])"
    using l i same set_update_subset_insert [of "chan_list d" i c] by (auto simp: ledger_ok_def list_all_iff)
  ultimately show ?thesis using l quiet_balance [OF q] by (simp add: ledger_ok_def put_chan_def)
qed

lemma ledger_release:
  assumes l: "ledger_ok E V w0 d" and i: "i < length (chan_list d)" and g: "\<not> g_LowDelayStatistics (globs d)"
    and r: "channel_release_inst E V d i = (r, d')"
  shows "ledger_ok E V w0 d'" "globs d' = globs d"
proof -
  define xs ys c where "xs = take i (chan_list d)" and "ys = drop (Suc i) (chan_list d)" and "c = chan_list d ! i"
  have e: "chan_list d = xs @ c # ys" unfolding xs_def ys_def c_def by (rule id_take_nth_drop [OF i])
  have d': "d' = (channel_delete_chan_record d i)\<lparr>wld := channel_teardown E (globs d) V c (wld d)\<rparr>"
    using r release_inst_always [OF g] by (simp add: c_def)
  have cl: "chan_list d' = xs @ ys" by (simp add: d' channel_delete_chan_record_def xs_def ys_def)
  have "channel_res_ok V c" using l by (simp add: ledger_ok_def e)
  then show "ledger_ok E V w0 d'" using l teardown_balance [of V c _ E "globs d" "wld d"]
    by (simp add: ledger_ok_def cl e) (simp add: d')
  show "globs d' = globs d" by (simp add: d' channel_delete_chan_record_def)
qed

lemma ledger_release_loop:
  assumes "ledger_ok E V w0 d" "i + n \<le> length (chan_list d)" "\<not> g_LowDelayStatistics (globs d)"
  shows "ledger_ok E V w0 (release_loop E V fd n i d)"
  using assms
proof (induction n arbitrary: i d)
  case 0
  then show ?case by simp
next
  case (Suc n)
  obtain r d1 where r: "channel_release_inst E V d i = (r, d1)" by (rule prod.exhaust)
  have wf: "ledger_ok E V w0 d1" "globs d1 = globs d" using ledger_release [OF Suc.prems(1) _ Suc.prems(3) r] Suc.prems(2) by simp_all
  have l: "length (chan_list d1) = (if r = HI_SUCCESS then length (chan_list d) - 1 else length (chan_list d))"
    using channel_release_list [OF r] Suc.prems(2) by simp
  show ?case using Suc wf l r by simp
qed

lemma open_quiet: "chan_list (snd (omxvdec_open E K d)) = chan_list d \<and> quiet (wld d) (wld (snd (omxvdec_open E K d)))"
  by (auto simp: omxvdec_open_def first_open_def channel_init_def channel_exit_def decoder_init_def decoder_exit_def
      processor_init_def processor_exit_def quiet_def call_defs Let_def split: prod.splits if_splits)

lemma ledger_close:
  assumes l: "ledger_ok E V w0 d" and g: "\<not> g_LowDelayStatistics (globs d)"
  shows "ledger_ok E V w0 (snd (omxvdec_release E V fd d))"
proof -
  let ?d1 = "release_loop E V fd (length (chan_list d)) 0 d"
  have "ledger_ok E V w0 ?d1" using ledger_release_loop [OF l _ g] by simp
  moreover have "chan_list (snd (omxvdec_release E V fd d)) = chan_list ?d1" "quiet (wld ?d1) (wld (snd (omxvdec_release E V fd d)))"
    by (auto simp: omxvdec_release_def channel_exit_def decoder_exit_def processor_exit_def quiet_def call_defs Let_def)
  ultimately show ?thesis by (rule ledger_same)
qed

lemma ledger_create:
  assumes "ledger_ok E V w0 d" "env_ok V E" "\<not> g_LowDelayStatistics (globs d)" "channel_create_inst E K V mem fd cfg d = Some (r, d')"
  shows "ledger_ok E V w0 d'"
proof (cases r)
  case None
  then show ?thesis using create_balance(1) [OF assms(2-4)] assms(1) by (simp add: ledger_ok_def)
next
  case (Some n)
  note b = create_balance(2) [OF assms(2-4) Some]
  obtain nc where "chan_list d' = chan_list d @ [nc]" "channel_res_ok V nc" using b by blast
  moreover have "balance E (wld d') x = balance E (wld d) x + tally (resources nc) x" if "x \<noteq> Kernel_Memory" for x
    using b [of x] calculation(1) that by auto
  ultimately show ?thesis using assms(1) by (simp add: ledger_ok_def)
qed

lemma ledger_ioctl:
  assumes l: "ledger_ok E V w0 d" and env: "env_ok V E" and g: "\<not> g_LowDelayStatistics (globs d)"
    and wf: "driver_wf K d" and ok: "ioctl_ok K d chan_num req" and i: "omxvdec_ioctl E K V mem fd d chan_num req = Some (r, k, d')"
  shows "ledger_ok E V w0 d'"
  using i
proof (cases rule: omxvdec_ioctl_cases)
  case unchanged
  then show ?thesis using l by simp
next
  case (create cfg copied n)
  then show ?thesis using ledger_create [OF l env g] by blast
next
  case (release h j s)
  then show ?thesis using ledger_release(1) [OF l found_chan(1) g] by blast
next
  case (channel h j c w)
  have "request_ok (chan_list d ! j) req" using ioctl_okD ok channel(1,2,5) by blast
  then have "identity c = identity (chan_list d ! j)"
    using chan_ioctl_kept [OF found_wf [OF wf channel(2)] _ channel(4)] by (simp add: chan_kept_def)
  then show ?thesis unfolding channel(3) by (intro ledger_put [OF l found_chan(1) [OF channel(2)]] chan_ioctl_quiet [OF channel(4)])
qed

lemma ledger_on_channel:
  assumes l: "ledger_ok E V w0 d" and f: "find_chan key d h = Some i"
    and s: "map_option (\<lambda>(r, c, w). (r, put_chan d i c w)) op = Some (r, d')"
    and k: "\<And>r c w. op = Some (r, c, w) \<Longrightarrow> identity c = identity (chan_list d ! i) \<and> quiet (wld d) w"
  shows "ledger_ok E V w0 d'"
  using s k ledger_put [OF l found_chan(1) [OF f]] by auto

lemma ledger_decoder_event:
  assumes l: "ledger_ok E V w0 d" and e: "decoder_event_handler E d h ev = Some (r, d')"
  shows "ledger_ok E V w0 d'"
proof (cases "channel_find_inst_by_decoder_id d h")
  case None
  then show ?thesis using e l by (simp add: decoder_event_handler_def)
next
  case (Some i)
  have f: "find_chan decoder_id d h = Some i" using Some by (simp add: channel_find_inst_by_decoder_id_def)
  note p = ledger_put [OF l found_chan(1) [OF f]]
  show ?thesis
  proof (cases ev)
    case (EVNT_NEW_IMAGE tag)
    then show ?thesis using e Some l p new_image_quiet new_image_identity
      by (cases tag) (auto simp: decoder_event_handler_def Let_def)
  next
    case (EVNT_NEED_ARRANGE num sz)
    obtain t w where t: "OMX_GetTimeInMs E (wld d) = (t, w)" by (rule prod.exhaust)
    have "ledger_ok E V w0 (put_chan d i ((chan_list d ! i)\<lparr>dfs_alloc_flag := DFS_WAIT_ALLOC, dfs_delay_time := t,
      ref_frame_num := num, ref_frame_size := sz\<rparr>) w)"
      by (rule p) (simp_all add: get_time_quiet [OF t])
    then show ?thesis using e Some EVNT_NEED_ARRANGE t by (auto simp: decoder_event_handler_def Let_def ledger_ok_def)
  next
    case (EVNT_LAST_FRAME arg)
    then show ?thesis using e Some l p last_frame_identity by (cases arg) (auto simp: decoder_event_handler_def Let_def)
  qed (use e Some l in \<open>simp_all add: decoder_event_handler_def Let_def\<close>)
qed

lemma ledger_processor_event:
  assumes l: "ledger_ok E V w0 d" and e: "processor_event_handler E V' d h args = Some (r, out, d')"
  shows "ledger_ok E V w0 d'"
proof (cases "args = None \<or> channel_find_inst_by_channel_id d h = None")
  case True
  then show ?thesis using l e by (auto simp: processor_event_handler_def split: option.splits)
next
  case False
  then obtain ev i where s: "args = Some ev" "channel_find_inst_by_channel_id d h = Some i" by auto
  have f: "find_chan channel_id d h = Some i" using s(2) by (simp add: channel_find_inst_by_channel_id_def)
  obtain c w where u: "processor_event E (globs d) V' (chan_list d ! i) (wld d) ev = Some (r, out, c, w)" "d' = put_chan d i c w"
    using e s by (auto simp: processor_event_handler_def)
  show ?thesis unfolding u(2)
    by (intro ledger_put [OF l found_chan(1) [OF f]] processor_event_identity [OF u(1)] processor_event_quiet [OF u(1)])
qed

lemma ledger_get_stream:
  assumes l: "ledger_ok E V w0 d" and g: "decoder_get_stream E K d h = Some (r, d')"
  shows "ledger_ok E V w0 d'"
proof (cases "channel_find_inst_by_channel_id d h")
  case None
  then show ?thesis using l g by (simp add: decoder_get_stream_def)
next
  case (Some i)
  show ?thesis
    by (rule ledger_on_channel [OF l Some [unfolded channel_find_inst_by_channel_id_def]])
      (use g Some get_stream_identity get_stream_quiet in \<open>auto simp: decoder_get_stream_def\<close>)
qed

lemma ledger_release_stream:
  assumes l: "ledger_ok E V w0 d" and g: "decoder_release_stream E K junk d h s = Some (r, d')"
  shows "ledger_ok E V w0 d'"
proof (cases "s = None \<or> channel_find_inst_by_channel_id d h = None")
  case True
  then show ?thesis using assms by (auto simp: decoder_release_stream_def split: option.splits)
next
  case False
  then obtain sd i where s: "s = Some sd" "channel_find_inst_by_channel_id d h = Some i" by auto
  show ?thesis
    by (rule ledger_on_channel [OF l s(2) [unfolded channel_find_inst_by_channel_id_def]])
      (use g s release_stream_identity release_stream_quiet in \<open>auto simp: decoder_release_stream_def\<close>)
qed

lemma ledger_get_image:
  assumes l: "ledger_ok E V w0 d" and o: "others_ok K others" and g: "processor_get_image E K V' others d h f = Some (r, d')"
  shows "ledger_ok E V w0 d'"
proof (cases "f = None \<or> channel_find_inst_by_processor_id d h = None")
  case True
  then show ?thesis using assms by (auto simp: processor_get_image_def split: option.splits)
next
  case False
  then obtain fr i where s: "f = Some fr" "channel_find_inst_by_processor_id d h = Some i" by auto
  have id: "identity (others n c) = identity c" for n c using o by (simp add: others_ok_def)
  show ?thesis
  proof (rule ledger_on_channel [OF l s(2) [unfolded channel_find_inst_by_processor_id_def]])
    show "map_option (\<lambda>(r, c, w). (r, put_chan d i c w))
        (get_image E (globs d) K V' others fr (chan_list d ! i) (wld d)) = Some (r, d')"
      using g s by (simp add: processor_get_image_def)
    fix r c w assume gi: "get_image E (globs d) K V' others fr (chan_list d ! i) (wld d) = Some (r, c, w)"
    show "identity c = identity (chan_list d ! i) \<and> quiet (wld d) w"
      using get_image_identity [where others = others, OF id gi] get_image_quiet [OF gi] by simp
  qed
qed

lemma ledger_step:
  assumes "driver_step E K V d d'" "ledger_ok E V w0 d" "driver_wf K d" "env_ok V E" "\<not> g_LowDelayStatistics (globs d)"
  shows "ledger_ok E V w0 d'"
  using assms
proof (induction rule: driver_step.induct)
  case (open_file d)
  then show ?case using open_quiet ledger_same by blast
next
  case (close_file d fd)
  then show ?case using ledger_close by blast
next
  case (request d num req mem fd r k d')
  then show ?case using ledger_ioctl by blast
next
  case (stream_taken d h r d')
  then show ?case using ledger_get_stream by blast
next
  case (stream_returned d h s junk r d')
  then show ?case using ledger_release_stream by blast
next
  case (decoder_event d h ev r d')
  then show ?case using ledger_decoder_event by blast
next
  case (processor_event d h args r out d')
  then show ?case using ledger_processor_event by blast
next
  case (image_read others d h f r d')
  then show ?case using ledger_get_image by blast
next
  case (image_released d h f)
  have "quiet (wld d) (wld (snd (processor_release_image E d h f)))" "chan_list (snd (processor_release_image E d h f)) = chan_list d"
    by (auto simp: processor_release_image_def quiet_def call_defs Let_def split: option.split)
  then show ?case using image_released ledger_same by blast
next
  case (debug_command d count user)
  then show ?case by (simp add: ledger_ok_def)
qed

text \<open>Steps taken while the low-delay statistics are switched off.\<close>

definition plain_step :: "env \<Rightarrow> platform \<Rightarrow> vpss_platform \<Rightarrow> driver \<Rightarrow> driver \<Rightarrow> bool" where
  "plain_step E K V d d' \<longleftrightarrow> driver_step E K V d d' \<and> \<not> g_LowDelayStatistics (globs d)"

text \<open>
  C2: the driver neither leaks nor frees twice, through any interleaving of opens, closes, requests and
  callbacks, with every call to the firmware, the post-processor and the memory manager
  free to fail: at every moment the decoders, post-processors, ports, memory blocks and message
  queues acquired and not given up again are exactly those of the channels in the
  list. It holds as long as the low-delay statistics stay off.
\<close>

theorem driver_no_leak:
  assumes "env_ok V E" "driver_loaded d0" "(plain_step E K V)\<^sup>*\<^sup>* d0 d" "r \<noteq> Kernel_Memory"
  shows "balance E (wld d) r = balance E (wld d0) r + int (count_list (concat (map resources (chan_list d))) r)"
proof -
  have "driver_wf K d \<and> ledger_ok E V (wld d0) d"
    using assms(3)
  proof (induction rule: rtranclp_induct)
    case base
    then show ?case using assms(2) by (simp add: driver_loaded_def driver_wf_def ledger_ok_def)
  next
    case (step y z)
    then show ?case using driver_step_wf ledger_step assms(1) by (auto simp: plain_step_def)
  qed
  then show ?thesis using assms(4) by (simp add: ledger_ok_def)
qed

lemma acquires_word:
  "acquires a ws = Some x \<Longrightarrow> x \<in> {Memory (word_at ws 0), Decoder (word_at ws 0), Vpss (word_at ws 0), Vpss_Port (word_at ws 0), Msg_Queue, Kernel_Memory}"
  by (cases "(a, ws)" rule: acquires.cases) auto

lemma constant_env_ok: "(\<And>past a. snd (E past a) = [0x100, 0x200, 0x300]) \<Longrightarrow> env_ok example_vpss E"
  by (auto simp: env_ok_def example_vpss_def word_at_def dest!: acquires_word split: option.split resource.split)

lemma example_env_ok: "env_ok example_vpss example_env"
  by (rule constant_env_ok) (simp add: example_env_def)

theorem driver_no_leak_witness:
  "balance example_env (wld created_driver) (Decoder 0x100) = 1 \<and> balance example_env (wld created_driver) (Memory 0x100) = 2 \<and>
   balance example_env (wld created_driver) (Vpss 0x200) = 0"
proof -
  have "\<not> g_LowDelayStatistics (globs loaded_driver)" "\<not> g_LowDelayStatistics (globs opened_driver)"
    by (simp_all add: evaluate_driver)
  then have "(plain_step example_env omx_platform example_vpss)\<^sup>*\<^sup>* loaded_driver created_driver"
    using created_steps by (auto simp: plain_step_def intro!: rtranclp.rtrancl_into_rtrancl [OF r_into_rtranclp])
  moreover have "driver_loaded loaded_driver" by (simp add: driver_loaded_def loaded_driver_def)
  ultimately have b: "balance example_env (wld created_driver) r =
      balance example_env (wld loaded_driver) r + int (count_list (concat (map resources (chan_list created_driver))) r)" if "r \<noteq> Kernel_Memory" for r
    using driver_no_leak [OF example_env_ok _ _ that] by blast
  obtain c where c: "chan_list created_driver = [c]"
    "identity c = ((0, 7), (0x100, 0x100, 0x100), (mmz_of [0x100, 0x200, 0x300], zero_mmz, mmz_of [0x100, 0x200, 0x300]), (ALLOC_BY_MMZ, ALLOC_BY_MMZ, ALLOC_BY_MMZ))"
    using created_driver(2) by auto
  have "resources c = [Msg_Queue, Decoder 0x100, Vpss 0x100, Vpss_Port 0x100, Memory 0x100, Memory 0x100]"
    using c(2) by (simp add: identity_def resources_def buffers_def mem_of_def mmz_of_def word_at_def zero_mmz_def)
  moreover have "balance example_env (wld loaded_driver) r = 0" for r by (simp add: balance_def loaded_driver_def example_world_def)
  ultimately show ?thesis using b by (simp add: c(1))
qed


definition failing_env :: env where
  "failing_env = (\<lambda>past a. (if a = VPSS_SET_SOURCE 0x100 then HI_FAILURE else HI_SUCCESS, [0x100, 0x200, 0x300]))"


end
