(* ===== verification/Omx_Behaviour.thy ===== *)
theory Omx_Behaviour
  imports Omx_Invariant
begin

text \<open>
  What the operations of the driver do in the situations that matter to their callers: the answers to changes of
  state, frame buffers that fit, a change of the picture size, the report of the last frame, the dispatch of
  requests, and the cases in which the code does not do what it means to.
\<close>

unbundle bit_operations_syntax

section \<open>Start, stop, pause and resume\<close>

text \<open>
  Start, stop and resume post exactly one answer; a start or a resume answers success exactly when it
  takes the channel to the working state (a start from any other state, a resume from the
  paused state only) and leaves the state alone otherwise, and after a stop the channel is idle.
\<close>

theorem state_requests_answered:
  "\<exists>st. msgs (fst (snd (channel_start_inst E G K c w))) = msgs c @ [Msg VDEC_MSG_RESP_START_DONE st NO_DATA] \<and>
     (if st = VDEC_S_SUCCESS then state c \<noteq> CHAN_STATE_WORK \<and> state (fst (snd (channel_start_inst E G K c w))) = CHAN_STATE_WORK
      else state (fst (snd (channel_start_inst E G K c w))) = state c) \<and>
   (\<exists>st'. msgs (fst (snd (channel_stop_inst E c w))) = msgs c @ [Msg VDEC_MSG_RESP_STOP_DONE st' NO_DATA]) \<and>
   state (fst (snd (channel_stop_inst E c w))) = CHAN_STATE_IDLE \<and>
   (\<exists>st'. msgs (snd (channel_resume_inst c)) = msgs c @ [Msg VDEC_MSG_RESP_RESUME_DONE st' NO_DATA] \<and>
     (if st' = VDEC_S_SUCCESS then state c = CHAN_STATE_PAUSE \<and> state (snd (channel_resume_inst c)) = CHAN_STATE_WORK
      else state (snd (channel_resume_inst c)) = state c))"
proof -
  have restart: "msgs (lowdelay_restart G c) = msgs c" "state (lowdelay_restart G c) = state c" by (simp_all add: lowdelay_restart_def)
  have start: "\<exists>st. msgs (fst (snd (channel_start_inst E G K c w))) = msgs c @ [Msg VDEC_MSG_RESP_START_DONE st NO_DATA] \<and>
     (if st = VDEC_S_SUCCESS then state c \<noteq> CHAN_STATE_WORK \<and> state (fst (snd (channel_start_inst E G K c w))) = CHAN_STATE_WORK
      else state (fst (snd (channel_start_inst E G K c w))) = state c)"
    by (auto simp: channel_start_inst_def message_queue_def restart VDEC_S_SUCCESS_def VDEC_S_FAILED_def Let_def
        intro: exI [of _ 1] split: prod.split)
  have stop: "(\<exists>st'. msgs (fst (snd (channel_stop_inst E c w))) = msgs c @ [Msg VDEC_MSG_RESP_STOP_DONE st' NO_DATA]) \<and>
   state (fst (snd (channel_stop_inst E c w))) = CHAN_STATE_IDLE"
    by (simp add: channel_stop_inst_def message_queue_def Let_def split: prod.split)
  have resume: "\<exists>st'. msgs (snd (channel_resume_inst c)) = msgs c @ [Msg VDEC_MSG_RESP_RESUME_DONE st' NO_DATA] \<and>
     (if st' = VDEC_S_SUCCESS then state c = CHAN_STATE_PAUSE \<and> state (snd (channel_resume_inst c)) = CHAN_STATE_WORK
      else state (snd (channel_resume_inst c)) = state c)"
    by (simp add: channel_resume_inst_def message_queue_def VDEC_S_SUCCESS_def VDEC_ERR_BAD_STATE_def)
  show ?thesis using start stop resume by blast
qed

text \<open>
  If the post-processor does not start, the start request returns the result of stopping the decoder
  again: success, although the channel is not working.
\<close>

theorem start_failure_returns_success:
  "\<exists>c' w'. channel_start_inst (\<lambda>past a. (if a = VPSS_ENABLE_PORT 0 True then HI_FAILURE else HI_SUCCESS, []))
     default_globals omx_platform (zero_chan\<lparr>state := CHAN_STATE_IDLE\<rparr>) example_world = (HI_SUCCESS, c', w') \<and>
    state c' = CHAN_STATE_IDLE \<and> msgs c' = [Msg VDEC_MSG_RESP_START_DONE VDEC_S_FAILED NO_DATA]"
  by (simp add: channel_start_inst_def lowdelay_restart_def decoder_start_inst_def decoder_stop_inst_def decoder_control_def
      processor_start_inst_def evaluate_driver)

section \<open>Frames fit\<close>


definition picture_chan :: OMXVDEC_CHAN_CTX where
  "picture_chan = example_chan\<lparr>out_width := 48, out_height := 32, out_stride := 64\<rparr>"

definition picture_request :: HI_DRV_VPSS_FRMBUF_S where
  "picture_request = \<lparr>hPort = 0, u32FrmW = 48, u32FrmH = 32, u32Stride = 0, frm_StartPhyAddr = 0, frm_StartVirAddr = 0,
     u32PrivDataPhyAddr = 0, u32PrivDataSize = 0\<rparr>"

lemmas evaluate_frames = evaluate_driver picture_chan_def picture_request_def processor_get_frame_buffer_def port_matches_def
  DEFAULT_FRAME_SIZE_def processor_get_frame_def


text \<open>
  The length check ignores the offset the user filled the buffer with: a buffer of 4096 bytes filled with an
  offset of 2048 is handed out for a picture of 3072 bytes, which ends 1024 bytes behind it.
\<close>

theorem frame_offset_overruns_buffer:
  "\<exists>c1 f' c2. channel_fill_this_frame (picture_chan\<lparr>out_port := example_out_port\<lparr>queue := [0],
        bufs := [example_buf 0x5000 0 BUF_STATE_USING, (example_buf 0x6000 1 BUF_STATE_IDLE)\<lparr>kern_vaddr := 0x6000\<rparr>]\<rparr>\<rparr>)
      (zero_desc\<lparr>dir := PORT_DIR_OUTPUT, phyaddr := 0x6000, data_offset := 2048\<rparr>) = Some (HI_SUCCESS, c1) \<and>
    processor_get_frame_buffer example_vpss c1 picture_request = (HI_SUCCESS, f', c2) \<and>
    buf_len (port_buf (out_port c1) 1) = 4096 \<and> frm_StartPhyAddr f' + DEFAULT_FRAME_SIZE 64 32 = 0x6000 + 4096 + 1024"
  by (simp add: evaluate_frames channel_fill_this_frame_def lookup_frame_def channel_insert_in_yuv_list_def)

section \<open>A stream handed in twice\<close>

text \<open>
  A stream handed in again while the firmware holds it is refused, but its entry is overwritten first: the
  firmware's address is then unknown and it cannot be given back, so a flush is never answered.
\<close>

theorem empty_twice_loses_stream:
  "\<exists>c1 w1. channel_empty_this_stream example_env default_globals omx_platform busy_chan
      (zero_desc\<lparr>phyaddr := 0x2000, data_offset := 64, data_len := 100\<rparr>) example_world = Some (HI_FAILURE, c1, w1) \<and>
    (\<forall>w2. release_stream example_env default_globals omx_platform zero_desc example_stream c1 w2 = Some (HI_FAILURE, c1, w2)) \<and>
    use_cnt (in_port c1) = 1"
  by (simp add: evaluate_protocol)

section \<open>A change of the picture size\<close>

lemma and_not_mask: "x AND NOT (mask n) = push_bit n (drop_bit n (x :: u32))"
  by (auto intro!: bit_word_eqI simp: bit_simps)

lemma stride_mask: "HI_OMX_GET_STRIDE w = push_bit 4 (drop_bit 4 (w + 15))"
  unfolding and_not_mask [symmetric] by (simp add: HI_OMX_GET_STRIDE_def mask_eq_exp_minus_1)

lemma unat_stride:
  assumes "w \<le> 0xfffffff0"
  shows "unat (HI_OMX_GET_STRIDE w) = (unat w + 15) div 16 * 16"
proof -
  have u: "unat w \<le> 0xfffffff0" using assms by (simp add: word_le_nat_alt)
  then have s: "unat (w + 15) = unat w + 15" by (subst unat_add_lem [THEN iffD1]) simp_all
  have b: "(unat w + 15) div 16 * 16 < 2 ^ 32" using u by simp
  have "unat (HI_OMX_GET_STRIDE w) = unat (push_bit 4 (drop_bit 4 (w + 15)))" by (simp add: stride_mask)
  also have "\<dots> = (unat w + 15) div 16 * 16"
    using b unat_mult_lem [of "(w + 15) div 16" 16] by (simp add: push_bit_eq_mult drop_bit_eq_div unat_div s)
  finally show ?thesis .
qed

text \<open>
  A request for a frame of another size is refused and announced to the user side exactly once: the channel takes
  over the size, with the width rounded up to a multiple of 16 as its stride, posts one message
  with both, and asking again for that size posts nothing more.
\<close>

theorem size_change_announced_once:
  assumes "port_matches V c (hPort f)" "\<not> m_use_native_buf c" "u32FrmW f \<noteq> out_width c \<or> u32FrmH f \<noteq> out_height c" "u32FrmW f \<le> 0xfffffff0"
    and "processor_get_frame_buffer V c f = (r, f', c')"
  shows "r = HI_FAILURE \<and> out_width c' = u32FrmW f \<and> out_height c' = u32FrmH f \<and> recfg_flag c' \<and>
    unat (out_stride c') = (unat (u32FrmW f) + 15) div 16 * 16 \<and> out_port c' = out_port c \<and>
    msgs c' = msgs c @ [Msg VDEC_EVT_REPORT_IMG_SIZE_CHG VDEC_S_SUCCESS (IMG_SIZE (u32FrmW f) (u32FrmH f) (out_stride c'))] \<and>
    msgs (snd (snd (processor_get_frame_buffer V c' f))) = msgs c'"
proof -
  have c': "c' = image_size_change V c (u32FrmW f) (u32FrmH f)" "r = HI_FAILURE"
    using assms by (auto simp: processor_get_frame_buffer_def)
  obtain s c2 where g: "processor_get_frame c' (DEFAULT_FRAME_SIZE (out_stride c') (u32FrmH f)) = (s, c2)" by (rule prod.exhaust)
  have "msgs c2 = msgs c'"
  proof (cases s)
    case None
    then show ?thesis using get_frame_None [OF g [unfolded None]] by simp
  next
    case (Some fs)
    obtain q p where "c2 = c'\<lparr>out_port := p\<rparr>" using get_frame_Some [OF g [unfolded Some]] by metis
    then show ?thesis by simp
  qed
  moreover have "out_width c' = u32FrmW f" "out_height c' = u32FrmH f" by (simp_all add: c' image_size_change_def message_queue_def Let_def)
  ultimately have "msgs (snd (snd (processor_get_frame_buffer V c' f))) = msgs c'"
    using g by (cases s) (auto simp: processor_get_frame_buffer_def Let_def)
  moreover have "c' = c\<lparr>out_width := u32FrmW f, out_height := u32FrmH f, out_stride := HI_OMX_GET_STRIDE (u32FrmW f), recfg_flag := True,
     msgs := msgs c @ [Msg VDEC_EVT_REPORT_IMG_SIZE_CHG VDEC_S_SUCCESS (IMG_SIZE (u32FrmW f) (u32FrmH f) (HI_OMX_GET_STRIDE (u32FrmW f)))]\<rparr>"
    using c' assms(2) by (simp add: image_size_change_def message_queue_def Let_def)
  ultimately show ?thesis using c'(2) unat_stride [OF assms(4)] by simp
qed

theorem size_change_announced_once_witness:
  "\<exists>c'. processor_get_frame_buffer example_vpss picture_chan (picture_request\<lparr>u32FrmW := 50\<rparr>) =
      (HI_FAILURE, picture_request\<lparr>u32FrmW := 50\<rparr>, c') \<and> unat (out_stride c') = 64 \<and>
    msgs c' = [Msg VDEC_EVT_REPORT_IMG_SIZE_CHG VDEC_S_SUCCESS (IMG_SIZE 50 32 (out_stride c'))]"
proof -
  let ?f = "picture_request\<lparr>u32FrmW := 50\<rparr>"
  obtain r f' c' where p: "processor_get_frame_buffer example_vpss picture_chan ?f = (r, f', c')" by (rule prod_cases3)
  have g: "port_matches example_vpss picture_chan (hPort ?f)" "\<not> m_use_native_buf picture_chan"
    "u32FrmW ?f \<noteq> out_width picture_chan \<or> u32FrmH ?f \<noteq> out_height picture_chan" "u32FrmW ?f \<le> 0xfffffff0"
    "msgs picture_chan = []" "u32FrmH ?f = 32"
    by (simp_all add: evaluate_frames)
  have "f' = ?f" using p g(1,3) by (auto simp: processor_get_frame_buffer_def)
  then show ?thesis using size_change_announced_once [OF g(1-4) p] p g(5,6) by auto
qed

section \<open>The last frame\<close>

text \<open>The channel before attempt \<open>k\<close> of the loop that reports the last frame.\<close>

primrec attempt_state :: "(nat \<Rightarrow> OMXVDEC_CHAN_CTX \<Rightarrow> OMXVDEC_CHAN_CTX) \<Rightarrow> nat \<Rightarrow> OMXVDEC_CHAN_CTX \<Rightarrow> nat \<Rightarrow> OMXVDEC_CHAN_CTX" where
  "attempt_state others n c 0 = c"
| "attempt_state others n c (Suc k) = others (n - Suc k) (attempt_state others n c k)"

lemma attempt_state_shift: "attempt_state others (Suc n) c (Suc k) = attempt_state others n (others n c) k"
  by (induction k) simp_all

lemma report_last_loop_attempts:
  "\<exists>k \<le> n. calls (snd (snd (report_last_loop E G others n c w))) = calls w @ replicate k MSLEEP \<and>
    (\<forall>j < k. fst (processor_get_frame (attempt_state others n c j) 0) = None) \<and>
    (if k = n then fst (report_last_loop E G others n c w) = HI_FAILURE
     else fst (report_last_loop E G others n c w) = HI_SUCCESS \<and> fst (processor_get_frame (attempt_state others n c k) 0) \<noteq> None)"
proof (induction n arbitrary: c w)
  case 0
  then show ?case by simp
next
  case (Suc n)
  obtain s c1 where g: "processor_get_frame c 0 = (s, c1)" by (rule prod.exhaust)
  show ?case
  proof (cases s)
    case (Some fs)
    then show ?thesis using g by (intro exI [of _ 0]) simp
  next
    case None
    then have c1: "c1 = c" using get_frame_None g by blast
    obtain k where k: "k \<le> n" "calls (snd (snd (report_last_loop E G others n (others n c) (ext_do E MSLEEP w)))) = calls (ext_do E MSLEEP w) @ replicate k MSLEEP"
      "\<forall>j < k. fst (processor_get_frame (attempt_state others n (others n c) j) 0) = None"
      "if k = n then fst (report_last_loop E G others n (others n c) (ext_do E MSLEEP w)) = HI_FAILURE
       else fst (report_last_loop E G others n (others n c) (ext_do E MSLEEP w)) = HI_SUCCESS \<and>
         fst (processor_get_frame (attempt_state others n (others n c) k) 0) \<noteq> None"
      using Suc.IH by blast
    have "\<forall>j < Suc k. fst (processor_get_frame (attempt_state others (Suc n) c j) 0) = None"
      using k(3) g None by (auto simp: less_Suc_eq_0_disj attempt_state_shift simp del: attempt_state.simps(2))
    moreover have "calls (ext_do E MSLEEP w) = calls w @ [MSLEEP]" by (simp add: ext_do_def ext_def)
    ultimately show ?thesis using k g None c1
      by (intro exI [of _ "Suc k"]) (simp add: attempt_state_shift del: attempt_state.simps(2))
  qed
qed

text \<open>
  C25: reporting the last frame by hand always ends: it sleeps at most 501 times, gives up only if no frame buffer
  was free in any of its 501 attempts, and otherwise reports at the first attempt that finds one, whatever the
  rest of the system does to the channel during the sleeps.
\<close>

theorem last_frame_bounded:
  "\<exists>k \<le> 501. calls (snd (snd (processor_report_last_frame E G others c w))) = calls w @ replicate k MSLEEP \<and>
    (\<forall>j < k. fst (processor_get_frame (attempt_state others 501 c j) 0) = None) \<and>
    (if k = 501 then fst (processor_report_last_frame E G others c w) = HI_FAILURE
     else fst (processor_report_last_frame E G others c w) = HI_SUCCESS \<and>
       fst (processor_get_frame (attempt_state others 501 c k) 0) \<noteq> None)"
  unfolding processor_report_last_frame_def by (rule report_last_loop_attempts)

theorem last_frame_bounded_witness:
  "fst (processor_report_last_frame example_env default_globals (\<lambda>_ c. c) zero_chan example_world) = HI_FAILURE \<and>
   calls (snd (snd (processor_report_last_frame example_env default_globals (\<lambda>_ c. c) zero_chan example_world))) = replicate 501 MSLEEP"
proof -
  have same: "attempt_state (\<lambda>_ c. c) n c k = c" for n c k by (induction k) simp_all
  have none: "fst (processor_get_frame zero_chan 0) = None" by (simp add: processor_get_frame_def zero_chan_def)
  obtain k where k: "calls (snd (snd (processor_report_last_frame example_env default_globals (\<lambda>_ c. c) zero_chan example_world))) =
      calls example_world @ replicate k MSLEEP" "if k = 501 then fst (processor_report_last_frame example_env default_globals (\<lambda>_ c. c) zero_chan example_world) = HI_FAILURE
     else fst (processor_get_frame (attempt_state (\<lambda>_ c. c) 501 zero_chan k) 0) \<noteq> None"
    using last_frame_bounded [of example_env default_globals "\<lambda>_ c. c" zero_chan example_world] by (metis (mono_tags, lifting))
  then have "k = 501" using none by (auto simp: same split: if_splits)
  then show ?thesis using k by (simp add: example_world_def)
qed

section \<open>Requests\<close>

text \<open>
  C23: with the invariant of the driver a request reaches the one channel it names, and only if that exists: with the
  number of a channel whose number is not negative it is carried out on that channel, every other
  channel staying as it is; with a number that no channel has, with a negative one or with arguments that cannot
  be copied it is refused and nothing changes.
\<close>

theorem request_reaches_its_channel:
  assumes "driver_wf K d" "\<And>cfg copied. req \<noteq> VDEC_IOCTL_CHAN_CREATE cfg copied" "req \<noteq> VDEC_IOCTL_CHAN_RELEASE"
    and "omxvdec_ioctl E K V mem fd d num req = Some (r, k, d')"
  shows "(\<exists>i < length (chan_list d). num = Some (channel_id (chan_list d ! i)) \<and> 0 \<le> sint (channel_id (chan_list d ! i)) \<and>
      (\<forall>j < length (chan_list d). num = Some (channel_id (chan_list d ! j)) \<longrightarrow> j = i) \<and> length (chan_list d') = length (chan_list d) \<and> (\<forall>j < length (chan_list d). j \<noteq> i \<longrightarrow> chan_list d' ! j = chan_list d ! j) \<and>
      chan_ioctl E (globs d) K V (chan_list d ! i) (wld d) req = Some (r, chan_list d' ! i, wld d')) \<or>
    d' = d \<and> r \<noteq> DEV_OK \<and> (\<forall>i < length (chan_list d). num = Some (channel_id (chan_list d ! i)) \<longrightarrow> sint (channel_id (chan_list d ! i)) < 0)"
proof (cases "\<exists>h i. num = Some h \<and> \<not> sint h < 0 \<and> find_chan channel_id d h = Some i")
  case True
  then obtain h i where hi: "num = Some h" "\<not> sint h < 0" "find_chan channel_id d h = Some i" by auto
  note f = found_chan [OF hi(3)]
  have "map_option (\<lambda>(r, c, w). (r, None, put_chan d i c w)) (chan_ioctl E (globs d) K V (chan_list d ! i) (wld d) req) = Some (r, k, d')"
    using assms(2-4) hi by (cases req) (auto simp: omxvdec_ioctl_def channel_find_inst_by_channel_id_def)
  then obtain c w where cw: "chan_ioctl E (globs d) K V (chan_list d ! i) (wld d) req = Some (r, c, w)" "d' = put_chan d i c w" by auto
  have unique: "j = i" if "j < length (chan_list d)" "channel_id (chan_list d ! j) = h" for j
  proof -
    have "distinct (map channel_id (chan_list d))" using assms(1) by (simp add: driver_wf_def)
    then show ?thesis using that f by (intro distinct_key_nth_eq [of channel_id "chan_list d" j i]) simp_all
  qed
  have d': "chan_list d' = (chan_list d)[i := c]" "wld d' = w" by (simp_all add: cw(2) put_chan_def)
  show ?thesis
  proof (intro disjI1 exI [of _ i] conjI)
    show "\<forall>j < length (chan_list d). num = Some (channel_id (chan_list d ! j)) \<longrightarrow> j = i" using unique hi(1) by simp
  qed (use hi f cw(1) d' in simp_all)
next
  case False
  have "sint (channel_id (chan_list d ! i)) < 0" if "i < length (chan_list d)" "num = Some (channel_id (chan_list d ! i))" for i
  proof (rule ccontr)
    assume n: "\<not> sint (channel_id (chan_list d ! i)) < 0"
    then have "find_index (\<lambda>c. channel_id c = channel_id (chan_list d ! i)) (chan_list d) = None"
      using False that(2) by (auto simp: find_chan_def)
    then show False using that(1) by (auto simp: find_index_None)
  qed
  moreover have "d' = d \<and> r \<noteq> DEV_OK"
    using assms(2-4) False by (cases req; cases num) (auto simp: omxvdec_ioctl_def channel_find_inst_by_channel_id_def split: if_splits option.splits)
  ultimately show ?thesis by blast
qed

definition one_channel :: driver where
  "one_channel = loaded_driver\<lparr>chan_list := [example_chan], total_chan_num := 1\<rparr>"

theorem request_reaches_its_channel_witness:
  "\<exists>k d'. omxvdec_ioctl example_env omx_platform example_vpss (\<lambda>_. zero_buf) 7 one_channel (Some 0) VDEC_IOCTL_CHAN_PAUSE = Some (DEV_OK, k, d') \<and>
    chan_ioctl example_env default_globals omx_platform example_vpss example_chan example_world VDEC_IOCTL_CHAN_PAUSE = Some (DEV_OK, chan_list d' ! 0, wld d')"
proof -
  let ?r = "omxvdec_ioctl example_env omx_platform example_vpss (\<lambda>_. zero_buf) 7 one_channel (Some 0) VDEC_IOCTL_CHAN_PAUSE"
  have o: "chan_list one_channel = [example_chan]" "globs one_channel = default_globals" "wld one_channel = example_world"
    by (simp_all add: one_channel_def loaded_driver_def)
  have wf: "driver_wf omx_platform one_channel"
    using example_chan_wf by (simp add: driver_wf_def one_channel_def loaded_driver_def)
  have "map_option fst ?r = Some DEV_OK"
    by (simp add: omxvdec_ioctl_def channel_find_inst_by_channel_id_def find_chan_def o chan_ioctl_def dev_of_def)
      (simp add: evaluate_protocol)
  then obtain k d' where r: "?r = Some (DEV_OK, k, d')" by auto
  show ?thesis using request_reaches_its_channel [OF wf _ _ r] r by (auto simp: o)
qed

section \<open>Sizes\<close>

text \<open>
  The size of a channel's tables is computed in 32 bits from two numbers the user chooses and can wrap around: there
  are numbers of buffers, each accepted, for which the memory allocated for the tables is smaller than the tables.
\<close>

theorem table_size_wraps:
  "\<exists>cfg. cfg_ok omx_platform cfg \<and> unat (table_size omx_platform example_vpss cfg) <
     (unat (cfg_inbuf_num cfg) + unat (cfg_outbuf_num cfg)) * unat (sizeof_buf example_vpss)"
  by (rule exI [of _ "example_cfg\<lparr>cfg_outbuf_num := 0x2000000\<rparr>"])
    (simp add: cfg_ok_def table_size_def example_cfg_def omx_platform_def example_vpss_def)

lemma cap_option_dims:
  "out_width c \<le> s32MaxWidth (cap_option G c p)" "out_height c \<le> s32MaxHeight (cap_option G c p)"
  "1280 \<le> s32MaxWidth (cap_option G c p)" "768 \<le> s32MaxHeight (cap_option G c p)"
  "2 \<le> s32MaxRefFrameNum (cap_option G c p) \<and> s32MaxRefFrameNum (cap_option G c p) \<le> 12" "s32SupportH264 (cap_option G c p) = s32SupportH264 p"
proof -
  have big: "(1280 :: u32) \<le> max 4096 a" "(1280 :: u32) \<le> max 1920 a" "(768 :: u32) \<le> max 2304 a" "(768 :: u32) \<le> max 1088 a" for a
    by (simp_all add: max.coboundedI1)
  show "out_width c \<le> s32MaxWidth (cap_option G c p)" "out_height c \<le> s32MaxHeight (cap_option G c p)"
    "1280 \<le> s32MaxWidth (cap_option G c p)" "768 \<le> s32MaxHeight (cap_option G c p)"
    "2 \<le> s32MaxRefFrameNum (cap_option G c p) \<and> s32MaxRefFrameNum (cap_option G c p) \<le> 12" "s32SupportH264 (cap_option G c p) = s32SupportH264 p"
    by (cases "config_cap c"; simp add: cap_option_def big)+
qed

lemma std_option_keeps:
  assumes "std_option vstd cap p = (k, p')"
  shows "s32MaxWidth p' = s32MaxWidth p" "s32MaxHeight p' = s32MaxHeight p"
    "s32MaxRefFrameNum p' \<in> {s32MaxRefFrameNum p, 2, 3}" "s32SupportH264 p' = (if vstd \<in> {STD_HEVC, STD_H264, STD_MVC} then 1 else s32SupportH264 p)"
  using assms by (auto simp: std_option_def Let_def split: if_splits)

lemma dfs_option_dims:
  "s32MaxWidth (dfs_option G vstd p) = s32MaxWidth p" "s32MaxHeight (dfs_option G vstd p) = s32MaxHeight p"
  "s32MaxRefFrameNum (dfs_option G vstd p) = s32MaxRefFrameNum p" "s32SupportH264 (dfs_option G vstd p) = s32SupportH264 p"
  by (simp_all add: dfs_option_def)

text \<open>
  The options a decoder is created with cover the picture of the channel: its largest width and height are at least the
  channel's, and at least 1280 by 768, and reference frames are allowed for.
\<close>

theorem decoder_options_cover_picture:
  "case decoder_init_option G c cfg zero_option of (c', cap, opt) \<Rightarrow>
     out_width c \<le> s32MaxWidth opt \<and> out_height c \<le> s32MaxHeight opt \<and> 1280 \<le> s32MaxWidth opt \<and> 768 \<le> s32MaxHeight opt \<and>
     2 \<le> s32MaxRefFrameNum opt \<and> s32MaxRefFrameNum opt \<le> 12 \<and> (s32SupportH264 opt = 1 \<longleftrightarrow> eVidStd cfg \<in> {STD_HEVC, STD_H264, STD_MVC})"
proof -
  obtain c' cap opt where o: "decoder_init_option G c cfg zero_option = (c', cap, opt)" by (rule prod_cases3)
  define c1 where "c1 = c\<lparr>protocol := (if eVidStd cfg = STD_VC1 \<and> StdExt cfg = 0 then STD_WMV else eVidStd cfg),
     bReversed := (if eVidStd cfg = STD_VP6 \<or> eVidStd cfg = STD_VP6F \<or> eVidStd cfg = STD_VP6A then StdExt cfg else 0)\<rparr>"
  define p1 where "p1 = zero_option\<lparr>eAdapterType := 1, Purpose := 1, MemAllocMode := 3, s32SupportBFrame := 1, s32ReRangeEn := 1,
     s32DisplayFrameNum := g_DispNum G\<rparr>"
  obtain p2 where p2: "std_option (eVidStd cfg) (config_cap c1) (cap_option G c1 p1) = (cap, p2)" "opt = dfs_option G (eVidStd cfg) p2"
    using o by (auto simp: decoder_init_option_def Let_def c1_def [symmetric] p1_def [symmetric] split: prod.splits)
  have "s32SupportH264 p1 = 0" "out_width c1 = out_width c" "out_height c1 = out_height c" by (simp_all add: p1_def zero_option_def c1_def)
  moreover have "2 \<le> s32MaxRefFrameNum p2 \<and> s32MaxRefFrameNum p2 \<le> 12"
    using std_option_keeps(3) [OF p2(1)] cap_option_dims(5) [where c = c1 and G = G and p = p1] by auto
  ultimately show ?thesis
    using cap_option_dims [where c = c1 and G = G and p = p1] std_option_keeps [OF p2(1)] by (simp add: o p2(2) dfs_option_dims)
qed

end
