(* ===== verification/Omx_Component.thy ===== *)
theory Omx_Component
  imports Omx_Processor
begin

text \<open>
  The OMX video decoder component of the user side, \<open>omx_vdec.c\<close> and \<open>omx_vdec.h\<close>: the peer
  of the driver of the \<open>Omx_*\<close> theories. It keeps two ports with their buffer headers, a state
  of the OMX standard with pending transitions, three event queues and a pipe whose bytes
  wake up the event thread.

  Three parties act on it. The client calls the methods of the component, the message thread
  reads the messages of the driver (the type \<open>msg\<close> of \<open>Omx_State\<close>) and hands them to
  \<open>message_process\<close>, and the event thread reads a byte from the pipe and runs \<open>event_process\<close>.
  Each such call is one step here. A client that waits in \<open>send_command\<close> for the semaphore is
  counted in \<open>waiting\<close> and leaves by the step \<open>command_return\<close>.

  The event queue (\<open>omx_event_queue\<close>), the wrappers of the ioctls (\<open>omx_drv_ctx\<close>) and the
  allocator are outside the repository: the record \<open>comp_platform\<close> holds the queue's functions,
  and \<open>comp_env\<close> the results of the calls made in one step. An event is a value of
  \<open>event\<close>, the identifier with its two parameters; the numbers of the OMX enumerations
  are not in the repository, and a state or a command is a value of a datatype.

  Headers live in \<open>hdrs\<close>, by address, each with the descriptor that its port-private pointer leads to.
  \<open>wild\<close> records that a header was used after it was freed or that a conversion had no
  defined result. The model is the build without \<open>HI_TVP_SUPPORT\<close>; the debug
  output of pictures (\<open>save_this_frame\<close>) is left out.
\<close>

unbundle bit_operations_syntax

section \<open>Types\<close>

datatype OMX_STATETYPE = OMX_StateInvalid | OMX_StateLoaded | OMX_StateIdle | OMX_StateExecuting
  | OMX_StatePause | OMX_StateWaitForResources

datatype OMX_ERRORTYPE = OMX_ErrorNone | OMX_ErrorInsufficientResources | OMX_ErrorUndefined
  | OMX_ErrorBadParameter | OMX_ErrorNotImplemented | OMX_ErrorHardware | OMX_ErrorBadPortIndex
  | OMX_ErrorSameState | OMX_ErrorIncorrectStateTransition | OMX_ErrorIncorrectStateOperation
  | OMX_ErrorUnsupportedSetting | OMX_ErrorUnsupportedIndex | OMX_ErrorNoMore
  | OMX_ErrorDynamicResourcesUnavailable | OMX_ErrorOther u32

text \<open>A port index, or the value that stands for all ports.\<close>

datatype port_sel = PORT u32 | OMX_ALL

definition INPUT_PORT_INDEX :: u32 where "INPUT_PORT_INDEX = 0"
definition OUTPUT_PORT_INDEX :: u32 where "OUTPUT_PORT_INDEX = 1"

text \<open>A command with its parameter.\<close>

datatype OMX_COMMANDTYPE = OMX_CommandStateSet OMX_STATETYPE | OMX_CommandFlush port_sel
  | OMX_CommandPortDisable port_sel | OMX_CommandPortEnable port_sel | OMX_CommandOther u32

datatype flags_bit = OMX_STATE_IDLE_PENDING | OMX_STATE_LOADING_PENDING
  | OMX_STATE_INPUT_ENABLE_PENDING | OMX_STATE_OUTPUT_ENABLE_PENDING
  | OMX_STATE_OUTPUT_DISABLE_PENDING | OMX_STATE_INPUT_DISABLE_PENDING
  | OMX_STATE_OUTPUT_FLUSH_PENDING | OMX_STATE_INPUT_FLUSH_PENDING
  | OMX_STATE_PAUSE_PENDING | OMX_STATE_EXECUTE_PENDING

fun flag_position :: "flags_bit \<Rightarrow> nat" where
  "flag_position OMX_STATE_IDLE_PENDING = 0x1"
| "flag_position OMX_STATE_LOADING_PENDING = 0x2"
| "flag_position OMX_STATE_INPUT_ENABLE_PENDING = 0x3"
| "flag_position OMX_STATE_OUTPUT_ENABLE_PENDING = 0x4"
| "flag_position OMX_STATE_OUTPUT_DISABLE_PENDING = 0x5"
| "flag_position OMX_STATE_INPUT_DISABLE_PENDING = 0x6"
| "flag_position OMX_STATE_OUTPUT_FLUSH_PENDING = 0x7"
| "flag_position OMX_STATE_INPUT_FLUSH_PENDING = 0x8"
| "flag_position OMX_STATE_PAUSE_PENDING = 0x9"
| "flag_position OMX_STATE_EXECUTE_PENDING = 0xA"

datatype gen_id = OMX_GENERATE_COMMAND_DONE | OMX_GENERATE_FTB | OMX_GENERATE_ETB
  | OMX_GENERATE_COMMAND | OMX_GENERATE_EBD | OMX_GENERATE_FBD | OMX_GENERATE_FLUSH_INPUT_DONE
  | OMX_GENERATE_FLUSH_OUTPUT_DONE | OMX_GENERATE_START_DONE | OMX_GENERATE_PAUSE_DONE
  | OMX_GENERATE_RESUME_DONE | OMX_GENERATE_STOP_DONE | OMX_GENERATE_EOS_DONE
  | OMX_GENERATE_HARDWARE_ERROR | OMX_GENERATE_IMAGE_SIZE_CHANGE | OMX_GENERATE_DYNAMIC_ALLOC_ERROR

text \<open>
  An entry of an event queue: the identifier and the parameters that go with it, a command, the
  address of a header with a status, or a status.
\<close>

datatype event = Cmd_Done OMX_COMMANDTYPE | Ftb u32 | Etb u32 | Cmd OMX_COMMANDTYPE
  | Ebd u32 u32 | Fbd u32 u32 | Flush_Input_Done u32 | Flush_Output_Done u32 | Start_Done u32
  | Pause_Done u32 | Resume_Done u32 | Stop_Done u32 | Eos_Done | Hardware_Error
  | Image_Size_Change | Dynamic_Alloc_Error

fun ident :: "event \<Rightarrow> gen_id" where
  "ident (Cmd_Done _) = OMX_GENERATE_COMMAND_DONE"
| "ident (Ftb _) = OMX_GENERATE_FTB"
| "ident (Etb _) = OMX_GENERATE_ETB"
| "ident (Cmd _) = OMX_GENERATE_COMMAND"
| "ident (Ebd _ _) = OMX_GENERATE_EBD"
| "ident (Fbd _ _) = OMX_GENERATE_FBD"
| "ident (Flush_Input_Done _) = OMX_GENERATE_FLUSH_INPUT_DONE"
| "ident (Flush_Output_Done _) = OMX_GENERATE_FLUSH_OUTPUT_DONE"
| "ident (Start_Done _) = OMX_GENERATE_START_DONE"
| "ident (Pause_Done _) = OMX_GENERATE_PAUSE_DONE"
| "ident (Resume_Done _) = OMX_GENERATE_RESUME_DONE"
| "ident (Stop_Done _) = OMX_GENERATE_STOP_DONE"
| "ident Eos_Done = OMX_GENERATE_EOS_DONE"
| "ident Hardware_Error = OMX_GENERATE_HARDWARE_ERROR"
| "ident Image_Size_Change = OMX_GENERATE_IMAGE_SIZE_CHANGE"
| "ident Dynamic_Alloc_Error = OMX_GENERATE_DYNAMIC_ALLOC_ERROR"

text \<open>The header of a buffer, with the descriptors its port-private pointers lead to.\<close>

record OMX_BUFFERHEADERTYPE =
  pBuffer :: u32
  nAllocLen :: u32
  nFilledLen :: u32
  nOffset :: u32
  nTimeStamp :: s64
  nFlags :: u32
  pAppPrivate :: u32
  pInputPortPrivate :: "OMXVDEC_BUF_DESC option"
  pOutputPortPrivate :: "OMXVDEC_BUF_DESC option"
  nInputPortIndex :: u32
  nOutputPortIndex :: u32

text \<open>
  One port. \<open>m_omx_bufhead\<close> is the table of header addresses, 0 for \<open>NULL\<close>. The counts are natural
  numbers: they stay below the size of the table.
\<close>

record OMX_PORT_PRIVATE =
  m_omx_bufhead :: "u32 list"
  min_count :: nat
  max_count :: nat
  buffer_size :: u32
  m_cur_buf_num :: nat
  m_port_enabled :: bool
  m_port_populated :: bool
  m_port_reconfig :: bool
  m_port_flushing :: bool

text \<open>The calls into the driver and what the component hands to its client.\<close>

datatype drv_call = CHANNEL_CREATE | CHANNEL_RELEASE | CHANNEL_START | CHANNEL_STOP | CHANNEL_PAUSE
  | CHANNEL_RESUME | CHANNEL_FLUSH_PORT port_sel | CHANNEL_BIND_BUFFER OMXVDEC_BUF_DESC
  | CHANNEL_UNBIND_BUFFER OMXVDEC_BUF_DESC | CHANNEL_SUBMIT_STREAM OMXVDEC_BUF_DESC
  | CHANNEL_SUBMIT_FRAME OMXVDEC_BUF_DESC | FREE_CONTIGOUS_BUFFER OMXVDEC_BUF_DESC

datatype OMX_EVENTTYPE = OMX_EventCmdComplete OMX_COMMANDTYPE | OMX_EventError OMX_ERRORTYPE
  | OMX_EventBufferFlag | OMX_EventPortSettingsChanged

datatype comp_out = Called drv_call bool | EventHandler OMX_EVENTTYPE | EmptyBufferDone u32
  | FillBufferDone u32

text \<open>
  The extension of the channel configuration for one standard is a union; \<open>No_Ext\<close> stands for what the driver context
  was set up with.
\<close>

datatype StdExt = No_Ext | Vc1Ext bool u32 | Vp6Ext bool

record drv_cfg =
  cfg_width :: u32
  cfg_height :: u32
  cfg_stride :: u32
  cfg_inbuf_num :: u32
  cfg_outbuf_num :: u32
  cfg_color_format :: OMX_PIX_FORMAT_E
  cfg_eVidStd :: VID_STD
  s32ChanErrThr :: u32
  s32ChanPriority :: u32
  s32ChanStrmOFThr :: u32
  s32DecMode :: u32
  s32DecOrderOutput :: u32
  s32LowdlyEnable :: bool
  std_ext :: StdExt

text \<open>The parameters of a codec are a union of structures that the component only copies: the member that was written, with its words.\<close>

datatype codec_index = Avc | Mpeg4 | Vc1 | Wmv | Rv | Mpeg2 | H263 | Vp6 | Vp8

record 'q comp =
  m_state :: OMX_STATETYPE
  m_flags :: u32
  m_codec_param :: "(codec_index \<times> u32 list) option"
  m_cb :: bool
  m_frame_rate :: u32
  m_pre_timestamp :: s64
  m_inport :: OMX_PORT_PRIVATE
  m_outport :: OMX_PORT_PRIVATE
  m_use_native_buf :: bool
  m_role :: string
  m_dec_fmt :: u32
  msg_thread_id :: u32
  chan_handle :: u32
  drv_cfg :: drv_cfg
  pic_width :: u32
  pic_height :: u32
  pic_stride :: u32
  pic_scan_lines :: u32
  m_pipe :: "gen_id list"
  m_cmd_lock :: nat
  m_ftb_q :: 'q
  m_cmd_q :: 'q
  m_etb_q :: 'q
  hdrs :: "u32 \<Rightarrow> OMX_BUFFERHEADERTYPE option"
  waiting :: nat
  outs :: "comp_out list"
  wild :: bool

text \<open>
  What is outside the repository and does not change: the event queue
  (\<open>init_event_queue\<close>, \<open>push_entry\<close>, \<open>pop_entry\<close>, \<open>get_q_size\<close>), the flag for the end of the
  stream, the strides of the platform and the list of codecs of
  \<open>omx_codec_type.h\<close> (role, format, standard).
\<close>

record 'q comp_platform =
  init_event_queue :: 'q
  push_entry :: "event \<Rightarrow> 'q \<Rightarrow> 'q"
  pop_entry :: "'q \<Rightarrow> event \<times> 'q"
  get_q_size :: "'q \<Rightarrow> nat"
  OMX_BUFFERFLAG_EOS :: u32
  HI_SYS_GET_STRIDE :: "u32 \<Rightarrow> u32"
  codec_trans_list :: "(string \<times> u32 \<times> VID_STD) list"
  OMX_VIDEO_CodingRV :: u32
  OMX_VIDEO_CodingVP6 :: u32
  OMX_VIDEO_CodingUnused :: u32

text \<open>
  The results of the calls made during one step: of the driver (a result below zero is
  \<open>False\<close>), of \<open>write\<close> on the pipe, of \<open>malloc\<close>, of the address translation and the allocator, of
  \<open>pthread_create\<close> and of the client's callbacks.
\<close>

record comp_env =
  drv_ok :: "drv_call \<Rightarrow> bool"
  new_handle :: u32
  write_ok :: "gen_id \<Rightarrow> bool"
  malloc_hdr :: "u32 option"
  malloc_desc_ok :: bool
  HI_MMZ_GetPhyaddr :: "u32 \<Rightarrow> u32 option"
  alloc_contigous :: "(u32 \<times> u32 \<times> u32) option"
  new_thread_id :: u32
  cb_result :: "comp_out \<Rightarrow> OMX_ERRORTYPE"

section \<open>Pending bits, ports and headers\<close>

definition bit_set :: "u32 \<Rightarrow> flags_bit \<Rightarrow> u32" where
  "bit_set addr nr = addr OR push_bit (flag_position nr mod 32) 1"

definition bit_clear :: "u32 \<Rightarrow> flags_bit \<Rightarrow> u32" where
  "bit_clear addr nr = addr AND NOT (push_bit (flag_position nr mod 32) 1)"

definition bit_present :: "u32 \<Rightarrow> flags_bit \<Rightarrow> bool" where
  "bit_present addr nr \<longleftrightarrow> push_bit (flag_position nr mod 32) 1 AND addr \<noteq> 0"

definition m_port :: "'q comp \<Rightarrow> u32 \<Rightarrow> OMX_PORT_PRIVATE" where
  "m_port c p = (if p = INPUT_PORT_INDEX then m_inport c else m_outport c)"

definition m_port_update :: "u32 \<Rightarrow> (OMX_PORT_PRIVATE \<Rightarrow> OMX_PORT_PRIVATE) \<Rightarrow> 'q comp \<Rightarrow> 'q comp" where
  "m_port_update p f c = (if p = INPUT_PORT_INDEX then c\<lparr>m_inport := f (m_inport c)\<rparr>
     else c\<lparr>m_outport := f (m_outport c)\<rparr>)"

definition set_pending :: "flags_bit \<Rightarrow> 'q comp \<Rightarrow> 'q comp" where
  "set_pending b c = c\<lparr>m_flags := bit_set (m_flags c) b\<rparr>"

definition clear_pending :: "flags_bit \<Rightarrow> 'q comp \<Rightarrow> 'q comp" where
  "clear_pending b c = c\<lparr>m_flags := bit_clear (m_flags c) b\<rparr>"

definition pending :: "'q comp \<Rightarrow> flags_bit \<Rightarrow> bool" where
  "pending c b = bit_present (m_flags c) b"

definition comp_port_full :: "'q comp \<Rightarrow> u32 \<Rightarrow> bool" where
  "comp_port_full c p \<longleftrightarrow> m_cur_buf_num (m_port c p) = max_count (m_port c p)"

definition comp_port_empty :: "'q comp \<Rightarrow> u32 \<Rightarrow> bool" where
  "comp_port_empty c p \<longleftrightarrow> m_cur_buf_num (m_port c p) = 0"

definition ports_all_full :: "'q comp \<Rightarrow> bool" where
  "ports_all_full c \<longleftrightarrow> comp_port_full c INPUT_PORT_INDEX \<and> comp_port_full c OUTPUT_PORT_INDEX"

definition ports_all_empty :: "'q comp \<Rightarrow> bool" where
  "ports_all_empty c \<longleftrightarrow> comp_port_empty c INPUT_PORT_INDEX \<and> comp_port_empty c OUTPUT_PORT_INDEX"

text \<open>The walk over the first \<open>max_count\<close> places of the table that every use of a header starts with.\<close>

definition find_bufhead :: "OMX_PORT_PRIVATE \<Rightarrow> u32 \<Rightarrow> nat option" where
  "find_bufhead p b = find_index (\<lambda>a. a = b) (take (max_count p) (m_omx_bufhead p))"

text \<open>A write to a header.\<close>

definition write_hdr :: "u32 \<Rightarrow> (OMX_BUFFERHEADERTYPE \<Rightarrow> OMX_BUFFERHEADERTYPE) \<Rightarrow> 'q comp \<Rightarrow> 'q comp" where
  "write_hdr b f c = (case hdrs c b of None \<Rightarrow> c\<lparr>wild := True\<rparr>
     | Some h \<Rightarrow> c\<lparr>hdrs := (hdrs c)(b \<mapsto> f h)\<rparr>)"

section \<open>Calls out of the component\<close>

definition drv :: "comp_env \<Rightarrow> drv_call \<Rightarrow> 'q comp \<Rightarrow> bool \<times> 'q comp" where
  "drv E d c = (drv_ok E d, c\<lparr>outs := outs c @ [Called d (drv_ok E d)]\<rparr>)"

definition omx_report_event :: "OMX_EVENTTYPE \<Rightarrow> 'q comp \<Rightarrow> 'q comp" where
  "omx_report_event e c = (if \<not> m_cb c then c else c\<lparr>outs := outs c @ [EventHandler e]\<rparr>)"

definition omx_report_error :: "OMX_ERRORTYPE \<Rightarrow> 'q comp \<Rightarrow> 'q comp" where
  "omx_report_error e = omx_report_event (OMX_EventError e)"

text \<open>An event goes to one of three queues, by its identifier; a byte with the identifier goes to the pipe.\<close>

datatype qclass = FTBQ | ETBQ | CMDQ

fun queue_of :: "gen_id \<Rightarrow> qclass" where
  "queue_of OMX_GENERATE_FTB = FTBQ"
| "queue_of OMX_GENERATE_FBD = FTBQ"
| "queue_of OMX_GENERATE_ETB = ETBQ"
| "queue_of OMX_GENERATE_EBD = ETBQ"
| "queue_of _ = CMDQ"

fun the_queue :: "qclass \<Rightarrow> 'q comp \<Rightarrow> 'q" where
  "the_queue FTBQ c = m_ftb_q c"
| "the_queue ETBQ c = m_etb_q c"
| "the_queue CMDQ c = m_cmd_q c"

fun set_queue :: "qclass \<Rightarrow> 'q \<Rightarrow> 'q comp \<Rightarrow> 'q comp" where
  "set_queue FTBQ q c = c\<lparr>m_ftb_q := q\<rparr>"
| "set_queue ETBQ q c = c\<lparr>m_etb_q := q\<rparr>"
| "set_queue CMDQ q c = c\<lparr>m_cmd_q := q\<rparr>"

definition post_event :: "'q comp_platform \<Rightarrow> comp_env \<Rightarrow> event \<Rightarrow> 'q comp \<Rightarrow> OMX_ERRORTYPE \<times> 'q comp" where
  "post_event P E e c =
     (let k = queue_of (ident e); c1 = set_queue k (push_entry P e (the_queue k c)) c in
      if write_ok E (ident e) then (OMX_ErrorNone, c1\<lparr>m_pipe := m_pipe c1 @ [ident e]\<rparr>)
      else (OMX_ErrorUndefined, c1))"

text \<open>No caller looks at the result.\<close>

abbreviation post :: "'q comp_platform \<Rightarrow> comp_env \<Rightarrow> event \<Rightarrow> 'q comp \<Rightarrow> 'q comp" where
  "post P E e c \<equiv> snd (post_event P E e c)"

definition fill_buffer_done :: "comp_env \<Rightarrow> u32 \<Rightarrow> 'q comp \<Rightarrow> OMX_ERRORTYPE \<times> 'q comp" where
  "fill_buffer_done E b c =
     (if b = 0 then (OMX_ErrorBadParameter, c)
      else let c1 = (if m_port_flushing (m_outport c) then write_hdr b (\<lambda>h. h\<lparr>nFilledLen := 0\<rparr>) c else c) in
        if \<not> m_cb c1 then (OMX_ErrorUndefined, c1)
        else (cb_result E (FillBufferDone b), c1\<lparr>outs := outs c1 @ [FillBufferDone b]\<rparr>))"

definition empty_buffer_done :: "comp_env \<Rightarrow> u32 \<Rightarrow> 'q comp \<Rightarrow> OMX_ERRORTYPE \<times> 'q comp" where
  "empty_buffer_done E b c =
     (if b = 0 then (OMX_ErrorBadParameter, c)
      else let c1 = write_hdr b (\<lambda>h. h\<lparr>nFilledLen := 0\<rparr>) c in
        if \<not> m_cb c1 then (OMX_ErrorUndefined, c1)
        else (cb_result E (EmptyBufferDone b), c1\<lparr>outs := outs c1 @ [EmptyBufferDone b]\<rparr>))"

section \<open>Buffers of a port\<close>

definition zero_hdr :: OMX_BUFFERHEADERTYPE where
  "zero_hdr = \<lparr>pBuffer = 0, nAllocLen = 0, nFilledLen = 0, nOffset = 0, nTimeStamp = 0, nFlags = 0,
     pAppPrivate = 0, pInputPortPrivate = None, pOutputPortPrivate = None, nInputPortIndex = 0,
     nOutputPortIndex = 0\<rparr>"

definition port_dir_of :: "u32 \<Rightarrow> ePORT_DIR" where
  "port_dir_of p = (if p = INPUT_PORT_INDEX then PORT_DIR_INPUT else PORT_DIR_OUTPUT)"

text \<open>The header is filled in, entered at the place \<open>i\<close> that was chosen before, and counted.\<close>

definition init_bufhead ::
  "u32 \<Rightarrow> nat \<Rightarrow> u32 \<Rightarrow> u32 \<Rightarrow> u32 \<Rightarrow> u32 \<Rightarrow> OMXVDEC_BUF_DESC \<Rightarrow> 'q comp \<Rightarrow> 'q comp" where
  "init_bufhead p i a buffer len app d c =
     (let h0 = zero_hdr\<lparr>pBuffer := buffer, nAllocLen := len, nOffset := 0, pAppPrivate := app\<rparr>;
          h = (if p = INPUT_PORT_INDEX
               then h0\<lparr>pInputPortPrivate := Some d, nInputPortIndex := INPUT_PORT_INDEX, pOutputPortPrivate := None\<rparr>
               else h0\<lparr>pInputPortPrivate := None, pOutputPortPrivate := Some d, nOutputPortIndex := OUTPUT_PORT_INDEX\<rparr>) in
      m_port_update p (\<lambda>q. q\<lparr>m_omx_bufhead := (m_omx_bufhead q)[i := a], m_cur_buf_num := m_cur_buf_num q + 1\<rparr>)
        (c\<lparr>hdrs := (hdrs c)(a \<mapsto> h)\<rparr>))"

text \<open>
  The result of the three functions that add a buffer is the error and, on success, the address
  of the header that the client gets.
\<close>

text \<open>What the component reads of the handle of a native buffer (\<open>private_handle_t\<close>).\<close>

record private_handle_t =
  nh_address :: u32
  nh_base :: u32
  nh_stride :: u32
  ion_phy_addr :: u32
  ion_metadata_phy_addr :: u32
  ion_metadata_size :: u32
  priv_data_start_pos :: u32

definition use_android_native_buffer_internal ::
  "comp_env \<Rightarrow> u32 \<Rightarrow> u32 \<Rightarrow> u32 \<Rightarrow> private_handle_t \<Rightarrow> 'q comp \<Rightarrow> (OMX_ERRORTYPE \<times> u32) \<times> 'q comp" where
  "use_android_native_buffer_internal E app p bytes nh c =
     (let q = m_port c p; buf_size = DEFAULT_FRAME_SIZE (nh_stride nh) (pic_height c) in
      if ion_phy_addr nh = 0 \<or> ion_metadata_phy_addr nh = 0 then ((OMX_ErrorBadParameter, 0), c)
      else if bytes \<noteq> buffer_size q then ((OMX_ErrorBadParameter, 0), c)
      else if nh_stride nh \<noteq> pic_stride c then ((OMX_ErrorBadParameter, 0), c)
      else if max_count q \<le> m_cur_buf_num q then ((OMX_ErrorInsufficientResources, 0), c)
      else let i = m_cur_buf_num q in
      if nh_base nh = 0 then ((OMX_ErrorUndefined, 0), c)
      else case malloc_hdr E of None \<Rightarrow> ((OMX_ErrorInsufficientResources, 0), c)
      | Some a \<Rightarrow>
        if \<not> malloc_desc_ok E then ((OMX_ErrorInsufficientResources, 0), c)
        else let d0 = zero_desc\<lparr>dir := port_dir_of p, bufferaddr := nh_base nh, phyaddr := ion_phy_addr nh,
                   buffer_len := buf_size, d_client_data := a,
                   out_frame := (out_frame zero_desc)\<lparr>stride := nh_stride nh\<rparr>, buffer_type := OMX_USE_NATIVE\<rparr>;
                 d = (if ion_metadata_phy_addr nh \<noteq> - 1 \<and> ion_metadata_phy_addr nh \<noteq> 0
                      then d0\<lparr>private_phyaddr := ion_metadata_phy_addr nh + priv_data_start_pos nh,
                              d_private_len := ion_metadata_size nh - priv_data_start_pos nh\<rparr>
                      else d0\<lparr>private_phyaddr := - 1, d_private_len := 0\<rparr>);
                 (ok, c1) = drv E (CHANNEL_BIND_BUFFER d) c in
             if \<not> ok then ((OMX_ErrorUndefined, 0), c1)
             else ((OMX_ErrorNone, a), init_bufhead p i a (nh_address nh) buf_size app d c1))"

definition use_buffer_internal ::
  "comp_env \<Rightarrow> u32 \<Rightarrow> u32 \<Rightarrow> u32 \<Rightarrow> u32 \<Rightarrow> 'q comp \<Rightarrow> (OMX_ERRORTYPE \<times> u32) \<times> 'q comp" where
  "use_buffer_internal E app p bytes buffer c =
     (let q = m_port c p in
      if buffer = 0 then ((OMX_ErrorBadParameter, 0), c)
      else if bytes \<noteq> buffer_size q then ((OMX_ErrorBadParameter, 0), c)
      else if max_count q \<le> m_cur_buf_num q then ((OMX_ErrorInsufficientResources, 0), c)
      else let i = m_cur_buf_num q in
      case HI_MMZ_GetPhyaddr E buffer of None \<Rightarrow> ((OMX_ErrorHardware, 0), c)
      | Some phy \<Rightarrow>
       (case malloc_hdr E of None \<Rightarrow> ((OMX_ErrorInsufficientResources, 0), c)
        | Some a \<Rightarrow>
          if \<not> malloc_desc_ok E then ((OMX_ErrorInsufficientResources, 0), c)
          else let d = zero_desc\<lparr>dir := port_dir_of p, bufferaddr := buffer, phyaddr := phy,
                     buffer_len := bytes, d_client_data := a, buffer_type := OMX_USE_OTHER\<rparr>;
                   (ok, c1) = drv E (CHANNEL_BIND_BUFFER d) c in
               if \<not> ok then ((OMX_ErrorUndefined, 0), c1)
               else ((OMX_ErrorNone, a), init_bufhead p i a buffer bytes app d c1)))"

definition allocate_buffer_internal ::
  "comp_env \<Rightarrow> u32 \<Rightarrow> u32 \<Rightarrow> u32 \<Rightarrow> 'q comp \<Rightarrow> (OMX_ERRORTYPE \<times> u32) \<times> 'q comp" where
  "allocate_buffer_internal E app p bytes c =
     (let q = m_port c p in
      if bytes \<noteq> buffer_size q then ((OMX_ErrorBadParameter, 0), c)
      else if max_count q \<le> m_cur_buf_num q then ((OMX_ErrorInsufficientResources, 0), c)
      else let i = m_cur_buf_num q in
      case malloc_hdr E of None \<Rightarrow> ((OMX_ErrorInsufficientResources, 0), c)
      | Some a \<Rightarrow>
        if \<not> malloc_desc_ok E then ((OMX_ErrorInsufficientResources, 0), c)
        else case alloc_contigous E of None \<Rightarrow> ((OMX_ErrorUndefined, 0), c)
        | Some (phy, addr, len) \<Rightarrow>
          (let d = zero_desc\<lparr>dir := port_dir_of p, d_client_data := a,
                 out_frame := (out_frame zero_desc)\<lparr>stride := pic_stride c\<rparr>, buffer_type := OMX_ALLOCATE_USR,
                 phyaddr := phy, bufferaddr := addr, buffer_len := len\<rparr>;
               (ok, c1) = drv E (CHANNEL_BIND_BUFFER d) c in
           if \<not> ok then ((OMX_ErrorUndefined, 0), snd (drv E (FREE_CONTIGOUS_BUFFER d) c1))
           else ((OMX_ErrorNone, a), init_bufhead p i a addr len app d c1)))"

text \<open>
  \<open>free_buffer_internal\<close>. A header found in the table was not freed before; if it was, or has no
  descriptor, the accesses through it are wild.
\<close>

definition release_desc :: "comp_env \<Rightarrow> OMXVDEC_BUF_DESC \<Rightarrow> 'q comp \<Rightarrow> 'q comp" where
  "release_desc E d c =
     (let c1 = snd (drv E (CHANNEL_UNBIND_BUFFER d) c) in
      if buffer_type d = OMX_ALLOCATE_USR then snd (drv E (FREE_CONTIGOUS_BUFFER d) c1) else c1)"

definition port_private :: "u32 \<Rightarrow> OMX_BUFFERHEADERTYPE \<Rightarrow> OMXVDEC_BUF_DESC option" where
  "port_private p h = (if p = OUTPUT_PORT_INDEX then pOutputPortPrivate h else pInputPortPrivate h)"

definition free_buffer_internal :: "comp_env \<Rightarrow> u32 \<Rightarrow> u32 \<Rightarrow> 'q comp \<Rightarrow> OMX_ERRORTYPE \<times> 'q comp" where
  "free_buffer_internal E p b c =
     (if b = 0 then (OMX_ErrorNone, c)
      else case find_bufhead (m_port c p) b of None \<Rightarrow> (OMX_ErrorBadParameter, c)
      | Some i \<Rightarrow>
        (let c1 = (case Option.bind (hdrs c b) (port_private p) of None \<Rightarrow> c\<lparr>wild := True\<rparr>
                   | Some d \<Rightarrow> release_desc E d c) in
         (OMX_ErrorNone,
          m_port_update p (\<lambda>q. q\<lparr>m_port_populated := False, m_omx_bufhead := (m_omx_bufhead q)[i := 0],
              m_cur_buf_num := m_cur_buf_num q - 1\<rparr>)
            (c1\<lparr>hdrs := (hdrs c1)(b := None)\<rparr>))))"

section \<open>Flushing, returning and submitting buffers\<close>

definition flushing :: "port_sel \<Rightarrow> 'q comp \<Rightarrow> 'q comp" where
  "flushing s c =
     (let c1 = (if s = PORT INPUT_PORT_INDEX \<or> s = OMX_ALL then c\<lparr>m_inport := (m_inport c)\<lparr>m_port_flushing := True\<rparr>\<rparr> else c) in
      if s = PORT OUTPUT_PORT_INDEX \<or> s = OMX_ALL then c1\<lparr>m_outport := (m_outport c1)\<lparr>m_port_flushing := True\<rparr>\<rparr> else c1)"

fun bad_port :: "port_sel \<Rightarrow> bool" where
  "bad_port (PORT p) = (p > OUTPUT_PORT_INDEX)"
| "bad_port OMX_ALL = False"

definition omx_flush_port :: "comp_env \<Rightarrow> port_sel \<Rightarrow> 'q comp \<Rightarrow> OMX_ERRORTYPE \<times> 'q comp" where
  "omx_flush_port E s c =
     (if bad_port s then (OMX_ErrorUndefined, c)
      else let (ok, c1) = drv E (CHANNEL_FLUSH_PORT s) (flushing s c) in
        if \<not> ok then (OMX_ErrorHardware, omx_report_error OMX_ErrorHardware c1) else (OMX_ErrorNone, c1))"

text \<open>
  Emptying a queue. The loop ends when the queue says that its size is zero; a queue that never does
  gives \<open>None\<close>.
\<close>

fun event_buffer :: "event \<Rightarrow> u32" where
  "event_buffer (Ftb b) = b"
| "event_buffer (Etb b) = b"
| "event_buffer (Ebd b _) = b"
| "event_buffer (Fbd b _) = b"
| "event_buffer _ = 0"

partial_function (option) drain_queue ::
  "'q comp_platform \<Rightarrow> qclass \<Rightarrow> (u32 \<Rightarrow> 'q comp \<Rightarrow> OMX_ERRORTYPE \<times> 'q comp) \<Rightarrow> 'q comp \<Rightarrow> 'q comp option" where
  "drain_queue P k give c =
     (if get_q_size P (the_queue k c) > 0
      then let (e, q) = pop_entry P (the_queue k c) in
           drain_queue P k give (snd (give (event_buffer e) (set_queue k q c)))
      else Some c)"

declare drain_queue.simps [code]

definition return_outbuffers :: "'q comp_platform \<Rightarrow> comp_env \<Rightarrow> 'q comp \<Rightarrow> 'q comp option" where
  "return_outbuffers P E = drain_queue P FTBQ (fill_buffer_done E)"

definition return_inbuffers :: "'q comp_platform \<Rightarrow> comp_env \<Rightarrow> 'q comp \<Rightarrow> 'q comp option" where
  "return_inbuffers P E = drain_queue P ETBQ (empty_buffer_done E)"

definition MAX_SUPPORT_WIDTH :: u32 where "MAX_SUPPORT_WIDTH = 4096"
definition MAX_SUPPORT_HEIGHT :: u32 where "MAX_SUPPORT_HEIGHT = 2304"

definition update_picture_info :: "u32 \<Rightarrow> u32 \<Rightarrow> u32 \<Rightarrow> 'q comp \<Rightarrow> OMX_ERRORTYPE \<times> 'q comp" where
  "update_picture_info w h s c =
     (if w > MAX_SUPPORT_WIDTH \<or> h > MAX_SUPPORT_HEIGHT then (OMX_ErrorUnsupportedSetting, c)
      else (OMX_ErrorNone, c\<lparr>pic_stride := s, pic_scan_lines := h, pic_width := w, pic_height := h,
              m_outport := (m_outport c)\<lparr>buffer_size := DEFAULT_FRAME_SIZE s h\<rparr>\<rparr>))"

definition empty_this_buffer_proxy :: "'q comp_platform \<Rightarrow> comp_env \<Rightarrow> u32 \<Rightarrow> 'q comp \<Rightarrow> OMX_ERRORTYPE \<times> 'q comp" where
  "empty_this_buffer_proxy P E b c =
     (if b = 0 then (OMX_ErrorBadParameter, c)
      else if m_port_flushing (m_inport c) \<or> m_port_reconfig (m_inport c)
      then (OMX_ErrorNone, post P E (Ebd b VDEC_S_SUCCESS) (write_hdr b (\<lambda>h. h\<lparr>nFilledLen := 0\<rparr>) c))
      else case hdrs c b of None \<Rightarrow> (OMX_ErrorUndefined, c\<lparr>wild := True\<rparr>)
      | Some h \<Rightarrow>
       (case pInputPortPrivate h of
          None \<Rightarrow> (OMX_ErrorUndefined, post P E (Ebd b VDEC_S_FAILED) c)
        | Some d0 \<Rightarrow>
         (let d = d0\<lparr>data_len := nFilledLen h, data_offset := nOffset h, timestamp := nTimeStamp h, d_flags := nFlags h\<rparr>;
              (ok, c1) = drv E (CHANNEL_SUBMIT_STREAM d) (write_hdr b (\<lambda>h. h\<lparr>pInputPortPrivate := Some d\<rparr>) c) in
          if \<not> ok then (OMX_ErrorUndefined, post P E (Ebd b VDEC_S_FAILED) c1) else (OMX_ErrorNone, c1))))"

definition fill_this_buffer_proxy :: "'q comp_platform \<Rightarrow> comp_env \<Rightarrow> u32 \<Rightarrow> 'q comp \<Rightarrow> OMX_ERRORTYPE \<times> 'q comp" where
  "fill_this_buffer_proxy P E b c =
     (if b = 0 then (OMX_ErrorBadParameter, c)
      else if m_port_flushing (m_outport c) \<or> m_port_reconfig (m_outport c)
      then (OMX_ErrorNone, post P E (Fbd b VDEC_S_SUCCESS) (write_hdr b (\<lambda>h. h\<lparr>nFilledLen := 0\<rparr>) c))
      else case hdrs c b of None \<Rightarrow> (OMX_ErrorUndefined, c\<lparr>wild := True\<rparr>)
      | Some h \<Rightarrow>
       (case pOutputPortPrivate h of
          None \<Rightarrow> (OMX_ErrorUndefined, post P E (Fbd b VDEC_S_FAILED) c)
        | Some d0 \<Rightarrow>
         (let d = d0\<lparr>data_len := 0, data_offset := nOffset h\<rparr>;
              (ok, c1) = drv E (CHANNEL_SUBMIT_FRAME d) (write_hdr b (\<lambda>h. h\<lparr>pOutputPortPrivate := Some d\<rparr>) c) in
          if \<not> ok then (OMX_ErrorHardware, c1) else (OMX_ErrorNone, c1))))"

section \<open>Messages of the driver\<close>

text \<open>A message that the driver of this repository posts, or one of the codes that only the component knows.\<close>

datatype vdec_msg = Posted msg | Hw_Error_Msg | Alloc_Fail_Msg | Unknown_Msg

definition input_done_msg :: "'q comp_platform \<Rightarrow> comp_env \<Rightarrow> OMXVDEC_BUF_DESC \<Rightarrow> 'q comp \<Rightarrow> 'q comp" where
  "input_done_msg P E d c =
     (let b = d_client_data d in
      if b = 0 then post P E (Ebd 0 VDEC_S_FAILED) c
      else case find_bufhead (m_inport c) b of
        None \<Rightarrow> post P E (Ebd 0 VDEC_S_FAILED) c
      | Some i \<Rightarrow> post P E (Ebd b VDEC_S_SUCCESS) c)"

text \<open>
  The distance between two pictures in microseconds, \<open>(OMX_S64)(1e6 / m_frame_rate)\<close>. For a rate above
  zero the quotient is cut off to a whole number, and for the rates in question the
  rounding of the division does not reach the next one; for rate 0 the conversion of an infinity has no
  defined result.
\<close>

definition frame_interval :: "u32 \<Rightarrow> s64 option" where
  "frame_interval rate = (if rate = 0 then None else Some (of_nat (1000000 div unat rate)))"

definition output_stamp :: "OMXVDEC_BUF_DESC \<Rightarrow> u32 \<Rightarrow> s64 \<Rightarrow> 'q comp \<Rightarrow> 'q comp" where
  "output_stamp d b dist c =
     (let ts = (if sint (timestamp d) < 0 then m_pre_timestamp c + dist else timestamp d);
          c1 = write_hdr b (\<lambda>h. h\<lparr>nFilledLen := data_len d, nFlags := d_flags d, nTimeStamp := ts\<rparr>) c in
      c1\<lparr>m_pre_timestamp := (if ts = 0 \<and> d_flags d = 0 then - 1 else ts)\<rparr>)"

definition output_done_msg :: "'q comp_platform \<Rightarrow> comp_env \<Rightarrow> OMXVDEC_BUF_DESC \<Rightarrow> 'q comp \<Rightarrow> 'q comp" where
  "output_done_msg P E d0 c =
     (let d = (if m_port_flushing (m_outport c) then d0\<lparr>data_len := 0\<rparr> else d0); b = d_client_data d in
      if b = 0 then post P E (Fbd 0 VDEC_S_FAILED) c
      else let c1 = c\<lparr>m_frame_rate := d_u32FrameRate d\<rparr> in
      case find_bufhead (m_outport c1) b of
        None \<Rightarrow> post P E (Fbd 0 VDEC_S_FAILED) c1
      | Some i \<Rightarrow>
        (let c2 = (case frame_interval (m_frame_rate c1) of
                     None \<Rightarrow> output_stamp d b 0 (c1\<lparr>wild := True\<rparr>)
                   | Some dist \<Rightarrow> output_stamp d b dist c1);
             c3 = post P E (Fbd b VDEC_S_SUCCESS) c2 in
         if d_flags d AND OMX_BUFFERFLAG_EOS P \<noteq> 0 then post P E Eos_Done c3 else c3))"

definition img_size_msg :: "'q comp_platform \<Rightarrow> comp_env \<Rightarrow> u32 \<Rightarrow> u32 \<Rightarrow> u32 \<Rightarrow> 'q comp \<Rightarrow> 'q comp" where
  "img_size_msg P E w h s c =
     (if w \<noteq> pic_width c \<or> h \<noteq> pic_height c \<or> s \<noteq> pic_stride c
      then post P E Image_Size_Change (snd (update_picture_info w h s c)) else c)"

text \<open>\<open>message_process\<close>. Reading a member of the union that the driver did not write is wild.\<close>

fun message_process :: "'q comp_platform \<Rightarrow> comp_env \<Rightarrow> vdec_msg \<Rightarrow> 'q comp \<Rightarrow> 'q comp" where
  "message_process P E (Posted (Msg code st data)) c =
     (case code of
        VDEC_MSG_RESP_FLUSH_INPUT_DONE \<Rightarrow> post P E (Flush_Input_Done st) c
      | VDEC_MSG_RESP_FLUSH_OUTPUT_DONE \<Rightarrow> post P E (Flush_Output_Done st) c
      | VDEC_MSG_RESP_START_DONE \<Rightarrow> post P E (Start_Done st) c
      | VDEC_MSG_RESP_STOP_DONE \<Rightarrow> post P E (Stop_Done st) c
      | VDEC_MSG_RESP_PAUSE_DONE \<Rightarrow> post P E (Pause_Done st) c
      | VDEC_MSG_RESP_RESUME_DONE \<Rightarrow> post P E (Resume_Done st) c
      | VDEC_MSG_RESP_INPUT_DONE \<Rightarrow>
          (case data of BUF_DATA d \<Rightarrow> input_done_msg P E d c | _ \<Rightarrow> c\<lparr>wild := True\<rparr>)
      | VDEC_MSG_RESP_OUTPUT_DONE \<Rightarrow>
          (case data of BUF_DATA d \<Rightarrow> output_done_msg P E d c | _ \<Rightarrow> c\<lparr>wild := True\<rparr>)
      | VDEC_EVT_REPORT_IMG_SIZE_CHG \<Rightarrow>
          (case data of IMG_SIZE w h s \<Rightarrow> img_size_msg P E w h s c | _ \<Rightarrow> c\<lparr>wild := True\<rparr>))"
| "message_process P E Hw_Error_Msg c = post P E Hardware_Error c"
| "message_process P E Alloc_Fail_Msg c = post P E Dynamic_Alloc_Error c"
| "message_process P E Unknown_Msg c = c"

section \<open>Commands\<close>

definition cmd_complete :: "OMX_COMMANDTYPE \<Rightarrow> 'q comp \<Rightarrow> 'q comp" where
  "cmd_complete k = omx_report_event (OMX_EventCmdComplete k)"

text \<open>A transition that is complete: the bit is cleared, the state set and the client told.\<close>

definition enter_state :: "OMX_STATETYPE \<Rightarrow> flags_bit \<Rightarrow> 'q comp \<Rightarrow> 'q comp" where
  "enter_state s b c = cmd_complete (OMX_CommandStateSet s) ((clear_pending b c)\<lparr>m_state := s\<rparr>)"

fun generate_command_done :: "OMX_COMMANDTYPE \<Rightarrow> 'q comp \<Rightarrow> 'q comp" where
  "generate_command_done (OMX_CommandStateSet s) c =
     (if \<not> m_cb c then c else cmd_complete (OMX_CommandStateSet s) (c\<lparr>m_state := s\<rparr>))"
| "generate_command_done (OMX_CommandPortEnable p) c =
     (if \<not> m_cb c then c
      else cmd_complete (OMX_CommandPortEnable p) (c\<lparr>m_outport := (m_outport c)\<lparr>m_port_reconfig := False\<rparr>\<rparr>))"
| "generate_command_done (OMX_CommandPortDisable p) c =
     (if \<not> m_cb c then c else cmd_complete (OMX_CommandPortDisable p) c)"
| "generate_command_done _ c = c"

text \<open>
  \<open>handle_command_state_set\<close>. The result of one of the transitions is the error with \<open>flag\<close>, which is
  false when the completion is left to a later event. \<open>sem\<close> is \<open>*sem_posted\<close>.
\<close>

definition sem_post :: "'q comp \<Rightarrow> 'q comp" where
  "sem_post c = c\<lparr>m_cmd_lock := m_cmd_lock c + 1\<rparr>"

definition loaded_to_idle :: "comp_env \<Rightarrow> 'q comp \<Rightarrow> (OMX_ERRORTYPE \<times> bool) \<times> 'q comp" where
  "loaded_to_idle E c =
     (let (ok, c1) = (if chan_handle c = - 1
            then (let (r, c1) = drv E CHANNEL_CREATE c in (r, if r then c1\<lparr>chan_handle := new_handle E\<rparr> else c1))
            else (True, c)) in
      if \<not> ok then ((OMX_ErrorHardware, True), c1)
      else let c2 = (if msg_thread_id c1 = 0 then c1\<lparr>msg_thread_id := new_thread_id E\<rparr> else c1) in
        if ports_all_full c2 \<or> (\<not> m_port_enabled (m_inport c2) \<and> \<not> m_port_enabled (m_outport c2))
        then ((OMX_ErrorNone, True), c2)
        else ((OMX_ErrorNone, False), set_pending OMX_STATE_IDLE_PENDING c2))"

definition ask_driver :: "comp_env \<Rightarrow> drv_call \<Rightarrow> flags_bit \<Rightarrow> 'q comp \<Rightarrow> (OMX_ERRORTYPE \<times> bool) \<times> 'q comp" where
  "ask_driver E d b c = (let (ok, c1) = drv E d c in
     if \<not> ok then ((OMX_ErrorHardware, True), c1) else ((OMX_ErrorNone, False), set_pending b c1))"

text \<open>Leaving Executing or Pause for Idle also posts the semaphore early and flushes both ports.\<close>

definition stop_to_idle :: "comp_env \<Rightarrow> bool \<Rightarrow> 'q comp \<Rightarrow> (OMX_ERRORTYPE \<times> bool) \<times> bool \<times> 'q comp" where
  "stop_to_idle E sem c =
     (let (r, c1) = ask_driver E CHANNEL_STOP OMX_STATE_IDLE_PENDING c in
      if snd r then (r, sem, c1)
      else if \<not> sem then (r, True, snd (omx_flush_port E OMX_ALL (sem_post c1)))
      else (r, sem, c1))"

fun refused_state :: "OMX_STATETYPE \<Rightarrow> OMX_STATETYPE \<Rightarrow> OMX_ERRORTYPE" where
  "refused_state cur s =
     (if s = cur then OMX_ErrorSameState
      else if s = OMX_StateInvalid \<or> (cur = OMX_StateWaitForResources \<and> s = OMX_StateIdle)
      then (if cur = OMX_StateLoaded then OMX_ErrorUndefined else OMX_ErrorBadParameter)
      else OMX_ErrorIncorrectStateTransition)"

definition state_transition ::
  "comp_env \<Rightarrow> OMX_STATETYPE \<Rightarrow> bool \<Rightarrow> 'q comp \<Rightarrow> (OMX_ERRORTYPE \<times> bool) \<times> bool \<times> 'q comp" where
  "state_transition E s sem c =
     (let keep = (\<lambda>(r, c'). (r, sem, c')) in
      case m_state c of
        OMX_StateLoaded \<Rightarrow>
          (if s = OMX_StateIdle then keep (loaded_to_idle E c)
           else if s = OMX_StateWaitForResources then ((OMX_ErrorNone, True), sem, c)
           else ((refused_state OMX_StateLoaded s, True), sem, c))
      | OMX_StateIdle \<Rightarrow>
          (if s = OMX_StateLoaded
           then (if ports_all_empty c then ((OMX_ErrorNone, True), sem, c)
                 else ((OMX_ErrorNone, False), sem, set_pending OMX_STATE_LOADING_PENDING c))
           else if s = OMX_StateExecuting then keep (ask_driver E CHANNEL_START OMX_STATE_EXECUTE_PENDING c)
           else if s = OMX_StatePause then ((OMX_ErrorNone, False), sem, set_pending OMX_STATE_PAUSE_PENDING c)
           else ((refused_state OMX_StateIdle s, True), sem, c))
      | OMX_StateExecuting \<Rightarrow>
          (if s = OMX_StateIdle then stop_to_idle E sem c
           else if s = OMX_StatePause then keep (ask_driver E CHANNEL_PAUSE OMX_STATE_PAUSE_PENDING c)
           else ((refused_state OMX_StateExecuting s, True), sem, c))
      | OMX_StatePause \<Rightarrow>
          (if s = OMX_StateExecuting then keep (ask_driver E CHANNEL_RESUME OMX_STATE_EXECUTE_PENDING c)
           else if s = OMX_StateIdle then stop_to_idle E sem c
           else ((refused_state OMX_StatePause s, True), sem, c))
      | OMX_StateWaitForResources \<Rightarrow>
          (if s = OMX_StateLoaded then ((OMX_ErrorNone, True), sem, c)
           else ((refused_state OMX_StateWaitForResources s, True), sem, c))
      | OMX_StateInvalid \<Rightarrow> ((OMX_ErrorNone, True), sem, c))"

definition handle_command_state_set ::
  "'q comp_platform \<Rightarrow> comp_env \<Rightarrow> OMX_STATETYPE \<Rightarrow> bool \<Rightarrow> 'q comp \<Rightarrow> OMX_ERRORTYPE \<times> bool \<times> 'q comp" where
  "handle_command_state_set P E s sem c =
     (let ((r, flag), sem', c1) = state_transition E s sem c in
      (r, sem',
       if \<not> flag then c1
       else if r \<noteq> OMX_ErrorNone then omx_report_error r c1
       else post P E (Cmd_Done (OMX_CommandStateSet s)) c1))"

definition handle_command_flush :: "comp_env \<Rightarrow> port_sel \<Rightarrow> 'q comp \<Rightarrow> OMX_ERRORTYPE \<times> 'q comp" where
  "handle_command_flush E s c =
     (if bad_port s then (OMX_ErrorBadPortIndex, c)
      else let c1 = (if s = PORT INPUT_PORT_INDEX \<or> s = OMX_ALL then set_pending OMX_STATE_INPUT_FLUSH_PENDING c else c);
               c2 = (if s = PORT OUTPUT_PORT_INDEX \<or> s = OMX_ALL then set_pending OMX_STATE_OUTPUT_FLUSH_PENDING c1 else c1);
               (ok, c3) = drv E (CHANNEL_FLUSH_PORT s) (flushing s c2) in
           if \<not> ok then (OMX_ErrorHardware, omx_report_error OMX_ErrorHardware c3) else (OMX_ErrorNone, c3))"

text \<open>
  Disabling and enabling one port; \<open>b\<close> is the port's pending bit. The function of the source does the
  input port, then the output port, with the result of the one that was done last.
\<close>

definition disable_one ::
  "'q comp_platform \<Rightarrow> comp_env \<Rightarrow> u32 \<Rightarrow> flags_bit \<Rightarrow> OMX_ERRORTYPE \<times> bool \<times> 'q comp \<Rightarrow> OMX_ERRORTYPE \<times> bool \<times> 'q comp" where
  "disable_one P E p b rsc =
     (let (r, sem, c) = rsc in
      if m_port_enabled (m_port c p)
      then let c1 = m_port_update p (\<lambda>q. q\<lparr>m_port_enabled := False\<rparr>) c in
           if comp_port_empty c1 p
           then (r, sem, if r = OMX_ErrorNone then post P E (Cmd_Done (OMX_CommandPortDisable (PORT p))) c1 else c1)
           else let c2 = set_pending b c1 in
             if m_state c2 = OMX_StatePause \<or> m_state c2 = OMX_StateExecuting
             then (let (r', c3) = omx_flush_port E (PORT p) (if sem then c2 else sem_post c2) in (r', True, c3))
             else (r, sem, c2)
      else (OMX_ErrorNone, sem, post P E (Cmd_Done (OMX_CommandPortDisable (PORT p))) c))"

definition handle_command_port_disable ::
  "'q comp_platform \<Rightarrow> comp_env \<Rightarrow> port_sel \<Rightarrow> bool \<Rightarrow> 'q comp \<Rightarrow> OMX_ERRORTYPE \<times> bool \<times> 'q comp" where
  "handle_command_port_disable P E s sem c =
     (let x = (OMX_ErrorNone, sem, c);
          x1 = (if s = PORT INPUT_PORT_INDEX \<or> s = OMX_ALL
                then disable_one P E INPUT_PORT_INDEX OMX_STATE_INPUT_DISABLE_PENDING x else x) in
      if s = PORT OUTPUT_PORT_INDEX \<or> s = OMX_ALL
      then disable_one P E OUTPUT_PORT_INDEX OMX_STATE_OUTPUT_DISABLE_PENDING x1 else x1)"

definition enable_one :: "'q comp_platform \<Rightarrow> comp_env \<Rightarrow> u32 \<Rightarrow> flags_bit \<Rightarrow> 'q comp \<Rightarrow> 'q comp" where
  "enable_one P E p b c =
     (if m_port_enabled (m_port c p) then post P E (Cmd_Done (OMX_CommandPortEnable (PORT p))) c
      else let c1 = m_port_update p (\<lambda>q. q\<lparr>m_port_enabled := True\<rparr>) c in
        if comp_port_full c1 p then post P E (Cmd_Done (OMX_CommandPortEnable (PORT p))) c1
        else set_pending b c1)"

definition handle_command_port_enable :: "'q comp_platform \<Rightarrow> comp_env \<Rightarrow> port_sel \<Rightarrow> 'q comp \<Rightarrow> 'q comp" where
  "handle_command_port_enable P E s c =
     (let c1 = (if s = PORT INPUT_PORT_INDEX \<or> s = OMX_ALL
                then enable_one P E INPUT_PORT_INDEX OMX_STATE_INPUT_ENABLE_PENDING c else c) in
      if s = PORT OUTPUT_PORT_INDEX \<or> s = OMX_ALL
      then enable_one P E OUTPUT_PORT_INDEX OMX_STATE_OUTPUT_ENABLE_PENDING c1 else c1)"

fun send_command_proxy :: "'q comp_platform \<Rightarrow> comp_env \<Rightarrow> OMX_COMMANDTYPE \<Rightarrow> 'q comp \<Rightarrow> 'q comp" where
  "send_command_proxy P E (OMX_CommandStateSet s) c =
     (let (r, sem, c1) = handle_command_state_set P E s False c in if sem then c1 else sem_post c1)"
| "send_command_proxy P E (OMX_CommandFlush s) c = sem_post (snd (handle_command_flush E s c))"
| "send_command_proxy P E (OMX_CommandPortEnable s) c = sem_post (handle_command_port_enable P E s c)"
| "send_command_proxy P E (OMX_CommandPortDisable s) c =
     (let (r, sem, c1) = handle_command_port_disable P E s False c in if sem then c1 else sem_post c1)"
| "send_command_proxy P E (OMX_CommandOther n) c = sem_post c"

section \<open>The event thread\<close>

text \<open>The completion of a flush or a stop on the way to Idle, once no port is flushing.\<close>

definition idle_if_pending :: "bool \<Rightarrow> 'q comp \<Rightarrow> 'q comp" where
  "idle_if_pending quiet c =
     (if quiet \<and> pending c OMX_STATE_IDLE_PENDING then enter_state OMX_StateIdle OMX_STATE_IDLE_PENDING c else c)"

definition flush_complete :: "flags_bit \<Rightarrow> u32 \<Rightarrow> 'q comp \<Rightarrow> 'q comp" where
  "flush_complete b p c =
     (if pending c b then cmd_complete (OMX_CommandFlush (PORT p)) (clear_pending b c) else c)"

definition flush_input_done :: "'q comp_platform \<Rightarrow> comp_env \<Rightarrow> u32 \<Rightarrow> 'q comp \<Rightarrow> 'q comp option" where
  "flush_input_done P E st c =
     (if \<not> m_port_flushing (m_inport c) then Some c
      else map_option (\<lambda>c1.
        if st \<noteq> VDEC_S_SUCCESS then omx_report_error OMX_ErrorHardware c1
        else let c2 = flush_complete OMX_STATE_INPUT_FLUSH_PENDING INPUT_PORT_INDEX c1 in
          idle_if_pending (\<not> m_port_flushing (m_outport c2)) c2)
        (return_inbuffers P E (c\<lparr>m_inport := (m_inport c)\<lparr>m_port_flushing := False\<rparr>\<rparr>)))"

definition flush_output_done :: "'q comp_platform \<Rightarrow> comp_env \<Rightarrow> u32 \<Rightarrow> 'q comp \<Rightarrow> 'q comp option" where
  "flush_output_done P E st c =
     (if \<not> m_port_flushing (m_outport c) then Some c
      else map_option (\<lambda>c1.
        if st \<noteq> VDEC_S_SUCCESS then omx_report_error OMX_ErrorHardware c1
        else let c2 = flush_complete OMX_STATE_OUTPUT_FLUSH_PENDING OUTPUT_PORT_INDEX c1 in
          idle_if_pending (\<not> m_port_flushing (m_inport c2)) c2)
        (return_outbuffers P E (c\<lparr>m_outport := (m_outport c)\<lparr>m_port_flushing := False\<rparr>\<rparr>)))"

definition start_done :: "comp_env \<Rightarrow> u32 \<Rightarrow> 'q comp \<Rightarrow> 'q comp" where
  "start_done E st c =
     (if st \<noteq> VDEC_S_SUCCESS then omx_report_error OMX_ErrorHardware c
      else let c1 = (if pending c OMX_STATE_EXECUTE_PENDING
                     then enter_state OMX_StateExecuting OMX_STATE_EXECUTE_PENDING c else c) in
        if pending c1 OMX_STATE_PAUSE_PENDING
        then (let (ok, c2) = drv E CHANNEL_PAUSE c1 in if \<not> ok then omx_report_error OMX_ErrorHardware c2 else c2)
        else c1)"

definition transition_done :: "OMX_STATETYPE \<Rightarrow> flags_bit \<Rightarrow> u32 \<Rightarrow> 'q comp \<Rightarrow> 'q comp" where
  "transition_done s b st c =
     (if st \<noteq> VDEC_S_SUCCESS then omx_report_error OMX_ErrorHardware c
      else if pending c b then enter_state s b c else c)"

definition stop_done :: "'q comp_platform \<Rightarrow> comp_env \<Rightarrow> u32 \<Rightarrow> 'q comp \<Rightarrow> 'q comp option" where
  "stop_done P E st c =
     (if st \<noteq> VDEC_S_SUCCESS then Some (omx_report_error OMX_ErrorHardware c)
      else map_option (\<lambda>c1. idle_if_pending (\<not> m_port_flushing (m_inport c1) \<and> \<not> m_port_flushing (m_outport c1)) c1)
        (Option.bind (return_outbuffers P E c) (return_inbuffers P E)))"

definition buffer_done_event ::
  "(u32 \<Rightarrow> 'q comp \<Rightarrow> OMX_ERRORTYPE \<times> 'q comp) \<Rightarrow> u32 \<Rightarrow> u32 \<Rightarrow> 'q comp \<Rightarrow> 'q comp" where
  "buffer_done_event give b st c =
     (if st \<noteq> VDEC_S_SUCCESS then omx_report_error OMX_ErrorUndefined c
      else let (r, c1) = give b c in if r \<noteq> OMX_ErrorNone then omx_report_error r c1 else c1)"

text \<open>The \<open>switch\<close> of \<open>event_process\<close>, on the entry that was taken from the queue.\<close>

fun process_entry :: "'q comp_platform \<Rightarrow> comp_env \<Rightarrow> event \<Rightarrow> 'q comp \<Rightarrow> 'q comp option" where
  "process_entry P E (Cmd_Done k) c = Some (generate_command_done k c)"
| "process_entry P E (Etb b) c = Some (snd (empty_this_buffer_proxy P E b c))"
| "process_entry P E (Ftb b) c = Some (snd (fill_this_buffer_proxy P E b c))"
| "process_entry P E (Cmd k) c = Some (send_command_proxy P E k c)"
| "process_entry P E (Ebd b st) c = Some (buffer_done_event (empty_buffer_done E) b st c)"
| "process_entry P E (Fbd b st) c = Some (buffer_done_event (fill_buffer_done E) b st c)"
| "process_entry P E (Flush_Input_Done st) c = flush_input_done P E st c"
| "process_entry P E (Flush_Output_Done st) c = flush_output_done P E st c"
| "process_entry P E (Start_Done st) c = Some (start_done E st c)"
| "process_entry P E (Pause_Done st) c = Some (transition_done OMX_StatePause OMX_STATE_PAUSE_PENDING st c)"
| "process_entry P E (Resume_Done st) c = Some (transition_done OMX_StateExecuting OMX_STATE_EXECUTE_PENDING st c)"
| "process_entry P E (Stop_Done st) c = stop_done P E st c"
| "process_entry P E Eos_Done c = Some (omx_report_event OMX_EventBufferFlag c)"
| "process_entry P E Image_Size_Change c =
     Some (omx_report_event OMX_EventPortSettingsChanged (c\<lparr>m_outport := (m_outport c)\<lparr>m_port_reconfig := True\<rparr>\<rparr>))"
| "process_entry P E Hardware_Error c = Some (omx_report_error OMX_ErrorHardware c)"
| "process_entry P E Dynamic_Alloc_Error c = Some (omx_report_error OMX_ErrorDynamicResourcesUnavailable c)"

definition event_process :: "'q comp_platform \<Rightarrow> comp_env \<Rightarrow> gen_id \<Rightarrow> 'q comp \<Rightarrow> 'q comp option" where
  "event_process P E i c =
     (let k = queue_of i in
      if get_q_size P (the_queue k c) = 0 then Some c
      else let (e, q) = pop_entry P (the_queue k c); c1 = set_queue k q c in
        if i \<noteq> ident e then Some c1 else process_entry P E e c1)"

text \<open>One round of \<open>event_thread\<close>: a byte is read from the pipe and processed. With an empty pipe it waits.\<close>

definition event_thread_step :: "'q comp_platform \<Rightarrow> comp_env \<Rightarrow> 'q comp \<Rightarrow> 'q comp option" where
  "event_thread_step P E c =
     (case m_pipe c of [] \<Rightarrow> Some c | i # is \<Rightarrow> event_process P E i (c\<lparr>m_pipe := is\<rparr>))"

section \<open>Methods of the component\<close>

text \<open>\<open>send_command\<close> up to the semaphore, and the return of a client that waits for it.\<close>

definition send_command :: "'q comp_platform \<Rightarrow> comp_env \<Rightarrow> OMX_COMMANDTYPE \<Rightarrow> 'q comp \<Rightarrow> 'q comp" where
  "send_command P E k c = (let c1 = post P E (Cmd k) c in c1\<lparr>waiting := waiting c1 + 1\<rparr>)"

definition command_return :: "'q comp \<Rightarrow> 'q comp option" where
  "command_return c = (if 0 < m_cmd_lock c \<and> 0 < waiting c
     then Some (c\<lparr>m_cmd_lock := m_cmd_lock c - 1, waiting := waiting c - 1\<rparr>) else None)"

definition may_add_buffers :: "'q comp \<Rightarrow> bool" where
  "may_add_buffers c \<longleftrightarrow> m_state c = OMX_StateIdle \<or> m_state c = OMX_StateExecuting \<or> m_state c = OMX_StatePause
     \<or> m_state c = OMX_StateLoaded \<and> pending c OMX_STATE_IDLE_PENDING"

definition may_free_buffers :: "'q comp \<Rightarrow> bool" where
  "may_free_buffers c \<longleftrightarrow> m_state c = OMX_StateLoaded \<or> m_state c = OMX_StateExecuting \<or> m_state c = OMX_StatePause
     \<or> m_state c = OMX_StateIdle \<and> pending c OMX_STATE_LOADING_PENDING"

text \<open>A pending bit that is answered by the completion of a command.\<close>

definition answer_pending ::
  "'q comp_platform \<Rightarrow> comp_env \<Rightarrow> flags_bit \<Rightarrow> OMX_COMMANDTYPE \<Rightarrow> 'q comp \<Rightarrow> 'q comp" where
  "answer_pending P E b k c = (if pending c b then post P E (Cmd_Done k) (clear_pending b c) else c)"

definition full_port_answer :: "'q comp_platform \<Rightarrow> comp_env \<Rightarrow> u32 \<Rightarrow> flags_bit \<Rightarrow> u32 \<Rightarrow> 'q comp \<Rightarrow> 'q comp" where
  "full_port_answer P E p b port c =
     (if port = p \<and> comp_port_full c port
      then answer_pending P E b (OMX_CommandPortEnable (PORT p))
             (m_port_update p (\<lambda>q. if m_port_enabled q then q\<lparr>m_port_populated := True\<rparr> else q) c)
      else c)"

definition buffer_added :: "'q comp_platform \<Rightarrow> comp_env \<Rightarrow> u32 \<Rightarrow> 'q comp \<Rightarrow> 'q comp" where
  "buffer_added P E port c =
     (let c1 = full_port_answer P E INPUT_PORT_INDEX OMX_STATE_INPUT_ENABLE_PENDING port c;
          c2 = full_port_answer P E OUTPUT_PORT_INDEX OMX_STATE_OUTPUT_ENABLE_PENDING port c1 in
      if ports_all_full c2 then answer_pending P E OMX_STATE_IDLE_PENDING (OMX_CommandStateSet OMX_StateIdle) c2 else c2)"

definition allocate_buffer ::
  "'q comp_platform \<Rightarrow> comp_env \<Rightarrow> u32 \<Rightarrow> u32 \<Rightarrow> u32 \<Rightarrow> 'q comp \<Rightarrow> (OMX_ERRORTYPE \<times> u32) \<times> 'q comp" where
  "allocate_buffer P E port app bytes c =
     (if port > OUTPUT_PORT_INDEX then ((OMX_ErrorBadPortIndex, 0), c)
      else if \<not> may_add_buffers c then ((OMX_ErrorIncorrectStateOperation, 0), c)
      else let (r, c1) = allocate_buffer_internal E app port bytes c in
        if fst r \<noteq> OMX_ErrorNone then (r, c1) else (r, buffer_added P E port c1))"

text \<open>The buffer that the client brings: plain memory, or the handle of a native buffer.\<close>

datatype client_buffer = Plain u32 | Native private_handle_t

definition use_buffer ::
  "'q comp_platform \<Rightarrow> comp_env \<Rightarrow> u32 \<Rightarrow> u32 \<Rightarrow> u32 \<Rightarrow> client_buffer \<Rightarrow> 'q comp \<Rightarrow> (OMX_ERRORTYPE \<times> u32) \<times> 'q comp" where
  "use_buffer P E port app bytes buf c =
     (if (case buf of Plain a \<Rightarrow> a = 0 | Native nh \<Rightarrow> nh_address nh = 0) then ((OMX_ErrorBadParameter, 0), c)
      else if port > OUTPUT_PORT_INDEX then ((OMX_ErrorBadPortIndex, 0), c)
      else if \<not> may_add_buffers c then ((OMX_ErrorIncorrectStateOperation, 0), c)
      else let (r, c1) =
             (case buf of Plain a \<Rightarrow>
                (if m_use_native_buf c \<and> port = OUTPUT_PORT_INDEX then ((OMX_ErrorUndefined, 0), c\<lparr>wild := True\<rparr>)
                 else use_buffer_internal E app port bytes a c)
              | Native nh \<Rightarrow>
                (if m_use_native_buf c \<and> port = OUTPUT_PORT_INDEX
                 then use_android_native_buffer_internal E app port bytes nh c
                 else use_buffer_internal E app port bytes (nh_address nh) c)) in
        if fst r \<noteq> OMX_ErrorNone then ((OMX_ErrorInsufficientResources, 0), c1)
        else (r, buffer_added P E port c1))"

definition free_buffer ::
  "'q comp_platform \<Rightarrow> comp_env \<Rightarrow> u32 \<Rightarrow> u32 \<Rightarrow> 'q comp \<Rightarrow> OMX_ERRORTYPE \<times> 'q comp" where
  "free_buffer P E port b c =
     (if b = 0 then (OMX_ErrorBadParameter, c)
      else if port > OUTPUT_PORT_INDEX then (OMX_ErrorBadPortIndex, c)
      else if \<not> may_free_buffers c then (OMX_ErrorIncorrectStateOperation, c)
      else let (r, c1) = free_buffer_internal E port b c in
        if r \<noteq> OMX_ErrorNone then (r, c1)
        else let c2 = (if port = INPUT_PORT_INDEX \<and> comp_port_empty c1 port
                 then answer_pending P E OMX_STATE_INPUT_DISABLE_PENDING (OMX_CommandPortDisable (PORT INPUT_PORT_INDEX)) c1 else c1);
               c3 = (if port = OUTPUT_PORT_INDEX \<and> comp_port_empty c2 port
                 then answer_pending P E OMX_STATE_OUTPUT_DISABLE_PENDING (OMX_CommandPortDisable (PORT OUTPUT_PORT_INDEX)) c2 else c2) in
          (r, if ports_all_empty c3
              then answer_pending P E OMX_STATE_LOADING_PENDING (OMX_CommandStateSet OMX_StateLoaded) c3 else c3))"

definition empty_this_buffer :: "'q comp_platform \<Rightarrow> comp_env \<Rightarrow> u32 \<Rightarrow> 'q comp \<Rightarrow> OMX_ERRORTYPE \<times> 'q comp" where
  "empty_this_buffer P E b c =
     (if b = 0 then (OMX_ErrorBadParameter, c)
      else if m_state c \<noteq> OMX_StateExecuting \<and> m_state c \<noteq> OMX_StatePause then (OMX_ErrorIncorrectStateOperation, c)
      else if \<not> m_port_enabled (m_inport c) then (OMX_ErrorIncorrectStateOperation, c)
      else case find_bufhead (m_inport c) b of None \<Rightarrow> (OMX_ErrorBadParameter, c)
      | Some i \<Rightarrow>
       (case hdrs c b of None \<Rightarrow> (OMX_ErrorNone, c\<lparr>wild := True\<rparr>)
        | Some h \<Rightarrow> if nInputPortIndex h \<noteq> INPUT_PORT_INDEX then (OMX_ErrorBadPortIndex, c)
                   else (OMX_ErrorNone, post P E (Etb b) c)))"

definition fill_this_buffer :: "'q comp_platform \<Rightarrow> comp_env \<Rightarrow> u32 \<Rightarrow> 'q comp \<Rightarrow> OMX_ERRORTYPE \<times> 'q comp" where
  "fill_this_buffer P E b c =
     (if b = 0 then (OMX_ErrorBadParameter, c)
      else if m_state c \<noteq> OMX_StateExecuting \<and> m_state c \<noteq> OMX_StatePause then (OMX_ErrorIncorrectStateOperation, c)
      else if \<not> m_port_enabled (m_outport c) then (OMX_ErrorIncorrectStateOperation, c)
      else case find_bufhead (m_outport c) b of None \<Rightarrow> (OMX_ErrorBadParameter, c)
      | Some i \<Rightarrow>
       (case hdrs c b of None \<Rightarrow> (OMX_ErrorNone, c\<lparr>wild := True\<rparr>)
        | Some h \<Rightarrow> if nOutputPortIndex h \<noteq> OUTPUT_PORT_INDEX then (OMX_ErrorBadParameter, c)
                   else (OMX_ErrorNone, post P E (Ftb b) c)))"

text \<open>\<open>set_callbacks\<close> takes all three callbacks or none.\<close>

definition set_callbacks :: "bool \<Rightarrow> bool \<Rightarrow> bool \<Rightarrow> 'q comp \<Rightarrow> OMX_ERRORTYPE \<times> 'q comp" where
  "set_callbacks handler empty_done fill_done c =
     (if handler \<and> empty_done \<and> fill_done then (OMX_ErrorNone, c\<lparr>m_cb := True\<rparr>) else (OMX_ErrorBadParameter, c))"

section \<open>Parameters\<close>

text \<open>
  The definition of a port (\<open>OMX_PARAM_PORTDEFINITIONTYPE\<close>) and the attributes of the channel
  (\<open>OMX_HISI_PARAM_CHANNELATTRIBUTES\<close>), as far as the component reads or writes them.
\<close>

record port_definition =
  nPortIndex :: u32
  nBufferCountActual :: u32
  nBufferCountMin :: u32
  nBufferSize :: u32
  nFrameWidth :: u32
  nFrameHeight :: u32
  nStride :: u32
  nSliceHeight :: u32
  xFramerate :: u32
  bEnabled :: bool
  bPopulated :: bool
  eCompressionFormat :: u32
  eColorFormat :: "OMX_PIX_FORMAT_E option"

record chan_attributes =
  nErrorThreshold :: u32
  nPrior :: u32
  nStreamOverflowThreshold :: u32
  nDecodeMode :: u32
  nPictureOrder :: u32
  nLowdlyEnable :: bool
  attr_xFramerate :: u32

definition set_port_definition :: "'q comp_platform \<Rightarrow> port_definition \<Rightarrow> 'q comp \<Rightarrow> OMX_ERRORTYPE \<times> 'q comp" where
  "set_port_definition P pd c =
     (if nPortIndex pd > OUTPUT_PORT_INDEX then (OMX_ErrorBadPortIndex, c)
      else if unat (nBufferCountActual pd) < min_count (m_port c (nPortIndex pd)) then (OMX_ErrorUndefined, c)
      else let s = (if nFrameWidth pd = 0 then nStride pd
                    else if m_use_native_buf c then HI_SYS_GET_STRIDE P (nFrameWidth pd)
                    else HI_OMX_GET_STRIDE (nFrameWidth pd));
               (r, c1) = update_picture_info (nFrameWidth pd) (nFrameHeight pd) s c in
      if r \<noteq> OMX_ErrorNone then (r, c1)
      else let c2 = (if nPortIndex pd = INPUT_PORT_INDEX
                     then c1\<lparr>m_inport := (m_inport c1)\<lparr>buffer_size := nBufferSize pd\<rparr>\<rparr> else c1) in
      if max_count (m_port c2 (nPortIndex pd)) < unat (nBufferCountActual pd) then (OMX_ErrorUndefined, c2)
      else let c3 = m_port_update (nPortIndex pd) (\<lambda>q. q\<lparr>max_count := unat (nBufferCountActual pd),
                        min_count := unat (nBufferCountMin pd)\<rparr>) c2;
               g = (drv_cfg c3)\<lparr>cfg_width := pic_width c3, cfg_height := pic_height c3, cfg_stride := pic_stride c3\<rparr> in
        (OMX_ErrorNone, c3\<lparr>drv_cfg :=
           (if nPortIndex pd = INPUT_PORT_INDEX then g\<lparr>cfg_inbuf_num := nBufferCountActual pd\<rparr>
            else g\<lparr>cfg_outbuf_num := nBufferCountActual pd\<rparr>)\<rparr>))"

text \<open>
  What \<open>get_parameter\<close> reports of a port. The output port has the colour format of the configuration (\<open>None\<close>
  stands for \<open>OMX_COLOR_FormatUnused\<close>; \<open>convert_omx_to_hal_pixel_fmt\<close> then names it for the client).
\<close>

definition get_port_definition :: "'q comp_platform \<Rightarrow> u32 \<Rightarrow> 'q comp \<Rightarrow> OMX_ERRORTYPE + port_definition" where
  "get_port_definition P i c =
     (if i > OUTPUT_PORT_INDEX then Inl OMX_ErrorBadPortIndex
      else let q = m_port c i in
       Inr \<lparr>nPortIndex = i, nBufferCountActual = of_nat (max_count q), nBufferCountMin = of_nat (min_count q),
         nBufferSize = buffer_size q, nFrameWidth = pic_width c, nFrameHeight = pic_height c, nStride = pic_stride c,
         nSliceHeight = pic_scan_lines c, xFramerate = m_frame_rate c, bEnabled = m_port_enabled q,
         bPopulated = m_port_populated q,
         eCompressionFormat = (if i = INPUT_PORT_INDEX then m_dec_fmt c else OMX_VIDEO_CodingUnused P),
         eColorFormat = (if i = INPUT_PORT_INDEX then None else Some (cfg_color_format (drv_cfg c)))\<rparr>)"

definition config_compress_format :: "'q comp_platform \<Rightarrow> string \<times> u32 \<times> VID_STD \<Rightarrow> 'q comp \<Rightarrow> 'q comp" where
  "config_compress_format P entry c =
     (let (role, fmt, std) = entry; c1 = c\<lparr>m_role := role, m_dec_fmt := fmt\<rparr> in
      if fmt \<noteq> OMX_VIDEO_CodingRV P \<and> fmt \<noteq> OMX_VIDEO_CodingVP6 P
      then c1\<lparr>drv_cfg := (drv_cfg c1)\<lparr>cfg_eVidStd := std\<rparr>\<rparr> else c1)"

definition select_codec :: "'q comp_platform \<Rightarrow> (string \<times> u32 \<times> VID_STD \<Rightarrow> bool) \<Rightarrow> 'q comp \<Rightarrow> OMX_ERRORTYPE \<times> 'q comp" where
  "select_codec P pred c = (case List.find pred (codec_trans_list P) of
       None \<Rightarrow> (OMX_ErrorUnsupportedSetting, c)
     | Some entry \<Rightarrow> (OMX_ErrorNone, config_compress_format P entry c))"

definition set_port_format ::
  "'q comp_platform \<Rightarrow> u32 \<Rightarrow> u32 \<Rightarrow> bool \<Rightarrow> 'q comp \<Rightarrow> OMX_ERRORTYPE \<times> 'q comp" where
  "set_port_format P port fmt semi_planar c =
     (if port = INPUT_PORT_INDEX then select_codec P (\<lambda>(role, f, std). f = fmt) c
      else if port = OUTPUT_PORT_INDEX
      then (if semi_planar then (OMX_ErrorNone, c\<lparr>drv_cfg := (drv_cfg c)\<lparr>cfg_color_format := OMX_PIX_FMT_NV21\<rparr>\<rparr>)
            else (OMX_ErrorUnsupportedSetting, c))
      else (OMX_ErrorBadPortIndex, c))"

definition set_component_role :: "'q comp_platform \<Rightarrow> string \<Rightarrow> 'q comp \<Rightarrow> OMX_ERRORTYPE \<times> 'q comp" where
  "set_component_role P name = select_codec P (\<lambda>(role, f, std). role = name)"

definition set_channel_attributes :: "chan_attributes \<Rightarrow> 'q comp \<Rightarrow> OMX_ERRORTYPE \<times> 'q comp" where
  "set_channel_attributes a c = (OMX_ErrorNone, c\<lparr>drv_cfg := (drv_cfg c)\<lparr>s32ChanErrThr := nErrorThreshold a,
     s32ChanPriority := nPrior a, s32ChanStrmOFThr := nStreamOverflowThreshold a, s32DecMode := nDecodeMode a,
     s32DecOrderOutput := nPictureOrder a\<rparr>\<rparr>)"

definition get_channel_attributes :: "'q comp \<Rightarrow> chan_attributes" where
  "get_channel_attributes c = (let g = drv_cfg c in
     \<lparr>nErrorThreshold = s32ChanErrThr g, nPrior = s32ChanPriority g, nStreamOverflowThreshold = s32ChanStrmOFThr g,
      nDecodeMode = s32DecMode g, nPictureOrder = s32DecOrderOutput g, nLowdlyEnable = s32LowdlyEnable g,
      attr_xFramerate = m_frame_rate c\<rparr>)"

definition enable_native_buffers :: "u32 \<Rightarrow> bool \<Rightarrow> 'q comp \<Rightarrow> OMX_ERRORTYPE \<times> 'q comp" where
  "enable_native_buffers port on c =
     (if port \<noteq> OUTPUT_PORT_INDEX then (OMX_ErrorBadPortIndex, c)
      else let c1 = c\<lparr>m_use_native_buf := on\<rparr> in
        (OMX_ErrorNone, if on then c1\<lparr>drv_cfg := (drv_cfg c1)\<lparr>cfg_color_format := OMX_PIX_FMT_NV21\<rparr>\<rparr> else c1))"

definition set_fast_output :: "bool \<Rightarrow> 'q comp \<Rightarrow> OMX_ERRORTYPE \<times> 'q comp" where
  "set_fast_output on c = (OMX_ErrorNone, c\<lparr>drv_cfg := (drv_cfg c)\<lparr>s32LowdlyEnable := on\<rparr>\<rparr>)"

text \<open>The profile or format that the parameters of a codec name, where it selects the decoding standard.\<close>

datatype codec_choice = VC1ProfileSimple | VC1ProfileMain | VC1ProfileAdvanced | RVFormat8 | RVFormat9
  | VP6_Plain | VP6F | VP6A | Other_Choice

fun codec_setting :: "codec_index \<Rightarrow> codec_choice \<Rightarrow> drv_cfg \<Rightarrow> drv_cfg option" where
  "codec_setting Vc1 ch g =
     (if ch = VC1ProfileSimple \<or> ch = VC1ProfileMain then Some (g\<lparr>cfg_eVidStd := STD_VC1, std_ext := Vc1Ext False 5\<rparr>)
      else if ch = VC1ProfileAdvanced then Some (g\<lparr>cfg_eVidStd := STD_VC1, std_ext := Vc1Ext True 8\<rparr>) else None)"
| "codec_setting Rv ch g =
     (if ch = RVFormat8 then Some (g\<lparr>cfg_eVidStd := STD_REAL8\<rparr>)
      else if ch = RVFormat9 then Some (g\<lparr>cfg_eVidStd := STD_REAL9\<rparr>) else None)"
| "codec_setting Vp6 ch g =
     (if ch = VP6_Plain then Some (g\<lparr>cfg_eVidStd := STD_VP6\<rparr>)
      else if ch = VP6F then Some (g\<lparr>cfg_eVidStd := STD_VP6F\<rparr>)
      else if ch = VP6A then Some (g\<lparr>cfg_eVidStd := STD_VP6A\<rparr>) else None)"
| "codec_setting _ ch g = Some g"

definition set_codec_param ::
  "codec_index \<Rightarrow> u32 \<Rightarrow> codec_choice \<Rightarrow> u32 list \<Rightarrow> 'q comp \<Rightarrow> OMX_ERRORTYPE \<times> 'q comp" where
  "set_codec_param i port ch words c =
     (if port \<noteq> INPUT_PORT_INDEX then (OMX_ErrorBadPortIndex, c)
      else case codec_setting i ch (drv_cfg c) of None \<Rightarrow> (OMX_ErrorUnsupportedSetting, c)
      | Some g \<Rightarrow> (OMX_ErrorNone, c\<lparr>drv_cfg := g, m_codec_param := Some (i, words)\<rparr>))"

text \<open>Reading a member that was not the last one written gives bytes of another structure: \<open>None\<close>.\<close>

definition get_codec_param :: "codec_index \<Rightarrow> 'q comp \<Rightarrow> u32 list option" where
  "get_codec_param i c = (case m_codec_param c of Some (j, words) \<Rightarrow> if i = j then Some words else None | None \<Rightarrow> None)"

definition set_adaptive_playback :: "u32 \<Rightarrow> OMX_ERRORTYPE" where
  "set_adaptive_playback port = (if port = OUTPUT_PORT_INDEX then OMX_ErrorNone else OMX_ErrorBadParameter)"

text \<open>The indices of \<open>set_parameter\<close>.\<close>

datatype set_param = Port_Definition port_definition | Port_Format u32 u32 bool | Component_Role string
  | Channel_Attributes chan_attributes | Native_Buffers u32 bool | Fast_Output bool
  | Codec_Param codec_index u32 codec_choice "u32 list" | Adaptive_Playback u32 | Unknown_Index

fun set_parameter :: "'q comp_platform \<Rightarrow> set_param \<Rightarrow> 'q comp \<Rightarrow> OMX_ERRORTYPE \<times> 'q comp" where
  "set_parameter P (Port_Definition pd) c = set_port_definition P pd c"
| "set_parameter P (Port_Format port fmt semi_planar) c = set_port_format P port fmt semi_planar c"
| "set_parameter P (Component_Role role) c = set_component_role P role c"
| "set_parameter P (Channel_Attributes a) c = set_channel_attributes a c"
| "set_parameter P (Native_Buffers port on) c = enable_native_buffers port on c"
| "set_parameter P (Fast_Output on) c = set_fast_output on c"
| "set_parameter P (Codec_Param i port ch words) c = set_codec_param i port ch words c"
| "set_parameter P (Adaptive_Playback port) c = (set_adaptive_playback port, c)"
| "set_parameter P Unknown_Index c = (OMX_ErrorUnsupportedIndex, c)"

text \<open>
  \<open>get_config\<close> and \<open>set_config\<close>: the output crop, and the mirror, which the channel configuration has for VP6. A mirror
  that is neither of the two is ignored, with success.
\<close>

datatype mirror = OMX_MirrorNone | OMX_MirrorVertical | OMX_MirrorOther

definition set_mirror :: "u32 \<Rightarrow> mirror \<Rightarrow> 'q comp \<Rightarrow> OMX_ERRORTYPE \<times> 'q comp" where
  "set_mirror port mir c =
     (if port > OUTPUT_PORT_INDEX then (OMX_ErrorBadPortIndex, c)
      else (OMX_ErrorNone, case mir of
          OMX_MirrorNone \<Rightarrow> c\<lparr>drv_cfg := (drv_cfg c)\<lparr>std_ext := Vp6Ext False\<rparr>\<rparr>
        | OMX_MirrorVertical \<Rightarrow> c\<lparr>drv_cfg := (drv_cfg c)\<lparr>std_ext := Vp6Ext True\<rparr>\<rparr>
        | OMX_MirrorOther \<Rightarrow> c))"

definition get_crop :: "u32 \<Rightarrow> 'q comp \<Rightarrow> OMX_ERRORTYPE + (u32 \<times> u32 \<times> u32 \<times> u32)" where
  "get_crop port c = (if port \<noteq> OUTPUT_PORT_INDEX then Inl OMX_ErrorBadPortIndex
     else Inr (0, 0, pic_height c, pic_width c))"

text \<open>The mirror is read from the union: \<open>None\<close> where another member was written last.\<close>

definition get_mirror :: "u32 \<Rightarrow> 'q comp \<Rightarrow> OMX_ERRORTYPE + bool option" where
  "get_mirror port c = (if port > OUTPUT_PORT_INDEX then Inl OMX_ErrorBadPortIndex
     else Inr (case std_ext (drv_cfg c) of Vp6Ext b \<Rightarrow> Some b | _ \<Rightarrow> None))"

section \<open>Creation and destruction\<close>

definition DEF_MAX_IN_BUF_CNT :: nat where "DEF_MAX_IN_BUF_CNT = 3"
definition DEF_MAX_OUT_BUF_CNT :: nat where "DEF_MAX_OUT_BUF_CNT = 7"

definition ports_init_in :: OMX_PORT_PRIVATE where
  "ports_init_in = \<lparr>m_omx_bufhead = replicate DEF_MAX_IN_BUF_CNT 0, min_count = 1, max_count = DEF_MAX_IN_BUF_CNT,
     buffer_size = 2 * 1024 * 1024, m_cur_buf_num = 0, m_port_enabled = True, m_port_populated = False,
     m_port_reconfig = False, m_port_flushing = False\<rparr>"

definition ports_init_out :: OMX_PORT_PRIVATE where
  "ports_init_out = \<lparr>m_omx_bufhead = replicate DEF_MAX_OUT_BUF_CNT 0, min_count = 3, max_count = DEF_MAX_OUT_BUF_CNT,
     buffer_size = DEFAULT_FRAME_SIZE 1920 1088, m_cur_buf_num = 0, m_port_enabled = True, m_port_populated = False,
     m_port_reconfig = False, m_port_flushing = False\<rparr>"

text \<open>
  \<open>component_init\<close> takes its resources one after the other, with labels that give them back. \<open>init_act\<close> names
  what is taken and given back; the environment says whether the name is that of the component and which of them succeed. The result is the
  error, the component and what was done. The driver context that \<open>vdec_init_drv_context\<close> sets up is the
  handle and the configuration in the environment.
\<close>

datatype init_act = Take_Private | Give_Private | Open_Async_Pipe | Open_Pipe | Close_Pipe | Start_Event_Thread
  | Join_Event_Thread | Take_In_Table | Take_Out_Table | Give_In_Table | Give_Out_Table

record init_env =
  name_ok :: bool
  private_ok :: bool
  async_pipe_ok :: bool
  pipe_ok :: bool
  in_table_ok :: bool
  out_table_ok :: bool
  drv_context_ok :: bool
  init_handle :: u32
  init_drv_cfg :: drv_cfg

definition fresh_comp :: "'q comp_platform \<Rightarrow> init_env \<Rightarrow> 'q comp" where
  "fresh_comp P I = \<lparr>m_state = OMX_StateLoaded, m_flags = 0, m_codec_param = None, m_cb = False, m_frame_rate = 30, m_pre_timestamp = - 1,
     m_inport = ports_init_in, m_outport = ports_init_out, m_use_native_buf = False, m_role = [],
     m_dec_fmt = OMX_VIDEO_CodingUnused P, msg_thread_id = 0, chan_handle = init_handle I, drv_cfg = init_drv_cfg I,
     pic_width = 1920, pic_height = 1088, pic_stride = HI_SYS_GET_STRIDE P 1920, pic_scan_lines = 1088, m_pipe = [],
     m_cmd_lock = 0, m_ftb_q = init_event_queue P, m_cmd_q = init_event_queue P, m_etb_q = init_event_queue P,
     hdrs = (\<lambda>_. None), waiting = 0, outs = [], wild = False\<rparr>"

definition component_init ::
  "'q comp_platform \<Rightarrow> init_env \<Rightarrow> (OMX_ERRORTYPE + 'q comp) \<times> init_act list" where
  "component_init P I =
     (let exit0 = [Give_Private]; exit1 = Join_Event_Thread # exit0; exit2 = Close_Pipe # exit1;
          exit3 = [Give_In_Table, Give_Out_Table] @ exit2 in
      if \<not> name_ok I then (Inl OMX_ErrorBadParameter, [])
      else if \<not> private_ok I then (Inl OMX_ErrorInsufficientResources, [])
      else if \<not> async_pipe_ok I then (Inl OMX_ErrorInsufficientResources, [Take_Private] @ exit0)
      else if \<not> pipe_ok I then (Inl OMX_ErrorInsufficientResources, [Take_Private, Open_Async_Pipe] @ exit1)
      else let started = [Take_Private, Open_Async_Pipe, Open_Pipe, Start_Event_Thread] in
      if \<not> in_table_ok I then (Inl OMX_ErrorInsufficientResources, started @ exit2)
      else if \<not> out_table_ok I
      then (Inl OMX_ErrorInsufficientResources, started @ [Take_In_Table, Give_In_Table] @ exit2)
      else if \<not> drv_context_ok I then (Inl OMX_ErrorUndefined, started @ [Take_In_Table, Take_Out_Table] @ exit3)
      else (Inr (fresh_comp P I), started @ [Take_In_Table, Take_Out_Table]))"

text \<open>
  \<open>component_deinit\<close>: outside Loaded it stops and flushes the channel or releases it, and refuses. In
  Loaded it frees what is left of the buffers and joins the two threads; joining the message
  thread when none was started is wild. On success the component is gone; the result is its last state.
\<close>

fun free_all :: "comp_env \<Rightarrow> u32 \<Rightarrow> nat \<Rightarrow> nat \<Rightarrow> 'q comp \<Rightarrow> 'q comp" where
  "free_all E p i 0 c = c"
| "free_all E p i (Suc n) c =
     free_all E p (Suc i) n (snd (free_buffer_internal E p (m_omx_bufhead (m_port c p) ! i) c))"

definition free_port :: "comp_env \<Rightarrow> u32 \<Rightarrow> 'q comp \<Rightarrow> 'q comp" where
  "free_port E p c = (if comp_port_empty c p then c else free_all E p 0 (max_count (m_port c p)) c)"

definition release_if_empty :: "comp_env \<Rightarrow> 'q comp \<Rightarrow> OMX_ERRORTYPE \<times> 'q comp" where
  "release_if_empty E c =
     (if ports_all_empty c
      then (let (ok, c1) = drv E CHANNEL_RELEASE c in
            (if ok then OMX_ErrorIncorrectStateOperation else OMX_ErrorHardware, c1))
      else (OMX_ErrorIncorrectStateOperation, c))"

definition component_deinit :: "comp_env \<Rightarrow> 'q comp \<Rightarrow> OMX_ERRORTYPE \<times> 'q comp" where
  "component_deinit E c =
     (if m_state c = OMX_StateLoaded
      then (let c1 = free_port E INPUT_PORT_INDEX (free_port E OUTPUT_PORT_INDEX c) in
            (OMX_ErrorNone, c1\<lparr>wild := wild c1 \<or> msg_thread_id c1 = 0\<rparr>))
      else if m_state c = OMX_StateExecuting
      then (let (ok, c1) = drv E CHANNEL_STOP c in
            if \<not> ok then (OMX_ErrorHardware, c1)
            else let (r, c2) = omx_flush_port E OMX_ALL c1 in
              if r \<noteq> OMX_ErrorNone then (r, c2) else release_if_empty E c2)
      else if m_state c = OMX_StateIdle then release_if_empty E c
      else (OMX_ErrorIncorrectStateOperation, c))"

section \<open>Steps and runs\<close>

text \<open>
  The steps of the three parties. \<open>Client_Write\<close> is the client filling in a header before it hands it
  over.
\<close>

datatype comp_op = Send_Command OMX_COMMANDTYPE | Command_Return | Allocate_Buffer u32 u32 u32
  | Use_Buffer u32 u32 u32 client_buffer | Free_Buffer u32 u32 | Empty_This u32 | Fill_This u32
  | Set_Parameter set_param | Set_Mirror u32 mirror | Set_Callbacks | Client_Write u32 u32 u32 s64 u32
  | Message vdec_msg | Event_Thread

fun comp_do :: "'q comp_platform \<Rightarrow> comp_env \<Rightarrow> comp_op \<Rightarrow> 'q comp \<Rightarrow> 'q comp option" where
  "comp_do P E (Send_Command k) c = Some (send_command P E k c)"
| "comp_do P E Command_Return c = command_return c"
| "comp_do P E (Allocate_Buffer port app bytes) c = Some (snd (allocate_buffer P E port app bytes c))"
| "comp_do P E (Use_Buffer port app bytes buf) c = Some (snd (use_buffer P E port app bytes buf c))"
| "comp_do P E (Free_Buffer port b) c = Some (snd (free_buffer P E port b c))"
| "comp_do P E (Empty_This b) c = Some (snd (empty_this_buffer P E b c))"
| "comp_do P E (Fill_This b) c = Some (snd (fill_this_buffer P E b c))"
| "comp_do P E (Set_Parameter sp) c = Some (snd (set_parameter P sp c))"
| "comp_do P E (Set_Mirror port mir) c = Some (snd (set_mirror port mir c))"
| "comp_do P E Set_Callbacks c = Some (snd (set_callbacks True True True c))"
| "comp_do P E (Client_Write b len off ts fl) c =
     Some (write_hdr b (\<lambda>h. h\<lparr>nFilledLen := len, nOffset := off, nTimeStamp := ts, nFlags := fl\<rparr>) c)"
| "comp_do P E (Message m) c = Some (message_process P E m c)"
| "comp_do P E Event_Thread c = event_thread_step P E c"

fun comp_run :: "'q comp_platform \<Rightarrow> (comp_env \<times> comp_op) list \<Rightarrow> 'q comp \<Rightarrow> 'q comp option" where
  "comp_run P [] c = Some c"
| "comp_run P ((E, oper) # ops) c = Option.bind (comp_do P E oper c) (comp_run P ops)"

end
