(* ===== verification/Omx_Component_Events.thy ===== *)
theory Omx_Component_Events
  imports Omx_Component
begin

text \<open>
  The events of the OMX component: the algebra of the pending bits; what a step posts (\<open>posted\<close>) and that every other step leaves
  the waiting clients alone (\<open>calm\<close>, collected in \<open>calm_intros\<close>); and the invariant \<open>commands_ok\<close>, that every
  client that waits has a command in the queue or a semaphore that was posted for it.
\<close>

section \<open>Pending bits\<close>

lemma flag_position_inj: "flag_position a = flag_position b \<longleftrightarrow> a = b"
  by (cases a; cases b) simp_all

lemma flag_position_less: "flag_position a < 32"
  by (cases a) simp_all

lemma bit_present_iff: "bit_present f b \<longleftrightarrow> bit f (flag_position b)"
proof -
  have "push_bit (flag_position b) 1 AND f \<noteq> 0 \<longleftrightarrow> bit f (flag_position b)"
    by (simp add: and_exp_eq_0_iff_not_bit and.commute [of "2 ^ _"])
  then show ?thesis
    using flag_position_less [of b] by (simp add: bit_present_def)
qed

lemma pending_bits [simp]:
  "bit_present (bit_set f a) b \<longleftrightarrow> a = b \<or> bit_present f b"
  "bit_present (bit_clear f a) b \<longleftrightarrow> a \<noteq> b \<and> bit_present f b"
  "\<not> bit_present 0 b"
  using flag_position_less [of a] flag_position_less [of b] flag_position_inj [of a b]
  by (auto simp: bit_present_iff bit_set_def bit_clear_def bit_or_iff bit_and_iff bit_not_iff bit_exp_iff)

lemma pending_simps [simp]:
  "pending (set_pending a c) b \<longleftrightarrow> a = b \<or> pending c b"
  "pending (clear_pending a c) b \<longleftrightarrow> a \<noteq> b \<and> pending c b"
  by (simp_all add: pending_def set_pending_def clear_pending_def)

section \<open>Events posted by a step\<close>

text \<open>
  What the component relies on of the event queue, which is outside the repository: seen through \<open>q\<close> it
  is a list, entered at the back and taken from the front.
\<close>

definition event_queue_ok :: "'q comp_platform \<Rightarrow> ('q \<Rightarrow> event list) \<Rightarrow> bool" where
  "event_queue_ok P q \<longleftrightarrow> q (init_event_queue P) = [] \<and>
     (\<forall>e x. q (push_entry P e x) = q x @ [e]) \<and>
     (\<forall>x. get_q_size P x = length (q x)) \<and>
     (\<forall>e es x. q x = e # es \<longrightarrow> fst (pop_entry P x) = e \<and> q (snd (pop_entry P x)) = es)"

lemma event_queueD:
  assumes "event_queue_ok P q"
  shows "q (init_event_queue P) = []" "q (push_entry P e x) = q x @ [e]" "get_q_size P x = length (q x)"
    "q x = e # es \<Longrightarrow> pop_entry P x = (e, y) \<longleftrightarrow> y = snd (pop_entry P x)"
    "q x = e # es \<Longrightarrow> q (snd (pop_entry P x)) = es"
    "q x = e # es \<Longrightarrow> fst (pop_entry P x) = e"
  using assms by (auto simp: event_queue_ok_def prod_eq_iff)

definition is_cmdq :: "gen_id \<Rightarrow> bool" where "is_cmdq i \<longleftrightarrow> queue_of i = CMDQ"

text \<open>
  From \<open>c\<close> to \<open>c'\<close> the events \<open>es\<close> were posted and the semaphore was raised \<open>n\<close> times: the pipe has their
  identifiers, and the command queue those of them that belong there.
\<close>

definition posted :: "('q \<Rightarrow> event list) \<Rightarrow> event list \<Rightarrow> nat \<Rightarrow> 'q comp \<Rightarrow> 'q comp \<Rightarrow> bool" where
  "posted q es n c c' \<longleftrightarrow> m_pipe c' = m_pipe c @ map ident es \<and>
     q (m_cmd_q c') = q (m_cmd_q c) @ filter (\<lambda>e. is_cmdq (ident e)) es \<and>
     waiting c' = waiting c \<and> m_cmd_lock c' = m_cmd_lock c + n"

lemma posted_trans: "posted q es n c c1 \<Longrightarrow> posted q es' n' c1 c2 \<Longrightarrow> posted q (es @ es') (n + n') c c2"
  by (simp add: posted_def)

text \<open>The pending bits of the transitions of the state, and the transitions that events carry.\<close>

definition state_bits :: "flags_bit set" where
  "state_bits = {OMX_STATE_IDLE_PENDING, OMX_STATE_LOADING_PENDING, OMX_STATE_PAUSE_PENDING, OMX_STATE_EXECUTE_PENDING}"

fun event_target :: "event \<Rightarrow> OMX_STATETYPE option" where
  "event_target (Cmd (OMX_CommandStateSet s)) = Some s"
| "event_target (Cmd_Done (OMX_CommandStateSet s)) = Some s"
| "event_target _ = None"

fun is_Cmd :: "event \<Rightarrow> bool" where
  "is_Cmd (Cmd _) = True"
| "is_Cmd _ = False"

text \<open>A part of a step that neither issues a command nor touches the state or its transitions.\<close>

definition calm :: "('q \<Rightarrow> event list) \<Rightarrow> nat \<Rightarrow> 'q comp \<Rightarrow> 'q comp \<Rightarrow> bool" where
  "calm q n c c' \<longleftrightarrow> (\<exists>es. posted q es n c c' \<and> (\<forall>e \<in> set es. \<not> is_Cmd e \<and> event_target e = None)) \<and>
     m_state c' = m_state c \<and> (\<forall>b \<in> state_bits. pending c' b = pending c b) \<and> m_cb c' = m_cb c"

lemma calm_refl [simp]: "calm q 0 c c"
  by (auto simp: calm_def posted_def intro!: exI [of _ "[]"])

lemma calm_trans: "calm q n c c1 \<Longrightarrow> calm q n' c1 c2 \<Longrightarrow> calm q (n + n') c c2"
  unfolding calm_def by (elim conjE exE) (intro conjI exI, erule (1) posted_trans, auto)

lemma calm_trans0: "calm q 0 c c1 \<Longrightarrow> calm q n c1 c2 \<Longrightarrow> calm q n c c2"
  using calm_trans [of q 0 c c1 n c2] by simp

text \<open>Changes outside of the queues, the pipe, the semaphore and the state are calm.\<close>

lemma calm_sameI:
  assumes "m_pipe c' = m_pipe c" "m_cmd_q c' = m_cmd_q c" "waiting c' = waiting c" "m_cmd_lock c' = m_cmd_lock c"
    "m_state c' = m_state c" "m_cb c' = m_cb c" "\<And>b. b \<in> state_bits \<Longrightarrow> pending c' b = pending c b"
  shows "calm q 0 c c'"
  using assms by (auto simp: calm_def posted_def intro!: exI [of _ "[]"])

named_theorems calm_intros \<open>calm parts of a step, closed under a further call\<close>

lemma calm_frame [calm_intros]:
  assumes "calm q n c c'"
  shows "calm q n c (c'\<lparr>m_inport := i\<rparr>)" "calm q n c (c'\<lparr>m_outport := i\<rparr>)" "calm q n c (c'\<lparr>outs := l\<rparr>)"
    "calm q n c (c'\<lparr>wild := w\<rparr>)" "calm q n c (c'\<lparr>hdrs := h\<rparr>)" "calm q n c (c'\<lparr>m_frame_rate := fr\<rparr>)"
    "calm q n c (c'\<lparr>m_pre_timestamp := ts\<rparr>)" "calm q n c (c'\<lparr>m_ftb_q := x\<rparr>)" "calm q n c (c'\<lparr>m_etb_q := x\<rparr>)"
    "calm q n c (c'\<lparr>drv_cfg := g\<rparr>)" "calm q n c (c'\<lparr>m_role := ro\<rparr>)" "calm q n c (c'\<lparr>m_dec_fmt := fr\<rparr>)"
    "calm q n c (c'\<lparr>m_use_native_buf := w\<rparr>)" "calm q n c (c'\<lparr>chan_handle := fr\<rparr>)" "calm q n c (c'\<lparr>msg_thread_id := fr\<rparr>)"
    "calm q n c (c'\<lparr>pic_stride := fr\<rparr>)" "calm q n c (c'\<lparr>pic_scan_lines := fr\<rparr>)" "calm q n c (c'\<lparr>pic_width := fr\<rparr>)"
    "calm q n c (c'\<lparr>pic_height := fr\<rparr>)" "calm q n c (c'\<lparr>m_codec_param := cp\<rparr>)"
  using assms by (simp_all add: calm_def posted_def pending_def)

lemma calm_calls [calm_intros]:
  assumes "calm q n c c'"
  shows "calm q n c (write_hdr b f c')" "calm q n c (m_port_update p g c')" "calm q n c (snd (drv E d c'))"
    "calm q n c (omx_report_event ev c')" "calm q n c (omx_report_error r c')" "calm q n c (cmd_complete k c')"
    "calm q n c (flushing s c')" "calm q n c (snd (update_picture_info w h st c'))"
    "a \<notin> state_bits \<Longrightarrow> calm q n c (set_pending a c')" "a \<notin> state_bits \<Longrightarrow> calm q n c (clear_pending a c')"
  using assms by (auto simp: write_hdr_def m_port_update_def drv_def omx_report_event_def omx_report_error_def
       cmd_complete_def flushing_def update_picture_info_def Let_def calm_intros split: option.splits)
     (auto simp: calm_def posted_def set_pending_def clear_pending_def pending_def state_bits_def)

lemma calm_sem_post: "calm q n c c' \<Longrightarrow> calm q (Suc n) c (sem_post c')"
  by (auto simp: calm_def posted_def sem_post_def pending_def)

text \<open>The writes to the pipe succeed.\<close>

definition pipe_writes :: "comp_env \<Rightarrow> bool" where
  "pipe_writes E \<longleftrightarrow> (\<forall>i. write_ok E i)"

lemma post_simps [simp]:
  "m_state (post P E e c) = m_state c" "pending (post P E e c) b = pending c b" "m_cb (post P E e c) = m_cb c"
  "m_inport (post P E e c) = m_inport c" "m_outport (post P E e c) = m_outport c" "hdrs (post P E e c) = hdrs c"
  "wild (post P E e c) = wild c" "outs (post P E e c) = outs c" "waiting (post P E e c) = waiting c"
  "m_cmd_lock (post P E e c) = m_cmd_lock c" "max_count (m_port (post P E e c) p) = max_count (m_port c p)"
  by (cases "queue_of (ident e)"; simp add: post_event_def Let_def pending_def m_port_def)+

lemma posted_post:
  assumes "event_queue_ok P q" "pipe_writes E"
  shows "posted q [e] 0 c (post P E e c)"
  using assms by (cases "queue_of (ident e)")
    (simp_all add: posted_def post_event_def pipe_writes_def event_queueD is_cmdq_def)

lemma calm_post [calm_intros]:
  assumes "event_queue_ok P q" "pipe_writes E" "\<not> is_Cmd e" "event_target e = None" "calm q n c c'"
  shows "calm q n c (post P E e c')"
proof -
  have "calm q 0 c' (post P E e c')"
    using posted_post [OF assms(1,2), of e c'] assms(3,4) by (auto simp: calm_def intro!: exI [of _ "[e]"])
  from calm_trans [OF assms(5) this] show ?thesis by simp
qed

text \<open>A part of a step that issues no command; it may change the state and its transitions.\<close>

definition hushed :: "('q \<Rightarrow> event list) \<Rightarrow> nat \<Rightarrow> 'q comp \<Rightarrow> 'q comp \<Rightarrow> bool" where
  "hushed q n c c' \<longleftrightarrow> (\<exists>es. posted q es n c c' \<and> (\<forall>e \<in> set es. \<not> is_Cmd e))"

lemma hushed_calm: "calm q n c c' \<Longrightarrow> hushed q n c c'"
  by (auto simp: calm_def hushed_def)

lemma hushed_trans: "hushed q n c c1 \<Longrightarrow> hushed q n' c1 c2 \<Longrightarrow> hushed q (n + n') c c2"
  unfolding hushed_def by (elim conjE exE) (intro conjI exI, erule (1) posted_trans, auto)

lemma hushed_calls [calm_intros]:
  assumes "hushed q n c c'"
  shows "hushed q n c (c'\<lparr>m_state := s\<rparr>)" "hushed q n c (set_pending a c')" "hushed q n c (clear_pending a c')"
    "hushed q n c (cmd_complete k c')" "hushed q n c (omx_report_error r c')" "hushed q n c (c'\<lparr>outs := l\<rparr>)"
    "hushed q n c (c'\<lparr>m_outport := i\<rparr>)" "hushed q (Suc n) c (sem_post c')" "hushed q n c (c'\<lparr>chan_handle := fr\<rparr>)"
    "hushed q n c (c'\<lparr>msg_thread_id := fr\<rparr>)"
  using assms by (auto simp: hushed_def posted_def set_pending_def clear_pending_def cmd_complete_def
       omx_report_event_def omx_report_error_def sem_post_def)

lemma hushed_post [calm_intros]:
  assumes "event_queue_ok P q" "pipe_writes E" "\<not> is_Cmd e" "hushed q n c c'"
  shows "hushed q n c (post P E e c')"
proof -
  have "hushed q 0 c' (post P E e c')"
    using posted_post [OF assms(1,2), of e c'] assms(3) by (auto simp: hushed_def intro!: exI [of _ "[e]"])
  from hushed_trans [OF assms(4) this] show ?thesis by simp
qed

section \<open>The calm operations\<close>

lemma port_bits [simp]:
  "OMX_STATE_INPUT_ENABLE_PENDING \<notin> state_bits" "OMX_STATE_OUTPUT_ENABLE_PENDING \<notin> state_bits"
  "OMX_STATE_OUTPUT_DISABLE_PENDING \<notin> state_bits" "OMX_STATE_INPUT_DISABLE_PENDING \<notin> state_bits"
  "OMX_STATE_OUTPUT_FLUSH_PENDING \<notin> state_bits" "OMX_STATE_INPUT_FLUSH_PENDING \<notin> state_bits"
  by (simp_all add: state_bits_def)

lemmas calm_simps = calm_intros drv_def Let_def case_prod_beta

lemma calm_done:
  "calm q 0 c (snd (fill_buffer_done E b c))" "calm q 0 c (snd (empty_buffer_done E b c))"
  by (simp_all add: fill_buffer_done_def empty_buffer_done_def calm_simps)

lemma calm_messages:
  assumes "event_queue_ok P q" "pipe_writes E"
  shows "calm q 0 c (message_process P E m c)"
proof -
  note P = assms
  have "calm q 0 c (input_done_msg P E d c)" "calm q 0 c (img_size_msg P E w h st c)" for d w h st
    using P by (auto simp: input_done_msg_def img_size_msg_def calm_simps split: option.splits)
  moreover have "calm q 0 c (output_done_msg P E d c)" for d
    using P by (auto simp: output_done_msg_def output_stamp_def calm_simps split: option.splits)
  ultimately show ?thesis
    using P by (cases "(P, E, m, c)" rule: message_process.cases)
      (auto simp: calm_simps split: msgcode.splits msgdata.splits)
qed

lemma calm_proxies:
  assumes "event_queue_ok P q" "pipe_writes E"
  shows "calm q 0 c (snd (empty_this_buffer_proxy P E b c))" "calm q 0 c (snd (fill_this_buffer_proxy P E b c))"
  using assms by (auto simp: empty_this_buffer_proxy_def fill_this_buffer_proxy_def calm_simps split: option.splits)

lemma calm_buffers:
  "calm q 0 c (snd (allocate_buffer_internal E app p bytes c))"
  "calm q 0 c (snd (use_buffer_internal E app p bytes buf c))"
  "calm q 0 c (snd (use_android_native_buffer_internal E app p bytes nh c))"
  "calm q 0 c (snd (free_buffer_internal E p b c))"
  by (auto simp: allocate_buffer_internal_def use_buffer_internal_def use_android_native_buffer_internal_def
    init_bufhead_def free_buffer_internal_def release_desc_def calm_simps split: option.splits)

lemma calm_set_mirror: "calm q 0 c (snd (set_mirror port mir c))"
  by (cases mir) (simp_all add: set_mirror_def calm_simps)

lemma calm_set_parameter: "calm q 0 c (snd (set_parameter P sp c))"
  by (cases "(P, sp, c)" rule: set_parameter.cases)
    (auto simp: set_port_definition_def set_port_format_def set_component_role_def select_codec_def
      config_compress_format_def set_channel_attributes_def enable_native_buffers_def set_fast_output_def
      set_codec_param_def calm_simps split: option.splits)

lemma calm_submit:
  assumes "event_queue_ok P q" "pipe_writes E"
  shows "calm q 0 c (snd (empty_this_buffer P E b c))" "calm q 0 c (snd (fill_this_buffer P E b c))"
  using assms by (auto simp: empty_this_buffer_def fill_this_buffer_def calm_simps split: option.splits)

lemma calm_commands:
  assumes "event_queue_ok P q" "pipe_writes E"
  shows "calm q 0 c (snd (omx_flush_port E s c))" "calm q 0 c (snd (handle_command_flush E s c))"
    "calm q 0 c (handle_command_port_enable P E s c)"
  using assms by (auto simp: omx_flush_port_def handle_command_flush_def handle_command_port_enable_def
      enable_one_def calm_simps)

text \<open>Disabling a port raises the semaphore early, at most once, and says so.\<close>

lemma calm_flush [calm_intros]: "calm q n c c' \<Longrightarrow> calm q n c (snd (omx_flush_port E s c'))"
  by (auto simp: omx_flush_port_def calm_simps)

lemma calm_disable_one:
  assumes "event_queue_ok P q" "pipe_writes E" "a \<notin> state_bits" "disable_one P E p a (r, sem, c') = (r', sem', c'')"
    "calm q (of_bool sem) c c'"
  shows "calm q (of_bool sem') c c''"
  using assms by (cases sem)
    (auto simp: disable_one_def Let_def case_prod_beta calm_intros calm_sem_post [where n = 0, simplified]
       split: if_splits)

lemma calm_disable:
  assumes "event_queue_ok P q" "pipe_writes E" "handle_command_port_disable P E s False c = (r, sem, c')"
  shows "calm q (of_bool sem) c c'"
proof -
  let ?x = "(OMX_ErrorNone, False, c)"
  obtain r1 sem1 c1 where x1: "(if s = PORT INPUT_PORT_INDEX \<or> s = OMX_ALL
      then disable_one P E INPUT_PORT_INDEX OMX_STATE_INPUT_DISABLE_PENDING ?x else ?x) = (r1, sem1, c1)"
    by (metis prod_cases3)
  have "calm q (of_bool sem1) c c1"
    using x1 calm_disable_one [OF assms(1,2) port_bits(4), of INPUT_PORT_INDEX OMX_ErrorNone False c r1 sem1 c1 c]
    by (auto split: if_splits)
  moreover have "(if s = PORT OUTPUT_PORT_INDEX \<or> s = OMX_ALL
      then disable_one P E OUTPUT_PORT_INDEX OMX_STATE_OUTPUT_DISABLE_PENDING (r1, sem1, c1) else (r1, sem1, c1)) = (r, sem, c')"
    using assms(3) by (simp only: handle_command_port_disable_def Let_def x1)
  ultimately show ?thesis
    using calm_disable_one [OF assms(1,2) port_bits(3), of OUTPUT_PORT_INDEX r1 sem1 c1 r sem c' c]
    by (auto split: if_splits)
qed

text \<open>Emptying a queue of buffers ends, and every entry is given back.\<close>

lemma drain_queue_calm:
  assumes P: "event_queue_ok P q" and k: "k \<noteq> CMDQ"
    and give: "\<And>b c. calm q 0 c (snd (give b c))" "\<And>b c. the_queue k (snd (give b c)) = the_queue k c"
  shows "\<exists>c'. drain_queue P k give c = Some c' \<and> calm q 0 c c' \<and> q (the_queue k c') = []"
proof (induction "q (the_queue k c)" arbitrary: c)
  case Nil
  then show ?case by (subst drain_queue.simps) (simp add: event_queueD [OF P])
next
  case (Cons e es)
  define c1 where "c1 = snd (give (event_buffer e) (set_queue k (snd (pop_entry P (the_queue k c))) c))"
  have "calm q 0 c (set_queue k x c)" for x using k by (cases k) (simp_all add: calm_intros)
  then have calm: "calm q 0 c c1" unfolding c1_def by (blast intro: calm_trans0 give(1))
  have "the_queue k (set_queue k x c) = x" for x by (cases k) simp_all
  then have "es = q (the_queue k c1)" using event_queueD(5) [OF P Cons.hyps(2) [symmetric]] by (simp add: c1_def give(2))
  from Cons.hyps(1) [OF this] obtain c' where "drain_queue P k give c1 = Some c'" "calm q 0 c1 c'" "q (the_queue k c') = []"
    by blast
  moreover have "drain_queue P k give c = drain_queue P k give c1"
    using event_queueD(3,6) [OF P] Cons.hyps(2) [symmetric]
    by (subst drain_queue.simps) (simp add: c1_def case_prod_beta)
  ultimately show ?case using calm calm_trans0 by metis
qed

lemma done_keeps_queues:
  "the_queue k (snd (fill_buffer_done E b c)) = the_queue k c"
  "the_queue k (snd (empty_buffer_done E b c)) = the_queue k c"
  by (cases k; simp add: fill_buffer_done_def empty_buffer_done_def write_hdr_def Let_def split: option.splits)+

lemma return_buffers:
  assumes P: "event_queue_ok P q"
  shows "\<exists>c'. return_inbuffers P E c = Some c' \<and> calm q 0 c c' \<and> q (m_etb_q c') = []"
    "\<exists>c'. return_outbuffers P E c = Some c' \<and> calm q 0 c c' \<and> q (m_ftb_q c') = []"
  using drain_queue_calm [OF P, of ETBQ "empty_buffer_done E" c] drain_queue_calm [OF P, of FTBQ "fill_buffer_done E" c]
  by (simp_all add: return_inbuffers_def return_outbuffers_def calm_done done_keeps_queues [where k = ETBQ, simplified]
    done_keeps_queues [where k = FTBQ, simplified])

section \<open>Processing an entry\<close>

lemma hushed_refl [simp]: "hushed q 0 c c"
  by (simp add: hushed_calm)

lemma hushed_then_calm: "hushed q n c c' \<Longrightarrow> (\<And>x. calm q 0 x (f x)) \<Longrightarrow> hushed q n c (f c')"
  using hushed_trans [of q n c c' 0 "f c'"] hushed_calm by fastforce

lemma hushed_flush [calm_intros]: "hushed q n c c' \<Longrightarrow> hushed q n c (snd (omx_flush_port E s c'))"
  by (erule hushed_then_calm) (simp add: calm_flush)

lemma hushed_state_transition:
  assumes "state_transition E s False c = (r, sem, c')"
  shows "hushed q (of_bool sem) c c'"
  using assms
  by (cases "m_state c")
    (auto simp: state_transition_def loaded_to_idle_def ask_driver_def stop_to_idle_def Let_def case_prod_beta drv_def
      calm_intros hushed_calls(8) [where n = 0, simplified] split: if_splits)

lemma hushed_send_command_proxy:
  assumes "event_queue_ok P q" "pipe_writes E"
  shows "hushed q 1 c (send_command_proxy P E k c)"
proof (cases k)
  case (OMX_CommandStateSet s)
  obtain r flag sem c' where t: "state_transition E s False c = ((r, flag), sem, c')"
    by (metis prod_cases3 surj_pair)
  note q = hushed_state_transition [OF t]
  show ?thesis
    using q [of q] assms unfolding OMX_CommandStateSet
    by (cases sem) (auto simp: handle_command_state_set_def t Let_def intro!: calm_intros)
next
  case (OMX_CommandPortDisable s)
  obtain r sem c' where d: "handle_command_port_disable P E s False c = (r, sem, c')"
    by (metis prod_cases3)
  show ?thesis
    using hushed_calm [OF calm_disable [OF assms d]] unfolding OMX_CommandPortDisable
    by (cases sem) (auto simp: d intro!: hushed_calls(8) [where n = 0, simplified])
qed (simp_all add: hushed_calls(8) [where n = 0, simplified] hushed_calm calm_commands [OF assms])

lemma hushed_idle_if_pending [calm_intros]: "hushed q n c c' \<Longrightarrow> hushed q n c (idle_if_pending b c')"
  by (simp add: idle_if_pending_def enter_state_def calm_intros)

lemma calm_flush_complete [calm_intros]:
  "a \<notin> state_bits \<Longrightarrow> calm q n c c' \<Longrightarrow> calm q n c (flush_complete a p c')"
  by (simp add: flush_complete_def calm_intros)

lemma hushed_flush_done:
  assumes "event_queue_ok P q"
  shows "\<exists>c'. flush_input_done P E st c = Some c' \<and> hushed q 0 c c'" "\<exists>c'. flush_output_done P E st c = Some c' \<and> hushed q 0 c c'"
proof -
  let ?i = "c\<lparr>m_inport := (m_inport c)\<lparr>m_port_flushing := False\<rparr>\<rparr>"
  let ?o = "c\<lparr>m_outport := (m_outport c)\<lparr>m_port_flushing := False\<rparr>\<rparr>"
  obtain ci co where ci: "return_inbuffers P E ?i = Some ci" "calm q 0 ?i ci"
    and co: "return_outbuffers P E ?o = Some co" "calm q 0 ?o co"
    using return_buffers [OF assms] by meson
  have "calm q 0 c ci" "calm q 0 c co"
    using ci(2) co(2) calm_trans0 calm_frame(1,2) calm_refl by metis+
  then show "\<exists>c'. flush_input_done P E st c = Some c' \<and> hushed q 0 c c'" "\<exists>c'. flush_output_done P E st c = Some c' \<and> hushed q 0 c c'"
    using ci(1) co(1) by (simp_all add: flush_input_done_def flush_output_done_def Let_def calm_intros hushed_calm)
qed

lemma hushed_stop_done:
  assumes "event_queue_ok P q"
  shows "\<exists>c'. stop_done P E st c = Some c' \<and> hushed q 0 c c'"
proof -
  obtain c1 where c1: "return_outbuffers P E c = Some c1" "calm q 0 c c1" using return_buffers(2) [OF assms] by meson
  obtain c2 where c2: "return_inbuffers P E c1 = Some c2" "calm q 0 c1 c2" using return_buffers(1) [OF assms] by meson
  have "hushed q 0 c c2" using c1(2) c2(2) by (blast intro: hushed_calm calm_trans0)
  then show ?thesis using c1(1) c2(1) by (auto simp: stop_done_def intro!: calm_intros)
qed

text \<open>Every entry is processed; a command raises the semaphore once, anything else does not, and no new command appears.\<close>

lemma process_entry_quiet:
  assumes "event_queue_ok P q" "pipe_writes E"
  shows "\<exists>c'. process_entry P E e c = Some c' \<and> hushed q (of_bool (is_Cmd e)) c c'"
proof (cases e)
  case (Cmd_Done k)
  then show ?thesis by (cases k) (auto intro!: calm_intros)
next
  case (Cmd k)
  then show ?thesis using hushed_send_command_proxy [OF assms] by simp
qed (auto intro: hushed_flush_done hushed_stop_done assms intro!: hushed_calm calm_proxies calm_intros
    simp: buffer_done_event_def case_prod_beta calm_done calm_intros start_done_def transition_done_def enter_state_def Let_def drv_def)

section \<open>The command queue agrees with the pipe\<close>

text \<open>
  The bytes of the pipe that belong to the command queue are the identifiers of its entries, in order;
  every client that waits has its command in the queue or the semaphore raised for it.
\<close>

definition commands_ok :: "('q \<Rightarrow> event list) \<Rightarrow> 'q comp \<Rightarrow> bool" where
  "commands_ok q c \<longleftrightarrow> filter is_cmdq (m_pipe c) = map ident (q (m_cmd_q c)) \<and>
     m_cmd_lock c + length (filter is_Cmd (q (m_cmd_q c))) = waiting c"

lemma is_cmdq_Cmd: "is_Cmd e \<Longrightarrow> is_cmdq (ident e)"
  by (cases e) (simp_all add: is_cmdq_def)

lemma commands_ok_posted:
  assumes "commands_ok q c" "posted q es n c c'" "\<forall>e \<in> set es. \<not> is_Cmd e"
  shows "filter is_cmdq (m_pipe c') = map ident (q (m_cmd_q c')) \<and>
    m_cmd_lock c' + length (filter is_Cmd (q (m_cmd_q c'))) = waiting c' + n"
proof -
  have none: "filter is_Cmd (filter p es) = []" for p using assms(3) by (auto simp: filter_empty_conv)
  show ?thesis
    using assms(1,2) none by (simp add: commands_ok_def posted_def filter_map o_def)
qed

lemma commands_ok_quiet: "commands_ok q c \<Longrightarrow> hushed q 0 c c' \<Longrightarrow> commands_ok q c'"
  unfolding hushed_def by (elim exE conjE) (drule (2) commands_ok_posted, simp add: commands_ok_def)

lemma commands_ok_event_thread:
  assumes P: "event_queue_ok P q" "pipe_writes E" and ok: "commands_ok q c"
  shows "\<exists>c' new. event_thread_step P E c = Some c' \<and> commands_ok q c' \<and> waiting c' = waiting c \<and>
     m_pipe c' = tl (m_pipe c) @ map ident new \<and> (\<forall>e \<in> set new. \<not> is_Cmd e) \<and>
     q (m_cmd_q c') = (if m_pipe c \<noteq> [] \<and> is_cmdq (hd (m_pipe c)) then tl (q (m_cmd_q c)) else q (m_cmd_q c)) @
       filter (\<lambda>e. is_cmdq (ident e)) new"
proof (cases "m_pipe c")
  case Nil
  then show ?thesis using ok by (auto simp: event_thread_step_def intro!: exI [of _ "[]"])
next
  case (Cons i rest)
  let ?c = "c\<lparr>m_pipe := rest\<rparr>"
  let ?k = "queue_of i"
  show ?thesis
  proof (cases "is_cmdq i")
    case True
    then obtain e es where e: "q (m_cmd_q c) = e # es" "ident e = i"
      using ok Cons by (auto simp: commands_ok_def)
    let ?c1 = "?c\<lparr>m_cmd_q := snd (pop_entry P (m_cmd_q c))\<rparr>"
    have k: "?k = CMDQ" using True by (simp add: is_cmdq_def)
    obtain c' where c': "process_entry P E e ?c1 = Some c'" "hushed q (of_bool (is_Cmd e)) ?c1 c'"
      using process_entry_quiet [OF P] by blast
    then obtain new where new: "posted q new (of_bool (is_Cmd e)) ?c1 c'" "\<forall>e \<in> set new. \<not> is_Cmd e"
      by (auto simp: hushed_def)
    have "event_thread_step P E c = Some c'"
      using c'(1) e k event_queueD(3,6) [OF P(1)] by (simp add: event_thread_step_def Cons event_process_def case_prod_beta)
    moreover have "filter is_Cmd (filter (\<lambda>e. is_cmdq (ident e)) new) = []"
      using new(2) by (auto simp: filter_empty_conv)
    then have "commands_ok q c'" "m_pipe c' = rest @ map ident new" "waiting c' = waiting c"
      "q (m_cmd_q c') = es @ filter (\<lambda>e. is_cmdq (ident e)) new"
      using new(1) ok e Cons True event_queueD(5) [OF P(1) e(1)]
      by (auto simp: posted_def commands_ok_def filter_map o_def)
    ultimately show ?thesis using new(2) True Cons e(1) by auto
  next
    case False
    then have k: "?k \<noteq> CMDQ" and ok': "commands_ok q ?c" using ok Cons by (auto simp: is_cmdq_def commands_ok_def)
    have calm: "calm q 0 ?c (set_queue ?k x ?c)" for x using k by (cases ?k) (simp_all add: calm_intros)
    have "\<exists>c'. event_process P E i ?c = Some c' \<and> hushed q 0 ?c c'"
    proof (cases "q (the_queue ?k ?c)")
      case Nil
      then show ?thesis by (auto simp: event_process_def event_queueD(3) [OF P(1)])
    next
      case (Cons e es)
      let ?c1 = "set_queue ?k (snd (pop_entry P (the_queue ?k ?c))) ?c"
      obtain c' where c': "process_entry P E e ?c1 = Some c'" "hushed q (of_bool (is_Cmd e)) ?c1 c'"
        using process_entry_quiet [OF P] by blast
      moreover have "ident e = i \<Longrightarrow> \<not> is_Cmd e" using False is_cmdq_Cmd by blast
      ultimately show ?thesis
        using hushed_trans [OF hushed_calm [OF calm] c'(2)] hushed_calm [OF calm] Cons event_queueD(3,6) [OF P(1)]
        by (auto simp: event_process_def case_prod_beta Let_def)
    qed
    then obtain c' new where c': "event_process P E i ?c = Some c'" "posted q new 0 ?c c'" "\<forall>e \<in> set new. \<not> is_Cmd e"
      by (auto simp: hushed_def)
    then have "hushed q 0 ?c c'" by (auto simp: hushed_def)
    then have "commands_ok q c'" using commands_ok_quiet ok' by blast
    then show ?thesis
      using c' False Cons by (auto simp: event_thread_step_def posted_def)
  qed
qed

section \<open>Commands are answered\<close>

lemma hushed_answer_pending [calm_intros]:
  assumes "event_queue_ok P q" "pipe_writes E" "hushed q n c c'"
  shows "hushed q n c (answer_pending P E b k c')"
  using assms by (simp add: answer_pending_def calm_intros)

lemma hushed_port_update [calm_intros]: "hushed q n c c' \<Longrightarrow> hushed q n c (m_port_update p f c')"
  by (erule hushed_then_calm) (simp add: calm_intros)

lemma hushed_buffer_added:
  assumes "event_queue_ok P q" "pipe_writes E" "hushed q n c c'"
  shows "hushed q n c (buffer_added P E port c')"
  using assms by (simp add: buffer_added_def full_port_answer_def Let_def calm_intros)

lemma hushed_allocate_use_free:
  assumes "event_queue_ok P q" "pipe_writes E"
  shows "hushed q 0 c (snd (allocate_buffer P E port app bytes c))" "hushed q 0 c (snd (use_buffer P E port app bytes buf c))"
    "hushed q 0 c (snd (free_buffer P E port b c))"
proof -
  note calls = hushed_buffer_added [OF assms] hushed_calm calm_buffers hushed_answer_pending [OF assms]
  show "hushed q 0 c (snd (allocate_buffer P E port app bytes c))" "hushed q 0 c (snd (free_buffer P E port b c))"
    by (simp_all add: allocate_buffer_def free_buffer_def Let_def case_prod_beta calls)
  show "hushed q 0 c (snd (use_buffer P E port app bytes buf c))"
    by (cases buf) (simp_all add: use_buffer_def Let_def case_prod_beta calls calm_intros)
qed

lemma comp_do_commands:
  assumes P: "event_queue_ok P q" "pipe_writes E" and ok: "commands_ok q c" and step: "comp_do P E oper c = Some c'"
  shows "commands_ok q c'"
proof (cases oper)
  case (Send_Command k)
  have "posted q [Cmd k] 0 c (post P E (Cmd k) c)" by (rule posted_post [OF P])
  then show ?thesis
    using step ok unfolding Send_Command by (auto simp: send_command_def Let_def commands_ok_def posted_def is_cmdq_def)
next
  case Command_Return
  then show ?thesis using step ok by (auto simp: command_return_def commands_ok_def split: if_splits)
next
  case Event_Thread
  then show ?thesis using commands_ok_event_thread [OF P ok] step by auto
next
  case Set_Callbacks
  then show ?thesis using step ok by (auto simp: set_callbacks_def commands_ok_def)
next
  case (Client_Write b len off ts fl)
  then show ?thesis using step by (auto intro!: commands_ok_quiet [OF ok] hushed_calm calm_intros)
qed (use step P in \<open>auto intro!: commands_ok_quiet [OF ok] hushed_allocate_use_free
    intro: hushed_calm calm_submit calm_set_parameter calm_set_mirror calm_messages calm_intros\<close>)

lemma comp_run_append: "comp_run P (xs @ ys) c = Option.bind (comp_run P xs c) (comp_run P ys)"
proof (induction xs arbitrary: c)
  case (Cons x xs)
  then show ?case by (cases x; cases "comp_do P (fst x) (snd x) c") auto
qed simp

lemma comp_run_commands:
  assumes P: "event_queue_ok P q" and "\<forall>(E, oper) \<in> set ops. pipe_writes E"
    and "commands_ok q c" "comp_run P ops c = Some c'"
  shows "commands_ok q c'"
  using assms(2-)
proof (induction ops arbitrary: c)
  case (Cons x ops)
  obtain E oper where x: "x = (E, oper)" by (cases x)
  obtain c1 where "comp_do P E oper c = Some c1" "comp_run P ops c1 = Some c'"
    using Cons.prems(3) by (auto simp: x bind_eq_Some_conv)
  then show ?case
    using Cons.IH [of c1] comp_do_commands [OF P, of E c oper c1] Cons.prems(1,2) by (auto simp: x)
qed simp

lemma fresh_commands_ok: "event_queue_ok P q \<Longrightarrow> commands_ok q (fresh_comp P I)"
  by (simp add: commands_ok_def fresh_comp_def event_queueD)

lemma event_thread_rounds:
  assumes P: "event_queue_ok P q" and Es: "\<forall>E \<in> set Es. pipe_writes E"
    and ok: "commands_ok q c" and pipe: "m_pipe c = old @ new" "length Es = length old"
    and cmdq: "q (m_cmd_q c) = oldq @ newq" "map ident oldq = filter is_cmdq old" "filter is_Cmd newq = []"
  shows "\<exists>c'. comp_run P (map (\<lambda>E. (E, Event_Thread)) Es) c = Some c' \<and> commands_ok q c' \<and>
    waiting c' = waiting c \<and> filter is_Cmd (q (m_cmd_q c')) = []"
  using assms(2-)
proof (induction old arbitrary: c Es new oldq newq)
  case Nil
  then show ?case by simp
next
  case (Cons i old)
  obtain E Es' where Es: "Es = E # Es'" "length Es' = length old" using Cons.prems(4) by (cases Es) auto
  have E: "pipe_writes E" "\<forall>E \<in> set Es'. pipe_writes E" using Cons.prems(1) by (auto simp: Es)
  from commands_ok_event_thread [OF P E(1) Cons.prems(2)] obtain c1 more where c1:
    "event_thread_step P E c = Some c1" "commands_ok q c1" "waiting c1 = waiting c" "m_pipe c1 = old @ new @ map ident more"
    "\<forall>e \<in> set more. \<not> is_Cmd e"
    "q (m_cmd_q c1) = (if is_cmdq i then tl (oldq @ newq) else oldq @ newq) @ filter (\<lambda>e. is_cmdq (ident e)) more"
    using Cons.prems(3,5) by auto
  let ?oldq = "if is_cmdq i then tl oldq else oldq"
  have q1: "q (m_cmd_q c1) = ?oldq @ newq @ filter (\<lambda>e. is_cmdq (ident e)) more" "map ident ?oldq = filter is_cmdq old"
    using c1(6) Cons.prems(6) by (cases oldq; auto split: if_splits)+
  have "filter is_Cmd (newq @ filter (\<lambda>e. is_cmdq (ident e)) more) = []"
    using Cons.prems(7) c1(5) by (auto simp: filter_empty_conv)
  from Cons.IH [OF E(2) c1(2,4) Es(2) q1 this] show ?case using c1(1,3) by (auto simp: Es(1))
qed

end
