(* ===== verification/Omx_Component_States.thy ===== *)
theory Omx_Component_States
  imports Omx_Component_Events
begin

text \<open>
  The states of the OMX component against the standard: \<open>omx_legal\<close> is the relation of the transitions the standard allows,
  \<open>omx_spec\<close> the machine that reports a transition when it is complete, and \<open>transitions_ok\<close> the invariant that a pending
  bit belongs to a transition the client asked for. An orderly client (\<open>in_turn\<close>) waits for one transition to end before it asks for the next.
\<close>

section \<open>The state machine of the standard\<close>

definition omx_legal :: "OMX_STATETYPE \<Rightarrow> OMX_STATETYPE \<Rightarrow> bool" where
  "omx_legal s t \<longleftrightarrow> (s, t) \<in> {(OMX_StateLoaded, OMX_StateIdle), (OMX_StateIdle, OMX_StateLoaded),
     (OMX_StateIdle, OMX_StateExecuting), (OMX_StateIdle, OMX_StatePause), (OMX_StateExecuting, OMX_StateIdle),
     (OMX_StateExecuting, OMX_StatePause), (OMX_StatePause, OMX_StateExecuting), (OMX_StatePause, OMX_StateIdle),
     (OMX_StateLoaded, OMX_StateWaitForResources), (OMX_StateWaitForResources, OMX_StateLoaded)}"

text \<open>A state and the one that was asked for.\<close>

inductive omx_spec :: "OMX_STATETYPE \<times> OMX_STATETYPE option \<Rightarrow> OMX_STATETYPE \<times> OMX_STATETYPE option \<Rightarrow> bool" where
  stay: "omx_spec x x"
| ask: "omx_spec (s, None) (s, Some t)"
| enter: "omx_legal s t \<Longrightarrow> omx_spec (s, Some t) (t, None)"
| refuse: "omx_spec (s, Some t) (s, None)"

inductive_simps omx_spec_simps: "omx_spec (s, a) (t, b)"

definition pend_targets :: "'q comp \<Rightarrow> OMX_STATETYPE list" where
  "pend_targets c = map snd (filter (\<lambda>(b, s). pending c b)
     [(OMX_STATE_IDLE_PENDING, OMX_StateIdle), (OMX_STATE_LOADING_PENDING, OMX_StateLoaded),
      (OMX_STATE_PAUSE_PENDING, OMX_StatePause), (OMX_STATE_EXECUTE_PENDING, OMX_StateExecuting)])"

fun state_bit :: "OMX_STATETYPE \<Rightarrow> flags_bit option" where
  "state_bit OMX_StateIdle = Some OMX_STATE_IDLE_PENDING"
| "state_bit OMX_StateLoaded = Some OMX_STATE_LOADING_PENDING"
| "state_bit OMX_StatePause = Some OMX_STATE_PAUSE_PENDING"
| "state_bit OMX_StateExecuting = Some OMX_STATE_EXECUTE_PENDING"
| "state_bit _ = None"

text \<open>The transitions that are under way: pending, or in an entry of the command queue.\<close>

definition asked :: "('q \<Rightarrow> event list) \<Rightarrow> 'q comp \<Rightarrow> OMX_STATETYPE list" where
  "asked q c = pend_targets c @ List.map_filter event_target (q (m_cmd_q c))"

definition transitions_ok :: "('q \<Rightarrow> event list) \<Rightarrow> 'q comp \<Rightarrow> bool" where
  "transitions_ok q c \<longleftrightarrow> length (asked q c) \<le> 1 \<and> (\<forall>t \<in> set (pend_targets c). omx_legal (m_state c) t) \<and>
     (\<forall>t. Cmd_Done (OMX_CommandStateSet t) \<in> set (q (m_cmd_q c)) \<longrightarrow> omx_legal (m_state c) t) \<and>
     m_state c \<noteq> OMX_StateInvalid"

definition spec_state :: "('q \<Rightarrow> event list) \<Rightarrow> 'q comp \<Rightarrow> OMX_STATETYPE \<times> OMX_STATETYPE option" where
  "spec_state q c = (m_state c, case asked q c of [] \<Rightarrow> None | t # ts \<Rightarrow> Some t)"

lemma map_filter_append [simp]: "List.map_filter f (xs @ ys) = List.map_filter f xs @ List.map_filter f ys"
  by (simp add: List.map_filter_def)

lemma map_filter_None: "\<forall>x \<in> set xs. f x = None \<Longrightarrow> List.map_filter f xs = []"
  by (induction xs) (simp_all add: List.map_filter_def)

lemma pend_targets_cong: "(\<And>b. b \<in> state_bits \<Longrightarrow> pending c' b = pending c b) \<Longrightarrow> pend_targets c' = pend_targets c"
  by (simp add: pend_targets_def state_bits_def)

lemma target_simps: "event_target e = Some t \<longleftrightarrow> e = Cmd (OMX_CommandStateSet t) \<or> e = Cmd_Done (OMX_CommandStateSet t)"
  by (cases e rule: event_target.cases) auto

text \<open>Steps that leave the state and its transitions alone.\<close>

definition same_transitions :: "('q \<Rightarrow> event list) \<Rightarrow> 'q comp \<Rightarrow> 'q comp \<Rightarrow> bool" where
  "same_transitions q c c' \<longleftrightarrow> m_state c' = m_state c \<and> pend_targets c' = pend_targets c \<and>
     List.map_filter event_target (q (m_cmd_q c')) = List.map_filter event_target (q (m_cmd_q c)) \<and>
     (\<forall>t. Cmd_Done (OMX_CommandStateSet t) \<in> set (q (m_cmd_q c')) \<longrightarrow> Cmd_Done (OMX_CommandStateSet t) \<in> set (q (m_cmd_q c)))"

lemma same_transitions_calm: "calm q n c c' \<Longrightarrow> same_transitions q c c'"
  by (auto simp: calm_def same_transitions_def posted_def target_simps map_filter_None intro!: pend_targets_cong)
    (force dest: bspec)+

lemma same_transitions_trans: "same_transitions q c c1 \<Longrightarrow> same_transitions q c1 c2 \<Longrightarrow> same_transitions q c c2"
  by (auto simp: same_transitions_def)

lemma same_transitions_ok:
  assumes "transitions_ok q c" "same_transitions q c c'"
  shows "transitions_ok q c'" "spec_state q c' = spec_state q c" "asked q c' = asked q c"
  using assms by (auto simp: transitions_ok_def same_transitions_def spec_state_def asked_def)

text \<open>A pending transition: it is the only one, and it is legal.\<close>

lemma pend_target_in: "state_bit t = Some b \<Longrightarrow> pending c b \<Longrightarrow> t \<in> set (pend_targets c)"
  by (cases t) (auto simp: pend_targets_def)

lemma asked_single:
  assumes "transitions_ok q c" "t \<in> set (asked q c)"
  shows "asked q c = [t]"
  using assms by (cases "asked q c") (auto simp: transitions_ok_def)

lemma pending_single:
  assumes "transitions_ok q c" "state_bit t = Some b" "pending c b"
  shows "pend_targets c = [t]" "List.map_filter event_target (q (m_cmd_q c)) = []" "omx_legal (m_state c) t"
    "\<And>b'. b' \<in> state_bits \<Longrightarrow> pending c b' \<longleftrightarrow> b' = b"
proof -
  have t: "t \<in> set (pend_targets c)" using pend_target_in assms(2,3) .
  then have a: "asked q c = [t]" by (intro asked_single [OF assms(1)]) (simp add: asked_def)
  with t show p: "pend_targets c = [t]" "List.map_filter event_target (q (m_cmd_q c)) = []"
    by (cases "pend_targets c"; auto simp: asked_def)+
  show "omx_legal (m_state c) t" using t assms(1) by (auto simp: transitions_ok_def)
  show "pending c b' \<longleftrightarrow> b' = b" if "b' \<in> state_bits" for b'
    using p(1) assms(2,3) that by (cases t) (auto simp: pend_targets_def state_bits_def split: if_splits)
qed

lemma no_done_entries:
  "List.map_filter event_target es = [] \<Longrightarrow> Cmd_Done (OMX_CommandStateSet t) \<notin> set es"
  by (induction es) (auto simp: List.map_filter_def split: option.splits if_splits)

lemma legal_not_invalid: "omx_legal s t \<Longrightarrow> t \<noteq> OMX_StateInvalid"
  by (auto simp: omx_legal_def)

lemma enter_state_ok:
  assumes "transitions_ok q c" "state_bit t = Some b" "pending c b"
  shows "transitions_ok q (enter_state t b c)" "omx_spec (spec_state q c) (spec_state q (enter_state t b c))"
proof -
  note p = pending_single [OF assms]
  let ?c = "enter_state t b c"
  have "m_state ?c = t" "m_cmd_q ?c = m_cmd_q c" "\<And>b'. pending ?c b' \<longleftrightarrow> b \<noteq> b' \<and> pending c b'"
    by (simp_all add: enter_state_def cmd_complete_def omx_report_event_def pending_def clear_pending_def)
  moreover from this(3) have "pend_targets ?c = []" using p(4) by (auto simp: pend_targets_def state_bits_def)
  ultimately show "transitions_ok q ?c" "omx_spec (spec_state q c) (spec_state q ?c)"
    using p legal_not_invalid [OF p(3)] no_done_entries [OF p(2)]
    by (auto simp: transitions_ok_def spec_state_def asked_def intro: omx_spec.intros)
qed

text \<open>Each step keeps the transitions in order and is a step of the standard's machine.\<close>

definition spec_step :: "('q \<Rightarrow> event list) \<Rightarrow> 'q comp \<Rightarrow> 'q comp \<Rightarrow> bool" where
  "spec_step q c c' \<longleftrightarrow> transitions_ok q c' \<and> omx_spec (spec_state q c) (spec_state q c')"

lemma spec_step_same: "transitions_ok q c \<Longrightarrow> same_transitions q c c' \<Longrightarrow> spec_step q c c'"
  using same_transitions_ok [of q c c'] by (simp add: spec_step_def stay)

lemma spec_step_calm: "transitions_ok q c \<Longrightarrow> calm q n c c' \<Longrightarrow> spec_step q c c'"
  by (rule spec_step_same [OF _ same_transitions_calm])

lemma spec_step_refl [simp]: "transitions_ok q c \<Longrightarrow> spec_step q c c"
  by (rule spec_step_calm [OF _ calm_refl])

lemma spec_step_after:
  assumes "transitions_ok q c" "same_transitions q c c1" "transitions_ok q c1 \<Longrightarrow> spec_step q c1 c2"
  shows "spec_step q c c2"
  using assms same_transitions_ok [OF assms(1,2)] by (simp add: spec_step_def)

lemma spec_step_before:
  assumes "spec_step q c c1" "same_transitions q c1 c2"
  shows "spec_step q c c2"
  using assms same_transitions_ok [OF _ assms(2)] by (simp add: spec_step_def)

lemma spec_step_enter:
  "transitions_ok q c \<Longrightarrow> state_bit t = Some b \<Longrightarrow> pending c b \<Longrightarrow> spec_step q c (enter_state t b c)"
  by (simp add: spec_step_def enter_state_ok)

lemma spec_step_idle: "transitions_ok q c \<Longrightarrow> spec_step q c (idle_if_pending x c)"
  by (auto simp: idle_if_pending_def spec_step_enter spec_step_calm [OF _ calm_refl])

text \<open>A pending transition that is handed to the command queue.\<close>

lemma spec_step_answer:
  assumes P: "event_queue_ok P q" and "transitions_ok q c" "state_bit t = Some b"
  shows "spec_step q c (answer_pending P E b (OMX_CommandStateSet t) c)"
proof (cases "pending c b")
  case True
  note p = pending_single [OF assms(2,3) True]
  let ?c = "answer_pending P E b (OMX_CommandStateSet t) c"
  have c': "m_state ?c = m_state c" "q (m_cmd_q ?c) = q (m_cmd_q c) @ [Cmd_Done (OMX_CommandStateSet t)]"
    "\<And>b'. pending ?c b' \<longleftrightarrow> b \<noteq> b' \<and> pending c b'"
    using True event_queueD(2) [OF P]
    by (simp_all add: answer_pending_def del: post_simps) (simp_all add: post_event_def Let_def clear_pending_def pending_def)
  have "pend_targets ?c = []" using c'(3) p(4) by (auto simp: pend_targets_def state_bits_def)
  then show ?thesis
    using p c'(1,2) no_done_entries [OF p(2)] assms(2)
    by (auto simp: spec_step_def transitions_ok_def spec_state_def asked_def List.map_filter_def intro: omx_spec.intros)
qed (simp add: answer_pending_def spec_step_calm [OF assms(2) calm_refl])

lemma calm_buffer_added:
  assumes "event_queue_ok P q" "pipe_writes E" "a \<notin> state_bits" "calm q 0 c c'"
  shows "calm q 0 c (full_port_answer P E p a port c')"
  using assms by (simp add: full_port_answer_def answer_pending_def calm_intros)

lemma spec_step_buffers:
  assumes P: "event_queue_ok P q" "pipe_writes E" and ok: "transitions_ok q c"
  shows "spec_step q c (snd (allocate_buffer P E port app bytes c))" "spec_step q c (snd (use_buffer P E port app bytes buf c))"
    "spec_step q c (snd (free_buffer P E port b c))"
proof -
  note same = spec_step_calm [OF ok, where n = 0]
  have added: "spec_step q c (buffer_added P E port c1)" if "calm q 0 c c1" for c1
  proof -
    let ?c2 = "full_port_answer P E OUTPUT_PORT_INDEX OMX_STATE_OUTPUT_ENABLE_PENDING port
      (full_port_answer P E INPUT_PORT_INDEX OMX_STATE_INPUT_ENABLE_PENDING port c1)"
    have "calm q 0 c ?c2" using that by (simp add: calm_buffer_added P)
    then show ?thesis
      using spec_step_answer [OF P(1)] spec_step_after [OF ok same_transitions_calm] same
      by (simp add: buffer_added_def Let_def)
  qed
  show "spec_step q c (snd (allocate_buffer P E port app bytes c))"
    by (simp add: allocate_buffer_def case_prod_beta Let_def added same calm_buffers)
  show "spec_step q c (snd (use_buffer P E port app bytes buf c))"
    by (cases buf) (simp_all add: use_buffer_def case_prod_beta Let_def calm_intros added same calm_buffers)
  have freed: "spec_step q c (if ports_all_empty c3
      then answer_pending P E OMX_STATE_LOADING_PENDING (OMX_CommandStateSet OMX_StateLoaded) c3 else c3)" if "calm q 0 c c3" for c3
    using that spec_step_answer [OF P(1)] spec_step_after [OF ok same_transitions_calm] same by simp
  show "spec_step q c (snd (free_buffer P E port b c))"
  proof -
    define c1 where "c1 = snd (free_buffer_internal E port b c)"
    define c2 where "c2 = (if port = INPUT_PORT_INDEX \<and> comp_port_empty c1 port
      then answer_pending P E OMX_STATE_INPUT_DISABLE_PENDING (OMX_CommandPortDisable (PORT INPUT_PORT_INDEX)) c1 else c1)"
    define c3 where "c3 = (if port = OUTPUT_PORT_INDEX \<and> comp_port_empty c2 port
      then answer_pending P E OMX_STATE_OUTPUT_DISABLE_PENDING (OMX_CommandPortDisable (PORT OUTPUT_PORT_INDEX)) c2 else c2)"
    have c1: "calm q 0 c c1" by (simp add: c1_def calm_buffers)
    then have "calm q 0 c c2" by (simp add: c2_def answer_pending_def calm_intros P)
    then have "calm q 0 c c3" by (simp add: c3_def answer_pending_def calm_intros P)
    from freed [OF this] same [OF c1] same [OF calm_refl] show ?thesis
      by (auto simp add: free_buffer_def case_prod_beta Let_def simp flip: c1_def c2_def c3_def split: if_splits)
  qed
qed

lemma spec_step_popped:
  assumes ok: "transitions_ok q c" and e: "q (m_cmd_q c) = e # es" and c1: "q (m_cmd_q c1) = es" "m_state c1 = m_state c"
    "pend_targets c1 = pend_targets c" and none: "event_target e = None"
  shows "same_transitions q c c1"
  using assms by (auto simp: same_transitions_def List.map_filter_simps)

text \<open>What a command to change the state does to the transitions.\<close>

lemma state_transition_effect:
  assumes "state_transition E s False c = ((r, flag), sem, c')" "m_state c \<noteq> OMX_StateInvalid"
  shows "m_state c' = m_state c" "m_cmd_q c' = m_cmd_q c" "r = OMX_ErrorNone \<Longrightarrow> omx_legal (m_state c) s"
    "b \<in> state_bits \<Longrightarrow> pending c' b \<longleftrightarrow> \<not> flag \<and> state_bit s = Some b \<or> pending c b"
    "\<not> flag \<Longrightarrow> r = OMX_ErrorNone \<and> state_bit s \<noteq> None"
  using assms
  by (cases "m_state c"; auto simp: state_transition_def loaded_to_idle_def ask_driver_def stop_to_idle_def Let_def
    case_prod_beta drv_def omx_flush_port_def flushing_def omx_report_error_def omx_report_event_def sem_post_def
    omx_legal_def pending_def set_pending_def state_bits_def split: if_splits)+

lemma report_simps [simp]:
  "m_state (omx_report_event x c) = m_state c" "pending (omx_report_event x c) b = pending c b" "m_cmd_q (omx_report_event x c) = m_cmd_q c"
  "m_state (omx_report_error r c) = m_state c" "pending (omx_report_error r c) b = pending c b" "m_cmd_q (omx_report_error r c) = m_cmd_q c"
  "m_state (cmd_complete k c) = m_state c" "pending (cmd_complete k c) b = pending c b" "m_cmd_q (cmd_complete k c) = m_cmd_q c"
  "pending (c\<lparr>m_state := s\<rparr>) b = pending c b"
  by (simp_all add: omx_report_event_def omx_report_error_def cmd_complete_def pending_def)

lemma post_cmdq:
  "event_queue_ok P q \<Longrightarrow> q (m_cmd_q (post P E e c)) = q (m_cmd_q c) @ (if is_cmdq (ident e) then [e] else [])"
  by (cases "queue_of (ident e)") (simp_all add: post_event_def Let_def is_cmdq_def event_queueD)

lemma pend_targets_asked:
  assumes "\<And>b. b \<in> state_bits \<Longrightarrow> pending c' b \<longleftrightarrow> state_bit s = Some b" "state_bit s \<noteq> None"
  shows "pend_targets c' = [s]"
  using assms by (cases s) (auto simp: pend_targets_def state_bits_def)

lemma pend_targets_Nil: "pend_targets c = [] \<longleftrightarrow> (\<forall>b \<in> state_bits. \<not> pending c b)"
  by (auto simp: pend_targets_def state_bits_def)

lemma spec_step_state_set:
  assumes P: "event_queue_ok P q" and ok: "transitions_ok q c" and none: "asked q c1 = []" and st: "m_state c1 = m_state c"
    and a: "asked q c = [s]"
  shows "spec_step q c (send_command_proxy P E (OMX_CommandStateSet s) c1)"
proof -
  obtain r flag sem c2 where t: "state_transition E s False c1 = ((r, flag), sem, c2)" by (metis prod_cases3 surj_pair)
  have inv: "m_state c1 \<noteq> OMX_StateInvalid" using ok st by (simp add: transitions_ok_def)
  note eff = state_transition_effect [OF t inv]
  define c3 where "c3 = (if \<not> flag then c2 else if r \<noteq> OMX_ErrorNone then omx_report_error r c2
    else post P E (Cmd_Done (OMX_CommandStateSet s)) c2)"
  have none1: "pend_targets c1 = []" "List.map_filter event_target (q (m_cmd_q c1)) = []" using none by (simp_all add: asked_def)
  have c3: "m_state c3 = m_state c" "\<And>b. pending c3 b = pending c2 b"
    "q (m_cmd_q c3) = q (m_cmd_q c1) @ (if flag \<and> r = OMX_ErrorNone then [Cmd_Done (OMX_CommandStateSet s)] else [])"
    using eff(1,2) st by (simp_all add: c3_def post_cmdq [OF P] is_cmdq_def)
  have p: "pend_targets c3 = (if flag then [] else [s])"
  proof (cases flag)
    case True
    then show ?thesis using eff(4) c3(2) none1(1) by (auto simp: pend_targets_Nil)
  next
    case False
    then show ?thesis using eff(4,5) c3(2) none1(1) by (auto simp: pend_targets_Nil intro!: pend_targets_asked)
  qed
  have "spec_step q c c3"
    using p c3 none1(2) no_done_entries [OF none1(2)] eff(3,5) st inv a
    by (auto simp: spec_step_def transitions_ok_def spec_state_def asked_def List.map_filter_simps
        intro: omx_spec.intros)
  moreover have "same_transitions q c3 (sem_post c3)" by (rule same_transitions_calm [OF calm_sem_post [OF calm_refl]])
  ultimately have "spec_step q c (if sem then c3 else sem_post c3)" using spec_step_before by auto
  then show ?thesis by (simp only: send_command_proxy.simps handle_command_state_set_def t Let_def prod.case flip: c3_def)
qed

lemma spec_step_generate:
  assumes ok: "transitions_ok q c" and e: "q (m_cmd_q c) = Cmd_Done (OMX_CommandStateSet s) # es"
    and c1: "q (m_cmd_q c1) = es" "m_state c1 = m_state c" "pend_targets c1 = pend_targets c"
  shows "spec_step q c (generate_command_done (OMX_CommandStateSet s) c1)"
proof -
  let ?c = "generate_command_done (OMX_CommandStateSet s) c1"
  have a: "asked q c = [s]"
    by (rule asked_single [OF ok]) (simp add: asked_def e List.map_filter_simps)
  then have none: "pend_targets c1 = []" "List.map_filter event_target es = []"
    using c1(3) by (auto simp: asked_def e List.map_filter_simps append_eq_Cons_conv)
  have legal: "omx_legal (m_state c) s" using ok by (simp add: transitions_ok_def e)
  have "pend_targets ?c = pend_targets c1" by (rule pend_targets_cong) simp
  then have "m_cmd_q ?c = m_cmd_q c1" "pend_targets ?c = []" "m_state ?c = (if m_cb c1 then s else m_state c)"
    using none(1) c1(2) by simp_all
  then show ?thesis
    using a none(2) c1(1) no_done_entries [OF none(2)] legal legal_not_invalid [OF legal] ok
    by (auto simp: spec_step_def transitions_ok_def spec_state_def asked_def intro: omx_spec.intros)
qed

lemma spec_step_flush_done:
  assumes P: "event_queue_ok P q" and ok: "transitions_ok q c"
  shows "flush_input_done P E st c = Some c' \<Longrightarrow> spec_step q c c'" "flush_output_done P E st c = Some c' \<Longrightarrow> spec_step q c c'"
    "stop_done P E st c = Some c' \<Longrightarrow> spec_step q c c'"
proof -
  note same = spec_step_calm [OF ok, where n = 0] and after = spec_step_after [OF ok same_transitions_calm [where n = 0] spec_step_idle]
  let ?i = "c\<lparr>m_inport := (m_inport c)\<lparr>m_port_flushing := False\<rparr>\<rparr>"
  let ?o = "c\<lparr>m_outport := (m_outport c)\<lparr>m_port_flushing := False\<rparr>\<rparr>"
  obtain ci co c1 where ci: "return_inbuffers P E ?i = Some ci" "calm q 0 ?i ci"
    and co: "return_outbuffers P E ?o = Some co" "calm q 0 ?o co" and c1: "return_outbuffers P E c = Some c1" "calm q 0 c c1"
    using return_buffers [OF P] by meson
  obtain c2 where c2: "return_inbuffers P E c1 = Some c2" "calm q 0 c1 c2" using return_buffers(1) [OF P] by meson
  have "calm q 0 c ci" "calm q 0 c co" "calm q 0 c c2"
    using ci(2) co(2) c1(2) c2(2) calm_trans0 calm_frame(1,2) calm_refl by metis+
  then show "flush_input_done P E st c = Some c' \<Longrightarrow> spec_step q c c'" "flush_output_done P E st c = Some c' \<Longrightarrow> spec_step q c c'"
    "stop_done P E st c = Some c' \<Longrightarrow> spec_step q c c'"
    using ci(1) co(1) c1(1) c2(1) ok
    by (auto simp: flush_input_done_def flush_output_done_def stop_done_def Let_def same after calm_intros split: if_splits)
qed

text \<open>Entries without a target.\<close>

lemma spec_step_entry:
  assumes P: "event_queue_ok P q" "pipe_writes E" and ok: "transitions_ok q c" and e: "event_target e = None"
    and step: "process_entry P E e c = Some c'"
  shows "spec_step q c c'"
proof -
  note same = spec_step_calm [OF ok]
  have cmd: "spec_step q c (send_command_proxy P E k c)" if "e = Cmd k" for k
  proof (cases k)
    case (OMX_CommandPortDisable s)
    obtain r sem c1 where d: "handle_command_port_disable P E s False c = (r, sem, c1)" by (metis prod_cases3)
    from calm_disable [OF P d] show ?thesis
      unfolding OMX_CommandPortDisable by (auto simp: d intro: same calm_sem_post)
  qed (use e that in \<open>auto intro!: same calm_sem_post calm_refl calm_commands [OF P]\<close>)
  have gen: "spec_step q c (generate_command_done k c)" if "e = Cmd_Done k" for k
    using e that by (cases k) (auto intro!: same [where n = 0] calm_intros)
  have start: "spec_step q c (start_done E st c)" for st
  proof -
    have pause: "same_transitions q c1 (if pending c1 OMX_STATE_PAUSE_PENDING
      then (let (ok, c2) = drv E CHANNEL_PAUSE c1 in if \<not> ok then omx_report_error OMX_ErrorHardware c2 else c2) else c1)" for c1
      by (rule same_transitions_calm [where n = 0]) (simp add: calm_simps)
    have "spec_step q c (if pending c OMX_STATE_EXECUTE_PENDING then enter_state OMX_StateExecuting OMX_STATE_EXECUTE_PENDING c else c)"
      by (auto intro: spec_step_enter [OF ok] same calm_refl)
    from spec_step_before [OF this pause] show ?thesis
      using same [where n = 0 and c' = "omx_report_error OMX_ErrorHardware c"]
      by (auto simp: start_done_def Let_def calm_intros)
  qed
  have trans: "spec_step q c (transition_done t b st c)" if "state_bit t = Some b" for t b st
    using that spec_step_enter [OF ok] by (simp add: transition_done_def same [where n = 0] calm_intros)
  have given: "spec_step q c (buffer_done_event (fill_buffer_done E) b st c)"
    "spec_step q c (buffer_done_event (empty_buffer_done E) b st c)" for b st
    by (auto simp: buffer_done_event_def case_prod_beta Let_def calm_done calm_intros intro!: same [where n = 0])
  show ?thesis
    using step
    by (cases e) (auto intro: spec_step_flush_done [OF P(1) ok]
        simp: cmd gen start trans given same [where n = 0] calm_proxies [OF P] calm_intros)
qed

lemma spec_step_event_thread:
  assumes P: "event_queue_ok P q" "pipe_writes E" and cmds: "commands_ok q c" and ok: "transitions_ok q c"
    and step: "event_thread_step P E c = Some c'"
  shows "spec_step q c c'"
proof (cases "m_pipe c")
  case Nil
  then show ?thesis using step spec_step_calm [OF ok calm_refl] by (simp add: event_thread_step_def)
next
  case (Cons i rest)
  let ?c = "c\<lparr>m_pipe := rest\<rparr>"
  let ?k = "queue_of i"
  have same: "same_transitions q c ?c" by (simp add: same_transitions_def pend_targets_def pending_def)
  have step': "event_process P E i ?c = Some c'" using step by (simp add: event_thread_step_def Cons)
  show ?thesis
  proof (cases "q (the_queue ?k ?c)")
    case Nil
    then show ?thesis
      using step' spec_step_same [OF ok same] by (simp add: event_process_def event_queueD(3) [OF P(1)])
  next
    case (Cons e es)
    define c1 where "c1 = set_queue ?k (snd (pop_entry P (the_queue ?k ?c))) ?c"
    have c': "c' = c1 \<and> i \<noteq> ident e \<or> i = ident e \<and> process_entry P E e c1 = Some c'"
      using step' Cons event_queueD(3,6) [OF P(1)] unfolding c1_def by (auto simp: event_process_def case_prod_beta Let_def split: if_splits)
    show ?thesis
    proof (cases "?k = CMDQ")
      case False
      then have c1: "same_transitions q c c1"
        by (cases ?k) (simp_all add: c1_def same_transitions_def pend_targets_def pending_def)
      have "i = ident e \<Longrightarrow> event_target e = None" using False by (cases e) auto
      then show ?thesis
        using c' spec_step_same [OF ok c1] spec_step_after [OF ok c1] spec_step_entry [OF P] by blast
    next
      case True
      then have e: "q (m_cmd_q c) = e # es" "q (m_cmd_q c1) = es" "m_state c1 = m_state c" "pend_targets c1 = pend_targets c"
        using Cons event_queueD(5) [OF P(1)] by (simp_all add: c1_def pend_targets_def pending_def)
      have "i = ident e" using cmds e(1) True \<open>m_pipe c = i # rest\<close> by (simp add: commands_ok_def is_cmdq_def)
      then have proc: "process_entry P E e c1 = Some c'" using c' by simp
      show ?thesis
      proof (cases "event_target e")
        case None
        from spec_step_popped [OF ok e this] show ?thesis
          using spec_step_after [OF ok] spec_step_entry [OF P _ None proc] by blast
      next
        case (Some t)
        have a: "asked q c = [t]"
          by (rule asked_single [OF ok]) (simp add: asked_def e(1) Some List.map_filter_simps)
        then have "asked q c1 = []"
          using e by (auto simp: asked_def Some List.map_filter_simps append_eq_Cons_conv)
        then show ?thesis
          using Some proc spec_step_state_set [OF P(1) ok _ e(3) a] spec_step_generate [OF ok _ e(2-4)] e(1)
          by (auto simp: target_simps)
      qed
    qed
  qed
qed

text \<open>A client asks for a state only when no transition is under way.\<close>

definition in_turn :: "('q \<Rightarrow> event list) \<Rightarrow> comp_op \<Rightarrow> 'q comp \<Rightarrow> bool" where
  "in_turn q oper c \<longleftrightarrow> (case oper of Send_Command (OMX_CommandStateSet s) \<Rightarrow> asked q c = [] | _ \<Rightarrow> True)"

lemma spec_step_send:
  assumes P: "event_queue_ok P q" and ok: "transitions_ok q c" and turn: "in_turn q (Send_Command k) c"
  shows "spec_step q c (send_command P E k c)"
proof -
  let ?c = "send_command P E k c"
  have c': "m_state ?c = m_state c" "pend_targets ?c = pend_targets c" "q (m_cmd_q ?c) = q (m_cmd_q c) @ [Cmd k]"
    using post_cmdq [OF P, of E "Cmd k" c] post_simps(2) [of P E "Cmd k" c]
    by (simp_all add: send_command_def Let_def is_cmdq_def pend_targets_def pending_def)
  show ?thesis
  proof (cases "\<exists>s. k = OMX_CommandStateSet s")
    case True
    then obtain s where k: "k = OMX_CommandStateSet s" ..
    then have "asked q c = []" using turn by (simp add: in_turn_def)
    then show ?thesis
      using c' ok by (auto simp: k spec_step_def transitions_ok_def spec_state_def asked_def List.map_filter_simps intro: omx_spec.intros)
  next
    case False
    then have "event_target (Cmd k) = None" by (cases k) auto
    then have "same_transitions q c ?c" using c' by (simp add: same_transitions_def List.map_filter_simps)
    then show ?thesis by (rule spec_step_same [OF ok])
  qed
qed

lemma comp_do_spec_step:
  assumes P: "event_queue_ok P q" "pipe_writes E" and ok: "commands_ok q c" "transitions_ok q c"
    and turn: "in_turn q oper c" and step: "comp_do P E oper c = Some c'"
  shows "spec_step q c c'"
proof -
  note same = spec_step_calm [OF ok(2)]
  show ?thesis
  proof (cases oper)
    case (Send_Command k)
    then show ?thesis using spec_step_send [OF P(1) ok(2)] turn step by auto
  next
    case Command_Return
    then have "same_transitions q c c'"
      using step by (auto simp: command_return_def same_transitions_def pend_targets_def pending_def split: if_splits)
    then show ?thesis by (rule spec_step_same [OF ok(2)])
  next
    case Set_Callbacks
    then have "same_transitions q c c'"
      using step by (auto simp: set_callbacks_def same_transitions_def pend_targets_def pending_def)
    then show ?thesis by (rule spec_step_same [OF ok(2)])
  next
    case Event_Thread
    then show ?thesis using spec_step_event_thread [OF P ok] step by simp
  next
    case (Client_Write b len off ts fl)
    then show ?thesis using step by (auto intro!: same [where n = 0] calm_intros)
  qed (use step in \<open>auto intro!: spec_step_buffers [OF P ok(2)] intro: same calm_submit [OF P] calm_set_parameter calm_set_mirror calm_messages [OF P]\<close>)
qed

text \<open>The components that such a client, the driver and the event thread can bring about.\<close>

inductive orderly_reach :: "'q comp_platform \<Rightarrow> ('q \<Rightarrow> event list) \<Rightarrow> 'q comp \<Rightarrow> bool" for P q where
  init: "component_init P I = (Inr c, acts) \<Longrightarrow> orderly_reach P q c"
| step: "orderly_reach P q c \<Longrightarrow> pipe_writes E \<Longrightarrow> in_turn q oper c \<Longrightarrow> comp_do P E oper c = Some c' \<Longrightarrow> orderly_reach P q c'"

lemma component_init_fresh: "component_init P I = (Inr c, acts) \<Longrightarrow> c = fresh_comp P I"
  by (auto simp: component_init_def Let_def split: if_splits)

lemma fresh_transitions: "event_queue_ok P q \<Longrightarrow> transitions_ok q (fresh_comp P I)"
  by (simp add: transitions_ok_def asked_def pend_targets_def pending_def fresh_comp_def event_queueD List.map_filter_simps)

lemma orderly_reach_ok:
  assumes P: "event_queue_ok P q" and "orderly_reach P q c"
  shows "commands_ok q c \<and> transitions_ok q c"
  using assms(2)
proof (induction rule: orderly_reach.induct)
  case (init I c acts)
  then show ?case using component_init_fresh fresh_commands_ok [OF P] fresh_transitions [OF P] by blast
next
  case (step c E oper c')
  then show ?case
    using comp_do_commands [OF P step.hyps(2) _ step.hyps(4)] comp_do_spec_step [OF P step.hyps(2) _ _ step.hyps(3,4)]
    by (simp add: spec_step_def)
qed

text \<open>Such a run, computed.\<close>

fun orderly_run :: "'q comp_platform \<Rightarrow> ('q \<Rightarrow> event list) \<Rightarrow> (comp_env \<times> comp_op) list \<Rightarrow> 'q comp \<Rightarrow> 'q comp option" where
  "orderly_run P q [] c = Some c"
| "orderly_run P q ((E, oper) # ops) c =
     (if in_turn q oper c then Option.bind (comp_do P E oper c) (orderly_run P q ops) else None)"

lemma orderly_run_reach:
  "orderly_reach P q c \<Longrightarrow> \<forall>x \<in> set ops. pipe_writes (fst x) \<Longrightarrow> orderly_run P q ops c = Some c' \<Longrightarrow> orderly_reach P q c'"
  by (induction P q ops c rule: orderly_run.induct) (auto simp: bind_eq_Some_conv split: if_splits intro: orderly_reach.step)

end
