(* ===== verification/Omx_Component_Buffers.thy ===== *)
theory Omx_Component_Buffers
  imports Omx_Component_States
begin

text \<open>
  The buffer tables of the OMX component: what a step changes of them (\<open>buf_shape\<close>, collected in \<open>shapes\<close>), the well-formedness
  \<open>comp_wf\<close> of the ports (counts within the tables, entries that are live headers) and that every step keeps it, and the fate of a header whose table entry was overwritten
  (\<open>lost\<close>).
\<close>

section \<open>What the buffers of a component look like\<close>

text \<open>
  The addresses that a header's descriptors lead back to, and the shape of a component: the tables with
  their counts, and the headers that are alive. Most operations keep it.
\<close>

definition hdr_ids :: "OMX_BUFFERHEADERTYPE \<Rightarrow> u32 option \<times> u32 option" where
  "hdr_ids h = (map_option d_client_data (pInputPortPrivate h), map_option d_client_data (pOutputPortPrivate h))"

definition port_shape :: "OMX_PORT_PRIVATE \<Rightarrow> u32 list \<times> nat \<times> nat" where
  "port_shape p = (m_omx_bufhead p, m_cur_buf_num p, max_count p)"

definition buf_shape :: "'q comp \<Rightarrow> (u32 list \<times> nat \<times> nat) \<times> (u32 list \<times> nat \<times> nat) \<times> (u32 \<Rightarrow> (u32 option \<times> u32 option) option)" where
  "buf_shape c = (port_shape (m_inport c), port_shape (m_outport c), \<lambda>a. map_option hdr_ids (hdrs c a))"

named_theorems shapes \<open>operations that keep the shape\<close>

lemma port_shape_updates [shapes]:
  "port_shape (p\<lparr>m_port_flushing := x\<rparr>) = port_shape p" "port_shape (p\<lparr>m_port_reconfig := x\<rparr>) = port_shape p"
  "port_shape (p\<lparr>m_port_enabled := x\<rparr>) = port_shape p" "port_shape (p\<lparr>m_port_populated := x\<rparr>) = port_shape p"
  "port_shape (p\<lparr>buffer_size := y\<rparr>) = port_shape p"
  by (simp_all add: port_shape_def)

lemma shape_port [shapes]:
  "port_shape i = port_shape (m_inport c) \<Longrightarrow> buf_shape (c\<lparr>m_inport := i\<rparr>) = buf_shape c"
  "port_shape i = port_shape (m_outport c) \<Longrightarrow> buf_shape (c\<lparr>m_outport := i\<rparr>) = buf_shape c"
  by (simp_all add: buf_shape_def)

lemma shape_updates [shapes]:
  "buf_shape (c\<lparr>outs := l\<rparr>) = buf_shape c" "buf_shape (c\<lparr>wild := w\<rparr>) = buf_shape c" "buf_shape (c\<lparr>m_frame_rate := fr\<rparr>) = buf_shape c"
  "buf_shape (c\<lparr>m_pre_timestamp := ts\<rparr>) = buf_shape c" "buf_shape (c\<lparr>m_ftb_q := x\<rparr>) = buf_shape c" "buf_shape (c\<lparr>m_etb_q := x\<rparr>) = buf_shape c"
  "buf_shape (c\<lparr>m_cmd_q := x\<rparr>) = buf_shape c" "buf_shape (c\<lparr>m_pipe := ip\<rparr>) = buf_shape c" "buf_shape (c\<lparr>drv_cfg := g\<rparr>) = buf_shape c"
  "buf_shape (c\<lparr>m_role := ro\<rparr>) = buf_shape c" "buf_shape (c\<lparr>m_dec_fmt := fr\<rparr>) = buf_shape c" "buf_shape (c\<lparr>m_use_native_buf := w\<rparr>) = buf_shape c"
  "buf_shape (c\<lparr>chan_handle := fr\<rparr>) = buf_shape c" "buf_shape (c\<lparr>msg_thread_id := fr\<rparr>) = buf_shape c" "buf_shape (c\<lparr>pic_stride := fr\<rparr>) = buf_shape c"
  "buf_shape (c\<lparr>pic_scan_lines := fr\<rparr>) = buf_shape c" "buf_shape (c\<lparr>pic_width := fr\<rparr>) = buf_shape c" "buf_shape (c\<lparr>pic_height := fr\<rparr>) = buf_shape c"
  "buf_shape (c\<lparr>m_state := st\<rparr>) = buf_shape c" "buf_shape (c\<lparr>m_flags := fr\<rparr>) = buf_shape c" "buf_shape (c\<lparr>m_cmd_lock := n\<rparr>) = buf_shape c"
  "buf_shape (c\<lparr>waiting := n\<rparr>) = buf_shape c" "buf_shape (c\<lparr>m_cb := w\<rparr>) = buf_shape c" "buf_shape (c\<lparr>m_codec_param := cp\<rparr>) = buf_shape c"
  by (simp_all add: buf_shape_def)

lemma shape_write_hdr [shapes]: "(\<And>h. hdrs c b = Some h \<Longrightarrow> hdr_ids (f h) = hdr_ids h) \<Longrightarrow> buf_shape (write_hdr b f c) = buf_shape c"
  by (auto simp: write_hdr_def buf_shape_def split: option.splits)

lemma shape_set_queue [shapes]: "buf_shape (set_queue k x c) = buf_shape c"
  by (cases k) (simp_all add: shapes)

lemma shape_calls [shapes]:
  "buf_shape (snd (drv E d c)) = buf_shape c" "buf_shape (omx_report_event x c) = buf_shape c" "buf_shape (omx_report_error r c) = buf_shape c"
  "buf_shape (cmd_complete k c) = buf_shape c" "buf_shape (set_pending b c) = buf_shape c" "buf_shape (clear_pending b c) = buf_shape c"
  "buf_shape (sem_post c) = buf_shape c" "buf_shape (snd (update_picture_info w h st c)) = buf_shape c"
  "buf_shape (enter_state t b c) = buf_shape c" "buf_shape (snd (post_event P E e c)) = buf_shape c" "buf_shape (flushing s c) = buf_shape c"
  "buf_shape (idle_if_pending x' c) = buf_shape c" "buf_shape (flush_complete b p c) = buf_shape c"
  by (simp_all add: drv_def omx_report_event_def omx_report_error_def cmd_complete_def set_pending_def clear_pending_def
    sem_post_def update_picture_info_def enter_state_def post_event_def flushing_def idle_if_pending_def flush_complete_def Let_def shapes)

lemma shape_done [shapes]: "buf_shape (snd (fill_buffer_done E b c)) = buf_shape c" "buf_shape (snd (empty_buffer_done E b c)) = buf_shape c"
  by (simp_all add: fill_buffer_done_def empty_buffer_done_def Let_def shapes hdr_ids_def)

lemma shape_answer [shapes]: "buf_shape (answer_pending P E b k c) = buf_shape c"
  by (simp add: answer_pending_def shapes)

lemma shape_port_update [shapes]:
  "(\<And>q. port_shape (f q) = port_shape q) \<Longrightarrow> buf_shape (m_port_update p f c) = buf_shape c"
  by (simp add: m_port_update_def shapes)

lemma shape_buffer_added [shapes]: "buf_shape (buffer_added P E port c) = buf_shape c"
proof -
  have "buf_shape (full_port_answer P E p b port c) = buf_shape c" for p b c
    by (auto simp: full_port_answer_def shapes intro!: trans [OF shape_answer] shape_port_update)
  then show ?thesis by (simp add: buffer_added_def Let_def shapes)
qed

lemma shape_messages [shapes]: "buf_shape (message_process P E m c) = buf_shape c"
proof -
  have "buf_shape (input_done_msg P E d c) = buf_shape c" "buf_shape (img_size_msg P E w h st c) = buf_shape c" for d w h st
    by (auto simp: input_done_msg_def img_size_msg_def Let_def shapes split: option.splits)
  moreover have "buf_shape (output_stamp d b dist c) = buf_shape c" for d b dist and c :: "'a comp"
    by (simp add: output_stamp_def Let_def shapes hdr_ids_def)
  then have "buf_shape (output_done_msg P E d c) = buf_shape c" for d
    by (auto simp: output_done_msg_def Let_def shapes split: option.splits)
  ultimately show ?thesis
    by (cases "(P, E, m, c)" rule: message_process.cases) (auto simp: shapes split: msgcode.splits msgdata.splits)
qed

lemma shape_proxies [shapes]:
  "buf_shape (snd (empty_this_buffer_proxy P E b c)) = buf_shape c" "buf_shape (snd (fill_this_buffer_proxy P E b c)) = buf_shape c"
  "buf_shape (snd (empty_this_buffer P E b c)) = buf_shape c" "buf_shape (snd (fill_this_buffer P E b c)) = buf_shape c"
  by (auto simp: empty_this_buffer_proxy_def fill_this_buffer_proxy_def empty_this_buffer_def fill_this_buffer_def
    Let_def drv_def shapes hdr_ids_def split: option.splits)
    (rule shape_write_hdr, simp add: hdr_ids_def)+

lemma shape_drain:
  assumes "drain_queue P k give c = Some c'" "\<And>b c. buf_shape (snd (give b c)) = buf_shape c"
  shows "buf_shape c' = buf_shape c"
proof -
  let ?Q = "\<lambda>(((P, k), give), c) c'. (\<forall>b c. buf_shape (snd (give b c)) = buf_shape c) \<longrightarrow> buf_shape c' = buf_shape c"
  have "?Q (((P, k), give), c) c'"
    by (rule drain_queue.raw_induct [OF _ assms(1), of ?Q]) (fastforce simp: case_prod_beta Let_def shapes split: if_splits)
  then show ?thesis using assms(2) by simp
qed

lemma shape_state_transition: "buf_shape (snd (snd (state_transition E s False c))) = buf_shape c"
  by (cases "m_state c") (simp_all add: state_transition_def loaded_to_idle_def ask_driver_def stop_to_idle_def
    omx_flush_port_def Let_def case_prod_beta drv_def shapes)

lemma shape_flush_port [shapes]: "buf_shape (snd (omx_flush_port E s c)) = buf_shape c"
  by (simp add: omx_flush_port_def Let_def case_prod_beta shapes)

lemma shape_disable_one: "buf_shape (snd (snd (disable_one P E p b x))) = buf_shape (snd (snd x))"
  by (cases x) (simp add: disable_one_def Let_def case_prod_beta shapes)

lemma shape_send_command_proxy [shapes]: "buf_shape (send_command_proxy P E k c) = buf_shape c"
proof -
  have "buf_shape (snd (snd (handle_command_state_set P E s False c))) = buf_shape c" for s
    using shape_state_transition [of E s c] by (simp add: handle_command_state_set_def Let_def case_prod_beta shapes)
  moreover have "buf_shape (snd (snd (handle_command_port_disable P E s False c))) = buf_shape c" for s
    by (simp add: handle_command_port_disable_def Let_def shape_disable_one)
  moreover have "buf_shape (enable_one P E p b c) = buf_shape c" for p b c
    by (simp add: enable_one_def Let_def shapes)
  ultimately show ?thesis
    by (cases k) (simp_all add: handle_command_flush_def handle_command_port_enable_def Let_def case_prod_beta shapes)
qed

lemma shape_return:
  "return_inbuffers P E c = Some c' \<Longrightarrow> buf_shape c' = buf_shape c" "return_outbuffers P E c = Some c' \<Longrightarrow> buf_shape c' = buf_shape c"
  by (auto simp: return_inbuffers_def return_outbuffers_def shapes intro: shape_drain)

lemma shape_process_entry: "process_entry P E e c = Some c' \<Longrightarrow> buf_shape c' = buf_shape c"
proof -
  have flush: "flush_input_done P E st c = Some c' \<Longrightarrow> buf_shape c' = buf_shape c" "flush_output_done P E st c = Some c' \<Longrightarrow> buf_shape c' = buf_shape c" for st
    by (auto simp: flush_input_done_def flush_output_done_def Let_def shapes dest!: shape_return split: if_splits)
  have stop: "stop_done P E st c = Some c' \<Longrightarrow> buf_shape c' = buf_shape c" for st
    by (auto simp: stop_done_def shapes bind_eq_Some_conv dest!: shape_return split: if_splits)
  have gen: "buf_shape (generate_command_done k c) = buf_shape c" for k
    by (cases k) (simp_all add: shapes)
  have "buf_shape (buffer_done_event (fill_buffer_done E) b st c) = buf_shape c" "buf_shape (buffer_done_event (empty_buffer_done E) b st c) = buf_shape c"
    "buf_shape (start_done E st c) = buf_shape c" "buf_shape (transition_done t bt st c) = buf_shape c" for b st t bt
    by (simp_all add: buffer_done_event_def start_done_def transition_done_def Let_def case_prod_beta shapes)
  then show "process_entry P E e c = Some c' \<Longrightarrow> buf_shape c' = buf_shape c"
    by (cases e) (auto simp: gen shapes intro: flush stop)
qed

lemma shape_event_thread: "event_thread_step P E c = Some c' \<Longrightarrow> buf_shape c' = buf_shape c"
  by (auto simp: event_thread_step_def event_process_def Let_def case_prod_beta shapes dest!: shape_process_entry
    split: list.splits if_splits)

section \<open>Well-formed components\<close>

definition places_used :: "u32 list \<Rightarrow> nat" where
  "places_used t = length (filter (\<lambda>a. a \<noteq> 0) t)"

definition table_distinct :: "u32 list \<Rightarrow> bool" where
  "table_distinct t \<longleftrightarrow> (\<forall>i < length t. \<forall>j < length t. t ! i = t ! j \<longrightarrow> t ! i \<noteq> 0 \<longrightarrow> i = j)"

text \<open>
  One port: the table has its fixed size, which bounds the limit and the count; the count is at least the number
  of places in use; the addresses in the table differ, and each is that of a live header whose descriptor for
  this port leads back to it.
\<close>

definition bufhead_wf :: "nat \<Rightarrow> (u32 \<Rightarrow> (u32 option \<times> u32 option) option) \<Rightarrow> (u32 \<Rightarrow> u32 option \<times> u32 option) \<Rightarrow>
  u32 list \<times> nat \<times> nat \<Rightarrow> bool" where
  "bufhead_wf n ids mk = (\<lambda>(t, cur, mx). length t = n \<and> mx \<le> n \<and> cur \<le> n \<and> places_used t \<le> cur \<and>
     table_distinct t \<and> (\<forall>a \<in> set t. a \<noteq> 0 \<longrightarrow> ids a = Some (mk a)))"

definition comp_wf :: "'q comp \<Rightarrow> bool" where
  "comp_wf c \<longleftrightarrow> (case buf_shape c of (i, o', ids) \<Rightarrow>
     bufhead_wf DEF_MAX_IN_BUF_CNT ids (\<lambda>a. (Some a, None)) i \<and> bufhead_wf DEF_MAX_OUT_BUF_CNT ids (\<lambda>a. (None, Some a)) o')"

lemma places_used_update:
  assumes "i < length t"
  shows "places_used (t[i := a]) + of_bool (t ! i \<noteq> 0) = places_used t + of_bool (a \<noteq> 0)"
  using assms
proof (induction t arbitrary: i)
  case (Cons x t)
  then show ?case by (cases i) (auto simp: places_used_def)
qed simp

lemma places_used_le: "i < length t \<Longrightarrow> places_used (t[i := a]) \<le> places_used t + 1"
  using places_used_update [of i t a] by (auto simp: of_bool_def split: if_splits)

lemma table_distinct_update:
  assumes "table_distinct t" "a \<noteq> 0 \<Longrightarrow> a \<notin> set t"
  shows "table_distinct (t[i := a])"
  unfolding table_distinct_def length_list_update
proof (intro allI impI)
  fix k j assume "k < length t" "j < length t" "t[i := a] ! k = t[i := a] ! j" "t[i := a] ! k \<noteq> 0"
  then show "k = j"
    using assms by (cases "k = i"; cases "j = i") (auto simp: table_distinct_def dest: nth_mem)
qed

lemma bufhead_wf_add:
  assumes "bufhead_wf n ids mk (t, cur, mx)" "cur < mx" "a \<noteq> 0" "ids a = None"
  shows "bufhead_wf n (ids(a \<mapsto> mk a)) mk (t[cur := a], Suc cur, mx)"
proof -
  have "places_used (t[cur := a]) + of_bool (t ! cur \<noteq> 0) = places_used t + of_bool (a \<noteq> 0)"
    using assms by (intro places_used_update) (auto simp: bufhead_wf_def)
  moreover have "a \<notin> set t" using assms by (auto simp: bufhead_wf_def)
  ultimately show ?thesis
    using assms by (auto simp: bufhead_wf_def table_distinct_update dest!: set_update_subset_insert [THEN subsetD])
qed

lemma bufhead_wf_add_other:
  "bufhead_wf n ids mk x \<Longrightarrow> ids a = None \<Longrightarrow> bufhead_wf n (ids(a \<mapsto> v)) mk x"
  by (auto simp: bufhead_wf_def)

lemma bufhead_wf_remove:
  assumes "bufhead_wf n ids mk (t, cur, mx)" "find_index (\<lambda>a. a = b) (take mx t) = Some i" "b \<noteq> 0"
  shows "bufhead_wf n (ids(b := None)) mk (t[i := 0], cur - 1, mx)" "0 < cur" "places_used (t[i := 0]) + 1 = places_used t" "ids b = Some (mk b)"
proof -
  have i: "i < length t" "t ! i = b" using assms(2) by (auto simp: find_index_Some)
  then show u: "places_used (t[i := 0]) + 1 = places_used t" using places_used_update [of i t 0] assms(3) by simp
  then show "0 < cur" "ids b = Some (mk b)" using assms(1,3) i by (auto simp: bufhead_wf_def)
  have "b \<notin> set (t[i := 0])"
  proof
    assume "b \<in> set (t[i := 0])"
    then obtain j where "j < length t" "t[i := 0] ! j = b" by (auto simp: in_set_conv_nth)
    then show False using i assms(1,3) by (auto simp: bufhead_wf_def table_distinct_def nth_list_update split: if_splits)
  qed
  then have "\<forall>x \<in> set (t[i := 0]). x = 0 \<or> x \<in> set t \<and> x \<noteq> b" using set_update_subset_insert [of t i 0] by blast
  then show "bufhead_wf n (ids(b := None)) mk (t[i := 0], cur - 1, mx)"
    using assms(1) u by (auto simp: bufhead_wf_def table_distinct_update)
qed

text \<open>What adding a buffer does: nothing but outputs when it fails, and the next place of the table when it succeeds.\<close>

definition adds :: "comp_env \<Rightarrow> u32 \<Rightarrow> 'q comp \<Rightarrow> (OMX_ERRORTYPE \<times> u32) \<times> 'q comp \<Rightarrow> bool" where
  "adds E p c x \<longleftrightarrow> (case x of ((r, a), c') \<Rightarrow>
     if r \<noteq> OMX_ErrorNone then buf_shape c' = buf_shape c
     else malloc_hdr E = Some a \<and> m_cur_buf_num (m_port c p) < max_count (m_port c p) \<and>
       (\<exists>buf len app d. d_client_data d = a \<and>
          buf_shape c' = buf_shape (init_bufhead p (m_cur_buf_num (m_port c p)) a buf len app d c)))"

lemma shape_init_outs: "buf_shape (init_bufhead p i a buf len app d (c\<lparr>outs := l\<rparr>)) = buf_shape (init_bufhead p i a buf len app d c)"
  by (simp add: init_bufhead_def Let_def m_port_update_def buf_shape_def)

lemma adds_internal:
  "adds E p c (allocate_buffer_internal E app p bytes c)"
  "adds E p c (use_buffer_internal E app p bytes buf c)"
  "adds E p c (use_android_native_buffer_internal E app p bytes nh c)"
proof -
  have I: "adds E p c ((OMX_ErrorNone, a), init_bufhead p (m_cur_buf_num (m_port c p)) a bf len app d (c\<lparr>outs := l\<rparr>))"
    if "malloc_hdr E = Some a" "m_cur_buf_num (m_port c p) < max_count (m_port c p)" "d_client_data d = a" for a bf len app d l
    using that by (auto simp: adds_def shape_init_outs)
  have R: "r \<noteq> OMX_ErrorNone \<Longrightarrow> buf_shape c' = buf_shape c \<Longrightarrow> adds E p c ((r, a), c')" for r a and c' :: "'a comp"
    by (simp add: adds_def)
  show "adds E p c (allocate_buffer_internal E app p bytes c)"
    by (auto simp: allocate_buffer_internal_def Let_def drv_def shapes I R split: option.splits)
  show "adds E p c (use_buffer_internal E app p bytes buf c)"
    by (auto simp: use_buffer_internal_def Let_def drv_def shapes I R split: option.splits)
  show "adds E p c (use_android_native_buffer_internal E app p bytes nh c)"
    by (auto simp: use_android_native_buffer_internal_def Let_def drv_def shapes I R split: option.splits)
qed

lemma shape_added:
  assumes "buf_shape c = (i, o', ids)" "d_client_data d = a"
  shows "p = INPUT_PORT_INDEX \<Longrightarrow> buf_shape (init_bufhead p k a buf len app d c) =
      ((case i of (t, cur, mx) \<Rightarrow> (t[k := a], cur + 1, mx)), o', ids(a \<mapsto> (Some a, None)))"
    "p \<noteq> INPUT_PORT_INDEX \<Longrightarrow> buf_shape (init_bufhead p k a buf len app d c) =
      (i, (case o' of (t, cur, mx) \<Rightarrow> (t[k := a], cur + 1, mx)), ids(a \<mapsto> (None, Some a)))"
  using assms by (auto simp: buf_shape_def port_shape_def init_bufhead_def Let_def m_port_update_def hdr_ids_def zero_hdr_def fun_eq_iff)

definition malloc_fresh :: "comp_env \<Rightarrow> 'q comp \<Rightarrow> bool" where
  "malloc_fresh E c \<longleftrightarrow> (case malloc_hdr E of None \<Rightarrow> True | Some a \<Rightarrow> a \<noteq> 0 \<and> hdrs c a = None)"

lemma comp_wf_adds:
  assumes wf: "comp_wf c" and fresh: "malloc_fresh E c" and adds: "adds E p c x"
  shows "comp_wf (snd x)"
proof -
  obtain r a c' where x: "x = ((r, a), c')" by (cases x) auto
  show ?thesis
  proof (cases "r = OMX_ErrorNone")
    case False
    then show ?thesis using adds wf by (simp add: x adds_def comp_wf_def)
  next
    case True
    then obtain buf len app d where d: "malloc_hdr E = Some a" "m_cur_buf_num (m_port c p) < max_count (m_port c p)"
      "d_client_data d = a" "buf_shape c' = buf_shape (init_bufhead p (m_cur_buf_num (m_port c p)) a buf len app d c)"
      using adds by (auto simp: x adds_def)
    obtain ti ci mi to co mo ids where sh: "buf_shape c = ((ti, ci, mi), (to, co, mo), ids)" by (metis prod_cases3)
    have new: "a \<noteq> 0" "ids a = None" using fresh d(1) sh by (auto simp: malloc_fresh_def buf_shape_def)
    show ?thesis
    proof (cases "p = INPUT_PORT_INDEX")
      case True
      then have "ci < mi" "m_cur_buf_num (m_port c p) = ci" using d(2) sh by (auto simp: buf_shape_def port_shape_def m_port_def)
      with True show ?thesis
        using wf new sh d shape_added(1) [OF sh d(3), of p]
        by (auto simp: x comp_wf_def bufhead_wf_add_other bufhead_wf_add [where mk = "\<lambda>a. (Some a, None)"] simp del: fun_upd_apply)
    next
      case False
      then have "co < mo" "m_cur_buf_num (m_port c p) = co" using d(2) sh by (auto simp: buf_shape_def port_shape_def m_port_def)
      with False show ?thesis
        using wf new sh d shape_added(2) [OF sh d(3), of p]
        by (auto simp: x comp_wf_def bufhead_wf_add_other bufhead_wf_add [where mk = "\<lambda>a. (None, Some a)"] simp del: fun_upd_apply)
    qed
  qed
qed

text \<open>What freeing a buffer does.\<close>

lemma shape_release [shapes]: "buf_shape (release_desc E d c) = buf_shape c"
  by (simp add: release_desc_def Let_def shapes)

lemma hdrs_release [simp]: "hdrs (release_desc E d c) = hdrs c" "wild (release_desc E d c) = wild c"
  by (simp_all add: release_desc_def Let_def drv_def)

lemma port_index_cases: "p \<le> OUTPUT_PORT_INDEX \<Longrightarrow> p = INPUT_PORT_INDEX \<or> p = OUTPUT_PORT_INDEX"
proof -
  assume "p \<le> OUTPUT_PORT_INDEX"
  then have "unat p = 0 \<or> unat p = 1" by (simp add: OUTPUT_PORT_INDEX_def word_le_nat_alt) linarith
  then show ?thesis by (auto simp: INPUT_PORT_INDEX_def OUTPUT_PORT_INDEX_def word_unat_eq_iff)
qed

lemma free_shape:
  assumes wf: "comp_wf c" and sh: "buf_shape c = (i, o', ids)" and b: "b \<noteq> 0"
    and find: "find_bufhead (m_port c p) b = Some k" and p: "p \<le> OUTPUT_PORT_INDEX"
  shows "p = INPUT_PORT_INDEX \<Longrightarrow> buf_shape (snd (free_buffer_internal E p b c)) =
      ((case i of (t, cur, mx) \<Rightarrow> (t[k := 0], cur - 1, mx)), o', ids(b := None))"
    "p \<noteq> INPUT_PORT_INDEX \<Longrightarrow> buf_shape (snd (free_buffer_internal E p b c)) =
      (i, (case o' of (t, cur, mx) \<Rightarrow> (t[k := 0], cur - 1, mx)), ids(b := None))"
    "wild (snd (free_buffer_internal E p b c)) = wild c"
proof -
  have "p = INPUT_PORT_INDEX \<or> p = OUTPUT_PORT_INDEX" using port_index_cases [OF p] .
  moreover have "b \<in> set (m_omx_bufhead (m_port c p))"
    using find by (auto simp: find_bufhead_def find_index_Some)
  ultimately obtain h d where h: "hdrs c b = Some h" "port_private p h = Some d"
    using wf b sh by (auto simp: comp_wf_def buf_shape_def port_shape_def bufhead_wf_def m_port_def port_private_def hdr_ids_def
        INPUT_PORT_INDEX_def OUTPUT_PORT_INDEX_def)
  then have free: "snd (free_buffer_internal E p b c) = m_port_update p (\<lambda>q. q\<lparr>m_port_populated := False,
      m_omx_bufhead := (m_omx_bufhead q)[k := 0], m_cur_buf_num := m_cur_buf_num q - 1\<rparr>)
    ((release_desc E d c)\<lparr>hdrs := (hdrs c)(b := None)\<rparr>)"
    using b find by (simp add: free_buffer_internal_def Let_def)
  then show "wild (snd (free_buffer_internal E p b c)) = wild c" by (simp add: m_port_update_def)
  have r: "m_inport (release_desc E d c) = m_inport c" "m_outport (release_desc E d c) = m_outport c"
    by (simp_all add: release_desc_def Let_def drv_def)
  show "p = INPUT_PORT_INDEX \<Longrightarrow> buf_shape (snd (free_buffer_internal E p b c)) =
      ((case i of (t, cur, mx) \<Rightarrow> (t[k := 0], cur - 1, mx)), o', ids(b := None))"
    "p \<noteq> INPUT_PORT_INDEX \<Longrightarrow> buf_shape (snd (free_buffer_internal E p b c)) =
      (i, (case o' of (t, cur, mx) \<Rightarrow> (t[k := 0], cur - 1, mx)), ids(b := None))"
    using sh unfolding free by (auto simp: m_port_update_def buf_shape_def port_shape_def r)
qed

lemma free_not_found: "b = 0 \<or> find_bufhead (m_port c p) b = None \<Longrightarrow> snd (free_buffer_internal E p b c) = c"
  by (auto simp: free_buffer_internal_def)

lemma bufhead_wf_forget:
  assumes "bufhead_wf n ids mk x" "ids b \<noteq> Some (mk b)"
  shows "bufhead_wf n (ids(b := None)) mk x"
  using assms by (auto simp: bufhead_wf_def)

lemma comp_wf_free:
  assumes wf: "comp_wf c" and p: "p \<le> OUTPUT_PORT_INDEX"
  shows "comp_wf (snd (free_buffer_internal E p b c)) \<and> wild (snd (free_buffer_internal E p b c)) = wild c"
proof (cases "b = 0 \<or> find_bufhead (m_port c p) b = None")
  case True
  then show ?thesis using wf free_not_found [of b c p E] by simp
next
  case False
  then obtain k where k: "find_bufhead (m_port c p) b = Some k" and b: "b \<noteq> 0" by auto
  obtain ti ci mi to co mo ids where sh: "buf_shape c = ((ti, ci, mi), (to, co, mo), ids)" by (metis prod_cases3)
  note free = free_shape [OF wf sh b k p, of E]
  have wf': "bufhead_wf DEF_MAX_IN_BUF_CNT ids (\<lambda>a. (Some a, None)) (ti, ci, mi)" "bufhead_wf DEF_MAX_OUT_BUF_CNT ids (\<lambda>a. (None, Some a)) (to, co, mo)"
    using wf sh by (simp_all add: comp_wf_def)
  show ?thesis
  proof (cases "p = INPUT_PORT_INDEX")
    case True
    then have "find_index (\<lambda>a. a = b) (take mi ti) = Some k" using k sh by (simp add: find_bufhead_def m_port_def buf_shape_def port_shape_def)
    from bufhead_wf_remove [OF wf'(1) this b] bufhead_wf_forget [OF wf'(2), of b] show ?thesis
      using free(1,3) True by (simp add: comp_wf_def)
  next
    case False
    then have "find_index (\<lambda>a. a = b) (take mo to) = Some k" using k sh by (simp add: find_bufhead_def m_port_def buf_shape_def port_shape_def)
    from bufhead_wf_remove [OF wf'(2) this b] bufhead_wf_forget [OF wf'(1), of b] show ?thesis
      using free(2,3) False by (simp add: comp_wf_def)
  qed
qed

text \<open>Setting a parameter may lower the limit of a port; it keeps everything else of the shape.\<close>

lemma set_parameter_shape:
  assumes "buf_shape c = ((ti, ci, mi), (to, co, mo), ids)"
  shows "\<exists>mi' mo'. mi' \<le> mi \<and> mo' \<le> mo \<and> buf_shape (snd (set_parameter P sp c)) = ((ti, ci, mi'), (to, co, mo'), ids)"
proof (cases sp)
  case (Port_Definition pd)
  show ?thesis
    using assms unfolding Port_Definition
    by (auto simp: set_port_definition_def Let_def case_prod_beta update_picture_info_def m_port_update_def m_port_def buf_shape_def port_shape_def)
qed (use assms in \<open>auto simp: set_port_format_def set_component_role_def select_codec_def config_compress_format_def
      set_channel_attributes_def enable_native_buffers_def set_fast_output_def set_codec_param_def Let_def shapes split: option.splits\<close>)

lemma bufhead_wf_lower: "bufhead_wf n ids mk (t, cur, mx) \<Longrightarrow> mx' \<le> mx \<Longrightarrow> bufhead_wf n ids mk (t, cur, mx')"
  by (auto simp: bufhead_wf_def)

lemma comp_wf_shape: "buf_shape c' = buf_shape c \<Longrightarrow> comp_wf c' = comp_wf c"
  by (simp add: comp_wf_def)

lemma allocate_use_shape:
  "\<exists>x. adds E port c x \<and> (buf_shape (snd (allocate_buffer P E port app bytes c)) = buf_shape c \<or>
     buf_shape (snd (allocate_buffer P E port app bytes c)) = buf_shape (snd x))"
  "\<exists>x. adds E port c x \<and> (buf_shape (snd (use_buffer P E port app bytes buf c)) = buf_shape c \<or>
     buf_shape (snd (use_buffer P E port app bytes buf c)) = buf_shape (snd x))"
proof -
  show "\<exists>x. adds E port c x \<and> (buf_shape (snd (allocate_buffer P E port app bytes c)) = buf_shape c \<or>
     buf_shape (snd (allocate_buffer P E port app bytes c)) = buf_shape (snd x))"
    by (rule exI [of _ "allocate_buffer_internal E app port bytes c"])
      (simp add: adds_internal allocate_buffer_def case_prod_beta Let_def shapes)
  let ?x = "case buf of Plain a \<Rightarrow> use_buffer_internal E app port bytes a c
    | Native nh \<Rightarrow> (if m_use_native_buf c \<and> port = OUTPUT_PORT_INDEX
        then use_android_native_buffer_internal E app port bytes nh c else use_buffer_internal E app port bytes (nh_address nh) c)"
  have "adds E port c ?x" by (cases buf) (simp_all add: adds_internal)
  moreover have "buf_shape (snd (use_buffer P E port app bytes buf c)) = buf_shape c \<or>
     buf_shape (snd (use_buffer P E port app bytes buf c)) = buf_shape (snd ?x)"
    by (cases buf) (simp_all add: use_buffer_def case_prod_beta Let_def shapes)
  ultimately show "\<exists>x. adds E port c x \<and> (buf_shape (snd (use_buffer P E port app bytes buf c)) = buf_shape c \<or>
     buf_shape (snd (use_buffer P E port app bytes buf c)) = buf_shape (snd x))" by blast
qed

lemma free_buffer_shape:
  "buf_shape (snd (free_buffer P E port b c)) = buf_shape c \<or>
   port \<le> OUTPUT_PORT_INDEX \<and> buf_shape (snd (free_buffer P E port b c)) = buf_shape (snd (free_buffer_internal E port b c))"
  by (simp add: free_buffer_def case_prod_beta Let_def shapes not_less)

fun changes_buffers :: "comp_op \<Rightarrow> bool" where
  "changes_buffers (Allocate_Buffer _ _ _) = True"
| "changes_buffers (Use_Buffer _ _ _ _) = True"
| "changes_buffers (Free_Buffer _ _) = True"
| "changes_buffers (Set_Parameter _) = True"
| "changes_buffers _ = False"

lemma comp_do_shape:
  assumes step: "comp_do P E oper c = Some c'" and "\<not> changes_buffers oper"
  shows "buf_shape c' = buf_shape c"
proof (cases oper)
  case (Client_Write b len off ts fl)
  have "buf_shape (write_hdr b (\<lambda>h. h\<lparr>nFilledLen := len, nOffset := off, nTimeStamp := ts, nFlags := fl\<rparr>) c) = buf_shape c"
    by (rule shape_write_hdr) (simp add: hdr_ids_def)
  then show ?thesis using step Client_Write by simp
next
  case Event_Thread
  then show ?thesis using step shape_event_thread by simp
next
  case Command_Return
  then show ?thesis using step by (auto simp: command_return_def shapes split: if_splits)
next
  case (Set_Mirror port mir)
  then show ?thesis using step by (cases mir) (auto simp: set_mirror_def shapes)
qed (use assms in \<open>auto simp: send_command_def set_callbacks_def Let_def shapes\<close>)

lemma comp_do_wf:
  assumes wf: "comp_wf c" and fresh: "malloc_fresh E c" and step: "comp_do P E oper c = Some c'"
  shows "comp_wf c'"
proof (cases oper)
  case (Allocate_Buffer port app bytes)
  then have "c' = snd (allocate_buffer P E port app bytes c)" using step by simp
  then show ?thesis
    using allocate_use_shape(1) [of E port c P app bytes] comp_wf_adds [OF wf fresh] wf comp_wf_shape by metis
next
  case (Use_Buffer port app bytes buf)
  then have "c' = snd (use_buffer P E port app bytes buf c)" using step by simp
  then show ?thesis
    using allocate_use_shape(2) [of E port c P app bytes buf] comp_wf_adds [OF wf fresh] wf comp_wf_shape by metis
next
  case (Free_Buffer port b)
  then have "c' = snd (free_buffer P E port b c)" using step by simp
  then show ?thesis
    using free_buffer_shape [of P E port b c] comp_wf_free [OF wf] wf comp_wf_shape by metis
next
  case (Set_Parameter sp)
  obtain ti ci mi to co mo ids where sh: "buf_shape c = ((ti, ci, mi), (to, co, mo), ids)" by (metis prod_cases3)
  from set_parameter_shape [OF sh, of P sp] show ?thesis
    using step wf sh unfolding Set_Parameter by (auto simp: comp_wf_def intro: bufhead_wf_lower)
qed (use comp_wf_shape [OF comp_do_shape [OF step]] wf in auto)

lemma fresh_wf: "comp_wf (fresh_comp P I)"
  by (simp add: comp_wf_def fresh_comp_def buf_shape_def port_shape_def ports_init_in_def ports_init_out_def bufhead_wf_def
    places_used_def table_distinct_def)

text \<open>The components that the three parties can bring about, in any order.\<close>

inductive comp_reach :: "'q comp_platform \<Rightarrow> 'q comp \<Rightarrow> bool" for P where
  init: "component_init P I = (Inr c, acts) \<Longrightarrow> comp_reach P c"
| step: "comp_reach P c \<Longrightarrow> malloc_fresh E c \<Longrightarrow> comp_do P E oper c = Some c' \<Longrightarrow> comp_reach P c'"

lemma comp_reach_wf: "comp_reach P c \<Longrightarrow> comp_wf c"
  by (induction rule: comp_reach.induct) (auto dest: component_init_fresh simp: fresh_wf intro: comp_do_wf)

definition comp_step :: "'q comp_platform \<Rightarrow> 'q comp \<Rightarrow> 'q comp \<Rightarrow> bool" where
  "comp_step P c c' \<longleftrightarrow> (\<exists>E oper. malloc_fresh E c \<and> comp_do P E oper c = Some c')"

section \<open>Places that are counted and not used\<close>

definition short_port :: "u32 list \<times> nat \<times> nat \<Rightarrow> bool" where
  "short_port = (\<lambda>(t, cur, mx). places_used t < cur)"

definition lost :: "'q comp \<Rightarrow> u32 \<Rightarrow> bool" where
  "lost c p \<longleftrightarrow> short_port (port_shape (m_port c p))"

lemma lost_shape: "buf_shape c' = buf_shape c \<Longrightarrow> lost c' p = lost c p"
  by (auto simp: lost_def buf_shape_def m_port_def)

lemma lost_split: "buf_shape c = (i, o', ids) \<Longrightarrow> lost c p \<longleftrightarrow> short_port (if p = INPUT_PORT_INDEX then i else o')"
  by (auto simp: lost_def buf_shape_def m_port_def)

lemma short_add: "short_port (t, cur, mx) \<Longrightarrow> k < length t \<Longrightarrow> short_port (t[k := a], Suc cur, mx)"
  using places_used_le [of k t a] by (simp add: short_port_def)

lemma lost_adds:
  assumes wf: "comp_wf c" and adds: "adds E p c x" and l: "lost c p'"
  shows "lost (snd x) p'"
proof -
  obtain r a c' where x: "x = ((r, a), c')" by (cases x) auto
  obtain ti ci mi to co mo ids where sh: "buf_shape c = ((ti, ci, mi), (to, co, mo), ids)" by (metis prod_cases3)
  have len: "mi \<le> length ti" "mo \<le> length to" using wf sh by (auto simp: comp_wf_def bufhead_wf_def)
  show ?thesis
  proof (cases "r = OMX_ErrorNone")
    case False
    then show ?thesis using adds l lost_shape [of c' c p'] by (simp add: x adds_def)
  next
    case True
    then obtain buf len' app d where d: "m_cur_buf_num (m_port c p) < max_count (m_port c p)" "d_client_data d = a"
      "buf_shape c' = buf_shape (init_bufhead p (m_cur_buf_num (m_port c p)) a buf len' app d c)"
      using adds by (auto simp: x adds_def)
    have "m_cur_buf_num (m_port c p) < length (if p = INPUT_PORT_INDEX then ti else to)"
      using d(1) len sh by (auto simp: buf_shape_def port_shape_def m_port_def split: if_splits)
    then show ?thesis
      using l shape_added [OF sh d(2), of p "m_cur_buf_num (m_port c p)" buf len' app]
      by (cases "p = INPUT_PORT_INDEX") (auto simp: x lost_split [OF sh] lost_split d(3) short_add split: if_splits)
  qed
qed

lemma lost_free:
  assumes wf: "comp_wf c" and p: "p \<le> OUTPUT_PORT_INDEX" and l: "lost c p'"
  shows "lost (snd (free_buffer_internal E p b c)) p'"
proof (cases "b = 0 \<or> find_bufhead (m_port c p) b = None")
  case True
  then show ?thesis using l free_not_found [of b c p E] by simp
next
  case False
  then obtain k where k: "find_bufhead (m_port c p) b = Some k" and b: "b \<noteq> 0" by auto
  obtain ti ci mi to co mo ids where sh: "buf_shape c = ((ti, ci, mi), (to, co, mo), ids)" by (metis prod_cases3)
  note free = free_shape [OF wf sh b k p, of E]
  have wf': "bufhead_wf DEF_MAX_IN_BUF_CNT ids (\<lambda>a. (Some a, None)) (ti, ci, mi)" "bufhead_wf DEF_MAX_OUT_BUF_CNT ids (\<lambda>a. (None, Some a)) (to, co, mo)"
    using wf sh by (simp_all add: comp_wf_def)
  have "find_index (\<lambda>a. a = b) (if p = INPUT_PORT_INDEX then take mi ti else take mo to) = Some k"
    using k sh by (auto simp: find_bufhead_def m_port_def buf_shape_def port_shape_def)
  then have "places_used (ti[k := 0]) + 1 = places_used ti \<or> p \<noteq> INPUT_PORT_INDEX"
    "places_used (to[k := 0]) + 1 = places_used to \<or> p = INPUT_PORT_INDEX"
    using bufhead_wf_remove(3) [OF wf'(1) _ b, of k] bufhead_wf_remove(3) [OF wf'(2) _ b, of k] by (auto split: if_splits)
  then show ?thesis
    using l free(1,2) by (cases "p = INPUT_PORT_INDEX") (auto simp: lost_split [OF sh] lost_split short_port_def split: if_splits)
qed

lemma comp_do_lost:
  assumes wf: "comp_wf c" and l: "lost c p" and step: "comp_do P E oper c = Some c'"
  shows "lost c' p"
proof (cases oper)
  case (Allocate_Buffer port app bytes)
  then have "c' = snd (allocate_buffer P E port app bytes c)" using step by simp
  moreover obtain x where "adds E port c x" "buf_shape (snd (allocate_buffer P E port app bytes c)) = buf_shape c \<or>
      buf_shape (snd (allocate_buffer P E port app bytes c)) = buf_shape (snd x)"
    using allocate_use_shape(1) by blast
  ultimately show ?thesis using lost_adds [OF wf _ l, of E port x] lost_shape [of c' _ p] l by auto
next
  case (Use_Buffer port app bytes buf)
  then have "c' = snd (use_buffer P E port app bytes buf c)" using step by simp
  moreover obtain x where "adds E port c x" "buf_shape (snd (use_buffer P E port app bytes buf c)) = buf_shape c \<or>
      buf_shape (snd (use_buffer P E port app bytes buf c)) = buf_shape (snd x)"
    using allocate_use_shape(2) by blast
  ultimately show ?thesis using lost_adds [OF wf _ l, of E port x] lost_shape [of c' _ p] l by auto
next
  case (Free_Buffer port b)
  then have "c' = snd (free_buffer P E port b c)" using step by simp
  then show ?thesis
    using free_buffer_shape [of P E port b c] lost_free [OF wf _ l, of port E b] lost_shape [of c' _ p] l by auto
next
  case (Set_Parameter sp)
  obtain ti ci mi to co mo ids where sh: "buf_shape c = ((ti, ci, mi), (to, co, mo), ids)" by (metis prod_cases3)
  from set_parameter_shape [OF sh, of P sp] show ?thesis
    using step l unfolding Set_Parameter by (auto simp: lost_split [OF sh] lost_split short_port_def split: if_splits)
qed (use lost_shape [OF comp_do_shape [OF step]] l in auto)

lemma lost_forever:
  assumes "(comp_step P)\<^sup>*\<^sup>* c c'" "comp_wf c" "lost c p"
  shows "comp_wf c' \<and> lost c' p"
  using assms by (induction rule: rtranclp_induct) (auto simp: comp_step_def intro: comp_do_wf comp_do_lost)

lemma lost_not_empty: "lost c p \<Longrightarrow> p \<le> OUTPUT_PORT_INDEX \<Longrightarrow> \<not> ports_all_empty c"
  using port_index_cases [of p] by (auto simp: lost_def short_port_def port_shape_def ports_all_empty_def comp_port_empty_def)

text \<open>Adding a buffer when the next place is taken: the header that was there is lost.\<close>

lemma adds_overwrites:
  assumes wf: "comp_wf c" and fresh: "malloc_fresh E c" and p: "p \<le> OUTPUT_PORT_INDEX" and adds: "adds E p c ((OMX_ErrorNone, a), c')"
    and b: "b = m_omx_bufhead (m_port c p) ! m_cur_buf_num (m_port c p)" "b \<noteq> 0"
  shows "lost c' p" "find_bufhead (m_port c' p) b = None" "hdrs c' b \<noteq> None"
proof -
  obtain ti ci mi to co mo ids where sh: "buf_shape c = ((ti, ci, mi), (to, co, mo), ids)" by (metis prod_cases3)
  define t where "t = (if p = INPUT_PORT_INDEX then ti else to)"
  define k where "k = m_cur_buf_num (m_port c p)"
  have t: "m_omx_bufhead (m_port c p) = t" "max_count (m_port c p) = (if p = INPUT_PORT_INDEX then mi else mo)"
    "k = (if p = INPUT_PORT_INDEX then ci else co)"
    using sh by (auto simp: t_def k_def buf_shape_def port_shape_def m_port_def)
  obtain buf len app d where d: "malloc_hdr E = Some a" "k < max_count (m_port c p)" "d_client_data d = a"
    "buf_shape c' = buf_shape (init_bufhead p k a buf len app d c)"
    using adds by (auto simp: adds_def k_def)
  have wf': "k < length t" "table_distinct t" "places_used t \<le> k" "ids b \<noteq> None"
    using wf sh d(2) t b port_index_cases [OF p] unfolding t_def k_def [symmetric]
    by (auto simp: comp_wf_def bufhead_wf_def split: if_splits dest!: nth_mem)
  have new: "a \<noteq> 0" "ids a = None" using fresh d(1) sh by (auto simp: malloc_fresh_def buf_shape_def)
  note sh' = shape_added [OF sh d(3), of p k buf len app]
  have bk: "t ! k = b" using b t(1) by (simp add: k_def)
  have c': "port_shape (m_port c' p) = (t[k := a], Suc k, max_count (m_port c p))" "map_option hdr_ids (hdrs c' b) = ids b"
    using sh' d(4) t wf'(4) new(2) by (cases "p = INPUT_PORT_INDEX"; auto simp: buf_shape_def t_def m_port_def fun_eq_iff)+
  have "b \<notin> set (t[k := a])"
  proof
    assume "b \<in> set (t[k := a])"
    then obtain j where "j < length t" "t[k := a] ! j = b" by (auto simp: in_set_conv_nth)
    then show False
      using wf'(1,2,4) new(2) bk b(2) by (cases "j = k") (auto simp: table_distinct_def)
  qed
  then have "b \<notin> set (take n (t[k := a]))" for n by (blast dest: in_set_takeD)
  then show "find_bufhead (m_port c' p) b = None"
    using c'(1) by (auto simp: find_bufhead_def port_shape_def find_index_None)
  show "hdrs c' b \<noteq> None" using c'(2) wf'(4) by auto
  show "lost c' p"
    using places_used_update [OF wf'(1), of a] wf'(3) bk b(2) new(1) by (simp add: lost_def c'(1) short_port_def)
qed

text \<open>A run in which \<open>malloc\<close> returns fresh addresses, computed.\<close>

fun fresh_run :: "'q comp_platform \<Rightarrow> (comp_env \<times> comp_op) list \<Rightarrow> 'q comp \<Rightarrow> 'q comp option" where
  "fresh_run P [] c = Some c"
| "fresh_run P ((E, oper) # ops) c =
     (if malloc_fresh E c then Option.bind (comp_do P E oper c) (fresh_run P ops) else None)"

lemma fresh_run_reach: "comp_reach P c \<Longrightarrow> fresh_run P ops c = Some c' \<Longrightarrow> comp_reach P c'"
  by (induction P ops c rule: fresh_run.induct) (auto simp: bind_eq_Some_conv split: if_splits intro: comp_reach.step)

end
