(* ===== verification/Omx_Component_Properties.thy ===== *)
theory Omx_Component_Properties
  imports Omx_Component_Buffers
begin

text \<open>
  The properties of the OMX component: the clients that wait are answered, the state machine is that of the
  standard, the tables of the ports stay within their bounds; and three faults. The
  concrete runs use a queue that is a list.
\<close>

section \<open>A platform and an environment for concrete runs\<close>

definition list_platform :: "event list comp_platform" where
  "list_platform = \<lparr>init_event_queue = [], push_entry = (\<lambda>e x. x @ [e]), pop_entry = (\<lambda>x. (hd x, tl x)), get_q_size = length,
     OMX_BUFFERFLAG_EOS = 1, HI_SYS_GET_STRIDE = (\<lambda>w. w), codec_trans_list = [], OMX_VIDEO_CodingRV = 1,
     OMX_VIDEO_CodingVP6 = 2, OMX_VIDEO_CodingUnused = 0\<rparr>"

definition comp_example_env :: "u32 option \<Rightarrow> comp_env" where
  "comp_example_env a = \<lparr>drv_ok = (\<lambda>_. True), new_handle = 1, write_ok = (\<lambda>_. True), malloc_hdr = a, malloc_desc_ok = True,
     HI_MMZ_GetPhyaddr = Some, alloc_contigous = Some (0x100000, 0x200000, 0x1000), new_thread_id = 5,
     cb_result = (\<lambda>_. OMX_ErrorNone)\<rparr>"

definition example_init :: init_env where
  "example_init = \<lparr>name_ok = True, private_ok = True, async_pipe_ok = True, pipe_ok = True, in_table_ok = True, out_table_ok = True,
     drv_context_ok = True, init_handle = - 1,
     init_drv_cfg = \<lparr>cfg_width = 0, cfg_height = 0, cfg_stride = 0, cfg_inbuf_num = 0, cfg_outbuf_num = 0,
       cfg_color_format = OMX_PIX_FMT_NV12, cfg_eVidStd = STD_H264, s32ChanErrThr = 0, s32ChanPriority = 0,
       s32ChanStrmOFThr = 0, s32DecMode = 0, s32DecOrderOutput = 0, s32LowdlyEnable = False, std_ext = No_Ext\<rparr>\<rparr>"

definition example_comp :: "event list comp" where
  "example_comp = fresh_comp list_platform example_init"

abbreviation plain :: "comp_op \<Rightarrow> comp_env \<times> comp_op" where
  "plain oper \<equiv> (comp_example_env None, oper)"

definition port_counts :: "u32 \<Rightarrow> u32 \<Rightarrow> u32 \<Rightarrow> port_definition" where
  "port_counts p n len = \<lparr>nPortIndex = p, nBufferCountActual = n, nBufferCountMin = n, nBufferSize = len, nFrameWidth = 0,
     nFrameHeight = 0, nStride = 0, nSliceHeight = 0, xFramerate = 0, bEnabled = True, bPopulated = False,
     eCompressionFormat = 0, eColorFormat = None\<rparr>"

text \<open>One input buffer and three output buffers, and the way from Loaded to Executing, but for the last event.\<close>

definition to_start :: "(comp_env \<times> comp_op) list" where
  "to_start = map plain [Set_Callbacks, Set_Parameter (Port_Definition (port_counts 0 1 4096)),
      Set_Parameter (Port_Definition (port_counts 1 3 0)), Send_Command (OMX_CommandStateSet OMX_StateIdle), Event_Thread,
      Command_Return] @
    [(comp_example_env (Some 16), Allocate_Buffer 0 0 4096), (comp_example_env (Some 17), Allocate_Buffer 1 0 0),
     (comp_example_env (Some 18), Allocate_Buffer 1 0 0), (comp_example_env (Some 19), Allocate_Buffer 1 0 0)] @
    map plain [Event_Thread, Send_Command (OMX_CommandStateSet OMX_StateExecuting), Event_Thread, Command_Return,
      Message (Posted (Msg VDEC_MSG_RESP_START_DONE 0 NO_DATA))]"

text \<open>Two commands that wait; the component before and after it starts to execute; and two input buffers, of which the first was freed.\<close>

definition two_commands :: "event list comp" where
  "two_commands = the (comp_run list_platform (map plain [Send_Command (OMX_CommandStateSet OMX_StateIdle),
      Send_Command (OMX_CommandFlush OMX_ALL)]) example_comp)"

definition starting_comp :: "event list comp" where
  "starting_comp = the (orderly_run list_platform id to_start example_comp)"

definition executing_comp :: "event list comp" where
  "executing_comp = the (comp_do list_platform (comp_example_env None) Event_Thread starting_comp)"

definition two_buffers_ops :: "(comp_env \<times> comp_op) list" where
  "two_buffers_ops = map plain [Set_Callbacks, Send_Command (OMX_CommandStateSet OMX_StateIdle), Event_Thread, Command_Return] @
     [(comp_example_env (Some 16), Allocate_Buffer 0 0 0x200000), (comp_example_env (Some 17), Allocate_Buffer 0 0 0x200000),
      (comp_example_env None, Free_Buffer 0 16)]"

definition two_buffers :: "event list comp" where
  "two_buffers = the (fresh_run list_platform two_buffers_ops example_comp)"

text \<open>A flush of the input, with a buffer handed in before it is complete, and again after that.\<close>

definition returned_buffer_ops :: "(comp_env \<times> comp_op) list" where
  "returned_buffer_ops = map plain
     [Event_Thread, Send_Command (OMX_CommandFlush (PORT INPUT_PORT_INDEX)), Event_Thread, Command_Return,
      Message (Posted (Msg VDEC_MSG_RESP_FLUSH_INPUT_DONE 0 NO_DATA)), Empty_This 16, Event_Thread,
      Empty_This 16, Event_Thread,
      Message (Posted (Msg VDEC_MSG_RESP_INPUT_DONE 0 (BUF_DATA (zero_desc\<lparr>d_client_data := 16\<rparr>)))), Event_Thread, Event_Thread]"

fun is_submit :: "comp_out \<Rightarrow> bool" where
  "is_submit (Called (CHANNEL_SUBMIT_STREAM d) ok) = ok"
| "is_submit _ = False"

lemma list_platform_ok: "event_queue_ok list_platform id"
  by (simp add: event_queue_ok_def list_platform_def)

lemma example_env_writes [simp]: "pipe_writes (comp_example_env a)"
  by (simp add: pipe_writes_def comp_example_env_def)

lemma example_comp_init: "\<exists>acts. component_init list_platform example_init = (Inr example_comp, acts)"
  by (simp add: component_init_def example_init_def example_comp_def Let_def)

lemma two_buffers_reach: "comp_reach list_platform two_buffers"
proof -
  have "fresh_run list_platform two_buffers_ops example_comp \<noteq> None" by code_simp
  then have "fresh_run list_platform two_buffers_ops example_comp = Some two_buffers" by (auto simp: two_buffers_def)
  then show ?thesis using example_comp_init fresh_run_reach comp_reach.init by metis
qed

section \<open>Properties\<close>



text \<open>C5: The state machine of the component implements that of the OMX standard. Towards a client that asks for a state only when
  no transition is under way, whatever else it does, and whatever the driver reports, every step leaves the state
  and the request alone, accepts or refuses a request, or carries it out; and the state changes only to
  the one that was asked for, along a transition that the standard allows.\<close>

theorem state_machine_refines_standard:
  assumes "event_queue_ok P q" and "orderly_reach P q c" and "pipe_writes E" and "in_turn q oper c"
    and "comp_do P E oper c = Some c'"
  shows "omx_spec (spec_state q c) (spec_state q c') \<and>
    (m_state c' \<noteq> m_state c \<longrightarrow> omx_legal (m_state c) (m_state c') \<and> asked q c = [m_state c'] \<and> asked q c' = [])"
proof -
  have ok: "commands_ok q c" "transitions_ok q c" using orderly_reach_ok [OF assms(1,2)] by simp_all
  have step: "omx_spec (spec_state q c) (spec_state q c')"
    using comp_do_spec_step [OF assms(1,3) ok assms(4,5)] by (simp add: spec_step_def)
  moreover have "omx_legal (m_state c) (m_state c') \<and> asked q c = [m_state c'] \<and> asked q c' = []" if "m_state c' \<noteq> m_state c"
    using step that ok(2)
    by (auto simp: spec_state_def omx_spec_simps transitions_ok_def split: list.splits)
  ultimately show ?thesis by blast
qed

theorem state_machine_refines_standard_witness:
  "m_state starting_comp = OMX_StateIdle \<and> m_state executing_comp = OMX_StateExecuting \<and>
    omx_spec (spec_state id starting_comp) (spec_state id executing_comp) \<and> asked id starting_comp = [OMX_StateExecuting]"
proof -
  have "orderly_run list_platform id to_start example_comp \<noteq> None" by code_simp
  then have run: "orderly_run list_platform id to_start example_comp = Some starting_comp" by (auto simp: starting_comp_def)
  have "\<forall>x \<in> set to_start. pipe_writes (fst x)" by (simp add: to_start_def)
  moreover have "orderly_reach list_platform id example_comp" using example_comp_init by (auto intro: orderly_reach.init)
  ultimately have reach: "orderly_reach list_platform id starting_comp" using orderly_run_reach run by blast
  have states: "m_state starting_comp = OMX_StateIdle" "m_state executing_comp = OMX_StateExecuting" by code_simp+
  have "comp_do list_platform (comp_example_env None) Event_Thread starting_comp \<noteq> None" by code_simp
  then have "comp_do list_platform (comp_example_env None) Event_Thread starting_comp = Some executing_comp"
    by (auto simp: executing_comp_def)
  from state_machine_refines_standard [OF list_platform_ok reach _ _ this] states show ?thesis by (simp add: in_turn_def)
qed



text \<open>C36: A new buffer is entered at the place whose number is the number of buffers, but a buffer may be freed at any place. When the
  place is still taken, its header is overwritten: it is alive, no longer found, so that freeing it is refused, and from then on
  the ports are never all empty again, so the way back to Loaded, which waits for that, stays closed.\<close>

theorem overwritten_header_never_freed:
  assumes "comp_reach P c" and "malloc_fresh E c" and "p \<le> OUTPUT_PORT_INDEX"
    and "allocate_buffer_internal E app p bytes c = ((OMX_ErrorNone, a), c')"
    and "b = m_omx_bufhead (m_port c p) ! m_cur_buf_num (m_port c p)" and "b \<noteq> 0"
  shows "hdrs c' b \<noteq> None \<and> fst (free_buffer_internal E' p b c') = OMX_ErrorBadParameter \<and>
    (\<forall>c''. (comp_step P)\<^sup>*\<^sup>* c' c'' \<longrightarrow> \<not> ports_all_empty c'')"
proof -
  have wf: "comp_wf c" using comp_reach_wf [OF assms(1)] .
  have adds: "adds E p c ((OMX_ErrorNone, a), c')" using adds_internal(1) [of E p c app bytes] by (simp add: assms(4))
  note over = adds_overwrites [OF wf assms(2,3) adds assms(5,6)]
  have "comp_wf c'" using comp_wf_adds [OF wf assms(2) adds] by simp
  then have "\<not> ports_all_empty c''" if "(comp_step P)\<^sup>*\<^sup>* c' c''" for c''
    using lost_forever [OF that _ over(1)] lost_not_empty assms(3) by blast
  then show ?thesis using over(2,3) assms(6) by (simp add: free_buffer_internal_def)
qed

theorem overwritten_header_never_freed_witness:
  "\<not> ports_all_empty (snd (allocate_buffer_internal (comp_example_env (Some 18)) 0 0 0x200000 two_buffers)) \<and>
    fst (free_buffer_internal (comp_example_env None) 0 17
      (snd (allocate_buffer_internal (comp_example_env (Some 18)) 0 0 0x200000 two_buffers))) = OMX_ErrorBadParameter"
proof -
  let ?x = "allocate_buffer_internal (comp_example_env (Some 18)) 0 0 0x200000 two_buffers"
  have "fst ?x = (OMX_ErrorNone, 18)" by code_simp
  then have x: "?x = ((OMX_ErrorNone, 18), snd ?x)" by (metis prod.collapse)
  have fresh: "malloc_fresh (comp_example_env (Some 18)) two_buffers" by code_simp
  have "m_omx_bufhead (m_port two_buffers 0) ! m_cur_buf_num (m_port two_buffers 0) = 17" by code_simp
  from overwritten_header_never_freed [OF two_buffers_reach fresh _ x this [symmetric]] show ?thesis
    by (simp add: OUTPUT_PORT_INDEX_def)
qed


text \<open>A flush of the input that the driver refuses leaves the port marked as being flushed. Every stream that is handed in after
  that is reported to the client as consumed, with nothing left in its buffer, and never reaches the driver.\<close>

theorem failed_flush_discards_streams:
  assumes "\<not> drv_ok E (CHANNEL_FLUSH_PORT s)" and "s = PORT INPUT_PORT_INDEX \<or> s = OMX_ALL"
    and "hdrs c b = Some h" and "b \<noteq> 0"
  shows "let c1 = snd (handle_command_flush E s c); (r, c2) = empty_this_buffer_proxy P E' b c1 in
    r = OMX_ErrorNone \<and> outs c2 = outs c1 \<and> hdrs c2 b = Some (h\<lparr>nFilledLen := 0\<rparr>) \<and>
    (event_queue_ok P q \<longrightarrow> q (m_etb_q c2) = q (m_etb_q c1) @ [Ebd b VDEC_S_SUCCESS])"
proof -
  have s: "\<not> bad_port s" using assms(2) by (auto simp: INPUT_PORT_INDEX_def OUTPUT_PORT_INDEX_def)
  let ?c1 = "snd (handle_command_flush E s c)"
  have c1: "m_port_flushing (m_inport ?c1)" "hdrs ?c1 b = Some h"
    using assms s by (auto simp: handle_command_flush_def Let_def drv_def flushing_def omx_report_error_def omx_report_event_def
        set_pending_def)
  let ?w = "write_hdr b (\<lambda>h. h\<lparr>nFilledLen := 0\<rparr>) ?c1"
  have "empty_this_buffer_proxy P E' b ?c1 = (OMX_ErrorNone, post P E' (Ebd b VDEC_S_SUCCESS) ?w)"
    using c1(1) assms(4) by (simp add: empty_this_buffer_proxy_def)
  moreover have "hdrs ?w b = Some (h\<lparr>nFilledLen := 0\<rparr>)" "outs ?w = outs ?c1" "m_etb_q ?w = m_etb_q ?c1"
    using c1(2) by (simp_all add: write_hdr_def)
  moreover have "event_queue_ok P q \<Longrightarrow> q (m_etb_q (post P E' (Ebd b VDEC_S_SUCCESS) ?w)) = q (m_etb_q ?w) @ [Ebd b VDEC_S_SUCCESS]"
    by (simp add: post_event_def Let_def event_queueD)
  ultimately show ?thesis by (simp add: Let_def)
qed

theorem failed_flush_discards_streams_witness:
  "let c1 = snd (handle_command_flush ((comp_example_env None)\<lparr>drv_ok := (\<lambda>_. False)\<rparr>) OMX_ALL two_buffers);
     (r, c2) = empty_this_buffer_proxy list_platform (comp_example_env None) 17 c1 in
   r = OMX_ErrorNone \<and> outs c2 = outs c1 \<and> m_etb_q c2 = m_etb_q c1 @ [Ebd 17 VDEC_S_SUCCESS]"
proof -
  let ?E = "(comp_example_env None)\<lparr>drv_ok := (\<lambda>_. False)\<rparr>"
  have "hdrs two_buffers 17 \<noteq> None" by code_simp
  then obtain h where h: "hdrs two_buffers 17 = Some h" by auto
  have "\<not> drv_ok ?E (CHANNEL_FLUSH_PORT OMX_ALL)" by simp
  from failed_flush_discards_streams [OF this _ h, of list_platform "comp_example_env None" id] show ?thesis
    using list_platform_ok by (simp add: case_prod_beta Let_def)
qed

end
