(* ===== verification/Omx_Composition.thy ===== *)
theory Omx_Composition
  imports Omx_Behaviour Omx_Component_Properties
begin

text \<open>
  The driver and the component together: what the driver of \<open>Omx_Channel\<close> and \<open>Omx_Processor\<close> posts is
  what \<open>message_process\<close> of \<open>Omx_Component\<close> takes, and the descriptors that the component binds are those the driver enters.
\<close>

section \<open>A component and channels for concrete runs\<close>

definition ready_comp :: "event list comp" where
  "ready_comp = snd (set_callbacks True True True example_comp)"

definition shown_chan :: OMXVDEC_CHAN_CTX where
  "shown_chan = example_chan\<lparr>out_port := example_out_port\<lparr>bufs := [(example_buf 0x5000 0 BUF_STATE_USING)\<lparr>client_data := 17\<rparr>,
     example_buf 0x6000 1 BUF_STATE_QUEUED]\<rparr>\<rparr>"

definition shown_frame :: HI_DRV_VIDEO_FRAME_S where
  "shown_frame = zero_video_frame\<lparr>stBufAddr_0 := zero_addr\<lparr>u32PhyAddr_Y := 0x5000, u32Stride_Y := 64\<rparr>, u32Height := 32, f_u32FrameRate := 25,
     s64OmxPts := 40000\<rparr>"

definition unbound_chan :: OMXVDEC_CHAN_CTX where
  "unbound_chan = picture_chan\<lparr>in_port := \<lparr>bufs = [zero_buf, zero_buf], buf_num = 0, max_buf_num = 2, queue = [], use_cnt = 0,
     flush_pending = False\<rparr>\<rparr>"

lemmas evaluate_shown = evaluate_frames shown_chan_def shown_frame_def zero_video_frame_def zero_addr_def processor_report_frame_def port_at_def

lemmas evaluate_bind = use_buffer_internal_def drv_def init_bufhead_def m_port_def m_port_update_def INPUT_PORT_INDEX_def port_dir_of_def zero_desc_def
  unbound_chan_def channel_bind_user_buffer_def channel_insert_addr_table_def side_insert_def channel_map_kernel_viraddr_def port_full_def
  port_insert_def

lemmas evaluate_comp = ready_comp_def set_callbacks_def example_comp_def fresh_comp_def example_init_def list_platform_def ports_init_in_def
  DEF_MAX_IN_BUF_CNT_def comp_example_env_def Let_def

section \<open>One event\<close>

text \<open>The event thread reads a byte and processes the entry that belongs to it.\<close>

lemma event_thread_turn:
  assumes "event_queue_ok P q" and "m_pipe k = ident e # is" and "q (the_queue (queue_of (ident e)) k) = e # es"
  shows "\<exists>x. event_thread_step P E k = process_entry P E e (set_queue (queue_of (ident e)) x (k\<lparr>m_pipe := is\<rparr>))"
proof -
  have "the_queue j (k\<lparr>m_pipe := is\<rparr>) = the_queue j k" for j by (cases j) simp_all
  then show ?thesis using assms event_queueD(3,6) [OF assms(1)] assms(3)
    by (simp add: event_thread_step_def event_process_def Let_def case_prod_beta) blast
qed

lemma post_event_turn:
  assumes "event_queue_ok P q" and "pipe_writes E" and "m_pipe k = []" and "q (the_queue (queue_of (ident e)) k) = []"
  shows "m_pipe (post P E e k) = [ident e]" "q (the_queue (queue_of (ident e)) (post P E e k)) = [e]"
  using assms by (cases "queue_of (ident e)"; simp add: post_event_def pipe_writes_def event_queueD)+

lemma post_event_keeps [simp]:
  "outs (post P E e k) = outs k" "hdrs (post P E e k) = hdrs k" "m_outport (post P E e k) = m_outport k" "m_cb (post P E e k) = m_cb k"
  "pic_width (post P E e k) = pic_width k" "pic_height (post P E e k) = pic_height k" "pic_stride (post P E e k) = pic_stride k"
  by (cases "queue_of (ident e)"; simp add: post_event_def Let_def)+

lemma set_queue_keeps [simp]:
  "outs (set_queue j x k) = outs k" "hdrs (set_queue j x k) = hdrs k" "m_outport (set_queue j x k) = m_outport k" "m_cb (set_queue j x k) = m_cb k"
  "pic_width (set_queue j x k) = pic_width k" "pic_height (set_queue j x k) = pic_height k" "pic_stride (set_queue j x k) = pic_stride k"
  by (cases j; simp)+

section \<open>A new picture size\<close>



section \<open>A frame and its time stamp\<close>

lemma report_frame_messages:
  assumes "processor_report_frame G c f = (HI_SUCCESS, c')" and "port_at (out_port c) (u32PhyAddr_Y (stBufAddr_0 f)) = Some i"
    and "queue (out_port c) \<noteq> []" and "u32PhyAddr_Y (stBufAddr_0 f) \<noteq> 0"
  shows "\<exists>ms. msgs c' = msgs c @ output_done (reported_desc G c (port_buf (out_port c) i) f) # ms"
  using assms by (auto simp: processor_report_frame_def Let_def frames_done_def answer_pause_def answer_flush_def output_done_def message_queue_def)

lemma output_done_message:
  assumes "d_client_data d = a" and "a \<noteq> 0" and "hdrs k a = Some h" and "find_bufhead (m_outport k) a = Some j" and "d_u32FrameRate d \<noteq> 0"
    and "event_queue_ok P q" and "pipe_writes E" and "m_pipe k = []" and "q (m_ftb_q k) = []"
  defines "k1 \<equiv> message_process P E (Posted (output_done d)) k"
  shows "\<exists>is. m_pipe k1 = ident (Fbd a VDEC_S_SUCCESS) # is" "q (the_queue (queue_of (ident (Fbd a VDEC_S_SUCCESS))) k1) = [Fbd a VDEC_S_SUCCESS]"
    "outs k1 = outs k" "m_cb k1 = m_cb k" "m_outport k1 = m_outport k"
    "hdrs k1 a = Some (h\<lparr>nFilledLen := if m_port_flushing (m_outport k) then 0 else data_len d, nFlags := d_flags d,
       nTimeStamp := if sint (timestamp d) < 0 then m_pre_timestamp k + of_nat (1000000 div unat (d_u32FrameRate d)) else timestamp d\<rparr>)"
proof -
  define d' where "d' = (if m_port_flushing (m_outport k) then d\<lparr>data_len := 0\<rparr> else d)"
  have d': "d_client_data d' = a" "d_u32FrameRate d' = d_u32FrameRate d" "timestamp d' = timestamp d" "d_flags d' = d_flags d"
    "data_len d' = (if m_port_flushing (m_outport k) then 0 else data_len d)" using assms(1) by (simp_all add: d'_def)
  define k2 where "k2 = output_stamp d' a (of_nat (1000000 div unat (d_u32FrameRate d))) (k\<lparr>m_frame_rate := d_u32FrameRate d\<rparr>)"
  have k2: "m_pipe k2 = []" "q (m_ftb_q k2) = []" "outs k2 = outs k" "m_cb k2 = m_cb k" "m_outport k2 = m_outport k"
    "hdrs k2 a = Some (h\<lparr>nFilledLen := if m_port_flushing (m_outport k) then 0 else data_len d, nFlags := d_flags d,
       nTimeStamp := if sint (timestamp d) < 0 then m_pre_timestamp k + of_nat (1000000 div unat (d_u32FrameRate d)) else timestamp d\<rparr>)"
    using assms(3,8,9) by (simp_all add: k2_def output_stamp_def write_hdr_def Let_def d')
  have "k1 = (if d_flags d AND OMX_BUFFERFLAG_EOS P \<noteq> 0 then post P E Eos_Done (post P E (Fbd a VDEC_S_SUCCESS) k2)
      else post P E (Fbd a VDEC_S_SUCCESS) k2)"
    using assms(2,4,5) d' by (simp add: k1_def output_done_def output_done_msg_def Let_def k2_def frame_interval_def flip: d'_def)
  then show "\<exists>is. m_pipe k1 = ident (Fbd a VDEC_S_SUCCESS) # is" "q (the_queue (queue_of (ident (Fbd a VDEC_S_SUCCESS))) k1) = [Fbd a VDEC_S_SUCCESS]"
    "outs k1 = outs k" "m_cb k1 = m_cb k" "m_outport k1 = m_outport k"
    "hdrs k1 a = Some (h\<lparr>nFilledLen := if m_port_flushing (m_outport k) then 0 else data_len d, nFlags := d_flags d,
       nTimeStamp := if sint (timestamp d) < 0 then m_pre_timestamp k + of_nat (1000000 div unat (d_u32FrameRate d)) else timestamp d\<rparr>)"
    using k2 assms(7) by (simp_all add: post_event_def pipe_writes_def event_queueD [OF assms(6)])
qed



section \<open>A plain buffer\<close>

text \<open>C35: A buffer of plain memory that the client brings stops the output. The component binds it with a descriptor whose stride was never
  set, and the driver takes over the stride of every buffer that is bound, also of an input buffer; from then on it refuses
  every request for a frame of the picture size it has, because the stride is less than the width.\<close>

theorem plain_buffer_stops_output:
  assumes "use_buffer_internal E app p bytes buf k = ((OMX_ErrorNone, a), k')" and "outs k' = outs k @ [Called (CHANNEL_BIND_BUFFER d) True]"
    and "channel_bind_user_buffer X V c d w = (HI_SUCCESS, c', w')" and "out_width c \<noteq> 0"
    and "u32FrmW f = out_width c" and "u32FrmH f = out_height c"
  shows "stride (out_frame d) = 0 \<and> processor_get_frame_buffer V c' f = (HI_FAILURE, f, c')"
proof -
  have d: "stride (out_frame d) = 0"
    using assms(1,2) by (auto simp: use_buffer_internal_def drv_def init_bufhead_def m_port_update_def Let_def zero_desc_def zero_frame_def
        split: if_splits option.splits)
  moreover have "out_width c' = out_width c \<and> out_height c' = out_height c \<and> out_stride c' = 0"
    using assms(3) d by (auto simp: channel_bind_user_buffer_def channel_insert_addr_table_def Let_def split: if_splits prod.splits ePORT_DIR.splits)
  ultimately show ?thesis using assms(4-6) by (simp add: processor_get_frame_buffer_def word_gt_0)
qed

theorem plain_buffer_stops_output_witness:
  "let x = use_buffer_internal (comp_example_env (Some 30)) 0 0 0x200000 0x7000 ready_comp in fst x = (OMX_ErrorNone, 30) \<and>
    (\<exists>d c' w'. outs (snd x) = [Called (CHANNEL_BIND_BUFFER d) True] \<and>
      channel_bind_user_buffer example_env example_vpss unbound_chan d example_world = (HI_SUCCESS, c', w') \<and>
      processor_get_frame_buffer example_vpss unbound_chan picture_request \<noteq> (HI_FAILURE, picture_request, unbound_chan) \<and>
      processor_get_frame_buffer example_vpss c' picture_request = (HI_FAILURE, picture_request, c'))"
proof -
  let ?x = "use_buffer_internal (comp_example_env (Some 30)) 0 0 0x200000 0x7000 ready_comp"
  let ?d = "zero_desc\<lparr>bufferaddr := 0x7000, phyaddr := 0x7000, buffer_len := 0x200000, d_client_data := 30, buffer_type := OMX_USE_OTHER\<rparr>"
  let ?b = "channel_bind_user_buffer example_env example_vpss unbound_chan ?d example_world"
  have "fst ?x = (OMX_ErrorNone, 30)" and o: "outs (snd ?x) = [Called (CHANNEL_BIND_BUFFER ?d) True]" and k: "outs ready_comp = []"
    by (simp_all add: evaluate_comp evaluate_bind)
  then obtain k' where x: "?x = ((OMX_ErrorNone, 30), k')" by (metis prod.collapse)
  have "fst ?b = HI_SUCCESS" by (simp add: evaluate_frames evaluate_bind)
  then obtain c' w' where b: "?b = (HI_SUCCESS, c', w')" by (metis prod.collapse)
  have c: "out_width unbound_chan \<noteq> 0" "u32FrmW picture_request = out_width unbound_chan" "u32FrmH picture_request = out_height unbound_chan"
    and get: "fst (processor_get_frame_buffer example_vpss unbound_chan picture_request) = HI_SUCCESS"
    by (simp_all add: evaluate_frames evaluate_bind)
  have o': "outs k' = outs ready_comp @ [Called (CHANNEL_BIND_BUFFER ?d) True]" using o k by (simp add: x)
  have fin: "processor_get_frame_buffer example_vpss c' picture_request = (HI_FAILURE, picture_request, c')"
    using plain_buffer_stops_output [OF x o' b c] by simp
  show ?thesis unfolding Let_def x fst_conv snd_conv
    using o' k b fin get by (intro conjI exI [of _ ?d] exI [of _ c'] exI [of _ w']) auto
qed

end
