(* ===== verification/Packet_Queue.thy ===== *)
theory Packet_Queue
  imports HiSTB_Prelude "HOL-Library.Signed_Division"
begin

text \<open>
  The packet queue of \<open>libformat_open/svr_utils.c\<close>, between the receiver of a network stream and the demultiplexer: a
  linked list of packets that own their data, a list of spare nodes, counters of the
  buffered and the readable bytes, and a limit with a hysteresis. Every operation runs under the lock of
  the queue and is one step here; a call that has to wait releases the lock, and its continuation is a step of its own.

  The counters of the source have type \<open>int\<close> and are integers here; that they stay below the limit plus one
  packet, so that no sum overflows, is one of the theorems. Every operation returns \<open>- 1\<close> at once for a null handle; the
  definitions that change the queue are on a queue that exists. Bytes read, blocks freed and packets
  handed out are results. \<open>contents\<close> and \<open>blocks\<close> are the abstract queue: the bytes that can still be
  read and the blocks of memory it owns. Both are shown to be first-in-first-out as interpretations of \<open>total_fifo\<close>.
\<close>

section \<open>Data\<close>

text \<open>A data pointer is null or names a block of memory, whose contents come with it.\<close>

record DataPacket =
  data :: "(nat \<times> u8 list) option"
  priv :: "nat option"
  data_size :: int
  buf_size :: int
  rd_idx :: int

text \<open>The two linked lists with their tails are lists; \<open>q_data_size\<close> is the member \<open>data_size\<close> of the queue.\<close>

record PKTQueue =
  fill :: "DataPacket list"
  free :: "DataPacket list"
  max_buf_size :: int
  cur_buf_size :: int
  forbidden_size :: int
  q_data_size :: int
  full :: bool
  exit :: bool
  nb_fill_node :: int
  nb_free_node :: int
  peak_buf_size :: int
  peak_data_size :: int

text \<open>What a call returns; \<open>Waits\<close>: the thread sleeps on the condition variable, with the lock released.\<close>

datatype pktq_ret = Size int | Err | Err_EINTR | Err_EAGAIN | Err_ENOMEM | Waits

section \<open>Operations\<close>

text \<open>
  The truth values say whether there is a place for the handle and whether the allocation, the mutex and the condition
  variable succeed; what is allocated is freed again when a later step fails.
\<close>

definition pktq_create :: "bool \<Rightarrow> bool \<Rightarrow> bool \<Rightarrow> bool \<Rightarrow> int \<Rightarrow> int \<Rightarrow> pktq_ret \<times> PKTQueue option" where
  "pktq_create handle alloc mutex cond max_size forbidden =
     (if \<not> handle \<or> (forbidden > max_size \<and> max_size > 0) then (Err, None)
      else if \<not> alloc then (Err_ENOMEM, None)
      else if \<not> mutex then (Err, None)
      else if \<not> cond then (Err, None)
      else (Size 0, Some \<lparr>fill = [], free = [], max_buf_size = max_size, cur_buf_size = 0, forbidden_size = forbidden,
        q_data_size = 0, full = False, exit = False, nb_fill_node = 0, nb_free_node = 0, peak_buf_size = 0, peak_data_size = 0\<rparr>))"

definition block_of :: "DataPacket \<Rightarrow> nat list" where
  "block_of node = (case data node of None \<Rightarrow> [] | Some (b, _) \<Rightarrow> [b])"

text \<open>
  \<open>memcpy\<close> of \<open>n\<close> bytes from the read position; \<open>None\<close> if that is not inside the block.
\<close>

definition copy_bytes :: "DataPacket \<Rightarrow> int \<Rightarrow> u8 list option" where
  "copy_bytes node n =
     (if n = 0 then Some [] else
      case data node of None \<Rightarrow> None
      | Some (_, bs) \<Rightarrow>
          if 0 \<le> n \<and> 0 \<le> rd_idx node \<and> rd_idx node + n \<le> int (length bs)
          then Some (take (nat n) (drop (nat (rd_idx node)) bs)) else None)"

text \<open>A node moves from the head of the packets to the tail of the spare nodes, cleared except for \<open>priv\<close>.\<close>

definition cleared :: "DataPacket \<Rightarrow> DataPacket" where
  "cleared node = node\<lparr>data := None, data_size := 0, buf_size := 0, rd_idx := 0\<rparr>"

definition drop_head :: "PKTQueue \<Rightarrow> PKTQueue" where
  "drop_head q = (case fill q of [] \<Rightarrow> q
     | node # rest \<Rightarrow> q\<lparr>fill := rest, nb_fill_node := nb_fill_node q - 1, cur_buf_size := cur_buf_size q - buf_size node,
         free := free q @ [cleared node], nb_free_node := nb_free_node q + 1\<rparr>)"

text \<open>
  The loop of a read: bytes are copied from the head and a finished packet leaves the queue, its data freed. The result is the
  bytes, the blocks that were freed and the queue. With a byte count that is too large the loop would follow a null pointer.
\<close>

function read_loop :: "int \<Rightarrow> PKTQueue \<Rightarrow> (u8 list \<times> nat list \<times> PKTQueue) option" where
  "read_loop left q =
     (case fill q of [] \<Rightarrow> None
      | node # rest \<Rightarrow>
         (let cplen = (if data_size node > left then left else data_size node) in
          case copy_bytes node cplen of None \<Rightarrow> None
          | Some bs \<Rightarrow>
             (let node' = node\<lparr>data_size := data_size node - cplen, rd_idx := rd_idx node + cplen\<rparr>;
                  q1 = q\<lparr>fill := node' # rest, q_data_size := q_data_size q - cplen\<rparr>;
                  left' = left - cplen;
                  done = (data_size node' \<le> 0);
                  q2 = (if done then drop_head q1 else q1);
                  freed = (if done then block_of node else []) in
              if left' > 0 \<and> q_data_size q2 > 0
              then map_option (\<lambda>(bs', freed', q'). (bs @ bs', freed @ freed', q')) (read_loop left' q2)
              else Some (bs, freed, q2))))"
  by pat_completeness auto

termination
  by (relation "measure (\<lambda>(left, q). length (fill q))") (auto simp: drop_head_def split: if_splits)

text \<open>
  The deadline of a timed wait in seconds and nanoseconds: the product is computed in type \<open>long\<close>, of \<open>w\<close> bits, before it is
  stored in 64 bits.
\<close>

definition pktq_deadline :: "nat \<Rightarrow> int \<Rightarrow> int \<Rightarrow> int \<Rightarrow> int \<times> int" where
  "pktq_deadline w tv_sec tv_usec timeout_ms =
     (let ns = signed_take_bit (w - 1) ((tv_usec + signed_take_bit 31 (timeout_ms * 1000)) * 1000)
      in (tv_sec + ns sdiv 1000000000, ns smod 1000000000))"

text \<open>One pass of the loop of \<open>pktq_read\<close> under the lock; \<open>buf\<close> says that the buffer is not null.\<close>

definition pktq_read :: "PKTQueue \<Rightarrow> bool \<Rightarrow> int \<Rightarrow> int \<Rightarrow> (pktq_ret \<times> u8 list \<times> nat list \<times> PKTQueue) option" where
  "pktq_read q buf len timeout_ms =
     (if \<not> buf \<or> len \<le> 0 then Some (Err, [], [], q)
      else if exit q then Some (Err_EINTR, [], [], q)
      else if q_data_size q > 0
      then map_option (\<lambda>(bs, freed, q'). (Size (int (length bs)), bs, freed, q')) (read_loop len q)
      else if timeout_ms = 0 then Some (Err_EAGAIN, [], [], q)
      else Some (Waits, [], [], q))"

text \<open>The pass after the thread woke up, by a signal or by the timeout.\<close>

definition pktq_read_woken :: "PKTQueue \<Rightarrow> int \<Rightarrow> int \<Rightarrow> (pktq_ret \<times> u8 list \<times> nat list \<times> PKTQueue) option" where
  "pktq_read_woken q len timeout_ms =
     (if timeout_ms > 0 \<and> q_data_size q \<le> 0 then Some (Err_EAGAIN, [], [], q) else pktq_read q True len timeout_ms)"

definition bad_packet :: "DataPacket \<Rightarrow> bool" where
  "bad_packet pkt \<longleftrightarrow> buf_size pkt \<le> 0 \<or> data_size pkt > buf_size pkt \<or> rd_idx pkt > data_size pkt \<or>
     (rd_idx pkt = data_size pkt \<and> data_size pkt > 0) \<or> rd_idx pkt < 0"

text \<open>\<open>alloc\<close>: whether a new node can be allocated if there is no spare one.\<close>

definition pktq_put_pkt :: "bool \<Rightarrow> PKTQueue \<Rightarrow> DataPacket option \<Rightarrow> pktq_ret \<times> PKTQueue" where
  "pktq_put_pkt alloc q p =
     (case p of None \<Rightarrow> (Size 0, q\<lparr>exit := True\<rparr>)
      | Some pkt \<Rightarrow>
         if bad_packet pkt then (Err, q)
         else if full q \<and> cur_buf_size q < max_buf_size q \<and> max_buf_size q - cur_buf_size q \<le> forbidden_size q then (Err, q)
         else if cur_buf_size q > max_buf_size q \<and> max_buf_size q > 0 then (Err, q\<lparr>full := True\<rparr>)
         else
           (let q1 = q\<lparr>full := False\<rparr> in
            if free q1 = [] \<and> \<not> alloc then (Err_ENOMEM, q1)
            else
              (let q2 = (if free q1 \<noteq> [] then q1\<lparr>free := tl (free q1), nb_free_node := nb_free_node q1 - 1\<rparr> else q1);
                   q3 = q2\<lparr>fill := fill q2 @ [pkt], nb_fill_node := nb_fill_node q2 + 1,
                           cur_buf_size := cur_buf_size q2 + buf_size pkt, q_data_size := q_data_size q2 + data_size pkt\<rparr>
               in (Size (data_size pkt),
                   q3\<lparr>peak_buf_size := max (peak_buf_size q3) (cur_buf_size q3),
                      peak_data_size := max (peak_data_size q3) (q_data_size q3)\<rparr>))))"

definition pktq_get_pkt :: "PKTQueue \<Rightarrow> bool \<Rightarrow> int \<Rightarrow> pktq_ret \<times> DataPacket option \<times> PKTQueue" where
  "pktq_get_pkt q pkt timeout_ms =
     (if \<not> pkt then (Err, None, q)
      else if exit q then (Err_EINTR, None, q)
      else case fill q of
          node # _ \<Rightarrow> (Size (data_size node), Some node, (drop_head q)\<lparr>q_data_size := q_data_size q - data_size node\<rparr>)
        | [] \<Rightarrow> if timeout_ms = 0 then (Err_EAGAIN, None, q) else (Waits, None, q))"

definition pktq_get_woken :: "PKTQueue \<Rightarrow> int \<Rightarrow> pktq_ret \<times> DataPacket option \<times> PKTQueue" where
  "pktq_get_woken q timeout_ms =
     (if timeout_ms > 0 \<and> fill q = [] then (Err_EAGAIN, None, q) else pktq_get_pkt q True timeout_ms)"

definition pktq_get_data_size :: "PKTQueue option \<Rightarrow> int" where
  "pktq_get_data_size h = (case h of None \<Rightarrow> - 1 | Some q \<Rightarrow> q_data_size q)"

definition pktq_get_buf_size :: "PKTQueue option \<Rightarrow> int" where
  "pktq_get_buf_size h = (case h of None \<Rightarrow> - 1 | Some q \<Rightarrow> cur_buf_size q)"

text \<open>The blocks freed for a packet the caller owns, and the packet zeroed.\<close>

definition pktq_free_data_packet :: "DataPacket \<Rightarrow> nat list \<times> nat option \<times> DataPacket" where
  "pktq_free_data_packet node = (block_of node, priv node, \<lparr>data = None, priv = None, data_size = 0, buf_size = 0, rd_idx = 0\<rparr>)"

function clear_loop :: "PKTQueue \<Rightarrow> nat list \<times> PKTQueue" where
  "clear_loop q =
     (case fill q of [] \<Rightarrow> ([], q)
      | node # _ \<Rightarrow>
          (let (freed, q') = clear_loop ((drop_head q)\<lparr>q_data_size := q_data_size q - data_size node\<rparr>) in (block_of node @ freed, q')))"
  by pat_completeness auto

termination
  by (relation "measure (\<lambda>q. length (fill q))") (auto simp: drop_head_def)

definition pktq_clear :: "PKTQueue \<Rightarrow> pktq_ret \<times> nat list \<times> PKTQueue" where
  "pktq_clear q = (case clear_loop q of (freed, q') \<Rightarrow> (Size 0, freed, q'))"

text \<open>The blocks and the number of nodes a destruction frees; the data of a spare node is null.\<close>

definition pktq_destroy :: "PKTQueue \<Rightarrow> pktq_ret \<times> nat list \<times> nat" where
  "pktq_destroy q = (let q1 = snd (pktq_put_pkt False q None) in
     (Size 0, concat (map block_of (fill q1)), length (fill q1) + length (free q1)))"

section \<open>The invariant\<close>

declare read_loop.simps [simp del] clear_loop.simps [simp del]

definition node_ok :: "DataPacket \<Rightarrow> bool" where
  "node_ok node \<longleftrightarrow> 0 \<le> rd_idx node \<and> 0 \<le> data_size node \<and>
     (case data node of None \<Rightarrow> data_size node = 0 | Some (_, bs) \<Rightarrow> rd_idx node + data_size node \<le> int (length bs))"

definition bytes_of :: "DataPacket \<Rightarrow> u8 list" where
  "bytes_of node = (case data node of None \<Rightarrow> [] | Some (_, bs) \<Rightarrow> take (nat (data_size node)) (drop (nat (rd_idx node)) bs))"

definition contents :: "PKTQueue \<Rightarrow> u8 list" where
  "contents q = concat (map bytes_of (fill q))"

definition blocks :: "PKTQueue \<Rightarrow> nat list" where
  "blocks q = concat (map block_of (fill q))"

definition counts_ok :: "PKTQueue \<Rightarrow> bool" where
  "counts_ok q \<longleftrightarrow> q_data_size q = sum_list (map data_size (fill q)) \<and> cur_buf_size q = sum_list (map buf_size (fill q)) \<and>
     nb_fill_node q = int (length (fill q)) \<and> nb_free_node q = int (length (free q))"

definition pktq_wf :: "PKTQueue \<Rightarrow> bool" where
  "pktq_wf q \<longleftrightarrow> list_all node_ok (fill q) \<and> counts_ok q"

lemma length_bytes: "node_ok node \<Longrightarrow> int (length (bytes_of node)) = data_size node"
  by (auto simp: node_ok_def bytes_of_def split: option.splits)

lemma length_contents: "pktq_wf q \<Longrightarrow> int (length (contents q)) = q_data_size q"
proof -
  assume wf: "pktq_wf q"
  have "int (length (concat (map bytes_of ns))) = sum_list (map data_size ns)" if "list_all node_ok ns" for ns
    using that by (induction ns) (simp_all add: length_bytes)
  then show ?thesis using wf by (simp add: pktq_wf_def counts_ok_def contents_def)
qed

lemma copy_bytes_ok:
  assumes "node_ok node" "0 \<le> n" "n \<le> data_size node"
  shows "copy_bytes node n = Some (take (nat n) (bytes_of node))"
  using assms by (auto simp: copy_bytes_def node_ok_def bytes_of_def split: option.splits)

lemma advance_ok:
  assumes "node_ok node" "0 \<le> n" "n \<le> data_size node"
  defines "node' \<equiv> node\<lparr>data_size := data_size node - n, rd_idx := rd_idx node + n\<rparr>"
  shows "node_ok node'" "bytes_of node' = drop (nat n) (bytes_of node)"
  using assms by (auto simp: node'_def node_ok_def bytes_of_def drop_take nat_add_distrib nat_diff_distrib add.commute split: option.splits)

lemma drop_head_fields:
  assumes "fill q = node # rest"
  shows "fill (drop_head q) = rest" "q_data_size (drop_head q) = q_data_size q" "max_buf_size (drop_head q) = max_buf_size q"
    "cur_buf_size (drop_head q) = cur_buf_size q - buf_size node" "length (free (drop_head q)) = Suc (length (free q))"
    "nb_fill_node (drop_head q) = nb_fill_node q - 1" "nb_free_node (drop_head q) = nb_free_node q + 1"
  using assms by (simp_all add: drop_head_def)

text \<open>One round of the read loop that uses \<open>n\<close> bytes of the head.\<close>

lemma round_wf:
  assumes wf: "pktq_wf q" and f: "fill q = node # rest" and n: "0 \<le> n" "n \<le> data_size node"
  defines "q1 \<equiv> q\<lparr>fill := node\<lparr>data_size := data_size node - n, rd_idx := rd_idx node + n\<rparr> # rest, q_data_size := q_data_size q - n\<rparr>"
  shows "pktq_wf q1" "contents q = take (nat n) (bytes_of node) @ contents q1" "blocks q1 = blocks q"
proof -
  have ok: "node_ok node" using wf f by (simp add: pktq_wf_def)
  note a = advance_ok [OF ok n]
  show "pktq_wf q1" using wf f a(1) by (simp add: q1_def pktq_wf_def counts_ok_def)
  show "contents q = take (nat n) (bytes_of node) @ contents q1" using f a(2) by (simp add: q1_def contents_def)
  show "blocks q1 = blocks q" using f by (simp add: q1_def blocks_def block_of_def)
qed

lemma retire_wf:
  assumes wf: "pktq_wf q" and f: "fill q = node # rest"
  defines "q1 \<equiv> (drop_head q)\<lparr>q_data_size := q_data_size q - data_size node\<rparr>"
  shows "pktq_wf q1" "contents q = bytes_of node @ contents q1" "blocks q = block_of node @ blocks q1"
  using wf f by (simp_all add: q1_def pktq_wf_def counts_ok_def contents_def blocks_def drop_head_fields [OF f])

lemma retire_empty:
  assumes wf: "pktq_wf q" and f: "fill q = node # rest" and z: "data_size node = 0"
  shows "pktq_wf (drop_head q)" "contents (drop_head q) = contents q" "blocks q = block_of node @ blocks (drop_head q)"
proof -
  have "node_ok node" using wf f by (simp add: pktq_wf_def)
  then have b: "bytes_of node = []" using length_bytes [of node] z by simp
  have e: "(drop_head q)\<lparr>q_data_size := q_data_size q - data_size node\<rparr> = drop_head q" using f z by (simp add: drop_head_def)
  show "pktq_wf (drop_head q)" "contents (drop_head q) = contents q" "blocks q = block_of node @ blocks (drop_head q)"
    using retire_wf [OF wf f] b unfolding e by simp_all
qed

section \<open>Sequences of calls\<close>

text \<open>
  The calls of the two threads in the order in which they take the lock; \<open>Woken_\<close> is the pass of a waiting call
  after its wake-up. A step says which packets the queue accepted, which bytes a reader got and which
  blocks left the queue, freed or handed to the caller.
\<close>

datatype pktq_op = Put bool "DataPacket option" | Read bool int int | Get bool int | Woken_read int int | Woken_get int | Clear

definition accepted :: "pktq_ret \<Rightarrow> DataPacket option \<Rightarrow> DataPacket list" where
  "accepted r p = (case (r, p) of (Size _, Some pkt) \<Rightarrow> [pkt] | _ \<Rightarrow> [])"

definition of_get :: "pktq_ret \<times> DataPacket option \<times> PKTQueue \<Rightarrow> DataPacket list \<times> u8 list \<times> nat list \<times> PKTQueue" where
  "of_get x = (case x of (r, node, q') \<Rightarrow>
     ([], (case node of None \<Rightarrow> [] | Some n \<Rightarrow> bytes_of n), (case node of None \<Rightarrow> [] | Some n \<Rightarrow> block_of n), q'))"

fun pktq_apply :: "PKTQueue \<Rightarrow> pktq_op \<Rightarrow> (DataPacket list \<times> u8 list \<times> nat list \<times> PKTQueue) option" where
  "pktq_apply q (Put alloc p) = (case pktq_put_pkt alloc q p of (r, q') \<Rightarrow> Some (accepted r p, [], [], q'))"
| "pktq_apply q (Read buf len t) = map_option (\<lambda>(_, bs, freed, q'). ([], bs, freed, q')) (pktq_read q buf len t)"
| "pktq_apply q (Woken_read len t) = map_option (\<lambda>(_, bs, freed, q'). ([], bs, freed, q')) (pktq_read_woken q len t)"
| "pktq_apply q (Get pkt t) = Some (of_get (pktq_get_pkt q pkt t))"
| "pktq_apply q (Woken_get t) = Some (of_get (pktq_get_woken q t))"
| "pktq_apply q Clear = (case pktq_clear q of (_, freed, q') \<Rightarrow> Some ([], [], freed, q'))"

definition byte_step :: "PKTQueue \<Rightarrow> pktq_op \<Rightarrow> (u8 list \<times> u8 list \<times> PKTQueue) option" where
  "byte_step q op = map_option (\<lambda>(ps, bs, freed, q'). (concat (map bytes_of ps), bs, q')) (pktq_apply q op)"

definition block_step :: "PKTQueue \<Rightarrow> pktq_op \<Rightarrow> (nat list \<times> nat list \<times> PKTQueue) option" where
  "block_step q op = map_option (\<lambda>(ps, bs, freed, q'). (concat (map block_of ps), freed, q')) (pktq_apply q op)"

text \<open>What the writer owes the queue: the announced bytes are inside the block, and no buffer is larger than \<open>B\<close>.\<close>

definition op_ok :: "int \<Rightarrow> pktq_op \<Rightarrow> bool" where
  "op_ok B op = (case op of Put _ (Some pkt) \<Rightarrow> node_ok pkt \<and> buf_size pkt \<le> B | _ \<Rightarrow> True)"

definition keeps_bytes :: "int \<Rightarrow> pktq_op \<Rightarrow> bool" where
  "keeps_bytes B op \<longleftrightarrow> op_ok B op \<and> op \<noteq> Clear"

section \<open>The bounds\<close>

definition sized :: "DataPacket \<Rightarrow> bool" where
  "sized node \<longleftrightarrow> 0 < buf_size node \<and> 0 \<le> data_size node \<and> data_size node \<le> buf_size node"

definition within :: "int \<Rightarrow> int \<Rightarrow> PKTQueue \<Rightarrow> bool" where
  "within M B q \<longleftrightarrow> max_buf_size q = M \<and> (0 < M \<longrightarrow> cur_buf_size q \<le> M + B \<and> peak_buf_size q \<le> M + B)"

definition bounds_ok :: "int \<Rightarrow> int \<Rightarrow> PKTQueue \<Rightarrow> bool" where
  "bounds_ok M B q \<longleftrightarrow> list_all sized (fill q) \<and> within M B q \<and> cur_buf_size q \<le> peak_buf_size q \<and> q_data_size q \<le> peak_data_size q"

definition queue_ok :: "int \<Rightarrow> int \<Rightarrow> PKTQueue \<Rightarrow> bool" where
  "queue_ok M B q \<longleftrightarrow> pktq_wf q \<and> bounds_ok M B q"

lemma bounds_shrink:
  assumes "bounds_ok M B q" "list_all sized (fill q')" "cur_buf_size q' \<le> cur_buf_size q" "q_data_size q' \<le> q_data_size q"
    "max_buf_size q' = max_buf_size q" "peak_buf_size q' = peak_buf_size q" "peak_data_size q' = peak_data_size q"
  shows "bounds_ok M B q'"
  using assms by (auto simp: bounds_ok_def within_def)

lemma drop_head_bounds:
  assumes "bounds_ok M B q"
  shows "bounds_ok M B (drop_head q)"
  using assms by (intro bounds_shrink [OF assms]) (auto simp: drop_head_def bounds_ok_def sized_def split: list.splits)

lemma retire_bounds:
  assumes "bounds_ok M B q" "fill q = node # rest"
  shows "bounds_ok M B ((drop_head q)\<lparr>q_data_size := q_data_size q - data_size node\<rparr>)"
  using assms by (intro bounds_shrink [OF assms(1)]) (auto simp: drop_head_def bounds_ok_def sized_def)

lemma data_le_buf:
  assumes "queue_ok M B q"
  shows "0 \<le> q_data_size q" "q_data_size q \<le> cur_buf_size q"
proof -
  have "0 \<le> sum_list (map data_size ns) \<and> sum_list (map data_size ns) \<le> sum_list (map buf_size ns)" if "list_all sized ns" for ns
    using that by (induction ns) (auto simp: sized_def)
  then show "0 \<le> q_data_size q" "q_data_size q \<le> cur_buf_size q"
    using assms by (auto simp: queue_ok_def bounds_ok_def pktq_wf_def counts_ok_def)
qed

lemma round_bounds:
  assumes "bounds_ok M B q" "fill q = node # rest" "0 \<le> n" "n \<le> data_size node"
  shows "bounds_ok M B (q\<lparr>fill := node\<lparr>data_size := data_size node - n, rd_idx := rd_idx node + n\<rparr> # rest, q_data_size := q_data_size q - n\<rparr>)"
  using assms by (intro bounds_shrink [OF assms(1)]) (auto simp: bounds_ok_def sized_def)

section \<open>Every call keeps the invariant\<close>

lemma read_loop_spec:
  assumes "queue_ok M B q" "0 < left" "0 < q_data_size q"
  shows "\<exists>bs freed q'. read_loop left q = Some (bs, freed, q') \<and> queue_ok M B q' \<and> contents q = bs @ contents q' \<and>
    int (length bs) = min left (q_data_size q) \<and> blocks q = freed @ blocks q'"
  using assms
proof (induction left q rule: read_loop.induct)
  case (1 left q)
  have wf: "pktq_wf q" and bd: "bounds_ok M B q" using "1.prems"(1) by (simp_all add: queue_ok_def)
  have "fill q \<noteq> []" using wf "1.prems"(3) by (auto simp: pktq_wf_def counts_ok_def)
  then obtain node rest where f: "fill q = node # rest" by (cases "fill q") auto
  have ok: "node_ok node" using wf f by (simp add: pktq_wf_def)
  define n where "n = (if data_size node > left then left else data_size node)"
  have n: "0 \<le> n" "n \<le> data_size node" "n \<le> left" using "1.prems"(2) ok by (auto simp: n_def node_ok_def)
  have cp: "copy_bytes node n = Some (take (nat n) (bytes_of node))" using copy_bytes_ok [OF ok n(1,2)] .
  have ln: "int (length (take (nat n) (bytes_of node))) = n" using length_bytes [OF ok] n by simp
  let ?node = "node\<lparr>data_size := data_size node - n, rd_idx := rd_idx node + n\<rparr>"
  define q1 where "q1 = q\<lparr>fill := ?node # rest, q_data_size := q_data_size q - n\<rparr>"
  note r = round_wf [OF wf f n(1,2), folded q1_def]
  define fin where "fin = (data_size ?node \<le> 0)"
  define q2 where "q2 = (if fin then drop_head q1 else q1)"
  define fr where "fr = (if fin then block_of node else [])"
  have f1: "fill q1 = ?node # rest" by (simp add: q1_def)
  have z: "data_size ?node = 0" if fin using that n(2) by (simp add: fin_def)
  have q2: "pktq_wf q2" "contents q = take (nat n) (bytes_of node) @ contents q2" "blocks q = fr @ blocks q2"
    "q_data_size q2 = q_data_size q - n"
    using r retire_empty [OF r(1) f1] z drop_head_fields [OF f1] f by (auto simp: q2_def fr_def q1_def block_of_def)
  have "bounds_ok M B q2" using round_bounds [OF bd f n(1,2), folded q1_def] drop_head_bounds by (simp add: q2_def)
  then have q2ok: "queue_ok M B q2" using q2(1) by (simp add: queue_ok_def)
  have unf: "read_loop left q = (if left - n > 0 \<and> q_data_size q2 > 0
      then map_option (\<lambda>(bs', freed', q'). (take (nat n) (bytes_of node) @ bs', fr @ freed', q')) (read_loop (left - n) q2)
      else Some (take (nat n) (bytes_of node), fr, q2))"
    by (subst read_loop.simps) (simp only: f list.case Let_def n_def [symmetric] cp option.case q1_def [symmetric] fin_def [symmetric] q2_def [symmetric] fr_def [symmetric])
  show ?case
  proof (cases "left - n > 0 \<and> q_data_size q2 > 0")
    case False
    have "0 \<le> q_data_size q2" using length_contents [OF q2(1)] by linarith
    then have "n = min left (q_data_size q)" using False q2(4) n "1.prems"(3) by auto
    then show ?thesis using False q2 q2ok ln unfolding unf by auto
  next
    case True
    have "\<exists>bs freed q'. read_loop (left - n) q2 = Some (bs, freed, q') \<and> queue_ok M B q' \<and> contents q2 = bs @ contents q' \<and>
      int (length bs) = min (left - n) (q_data_size q2) \<and> blocks q2 = freed @ blocks q'"
      using True q2ok f cp
      by (intro "1.IH" [OF f n_def cp refl q1_def refl fin_def q2_def fr_def]) auto
    then show ?thesis using q2 ln True unfolding unf by auto
  qed
qed

lemma clear_loop_spec:
  assumes "queue_ok M B q" "clear_loop q = (freed, q')"
  shows "queue_ok M B q' \<and> blocks q = freed \<and> fill q' = []"
  using assms
proof (induction q arbitrary: freed rule: clear_loop.induct)
  case (1 q)
  show ?case
  proof (cases "fill q")
    case Nil
    then show ?thesis using "1.prems" by (simp add: clear_loop.simps [of q] blocks_def)
  next
    case (Cons node rest)
    let ?q = "(drop_head q)\<lparr>q_data_size := q_data_size q - data_size node\<rparr>"
    obtain fr where fr: "clear_loop ?q = (fr, q')" "freed = block_of node @ fr"
      using "1.prems"(2) by (auto simp: clear_loop.simps [of q] Cons split: prod.splits)
    have wf: "pktq_wf q" "bounds_ok M B q" using "1.prems"(1) by (simp_all add: queue_ok_def)
    have "queue_ok M B ?q" using retire_wf(1) [OF wf(1) Cons] retire_bounds [OF wf(2) Cons] by (simp add: queue_ok_def)
    from "1.IH" [OF Cons this fr(1)] show ?thesis using retire_wf(3) [OF wf(1) Cons] fr(2) by simp
  qed
qed

lemma pktq_read_spec:
  assumes "queue_ok M B q"
  shows "\<exists>r bs freed q'. pktq_read q buf len t = Some (r, bs, freed, q') \<and> queue_ok M B q' \<and> contents q = bs @ contents q' \<and>
    blocks q = freed @ blocks q' \<and>
    (buf \<and> 0 < len \<and> \<not> exit q \<and> 0 < q_data_size q \<longrightarrow> r = Size (int (length bs)) \<and> int (length bs) = min len (q_data_size q))"
  using read_loop_spec [OF assms, of len] assms by (auto simp: pktq_read_def)

lemma pktq_get_spec:
  assumes ok: "queue_ok M B q" and g: "of_get (pktq_get_pkt q pkt t) = (ps, bs, fr, q')"
  shows "ps = [] \<and> queue_ok M B q' \<and> contents q = bs @ contents q' \<and> blocks q = fr @ blocks q'"
proof -
  have wf: "pktq_wf q" "bounds_ok M B q" using ok by (simp_all add: queue_ok_def)
  show ?thesis
  proof (cases "pkt \<and> \<not> exit q \<and> fill q \<noteq> []")
    case True
    then obtain node rest where f: "fill q = node # rest" by (cases "fill q") auto
    show ?thesis using True f g retire_wf [OF wf(1) f] retire_bounds [OF wf(2) f]
      by (auto simp: of_get_def pktq_get_pkt_def queue_ok_def)
  next
    case False
    then show ?thesis using g ok by (auto simp: of_get_def pktq_get_pkt_def split: if_splits list.splits)
  qed
qed

lemma pktq_put_spec:
  assumes ok: "queue_ok M B q" and p: "\<And>pkt. p = Some pkt \<Longrightarrow> node_ok pkt \<and> buf_size pkt \<le> B" and r: "pktq_put_pkt alloc q p = (r, q')"
  shows "queue_ok M B q' \<and> contents q @ concat (map bytes_of (accepted r p)) = contents q' \<and>
    blocks q @ concat (map block_of (accepted r p)) = blocks q'"
proof -
  have wf: "pktq_wf q" "bounds_ok M B q" using ok by (simp_all add: queue_ok_def)
  show ?thesis
  proof (cases "\<exists>pkt. p = Some pkt \<and> r = Size (data_size pkt) \<and> \<not> bad_packet pkt")
    case True
    then obtain pkt where pkt: "p = Some pkt" "r = Size (data_size pkt)" "\<not> bad_packet pkt" by blast
    have s: "sized pkt" "node_ok pkt" "buf_size pkt \<le> B" using pkt p by (auto simp: sized_def bad_packet_def node_ok_def)
    have cur: "max_buf_size q > 0 \<Longrightarrow> cur_buf_size q \<le> max_buf_size q"
      using r pkt by (auto simp: pktq_put_pkt_def split: if_splits)
    have "free q \<noteq> [] \<Longrightarrow> int (length (free q) - Suc 0) = int (length (free q)) - 1" by (cases "free q") auto
    then have f: "fill q' = fill q @ [pkt]" "cur_buf_size q' = cur_buf_size q + buf_size pkt" "q_data_size q' = q_data_size q + data_size pkt"
      "nb_fill_node q' = nb_fill_node q + 1" "nb_free_node q' - int (length (free q')) = nb_free_node q - int (length (free q))"
      "max_buf_size q' = max_buf_size q" "peak_buf_size q' = max (peak_buf_size q) (cur_buf_size q')"
      "peak_data_size q' = max (peak_data_size q) (q_data_size q')"
      using r pkt by (auto simp: pktq_put_pkt_def Let_def split: if_splits)
    have "pktq_wf q'" using wf(1) f s by (auto simp: pktq_wf_def counts_ok_def)
    moreover have "bounds_ok M B q'" using wf(2) f s cur by (auto simp: bounds_ok_def within_def)
    ultimately show ?thesis using f(1) pkt by (simp add: queue_ok_def contents_def blocks_def accepted_def)
  next
    case False
    then have e: "q' = q\<lparr>full := full q', exit := exit q'\<rparr>" "accepted r p = []"
      using r by (auto simp: pktq_put_pkt_def accepted_def Let_def split: if_splits option.splits)
    have "queue_ok M B (q\<lparr>full := full q', exit := exit q'\<rparr>) = queue_ok M B q"
      by (simp add: queue_ok_def pktq_wf_def counts_ok_def bounds_ok_def within_def)
    moreover have "contents (q\<lparr>full := full q', exit := exit q'\<rparr>) = contents q" "blocks (q\<lparr>full := full q', exit := exit q'\<rparr>) = blocks q"
      by (simp_all add: contents_def blocks_def)
    ultimately show ?thesis using ok e(2) by (simp add: e(1) [symmetric])
  qed
qed

text \<open>One call: it is defined, it keeps the invariant, and nothing is lost or doubled.\<close>

lemma apply_spec:
  assumes ok: "queue_ok M B q" and op: "op_ok B op"
  shows "\<exists>ps bs fr q'. pktq_apply q op = Some (ps, bs, fr, q') \<and> queue_ok M B q' \<and>
    blocks q @ concat (map block_of ps) = fr @ blocks q' \<and>
    (op \<noteq> Clear \<longrightarrow> contents q @ concat (map bytes_of ps) = bs @ contents q')"
proof (cases op)
  case (Put alloc p)
  obtain r q' where r: "pktq_put_pkt alloc q p = (r, q')" by (rule prod.exhaust)
  have "\<And>pkt. p = Some pkt \<Longrightarrow> node_ok pkt \<and> buf_size pkt \<le> B" using op by (simp add: op_ok_def Put)
  from pktq_put_spec [OF ok this r] show ?thesis by (simp add: Put r)
next
  case (Read buf len t)
  then show ?thesis using pktq_read_spec [OF ok, of buf len t] by auto
next
  case (Woken_read len t)
  then show ?thesis using pktq_read_spec [OF ok, of True len t] ok by (auto simp: pktq_read_woken_def)
next
  case (Get pkt t)
  obtain ps bs fr q' where g: "of_get (pktq_get_pkt q pkt t) = (ps, bs, fr, q')" by (rule prod_cases4)
  then show ?thesis using pktq_get_spec [OF ok g] by (simp add: Get)
next
  case (Woken_get t)
  obtain ps bs fr q' where g: "of_get (pktq_get_pkt q True t) = (ps, bs, fr, q')" by (rule prod_cases4)
  then show ?thesis using pktq_get_spec [OF ok g] ok by (simp add: Woken_get pktq_get_woken_def of_get_def)
next
  case Clear
  obtain fr q' where c: "clear_loop q = (fr, q')" by (rule prod.exhaust)
  then show ?thesis using clear_loop_spec [OF ok c] by (auto simp: Clear pktq_clear_def blocks_def)
qed

interpretation byte_queue: total_fifo "queue_ok M B" contents "\<lambda>_. keeps_bytes B" byte_step "keeps_bytes B" for M B
proof unfold_locales
  fix q op ins outs q'
  assume a: "queue_ok M B q" "keeps_bytes B op" and b: "byte_step q op = Some (ins, outs, q')"
  have k: "op_ok B op" "op \<noteq> Clear" using a(2) by (simp_all add: keeps_bytes_def)
  show "queue_ok M B q' \<and> contents q @ ins = outs @ contents q'"
    using apply_spec [OF a(1) k(1)] k(2) b by (auto simp: byte_step_def)
next
  fix q op
  assume a: "queue_ok M B q" "keeps_bytes B op"
  show "keeps_bytes B op \<and> (\<exists>ins outs q'. byte_step q op = Some (ins, outs, q'))"
    using apply_spec [OF a(1), of op] a(2) by (auto simp: byte_step_def keeps_bytes_def)
qed

interpretation block_queue: total_fifo "queue_ok M B" blocks "\<lambda>_. op_ok B" block_step "op_ok B" for M B
proof unfold_locales
  fix q op ins outs q'
  assume a: "queue_ok M B q" "op_ok B op" and b: "block_step q op = Some (ins, outs, q')"
  show "queue_ok M B q' \<and> blocks q @ ins = outs @ blocks q'"
    using apply_spec [OF a] b by (auto simp: block_step_def)
next
  fix q op
  assume a: "queue_ok M B q" "op_ok B op"
  show "op_ok B op \<and> (\<exists>ins outs q'. block_step q op = Some (ins, outs, q'))"
    using apply_spec [OF a] a(2) by (auto simp: block_step_def)
qed

lemma create_ok:
  assumes "pktq_create h a m c max_size forbidden = (r, Some q)" "0 \<le> B"
  shows "queue_ok max_size B q \<and> contents q = [] \<and> blocks q = [] \<and> r = Size 0"
  using assms by (auto simp: pktq_create_def queue_ok_def pktq_wf_def counts_ok_def bounds_ok_def within_def contents_def
      blocks_def split: if_splits)

section \<open>Properties\<close>

text \<open>A queue limited to 10 bytes and packets for the examples.\<close>

definition example_queue :: PKTQueue where
  "example_queue = the (snd (pktq_create True True True True 10 4))"

definition packet :: "nat \<Rightarrow> u8 list \<Rightarrow> DataPacket" where
  "packet b bs = \<lparr>data = Some (b, bs), priv = None, data_size = int (length bs), buf_size = int (length bs), rd_idx = 0\<rparr>"

definition example_calls :: "pktq_op list" where
  "example_calls = [Put True (Some (packet 1 [1, 2, 3])), Put True (Some (packet 2 [4, 5])), Read True 4 0, Get True 0]"

lemmas evaluate_queue = pktq_put_pkt_def pktq_get_pkt_def pktq_read_def read_loop.simps clear_loop.simps drop_head_def
  copy_bytes_def block_of_def bytes_of_def cleared_def bad_packet_def accepted_def of_get_def byte_step_def block_step_def
  keeps_bytes_def op_ok_def node_ok_def example_queue_def pktq_create_def packet_def example_calls_def Let_def

lemma example_queue_created: "pktq_create True True True True 10 4 = (Size 0, Some example_queue)"
  by (simp add: example_queue_def pktq_create_def)

lemma example_queue_ok: "0 \<le> B \<Longrightarrow> queue_ok 10 B example_queue"
  using create_ok [OF example_queue_created] by simp



text \<open>
  C28: every block of memory handed to the queue leaves it exactly once, in order: freed when it has been read,
  handed to the caller of \<open>pktq_get_pkt\<close>, or freed by \<open>pktq_clear\<close> or \<open>pktq_destroy\<close>, which free exactly those
  that have not left yet. So there is no leak and no double free of packet data through any sequence of calls.
\<close>

theorem pktq_blocks_leave_once:
  assumes "pktq_create True True True True max_size forbidden = (Size 0, Some q)" "0 \<le> B" "list_all (op_ok B) calls"
  shows "\<exists>taken left q'. fifo_run (\<lambda>_. op_ok B) block_step q calls = Some (taken, left, q') \<and>
    taken = left @ fst (snd (pktq_destroy q')) \<and> fst (snd (pktq_clear q')) = fst (snd (pktq_destroy q'))"
proof -
  have q: "queue_ok max_size B q" "blocks q = []" using create_ok [OF assms(1,2)] by simp_all
  have "fst (snd (pktq_clear q')) = blocks q' \<and> fst (snd (pktq_destroy q')) = blocks q'" if "queue_ok max_size B q'" for q'
  proof -
    obtain fr q1 where c: "clear_loop q' = (fr, q1)" by (rule prod.exhaust)
    then show ?thesis using clear_loop_spec [OF that c] by (simp add: pktq_clear_def pktq_destroy_def pktq_put_pkt_def blocks_def)
  qed
  then show ?thesis using block_queue.fifo_total [OF q(1) assms(3)] q(2) by fastforce
qed

theorem pktq_blocks_leave_once_witness:
  "\<exists>q'. fifo_run (\<lambda>_. op_ok 8) block_step example_queue (take 3 example_calls) = Some ([1, 2], [1], q') \<and> fst (snd (pktq_destroy q')) = [2]"
proof -
  have "list_all (op_ok 8) (take 3 example_calls)" by (simp add: evaluate_queue)
  note t = pktq_blocks_leave_once [OF example_queue_created _ this]
  have "\<exists>q'. fifo_run (\<lambda>_. op_ok 8) block_step example_queue (take 3 example_calls) = Some ([1, 2], [1], q')"
    by (simp add: evaluate_queue)
  then show ?thesis using t by auto
qed

text \<open>
  C29: after any sequence of calls on a queue with a limit the four counters agree with the lists, the readable bytes are at
  most the buffered bytes, and these never exceeded the limit by more than one packet.
\<close>

theorem pktq_bounded:
  assumes "pktq_create True True True True max_size forbidden = (Size 0, Some q)" "0 \<le> B" "list_all (op_ok B) calls" "0 < max_size"
  shows "\<exists>taken left q'. fifo_run (\<lambda>_. op_ok B) block_step q calls = Some (taken, left, q') \<and> counts_ok q' \<and>
    0 \<le> q_data_size q' \<and> q_data_size q' \<le> cur_buf_size q' \<and> cur_buf_size q' \<le> peak_buf_size q' \<and> peak_buf_size q' \<le> max_size + B"
proof -
  have q: "queue_ok max_size B q" using create_ok [OF assms(1,2)] by simp
  obtain taken left q' where r: "fifo_run (\<lambda>_. op_ok B) block_step q calls = Some (taken, left, q')" "queue_ok max_size B q'"
    using block_queue.fifo_total [OF q assms(3)] by blast
  then show ?thesis using data_le_buf [OF r(2)] assms(4) by (auto simp: queue_ok_def pktq_wf_def bounds_ok_def within_def)
qed

theorem pktq_bounded_witness:
  "\<exists>taken left q'. fifo_run (\<lambda>_. op_ok 8) block_step example_queue (take 2 example_calls) = Some (taken, left, q') \<and>
    cur_buf_size q' = 5 \<and> peak_buf_size q' \<le> 18"
proof -
  have "list_all (op_ok 8) (take 2 example_calls)" by (simp add: evaluate_queue)
  note t = pktq_bounded [OF example_queue_created _ this]
  have "\<exists>taken left q'. fifo_run (\<lambda>_. op_ok 8) block_step example_queue (take 2 example_calls) = Some (taken, left, q') \<and> cur_buf_size q' = 5"
    by (simp add: evaluate_queue)
  then show ?thesis using t by auto
qed

text \<open>
  A read from a queue that has bytes returns as many as it can, up to the length asked for, from the front of the queue and
  across packets, and leaves exactly the rest.
\<close>

theorem pktq_read_returns:
  assumes "pktq_create True True True True max_size forbidden = (Size 0, Some q0)" "0 \<le> B" "list_all (op_ok B) calls"
    "fifo_run (\<lambda>_. op_ok B) block_step q0 calls = Some (taken, left, q)" "0 < len" "\<not> exit q" "contents q \<noteq> []"
  shows "\<exists>freed q'. pktq_read q True len timeout_ms =
      Some (Size (min len (pktq_get_data_size (Some q))), take (nat len) (contents q), freed, q') \<and>
    contents q' = drop (nat len) (contents q)"
proof -
  have q: "queue_ok max_size B q"
    using block_queue.fifo_order [of max_size B q0 calls taken left q] create_ok [OF assms(1,2)] assms(4) by simp
  have l: "int (length (contents q)) = q_data_size q" using length_contents q by (simp add: queue_ok_def)
  then have "0 < q_data_size q" using assms(7) by (metis length_greater_0_conv of_nat_0_less_iff)
  then obtain bs freed q' where r: "pktq_read q True len timeout_ms = Some (Size (int (length bs)), bs, freed, q')"
    "contents q = bs @ contents q'" "int (length bs) = min len (q_data_size q)"
    using pktq_read_spec [OF q, of True len timeout_ms] assms(5,6) by auto
  then have "bs = take (nat len) (contents q) \<and> contents q' = drop (nat len) (contents q)"
    using l by (auto simp: min_def split: if_splits)
  then show ?thesis using r by (auto simp: pktq_get_data_size_def)
qed

theorem pktq_read_returns_witness:
  "\<exists>taken left q freed q'. fifo_run (\<lambda>_. op_ok 8) block_step example_queue (take 2 example_calls) = Some (taken, left, q) \<and>
    pktq_read q True 4 0 = Some (Size 4, [1, 2, 3, 4], freed, q') \<and> contents q' = [5]"
proof -
  have k: "list_all (op_ok 8) (take 2 example_calls)" by (simp add: evaluate_queue)
  have "\<exists>taken left q. fifo_run (\<lambda>_. op_ok 8) block_step example_queue (take 2 example_calls) = Some (taken, left, q) \<and>
    \<not> exit q \<and> contents q = [1, 2, 3, 4, 5] \<and> pktq_get_data_size (Some q) = 5"
    by (simp add: evaluate_queue contents_def pktq_get_data_size_def)
  then show ?thesis using pktq_read_returns [OF example_queue_created _ k, of _ _ _ 4 0] by fastforce
qed

text \<open>
  A queue that is full takes packets again only when its free size is more than the forbidden size, as the comment of the
  member \<open>forbidden_size\<close> says; but the check is skipped when the buffered bytes are exactly the limit. The queue of the
  example, with limit 10 and forbidden size 4, is filled with 16 bytes, refuses a packet, is read down to 10
  bytes and takes a packet with no free byte left.
\<close>

theorem pktq_full_queue_accepts:
  "\<exists>q q'. fifo_run (\<lambda>_. op_ok 8) block_step example_queue
       [Put True (Some (packet 1 (replicate 6 0))), Put True (Some (packet 2 (replicate 4 0))),
        Put True (Some (packet 3 (replicate 6 0))), Put True (Some (packet 4 [0])), Read True 6 0] = Some ([1, 2, 3], [1], q) \<and>
     full q \<and> max_buf_size q - cur_buf_size q \<le> forbidden_size q \<and>
     pktq_put_pkt True q (Some (packet 5 [0])) = (Size 1, q')"
  by (simp add: evaluate_queue numeral_eq_Suc)

text \<open>
  A packet whose read index is not zero may announce bytes up to the end of the buffer counted from its start;
  \<open>pktq_put_pkt\<close> takes it, and the copy of \<open>pktq_read\<close> then leaves the block.
\<close>

lemma pktq_read_leaves_block:
  defines "bad \<equiv> (packet 1 [1, 2, 3])\<lparr>rd_idx := 1\<rparr>"
  shows "\<exists>q'. pktq_put_pkt True example_queue (Some bad) = (Size 3, q') \<and> pktq_read q' True 3 0 = None"
  by (simp add: bad_def evaluate_queue)

text \<open>
  The deadline of a timed wait is exact for a timeout of at most two seconds less the microseconds of the clock;
  with a \<open>long\<close> of 32 bits a timeout of three seconds has a negative number of nanoseconds, with which
  \<open>pthread_cond_timedwait\<close> does not wait.
\<close>

lemma pktq_deadline_exact:
  assumes "32 \<le> w" "0 \<le> tv_usec" "0 \<le> timeout_ms" "tv_usec + timeout_ms * 1000 \<le> 2000000"
    "pktq_deadline w tv_sec tv_usec timeout_ms = (s, ns)"
  shows "s * 1000000000 + ns = tv_sec * 1000000000 + tv_usec * 1000 + timeout_ms * 1000000 \<and> 0 \<le> ns \<and> ns < 1000000000"
proof -
  define n where "n = (tv_usec + timeout_ms * 1000) * 1000"
  have "(2::int) ^ 31 \<le> 2 ^ (w - 1)" using assms(1) by (intro power_increasing) auto
  then have n: "0 \<le> n" "n < 2 ^ (w - 1)" "- (2 ^ (w - 1)) \<le> n" using assms(2-4) by (auto simp: n_def)
  have "signed_take_bit 31 (timeout_ms * 1000) = timeout_ms * 1000"
    using assms(2-4) by (simp add: signed_take_bit_int_eq_self_iff)
  moreover have "signed_take_bit (w - 1) n = n" using n by (simp add: signed_take_bit_int_eq_self_iff)
  ultimately have "pktq_deadline w tv_sec tv_usec timeout_ms = (tv_sec + n sdiv 1000000000, n smod 1000000000)"
    unfolding pktq_deadline_def Let_def by (simp only: n_def [symmetric])
  then have "s = tv_sec + n div 1000000000" "ns = n mod 1000000000"
    using assms(5) n(1) by (auto simp: signed_divide_int_def signed_modulo_int_def sgn_if)
  moreover have "n div 1000000000 * 1000000000 + n mod 1000000000 = n" by simp
  ultimately show ?thesis by (simp add: n_def algebra_simps)
qed

lemma pktq_deadline_wraps: "pktq_deadline 32 100 0 3000 = (99, - 294967296)" "pktq_deadline 64 100 0 3000 = (103, 0)"
  by (simp_all add: pktq_deadline_def signed_take_bit_eq_take_bit_minus take_bit_eq_mod signed_divide_int_def signed_modulo_int_def)

end
