(* ===== verification/Gf256.thy ===== *)
theory Gf256
  imports HiSTB_Prelude
begin

text \<open>
  The field of 256 elements of \<open>libformat_open/libfectest/RS_fec.h\<close>: the tables of powers and logarithms that the class \<open>G_table256\<close>
  computes, and the product of two bytes as the coder takes it from them. The type \<open>gf256\<close> is a byte as an element of the field and an
  instance of the type class \<open>field\<close>: addition is the exclusive or, the product is the one of the tables. The
  generator has order 255, so that the tables are inverse to each other, and multiplication by it is linear.
\<close>

unbundle bit_operations_syntax

section \<open>The tables\<close>

definition MODULUS :: u32 where
  "MODULUS = 0x1d"

definition Q :: nat where
  "Q = 255"

text \<open>One pass of the loop of the constructor: the next power of the generator, in the variable \<open>y\<close>.\<close>

definition alpha_step :: "u32 \<Rightarrow> u32" where
  "alpha_step y = (let y1 = push_bit 1 y; y2 = (if y1 AND 0x100 \<noteq> 0 then y1 XOR MODULUS else y1) in y2 mod 0x100)"

fun exp_loop :: "nat \<Rightarrow> u8 \<Rightarrow> u32 \<Rightarrow> u8 list" where
  "exp_loop 0 x y = []"
| "exp_loop (Suc n) x y = (let y' = alpha_step y in x # exp_loop n (ucast y') y')"

definition m_exp :: "u8 list" where
  "m_exp = exp_loop Q 1 1 @ [0]"

text \<open>The logarithm of zero is \<open>Q\<close>; no user of the table reads it.\<close>

definition m_log :: "nat list" where
  "m_log = fold (\<lambda>i t. t[unat (m_exp ! i) := i]) [0..<Q + 1] (replicate 256 0)"

text \<open>
  The expression \<open>m_exp[(m_log[a] + m_log[b]) % Q]\<close> that the coder adds to a sum if neither factor is zero; adding zero otherwise is the same.
\<close>

definition gf_mul :: "u8 \<Rightarrow> u8 \<Rightarrow> u8" where
  "gf_mul a b = (if a \<noteq> 0 \<and> b \<noteq> 0 then m_exp ! ((m_log ! unat a + m_log ! unat b) mod Q) else 0)"

section \<open>The powers of the generator\<close>

text \<open>Multiplication of a byte by the generator is linear.\<close>

definition xt :: "u8 \<Rightarrow> u8" where
  "xt b = ucast (alpha_step (ucast b))"

lemma xt_alt: "xt b = push_bit 1 b XOR (if bit b 7 then 0x1d else 0)"
proof (rule bit_word_eqI)
  fix n assume n: "n < LENGTH(8)"
  have m: "y mod 0x100 = take_bit 8 y" for y :: u32 by (simp add: take_bit_eq_mod)
  have t: "(push_bit 1 (ucast b :: u32) AND 0x100 \<noteq> 0) = bit b 7"
  proof -
    have "bit (push_bit 1 (ucast b :: u32)) 8 = bit b 7"
      unfolding bit_push_bit_iff bit_ucast_iff by simp
    then show ?thesis using and_exp_eq_0_iff_not_bit [of "push_bit 1 (ucast b :: u32)" 8] by simp
  qed
  have d: "bit (ucast b * 2 :: u32) n = bit (b * 2) n"
  proof -
    have "bit (push_bit 1 (ucast b :: u32)) n = bit (push_bit 1 b) n"
      using n unfolding bit_push_bit_iff bit_ucast_iff by auto
    then show ?thesis by simp
  qed
  have "(0x1d :: u8) = ucast (0x1d :: u32)" by simp
  then have e: "bit (0x1d :: u32) n = bit (0x1d :: u8) n" using n by (simp only: bit_ucast_iff) simp
  show "bit (xt b) n = bit (push_bit 1 b XOR (if bit b 7 then 0x1d else 0)) n"
    using n unfolding xt_def alpha_step_def Let_def m t MODULUS_def
    by (cases "bit b 7") (simp_all add: bit_xor_iff bit_take_bit_iff bit_ucast_iff d e)
qed

lemma xt_xor: "xt (a XOR b) = xt a XOR xt b"
  unfolding xt_alt by (rule bit_word_eqI) (auto simp: bit_simps push_bit_xor)

lemma xt_0 [simp]: "xt 0 = 0"
  by (simp add: xt_alt)

lemma xt_pow_xor: "(xt ^^ n) (a XOR b) = (xt ^^ n) a XOR (xt ^^ n) b"
  by (induction n) (simp_all add: xt_xor)

lemma xt_pow_0 [simp]: "(xt ^^ n) 0 = 0"
  by (induction n) simp_all

lemma xt_add: "(xt ^^ (m + n)) b = (xt ^^ m) ((xt ^^ n) b)"
  by (simp add: funpow_add)

text \<open>The powers, to be checked once.\<close>

definition alpha_powers :: "u8 list" where
  "alpha_powers =
     [1, 2, 4, 8, 16, 32, 64, 128, 29, 58, 116, 232, 205, 135, 19, 38, 76, 152, 45, 90, 180, 117, 234, 201, 143, 3, 6, 12,
     24, 48, 96, 192, 157, 39, 78, 156, 37, 74, 148, 53, 106, 212, 181, 119, 238, 193, 159, 35, 70, 140, 5, 10, 20, 40, 80,
     160, 93, 186, 105, 210, 185, 111, 222, 161, 95, 190, 97, 194, 153, 47, 94, 188, 101, 202, 137, 15, 30, 60, 120, 240,
     253, 231, 211, 187, 107, 214, 177, 127, 254, 225, 223, 163, 91, 182, 113, 226, 217, 175, 67, 134, 17, 34, 68, 136, 13,
     26, 52, 104, 208, 189, 103, 206, 129, 31, 62, 124, 248, 237, 199, 147, 59, 118, 236, 197, 151, 51, 102, 204, 133, 23,
     46, 92, 184, 109, 218, 169, 79, 158, 33, 66, 132, 21, 42, 84, 168, 77, 154, 41, 82, 164, 85, 170, 73, 146, 57, 114, 228,
     213, 183, 115, 230, 209, 191, 99, 198, 145, 63, 126, 252, 229, 215, 179, 123, 246, 241, 255, 227, 219, 171, 75, 150, 49,
     98, 196, 149, 55, 110, 220, 165, 87, 174, 65, 130, 25, 50, 100, 200, 141, 7, 14, 28, 56, 112, 224, 221, 167, 83, 166,
     81, 162, 89, 178, 121, 242, 249, 239, 195, 155, 43, 86, 172, 69, 138, 9, 18, 36, 72, 144, 61, 122, 244, 245, 247, 243,
     251, 235, 203, 139, 11, 22, 44, 88, 176, 125, 250, 233, 207, 131, 27, 54, 108, 216, 173, 71, 142]"

lemma alpha_powers_step: "map xt alpha_powers = tl alpha_powers @ [1]"
  by (simp add: alpha_powers_def xt_alt)

lemma length_alpha_powers [simp]: "length alpha_powers = 255"
  by (simp add: alpha_powers_def)

lemma xt_pow_nth: "k < 255 \<Longrightarrow> (xt ^^ k) 1 = alpha_powers ! k"
proof (induction k)
  case 0
  then show ?case by (simp add: alpha_powers_def)
next
  case (Suc k)
  have "xt (alpha_powers ! k) = (tl alpha_powers @ [1]) ! k"
    using Suc.prems arg_cong [OF alpha_powers_step, of "\<lambda>xs. xs ! k"] by simp
  then show ?case using Suc by (simp add: nth_append nth_tl)
qed

lemma xt_pow_255: "(xt ^^ 255) 1 = 1"
proof -
  have "(xt ^^ 255) 1 = (xt ^^ (1 + 254)) 1" by simp
  also have "\<dots> = xt (alpha_powers ! 254)" unfolding xt_add using xt_pow_nth [of 254] by simp
  also have "\<dots> = (tl alpha_powers @ [1]) ! 254" using arg_cong [OF alpha_powers_step, of "\<lambda>xs. xs ! 254"] by simp
  finally show ?thesis by (simp add: nth_append)
qed

lemma xt_pow_divisors: "d \<in> {1, 3, 5, 15, 17, 51, 85} \<Longrightarrow> (xt ^^ d) 1 \<noteq> 1"
  by (auto simp: xt_pow_nth xt_alt alpha_powers_def)

lemma xt_pow_mod: "(xt ^^ (n mod 255)) 1 = (xt ^^ n) 1"
proof -
  have p: "(xt ^^ (255 * k)) 1 = 1" for k by (induction k) (simp_all add: xt_add xt_pow_255)
  have "(xt ^^ n) 1 = (xt ^^ (n mod 255 + 255 * (n div 255))) 1" by simp
  also have "\<dots> = (xt ^^ (n mod 255)) 1" unfolding xt_add p ..
  finally show ?thesis ..
qed

lemma xt_order:
  assumes "0 < d" "d < 255"
  shows "(xt ^^ d) 1 \<noteq> 1"
proof
  assume one: "(xt ^^ d) 1 = 1"
  define g where "g = gcd d 255"
  have p: "(xt ^^ (d * k)) 1 = 1" for k by (induction k) (simp_all add: xt_add one)
  obtain x y where xy: "d * x = 255 * y + g" using bezout_nat [of d 255] assms(1) by (auto simp: g_def)
  have "(xt ^^ (d * x)) 1 = (xt ^^ g) 1"
    using xt_pow_mod [of "255 * y + g"] xt_pow_mod [of g] unfolding xy by simp
  then have g1: "(xt ^^ g) 1 = 1" using p by simp
  have "g dvd 255" "g \<le> d" using assms(1) by (auto simp: g_def intro: dvd_imp_le)
  moreover have "0 < g" using assms(1) by (simp add: g_def)
  ultimately have "g \<in> {n \<in> {1..<255}. n dvd 255}" using assms(2) by simp
  also have "{n \<in> {1..<255 :: nat}. n dvd 255} = {1, 3, 5, 15, 17, 51, 85}" by code_simp
  finally show False using g1 xt_pow_divisors by blast
qed

lemma xt_pow_inj:
  assumes "(xt ^^ i) 1 = (xt ^^ j) 1" "i < 255" "j < 255"
  shows "i = j"
  using assms
proof (induction i j rule: linorder_wlog)
  case (le i j)
  have "(xt ^^ (255 - i + i)) 1 = (xt ^^ (255 - i + j)) 1" using le.prems(1) unfolding xt_add by simp
  moreover have e: "255 - i + j = (j - i) + 255" "255 - i + i = 255" using le.prems(2) le.hyps by simp_all
  ultimately have "(xt ^^ (j - i)) 1 = 1" unfolding e xt_add xt_pow_255 by simp
  then show ?case using xt_order [of "j - i"] le by (cases "i = j") auto
qed simp

lemma xt_pow_nz: "(xt ^^ i) 1 \<noteq> 0"
proof
  assume z: "(xt ^^ i) 1 = 0"
  have "(xt ^^ (255 - i mod 255 + i mod 255)) 1 = (0 :: u8)" unfolding xt_add xt_pow_mod z by simp
  then show False by (simp add: xt_pow_255)
qed

section \<open>The tables are inverse to each other\<close>

lemma byte_ucast: "ucast (ucast (x :: u8) :: u32) = x" "ucast (ucast (y :: u32) :: u8) = take_bit 8 y"
  by (rule bit_word_eqI; auto simp: bit_ucast_iff bit_take_bit_iff)+

lemma alpha_step_byte: "alpha_step (ucast x) = ucast (xt x)"
proof -
  have "alpha_step (ucast x) = take_bit 8 (alpha_step (ucast x))"
    unfolding alpha_step_def Let_def by (simp add: take_bit_eq_mod [of 8, symmetric, simplified] del: push_bit_of_1)
  also have "\<dots> = ucast (ucast (alpha_step (ucast x)) :: u8)" by (simp add: byte_ucast)
  finally show ?thesis by (simp add: xt_def)
qed

lemma length_exp_loop [simp]: "length (exp_loop n x y) = n"
  by (induction n x y rule: exp_loop.induct) (simp_all add: Let_def)

lemma exp_loop_nth: "i < n \<Longrightarrow> exp_loop n x (ucast x) ! i = (xt ^^ i) x"
proof (induction n arbitrary: i x)
  case (Suc n)
  then show ?case by (cases i) (simp_all add: Let_def alpha_step_byte funpow_swap1 byte_ucast)
qed simp

lemma length_m_exp [simp]: "length m_exp = 256"
  by (simp add: m_exp_def Q_def)

lemma m_exp_nth: "i < 255 \<Longrightarrow> m_exp ! i = (xt ^^ i) 1"
  using exp_loop_nth [of i 255 1] by (simp add: m_exp_def Q_def nth_append)

lemma m_exp_last [simp]: "m_exp ! 255 = 0"
  by (simp add: m_exp_def Q_def nth_append)

lemma distinct_m_exp: "distinct m_exp"
proof -
  have "m_exp ! i \<noteq> m_exp ! j" if "i < j" "j < 256" for i j
  proof (cases "j = 255")
    case True
    then show ?thesis using that m_exp_nth [of i] xt_pow_nz [of i] by simp
  next
    case False
    then show ?thesis using that xt_pow_inj [of i j] by (auto simp: m_exp_nth)
  qed
  then show ?thesis by (simp add: distinct_conv_nth) (metis linorder_neqE_nat)
qed

lemma m_exp_onto: "set m_exp = UNIV"
proof -
  have "card (set m_exp) = CARD(u8)" using distinct_card [OF distinct_m_exp] by (simp add: card_word)
  then show ?thesis by (intro card_subset_eq) auto
qed

lemma fold_table:
  assumes "distinct (map f xs)" "x \<in> set xs" "\<And>x. x \<in> set xs \<Longrightarrow> f x < length t"
  shows "fold (\<lambda>i t. t[f i := i]) xs t ! f x = x"
  using assms
proof (induction xs arbitrary: t)
  case (Cons a xs)
  have other: "fold (\<lambda>i t. t[f i := i]) ys u ! k = u ! k" if "k \<notin> f ` set ys" for ys u k
    using that by (induction ys arbitrary: u) auto
  show ?case using Cons by (cases "x = a") (auto simp: other)
qed simp

lemma byte_lt: "unat (b :: u8) < 256"
  using unsigned_less [of b] by simp

lemma m_log_exp: "i < 256 \<Longrightarrow> m_log ! unat (m_exp ! i) = i"
proof -
  assume i: "i < 256"
  have "distinct (map (\<lambda>i. unat (m_exp ! i)) [0..<256])"
    using distinct_m_exp by (auto simp: distinct_map inj_on_def nth_eq_iff_index_eq dest!: unsigned_word_eqI)
  then show ?thesis unfolding m_log_def
    using fold_table [of "\<lambda>i. unat (m_exp ! i)" "[0..<Q + 1]" i "replicate 256 0"] i byte_lt by (simp add: Q_def)
qed

lemma exp_log: "b \<noteq> 0 \<Longrightarrow> m_log ! unat b < 255 \<and> (xt ^^ (m_log ! unat b)) 1 = b"
proof -
  assume b: "b \<noteq> 0"
  obtain i where i: "i < 256" "m_exp ! i = b" using m_exp_onto by (metis UNIV_I in_set_conv_nth length_m_exp)
  then have "i < 255" using b m_exp_last by (cases "i = 255") auto
  then show ?thesis using i m_log_exp [of i] m_exp_nth [of i] by simp
qed

lemma log_pow: "i < 255 \<Longrightarrow> m_log ! unat ((xt ^^ i) 1) = i"
  using m_log_exp [of i] m_exp_nth [of i] by simp

section \<open>The field\<close>

text \<open>The product by a byte that is not zero is a power of the multiplication by the generator, hence linear.\<close>

lemma gf_mul_pow: "a \<noteq> 0 \<Longrightarrow> gf_mul a b = (xt ^^ (m_log ! unat a)) b"
proof (cases "b = 0")
  case False
  assume a: "a \<noteq> 0"
  have "m_exp ! ((m_log ! unat a + m_log ! unat b) mod 255) = (xt ^^ (m_log ! unat a + m_log ! unat b)) 1"
    by (simp add: m_exp_nth xt_pow_mod)
  also have "\<dots> = (xt ^^ (m_log ! unat a)) b" using exp_log [OF False] by (simp add: xt_add)
  finally show ?thesis using a False by (simp add: gf_mul_def Q_def)
qed (simp add: gf_mul_def)

lemma gf_mul_nz: "a \<noteq> 0 \<Longrightarrow> b \<noteq> 0 \<Longrightarrow> gf_mul a b = (xt ^^ (m_log ! unat a + m_log ! unat b)) 1"
  using exp_log [of b] by (simp add: gf_mul_pow xt_add)

lemma gf_mul_commute: "gf_mul a b = gf_mul b a"
  by (simp add: gf_mul_def add.commute conj_commute)

lemma gf_mul_0 [simp]: "gf_mul 0 b = 0" "gf_mul b 0 = 0"
  by (simp_all add: gf_mul_def)

lemma gf_mul_nonzero: "a \<noteq> 0 \<Longrightarrow> b \<noteq> 0 \<Longrightarrow> gf_mul a b \<noteq> 0"
  using gf_mul_nz xt_pow_nz by simp

lemma log_mul: "a \<noteq> 0 \<Longrightarrow> b \<noteq> 0 \<Longrightarrow> m_log ! unat (gf_mul a b) = (m_log ! unat a + m_log ! unat b) mod 255"
  using log_pow [of "(m_log ! unat a + m_log ! unat b) mod 255"] by (simp add: gf_mul_nz xt_pow_mod)

lemma gf_mul_assoc: "gf_mul (gf_mul a b) c = gf_mul a (gf_mul b c)"
proof (cases "a = 0 \<or> b = 0 \<or> c = 0")
  case False
  then have nz: "a \<noteq> 0" "b \<noteq> 0" "c \<noteq> 0" by auto
  let ?l = "\<lambda>b. m_log ! unat b"
  have "gf_mul (gf_mul a b) c = (xt ^^ ((?l a + ?l b) mod 255 + ?l c)) 1"
    using nz gf_mul_nonzero [of a b] by (simp add: gf_mul_nz [of _ c] log_mul)
  also have "\<dots> = (xt ^^ (?l a + (?l b + ?l c) mod 255)) 1"
    by (subst (1 2) xt_pow_mod [symmetric]) (simp add: mod_simps add.assoc)
  also have "\<dots> = gf_mul a (gf_mul b c)"
    using nz gf_mul_nonzero [of b c] by (simp add: gf_mul_nz [of a] log_mul)
  finally show ?thesis .
qed auto

lemma gf_mul_xor: "gf_mul a (b XOR c) = gf_mul a b XOR gf_mul a c"
  by (cases "a = 0") (simp_all add: gf_mul_pow xt_pow_xor)

lemma log_one: "m_log ! unat (1 :: u8) = 0"
  using log_pow [of 0] by simp

lemma gf_mul_1: "gf_mul 1 b = b"
  by (simp add: gf_mul_pow log_one del: unsigned_1)

definition gf_inv :: "u8 \<Rightarrow> u8" where
  "gf_inv a = (if a = 0 then 0 else m_exp ! ((Q - m_log ! unat a) mod Q))"

lemma gf_inv_mul: "a \<noteq> 0 \<Longrightarrow> gf_mul (gf_inv a) a = 1"
proof -
  assume a: "a \<noteq> 0"
  have l: "m_log ! unat a < 255" using exp_log [OF a] by simp
  have i: "gf_inv a = (xt ^^ (255 - m_log ! unat a)) 1" using a by (simp add: gf_inv_def Q_def m_exp_nth xt_pow_mod)
  then have "m_log ! unat (gf_inv a) = (255 - m_log ! unat a) mod 255"
    using log_pow [of "(255 - m_log ! unat a) mod 255"] by (simp add: xt_pow_mod)
  moreover have "gf_inv a \<noteq> 0" using i xt_pow_nz by simp
  ultimately have "gf_mul (gf_inv a) a = (xt ^^ ((255 - m_log ! unat a) mod 255 + m_log ! unat a)) 1"
    using a by (simp add: gf_mul_nz)
  also have "\<dots> = (xt ^^ 255) 1"
    using l by (subst (1 2) xt_pow_mod [symmetric]) (simp add: mod_simps)
  finally show ?thesis by (simp add: xt_pow_255)
qed

datatype gf256 = GF (byte: u8)

instantiation gf256 :: field
begin

definition "0 = GF 0"
definition "1 = GF 1"
definition "x + y = GF (byte x XOR byte y)"
definition "x - y = GF (byte x XOR byte y)"
definition "- (x :: gf256) = x"
definition "x * y = GF (gf_mul (byte x) (byte y))"
definition "inverse x = GF (gf_inv (byte x))"
definition "x div (y :: gf256) = x * inverse y"

instance
proof
  fix a b c :: gf256
  show "a * b * c = a * (b * c)" by (simp add: times_gf256_def gf_mul_assoc)
  show "a * b = b * a" by (simp add: times_gf256_def gf_mul_commute)
  show "1 * a = a" by (simp add: times_gf256_def one_gf256_def gf_mul_1)
  show "(a + b) * c = a * c + b * c"
    using gf_mul_xor [of "byte c"] by (simp add: times_gf256_def plus_gf256_def gf_mul_commute [of _ "byte c"])
  show "a + b + c = a + (b + c)" by (simp add: plus_gf256_def xor.assoc)
  show "a + b = b + a" by (simp add: plus_gf256_def xor.commute)
  show "0 + a = a" by (simp add: plus_gf256_def zero_gf256_def)
  show "- a + a = 0" by (simp add: plus_gf256_def uminus_gf256_def zero_gf256_def)
  show "a - b = a + - b" by (simp add: plus_gf256_def uminus_gf256_def minus_gf256_def)
  show "(0 :: gf256) \<noteq> 1" by (simp add: zero_gf256_def one_gf256_def)
  show "a \<noteq> 0 \<Longrightarrow> inverse a * a = 1"
    by (cases a) (simp add: zero_gf256_def one_gf256_def inverse_gf256_def times_gf256_def gf_inv_mul)
  show "a div b = a * inverse b" by (simp add: divide_gf256_def)
  show "inverse (0 :: gf256) = 0" by (simp add: inverse_gf256_def zero_gf256_def gf_inv_def)
qed

end

lemma gf_add_self [simp]: "(x :: gf256) + x = 0"
  by (simp add: plus_gf256_def zero_gf256_def)

lemma gf_uminus [simp]: "- (x :: gf256) = x"
  by (simp add: uminus_gf256_def)

lemma GF_simps:
  "GF (a XOR b) = GF a + GF b" "GF (gf_mul a b) = GF a * GF b" "GF 0 = 0" "GF 1 = 1" "GF (gf_inv a) = inverse (GF a)"
  "GF a = 0 \<longleftrightarrow> a = 0"
  by (simp_all add: plus_gf256_def times_gf256_def zero_gf256_def one_gf256_def inverse_gf256_def)

section \<open>Powers and sums as the coder forms them\<close>

definition alpha :: gf256 where "alpha = GF 2"

lemma log_two: "m_log ! unat (2 :: u8) = 1"
  using log_pow [of 1] by (simp add: xt_alt)

lemma gf_pow: "GF ((xt ^^ e) 1) = alpha ^ e"
proof (induction e)
  case (Suc e)
  have "gf_mul 2 b = (xt ^^ (m_log ! unat (2 :: u8))) b" for b by (rule gf_mul_pow) simp
  then have "xt b = gf_mul 2 b" for b unfolding log_two by simp
  then show ?case using Suc by (simp add: GF_simps alpha_def)
qed (simp add: GF_simps)

lemma exp_pow: "GF (m_exp ! (e mod Q)) = alpha ^ e"
  by (simp add: Q_def m_exp_nth xt_pow_mod gf_pow)

lemma alpha_inj: "alpha ^ i = alpha ^ j \<Longrightarrow> i < 255 \<Longrightarrow> j < 255 \<Longrightarrow> i = j"
  using xt_pow_inj by (metis gf_pow gf256.inject)

lemma alpha_255: "alpha ^ 255 = 1"
  using gf_pow [of 255] by (simp add: xt_pow_255 GF_simps)

lemma GF_fold: "GF (fold (\<lambda>k acc. acc XOR f k) [0..<n] z) = GF z + (\<Sum>k<n. GF (f k))"
  by (induction n) (simp_all add: GF_simps add.assoc)

section \<open>The product is that of polynomials\<close>

text \<open>The product of polynomials over the field of two elements, by shift and add, modulo $x^8 + x^4 + x^3 + x^2 + 1$.\<close>

definition times_x :: "u8 \<Rightarrow> u8" where
  "times_x b = push_bit 1 b XOR (if bit b 7 then 0x1d else 0)"

definition poly_mul :: "u8 \<Rightarrow> u8 \<Rightarrow> u8" where
  "poly_mul a b = fold (\<lambda>i acc. acc XOR (if bit a i then (times_x ^^ i) b else 0)) [0..<8] 0"

lemma times_x_xt: "times_x = xt"
  by (simp add: times_x_def xt_alt fun_eq_iff)

lemma bits_of_byte: "(a :: u8) = fold (\<lambda>i acc. acc XOR (if bit a i then 2 ^ i else 0)) [0..<8] 0"
proof (rule bit_word_eqI)
  have f: "bit (fold (\<lambda>i acc. acc XOR (if bit a i then 2 ^ i else 0)) [0..<k] (0 :: u8)) n \<longleftrightarrow> n < k \<and> bit a n" if "k \<le> 8" for k n
    using that by (induction k) (auto simp: bit_xor_iff bit_exp_iff less_Suc_eq)
  fix n assume "n < LENGTH(8)"
  then show "bit a n = bit (fold (\<lambda>i acc. acc XOR (if bit a i then 2 ^ i else 0)) [0..<8] (0 :: u8)) n"
    using f [of 8 n] by simp
qed

lemma alpha_small: "i < 8 \<Longrightarrow> GF (2 ^ i) = alpha ^ i"
proof -
  assume i: "i < 8"
  have "(xt ^^ i) 1 = 2 ^ i" using i
  proof (induction i)
    case (Suc i)
    have "\<not> bit (2 ^ i :: u8) 7" using Suc.prems by (auto simp: bit_exp_iff)
    then show ?case using Suc by (simp add: xt_alt)
  qed simp
  then show ?thesis using gf_pow [of i] by simp
qed

text \<open>
  C22: the product through the logarithm tables, as the coder computes it, is the product of polynomials over the field of two elements
  modulo $x^8 + x^4 + x^3 + x^2 + 1$, for every pair of bytes.
\<close>

theorem table_product_is_polynomial_product: "gf_mul a b = poly_mul a b"
proof -
  have p: "GF ((xt ^^ i) b) = alpha ^ i * GF b" for i
  proof -
    have "(xt ^^ i) b = gf_mul ((xt ^^ (i mod 255)) 1) b"
    proof -
      have "gf_mul ((xt ^^ (i mod 255)) 1) b = (xt ^^ (i mod 255)) b"
        using gf_mul_pow [OF xt_pow_nz, of "i mod 255" b] by (simp add: log_pow)
      moreover have "(xt ^^ (i mod 255)) b = (xt ^^ i) b"
      proof (cases "b = 0")
        case False
        then obtain e where "b = (xt ^^ e) 1" using exp_log by metis
        then show ?thesis using xt_pow_mod [of "i mod 255 + e"] xt_pow_mod [of "i + e"] by (simp add: xt_add mod_simps)
      qed simp
      ultimately show ?thesis by simp
    qed
    then show ?thesis by (simp add: GF_simps xt_pow_mod gf_pow)
  qed
  have "GF (poly_mul a b) = (\<Sum>i<8. if bit a i then alpha ^ i else 0) * GF b"
    unfolding poly_mul_def times_x_xt GF_fold sum_distrib_right by (simp add: GF_simps(3)) (intro sum.cong; simp add: p GF_simps(3))
  moreover have "GF a = (\<Sum>i<8. if bit a i then alpha ^ i else 0)"
    by (subst (1) bits_of_byte) (unfold GF_fold, simp add: GF_simps(3), intro sum.cong; simp add: alpha_small GF_simps(3))
  ultimately have "GF (poly_mul a b) = GF (gf_mul a b)" by (simp add: GF_simps)
  then show ?thesis by simp
qed

end
