(* ===== verification/Rs_Fec.thy ===== *)
theory Rs_Fec
  imports Gf256 Complex_Main
begin

text \<open>
  The Reed-Solomon coder of \<open>libformat_open/libfectest/RS_fec.cpp\<close>, which restores the packets of a group that were lost on the network. A
  matrix is a list of rows of bytes. The model follows the functions of the class: inversion of a matrix in place
  (\<open>matrix_invGF256\<close>), product, \<open>fec_init\<close>, \<open>fec_encode\<close> and \<open>fec_decode\<close>; calls of \<open>exit\<close> and writes outside an array are
  \<open>None\<close>. The proof reads a matrix as a linear map over \<open>gf256\<close>: a round of the elimination exchanges an input with
  an output of the map (\<open>sweep\<close>), so that after all rounds the inverse map is left, up to the row swaps that
  \<open>unscramble\<close> undoes. Vandermonde matrices with different nodes are injective, so any rows of the extended generator matrix, as many
  as there are data packets, determine the data.
\<close>

unbundle bit_operations_syntax

type_synonym matrix = "u8 list list"

section \<open>Inversion of a matrix\<close>

text \<open>
  The search for the largest entry whose row and column have not been used yet; \<open>ipiv\<close> counts how often each was used. The state is
  \<open>big\<close>, \<open>irow\<close>, \<open>icol\<close>, and \<open>None\<close> is the call of \<open>exit\<close>.
\<close>

fun search_cols :: "nat list \<Rightarrow> u8 list \<Rightarrow> nat \<Rightarrow> nat list \<Rightarrow> u8 \<times> nat \<times> nat \<Rightarrow> (u8 \<times> nat \<times> nat) option" where
  "search_cols ipiv row j [] s = Some s"
| "search_cols ipiv row j (k # ks) s =
     (if ipiv ! k = 0 then search_cols ipiv row j ks (if row ! k \<ge> fst s then (row ! k, j, k) else s)
      else if ipiv ! k > 1 then None
      else search_cols ipiv row j ks s)"

fun search_rows :: "nat list \<Rightarrow> matrix \<Rightarrow> nat \<Rightarrow> nat list \<Rightarrow> u8 \<times> nat \<times> nat \<Rightarrow> (u8 \<times> nat \<times> nat) option" where
  "search_rows ipiv m n [] s = Some s"
| "search_rows ipiv m n (j # js) s =
     (if ipiv ! j \<noteq> 1
      then case search_cols ipiv (m ! j) j [0..<n] s of None \<Rightarrow> None | Some s' \<Rightarrow> search_rows ipiv m n js s'
      else search_rows ipiv m n js s)"

definition swap_rows :: "matrix \<Rightarrow> nat \<Rightarrow> nat \<Rightarrow> matrix" where
  "swap_rows m a b = m[a := m ! b, b := m ! a]"

definition swap_cols :: "matrix \<Rightarrow> nat \<Rightarrow> nat \<Rightarrow> matrix" where
  "swap_cols m a b = map (\<lambda>row. row[a := row ! b, b := row ! a]) m"

text \<open>The row of the pivot is divided by the pivot, whose place is then used for its inverse.\<close>

definition scale_pivot :: "u8 list \<Rightarrow> nat \<Rightarrow> u8 list" where
  "scale_pivot row c =
     (let pivinv = Q - m_log ! unat (row ! c) in
      map (\<lambda>x. if x \<noteq> 0 then m_exp ! ((m_log ! unat x + pivinv) mod Q) else x) (row[c := 1]))"

definition eliminate_row :: "u8 list \<Rightarrow> u8 list \<Rightarrow> nat \<Rightarrow> u8 list" where
  "eliminate_row row prow c =
     (let dum = row ! c in
      map2 (\<lambda>x p. if p \<noteq> 0 \<and> dum \<noteq> 0 then x XOR m_exp ! ((m_log ! unat p + m_log ! unat dum) mod Q) else x) (row[c := 0]) prow)"

definition eliminate :: "matrix \<Rightarrow> nat \<Rightarrow> matrix" where
  "eliminate m c = map (\<lambda>ll. if ll \<noteq> c then eliminate_row (m ! ll) (m ! c) c else m ! ll) [0..<length m]"

text \<open>The rounds of the elimination; the last argument holds \<open>indxr\<close> and \<open>indxc\<close>, the newest pair first.\<close>

fun inv_loop :: "nat \<Rightarrow> nat \<Rightarrow> matrix \<Rightarrow> nat list \<Rightarrow> nat \<Rightarrow> nat \<Rightarrow> (nat \<times> nat) list \<Rightarrow> (matrix \<times> (nat \<times> nat) list) option" where
  "inv_loop n 0 m ipiv irow icol idx = Some (m, idx)"
| "inv_loop n (Suc k) m ipiv irow icol idx =
     (case search_rows ipiv m n [0..<n] (0, irow, icol) of None \<Rightarrow> None
      | Some (_, irow', icol') \<Rightarrow>
         (let ipiv' = ipiv[icol' := ipiv ! icol' + 1];
              m1 = (if irow' \<noteq> icol' then swap_rows m irow' icol' else m) in
          if m1 ! icol' ! icol' = 0 then None
          else inv_loop n k (eliminate (m1[icol' := scale_pivot (m1 ! icol') icol']) icol') ipiv' irow' icol' ((irow', icol') # idx)))"

definition unscramble :: "(nat \<times> nat) list \<Rightarrow> matrix \<Rightarrow> matrix" where
  "unscramble idx m = fold (\<lambda>(r, c) m. if r \<noteq> c then swap_cols m r c else m) idx m"

definition matrix_invGF256 :: "matrix \<Rightarrow> nat \<Rightarrow> matrix option" where
  "matrix_invGF256 m n = map_option (\<lambda>(m', idx). unscramble idx m') (inv_loop n n m (replicate n 0) 0 0 [])"

definition matrix_mulGF256 :: "matrix \<Rightarrow> matrix \<Rightarrow> matrix \<Rightarrow> nat \<Rightarrow> nat \<Rightarrow> nat \<Rightarrow> matrix" where
  "matrix_mulGF256 a b c left mid right =
     map (\<lambda>i. map (\<lambda>j. fold (\<lambda>k acc. acc XOR gf_mul (a ! i ! k) (b ! k ! j)) [0..<mid] (c ! i ! j)) [0..<right]) [0..<left]"

section \<open>Encoding and decoding\<close>

record RS_fec =
  en_GM :: matrix
  data_pkt_num :: nat
  fec_pkt_num :: nat
  data_len :: nat
  en_left :: matrix
  en_right :: matrix

definition fec_init :: "nat \<Rightarrow> nat \<Rightarrow> nat \<Rightarrow> RS_fec option" where
  "fec_init K M S =
     (let left = map (\<lambda>i. map (\<lambda>j. m_exp ! (((K + i) * j) mod Q)) [0..<K]) [0..<M];
          right = map (\<lambda>i. map (\<lambda>j. m_exp ! ((i * j) mod Q)) [0..<K]) [0..<K];
          zero = replicate M (replicate K 0) in
      case matrix_invGF256 right K of None \<Rightarrow> None
      | Some right' \<Rightarrow> Some \<lparr>en_GM = matrix_mulGF256 left right' zero M K K, data_pkt_num = K, fec_pkt_num = M, data_len = S,
          en_left = left, en_right = right'\<rparr>)"

definition fec_encode :: "RS_fec \<Rightarrow> matrix \<Rightarrow> matrix \<Rightarrow> matrix" where
  "fec_encode p data fec_data = matrix_mulGF256 (en_GM p) data fec_data (fec_pkt_num p) (data_pkt_num p) (data_len p)"

text \<open>The rows of the generator matrix that belong to the received packets, the first \<open>K\<close> of them, and those packets.\<close>

definition unit_row :: "nat \<Rightarrow> nat \<Rightarrow> u8 list" where
  "unit_row K i = (replicate K 0)[i := 1]"

definition received :: "nat list \<Rightarrow> nat \<Rightarrow> nat \<Rightarrow> nat list" where
  "received lost_map K M = take K (filter (\<lambda>i. lost_map ! i = 1) [0..<K + M])"

definition de_subGM :: "RS_fec \<Rightarrow> nat list \<Rightarrow> matrix" where
  "de_subGM p lost_map =
     (let K = data_pkt_num p; rs = received lost_map K (fec_pkt_num p) in
      map (\<lambda>i. if i < K then unit_row K i else en_GM p ! (i - K)) rs @ replicate (K - length rs) (replicate K 0))"

text \<open>The packets that are copied are those with a mark that is not zero.\<close>

definition present :: "nat list \<Rightarrow> nat \<Rightarrow> nat \<Rightarrow> nat list" where
  "present lost_map K M = take K (filter (\<lambda>i. lost_map ! i \<noteq> 0) [0..<K + M])"

definition recv_data :: "RS_fec \<Rightarrow> nat list \<Rightarrow> matrix \<Rightarrow> matrix \<Rightarrow> matrix" where
  "recv_data p lost_map data fec_data =
     (let K = data_pkt_num p in
      map (\<lambda>i. take (data_len p) (if i < K then data ! i else fec_data ! (i - K))) (present lost_map K (fec_pkt_num p)))"

definition recover_row :: "RS_fec \<Rightarrow> matrix \<Rightarrow> matrix \<Rightarrow> nat \<Rightarrow> u8 list" where
  "recover_row p gm recv lost =
     map (\<lambda>r. fold (\<lambda>l acc. acc XOR gf_mul (gm ! lost ! l) (recv ! l ! r)) [0..<data_pkt_num p] 0) [0..<data_len p]"

text \<open>
  \<open>None\<close>: \<open>exit\<close> in the inversion, or more lost packets than the array \<open>lost_pkt_id\<close> has places, or a packet
  copied into the empty array \<open>recv_data\<close>.
\<close>

definition fec_decode :: "RS_fec \<Rightarrow> matrix \<Rightarrow> matrix \<Rightarrow> nat list \<Rightarrow> matrix option" where
  "fec_decode p data fec_data lost_map =
     (let K = data_pkt_num p; lost_pkt_id = filter (\<lambda>i. lost_map ! i \<noteq> 1) [0..<K] in
      if length lost_pkt_id > fec_pkt_num p \<or> (K = 0 \<and> 0 < fec_pkt_num p \<and> lost_map ! 0 \<noteq> 0) then None
      else case matrix_invGF256 (de_subGM p lost_map) K of None \<Rightarrow> None
      | Some gm \<Rightarrow>
         let recv = recv_data p lost_map data fec_data in
         Some (fold (\<lambda>i d. d[i := recover_row p gm recv i @ drop (data_len p) (d ! i)]) lost_pkt_id data))"

section \<open>Linear maps\<close>

text \<open>A matrix with \<open>n\<close> columns applied to a vector; both are functions here.\<close>

definition app :: "nat \<Rightarrow> (nat \<Rightarrow> nat \<Rightarrow> gf256) \<Rightarrow> (nat \<Rightarrow> gf256) \<Rightarrow> nat \<Rightarrow> gf256" where
  "app n A x r = (\<Sum>c<n. A r c * x c)"

definition graph :: "nat \<Rightarrow> (nat \<Rightarrow> nat \<Rightarrow> gf256) \<Rightarrow> (nat \<Rightarrow> gf256) \<Rightarrow> (nat \<Rightarrow> gf256) \<Rightarrow> bool" where
  "graph n A x y \<longleftrightarrow> (\<forall>r<n. y r = app n A x r)"

definition injective :: "nat \<Rightarrow> (nat \<Rightarrow> nat \<Rightarrow> gf256) \<Rightarrow> bool" where
  "injective n A \<longleftrightarrow> (\<forall>x. (\<forall>r<n. app n A x r = 0) \<longrightarrow> (\<forall>c<n. x c = 0))"

lemma app_split: "p < n \<Longrightarrow> app n A x r = A r p * x p + (\<Sum>c\<in>{..<n} - {p}. A r c * x c)"
  by (simp add: app_def sum.remove)

lemma app_cong: "(\<And>c. c < n \<Longrightarrow> A r c = B s c) \<Longrightarrow> (\<And>c. c < n \<Longrightarrow> x c = y c) \<Longrightarrow> app n A x r = app n B y s"
  by (simp add: app_def)

lemma graph_cong:
  "(\<And>r c. r < n \<Longrightarrow> c < n \<Longrightarrow> A r c = B r c) \<Longrightarrow> (\<And>c. c < n \<Longrightarrow> x c = x' c) \<Longrightarrow> (\<And>c. c < n \<Longrightarrow> y c = y' c) \<Longrightarrow>
   graph n A x y = graph n B x' y'"
  by (auto simp: graph_def app_def)

text \<open>
  One round of the elimination with the pivot at \<open>(p, p)\<close> exchanges the input and the output number \<open>p\<close> of the map. In a field of
  characteristic two there are no signs, and the exchange undoes itself.
\<close>

definition sweep :: "(nat \<Rightarrow> nat \<Rightarrow> gf256) \<Rightarrow> nat \<Rightarrow> nat \<Rightarrow> nat \<Rightarrow> gf256" where
  "sweep A p r c =
     (if r = p then if c = p then inverse (A p p) else A p c * inverse (A p p)
      else if c = p then A r p * inverse (A p p) else A r c + A r p * (A p c * inverse (A p p)))"

lemma sweep_exchange_once:
  assumes p: "p < n" "A p p \<noteq> 0" and g: "graph n A v w"
  shows "graph n (sweep A p) (v(p := w p)) (w(p := v p))"
proof -
  let ?C = "{..<n} - {p}"
  let ?i = "inverse (A p p)"
  define S where "S r = (\<Sum>c\<in>?C. A r c * v c)" for r
  have w: "w r = A r p * v p + S r" if "r < n" for r
    using g that app_split [OF p(1)] by (simp add: graph_def S_def)
  have vp: "v p = ?i * w p + ?i * S p"
  proof -
    have "?i * w p + ?i * S p = ?i * (w p + S p)" by (simp add: distrib_left)
    also have "w p + S p = A p p * v p + (S p + S p)" by (simp add: w [OF p(1)] add.assoc)
    finally show ?thesis using p(2) by simp
  qed
  have row: "app n (sweep A p) (v(p := w p)) r = sweep A p r p * w p + (\<Sum>c\<in>?C. sweep A p r c * v c)" for r
    by (simp add: app_split [OF p(1)])
  have "(w(p := v p)) r = app n (sweep A p) (v(p := w p)) r" if r: "r < n" for r
  proof (cases "r = p")
    case True
    have "(\<Sum>c\<in>?C. sweep A p p c * v c) = ?i * S p"
      unfolding S_def sum_distrib_left by (rule sum.cong) (auto simp: sweep_def)
    then show ?thesis using True vp by (simp add: row sweep_def)
  next
    case False
    have "(\<Sum>c\<in>?C. sweep A p r c * v c) = (\<Sum>c\<in>?C. A r c * v c + A r p * ?i * (A p c * v c))"
      using False by (intro sum.cong) (auto simp: sweep_def algebra_simps)
    also have "\<dots> = S r + A r p * ?i * S p" by (simp add: sum.distrib S_def sum_distrib_left)
    finally have "app n (sweep A p) (v(p := w p)) r = A r p * (?i * w p + ?i * S p) + S r"
      using False by (simp add: row sweep_def algebra_simps)
    then show ?thesis using False w [OF r] vp by simp
  qed
  then show ?thesis by (simp add: graph_def)
qed

lemma sweep_sweep: "A p p \<noteq> 0 \<Longrightarrow> sweep (sweep A p) p = A"
  by (intro ext) (simp add: sweep_def field_simps add.assoc [symmetric])

lemma sweep_exchange:
  assumes p: "p < n" "A p p \<noteq> 0"
  shows "graph n A v w \<longleftrightarrow> graph n (sweep A p) (v(p := w p)) (w(p := v p))"
proof
  assume "graph n (sweep A p) (v(p := w p)) (w(p := v p))"
  moreover have "sweep A p p p \<noteq> 0" using p(2) by (simp add: sweep_def)
  ultimately have "graph n (sweep (sweep A p) p) v w"
    using sweep_exchange_once [of p n "sweep A p" "v(p := w p)" "w(p := v p)"] p(1) by simp
  then show "graph n A v w" using sweep_sweep p(2) by simp
qed (rule sweep_exchange_once; use p in simp)

text \<open>Exchanging rows exchanges outputs, exchanging columns exchanges inputs.\<close>

definition tr :: "nat \<Rightarrow> nat \<Rightarrow> nat \<Rightarrow> nat" where
  "tr a b r = (if r = a then b else if r = b then a else r)"

lemma tr_tr [simp]: "tr a b (tr a b r) = r"
  by (simp add: tr_def)

lemma tr_lt: "a < n \<Longrightarrow> b < n \<Longrightarrow> tr a b r < n \<longleftrightarrow> r < n"
  by (auto simp: tr_def)

lemma tr_bij: "a < n \<Longrightarrow> b < n \<Longrightarrow> bij_betw (tr a b) {..<n} {..<n}"
  by (rule bij_betw_byWitness [of _ "tr a b"]) (auto simp: tr_lt)

lemma swap_outputs:
  assumes "a < n" "b < n"
  shows "graph n A v w \<longleftrightarrow> graph n (\<lambda>r. A (tr a b r)) v (\<lambda>r. w (tr a b r))"
proof -
  have "(\<forall>r<n. w r = app n A v r) \<longleftrightarrow> (\<forall>r<n. w (tr a b r) = app n A v (tr a b r))"
    using assms by (metis tr_lt tr_tr)
  then show ?thesis by (simp add: graph_def app_def)
qed

lemma swap_inputs:
  assumes "a < n" "b < n"
  shows "app n (\<lambda>r c. A r (tr a b c)) v r = app n A (\<lambda>c. v (tr a b c)) r"
  unfolding app_def using sum.reindex_bij_betw [OF tr_bij [OF assms], of "\<lambda>c. A r (tr a b c) * v c"] by simp

section \<open>The invariant of the elimination\<close>

text \<open>
  The numbers in \<open>P\<close> have been exchanged, and the outputs have been permuted by the swaps of the rows. \<open>permute\<close> takes the
  list with the newest swap first.
\<close>

definition permute :: "(nat \<times> nat) list \<Rightarrow> (nat \<Rightarrow> gf256) \<Rightarrow> nat \<Rightarrow> gf256" where
  "permute idx y = foldr (\<lambda>(a, b) z. z \<circ> tr a b) idx y"

definition mix :: "nat set \<Rightarrow> (nat \<Rightarrow> gf256) \<Rightarrow> (nat \<Rightarrow> gf256) \<Rightarrow> nat \<Rightarrow> gf256" where
  "mix P x y r = (if r \<in> P then x r else y r)"

definition exchanged :: "nat \<Rightarrow> (nat \<Rightarrow> nat \<Rightarrow> gf256) \<Rightarrow> (nat \<Rightarrow> nat \<Rightarrow> gf256) \<Rightarrow> nat set \<Rightarrow> (nat \<times> nat) list \<Rightarrow> bool" where
  "exchanged n A0 A P idx \<longleftrightarrow> (\<forall>x y. graph n A0 x y \<longleftrightarrow> graph n A (mix P (permute idx y) x) (mix P x (permute idx y)))"

lemma permute_Cons: "permute ((a, b) # idx) y r = permute idx y (tr a b r)"
  by (simp add: permute_def)

lemma exchanged_start: "exchanged n A A {} []"
  by (simp add: exchanged_def permute_def mix_def [abs_def])

lemma exchanged_step:
  assumes ex: "exchanged n A0 A P idx" and ab: "a < n" "b < n" "a \<notin> P" "b \<notin> P" and nz: "A a b \<noteq> 0"
  shows "exchanged n A0 (sweep (\<lambda>r. A (tr a b r)) b) (insert b P) ((a, b) # idx)"
  unfolding exchanged_def
proof (intro allI)
  fix x y
  let ?z = "permute idx y" and ?z' = "permute ((a, b) # idx) y"
  let ?A = "\<lambda>r. A (tr a b r)"
  have b: "?A b b \<noteq> 0" using nz by (cases "b = a") (auto simp: tr_def)
  have out: "(\<lambda>r. mix P x ?z (tr a b r)) = mix P x ?z'"
    using ab(3,4) by (auto simp: mix_def permute_Cons tr_def)
  have inn: "mix P ?z x = mix P ?z' x"
    using ab(3,4) by (auto simp: mix_def permute_Cons tr_def fun_eq_iff)
  have "graph n A0 x y \<longleftrightarrow> graph n A (mix P ?z x) (mix P x ?z)" using ex by (simp add: exchanged_def)
  also have "\<dots> \<longleftrightarrow> graph n ?A (mix P ?z x) (\<lambda>r. mix P x ?z (tr a b r))" by (rule swap_outputs [OF ab(1,2)])
  also have "\<dots> \<longleftrightarrow> graph n ?A (mix P ?z' x) (mix P x ?z')" unfolding out inn ..
  also have "\<dots> \<longleftrightarrow> graph n (sweep ?A b) ((mix P ?z' x)(b := mix P x ?z' b)) ((mix P x ?z')(b := mix P ?z' x b))"
    by (rule sweep_exchange) (use ab(2) b in simp_all)
  also have "(mix P ?z' x)(b := mix P x ?z' b) = mix (insert b P) ?z' x" using ab(4) by (auto simp: mix_def)
  also have "(mix P x ?z')(b := mix P ?z' x b) = mix (insert b P) x ?z'" using ab(4) by (auto simp: mix_def)
  finally show "graph n A0 x y = graph n (sweep ?A b) (mix (insert b P) ?z' x) (mix (insert b P) x ?z')" .
qed

text \<open>If the map is injective, some entry outside the exchanged rows and columns is not zero.\<close>

lemma pivot_exists:
  assumes ex: "exchanged n A0 A P idx" and inj: "injective n A0" and k: "k < n" "k \<notin> P"
    and zero: "\<And>r c. r < n \<Longrightarrow> c < n \<Longrightarrow> r \<notin> P \<Longrightarrow> c \<notin> P \<Longrightarrow> A r c = 0"
  shows False
proof -
  define v where "v c = (if c = k then 1 else 0 :: gf256)" for c
  define x where "x r = (if r \<in> P then app n A v r else v r)" for r
  have pz: "permute idx (\<lambda>_. 0) = (\<lambda>_. 0)" by (induction idx) (auto simp: permute_def)
  have v: "mix P (\<lambda>_. 0) x = v" using k(2) by (auto simp: mix_def x_def v_def)
  have "app n A v r = 0" if "r < n" "r \<notin> P" for r
    unfolding app_def using zero [OF that(1) _ that(2)] k(2) by (intro sum.neutral) (auto simp: v_def)
  then have "graph n A (mix P (\<lambda>_. 0) x) (mix P x (\<lambda>_. 0))" unfolding v by (auto simp: graph_def mix_def x_def)
  then have "graph n A0 x (\<lambda>_. 0)" using ex pz by (simp add: exchanged_def)
  then have "\<forall>c<n. x c = 0" using inj by (simp add: injective_def graph_def)
  then show False using k by (auto simp: x_def v_def)
qed

lemma exchanged_end:
  assumes ex: "exchanged n A0 A P idx" and all: "{..<n} \<subseteq> P"
  shows "graph n A0 x y \<longleftrightarrow> graph n A (permute idx y) x"
proof -
  have "graph n A (mix P (permute idx y) x) (mix P x (permute idx y)) = graph n A (permute idx y) x"
    using all by (intro graph_cong) (auto simp: mix_def)
  then show ?thesis using ex by (simp add: exchanged_def)
qed

section \<open>The code computes with the field\<close>

definition ent :: "matrix \<Rightarrow> nat \<Rightarrow> nat \<Rightarrow> gf256" where
  "ent m i j = GF (m ! i ! j)"

definition shape :: "nat \<Rightarrow> nat \<Rightarrow> matrix \<Rightarrow> bool" where
  "shape n k m \<longleftrightarrow> length m = n \<and> (\<forall>i<n. length (m ! i) = k)"

lemma exp_log_sum: "a \<noteq> 0 \<Longrightarrow> b \<noteq> 0 \<Longrightarrow> GF (m_exp ! ((m_log ! unat a + m_log ! unat b) mod Q)) = GF a * GF b"
  by (simp add: GF_simps(2) [symmetric] gf_mul_def)

lemma exp_log_diff:
  assumes "a \<noteq> 0" "b \<noteq> 0"
  shows "GF (m_exp ! ((m_log ! unat a + (Q - m_log ! unat b)) mod Q)) = GF a * inverse (GF b)"
proof -
  have i: "gf_inv b = (xt ^^ ((255 - m_log ! unat b) mod 255)) 1" using assms(2) by (simp add: gf_inv_def Q_def m_exp_nth)
  then have "m_log ! unat (gf_inv b) = (255 - m_log ! unat b) mod 255" by (simp add: log_pow)
  moreover have "gf_inv b \<noteq> 0" using i xt_pow_nz by simp
  ultimately have "GF a * GF (gf_inv b) = GF (m_exp ! ((m_log ! unat a + (255 - m_log ! unat b) mod 255) mod 255))"
    using exp_log_sum [OF assms(1), of "gf_inv b"] by (simp add: Q_def)
  then show ?thesis by (simp add: GF_simps Q_def mod_simps)
qed

lemma scale_pivot_nth:
  assumes "c < length row" "j < length row" "row ! c \<noteq> 0"
  shows "GF (scale_pivot row c ! j) = (if j = c then inverse (GF (row ! c)) else GF (row ! j) * inverse (GF (row ! c)))"
  using assms exp_log_diff [of 1 "row ! c"] exp_log_diff [of "row ! j" "row ! c"]
  by (auto simp: scale_pivot_def Let_def GF_simps)

lemma length_scale [simp]: "length (scale_pivot row c) = length row"
  by (simp add: scale_pivot_def Let_def)

lemma eliminate_row_nth:
  assumes "c < length row" "j < length row" "length prow = length row"
  shows "GF (eliminate_row row prow c ! j) = (if j = c then 0 else GF (row ! j)) + GF (row ! c) * GF (prow ! j)"
  using assms by (auto simp: eliminate_row_def Let_def GF_simps exp_log_sum mult.commute)

lemma length_eliminate_row [simp]: "length prow = length row \<Longrightarrow> length (eliminate_row row prow c) = length row"
  by (simp add: eliminate_row_def Let_def)

definition pivot_step :: "matrix \<Rightarrow> nat \<Rightarrow> matrix" where
  "pivot_step m c = eliminate (m[c := scale_pivot (m ! c) c]) c"

lemma pivot_step_ent:
  assumes m: "shape n n m" and c: "c < n" "m ! c ! c \<noteq> 0" and r: "r < n" "j < n"
  shows "ent (pivot_step m c) r j = sweep (ent m) c r j"
proof -
  have l: "length (m ! r) = n" "length (m ! c) = n" "length m = n" using m c r by (simp_all add: shape_def)
  have row: "pivot_step m c ! r = (if r \<noteq> c then eliminate_row (m ! r) (scale_pivot (m ! c) c) c else scale_pivot (m ! c) c)"
    using l c r by (simp add: pivot_step_def eliminate_def)
  have p: "GF (scale_pivot (m ! c) c ! j) = (if j = c then inverse (ent m c c) else ent m c j * inverse (ent m c c))"
    using scale_pivot_nth [of c "m ! c" j] l c r by (simp add: ent_def)
  show ?thesis
  proof (cases "r = c")
    case True
    then show ?thesis using p row by (simp add: ent_def [of "pivot_step m c"] sweep_def)
  next
    case False
    then show ?thesis using p eliminate_row_nth [of c "m ! r" j "scale_pivot (m ! c) c"] l c r
      by (simp add: ent_def [of "pivot_step m c"] row sweep_def) (simp add: ent_def)
  qed
qed

lemma pivot_step_shape: "shape n n m \<Longrightarrow> c < n \<Longrightarrow> shape n n (pivot_step m c)"
  by (auto simp: shape_def pivot_step_def eliminate_def nth_list_update)

lemma swap_rows_ent: "length m = n \<Longrightarrow> a < n \<Longrightarrow> b < n \<Longrightarrow> r < n \<Longrightarrow> swap_rows m a b ! r = m ! tr a b r"
  by (auto simp: swap_rows_def tr_def nth_list_update)

lemma swap_rows_shape: "shape n k m \<Longrightarrow> a < n \<Longrightarrow> b < n \<Longrightarrow> shape n k (swap_rows m a b)"
  by (auto simp: shape_def swap_rows_def nth_list_update)

lemma swap_cols_ent:
  "shape n n m \<Longrightarrow> a < n \<Longrightarrow> b < n \<Longrightarrow> r < n \<Longrightarrow> c < n \<Longrightarrow> ent (swap_cols m a b) r c = ent m r (tr a b c)"
  by (auto simp: ent_def shape_def swap_cols_def tr_def nth_list_update)

lemma swap_cols_shape: "shape n n m \<Longrightarrow> shape n n (swap_cols m a b)"
  by (auto simp: shape_def swap_cols_def)

section \<open>The search for the pivot\<close>

lemma search_cols_spec:
  assumes "\<forall>k \<in> set ks. ipiv ! k \<le> 1" "fst s = 0 \<or> V s" "\<forall>k \<in> set ks. ipiv ! k = 0 \<longrightarrow> V (row ! k, j, k)"
  shows "\<exists>s'. search_cols ipiv row j ks s = Some s' \<and> (fst s' = 0 \<or> V s') \<and> fst s \<le> fst s' \<and>
    (\<forall>k \<in> set ks. ipiv ! k = 0 \<longrightarrow> row ! k \<le> fst s') \<and> (V s \<or> (\<exists>k \<in> set ks. ipiv ! k = 0) \<longrightarrow> V s')"
  using assms
proof (induction ks arbitrary: s)
  case (Cons k ks)
  define s1 where "s1 = (if ipiv ! k = 0 \<and> row ! k \<ge> fst s then (row ! k, j, k) else s)"
  have s1: "fst s1 = 0 \<or> V s1" "fst s \<le> fst s1" "ipiv ! k = 0 \<longrightarrow> row ! k \<le> fst s1" "V s \<or> ipiv ! k = 0 \<longrightarrow> V s1"
    using Cons.prems by (auto simp: s1_def)
  obtain s' where s': "search_cols ipiv row j ks s1 = Some s'" "fst s' = 0 \<or> V s'" "fst s1 \<le> fst s'"
    "\<forall>k \<in> set ks. ipiv ! k = 0 \<longrightarrow> row ! k \<le> fst s'" "V s1 \<or> (\<exists>k \<in> set ks. ipiv ! k = 0) \<longrightarrow> V s'"
    using Cons.IH [of s1] Cons.prems s1(1) by auto
  have "search_cols ipiv row j (k # ks) s = search_cols ipiv row j ks s1"
    using Cons.prems(1) by (auto simp: s1_def)
  then show ?case using s1 s' by (auto intro: order_trans)
qed simp

lemma search_rows_spec:
  assumes "\<forall>k<n. ipiv ! k \<le> 1" "set js \<subseteq> {..<n}" "fst s = 0 \<or> V s"
    "\<forall>j<n. \<forall>k<n. ipiv ! j = 0 \<longrightarrow> ipiv ! k = 0 \<longrightarrow> V (m ! j ! k, j, k)" "f < n" "ipiv ! f = 0"
  shows "\<exists>s'. search_rows ipiv m n js s = Some s' \<and> (fst s' = 0 \<or> V s') \<and> fst s \<le> fst s' \<and>
    (\<forall>j \<in> set js. \<forall>k<n. ipiv ! j = 0 \<longrightarrow> ipiv ! k = 0 \<longrightarrow> m ! j ! k \<le> fst s') \<and> (V s \<or> (\<exists>j \<in> set js. ipiv ! j = 0) \<longrightarrow> V s')"
  using assms
proof (induction js arbitrary: s)
  case (Cons j js)
  have j: "ipiv ! j = 0 \<or> ipiv ! j = 1" using Cons.prems(1,2) by (auto simp: le_Suc_eq)
  show ?case
  proof (cases "ipiv ! j = 0")
    case False
    then show ?thesis using Cons j by auto
  next
    case True
    obtain s1 where s1: "search_cols ipiv (m ! j) j [0..<n] s = Some s1" "fst s1 = 0 \<or> V s1" "fst s \<le> fst s1"
      "\<forall>k<n. ipiv ! k = 0 \<longrightarrow> m ! j ! k \<le> fst s1" "V s1"
      using search_cols_spec [of "[0..<n]" ipiv s V "m ! j" j] Cons.prems True by auto
    have js: "set js \<subseteq> {..<n}" using Cons.prems(2) by simp
    obtain s' where s': "search_rows ipiv m n js s1 = Some s'" "fst s' = 0 \<or> V s'" "fst s1 \<le> fst s'"
      "\<forall>j \<in> set js. \<forall>k<n. ipiv ! j = 0 \<longrightarrow> ipiv ! k = 0 \<longrightarrow> m ! j ! k \<le> fst s'" "V s'"
      using Cons.IH [OF Cons.prems(1) js s1(2) Cons.prems(4-6)] s1(5) by metis
    have "\<forall>k<n. ipiv ! k = 0 \<longrightarrow> m ! j ! k \<le> fst s'" using s1(4) s'(3) order_trans by blast
    moreover have "search_rows ipiv m n (j # js) s = Some s'" using True s1(1) s'(1) by simp
    ultimately show ?thesis using s' order_trans [OF s1(3) s'(3)] by (intro exI [of _ s']) simp
  qed
qed simp

lemma search_pivot:
  assumes "\<forall>k<n. ipiv ! k \<le> 1" "f < n" "ipiv ! f = 0"
  shows "\<exists>a b. search_rows ipiv m n [0..<n] (0, irow, icol) = Some (m ! a ! b, a, b) \<and> a < n \<and> b < n \<and> ipiv ! a = 0 \<and> ipiv ! b = 0 \<and>
    (\<forall>j<n. \<forall>k<n. ipiv ! j = 0 \<longrightarrow> ipiv ! k = 0 \<longrightarrow> m ! j ! k \<le> m ! a ! b)"
proof -
  define V where "V s \<longleftrightarrow> (\<exists>a b. s = (m ! a ! b, a, b) \<and> a < n \<and> b < n \<and> ipiv ! a = 0 \<and> ipiv ! b = 0)" for s
  show ?thesis
    using search_rows_spec [OF assms(1) _ _ _ assms(2,3), of "[0..<n]" "(0, irow, icol)" V m] assms(2,3)
    unfolding V_def by fastforce
qed

section \<open>The inversion is correct\<close>

definition idx_ok :: "nat \<Rightarrow> (nat \<times> nat) list \<Rightarrow> bool" where
  "idx_ok n idx \<longleftrightarrow> (\<forall>(a, b) \<in> set idx. a < n \<and> b < n)"

definition used :: "nat \<Rightarrow> nat list \<Rightarrow> nat set" where
  "used n ipiv = {c. c < n \<and> ipiv ! c = 1}"

definition loop_ok :: "nat \<Rightarrow> (nat \<Rightarrow> nat \<Rightarrow> gf256) \<Rightarrow> matrix \<Rightarrow> nat list \<Rightarrow> (nat \<times> nat) list \<Rightarrow> bool" where
  "loop_ok n A0 m ipiv idx \<longleftrightarrow> shape n n m \<and> length ipiv = n \<and> (\<forall>c<n. ipiv ! c \<le> 1) \<and> idx_ok n idx \<and>
     exchanged n A0 (ent m) (used n ipiv) idx"

lemma exchanged_cong: "(\<And>r c. r < n \<Longrightarrow> c < n \<Longrightarrow> A r c = B r c) \<Longrightarrow> exchanged n A0 A P idx = exchanged n A0 B P idx"
  unfolding exchanged_def using graph_cong [of n A B] by simp

lemma used_update: "length ipiv = n \<Longrightarrow> b < n \<Longrightarrow> ipiv ! b = 0 \<Longrightarrow> used n (ipiv[b := ipiv ! b + 1]) = insert b (used n ipiv)"
  by (auto simp: used_def nth_list_update)

text \<open>One round: either it goes on with the invariant, or the remaining block is zero.\<close>

lemma round_ok:
  assumes ok: "loop_ok n A0 m ipiv idx" and ab: "a < n" "b < n" "ipiv ! a = 0" "ipiv ! b = 0" and nz: "m ! a ! b \<noteq> 0"
  defines "m1 \<equiv> (if a \<noteq> b then swap_rows m a b else m)"
  shows "m1 ! b ! b = m ! a ! b" "loop_ok n A0 (pivot_step m1 b) (ipiv[b := ipiv ! b + 1]) ((a, b) # idx)"
proof -
  have m: "shape n n m" "length m = n" "length ipiv = n" using ok by (auto simp: loop_ok_def shape_def)
  have row: "m1 ! r = m ! tr a b r" if "r < n" for r
    using swap_rows_ent [OF m(2) ab(1,2) that] by (auto simp: m1_def tr_def)
  show bb: "m1 ! b ! b = m ! a ! b" using row [OF ab(2)] by (auto simp: tr_def)
  have m1: "shape n n m1" using swap_rows_shape [OF m(1) ab(1,2)] m(1) by (simp add: m1_def)
  have "exchanged n A0 (ent m) (used n ipiv) idx" "a \<notin> used n ipiv" "b \<notin> used n ipiv" "ent m a b \<noteq> 0"
    using ok ab nz by (simp_all add: loop_ok_def used_def ent_def GF_simps)
  note x = exchanged_step [OF this(1) ab(1,2) this(2-4)]
  have "ent (pivot_step m1 b) r c = sweep (\<lambda>r. ent m (tr a b r)) b r c" if "r < n" "c < n" for r c
    using pivot_step_ent [OF m1 ab(2) _ that] bb nz row [OF that(1)] row [OF ab(2)]
    by (simp add: sweep_def) (simp add: ent_def)
  then have "exchanged n A0 (ent (pivot_step m1 b)) (insert b (used n ipiv)) ((a, b) # idx)"
    using exchanged_cong [of n "ent (pivot_step m1 b)" "sweep (\<lambda>r. ent m (tr a b r)) b"] x by simp
  then show "loop_ok n A0 (pivot_step m1 b) (ipiv[b := ipiv ! b + 1]) ((a, b) # idx)"
    using ok ab used_update [OF m(3) ab(2,4)] pivot_step_shape [OF m1 ab(2)]
    by (auto simp: loop_ok_def idx_ok_def nth_list_update)
qed

lemma inv_loop_ok:
  assumes "loop_ok n A0 m ipiv idx" "card (used n ipiv) + k = n"
  shows "case inv_loop n k m ipiv irow icol idx of
      None \<Rightarrow> \<not> injective n A0
    | Some (m', idx') \<Rightarrow> shape n n m' \<and> idx_ok n idx' \<and> exchanged n A0 (ent m') {..<n} idx'"
  using assms
proof (induction k arbitrary: m ipiv irow icol idx)
  case 0
  have "used n ipiv = {..<n}"
    using 0(2) by (intro card_subset_eq) (auto simp: used_def)
  then show ?case using 0(1) by (simp add: loop_ok_def)
next
  case (Suc k)
  have fin: "used n ipiv \<subseteq> {..<n}" by (auto simp: used_def)
  have "used n ipiv \<noteq> {..<n}"
  proof
    assume "used n ipiv = {..<n}"
    then show False using Suc.prems(2) by simp
  qed
  then have "\<exists>f<n. f \<notin> used n ipiv" using fin by blast
  then obtain f where f: "f < n" "ipiv ! f \<noteq> 1" by (auto simp: used_def)
  have l1: "\<forall>c<n. ipiv ! c \<le> 1" and len: "length ipiv = n" using Suc.prems(1) by (simp_all add: loop_ok_def)
  then have f0: "ipiv ! f = 0" using f by (metis le_Suc_eq le_zero_eq One_nat_def)
  obtain a b where s: "search_rows ipiv m n [0..<n] (0, irow, icol) = Some (m ! a ! b, a, b)"
    and ab: "a < n" "b < n" "ipiv ! a = 0" "ipiv ! b = 0"
    and big: "\<forall>j<n. \<forall>k<n. ipiv ! j = 0 \<longrightarrow> ipiv ! k = 0 \<longrightarrow> m ! j ! k \<le> m ! a ! b"
    using search_pivot [OF l1 f(1) f0] by blast
  define m1 where "m1 = (if a \<noteq> b then swap_rows m a b else m)"
  have bb: "m1 ! b ! b = m ! a ! b"
    using Suc.prems(1) ab swap_rows_ent [of m n a b b] by (auto simp: m1_def loop_ok_def shape_def tr_def)
  have unf: "inv_loop n (Suc k) m ipiv irow icol idx = (if m ! a ! b = 0 then None
      else inv_loop n k (pivot_step m1 b) (ipiv[b := ipiv ! b + 1]) a b ((a, b) # idx))"
    by (simp add: s m1_def [symmetric] bb pivot_step_def)
  show ?case
  proof (cases "m ! a ! b = 0")
    case True
    have "ent m r c = 0" if "r < n" "c < n" "r \<notin> used n ipiv" "c \<notin> used n ipiv" for r c
    proof -
      have "ipiv ! r = 0" "ipiv ! c = 0" using l1 that by (auto simp: used_def le_Suc_eq)
      then have "m ! r ! c \<le> 0" using big that(1,2) True by force
      then show ?thesis by (simp add: ent_def GF_simps)
    qed
    then have "\<not> injective n A0"
      using pivot_exists [of n A0 "ent m" "used n ipiv" idx f] Suc.prems(1) f by (auto simp: loop_ok_def used_def)
    then show ?thesis using True unf by simp
  next
    case False
    note r = round_ok(2) [OF Suc.prems(1) ab False, folded m1_def]
    have "card (used n (ipiv[b := ipiv ! b + 1])) + k = n"
      using used_update [OF len ab(2,4)] Suc.prems(2) ab(4) finite_subset [OF fin] by (simp add: used_def card_insert_if)
    from Suc.IH [OF r this] show ?thesis using False unfolding unf by simp
  qed
qed

lemma unscramble_Cons: "unscramble ((a, b) # idx) m = unscramble idx (if a \<noteq> b then swap_cols m a b else m)"
  by (simp add: unscramble_def)

lemma unscramble_shape: "shape n n m \<Longrightarrow> shape n n (unscramble idx m)"
proof (induction idx arbitrary: m)
  case (Cons ab idx)
  then show ?case by (cases ab) (simp add: unscramble_Cons swap_cols_shape)
qed (simp add: unscramble_def)

lemma unscramble_app:
  assumes "shape n n m" "idx_ok n idx" "r < n"
  shows "app n (ent (unscramble idx m)) y r = app n (ent m) (permute idx y) r"
  using assms
proof (induction idx arbitrary: m)
  case Nil
  then show ?case by (simp add: unscramble_def permute_def)
next
  case (Cons ab idx)
  obtain a b where ab: "ab = (a, b)" by (rule prod.exhaust)
  define m1 where "m1 = (if a \<noteq> b then swap_cols m a b else m)"
  have i: "a < n" "b < n" "idx_ok n idx" using Cons.prems(2) by (auto simp: ab idx_ok_def)
  have m1: "shape n n m1" using Cons.prems(1) swap_cols_shape by (simp add: m1_def)
  have e: "ent m1 r c = ent m r (tr a b c)" if "c < n" for c
    using swap_cols_ent [OF Cons.prems(1) i(1,2) Cons.prems(3) that] by (auto simp: m1_def tr_def)
  have "app n (ent m1) (permute idx y) r = app n (\<lambda>r c. ent m r (tr a b c)) (permute idx y) r"
    using e by (simp add: app_def)
  also have "\<dots> = app n (ent m) (\<lambda>c. permute idx y (tr a b c)) r" by (rule swap_inputs [OF i(1,2)])
  also have "\<dots> = app n (ent m) (permute (ab # idx) y) r" by (simp add: ab permute_Cons app_def)
  finally show ?case using Cons.IH [OF m1 i(3) Cons.prems(3)] by (simp add: ab unscramble_Cons m1_def)
qed

lemma matrix_inv_ok:
  assumes "shape n n m"
  shows "case matrix_invGF256 m n of None \<Rightarrow> \<not> injective n (ent m)
    | Some b \<Rightarrow> shape n n b \<and> (\<forall>x y. graph n (ent m) x y \<longleftrightarrow> graph n (ent b) y x)"
proof -
  have u: "used n (replicate n 0) = {}" by (auto simp: used_def)
  have ok: "loop_ok n (ent m) m (replicate n 0) []" "card (used n (replicate n 0)) + n = n"
    using assms u by (simp_all add: loop_ok_def idx_ok_def exchanged_start)
  note l = inv_loop_ok [OF ok, of 0 0]
  show ?thesis
  proof (cases "inv_loop n n m (replicate n 0) 0 0 []")
    case None
    then show ?thesis using l by (simp add: matrix_invGF256_def)
  next
    case (Some r)
    obtain m' idx where r: "r = (m', idx)" by (rule prod.exhaust)
    have l': "shape n n m'" "idx_ok n idx" "exchanged n (ent m) (ent m') {..<n} idx" using l Some r by auto
    have "graph n (ent m) x y \<longleftrightarrow> graph n (ent (unscramble idx m')) y x" for x y
      using exchanged_end [OF l'(3) order_refl] unscramble_app [OF l'(1,2)] by (simp add: graph_def)
    then show ?thesis using Some r unscramble_shape [OF l'(1)] by (simp add: matrix_invGF256_def)
  qed
qed

section \<open>Vandermonde matrices\<close>

text \<open>A polynomial with \<open>n\<close> coefficients that vanishes at \<open>n\<close> points is zero.\<close>

lemma coefficients_zero:
  fixes c :: "nat \<Rightarrow> 'a :: idom"
  assumes "finite Z" "n \<le> card Z" "\<And>z. z \<in> Z \<Longrightarrow> (\<Sum>j<n. c j * z ^ j) = 0" "j < n"
  shows "c j = 0"
  using assms
proof (induction n arbitrary: c Z j)
  case (Suc m)
  obtain a where a: "a \<in> Z" using Suc.prems(2) by (metis Suc_le_lessD card.empty empty_iff ex_in_conv not_less_zero)
  define d where "d j = (\<Sum>i = Suc j..m. c i * a ^ (i - j - 1))" for j
  have fac: "(\<Sum>i\<le>m. c i * z ^ i) = (z - a) * (\<Sum>j<m. d j * z ^ j) + (\<Sum>i\<le>m. c i * a ^ i)" for z
    using polyfun_diff [of m c z a] by (cases "m = 0") (simp_all add: d_def algebra_simps)
  have root: "(\<Sum>i\<le>m. c i * z ^ i) = 0" if "z \<in> Z" for z
    using Suc.prems(3) [OF that] by (simp add: lessThan_Suc_atMost)
  have "(\<Sum>j<m. d j * z ^ j) = 0" if "z \<in> Z - {a}" for z
    using fac [of z] root [of z] root [OF a] that by auto
  moreover have "m \<le> card (Z - {a})" using Suc.prems(1,2) a by simp
  ultimately have dz: "d j = 0" if "j < m" for j using Suc.IH [of "Z - {a}" d] Suc.prems(1) that by blast
  have dm: "d j = 0" for j using dz [of j] by (cases "j < m") (simp_all add: d_def)
  have step: "c (Suc k) = d k - a * d (Suc k)" if "Suc k \<le> m" for k
  proof -
    have "d k = c (Suc k) + (\<Sum>i = Suc (Suc k)..m. c i * a ^ (i - k - 1))"
      unfolding d_def using that by (simp add: sum.atLeast_Suc_atMost)
    also have "(\<Sum>i = Suc (Suc k)..m. c i * a ^ (i - k - 1)) = a * d (Suc k)"
      unfolding d_def sum_distrib_left by (intro sum.cong) (auto simp: Suc_diff_Suc power_Suc [symmetric] mult.left_commute simp del: power_Suc)
    finally show ?thesis by simp
  qed
  have s: "c (Suc k) = 0" if "Suc k \<le> m" for k using step [OF that] dm by simp
  have "c 0 = 0"
  proof -
    have "(\<Sum>i\<le>m. c i * a ^ i) = c 0 * a ^ 0 + (\<Sum>i = Suc 0..m. c i * a ^ i)"
      by (simp add: atMost_atLeast0 sum.atLeast_Suc_atMost)
    moreover have "(\<Sum>i = Suc 0..m. c i * a ^ i) = 0"
    proof (rule sum.neutral, rule ballI)
      fix i assume "i \<in> {Suc 0..m}"
      then show "c i * a ^ i = 0" using s [of "i - 1"] by auto
    qed
    ultimately show ?thesis using root [OF a] by simp
  qed
  then show ?case using s Suc.prems(4) by (cases j) auto
qed simp

lemma vandermonde_injective:
  assumes "inj_on a {..<n}"
  shows "injective n (\<lambda>i j. a i ^ j)"
  unfolding injective_def
proof (intro allI impI)
  fix x c assume z: "\<forall>r<n. app n (\<lambda>i j. a i ^ j) x r = 0" and c: "c < n"
  have "(\<Sum>j<n. x j * z ^ j) = 0" if "z \<in> a ` {..<n}" for z
    using that z by (auto simp: app_def mult.commute)
  then show "x c = 0"
    using coefficients_zero [of "a ` {..<n}" n x c] card_image [OF assms] c by simp
qed

section \<open>The generator matrix\<close>

lemma matrix_mul_ent:
  assumes "i < left" "j < right"
  shows "ent (matrix_mulGF256 a b c left mid right) i j = ent c i j + (\<Sum>k<mid. ent a i k * ent b k j)"
  using assms by (simp add: ent_def matrix_mulGF256_def GF_fold GF_simps)

lemma matrix_mul_shape: "shape left right (matrix_mulGF256 a b c left mid right)"
  by (simp add: shape_def matrix_mulGF256_def)

text \<open>What an initialised coder promises: the inverse of the first Vandermonde matrix and the product with the second one.\<close>

definition coder :: "nat \<Rightarrow> nat \<Rightarrow> nat \<Rightarrow> RS_fec \<Rightarrow> bool" where
  "coder K M S p \<longleftrightarrow> data_pkt_num p = K \<and> fec_pkt_num p = M \<and> data_len p = S \<and> shape M K (en_GM p) \<and>
     (\<exists>R. (\<forall>x y. graph K (\<lambda>i j. (alpha ^ i) ^ j) x y \<longleftrightarrow> graph K R y x) \<and>
       (\<forall>i<M. \<forall>j<K. ent (en_GM p) i j = (\<Sum>k<K. (alpha ^ (K + i)) ^ k * R k j)))"

lemma fec_init_coder:
  assumes "K \<le> 255"
  shows "\<exists>p. fec_init K M S = Some p \<and> coder K M S p"
proof -
  define right where "right = map (\<lambda>i. map (\<lambda>j. m_exp ! ((i * j) mod Q)) [0..<K]) [0..<K]"
  define left where "left = map (\<lambda>i. map (\<lambda>j. m_exp ! (((K + i) * j) mod Q)) [0..<K]) [0..<M]"
  have r: "ent right i j = (alpha ^ i) ^ j" if "i < K" "j < K" for i j
    using that by (simp add: right_def ent_def exp_pow power_mult [symmetric])
  have l: "ent left i j = (alpha ^ (K + i)) ^ j" if "i < M" "j < K" for i j
    using that by (simp add: left_def ent_def exp_pow power_mult [symmetric])
  have "injective K (\<lambda>i j. (alpha ^ i) ^ j)"
    using assms by (intro vandermonde_injective) (auto intro!: inj_onI alpha_inj)
  then have "injective K (ent right)" using r by (simp add: injective_def app_def)
  moreover have "shape K K right" by (simp add: shape_def right_def)
  ultimately obtain R where R: "matrix_invGF256 right K = Some R" "\<And>x y. graph K (ent right) x y = graph K (ent R) y x"
    using matrix_inv_ok [of K right] by (auto split: option.splits)
  have g: "graph K (ent right) x y = graph K (\<lambda>i j. (alpha ^ i) ^ j) x y" for x y
    using r by (intro graph_cong) auto
  define p where "p = \<lparr>en_GM = matrix_mulGF256 left R (replicate M (replicate K 0)) M K K, data_pkt_num = K, fec_pkt_num = M,
    data_len = S, en_left = left, en_right = R\<rparr>"
  have "fec_init K M S = Some p"
    using R(1) by (simp add: fec_init_def Let_def right_def [symmetric] left_def [symmetric] p_def)
  moreover have "ent (en_GM p) i j = (\<Sum>k<K. (alpha ^ (K + i)) ^ k * ent R k j)" if "i < M" "j < K" for i j
  proof -
    have "ent (en_GM p) i j = ent (replicate M (replicate K 0)) i j + (\<Sum>k<K. ent left i k * ent R k j)"
      using that by (simp add: p_def matrix_mul_ent)
    then show ?thesis using that l by (simp add: ent_def GF_simps)
  qed
  ultimately show ?thesis using R(2) g matrix_mul_shape by (auto simp: coder_def p_def)
qed

section \<open>Decoding inverts encoding\<close>

text \<open>Row \<open>i\<close> of the extended generator matrix: a unit vector for a data packet, a row of \<open>en_GM\<close> for a parity packet.\<close>

definition gen :: "nat \<Rightarrow> RS_fec \<Rightarrow> nat \<Rightarrow> nat \<Rightarrow> gf256" where
  "gen K p i j = (if i < K then if i = j then 1 else 0 else ent (en_GM p) (i - K) j)"

lemma gen_nodes:
  assumes p: "coder K M S p"
  shows "\<exists>z. (\<forall>i<K + M. app K (gen K p) x i = (\<Sum>k<K. (alpha ^ i) ^ k * z k)) \<and>
    ((\<forall>k<K. z k = 0) \<longrightarrow> (\<forall>c<K. x c = 0))"
proof -
  obtain R where R: "\<And>x y. graph K (\<lambda>i j. (alpha ^ i) ^ j) x y = graph K R y x"
    and gm: "\<And>i j. i < M \<Longrightarrow> j < K \<Longrightarrow> ent (en_GM p) i j = (\<Sum>k<K. (alpha ^ (K + i)) ^ k * R k j)"
    using p by (auto simp: coder_def)
  define z where "z = app K R x"
  have "graph K R x z" by (simp add: graph_def z_def)
  then have "graph K (\<lambda>i j. (alpha ^ i) ^ j) z x" using R by blast
  then have x: "x i = (\<Sum>k<K. (alpha ^ i) ^ k * z k)" if "i < K" for i
    using that unfolding graph_def app_def by blast
  have "app K (gen K p) x i = (\<Sum>k<K. (alpha ^ i) ^ k * z k)" if i: "i < K + M" for i
  proof (cases "i < K")
    case True
    have "app K (gen K p) x i = (\<Sum>c<K. (if c = i then x c else 0))"
      unfolding app_def using True by (intro sum.cong) (auto simp: gen_def)
    then show ?thesis using True x by simp
  next
    case False
    have "app K (gen K p) x i = (\<Sum>c<K. \<Sum>k<K. (alpha ^ i) ^ k * R k c * x c)"
      unfolding app_def using False i by (intro sum.cong) (simp_all add: gen_def gm sum_distrib_right)
    also have "\<dots> = (\<Sum>k<K. (alpha ^ i) ^ k * z k)"
      by (subst sum.swap) (simp add: z_def app_def sum_distrib_left mult.assoc)
    finally show ?thesis .
  qed
  then show ?thesis using x by (intro exI [of _ z]) auto
qed

lemma received_facts:
  fixes lost_map :: "nat list"
  assumes "K \<le> length (filter (\<lambda>i. lost_map ! i = 1) [0..<K + M])"
  defines "rs \<equiv> received lost_map K M"
  shows "length rs = K" "distinct rs" "\<And>i. i \<in> set rs \<Longrightarrow> i < K + M \<and> lost_map ! i = 1"
proof -
  show "length rs = K" using assms(1) by (simp add: rs_def received_def)
  show "distinct rs" by (simp add: rs_def received_def)
  show "i < K + M \<and> lost_map ! i = 1" if "i \<in> set rs" for i
    using set_take_subset that unfolding rs_def received_def by fastforce
qed

lemma de_subGM_ent:
  assumes p: "coder K M S p" and rs: "length (received lost_map K M) = K" and t: "t < K" "j < K"
  shows "ent (de_subGM p lost_map) t j = gen K p (received lost_map K M ! t) j"
  using assms by (auto simp: de_subGM_def coder_def Let_def ent_def nth_append gen_def unit_row_def GF_simps nth_list_update)

lemma de_subGM_shape:
  assumes p: "coder K M S p"
  shows "shape K K (de_subGM p lost_map)"
proof -
  let ?rs = "received lost_map K M"
  have l: "length ?rs \<le> K" by (simp add: received_def)
  have "i < K + M" if "i \<in> set ?rs" for i using set_take_subset that unfolding received_def by fastforce
  then have "?rs ! t < K + M" if "t < length ?rs" for t using that by simp
  then show ?thesis using p l unfolding shape_def
    by (fastforce simp: de_subGM_def coder_def Let_def nth_append unit_row_def shape_def)
qed

lemma de_subGM_injective:
  assumes p: "coder K M S p" and KM: "K + M \<le> 255"
    and n: "K \<le> length (filter (\<lambda>i. lost_map ! i = 1) [0..<K + M])"
  shows "injective K (ent (de_subGM p lost_map))"
  unfolding injective_def
proof (rule allI, rule impI)
  fix x assume zero: "\<forall>r<K. app K (ent (de_subGM p lost_map)) x r = 0"
  let ?rs = "received lost_map K M"
  note rs = received_facts [OF n]
  obtain z where z: "\<And>i. i < K + M \<Longrightarrow> app K (gen K p) x i = (\<Sum>k<K. (alpha ^ i) ^ k * z k)"
    "(\<forall>k<K. z k = 0) \<Longrightarrow> (\<forall>c<K. x c = 0)"
    using gen_nodes [OF p, of x] by auto
  have "app K (\<lambda>t k. (alpha ^ (?rs ! t)) ^ k) z t = 0" if t: "t < K" for t
  proof -
    have "app K (ent (de_subGM p lost_map)) x t = app K (gen K p) x (?rs ! t)"
      using de_subGM_ent [OF p rs(1) t] by (simp add: app_def)
    then show ?thesis using zero t z(1) [of "?rs ! t"] rs by (simp add: app_def)
  qed
  moreover have "inj_on (\<lambda>t. alpha ^ (?rs ! t)) {..<K}"
  proof (rule inj_onI)
    fix t u assume tu: "t \<in> {..<K}" "u \<in> {..<K}" and e: "alpha ^ (?rs ! t) = alpha ^ (?rs ! u)"
    have "?rs ! t < K + M" "?rs ! u < K + M" using rs tu by simp_all
    then have "?rs ! t = ?rs ! u" using alpha_inj [OF e] KM by simp
    then show "t = u" using rs(1,2) tu by (simp add: nth_eq_iff_index_eq)
  qed
  ultimately have "\<forall>k<K. z k = 0" using vandermonde_injective [of "\<lambda>t. alpha ^ (?rs ! t)" K] by (simp add: injective_def)
  then show "\<forall>c<K. x c = 0" by (rule z(2))
qed

lemma fec_encode_ent:
  assumes p: "coder K M S p" and i: "i < M" and r: "r < S"
  shows "ent (fec_encode p orig (replicate M (replicate S 0))) i r = app K (gen K p) (\<lambda>c. ent orig c r) (K + i)"
  using assms matrix_mul_ent [of i M r S "en_GM p" orig "replicate M (replicate S 0)" K]
  by (simp add: fec_encode_def coder_def gen_def app_def) (simp add: ent_def GF_simps)

lemma fold_restore:
  assumes "distinct ids" "\<And>i. i \<in> set ids \<Longrightarrow> i < length d"
  shows "length (fold (\<lambda>i d. d[i := f i (d ! i)]) ids d) = length d"
    "j < length d \<Longrightarrow> fold (\<lambda>i d. d[i := f i (d ! i)]) ids d ! j = (if j \<in> set ids then f j (d ! j) else d ! j)"
proof -
  show "length (fold (\<lambda>i d. d[i := f i (d ! i)]) ids d) = length d"
    by (induction ids arbitrary: d) simp_all
  show "j < length d \<Longrightarrow> fold (\<lambda>i d. d[i := f i (d ! i)]) ids d ! j = (if j \<in> set ids then f j (d ! j) else d ! j)"
    using assms by (induction ids arbitrary: d) (auto simp: nth_list_update)
qed

abbreviation binary :: "nat \<Rightarrow> nat list \<Rightarrow> bool" where
  "binary n lost_map \<equiv> \<forall>i<n. lost_map ! i \<le> 1"

lemma present_received: "binary (K + M) lost_map \<Longrightarrow> present lost_map K M = received lost_map K M"
  unfolding present_def received_def by (intro arg_cong [where f = "take K"] filter_cong) (auto simp: le_Suc_eq)

lemma lost_le_parity:
  fixes lost_map :: "nat list"
  assumes "K \<le> length (filter (\<lambda>i. lost_map ! i = 1) [0..<K + M])"
  shows "length (filter (\<lambda>i. lost_map ! i \<noteq> 1) [0..<K]) \<le> M"
proof -
  have "length (filter (\<lambda>i. lost_map ! i = 1) [0..<K]) + length (filter (\<lambda>i. lost_map ! i \<noteq> 1) [0..<K]) = K"
    using sum_length_filter_compl [of "\<lambda>i. lost_map ! i = 1" "[0..<K]"] by simp
  moreover have "length (filter (\<lambda>i. lost_map ! i = 1) [0..<K + M]) \<le> length (filter (\<lambda>i. lost_map ! i = 1) [0..<K]) + M"
  proof -
    have "[0..<K + M] = [0..<K] @ [K..<K + M]" by (rule upt_add_eq_append) simp
    then show ?thesis using length_filter_le [of "\<lambda>i. lost_map ! i = 1" "[K..<K + M]"] by simp
  qed
  ultimately show ?thesis using assms by linarith
qed

lemma fec_decode_recovers:
  assumes p: "coder K M S p" and KM: "0 < K" "K + M \<le> 255"
    and n: "K \<le> length (filter (\<lambda>i. lost_map ! i = 1) [0..<K + M])"
    and bin: "binary (K + M) lost_map" and orig: "shape K S orig" and data: "shape K S data"
    and got: "\<And>i. i < K \<Longrightarrow> lost_map ! i = 1 \<Longrightarrow> data ! i = orig ! i"
    and par: "\<And>i. i < M \<Longrightarrow> lost_map ! (K + i) = 1 \<Longrightarrow> take S (fec_data ! i) = fec_encode p orig (replicate M (replicate S 0)) ! i"
  shows "fec_decode p data fec_data lost_map = Some orig"
proof -
  let ?rs = "received lost_map K M" and ?lost = "filter (\<lambda>i. lost_map ! i \<noteq> 1) [0..<K]"
  let ?enc = "fec_encode p orig (replicate M (replicate S 0))"
  have pf: "data_pkt_num p = K" "fec_pkt_num p = M" "data_len p = S" using p by (simp_all add: coder_def)
  note rs = received_facts [OF n]
  obtain gm where gm: "matrix_invGF256 (de_subGM p lost_map) K = Some gm"
    "\<And>x y. graph K (ent (de_subGM p lost_map)) x y = graph K (ent gm) y x"
    using matrix_inv_ok [OF de_subGM_shape [OF p, of lost_map]] de_subGM_injective [OF p KM(2) n] by (auto split: option.splits)
  define recv where "recv = recv_data p lost_map data fec_data"
  have len: "length (orig ! i) = S" "length (data ! i) = S" if "i < K" for i using orig data that by (simp_all add: shape_def)
  have rv: "ent recv t r = app K (ent (de_subGM p lost_map)) (\<lambda>c. ent orig c r) t" if t: "t < K" and r: "r < S" for t r
  proof -
    have i: "?rs ! t < K + M" "lost_map ! (?rs ! t) = 1" using rs t by simp_all
    have d: "app K (ent (de_subGM p lost_map)) (\<lambda>c. ent orig c r) t = app K (gen K p) (\<lambda>c. ent orig c r) (?rs ! t)"
      using de_subGM_ent [OF p rs(1) t] by (simp add: app_def)
    show ?thesis
    proof (cases "?rs ! t < K")
      case True
      have "recv ! t = orig ! (?rs ! t)"
        using True got [OF True i(2)] len [OF True] rs(1) t by (simp add: recv_def recv_data_def present_received [OF bin] Let_def pf)
      moreover have "app K (gen K p) (\<lambda>c. ent orig c r) (?rs ! t) = (\<Sum>c<K. if c = ?rs ! t then ent orig c r else 0)"
        unfolding app_def using True by (intro sum.cong) (auto simp: gen_def)
      ultimately show ?thesis using d True by (simp add: ent_def)
    next
      case False
      have "recv ! t = ?enc ! (?rs ! t - K)"
        using False i rs(1) t par [of "?rs ! t - K"] by (simp add: recv_def recv_data_def present_received [OF bin] Let_def pf)
      then show ?thesis using d False i(1) fec_encode_ent [OF p _ r, of "?rs ! t - K" orig] by (simp add: ent_def)
    qed
  qed
  have row: "recover_row p gm recv i = orig ! i" if i: "i < K" for i
  proof (rule nth_equalityI)
    show "length (recover_row p gm recv i) = length (orig ! i)" using len [OF i] by (simp add: recover_row_def pf)
    fix r assume "r < length (recover_row p gm recv i)"
    then have r: "r < S" by (simp add: recover_row_def pf)
    have "graph K (ent gm) (\<lambda>t. ent recv t r) (\<lambda>c. ent orig c r)"
      using gm(2) [of "\<lambda>c. ent orig c r" "\<lambda>t. ent recv t r"] rv [OF _ r] by (simp add: graph_def)
    then have "GF (orig ! i ! r) = (\<Sum>l<K. GF (gf_mul (gm ! i ! l) (recv ! l ! r)))"
      using i by (simp add: graph_def app_def ent_def GF_simps)
    then have "GF (recover_row p gm recv i ! r) = GF (orig ! i ! r)"
      using r by (simp add: recover_row_def pf GF_fold GF_simps(3))
    then show "recover_row p gm recv i ! r = orig ! i ! r" by simp
  qed
  have dl: "length data = K" "length orig = K" using data orig by (simp_all add: shape_def)
  let ?out = "fold (\<lambda>i d. d[i := recover_row p gm recv i @ drop S (d ! i)]) ?lost data"
  have "?out = orig"
  proof (rule nth_equalityI)
    have ol: "length ?out = K"
      using fold_restore(1) [of ?lost data "\<lambda>i row. recover_row p gm recv i @ drop S row"] dl by simp
    then show "length ?out = length orig" using dl by simp
    fix j assume "j < length ?out"
    then have j: "j < K" using ol by simp
    have "?out ! j = (if j \<in> set ?lost then recover_row p gm recv j @ drop S (data ! j) else data ! j)"
      using fold_restore(2) [of ?lost data j "\<lambda>i row. recover_row p gm recv i @ drop S row"] dl j by simp
    then show "?out ! j = orig ! j" using row [OF j] got [OF j] len [OF j] j by auto
  qed
  then show ?thesis
    using gm(1) lost_le_parity [OF n] KM(1) by (simp add: fec_decode_def Let_def pf recv_def [symmetric])
qed

text \<open>Decoding returns whenever enough packets of the group have arrived, whatever they hold.\<close>

lemma fec_decode_returns:
  assumes p: "coder K M S p" and KM: "0 < K" "K + M \<le> 255"
    and n: "K \<le> length (filter (\<lambda>i. lost_map ! i = 1) [0..<K + M])" and data: "shape K S data"
  shows "\<exists>rows. fec_decode p data fec_data lost_map = Some rows \<and> shape K S rows"
proof -
  let ?lost = "filter (\<lambda>i. lost_map ! i \<noteq> 1) [0..<K]"
  have pf: "data_pkt_num p = K" "fec_pkt_num p = M" "data_len p = S" using p by (simp_all add: coder_def)
  obtain gm where gm: "matrix_invGF256 (de_subGM p lost_map) K = Some gm"
    using matrix_inv_ok [OF de_subGM_shape [OF p, of lost_map]] de_subGM_injective [OF p KM(2) n] by (auto split: option.splits)
  define f where "f i row = recover_row p gm (recv_data p lost_map data fec_data) i @ drop S row" for i row
  let ?out = "fold (\<lambda>i d. d[i := f i (d ! i)]) ?lost data"
  have dl: "length data = K" "\<And>i. i < K \<Longrightarrow> length (data ! i) = S" using data by (simp_all add: shape_def)
  have "length (?out ! j) = S" if "j < K" for j
    using fold_restore(2) [of ?lost data j f] dl that by (simp add: f_def recover_row_def pf)
  moreover have "length ?out = K" using fold_restore(1) [of ?lost data f] dl by simp
  moreover have "fec_decode p data fec_data lost_map = Some ?out"
    using gm KM(1) lost_le_parity [OF n] by (simp add: fec_decode_def Let_def pf f_def)
  ultimately show ?thesis by (auto simp: shape_def)
qed

section \<open>The coder as an erasure code\<close>

text \<open>
  What a receiver relies on: for a group of at most 255 packets there is a coder; given as many packets as there are data packets, decoding
  returns; and if they are what was sent, it returns everything that was sent.
\<close>

abbreviation enough :: "nat \<Rightarrow> nat \<Rightarrow> nat list \<Rightarrow> bool" where
  "enough K M lost_map \<equiv> K \<le> length (filter (\<lambda>i. lost_map ! i = 1) [0..<K + M])"

abbreviation blank :: "nat \<Rightarrow> nat \<Rightarrow> matrix" where
  "blank M S \<equiv> replicate M (replicate S 0)"

locale erasure_code =
  fixes init :: "nat \<Rightarrow> nat \<Rightarrow> nat \<Rightarrow> 'c option" and encode :: "'c \<Rightarrow> matrix \<Rightarrow> matrix \<Rightarrow> matrix"
    and decode :: "'c \<Rightarrow> matrix \<Rightarrow> matrix \<Rightarrow> nat list \<Rightarrow> matrix option"
  assumes init_law: "0 < K \<Longrightarrow> K + M \<le> 255 \<Longrightarrow> \<exists>p. init K M S = Some p"
    and encode_law: "init K M S = Some p \<Longrightarrow> K \<le> 255 \<Longrightarrow> i < M \<Longrightarrow> length (encode p sent (blank M S) ! i) = S"
    and return_law: "init K M S = Some p \<Longrightarrow> 0 < K \<Longrightarrow> K + M \<le> 255 \<Longrightarrow> enough K M lost_map \<Longrightarrow> shape K S data \<Longrightarrow>
      \<exists>rows. decode p data fec_data lost_map = Some rows \<and> shape K S rows"
    and recover_law: "init K M S = Some p \<Longrightarrow> 0 < K \<Longrightarrow> K + M \<le> 255 \<Longrightarrow> enough K M lost_map \<Longrightarrow> binary (K + M) lost_map \<Longrightarrow> shape K S sent \<Longrightarrow> shape K S data \<Longrightarrow>
      \<forall>i<K. lost_map ! i = 1 \<longrightarrow> data ! i = sent ! i \<Longrightarrow>
      \<forall>i<M. lost_map ! (K + i) = 1 \<longrightarrow> take S (fec_data ! i) = encode p sent (blank M S) ! i \<Longrightarrow> decode p data fec_data lost_map = Some sent"
begin

text \<open>A group as the receiver keeps it, with a slot for each packet.\<close>

lemma slots_shape: "K \<le> length slots \<Longrightarrow> \<forall>i<K. map_option length (slots ! i) = Some S \<Longrightarrow> shape K S (map the (take K slots))"
  by (fastforce simp: shape_def)

lemma slots_decoded:
  assumes "init K M S = Some p" "0 < K" "K + M \<le> 255" "enough K M lost_map" "K \<le> length slots" "\<forall>i<K. map_option length (slots ! i) = Some S"
  shows "\<exists>rows. decode p (map the (take K slots)) fec_data lost_map = Some rows \<and> shape K S rows"
  using return_law [OF assms(1-4) slots_shape [OF assms(5,6)]] .

lemma slots_recovered:
  assumes p: "init K M S = Some p" and KM: "0 < K" "K + M \<le> 255" "enough K M lost_map" "binary (K + M) lost_map"
    and slots: "K \<le> length slots" "\<forall>i<K. map_option length (slots ! i) = Some S" and fec: "M \<le> length fec_slots" and sent: "shape K S sent"
    and got: "\<forall>i<K. lost_map ! i = 1 \<longrightarrow> slots ! i = Some (sent ! i)"
    and par: "\<forall>i<M. lost_map ! (K + i) = 1 \<longrightarrow> fec_slots ! i = Some (encode p sent (blank M S) ! i)"
  shows "decode p (map the (take K slots)) (map (\<lambda>sl. case sl of None \<Rightarrow> [] | Some bs \<Rightarrow> bs) fec_slots) lost_map = Some sent"
proof (rule recover_law [OF p KM sent slots_shape [OF slots]])
  show "\<forall>i<K. lost_map ! i = 1 \<longrightarrow> map the (take K slots) ! i = sent ! i" using got slots(1) by simp
  show "\<forall>i<M. lost_map ! (K + i) = 1 \<longrightarrow> take S (map (\<lambda>sl. case sl of None \<Rightarrow> [] | Some bs \<Rightarrow> bs) fec_slots ! i) = encode p sent (blank M S) ! i"
    using par fec encode_law [OF p, of _ sent] KM(2) by simp
qed

end

lemma fec_init_coderI: "fec_init K M S = Some p \<Longrightarrow> K \<le> 255 \<Longrightarrow> coder K M S p"
  using fec_init_coder [of K M S] by auto

interpretation rs: erasure_code fec_init fec_encode fec_decode
proof unfold_locales
  fix K M S p i and sent :: matrix
  assume "fec_init K M S = Some p" "K \<le> 255" "i < M"
  then show "length (fec_encode p sent (blank M S) ! i) = S"
    using fec_init_coderI [of K M S p] by (simp add: fec_encode_def matrix_mulGF256_def coder_def)
next
  fix K M S p lost_map data fec_data
  assume "fec_init K M S = Some p" "0 < K" "K + M \<le> 255" "enough K M lost_map" "shape K S data"
  then show "\<exists>rows. fec_decode p data fec_data lost_map = Some rows \<and> shape K S rows"
    using fec_decode_returns fec_init_coderI [of K M S p] by simp
next
  fix K M S p lost_map sent data fec_data
  assume "fec_init K M S = Some p" "0 < K" "K + M \<le> 255" "enough K M lost_map" "binary (K + M) lost_map" "shape K S sent" "shape K S data"
    "\<forall>i<K. lost_map ! i = 1 \<longrightarrow> data ! i = sent ! i"
    "\<forall>i<M. lost_map ! (K + i) = 1 \<longrightarrow> take S (fec_data ! i) = fec_encode p sent (blank M S) ! i"
  then show "fec_decode p data fec_data lost_map = Some sent"
    using fec_decode_recovers [of K M S p lost_map sent data fec_data] fec_init_coderI [of K M S p] by simp
next
  fix K M S :: nat
  assume "0 < K" "K + M \<le> 255"
  then show "\<exists>p. fec_init K M S = Some p" using fec_init_coder [of K M S] by auto
qed

section \<open>Properties\<close>

definition identity_matrix :: "nat \<Rightarrow> matrix" where
  "identity_matrix n = map (unit_row n) [0..<n]"

abbreviation product :: "nat \<Rightarrow> matrix \<Rightarrow> matrix \<Rightarrow> matrix" where
  "product n a b \<equiv> matrix_mulGF256 a b (replicate n (replicate n 0)) n n n"

lemma product_identity: "product n a b = identity_matrix n \<longleftrightarrow> (\<forall>i<n. \<forall>j<n. (\<Sum>k<n. ent a i k * ent b k j) = (if i = j then 1 else 0))"
proof -
  have z: "ent (replicate n (replicate n 0)) i j = 0" if "i < n" "j < n" for i j using that by (simp add: ent_def GF_simps)
  have i: "GF (identity_matrix n ! i ! j) = (if i = j then 1 else 0)" if "i < n" "j < n" for i j
    using that by (auto simp: identity_matrix_def unit_row_def GF_simps)
  have len: "length (product n a b) = n" "length (identity_matrix n) = n" "\<And>i. i < n \<Longrightarrow> length (product n a b ! i) = n"
    "\<And>i. i < n \<Longrightarrow> length (identity_matrix n ! i) = n"
    by (simp_all add: matrix_mulGF256_def identity_matrix_def unit_row_def)
  have "product n a b = identity_matrix n \<longleftrightarrow> (\<forall>i<n. \<forall>j<n. GF (product n a b ! i ! j) = GF (identity_matrix n ! i ! j))"
    using len by (auto simp: list_eq_iff_nth_eq)
  moreover have "GF (product n a b ! i ! j) = (\<Sum>k<n. ent a i k * ent b k j)" if "i < n" "j < n" for i j
    using matrix_mul_ent [of i n j n a b "replicate n (replicate n 0)" n] z that by (simp add: ent_def [of "product n a b"])
  ultimately show ?thesis using i by simp
qed

lemma left_inverse_injective:
  assumes "product n b m = identity_matrix n"
  shows "injective n (ent m)"
  unfolding injective_def
proof (intro allI impI)
  fix x c assume z: "\<forall>r<n. app n (ent m) x r = 0" and c: "c < n"
  have "(\<Sum>k<n. ent b c k * app n (ent m) x k) = (\<Sum>j<n. (\<Sum>k<n. ent b c k * ent m k j) * x j)"
    unfolding app_def sum_distrib_left sum_distrib_right by (subst sum.swap) (simp add: mult.assoc)
  also have "\<dots> = (\<Sum>j<n. if j = c then x j else 0)"
    using assms c unfolding product_identity by (intro sum.cong) auto
  finally show "x c = 0" using z c by simp
qed



text \<open>
  C3: Reed-Solomon recovery. With at most 255 packets in a group the coder can be initialised, and whenever at least as many of the packets
  of the group arrive as it has data packets, decoding restores every lost data packet, whichever packets were lost.
\<close>

theorem fec_recovers_lost_packets:
  assumes "0 < K" "K + M \<le> 255"
  shows "\<exists>p. fec_init K M S = Some p \<and>
    (\<forall>orig data fec_data lost_map.
       shape K S orig \<longrightarrow> shape K S data \<longrightarrow>
       binary (K + M) lost_map \<longrightarrow> K \<le> length (filter (\<lambda>i. lost_map ! i = 1) [0..<K + M]) \<longrightarrow>
       (\<forall>i<K. lost_map ! i = 1 \<longrightarrow> data ! i = orig ! i) \<longrightarrow>
       (\<forall>i<M. lost_map ! (K + i) = 1 \<longrightarrow> fec_data ! i = fec_encode p orig (replicate M (replicate S 0)) ! i) \<longrightarrow>
       fec_decode p data fec_data lost_map = Some orig)"
proof -
  obtain p where p: "fec_init K M S = Some p" "coder K M S p" using fec_init_coder [of K M S] assms by auto
  have len: "length (fec_encode p orig (replicate M (replicate S 0)) ! i) = S" if "i < M" for orig i
    using p(2) that by (simp add: fec_encode_def matrix_mulGF256_def coder_def)
  show ?thesis
    using p fec_decode_recovers [OF p(2) assms] len by (intro exI [of _ p]) auto
qed

theorem fec_recovers_lost_packets_witness:
  "\<exists>p. fec_init 2 2 1 = Some p \<and>
     fec_decode p [[0], [7]] (fec_encode p [[5], [7]] [[0], [0]]) [0, 1, 1, 0] = Some [[5], [7]]"
proof -
  obtain p where p: "fec_init 2 2 1 = Some p" and r: "\<And>orig data fec_data lost_map.
       shape 2 1 orig \<Longrightarrow> shape 2 1 data \<Longrightarrow> binary (2 + 2) lost_map \<Longrightarrow> 2 \<le> length (filter (\<lambda>i. lost_map ! i = 1) [0..<2 + 2]) \<Longrightarrow>
       (\<forall>i<2. lost_map ! i = 1 \<longrightarrow> data ! i = orig ! i) \<Longrightarrow>
       (\<forall>i<2. lost_map ! (2 + i) = 1 \<longrightarrow> fec_data ! i = fec_encode p orig (replicate 2 (replicate 1 0)) ! i) \<Longrightarrow>
       fec_decode p data fec_data lost_map = Some orig"
    using fec_recovers_lost_packets [of 2 2 1] by auto
  have "fec_decode p [[0], [7]] (fec_encode p [[5], [7]] [[0], [0]]) [0, 1, 1, 0] = Some [[5], [7]]"
    by (rule r) (auto simp: shape_def numeral_eq_Suc less_Suc_eq)
  with p show ?thesis by blast
qed

lemma repeated_row_not_invertible:
  assumes m: "shape n n m" and r: "r < n" "r' < n" "r \<noteq> r'" "\<And>c. c < n \<Longrightarrow> ent m r c = ent m r' c"
  shows "matrix_invGF256 m n = None"
proof (rule ccontr)
  assume "matrix_invGF256 m n \<noteq> None"
  then obtain b where b: "\<And>x y. graph n (ent m) x y = graph n (ent b) y x" using matrix_inv_ok [OF m] by (auto split: option.splits)
  define y where "y k = (if k = r then 1 else 0 :: gf256)" for k
  have "graph n (ent b) y (app n (ent b) y)" by (simp add: graph_def)
  then have g: "graph n (ent m) (app n (ent b) y) y" using b by blast
  have "y r = y r'" using g r by (simp add: graph_def app_def)
  then show False using r(3) by (simp add: y_def)
qed

text \<open>
  With more than 255 packets in a group the coder is not sound, because the powers of its generator repeat: if two of the
  packets it decodes from are 255 apart, decoding calls \<open>exit\<close> and ends the process, whatever the packets hold. The receiver admits groups of up to
  255 data and 20 parity packets.
\<close>

theorem fec_large_group_exits:
  assumes "K \<le> 255" "fec_init K M S = Some p" "K \<le> length (filter (\<lambda>i. lost_map ! i = 1) [0..<K + M])"
    "t < K" "t' < K" "received lost_map K M ! t < K" "received lost_map K M ! t' = received lost_map K M ! t + 255"
  shows "fec_decode p data fec_data lost_map = None"
proof -
  let ?rs = "received lost_map K M"
  have p: "coder K M S p" using fec_init_coder [OF assms(1), of M S] assms(2) by auto
  note rs = received_facts [OF assms(3)]
  have lt: "?rs ! t' < K + M" using rs assms(5) by simp
  have same: "gen K p (?rs ! t) j = gen K p (?rs ! t') j" if j: "j < K" for j
  proof -
    define x where "x c = (if c = j then 1 else 0 :: gf256)" for c
    obtain z where z: "\<And>i. i < K + M \<Longrightarrow> app K (gen K p) x i = (\<Sum>k<K. (alpha ^ i) ^ k * z k)"
      using gen_nodes [OF p, of x] by auto
    have "app K (gen K p) x i = gen K p i j" for i
    proof -
      have "app K (gen K p) x i = (\<Sum>c<K. if c = j then gen K p i c else 0)"
        unfolding app_def by (intro sum.cong) (auto simp: x_def)
      then show ?thesis using j by simp
    qed
    moreover have "alpha ^ (?rs ! t') = alpha ^ (?rs ! t)" by (simp add: assms(7) power_add alpha_255)
    ultimately show ?thesis using z [of "?rs ! t"] z [OF lt] assms(6) by simp
  qed
  have "t \<noteq> t'" using assms(7) by auto
  then have "matrix_invGF256 (de_subGM p lost_map) K = None"
    using repeated_row_not_invertible [OF de_subGM_shape [OF p, of lost_map] assms(4,5)] same
      de_subGM_ent [OF p rs(1)] assms(4,5) by simp
  then show ?thesis using p by (simp add: fec_decode_def Let_def coder_def)
qed

definition one_lost :: "nat list" where
  "one_lost = 1 # 0 # replicate 254 1"

lemma one_lost_received: "filter (\<lambda>i. one_lost ! i = 1) [0..<256] = 0 # [2..<256]"
proof -
  have "[0..<256] = 0 # 1 # [2..<256]" using upt_conv_Cons [of 0 256] upt_conv_Cons [of 1 256] by (simp add: numeral_2_eq_2)
  moreover have "filter (\<lambda>i. one_lost ! i = 1) [2..<256] = [2..<256]"
    by (rule filter_True) (auto simp: one_lost_def nth_Cons' )
  ultimately show ?thesis by (simp add: one_lost_def)
qed

theorem fec_large_group_exits_witness:
  "\<exists>p. fec_init 255 1 1 = Some p \<and> fec_decode p (replicate 255 [0]) [[0]] one_lost = None"
proof -
  obtain p where p: "fec_init 255 1 1 = Some p" using fec_init_coder [of 255 1 1] by auto
  have r: "received one_lost 255 1 = 0 # [2..<256]" using one_lost_received by (simp add: received_def)
  have "[2..<256] ! 253 = (255 :: nat)" by (subst nth_upt) simp_all
  then have "fec_decode p (replicate 255 [0]) [[0]] one_lost = None"
    using one_lost_received by (intro fec_large_group_exits [OF _ p, where t = 0 and t' = 254]) (simp_all add: r [simplified])
  with p show ?thesis by blast
qed

end
