(* ===== verification/Rtp_Receive.thy ===== *)
theory Rtp_Receive
  imports Packet_Queue
begin

text \<open>
  What the two protocols for RTP streams of \<open>libformat_open\<close>, \<open>hirtpproto.c\<close> and \<open>rtpfecproto.c\<close>, have in common: the receiving thread
  reads packets from the network into buffers and puts them into a queue; the reader takes them out, gives them to the packet parser of
  the media library and puts the stream packets it produces into a second queue, from which the caller reads bytes. Buffers
  that the parser does not keep come back to the thread through a third queue.

  The parser and the network are not part of the repository: the parser is a parameter of the definitions, and what the
  network delivers is an argument. The allocation of list nodes in the queues is taken to succeed.
\<close>

section \<open>Queues\<close>

text \<open>The queue number \<open>i\<close> of a stream; the environment says whether memory, mutex and condition variable are there.\<close>

definition create_queue :: "(nat \<Rightarrow> bool \<times> bool \<times> bool) \<Rightarrow> nat \<Rightarrow> int \<Rightarrow> int \<Rightarrow> PKTQueue option" where
  "create_queue env i max_size forbidden = (case env i of (a, m, c) \<Rightarrow> snd (pktq_create True a m c max_size forbidden))"

lemma create_queue_ok:
  assumes "create_queue e i m f = Some q" "0 \<le> B"
  shows "queue_ok m B q" "fill q = []" "contents q = []" "forbidden_size q = f" "q_data_size q = 0" "\<not> exit q"
proof -
  obtain a mu co where e: "e i = (a, mu, co)" by (rule prod_cases3)
  obtain r where c: "pktq_create True a mu co m f = (r, Some q)"
    using assms(1) by (cases "pktq_create True a mu co m f") (simp add: create_queue_def e)
  show "queue_ok m B q" "contents q = []" using create_ok [OF c assms(2)] by blast+
  show "fill q = []" "forbidden_size q = f" "q_data_size q = 0" "\<not> exit q" using c by (auto simp: pktq_create_def split: if_splits)
qed

section \<open>Receiving\<close>

text \<open>The local variables of the receiving thread: its buffer, null or a block, and the size it reads at most.\<close>

record receiver =
  rcv_buf :: "(nat \<times> u8 list) option"
  bufsize :: int

text \<open>
  A buffer for the next packet: the one at hand, a spare one from the queue, or a new one of \<open>len\<close> bytes (\<open>fresh\<close>: its address
  and what it happens to hold; none if the allocation fails, which is the result \<open>False\<close>).
\<close>

definition get_buffer ::
  "nat \<Rightarrow> (nat \<times> (nat \<Rightarrow> u8)) option \<Rightarrow> receiver \<Rightarrow> PKTQueue \<Rightarrow> bool \<times> receiver \<times> PKTQueue" where
  "get_buffer len fresh rx empty_q =
     (if rcv_buf rx \<noteq> None then (True, rx, empty_q)
      else
        (let malloc = (\<lambda>q. case fresh of None \<Rightarrow> (False, rx\<lparr>bufsize := int len\<rparr>, q)
                         | Some (b, junk) \<Rightarrow> (True, rx\<lparr>rcv_buf := Some (b, map junk [0..<len]), bufsize := int len\<rparr>, q)) in
         case pktq_get_pkt empty_q True 0 of
           (Size n, Some emptypkt, q) \<Rightarrow> if n \<ge> 0 then (True, rx\<lparr>rcv_buf := data emptypkt, bufsize := buf_size emptypkt\<rparr>, q) else malloc q
         | (_, _, q) \<Rightarrow> malloc q))"

text \<open>
  A read from the network, which stores at most \<open>bufsize\<close> bytes and fails on a null buffer, and the packet
  goes to the queue; if the queue does not take it the buffer stays with the thread. \<open>None\<close>: the bytes are written behind the block.
\<close>

definition receive_packet :: "u8 list \<Rightarrow> receiver \<Rightarrow> PKTQueue \<Rightarrow> (receiver \<times> PKTQueue) option" where
  "receive_packet bytes rx q =
     (let bs = take (nat (bufsize rx)) bytes in
      case rcv_buf rx of
        None \<Rightarrow> Some (rx, q)
      | Some (b, old) \<Rightarrow>
          if bs = [] then Some (rx, q)
          else if length bs > length old then None
          else
            (let new = bs @ drop (length bs) old;
                 rtppkt = \<lparr>data = Some (b, new), priv = None, data_size = int (length bs), buf_size = bufsize rx, rd_idx = 0\<rparr> in
             case pktq_put_pkt True q (Some rtppkt) of (r, q') \<Rightarrow>
               Some (rx\<lparr>rcv_buf := (case r of Size n \<Rightarrow> if n > 0 then None else Some (b, new) | _ \<Rightarrow> Some (b, new))\<rparr>, q')))"

section \<open>Parsing\<close>

text \<open>
  The parser \<open>ff_rtp_parse_packet\<close>: given its state and a packet (none to fetch a waiting stream packet), its result, the
  stream packet it produces, whether it keeps the buffer, and its new state. Result 0: a stream packet; 1: and more are waiting.
\<close>

record AVPacket =
  av_data :: "(nat \<times> u8 list) option"
  av_size :: int

type_synonym 'd parser = "'d \<Rightarrow> u8 list option \<Rightarrow> int \<times> AVPacket \<times> bool \<times> 'd"

text \<open>The stream packet goes to the queue; if it is not taken, its data is freed.\<close>

definition ts_packet :: "AVPacket \<Rightarrow> DataPacket" where
  "ts_packet av_tspkt = \<lparr>data = av_data av_tspkt, priv = None, data_size = av_size av_tspkt, buf_size = av_size av_tspkt, rd_idx = 0\<rparr>"

definition put_ts :: "PKTQueue \<Rightarrow> AVPacket \<Rightarrow> PKTQueue" where
  "put_ts q av_tspkt = snd (pktq_put_pkt True q (Some (ts_packet av_tspkt)))"

text \<open>The loop over the packets that are waiting in the parser; \<open>None\<close>: it does not end.\<close>

partial_function (option) drain_parser :: "'d parser \<Rightarrow> 'd \<Rightarrow> PKTQueue \<Rightarrow> ('d \<times> PKTQueue) option" where
  "drain_parser parse d q =
     (case parse d None of (ret, ts, _, d') \<Rightarrow>
        (let q' = (if ret = 0 \<or> ret = 1 then put_ts q ts else q) in
         if ret = 1 then drain_parser parse d' q' else Some (d', q')))"

definition deliver :: "'d parser \<Rightarrow> int \<Rightarrow> AVPacket \<Rightarrow> 'd \<Rightarrow> PKTQueue \<Rightarrow> ('d \<times> PKTQueue) option" where
  "deliver parse ret ts d q =
     (if ret = 0 \<or> ret = 1
      then let q' = put_ts q ts in if ret = 1 then drain_parser parse d q' else Some (d, q')
      else Some (d, q))"

definition parse_packet :: "'d parser \<Rightarrow> u8 list \<Rightarrow> 'd \<Rightarrow> PKTQueue \<Rightarrow> (bool \<times> 'd \<times> PKTQueue) option" where
  "parse_packet parse bs d q =
     (case parse d (Some bs) of (ret, ts, taken, d1) \<Rightarrow>
        map_option (\<lambda>(d2, q'). (taken, d2, q')) (deliver parse ret ts d1 q))"

text \<open>The bytes of a packet: \<open>data_size\<close> bytes from its data pointer.\<close>

definition pkt_bytes :: "DataPacket \<Rightarrow> u8 list" where
  "pkt_bytes pkt = (case data pkt of None \<Rightarrow> [] | Some (_, bs) \<Rightarrow> take (nat (data_size pkt)) bs)"

text \<open>The buffer of a packet that the parser did not keep goes to the spare buffers, or is freed if they are full.\<close>

definition spare_buffer :: "bool \<Rightarrow> DataPacket \<Rightarrow> PKTQueue \<Rightarrow> PKTQueue" where
  "spare_buffer taken pkt empty_q = (if taken then empty_q else snd (pktq_put_pkt True empty_q (Some pkt)))"

section \<open>What the parser promises\<close>

text \<open>
  The documented behaviour of the parser the reader relies on: the number of waiting packets goes down with each that is fetched,
  and a stream packet owns the bytes it announces, at most \<open>B\<close> of them.
\<close>

definition av_ok :: "int \<Rightarrow> AVPacket \<Rightarrow> bool" where
  "av_ok B av = (0 \<le> av_size av \<and> av_size av \<le> B \<and> (case av_data av of None \<Rightarrow> av_size av = 0 | Some (_, bs) \<Rightarrow> av_size av \<le> int (length bs)))"

definition parser_ok :: "int \<Rightarrow> ('d \<Rightarrow> nat) \<Rightarrow> 'd parser \<Rightarrow> bool" where
  "parser_ok B waiting parse \<longleftrightarrow>
     (\<forall>d inp ret ts taken d'. parse d inp = (ret, ts, taken, d') \<longrightarrow>
        (ret = 0 \<or> ret = 1 \<longrightarrow> av_ok B ts) \<and> (inp = None \<and> ret = 1 \<longrightarrow> waiting d' < waiting d))"

lemma parser_okD:
  assumes "parser_ok B waiting parse" "parse d inp = (ret, ts, taken, d')"
  shows "ret = 0 \<or> ret = 1 \<Longrightarrow> av_ok B ts" "inp = None \<Longrightarrow> ret = 1 \<Longrightarrow> waiting d' < waiting d"
  using assms unfolding parser_ok_def by blast+

lemma put_ts_ok:
  assumes "queue_ok M B q" "av_ok B ts"
  shows "queue_ok M B (put_ts q ts)"
proof -
  obtain r q' where r: "pktq_put_pkt True q (Some (ts_packet ts)) = (r, q')" by (rule prod.exhaust)
  have "node_ok (ts_packet ts) \<and> buf_size (ts_packet ts) \<le> B"
    using assms(2) by (auto simp: av_ok_def node_ok_def ts_packet_def split: option.splits)
  then show ?thesis using pktq_put_spec [OF assms(1) _ r] r by (auto simp: put_ts_def)
qed

lemma drain_parser_ok:
  assumes p: "parser_ok B waiting parse"
  shows "queue_ok M B q \<Longrightarrow> \<exists>d' q'. drain_parser parse d q = Some (d', q') \<and> queue_ok M B q'"
proof (induction "waiting d" arbitrary: d q rule: less_induct)
  case less
  obtain ret ts taken d1 where e: "parse d None = (ret, ts, taken, d1)" by (rule prod_cases4)
  note pd = parser_okD [OF p e]
  have q1: "queue_ok M B (if ret = 0 \<or> ret = 1 then put_ts q ts else q)" using put_ts_ok [OF less.prems] less.prems pd(1) by simp
  show ?case
  proof (cases "ret = 1")
    case True
    then show ?thesis using less.hyps [OF _ q1, of d1] pd(2) e by (subst drain_parser.simps) simp
  next
    case False
    then show ?thesis using q1 e by (subst drain_parser.simps) simp
  qed
qed

lemma parse_packet_ok:
  assumes p: "parser_ok B waiting parse" and q: "queue_ok M B q"
  shows "\<exists>taken d' q'. parse_packet parse bs d q = Some (taken, d', q') \<and> queue_ok M B q'"
proof -
  obtain ret ts taken d1 where e: "parse d (Some bs) = (ret, ts, taken, d1)" by (rule prod_cases4)
  have q1: "queue_ok M B (put_ts q ts)" if "ret = 0 \<or> ret = 1" using put_ts_ok [OF q] parser_okD(1) [OF p e] that by blast
  have "\<exists>d' q'. deliver parse ret ts d1 q = Some (d', q') \<and> queue_ok M B q'"
    using drain_parser_ok [OF p q1] q1 q by (auto simp: deliver_def Let_def)
  then show ?thesis by (auto simp: parse_packet_def e)
qed

section \<open>Buffers\<close>

text \<open>A receive buffer in a queue or with the thread is a block of the size it is announced with, at least \<open>n\<close> bytes.\<close>

definition buffer_ok :: "nat \<Rightarrow> DataPacket \<Rightarrow> bool" where
  "buffer_ok n pkt = (case data pkt of None \<Rightarrow> False
     | Some (_, bs) \<Rightarrow> rd_idx pkt = 0 \<and> 0 < data_size pkt \<and> data_size pkt \<le> buf_size pkt \<and> buf_size pkt = int (length bs) \<and> n \<le> length bs)"

definition receiver_ok :: "nat \<Rightarrow> receiver \<Rightarrow> bool" where
  "receiver_ok n rx = (case rcv_buf rx of None \<Rightarrow> True | Some (_, bs) \<Rightarrow> bufsize rx = int (length bs) \<and> n \<le> length bs)"

lemma fill_put: "set (fill (snd (pktq_put_pkt alloc q p))) \<subseteq> set (fill q) \<union> set_option p"
  by (auto simp: pktq_put_pkt_def Let_def split: option.splits if_splits)

lemma fill_get: "pktq_get_pkt q b t = (r, p, q') \<Longrightarrow> set (fill q') \<union> set_option p \<subseteq> set (fill q)"
  by (auto simp: pktq_get_pkt_def drop_head_def split: if_splits list.splits)

lemma get_size: "pktq_get_pkt q b t = (r, Some p, q') \<Longrightarrow> r = Size (data_size p)"
  by (auto simp: pktq_get_pkt_def split: if_splits list.splits)

lemma get_buffer_ok:
  assumes g: "get_buffer len fresh rx eq = (ok, rx', eq')" and rx: "receiver_ok n rx" and q: "\<forall>p \<in> set (fill eq). buffer_ok n p" and n: "n \<le> len"
  shows "receiver_ok n rx' \<and> set (fill eq') \<subseteq> set (fill eq)"
proof (cases "rcv_buf rx = None")
  case False
  then show ?thesis using g rx by (simp add: get_buffer_def)
next
  case True
  obtain r p q1 where e: "pktq_get_pkt eq True 0 = (r, p, q1)" by (rule prod_cases3)
  have f: "set (fill q1) \<subseteq> set (fill eq)" "set_option p \<subseteq> set (fill eq)" using fill_get [OF e] by auto
  have b: "receiver_ok n (rx\<lparr>rcv_buf := data x, bufsize := buf_size x\<rparr>)" if "p = Some x" for x
    using q f(2) that by (auto simp: receiver_ok_def buffer_ok_def split: option.splits)
  show ?thesis using g True e f b n
    by (auto simp: get_buffer_def receiver_ok_def Let_def split: pktq_ret.splits option.splits if_splits)
qed

lemma receive_packet_ok:
  assumes rx: "receiver_ok n rx"
  shows "\<exists>rx' q'. receive_packet bytes rx q = Some (rx', q') \<and> receiver_ok n rx' \<and>
    (\<forall>p \<in> set (fill q'). p \<in> set (fill q) \<or> (buffer_ok n p \<and> pkt_bytes p = take (nat (bufsize rx)) bytes))"
proof (cases "rcv_buf rx")
  case None
  then show ?thesis using rx by (auto simp: receive_packet_def)
next
  case (Some x)
  obtain b old where x: "rcv_buf rx = Some (b, old)" using Some by (cases x) auto
  define bs where "bs = take (nat (bufsize rx)) bytes"
  define new where "new = bs @ drop (length bs) old"
  have o: "bufsize rx = int (length old)" "n \<le> length old" using rx x by (simp_all add: receiver_ok_def)
  have l: "length bs \<le> length old" "length new = length old" using o(1) by (simp_all add: bs_def new_def)
  show ?thesis
  proof (cases "bs = []")
    case True
    then show ?thesis using x rx by (auto simp: receive_packet_def bs_def)
  next
    case False
    define pkt where "pkt = \<lparr>data = Some (b, new), priv = None, data_size = int (length bs), buf_size = bufsize rx, rd_idx = 0\<rparr>"
    obtain r q' where r: "pktq_put_pkt True q (Some pkt) = (r, q')" by (rule prod.exhaust)
    have p: "buffer_ok n pkt" "pkt_bytes pkt = bs" using False o l by (simp_all add: pkt_def buffer_ok_def pkt_bytes_def) (simp add: new_def)
    have f: "set (fill q') \<subseteq> insert pkt (set (fill q))" using fill_put [of True q "Some pkt"] r by auto
    have "receive_packet bytes rx q = Some (rx\<lparr>rcv_buf := (case r of Size n \<Rightarrow> if n > 0 then None else Some (b, new) | _ \<Rightarrow> Some (b, new))\<rparr>, q')"
      using False l(1) r unfolding receive_packet_def Let_def bs_def [symmetric] x option.case prod.case new_def [symmetric] pkt_def by simp
    then show ?thesis using p f o l(2) by (auto simp: receiver_ok_def bs_def split: pktq_ret.splits)
  qed
qed

lemma spare_buffer_fill: "set (fill (spare_buffer taken pkt q)) \<subseteq> insert pkt (set (fill q))"
  using fill_put [of True q "Some pkt"] by (auto simp: spare_buffer_def)

section \<open>An example\<close>

text \<open>A parser for the examples: it takes the payload behind the header of a packet, at most 1500 bytes, and keeps no packets back.\<close>

definition example_parser :: "unit parser" where
  "example_parser d inp = (case inp of
       None \<Rightarrow> (- 1, \<lparr>av_data = None, av_size = 0\<rparr>, False, d)
     | Some bs \<Rightarrow> (0, \<lparr>av_data = Some (0, take 1500 (drop 12 bs)), av_size = int (min 1500 (length bs - 12))\<rparr>, False, d))"

lemma example_parser_ok: "parser_ok 1500 (\<lambda>_. 0) example_parser"
  by (auto simp: parser_ok_def example_parser_def av_ok_def split: option.splits)

end
