(* ===== verification/Rtp_Fec.thy ===== *)
theory Rtp_Fec
  imports Rtp_Receive Rs_Fec
begin

text \<open>
  The stream protocol with forward error correction of \<open>libformat_open/rtpfecproto.c\<close>. Two sockets deliver data packets and parity
  packets. As long as no packet is lost the reader gives the data packets to the parser as they come. After the first gap the next parity packet fixes the
  sizes of a group (\<open>K\<close> data packets, \<open>M\<close> parity packets, a length), and from then on packets are collected in groups: one is being downloaded, the one before it waits for
  late packets (\<open>GroupCheckMiss\<close>), is decoded if packets are missing, and the finished one (\<open>GroupDone\<close>) is given to the parser packet by packet.

  Each function of the file is one definition; the loop of \<open>rtpfec_read\<close> and of the thread are split into passes. \<open>None\<close> is undefined behaviour or a
  process exit: a copy behind the end of a slot, a null slot, a use after free. Left out are the output of log messages (some of which read the first ten bytes
  of a slot whatever its length), the text of the addresses, and the failure of the allocation of list nodes of the queues.
\<close>

section \<open>Groups of packets\<close>

definition RTP_FEC_GROUP_PKT_NUM_RTP :: nat where
  "RTP_FEC_GROUP_PKT_NUM_RTP = 255"

definition RTP_FEC_GROUP_PKT_NUM_FEC :: nat where
  "RTP_FEC_GROUP_PKT_NUM_FEC = 20"

definition RTP_FEC_CHECK_MISS_COUNT_MAX :: nat where
  "RTP_FEC_CHECK_MISS_COUNT_MAX = 10"

text \<open>A slot is null or a block of memory with its contents.\<close>

record RTPFECPktGroup =
  paPktRtp :: "u8 list option list"
  aPktRtpLen :: "nat list"
  paPktFec :: "u8 list option list"
  lost_map :: "nat list"
  pkt_read_pos :: nat
  rtp_pkt_size :: nat
  rtp_seq_start :: int
  rtp_seq_end :: int
  seq_reverse :: bool

text \<open>
  The context, with the coder behind \<open>extern_fec.cpp\<close> (the static pointer \<open>p\<close>, null if \<open>None\<close>). \<open>'d\<close> is the state of
  the packet parser of the media library. \<open>k_fec_pkt_num\<close> and \<open>fec_inited\<close> are the members \<open>fec_pkt_num\<close> and \<open>fec_init\<close>.
\<close>

record 'd RTPFECContext =
  ts_queue :: PKTQueue
  rtp_queue :: PKTQueue
  fec_queue :: PKTQueue
  empty_buf_queue :: PKTQueue
  rtpdmx :: 'd
  is_exit :: bool
  GroupDone :: "RTPFECPktGroup option"
  GroupCheckMiss :: "RTPFECPktGroup option"
  GroupDownLoading :: "RTPFECPktGroup option"
  have_fec :: bool
  rtp_seq_next :: "int option"
  rtp_seq_lost :: bool
  check_count :: nat
  fec_inited :: bool
  fec_dec_len :: nat
  rtp_pkt_num :: nat
  k_fec_pkt_num :: nat
  coder_p :: "RS_fec option"
  test_lost_rtp :: bool

definition zero_group :: RTPFECPktGroup where
  "zero_group = \<lparr>paPktRtp = replicate 255 None, aPktRtpLen = replicate 255 0, paPktFec = replicate 20 None, lost_map = replicate 275 0,
     pkt_read_pos = 0, rtp_pkt_size = 0, rtp_seq_start = 0, rtp_seq_end = 0, seq_reverse = False\<rparr>"

definition rtpfec_group_checkmiss_to_done :: "'d RTPFECContext \<Rightarrow> pktq_ret \<times> 'd RTPFECContext" where
  "rtpfec_group_checkmiss_to_done s =
     (if GroupDone s \<noteq> None then (Err, s)
      else (Size 0, s\<lparr>GroupDone := GroupCheckMiss s, GroupCheckMiss := None\<rparr>))"

text \<open>
  \<open>alloc n\<close> says whether the allocation number \<open>n\<close> of the call succeeds. A failure leaves the slots from there on null and the sequence
  numbers zero.
\<close>

definition alloc_slots :: "(nat \<Rightarrow> bool) \<Rightarrow> nat \<Rightarrow> nat \<Rightarrow> nat \<Rightarrow> nat \<Rightarrow> u8 list option list" where
  "alloc_slots alloc first slots num len =
     map (\<lambda>i. if i < num \<and> (\<forall>k\<le>i. alloc (first + k)) then Some (replicate len 0) else None) [0..<slots]"

definition rtpfec_create_group_downloading :: "(nat \<Rightarrow> bool) \<Rightarrow> 'd RTPFECContext \<Rightarrow> int \<Rightarrow> pktq_ret \<times> 'd RTPFECContext" where
  "rtpfec_create_group_downloading alloc s seq_start =
     (if GroupDownLoading s \<noteq> None then (Size 0, s)
      else if \<not> alloc 0 then (Err_ENOMEM, s)
      else
        (let K = rtp_pkt_num s; M = k_fec_pkt_num s;
             rtp_ok = (\<forall>k<K. alloc (1 + k)); fec_ok = (\<forall>k<M. alloc (1 + K + k));
             g1 = zero_group\<lparr>paPktRtp := alloc_slots alloc 1 255 K (fec_dec_len s)\<rparr>;
             g2 = (if rtp_ok then g1\<lparr>paPktFec := alloc_slots alloc (1 + K) 20 M (fec_dec_len s)\<rparr> else g1);
             end_seq = (seq_start + int K - 1) mod 65536;
             g3 = g2\<lparr>rtp_seq_start := seq_start, rtp_seq_end := end_seq, seq_reverse := (end_seq < seq_start)\<rparr> in
         if rtp_ok \<and> fec_ok then (Size 0, s\<lparr>GroupDownLoading := Some g3\<rparr>)
         else (Err_ENOMEM, s\<lparr>GroupDownLoading := Some g2\<rparr>)))"

definition rtpfec_group_downloading_to_checkmiss :: "'d RTPFECContext \<Rightarrow> pktq_ret \<times> 'd RTPFECContext" where
  "rtpfec_group_downloading_to_checkmiss s =
     (if GroupCheckMiss s \<noteq> None then (Err, s)
      else (Size 0, s\<lparr>GroupCheckMiss := GroupDownLoading s, GroupDownLoading := None, check_count := 0\<rparr>))"

definition rtpfec_group_done_release :: "'d RTPFECContext \<Rightarrow> 'd RTPFECContext" where
  "rtpfec_group_done_release s = s\<lparr>GroupDone := None\<rparr>"

definition rtpfec_get_index :: "int \<Rightarrow> int \<Rightarrow> int \<Rightarrow> int \<Rightarrow> int" where
  "rtpfec_get_index seq_start seq_end seq_target over =
     (if seq_end < seq_start
      then if seq_target \<ge> seq_start then seq_target - seq_start
           else if seq_target \<le> seq_end then over + 1 + seq_target - seq_start
           else - 1
      else if seq_target \<ge> seq_start \<and> seq_target \<le> seq_end then seq_target - seq_start
           else - 1)"

section \<open>Packets into groups\<close>

text \<open>The copy of bytes to the front of a slot; \<open>None\<close>: the slot is null or too short.\<close>

definition into_slot :: "u8 list option list \<Rightarrow> nat \<Rightarrow> u8 list \<Rightarrow> u8 list option list option" where
  "into_slot slots i bs =
     (case slots ! i of None \<Rightarrow> None
      | Some old \<Rightarrow> if length bs \<le> length old then Some (slots[i := Some (bs @ drop (length bs) old)]) else None)"

definition put_rtp :: "RTPFECPktGroup \<Rightarrow> nat \<Rightarrow> DataPacket \<Rightarrow> RTPFECPktGroup option" where
  "put_rtp g i pkt = map_option (\<lambda>slots. g\<lparr>paPktRtp := slots, aPktRtpLen := (aPktRtpLen g)[i := length (pkt_bytes pkt)],
       lost_map := (lost_map g)[i := 1], rtp_pkt_size := max (rtp_pkt_size g) (length (pkt_bytes pkt))\<rparr>)
     (into_slot (paPktRtp g) i (pkt_bytes pkt))"

definition in_window :: "'d RTPFECContext \<Rightarrow> int \<Rightarrow> bool" where
  "in_window s index \<longleftrightarrow> 0 \<le> index \<and> index < int (rtp_pkt_num s)"

text \<open>A packet behind the window: the stream is not continuous, and the correction starts again with the next parity packet.\<close>

definition discontinue :: "'d RTPFECContext \<Rightarrow> 'd RTPFECContext" where
  "discontinue s =
     (let s1 = (if GroupCheckMiss s \<noteq> None then snd (rtpfec_group_checkmiss_to_done s) else s)
      in (snd (rtpfec_group_downloading_to_checkmiss s1))\<lparr>have_fec := False\<rparr>)"

text \<open>The packet is in the group after the one being downloaded.\<close>

definition next_group :: "(nat \<Rightarrow> bool) \<Rightarrow> 'd RTPFECContext \<Rightarrow> pktq_ret \<times> 'd RTPFECContext" where
  "next_group alloc s =
     (let s1 = (if GroupCheckMiss s \<noteq> None then snd (rtpfec_group_checkmiss_to_done s) else s);
          (r, s2) = rtpfec_group_downloading_to_checkmiss s1 in
      if r \<noteq> Size 0 then (r, s2)
      else case GroupCheckMiss s2 of None \<Rightarrow> (Err, s2)
        | Some g \<Rightarrow> rtpfec_create_group_downloading alloc s2 ((rtp_seq_end g + 1) mod 65536))"

text \<open>A packet that is not in the group being checked: the group after the one being downloaded, that one, or none.\<close>

definition rtppkt_download ::
  "(nat \<Rightarrow> bool) \<Rightarrow> 'd RTPFECContext \<Rightarrow> DataPacket \<Rightarrow> int \<Rightarrow> RTPFECPktGroup \<Rightarrow> (pktq_ret \<times> 'd RTPFECContext) option" where
  "rtppkt_download alloc s pkt pktseq d =
     (let ni = rtpfec_get_index ((rtp_seq_end d + 1) mod 65536) ((rtp_seq_end d + int (rtp_pkt_num s)) mod 65536) pktseq 65535;
          di = rtpfec_get_index (rtp_seq_start d) (rtp_seq_end d) pktseq 65535 in
      if in_window s ni
      then (case next_group alloc s of (r, s1) \<Rightarrow>
             if r \<noteq> Size 0 then Some (r, s1)
             else case GroupDownLoading s1 of None \<Rightarrow> None
               | Some d1 \<Rightarrow> map_option (\<lambda>g'. (Size 0, s1\<lparr>GroupDownLoading := Some g'\<rparr>)) (put_rtp d1 (nat ni) pkt))
      else if in_window s di
      then map_option (\<lambda>g'. (Size 0, s\<lparr>GroupDownLoading := Some g'\<rparr>)) (put_rtp d (nat di) pkt)
      else Some (Size 0, discontinue s))"

definition rtpfec_group_rtppkt_in ::
  "(nat \<Rightarrow> bool) \<Rightarrow> 'd RTPFECContext \<Rightarrow> DataPacket \<Rightarrow> int \<Rightarrow> (pktq_ret \<times> 'd RTPFECContext) option" where
  "rtpfec_group_rtppkt_in alloc s pkt pktseq =
     (let ci = (case GroupCheckMiss s of None \<Rightarrow> - 1 | Some g \<Rightarrow> rtpfec_get_index (rtp_seq_start g) (rtp_seq_end g) pktseq 65535) in
      if GroupCheckMiss s \<noteq> None \<and> in_window s ci
      then map_option (\<lambda>g'. (Size 0, s\<lparr>GroupCheckMiss := Some g'\<rparr>)) (put_rtp (the (GroupCheckMiss s)) (nat ci) pkt)
      else case GroupDownLoading s of None \<Rightarrow> Some (Err, s) | Some d \<Rightarrow> rtppkt_download alloc s pkt pktseq d)"

text \<open>The payload of a parity packet follows 24 bytes of headers; it is copied in the announced length, whatever the packet holds.\<close>

definition put_fec :: "'d RTPFECContext \<Rightarrow> RTPFECPktGroup \<Rightarrow> nat \<Rightarrow> DataPacket \<Rightarrow> RTPFECPktGroup option" where
  "put_fec s g i pkt =
     (case data pkt of None \<Rightarrow> None
      | Some (_, bs) \<Rightarrow>
         if length bs < 24 + fec_dec_len s then None
         else map_option (\<lambda>slots. g\<lparr>paPktFec := slots, lost_map := (lost_map g)[rtp_pkt_num s + i := 1]\<rparr>)
                (into_slot (paPktFec g) i (take (fec_dec_len s) (drop 24 bs))))"

definition rtpfec_group_fecpkt_in ::
  "(nat \<Rightarrow> bool) \<Rightarrow> 'd RTPFECContext \<Rightarrow> DataPacket \<Rightarrow> int \<Rightarrow> nat \<Rightarrow> (pktq_ret \<times> 'd RTPFECContext) option" where
  "rtpfec_group_fecpkt_in alloc s pkt pktseq fec_seq =
     (if (case GroupCheckMiss s of None \<Rightarrow> False | Some g \<Rightarrow> pktseq = rtp_seq_start g)
      then map_option (\<lambda>g'. (Size 0, s\<lparr>GroupCheckMiss := Some g'\<rparr>)) (put_fec s (the (GroupCheckMiss s)) fec_seq pkt)
      else case GroupDownLoading s of None \<Rightarrow> Some (Err, s)
      | Some d \<Rightarrow>
          if pktseq = rtp_seq_start d
          then map_option (\<lambda>g'. (Size 0, s\<lparr>GroupDownLoading := Some g'\<rparr>)) (put_fec s d fec_seq pkt)
          else if pktseq = (rtp_seq_start d + int (rtp_pkt_num s)) mod 65536
          then
            (let s1 = snd (rtpfec_group_downloading_to_checkmiss s) in
             case GroupCheckMiss s1 of None \<Rightarrow> None
             | Some c \<Rightarrow>
                (case rtpfec_create_group_downloading alloc s1 ((rtp_seq_end c + 1) mod 65536) of (r, s2) \<Rightarrow>
                   if r \<noteq> Size 0 then Some (r, s2)
                   else case GroupDownLoading s2 of None \<Rightarrow> None
                     | Some d2 \<Rightarrow> map_option (\<lambda>g'. (Size 0, s2\<lparr>GroupDownLoading := Some g'\<rparr>)) (put_fec s2 d2 fec_seq pkt)))
          else Some (Size 0, s))"

section \<open>The search for lost packets\<close>

text \<open>
  The first loop of \<open>_rtpfec_check_miss\<close>: the numbers of the lost packets, \<open>None\<close> if there are too many. The second: whether few
  enough parity packets are missing.
\<close>

fun lost_rtp :: "nat list \<Rightarrow> int \<Rightarrow> nat list \<Rightarrow> nat list \<Rightarrow> nat list option" where
  "lost_rtp lm M [] acc = Some acc"
| "lost_rtp lm M (i # is) acc =
     (if lm ! i = 0 then if int (length acc) \<ge> M - 1 then None else lost_rtp lm M is (acc @ [i])
      else lost_rtp lm M is acc)"

fun lost_fec :: "nat list \<Rightarrow> nat \<Rightarrow> int \<Rightarrow> nat list \<Rightarrow> nat \<Rightarrow> nat \<Rightarrow> bool" where
  "lost_fec lm K M [] lost_pkt_count lost_fec_count = True"
| "lost_fec lm K M (i # is) lost_pkt_count lost_fec_count =
     (if lm ! (K + i) = 0
      then if int (lost_pkt_count + Suc lost_fec_count) \<ge> M - 1 then False
           else lost_fec lm K M is lost_pkt_count (Suc lost_fec_count)
      else lost_fec lm K M is lost_pkt_count lost_fec_count)"

definition rtpfec_check_miss :: "'d RTPFECContext \<Rightarrow> bool \<times> 'd RTPFECContext" where
  "rtpfec_check_miss s =
     (case GroupCheckMiss s of None \<Rightarrow> (False, s)
      | Some g \<Rightarrow>
         (case lost_rtp (lost_map g) (int (k_fec_pkt_num s)) [0..<rtp_pkt_num s] [] of None \<Rightarrow> (False, s)
          | Some lost_pkt_idx \<Rightarrow>
             if \<not> lost_fec (lost_map g) (rtp_pkt_num s) (int (k_fec_pkt_num s)) [0..<k_fec_pkt_num s] (length lost_pkt_idx) 0 then (False, s)
             else if lost_pkt_idx = [] then (False, s)
             else (True, s\<lparr>GroupCheckMiss := Some (g\<lparr>aPktRtpLen := fold (\<lambda>i l. l[i := fec_dec_len s]) lost_pkt_idx (aPktRtpLen g)\<rparr>)\<rparr>)))"

text \<open>
  The decoder on the slots of the group. It works with the sizes it was initialised with; a slot it reads or writes that is
  null or too short is undefined behaviour. A null coder is the result \<open>- 1\<close>.
\<close>

definition slot_ok :: "nat \<Rightarrow> u8 list option \<Rightarrow> bool" where
  "slot_ok n slot = (case slot of None \<Rightarrow> False | Some bs \<Rightarrow> n \<le> length bs)"

definition fec_decode_adp :: "RS_fec option \<Rightarrow> RTPFECPktGroup \<Rightarrow> (pktq_ret \<times> RTPFECPktGroup) option" where
  "fec_decode_adp pp g =
     (case pp of None \<Rightarrow> Some (Err, g)
      | Some p \<Rightarrow>
         (let K = data_pkt_num p; S = data_len p; slots = take K (paPktRtp g) in
          if length slots = K \<and> list_all (slot_ok S) slots
             \<and> list_all (\<lambda>i. i < K \<or> (i - K < length (paPktFec g) \<and> slot_ok S (paPktFec g ! (i - K)))) (present (lost_map g) K (fec_pkt_num p))
          then map_option (\<lambda>rows. (Size 0, g\<lparr>paPktRtp := map Some rows @ drop K (paPktRtp g)\<rparr>))
                 (fec_decode p (map the slots) (map (\<lambda>sl. case sl of None \<Rightarrow> [] | Some bs \<Rightarrow> bs) (paPktFec g)) (lost_map g))
          else None))"

definition fec_init_adp :: "RS_fec option \<Rightarrow> nat \<Rightarrow> nat \<Rightarrow> nat \<Rightarrow> RS_fec option" where
  "fec_init_adp pp K M S = fec_init K M S"

definition fec_cleanup_adp :: "RS_fec option \<Rightarrow> RS_fec option" where
  "fec_cleanup_adp pp = None"

section \<open>Parity packets\<close>

definition AV_RB16 :: "u8 list \<Rightarrow> nat \<Rightarrow> nat" where
  "AV_RB16 bs i = unat (bs ! i) * 256 + unat (bs ! (i + 1))"

definition AV_RB8 :: "u8 list \<Rightarrow> nat \<Rightarrow> nat" where
  "AV_RB8 bs i = unat (bs ! i)"

text \<open>
  The header fields and the checks on them, on the 24 bytes in front of the payload: the first sequence number, the number of data
  packets, the number of parity packets, the number of this one and the length.
\<close>

definition fec_header :: "'d RTPFECContext \<Rightarrow> u8 list \<Rightarrow> (int \<times> int \<times> nat \<times> nat \<times> nat \<times> nat) option" where
  "fec_header s bs =
     (let rtp_start = int (AV_RB16 bs 12); rtp_end = int (AV_RB16 bs 14); rtp_num = nat ((rtp_end + 1 - rtp_start) mod 65536);
          fec_num = AV_RB8 bs 16; fec_seq = AV_RB8 bs 17; dec_len = AV_RB16 bs 20 in
      if RTP_FEC_GROUP_PKT_NUM_RTP < rtp_num \<or> (have_fec s \<and> rtp_num \<noteq> rtp_pkt_num s) then None
      else if RTP_FEC_GROUP_PKT_NUM_FEC < fec_num \<or> (have_fec s \<and> fec_num \<noteq> k_fec_pkt_num s) then None
      else if fec_num \<le> fec_seq then None
      else Some (rtp_start, rtp_end, rtp_num, fec_num, fec_seq, dec_len))"

text \<open>
  The first parity packet after a discontinuity fixes the sizes. A group that is still there is freed, but its pointer stays: the
  use of it afterwards is undefined.
\<close>

definition first_fec :: "(nat \<Rightarrow> bool) \<Rightarrow> 'd RTPFECContext \<Rightarrow> int \<Rightarrow> nat \<Rightarrow> nat \<Rightarrow> nat \<Rightarrow> (pktq_ret \<times> 'd RTPFECContext) option" where
  "first_fec alloc s rtp_end rtp_num fec_num dec_len =
     (let s1 = s\<lparr>have_fec := True, fec_dec_len := dec_len, rtp_pkt_num := rtp_num, k_fec_pkt_num := fec_num\<rparr> in
      if GroupDownLoading s1 \<noteq> None then None
      else Some (rtpfec_create_group_downloading alloc s1 ((rtp_end + 1) mod 65536)))"

definition rtpfec_get_fecpkt :: "(nat \<Rightarrow> bool) \<Rightarrow> 'd RTPFECContext \<Rightarrow> (pktq_ret \<times> 'd RTPFECContext) option" where
  "rtpfec_get_fecpkt alloc s =
     (case pktq_get_pkt (fec_queue s) True 0 of (r, pkt, q) \<Rightarrow>
        (let s0 = s\<lparr>fec_queue := q\<rparr> in
         case (r, pkt) of
           (Size n, Some fecpkt) \<Rightarrow>
             if n \<le> 0 \<or> \<not> rtp_seq_lost s then Some (Size 0, s0)
             else if 24 \<ge> data_size fecpkt then Some (Err, s0)
             else (case fec_header s0 (pkt_bytes fecpkt) of None \<Rightarrow> Some (Err, s0)
               | Some (rtp_start, rtp_end, rtp_num, fec_num, fec_seq, dec_len) \<Rightarrow>
                  (case (if have_fec s0 then Some (Size 0, s0) else first_fec alloc s0 rtp_end rtp_num fec_num dec_len) of None \<Rightarrow> None
                   | Some (r1, s1) \<Rightarrow> if r1 \<noteq> Size 0 then Some (r1, s1) else rtpfec_group_fecpkt_in alloc s1 fecpkt rtp_start fec_seq))
         | _ \<Rightarrow> Some (Size 0, s0)))"

section \<open>Reading\<close>

text \<open>A packet to the parser, and the stream packets to their queue.\<close>

definition parse_bytes :: "'d parser \<Rightarrow> 'd RTPFECContext \<Rightarrow> u8 list \<Rightarrow> (bool \<times> 'd RTPFECContext) option" where
  "parse_bytes parse s bs = map_option (\<lambda>(taken, d, q). (taken, s\<lparr>rtpdmx := d, ts_queue := q\<rparr>)) (parse_packet parse bs (rtpdmx s) (ts_queue s))"

text \<open>
  One slot of the finished group, the one at the read position, goes to the parser, which may keep the buffer. A slot shorter
  than the recorded length would be read behind its end.
\<close>

definition read_done :: "'d parser \<Rightarrow> 'd RTPFECContext \<Rightarrow> RTPFECPktGroup \<Rightarrow> 'd RTPFECContext option" where
  "read_done parse s g =
     (let pos = pkt_read_pos g in
      if pos \<ge> rtp_pkt_num s then Some (rtpfec_group_done_release s)
      else
        (case paPktRtp g ! pos of
           Some bs \<Rightarrow>
             if aPktRtpLen g ! pos = 0 then Some (s\<lparr>GroupDone := Some (g\<lparr>pkt_read_pos := pos + 1\<rparr>)\<rparr>)
             else if aPktRtpLen g ! pos > length bs then None
             else map_option (\<lambda>(taken, s1).
                    s1\<lparr>GroupDone := Some (if taken then g\<lparr>paPktRtp := (paPktRtp g)[pos := None], aPktRtpLen := (aPktRtpLen g)[pos := 0], pkt_read_pos := pos + 1\<rparr>
                                          else g\<lparr>pkt_read_pos := pos + 1\<rparr>)\<rparr>)
                    (parse_bytes parse s (take (aPktRtpLen g ! pos) bs))
         | None \<Rightarrow> Some (s\<lparr>GroupDone := Some (g\<lparr>pkt_read_pos := pos + 1\<rparr>)\<rparr>)))"

definition keep_buffer :: "bool \<Rightarrow> DataPacket \<Rightarrow> 'd RTPFECContext \<Rightarrow> 'd RTPFECContext" where
  "keep_buffer taken pkt s = s\<lparr>empty_buf_queue := spare_buffer taken pkt (empty_buf_queue s)\<rparr>"

text \<open>What a pass of the loop of \<open>rtpfec_read\<close> ends with: the next pass, the read from the stream queue, a return, or a wait for a packet.\<close>

datatype 'd pass = Again "'d RTPFECContext" | Read_out "'d RTPFECContext" | Return pktq_ret "'d RTPFECContext" | Wait "'d RTPFECContext"

definition ready_coder :: "'d RTPFECContext \<Rightarrow> 'd RTPFECContext option" where
  "ready_coder s =
     (if fec_inited s then Some s
      else map_option (\<lambda>p. s\<lparr>coder_p := Some p, fec_inited := True\<rparr>)
             (fec_init_adp (coder_p s) (rtp_pkt_num s) (k_fec_pkt_num s) (fec_dec_len s)))"

definition decode_miss :: "'d RTPFECContext \<Rightarrow> (pktq_ret \<times> 'd RTPFECContext) option" where
  "decode_miss s =
     (case ready_coder s of None \<Rightarrow> None
      | Some s1 \<Rightarrow>
         (case GroupCheckMiss s1 of None \<Rightarrow> None
          | Some g \<Rightarrow> map_option (\<lambda>(r, g'). (r, s1\<lparr>GroupCheckMiss := Some g'\<rparr>)) (fec_decode_adp (coder_p s1) g)))"

definition repair_group :: "'d RTPFECContext \<Rightarrow> 'd pass option" where
  "repair_group s =
     (case rtpfec_check_miss s of (need_dec, s1) \<Rightarrow>
        (case (if need_dec then decode_miss s1 else Some (Size 0, s1)) of None \<Rightarrow> None
         | Some (r, s2) \<Rightarrow>
            if r \<noteq> Size 0 then Some (Return r s2)
            else (case rtpfec_group_checkmiss_to_done s2 of (r3, s3) \<Rightarrow>
                   if r3 \<noteq> Size 0 then Some (Return Err s3) else Some (Again s3))))"

text \<open>The packet is fetched without waiting if there are stream bytes to return.\<close>

definition fetch_rtp :: "'d RTPFECContext \<Rightarrow> ('d pass, DataPacket \<times> 'd RTPFECContext) sum" where
  "fetch_rtp s =
     (case pktq_get_pkt (rtp_queue s) True (if pktq_get_data_size (Some (ts_queue s)) > 0 then 0 else - 1) of (r, pkt, q) \<Rightarrow>
        (let s1 = s\<lparr>rtp_queue := q\<rparr> in
         case (r, pkt) of
           (Waits, _) \<Rightarrow> Inl (Wait s1)
         | (Size n, Some p) \<Rightarrow> if n \<le> 0 then (if pktq_get_data_size (Some (ts_queue s1)) > 0 then Inl (Read_out s1) else Inl (Return r s1)) else Inr (p, s1)
         | _ \<Rightarrow> if pktq_get_data_size (Some (ts_queue s1)) > 0 then Inl (Read_out s1) else Inl (Return r s1)))"

text \<open>The sequence number of a packet, at a fixed place of its block.\<close>

definition rtp_seq :: "DataPacket \<Rightarrow> int" where
  "rtp_seq pkt = (case data pkt of None \<Rightarrow> 0 | Some (_, bs) \<Rightarrow> int (AV_RB16 bs 2))"

definition plain_rtp :: "'d parser \<Rightarrow> 'd RTPFECContext \<Rightarrow> DataPacket \<Rightarrow> 'd pass option" where
  "plain_rtp parse s pkt =
     (let seq = rtp_seq pkt;
          s1 = (if rtp_seq_lost s then s
                else s\<lparr>rtp_seq_lost := (rtp_seq_next s \<noteq> None \<and> rtp_seq_next s \<noteq> Some seq), rtp_seq_next := Some ((seq + 1) mod 65536)\<rparr>) in
      map_option (\<lambda>(taken, s2). Again (keep_buffer taken pkt s2)) (parse_bytes parse s1 (pkt_bytes pkt)))"

definition grouped_rtp :: "(nat \<Rightarrow> bool) \<Rightarrow> 'd parser \<Rightarrow> 'd RTPFECContext \<Rightarrow> DataPacket \<Rightarrow> 'd pass option" where
  "grouped_rtp alloc parse s pkt =
     (let s1 = s\<lparr>check_count := check_count s + 1\<rparr> in
      case rtpfec_group_rtppkt_in alloc s1 pkt (rtp_seq pkt) of None \<Rightarrow> None
      | Some (r, s2) \<Rightarrow>
          if r \<noteq> Size 0 then map_option (\<lambda>(taken, s3). Again (keep_buffer taken pkt s3)) (parse_bytes parse s2 (pkt_bytes pkt))
          else Some (Again s2))"

definition fetch_pass :: "(nat \<Rightarrow> bool) \<Rightarrow> 'd parser \<Rightarrow> 'd RTPFECContext \<Rightarrow> 'd pass option" where
  "fetch_pass alloc parse s =
     (case fetch_rtp s of
        Inl e \<Rightarrow> Some e
      | Inr (pkt, s1) \<Rightarrow> if have_fec s1 then grouped_rtp alloc parse s1 pkt else plain_rtp parse s1 pkt)"

text \<open>One pass of the loop behind the check for an interrupt.\<close>

definition read_pass :: "(nat \<Rightarrow> bool) \<Rightarrow> 'd parser \<Rightarrow> 'd RTPFECContext \<Rightarrow> 'd pass option" where
  "read_pass alloc parse s =
     (case GroupDone s of
        Some g \<Rightarrow> map_option Again (read_done parse s g)
      | None \<Rightarrow>
          if \<not> have_fec s \<and> GroupCheckMiss s \<noteq> None then Some (Again (snd (rtpfec_group_checkmiss_to_done s)))
          else
            (case rtpfec_get_fecpkt alloc s of None \<Rightarrow> None
             | Some (r, s1) \<Rightarrow>
                if r \<noteq> Size 0 then Some (Return r s1)
                else if have_fec s1 \<and> GroupCheckMiss s1 \<noteq> None \<and> RTP_FEC_CHECK_MISS_COUNT_MAX < check_count s1 then repair_group s1
                else fetch_pass alloc parse s1))"

datatype read_ret = Got "u8 list" | Failed pktq_ret | End_of_file

definition read_out :: "'d RTPFECContext \<Rightarrow> int \<Rightarrow> (read_ret \<times> 'd RTPFECContext) option" where
  "read_out s len = map_option (\<lambda>(r, bs, _, q). ((case r of Size _ \<Rightarrow> Got bs | _ \<Rightarrow> Failed r), s\<lparr>ts_queue := q\<rparr>))
     (pktq_read (ts_queue s) True len 0)"

section \<open>The receiving thread\<close>

text \<open>
  One round of the loop of the thread. The network and the allocator give: whether the caller interrupts, what
  the socket for parity packets and the socket for data packets deliver (nothing if \<open>poll\<close> does not report the socket, no bytes if the
  read fails), and a new buffer for each if one is needed.
\<close>

record round =
  rx_interrupted :: bool
  fec_arrival :: "u8 list option"
  fec_fresh :: "(nat \<times> (nat \<Rightarrow> u8)) option"
  rtp_arrival :: "u8 list option"
  rtp_fresh :: "(nat \<times> (nat \<Rightarrow> u8)) option"

text \<open>The state of the thread: its buffer, the counter of its test hook, whether it runs.\<close>

record rx_thread =
  rx_buf :: receiver
  mycnt :: nat
  running :: bool

text \<open>The end of the thread: all queues are closed, the buffer is freed.\<close>

definition thread_exit :: "'d RTPFECContext \<Rightarrow> rx_thread \<Rightarrow> 'd RTPFECContext \<times> rx_thread" where
  "thread_exit s t =
     (s\<lparr>ts_queue := snd (pktq_put_pkt True (ts_queue s) None), rtp_queue := snd (pktq_put_pkt True (rtp_queue s) None),
        fec_queue := snd (pktq_put_pkt True (fec_queue s) None), empty_buf_queue := snd (pktq_put_pkt True (empty_buf_queue s) None)\<rparr>,
      t\<lparr>rx_buf := (rx_buf t)\<lparr>rcv_buf := None\<rparr>, running := False\<rparr>)"

text \<open>\<open>len\<close> is \<open>RTP_MAX_PACKET_LENGTH\<close> of the media library. The result \<open>False\<close>: no memory for a buffer.\<close>

definition rx_fec :: "nat \<Rightarrow> round \<Rightarrow> 'd RTPFECContext \<Rightarrow> rx_thread \<Rightarrow> (bool \<times> 'd RTPFECContext \<times> rx_thread) option" where
  "rx_fec len r s t =
     (case fec_arrival r of None \<Rightarrow> Some (True, s, t)
      | Some bytes \<Rightarrow>
         (case get_buffer len (fec_fresh r) (rx_buf t) (empty_buf_queue s) of (ok, b, eq) \<Rightarrow>
            let s1 = s\<lparr>empty_buf_queue := eq\<rparr> in
            if \<not> ok then Some (False, s1\<lparr>is_exit := True\<rparr>, t\<lparr>rx_buf := b\<rparr>)
            else map_option (\<lambda>(b', q). (True, s1\<lparr>fec_queue := q\<rparr>, t\<lparr>rx_buf := b'\<rparr>)) (receive_packet bytes b (fec_queue s1))))"

text \<open>The test hook drops packets whose sequence number is a multiple of 100, after the first ten of them.\<close>

definition test_drops :: "'d RTPFECContext \<Rightarrow> rx_thread \<Rightarrow> u8 list \<Rightarrow> bool \<times> rx_thread" where
  "test_drops s t bytes =
     (let n = min (length bytes) (nat (bufsize (rx_buf t)));
          block = (case rcv_buf (rx_buf t) of None \<Rightarrow> [] | Some (_, old) \<Rightarrow> take n bytes @ drop n old);
          seq = AV_RB16 block 2 in
      if test_lost_rtp s \<and> rcv_buf (rx_buf t) \<noteq> None \<and> 0 < n \<and> seq mod 100 = 0
      then (mycnt t + 1 > 10, t\<lparr>mycnt := mycnt t + 1\<rparr>) else (False, t))"

definition rx_rtp :: "nat \<Rightarrow> round \<Rightarrow> 'd RTPFECContext \<Rightarrow> rx_thread \<Rightarrow> (bool \<times> 'd RTPFECContext \<times> rx_thread) option" where
  "rx_rtp len r s t =
     (case rtp_arrival r of None \<Rightarrow> Some (True, s, t)
      | Some bytes \<Rightarrow>
         (case get_buffer len (rtp_fresh r) (rx_buf t) (empty_buf_queue s) of (ok, b, eq) \<Rightarrow>
            let s1 = s\<lparr>empty_buf_queue := eq\<rparr> in
            if \<not> ok then Some (False, s1\<lparr>is_exit := True\<rparr>, t\<lparr>rx_buf := b\<rparr>)
            else case test_drops s (t\<lparr>rx_buf := b\<rparr>) bytes of (dropped, t1) \<Rightarrow>
              if dropped then Some (True, s1, t1\<lparr>rx_buf := b\<lparr>rcv_buf := None\<rparr>\<rparr>)
              else map_option (\<lambda>(b', q). (True, s1\<lparr>rtp_queue := q\<rparr>, t1\<lparr>rx_buf := b'\<rparr>)) (receive_packet bytes b (rtp_queue s1))))"

definition rtp_stream_thread_round :: "nat \<Rightarrow> round \<Rightarrow> 'd RTPFECContext \<Rightarrow> rx_thread \<Rightarrow> ('d RTPFECContext \<times> rx_thread) option" where
  "rtp_stream_thread_round len r s t =
     (if \<not> running t then Some (s, t)
      else if is_exit s then Some (thread_exit s t)
      else if rx_interrupted r then Some (thread_exit (s\<lparr>is_exit := True\<rparr>) t)
      else case rx_fec len r s t of None \<Rightarrow> None
        | Some (ok, s1, t1) \<Rightarrow>
           if \<not> ok then Some (thread_exit s1 t1)
           else (case rx_rtp len r s1 t1 of None \<Rightarrow> None
             | Some (ok2, s2, t2) \<Rightarrow> if ok2 then Some (s2, t2) else Some (thread_exit s2 t2)))"

fun thread_rounds :: "nat \<Rightarrow> round list \<Rightarrow> 'd RTPFECContext \<Rightarrow> rx_thread \<Rightarrow> ('d RTPFECContext \<times> rx_thread) option" where
  "thread_rounds len [] s t = Some (s, t)"
| "thread_rounds len (r # rs) s t =
     (case rtp_stream_thread_round len r s t of None \<Rightarrow> None | Some (s', t') \<Rightarrow> thread_rounds len rs s' t')"

section \<open>The read call\<close>

text \<open>
  The loop, with one argument per pass: whether the caller interrupts it, the allocations, and the rounds of the receiving
  thread before the next pass, or before the reader, if it waits for a packet, looks into the queue again. When the arguments are
  used up the reader is still in the loop, which is \<open>Inr\<close>.
\<close>

type_synonym turn = "bool \<times> (nat \<Rightarrow> bool) \<times> round list"

type_synonym 'd stream = "'d RTPFECContext \<times> rx_thread"

fun rtpfec_read_loop ::
  "nat \<Rightarrow> 'd parser \<Rightarrow> int \<Rightarrow> bool \<Rightarrow> turn list \<Rightarrow> 'd stream \<Rightarrow> ((read_ret \<times> 'd stream) + 'd stream) option" where
  "rtpfec_read_loop max_len parse len waiting [] st = Some (Inr st)"
| "rtpfec_read_loop max_len parse len waiting ((interrupted, alloc, rounds) # rest) (s, t) =
     (if \<not> waiting \<and> pktq_get_data_size (Some (ts_queue s)) \<ge> len then map_option (\<lambda>(r, s'). Inl (r, s', t)) (read_out s len)
      else if \<not> waiting \<and> interrupted then Some (Inl (End_of_file, s\<lparr>is_exit := True\<rparr>, t))
      else
        (let go = (\<lambda>w s'. case thread_rounds max_len rounds s' t of None \<Rightarrow> None | Some st' \<Rightarrow> rtpfec_read_loop max_len parse len w rest st') in
         case (if waiting then fetch_pass alloc parse s else read_pass alloc parse s) of None \<Rightarrow> None
        | Some (Again s') \<Rightarrow> go False s'
        | Some (Wait s') \<Rightarrow> go True s'
        | Some (Read_out s') \<Rightarrow> map_option (\<lambda>(r, s'). Inl (r, s', t)) (read_out s' len)
        | Some (Return r s') \<Rightarrow> Some (Inl (Failed r, s', t))))"

definition rtpfec_read :: "nat \<Rightarrow> 'd parser \<Rightarrow> int \<Rightarrow> turn list \<Rightarrow> 'd stream \<Rightarrow> ((read_ret \<times> 'd stream) + 'd stream) option" where
  "rtpfec_read max_len parse len turns st =
     (if is_exit (fst st) then Some (Inl (End_of_file, st)) else rtpfec_read_loop max_len parse len False turns st)"

section \<open>Opening and closing\<close>

text \<open>
  What the environment answers while a stream is opened: the port for parity packets of the address (if it has the option), the two
  connections, the mutex, condition variable and memory of each of the four queues, the parser, and the thread; and the
  system property of the test hook. A failure closes and destroys what was opened and is reported as \<open>EIO\<close>, here \<open>None\<close>.
  The coder belongs to the library, not to the stream.
\<close>

record 'd open_env =
  fec_port_option :: "int option"
  rtp_connects :: bool
  fec_connects :: bool
  queue_env :: "nat \<Rightarrow> bool \<times> bool \<times> bool"
  parser_state :: "'d option"
  thread_starts :: bool
  lost_rtp_property :: bool

definition rtpfec_open :: "'d open_env \<Rightarrow> RS_fec option \<Rightarrow> 'd stream option" where
  "rtpfec_open env lib_coder =
     (if fec_port_option env = Some 0 \<or> \<not> rtp_connects env \<or> \<not> fec_connects env then None
      else
        case (create_queue (queue_env env) 0 2097152 0, create_queue (queue_env env) 1 20971520 4194304,
              create_queue (queue_env env) 2 20971520 4194304, create_queue (queue_env env) 3 20971520 (- 1), parser_state env) of
          (Some ts, Some rtp, Some fec, Some spare, Some d) \<Rightarrow>
            Some (\<lparr>ts_queue = ts, rtp_queue = rtp, fec_queue = fec, empty_buf_queue = spare, rtpdmx = d, is_exit = False,
               GroupDone = None, GroupCheckMiss = None, GroupDownLoading = None, have_fec = False, rtp_seq_next = None, rtp_seq_lost = False,
               check_count = 0, fec_inited = False, fec_dec_len = 0, rtp_pkt_num = 0, k_fec_pkt_num = 0, coder_p = lib_coder,
               test_lost_rtp = lost_rtp_property env\<rparr>,
               \<lparr>rx_buf = \<lparr>rcv_buf = None, bufsize = 0\<rparr>, mycnt = 0, running = thread_starts env\<rparr>)
        | _ \<Rightarrow> None)"

text \<open>
  After the thread has ended: what a close frees, as the slots of the groups and the blocks in the queues, and the coder afterwards.
\<close>

definition rtpfec_group_free :: "RTPFECPktGroup option \<Rightarrow> u8 list list" where
  "rtpfec_group_free Group = (case Group of None \<Rightarrow> [] | Some g \<Rightarrow>
     map the (filter (\<lambda>sl. sl \<noteq> None) (paPktRtp g)) @ map the (filter (\<lambda>sl. sl \<noteq> None) (paPktFec g)))"

definition rtpfec_close :: "'d RTPFECContext \<Rightarrow> u8 list list \<times> nat list \<times> RS_fec option" where
  "rtpfec_close s =
     (rtpfec_group_free (GroupDone s) @ rtpfec_group_free (GroupCheckMiss s) @ rtpfec_group_free (GroupDownLoading s),
      concat (map (\<lambda>q. fst (snd (pktq_destroy q))) [ts_queue s, rtp_queue s, fec_queue s, empty_buf_queue s]),
      if fec_inited s then fec_cleanup_adp (coder_p s) else coder_p s)"

end
