(* ===== verification/Rtp_Groups.thy ===== *)
theory Rtp_Groups
  imports Rtp_Fec
begin

text \<open>
  The groups of packets of \<open>rtpfecproto.c\<close>: sequence numbers as distances modulo $2^{16}$, the count of lost packets, well-formed groups and what the decoder
  makes of them, by the laws of the erasure code, and where a data packet goes (\<open>place_rtp\<close>, the reference for \<open>_rtpfec_group_rtppkt_in\<close>).
\<close>

section \<open>Sequence numbers modulo $2^{16}$\<close>

definition offset :: "int \<Rightarrow> int \<Rightarrow> int" where
  "offset start seq = (seq - start) mod 65536"

definition is_seq :: "int \<Rightarrow> bool" where
  "is_seq q \<longleftrightarrow> 0 \<le> q \<and> q < 65536"

lemma offset_range: "0 \<le> offset a b" "offset a b < 65536"
  by (simp_all add: offset_def)

lemma offset_cases:
  assumes "is_seq a" "is_seq b"
  shows "offset a b = (if a \<le> b then b - a else b - a + 65536)"
proof (cases "a \<le> b")
  case True
  then show ?thesis using assms by (simp add: offset_def is_seq_def)
next
  case False
  have "(b - a) mod 65536 = (b - a + 65536) mod 65536" by simp
  also have "\<dots> = b - a + 65536" using assms False by (intro mod_pos_pos_trivial) (auto simp: is_seq_def)
  finally show ?thesis using False by (simp add: offset_def)
qed

lemma get_index_offset:
  assumes "is_seq a" "is_seq e" "is_seq q"
  shows "rtpfec_get_index a e q 65535 = (if offset a q \<le> offset a e then offset a q else - 1)"
  using assms by (auto simp: rtpfec_get_index_def offset_cases is_seq_def)

lemma is_seq_mod [simp]: "is_seq (x mod 65536)"
  by (simp add: is_seq_def)

lemma offset_mod: "offset (a mod 65536) q = offset a q" "offset a (q mod 65536) = offset a q"
  by (simp_all add: offset_def mod_simps)

text \<open>The window of a group, with its end computed from its start and the number of its packets.\<close>

lemma window_index:
  assumes a: "is_seq a" and q: "is_seq q" and K: "K \<le> 255"
  shows "0 \<le> rtpfec_get_index a ((a + int K - 1) mod 65536) q 65535 \<and>
      rtpfec_get_index a ((a + int K - 1) mod 65536) q 65535 < int K \<longleftrightarrow> offset a q < int K"
    and "offset a q < int K \<Longrightarrow> rtpfec_get_index a ((a + int K - 1) mod 65536) q 65535 = offset a q"
proof -
  have e: "offset a ((a + int K - 1) mod 65536) = (int K - 1) mod 65536" by (simp add: offset_def mod_simps)
  have k: "K = 0 \<or> (int K - 1) mod 65536 = int K - 1" using K by (cases K) auto
  show "0 \<le> rtpfec_get_index a ((a + int K - 1) mod 65536) q 65535 \<and>
      rtpfec_get_index a ((a + int K - 1) mod 65536) q 65535 < int K \<longleftrightarrow> offset a q < int K"
    using get_index_offset [OF a is_seq_mod q, of "a + int K - 1"] k offset_range [of a q] unfolding e by auto
  show "offset a q < int K \<Longrightarrow> rtpfec_get_index a ((a + int K - 1) mod 65536) q 65535 = offset a q"
    using get_index_offset [OF a is_seq_mod q, of "a + int K - 1"] k offset_range [of a q] unfolding e by auto
qed

section \<open>Lost packets\<close>

abbreviation lost_data :: "nat list \<Rightarrow> nat \<Rightarrow> nat list" where
  "lost_data lm K \<equiv> filter (\<lambda>i. lm ! i = 0) [0..<K]"

abbreviation lost_parity :: "nat list \<Rightarrow> nat \<Rightarrow> nat \<Rightarrow> nat list" where
  "lost_parity lm K M \<equiv> filter (\<lambda>i. lm ! (K + i) = 0) [0..<M]"

lemma lost_rtp_spec:
  "lost_rtp lm (int M) is acc = (if filter (\<lambda>i. lm ! i = 0) is = [] \<or> length acc + length (filter (\<lambda>i. lm ! i = 0) is) < M
     then Some (acc @ filter (\<lambda>i. lm ! i = 0) is) else None)"
  by (induction "is" arbitrary: acc) auto

lemma lost_fec_spec:
  "lost_fec lm K (int M) is a b \<longleftrightarrow> filter (\<lambda>i. lm ! (K + i) = 0) is = [] \<or> a + b + length (filter (\<lambda>i. lm ! (K + i) = 0) is) + 1 < M"
  by (induction "is" arbitrary: b) auto

text \<open>How many losses a group may have to be decoded.\<close>

definition repairable :: "nat list \<Rightarrow> nat \<Rightarrow> nat \<Rightarrow> bool" where
  "repairable lm K M \<longleftrightarrow> lost_data lm K \<noteq> [] \<and>
     (if lost_parity lm K M = [] then length (lost_data lm K) < M else length (lost_data lm K) + length (lost_parity lm K M) + 1 < M)"

lemma check_miss_eq:
  assumes "GroupCheckMiss s = Some g"
  shows "rtpfec_check_miss s =
    (if repairable (lost_map g) (rtp_pkt_num s) (k_fec_pkt_num s)
     then (True, s\<lparr>GroupCheckMiss := Some (g\<lparr>aPktRtpLen := fold (\<lambda>i l. l[i := fec_dec_len s]) (lost_data (lost_map g) (rtp_pkt_num s)) (aPktRtpLen g)\<rparr>)\<rparr>)
     else (False, s))"
  using assms by (auto simp: rtpfec_check_miss_def lost_rtp_spec lost_fec_spec repairable_def)

lemma fold_set_nth:
  "length (fold (\<lambda>i l. l[i := v]) is l) = length l"
  "j < length l \<Longrightarrow> fold (\<lambda>i l. l[i := v]) is l ! j = (if j \<in> set is then v else l ! j)"
proof -
  show "length (fold (\<lambda>i l. l[i := v]) is l) = length l" by (induction "is" arbitrary: l) simp_all
  show "j < length l \<Longrightarrow> fold (\<lambda>i l. l[i := v]) is l ! j = (if j \<in> set is then v else l ! j)"
    by (induction "is" arbitrary: l) (auto simp: nth_list_update)
qed

section \<open>Well-formed groups\<close>

definition group_ok :: "nat \<Rightarrow> nat \<Rightarrow> nat \<Rightarrow> RTPFECPktGroup \<Rightarrow> bool" where
  "group_ok K M S g \<longleftrightarrow> length (paPktRtp g) = 255 \<and> length (aPktRtpLen g) = 255 \<and> length (paPktFec g) = 20 \<and> length (lost_map g) = 275 \<and>
     (\<forall>i<K. map_option length (paPktRtp g ! i) = Some S) \<and> (\<forall>i<M. map_option length (paPktFec g ! i) = Some S) \<and>
     (\<forall>i<K. aPktRtpLen g ! i \<le> S) \<and> list_all (\<lambda>b. b \<le> 1) (lost_map g) \<and> is_seq (rtp_seq_start g) \<and> rtp_seq_end g = (rtp_seq_start g + int K - 1) mod 65536"

text \<open>The slots of the packets that have arrived hold what was sent, padded to the length \<open>S\<close>.\<close>

definition group_holds :: "nat \<Rightarrow> nat \<Rightarrow> matrix \<Rightarrow> matrix \<Rightarrow> RTPFECPktGroup \<Rightarrow> bool" where
  "group_holds K M sent parity g \<longleftrightarrow> (\<forall>i<K. lost_map g ! i = 1 \<longrightarrow> paPktRtp g ! i = Some (sent ! i)) \<and>
     (\<forall>i<M. lost_map g ! (K + i) = 1 \<longrightarrow> paPktFec g ! i = Some (parity ! i))"

lemma lost_map_bit: "group_ok K M S g \<Longrightarrow> i < 275 \<Longrightarrow> lost_map g ! i = 0 \<or> lost_map g ! i = 1"
  by (auto simp: group_ok_def list_all_length le_Suc_eq)

lemma lost_map_binary: "group_ok K M S g \<Longrightarrow> n \<le> 275 \<Longrightarrow> binary n (lost_map g)"
  by (auto simp: group_ok_def list_all_length)

lemma repairable_received:
  assumes g: "group_ok K M S g" and KM: "K \<le> 255" "M \<le> 20" and r: "repairable (lost_map g) K M"
  shows "K \<le> length (filter (\<lambda>i. lost_map g ! i = 1) [0..<K + M])"
proof -
  let ?lm = "lost_map g"
  have split: "[0..<K + M] = [0..<K] @ map (\<lambda>i. i + K) [0..<M]"
    using upt_add_eq_append [of 0 K M] by (simp add: map_add_upt add.commute [of M])
  have bit: "filter (\<lambda>i. ?lm ! i = 1) xs = filter (\<lambda>i. \<not> ?lm ! i = 0) xs" if "\<forall>i \<in> set xs. i < 275" for xs
  proof (rule filter_cong [OF refl])
    fix x assume "x \<in> set xs"
    then show "(?lm ! x = 1) = (\<not> ?lm ! x = 0)" using lost_map_bit [OF g, of x] that by auto
  qed
  have "length (filter (\<lambda>i. ?lm ! i = 1) [0..<K + M]) + length (filter (\<lambda>i. ?lm ! i = 0) [0..<K + M]) = K + M"
    using sum_length_filter_compl [of "\<lambda>i. ?lm ! i = 0" "[0..<K + M]"] bit [of "[0..<K + M]"] KM by simp
  moreover have "length (filter (\<lambda>i. ?lm ! i = 0) [0..<K + M]) = length (lost_data ?lm K) + length (lost_parity ?lm K M)"
    unfolding split by (simp add: filter_map o_def add.commute [of _ K])
  moreover have "length (lost_data ?lm K) + length (lost_parity ?lm K M) \<le> M"
    using r by (auto simp: repairable_def split: if_splits)
  ultimately show ?thesis by linarith
qed

lemma decode_slots:
  assumes g: "group_ok K M S g" and KM: "K + M \<le> 255" "M \<le> 20" and r: "repairable (lost_map g) K M"
    and c: "data_pkt_num p = K" "fec_pkt_num p = M" "data_len p = S"
  shows "fec_decode_adp (Some p) g = map_option (\<lambda>rows. (Size 0, g\<lparr>paPktRtp := map Some rows @ drop K (paPktRtp g)\<rparr>))
    (fec_decode p (map the (take K (paPktRtp g))) (map (\<lambda>sl. case sl of None \<Rightarrow> [] | Some bs \<Rightarrow> bs) (paPktFec g)) (lost_map g))"
proof -
  have K: "K \<le> 255" using KM by simp
  note n = repairable_received [OF g K KM(2) r]
  have len: "length (paPktRtp g) = 255" "length (paPktFec g) = 20" using g by (simp_all add: group_ok_def)
  have "list_all (slot_ok S) (take K (paPktRtp g))"
    using g K by (force simp: list_all_length group_ok_def slot_ok_def split: option.splits)
  moreover have "i < K \<or> (i - K < 20 \<and> slot_ok S (paPktFec g ! (i - K)))" if "i \<in> set (received (lost_map g) K M)" for i
  proof -
    have "i < K + M" using received_facts(3) [OF n] that by blast
    then have "i < K \<or> i - K < M" by auto
    then show ?thesis using g KM(2) by (auto simp: group_ok_def slot_ok_def split: option.splits)
  qed
  moreover have "present (lost_map g) K M = received (lost_map g) K M" using present_received [OF lost_map_binary [OF g]] KM by simp
  ultimately show ?thesis using c len K by (simp add: fec_decode_adp_def Let_def list_all_iff)
qed

lemma fec_init_sizes: "fec_init K M S = Some p \<Longrightarrow> data_pkt_num p = K \<and> fec_pkt_num p = M \<and> data_len p = S"
  by (auto simp: fec_init_def Let_def split: option.splits)

lemma decode_group:
  assumes g: "group_ok K M S g" and KM: "0 < K" "K + M \<le> 255" "M \<le> 20"
    and r: "repairable (lost_map g) K M" and sent: "shape K S sent" and p: "fec_init K M S = Some p"
    and holds: "group_holds K M sent (fec_encode p sent (blank M S)) g"
  shows "fec_decode_adp (Some p) g = Some (Size 0, g\<lparr>paPktRtp := map Some sent @ drop K (paPktRtp g)\<rparr>)"
proof -
  have "fec_decode p (map the (take K (paPktRtp g))) (map (\<lambda>sl. case sl of None \<Rightarrow> [] | Some bs \<Rightarrow> bs) (paPktFec g)) (lost_map g) = Some sent"
    using g holds KM(3) repairable_received [OF g _ KM(3) r] KM(2) lost_map_binary [OF g, of "K + M"]
    by (intro rs.slots_recovered [OF p KM(1,2) _ _ _ _ _ sent]) (auto simp: group_ok_def group_holds_def)
  then show ?thesis using decode_slots [OF g KM(2,3) r, of p] fec_init_sizes [OF p] by simp
qed

lemma decode_returns:
  assumes g: "group_ok K M S g" and KM: "0 < K" "K + M \<le> 255" "M \<le> 20" and r: "repairable (lost_map g) K M" and p: "fec_init K M S = Some p"
  shows "\<exists>rows. fec_decode_adp (Some p) g = Some (Size 0, g\<lparr>paPktRtp := map Some rows @ drop K (paPktRtp g)\<rparr>) \<and> shape K S rows"
proof -
  have sl: "K \<le> length (paPktRtp g)" "\<forall>i<K. map_option length (paPktRtp g ! i) = Some S" using g KM by (simp_all add: group_ok_def)
  show ?thesis
    using rs.slots_decoded [OF p KM(1,2) repairable_received [OF g _ KM(3) r] sl] KM(2) decode_slots [OF g KM(2,3) r, of p] fec_init_sizes [OF p]
    by fastforce
qed

text \<open>The coder is not initialised, or initialised for the sizes of the stream.\<close>

definition coder_in_step :: "'d RTPFECContext \<Rightarrow> bool" where
  "coder_in_step s \<longleftrightarrow> fec_inited s \<longrightarrow> coder_p s = fec_init (rtp_pkt_num s) (k_fec_pkt_num s) (fec_dec_len s)"

lemma repair_group_ok:
  fixes s :: "'d RTPFECContext"
  assumes g: "GroupCheckMiss s = Some g" "GroupDone s = None" and ok: "group_ok K M S g" and KM: "0 < K" "K + M \<le> 255" "M \<le> 20"
    and sz: "rtp_pkt_num s = K" "k_fec_pkt_num s = M" "fec_dec_len s = S" and cs: "coder_in_step s"
    and p: "fec_init K M S = Some p" and r: "repairable (lost_map g) K M" and sent: "shape K S sent"
    and holds: "group_holds K M sent (fec_encode p sent (blank M S)) g"
  shows "\<exists>s' g'. repair_group s = Some (Again s') \<and> GroupCheckMiss s' = None \<and> GroupDone s' = Some g' \<and>
    (\<forall>i<K. paPktRtp g' ! i = Some (sent ! i)) \<and>
    (\<forall>i<K. aPktRtpLen g' ! i = (if lost_map g ! i = 0 then S else aPktRtpLen g ! i)) \<and> coder_in_step s'"
proof -
  define g1 where "g1 = g\<lparr>aPktRtpLen := fold (\<lambda>i l. l[i := S]) (lost_data (lost_map g) K) (aPktRtpLen g)\<rparr>"
  have ok1: "group_ok K M S g1" using ok KM by (simp add: group_ok_def g1_def fold_set_nth)
  have miss: "rtpfec_check_miss s = (True, s\<lparr>GroupCheckMiss := Some g1\<rparr>)"
    using check_miss_eq [OF g(1)] r sz by (simp add: g1_def)
  define s2 where "s2 = (if fec_inited s then s\<lparr>GroupCheckMiss := Some g1\<rparr>
    else s\<lparr>GroupCheckMiss := Some g1, coder_p := Some p, fec_inited := True\<rparr>)"
  have cp: "coder_p s2 = Some p" "GroupCheckMiss s2 = Some g1" "GroupDone s2 = None" "fec_inited s2"
    "rtp_pkt_num s2 = K" "k_fec_pkt_num s2 = M" "fec_dec_len s2 = S"
    using cs p sz g(2) by (auto simp: s2_def coder_in_step_def)
  define g2 where "g2 = g1\<lparr>paPktRtp := map Some sent @ drop K (paPktRtp g1)\<rparr>"
  define s3 where "s3 = s2\<lparr>GroupCheckMiss := Some g2, GroupDone := Some g2, GroupCheckMiss := None\<rparr>"
  have dec: "fec_decode_adp (coder_p s2) g1 = Some (Size 0, g2)"
    unfolding g2_def cp(1) using decode_group [OF ok1 KM _ sent p] r holds by (simp add: g1_def group_holds_def)
  have "ready_coder (s\<lparr>GroupCheckMiss := Some g1\<rparr>) = Some s2"
    using p sz by (simp add: ready_coder_def s2_def fec_init_adp_def)
  then have "decode_miss (s\<lparr>GroupCheckMiss := Some g1\<rparr>) = Some (Size 0, s2\<lparr>GroupCheckMiss := Some g2\<rparr>)"
    using cp(2) dec by (simp add: decode_miss_def)
  then have "repair_group s = Some (Again s3)"
    using cp(3) by (simp add: repair_group_def miss rtpfec_group_checkmiss_to_done_def s3_def)
  moreover have "\<forall>i<K. paPktRtp g2 ! i = Some (sent ! i)" using sent by (simp add: g2_def shape_def nth_append)
  moreover have "\<forall>i<K. aPktRtpLen g2 ! i = (if lost_map g ! i = 0 then S else aPktRtpLen g ! i)"
    using ok KM by (auto simp: g2_def g1_def fold_set_nth(2) group_ok_def)
  ultimately show ?thesis using cp p by (auto simp: coder_in_step_def s3_def)
qed

section \<open>Where a packet goes\<close>

text \<open>The windows of a context: the groups are well-formed and adjacent, and there is a group to download exactly if parity packets are used.\<close>

definition windows_ok :: "'d RTPFECContext \<Rightarrow> bool" where
  "windows_ok s \<longleftrightarrow> rtp_pkt_num s \<le> 255 \<and> k_fec_pkt_num s \<le> 20 \<and> (have_fec s \<longleftrightarrow> GroupDownLoading s \<noteq> None) \<and>
     pred_option (group_ok (rtp_pkt_num s) (k_fec_pkt_num s) (fec_dec_len s)) (GroupCheckMiss s) \<and>
     pred_option (group_ok (rtp_pkt_num s) (k_fec_pkt_num s) (fec_dec_len s)) (GroupDownLoading s) \<and>
     (\<forall>c d. GroupCheckMiss s = Some c \<longrightarrow> GroupDownLoading s = Some d \<longrightarrow>
        rtp_seq_start d = (rtp_seq_start c + int (rtp_pkt_num s)) mod 65536)"

definition fresh_group :: "nat \<Rightarrow> nat \<Rightarrow> nat \<Rightarrow> int \<Rightarrow> RTPFECPktGroup" where
  "fresh_group K M S start = zero_group\<lparr>paPktRtp := alloc_slots (\<lambda>_. True) 1 255 K S, paPktFec := alloc_slots (\<lambda>_. True) (1 + K) 20 M S,
     rtp_seq_start := start, rtp_seq_end := (start + int K - 1) mod 65536, seq_reverse := ((start + int K - 1) mod 65536 < start)\<rparr>"

lemma fresh_group_ok: "K \<le> 255 \<Longrightarrow> M \<le> 20 \<Longrightarrow> is_seq start \<Longrightarrow> group_ok K M S (fresh_group K M S start)"
  by (simp add: group_ok_def fresh_group_def zero_group_def alloc_slots_def list_all_iff)

lemma fresh_group_start [simp]: "rtp_seq_start (fresh_group K M S start) = start"
  by (simp add: fresh_group_def)

lemma create_fresh:
  "GroupDownLoading s = None \<Longrightarrow> rtpfec_create_group_downloading (\<lambda>_. True) s start =
     (Size 0, s\<lparr>GroupDownLoading := Some (fresh_group (rtp_pkt_num s) (k_fec_pkt_num s) (fec_dec_len s) start)\<rparr>)"
  by (simp add: rtpfec_create_group_downloading_def fresh_group_def Let_def)

text \<open>The packet in a slot of a group.\<close>

definition stored :: "RTPFECPktGroup \<Rightarrow> nat \<Rightarrow> u8 list \<Rightarrow> RTPFECPktGroup" where
  "stored g i bs = g\<lparr>paPktRtp := (paPktRtp g)[i := Some (bs @ drop (length bs) (the (paPktRtp g ! i)))],
     aPktRtpLen := (aPktRtpLen g)[i := length bs], lost_map := (lost_map g)[i := 1], rtp_pkt_size := max (rtp_pkt_size g) (length bs)\<rparr>"

lemma put_rtp_stored:
  assumes "group_ok K M S g" "i < K" "length (pkt_bytes pkt) \<le> S"
  shows "put_rtp g i pkt = Some (stored g i (pkt_bytes pkt))"
  using assms by (auto simp: put_rtp_def into_slot_def stored_def group_ok_def split: option.splits)

lemma stored_ok:
  assumes g: "group_ok K M S g" and i: "i < K" and K: "K \<le> 255" and l: "length bs \<le> S"
  shows "group_ok K M S (stored g i bs)"
proof -
  obtain old where old: "paPktRtp g ! i = Some old" "length old = S" using g i by (auto simp: group_ok_def)
  then have "map_option length ((paPktRtp g)[i := Some (bs @ drop (length bs) old)] ! j) = Some S" if "j < K" for j
    using g that l K by (cases "j = i") (simp_all add: group_ok_def)
  moreover have "list_all (\<lambda>b. b \<le> 1) ((lost_map g)[i := 1])"
    using g set_update_subset_insert [of "lost_map g" i 1] by (auto simp: list_all_iff group_ok_def)
  moreover have "(aPktRtpLen g)[i := length bs] ! j \<le> S" if "j < K" for j
    using g that l K by (cases "j = i") (simp_all add: group_ok_def)
  ultimately show ?thesis using g old by (simp add: stored_def group_ok_def)
qed

lemma stored_start [simp]: "rtp_seq_start (stored g i bs) = rtp_seq_start g"
  by (simp add: stored_def)

text \<open>
  The rule in terms of distances modulo $2^{16}$: the group being checked, the group being downloaded, the group after it, or the
  end of the correction.
\<close>

definition shift_groups :: "'d RTPFECContext \<Rightarrow> RTPFECPktGroup \<Rightarrow> 'd RTPFECContext" where
  "shift_groups s d = s\<lparr>GroupDone := (case GroupCheckMiss s of None \<Rightarrow> GroupDone s | Some c \<Rightarrow> Some c), GroupCheckMiss := Some d,
     GroupDownLoading := None, check_count := 0\<rparr>"

definition place_download :: "'d RTPFECContext \<Rightarrow> u8 list \<Rightarrow> int \<Rightarrow> RTPFECPktGroup \<Rightarrow> pktq_ret \<times> 'd RTPFECContext" where
  "place_download s bs q d =
     (let K = int (rtp_pkt_num s); n = offset (rtp_seq_start d) q;
          new = fresh_group (rtp_pkt_num s) (k_fec_pkt_num s) (fec_dec_len s) ((rtp_seq_start d + K) mod 65536) in
      if n < K then (Size 0, s\<lparr>GroupDownLoading := Some (stored d (nat n) bs)\<rparr>)
      else if n < 2 * K then (Size 0, (shift_groups s d)\<lparr>GroupDownLoading := Some (stored new (nat (n - K)) bs)\<rparr>)
      else (Size 0, (shift_groups s d)\<lparr>have_fec := False\<rparr>))"

definition place_rtp :: "'d RTPFECContext \<Rightarrow> u8 list \<Rightarrow> int \<Rightarrow> pktq_ret \<times> 'd RTPFECContext" where
  "place_rtp s bs q =
     (let others = (case GroupDownLoading s of None \<Rightarrow> (Err, s) | Some d \<Rightarrow> place_download s bs q d) in
      case GroupCheckMiss s of None \<Rightarrow> others
      | Some c \<Rightarrow>
          if offset (rtp_seq_start c) q < int (rtp_pkt_num s)
          then (Size 0, s\<lparr>GroupCheckMiss := Some (stored c (nat (offset (rtp_seq_start c) q)) bs)\<rparr>) else others)"

lemma offset_shift: "offset ((a + int K) mod 65536) q = (offset a q - int K) mod 65536"
  by (simp add: offset_def mod_simps diff_diff_eq)

lemma next_window:
  assumes "K \<le> 255"
  shows "offset ((a + int K) mod 65536) q < int K \<longleftrightarrow> int K \<le> offset a q \<and> offset a q < 2 * int K"
proof -
  have o: "0 \<le> offset a q" "offset a q < 65536" using offset_range by auto
  show ?thesis
  proof (cases "int K \<le> offset a q")
    case True
    then show ?thesis using o by (simp add: offset_shift)
  next
    case False
    have "(offset a q - int K) mod 65536 = (offset a q - int K + 65536) mod 65536" by simp
    also have "\<dots> = offset a q - int K + 65536" using o False assms by (intro mod_pos_pos_trivial) auto
    finally show ?thesis using False assms o by (simp add: offset_shift)
  qed
qed

lemma next_group_eq:
  assumes "GroupDownLoading s = Some d" "GroupDone s = None" "rtp_seq_end d = (rtp_seq_start d + int (rtp_pkt_num s) - 1) mod 65536"
  shows "next_group (\<lambda>_. True) s = (Size 0, (shift_groups s d)\<lparr>GroupDownLoading :=
     Some (fresh_group (rtp_pkt_num s) (k_fec_pkt_num s) (fec_dec_len s) ((rtp_seq_start d + int (rtp_pkt_num s)) mod 65536))\<rparr>)"
proof -
  have e: "(rtp_seq_end d + 1) mod 65536 = (rtp_seq_start d + int (rtp_pkt_num s)) mod 65536"
    by (simp add: assms(3) mod_simps)
  show ?thesis
    using assms(1,2) e by (cases "GroupCheckMiss s")
      (simp_all add: next_group_def rtpfec_group_checkmiss_to_done_def rtpfec_group_downloading_to_checkmiss_def create_fresh shift_groups_def)
qed

lemma discontinue_eq:
  assumes "GroupDownLoading s = Some d" "GroupDone s = None"
  shows "discontinue s = (shift_groups s d)\<lparr>have_fec := False\<rparr>"
  using assms by (cases "GroupCheckMiss s")
    (simp_all add: discontinue_def rtpfec_group_checkmiss_to_done_def rtpfec_group_downloading_to_checkmiss_def shift_groups_def Let_def)

lemma in_group:
  assumes "windows_ok s" "group_ok (rtp_pkt_num s) (k_fec_pkt_num s) (fec_dec_len s) g" "is_seq q"
  shows "in_window s (rtpfec_get_index (rtp_seq_start g) (rtp_seq_end g) q 65535) \<longleftrightarrow> offset (rtp_seq_start g) q < int (rtp_pkt_num s)"
    "offset (rtp_seq_start g) q < int (rtp_pkt_num s) \<Longrightarrow>
      rtpfec_get_index (rtp_seq_start g) (rtp_seq_end g) q 65535 = offset (rtp_seq_start g) q"
  using window_index [of "rtp_seq_start g" q "rtp_pkt_num s"] assms by (auto simp: in_window_def group_ok_def windows_ok_def)

lemma in_next:
  assumes "windows_ok s" "group_ok (rtp_pkt_num s) (k_fec_pkt_num s) (fec_dec_len s) d" "is_seq q"
  defines "o2 \<equiv> offset ((rtp_seq_start d + int (rtp_pkt_num s)) mod 65536) q"
    and "ni \<equiv> rtpfec_get_index ((rtp_seq_end d + 1) mod 65536) ((rtp_seq_end d + int (rtp_pkt_num s)) mod 65536) q 65535"
  shows "in_window s ni \<longleftrightarrow> o2 < int (rtp_pkt_num s)" "o2 < int (rtp_pkt_num s) \<Longrightarrow> ni = o2"
proof -
  let ?a = "(rtp_seq_start d + int (rtp_pkt_num s)) mod 65536"
  have e: "rtp_seq_end d = (rtp_seq_start d + int (rtp_pkt_num s) - 1) mod 65536" using assms(2) by (simp add: group_ok_def)
  have "(rtp_seq_end d + 1) mod 65536 = ?a" unfolding e by (simp add: mod_simps)
  moreover have "(rtp_seq_end d + int (rtp_pkt_num s)) mod 65536 = (?a + int (rtp_pkt_num s) - 1) mod 65536"
  proof -
    have "(rtp_seq_end d + int (rtp_pkt_num s)) mod 65536 = (rtp_seq_start d + int (rtp_pkt_num s) - 1 + int (rtp_pkt_num s)) mod 65536"
      unfolding e by (rule mod_add_left_eq)
    also have "\<dots> = (rtp_seq_start d + int (rtp_pkt_num s) + (int (rtp_pkt_num s) - 1)) mod 65536" by (simp add: algebra_simps)
    also have "\<dots> = (?a + (int (rtp_pkt_num s) - 1)) mod 65536" by (rule mod_add_left_eq [symmetric])
    finally show ?thesis by (simp add: algebra_simps)
  qed
  ultimately have ni: "ni = rtpfec_get_index ?a ((?a + int (rtp_pkt_num s) - 1) mod 65536) q 65535" by (simp add: ni_def)
  have K: "rtp_pkt_num s \<le> 255" using assms(1) unfolding windows_ok_def by blast
  show "in_window s ni \<longleftrightarrow> o2 < int (rtp_pkt_num s)" "o2 < int (rtp_pkt_num s) \<Longrightarrow> ni = o2"
    using window_index [OF is_seq_mod assms(3) K, of "rtp_seq_start d + int (rtp_pkt_num s)"] unfolding in_window_def ni o2_def by blast+
qed

lemma put_offset:
  assumes g: "group_ok K M S g" and o: "offset (rtp_seq_start g) q < int K" and l: "length (pkt_bytes pkt) \<le> S"
  shows "put_rtp g (nat (offset (rtp_seq_start g) q)) pkt = Some (stored g (nat (offset (rtp_seq_start g) q)) (pkt_bytes pkt))"
proof -
  have "nat (offset (rtp_seq_start g) q) < K" using o offset_range [of "rtp_seq_start g" q] by linarith
  then show ?thesis by (rule put_rtp_stored [OF g _ l])
qed

lemma download_place:
  assumes w: "windows_ok s" and d: "GroupDownLoading s = Some d" and dn: "GroupDone s = None" and q: "is_seq q"
    and l: "length (pkt_bytes pkt) \<le> fec_dec_len s"
  shows "rtppkt_download (\<lambda>_. True) s pkt q d = Some (place_download s (pkt_bytes pkt) q d)"
proof -
  let ?K = "int (rtp_pkt_num s)" and ?ok = "group_ok (rtp_pkt_num s) (k_fec_pkt_num s) (fec_dec_len s)"
  let ?a = "(rtp_seq_start d + ?K) mod 65536"
  have K: "rtp_pkt_num s \<le> 255" "k_fec_pkt_num s \<le> 20" using w unfolding windows_ok_def by blast+
  have ok: "?ok d" using w d by (simp add: windows_ok_def)
  note i = in_group [OF w ok q] and n = in_next [OF w ok q] and nw = next_window [OF K(1), of "rtp_seq_start d" q]
  have e: "rtp_seq_end d = (rtp_seq_start d + ?K - 1) mod 65536" using ok by (simp add: group_ok_def)
  consider (after) "offset ?a q < ?K" | (inside) "\<not> offset ?a q < ?K" "offset (rtp_seq_start d) q < ?K"
    | (none) "\<not> offset ?a q < ?K" "\<not> offset (rtp_seq_start d) q < ?K" by blast
  then show ?thesis
  proof cases
    case after
    have o: "offset ?a q = offset (rtp_seq_start d) q - ?K"
      using nw after offset_range [of "rtp_seq_start d" q] by (simp add: offset_shift)
    have p: "put_rtp (fresh_group (rtp_pkt_num s) (k_fec_pkt_num s) (fec_dec_len s) ?a) (nat (offset ?a q)) pkt =
        Some (stored (fresh_group (rtp_pkt_num s) (k_fec_pkt_num s) (fec_dec_len s) ?a) (nat (offset ?a q)) (pkt_bytes pkt))"
      using put_offset [OF fresh_group_ok [OF K is_seq_mod] _ l, of "rtp_seq_start d + ?K" q] after by simp
    show ?thesis using n after nw next_group_eq [OF d dn e] p o
      by (simp add: rtppkt_download_def place_download_def Let_def)
  next
    case inside
    then show ?thesis using n i put_offset [OF ok _ l] by (simp add: rtppkt_download_def place_download_def Let_def)
  next
    case none
    then show ?thesis using n i nw discontinue_eq [OF d dn] by (simp add: rtppkt_download_def place_download_def Let_def)
  qed
qed

lemma rtppkt_in_place:
  assumes w: "windows_ok s" and dn: "GroupDone s = None" and q: "is_seq q" and l: "length (pkt_bytes pkt) \<le> fec_dec_len s"
  shows "rtpfec_group_rtppkt_in (\<lambda>_. True) s pkt q = Some (place_rtp s (pkt_bytes pkt) q)"
proof (cases "GroupCheckMiss s")
  case None
  then show ?thesis using download_place [OF w _ dn q l] by (simp add: rtpfec_group_rtppkt_in_def place_rtp_def split: option.splits)
next
  case (Some c)
  have ok: "group_ok (rtp_pkt_num s) (k_fec_pkt_num s) (fec_dec_len s) c" using w Some by (simp add: windows_ok_def)
  show ?thesis using Some in_group [OF w ok q] put_offset [OF ok _ l] download_place [OF w _ dn q l]
    by (simp add: rtpfec_group_rtppkt_in_def place_rtp_def split: option.splits)
qed

lemma windows_check:
  "windows_ok s \<Longrightarrow> GroupCheckMiss s = Some c \<Longrightarrow> group_ok (rtp_pkt_num s) (k_fec_pkt_num s) (fec_dec_len s) c' \<Longrightarrow>
   rtp_seq_start c' = rtp_seq_start c \<Longrightarrow> windows_ok (s\<lparr>GroupCheckMiss := Some c'\<rparr>)"
  by (simp add: windows_ok_def)

lemma windows_download:
  "windows_ok s \<Longrightarrow> GroupDownLoading s = Some d \<Longrightarrow> group_ok (rtp_pkt_num s) (k_fec_pkt_num s) (fec_dec_len s) d' \<Longrightarrow>
   rtp_seq_start d' = rtp_seq_start d \<Longrightarrow> windows_ok (s\<lparr>GroupDownLoading := Some d'\<rparr>)"
  by (simp add: windows_ok_def)

lemma windows_shift:
  "windows_ok s \<Longrightarrow> GroupDownLoading s = Some d \<Longrightarrow> group_ok (rtp_pkt_num s) (k_fec_pkt_num s) (fec_dec_len s) g \<Longrightarrow>
   rtp_seq_start g = (rtp_seq_start d + int (rtp_pkt_num s)) mod 65536 \<Longrightarrow> windows_ok ((shift_groups s d)\<lparr>GroupDownLoading := Some g\<rparr>)"
  by (simp add: windows_ok_def shift_groups_def)

lemma windows_stop: "windows_ok s \<Longrightarrow> GroupDownLoading s = Some d \<Longrightarrow> windows_ok ((shift_groups s d)\<lparr>have_fec := False\<rparr>)"
  by (simp add: windows_ok_def shift_groups_def)

lemma place_rtp_windows:
  assumes w: "windows_ok s" and dn: "GroupDone s = None" and l: "length bs \<le> fec_dec_len s"
  shows "windows_ok (snd (place_rtp s bs q))"
proof -
  have o: "nat (offset a q) < rtp_pkt_num s" if "offset a q < int (rtp_pkt_num s)" for a using that offset_range [of a q] by linarith
  have o2: "nat (offset a q - int (rtp_pkt_num s)) < rtp_pkt_num s" if "offset a q < 2 * int (rtp_pkt_num s)" "\<not> offset a q < int (rtp_pkt_num s)" for a
    using that by linarith
  let ?ok = "group_ok (rtp_pkt_num s) (k_fec_pkt_num s) (fec_dec_len s)"
  have K: "rtp_pkt_num s \<le> 255" "k_fec_pkt_num s \<le> 20" using w by (simp_all add: windows_ok_def)
  have rest: "windows_ok (s\<lparr>GroupDownLoading := Some (stored d (nat (offset (rtp_seq_start d) q)) bs)\<rparr>)"
    if "GroupDownLoading s = Some d" "offset (rtp_seq_start d) q < int (rtp_pkt_num s)" for d
    using that windows_download [OF w that(1)] stored_ok [OF _ o [OF that(2)] K(1) l] w by (simp add: windows_ok_def)
  have new: "windows_ok ((shift_groups s d)\<lparr>GroupDownLoading := Some (stored (fresh_group (rtp_pkt_num s) (k_fec_pkt_num s) (fec_dec_len s)
        ((rtp_seq_start d + int (rtp_pkt_num s)) mod 65536)) (nat (offset (rtp_seq_start d) q - int (rtp_pkt_num s))) bs)\<rparr>)"
    if "GroupDownLoading s = Some d" "offset (rtp_seq_start d) q < 2 * int (rtp_pkt_num s)" "\<not> offset (rtp_seq_start d) q < int (rtp_pkt_num s)" for d
    using windows_shift [OF w that(1)] stored_ok [OF fresh_group_ok [OF K is_seq_mod] o2 [OF that(2,3)] K(1) l] by simp
  show ?thesis
  proof (cases "GroupCheckMiss s")
    case None
    then show ?thesis using rest new windows_stop [OF w] w
      by (cases "GroupDownLoading s") (simp_all add: place_rtp_def place_download_def Let_def)
  next
    case (Some c)
    have "windows_ok (s\<lparr>GroupCheckMiss := Some (stored c (nat (offset (rtp_seq_start c) q)) bs)\<rparr>)"
      if "offset (rtp_seq_start c) q < int (rtp_pkt_num s)"
      using windows_check [OF w Some] stored_ok [OF _ o [OF that] K(1) l] w Some by (simp add: windows_ok_def)
    then show ?thesis using Some rest new windows_stop [OF w] w
      by (cases "GroupDownLoading s") (simp_all add: place_rtp_def place_download_def Let_def)
  qed
qed

end
