(* ===== verification/Rtp_Fec_Safety.thy ===== *)
theory Rtp_Fec_Safety
  imports Rtp_Groups
begin

text \<open>
  The invariant of a stream with error correction and that every step of the reader and of the receiving thread is defined and keeps it.
\<close>

section \<open>The invariant of a stream\<close>

text \<open>
  A stream of groups of \<open>K\<close> data packets and \<open>M\<close> parity packets of length \<open>S\<close>: what a parity packet announces, and the
  state of a context that reads such a stream. Stream packets of the parser have at most \<open>B\<close> bytes.
\<close>

definition announces :: "nat \<Rightarrow> nat \<Rightarrow> nat \<Rightarrow> u8 list \<Rightarrow> bool" where
  "announces K M S bs \<longleftrightarrow> (24 < length bs \<longrightarrow>
     nat ((int (AV_RB16 bs 14) + 1 - int (AV_RB16 bs 12)) mod 65536) = K \<and> AV_RB8 bs 16 = M \<and> AV_RB16 bs 20 = S)"

definition done_ok :: "nat \<Rightarrow> RTPFECPktGroup \<Rightarrow> bool" where
  "done_ok K g \<longleftrightarrow> length (paPktRtp g) = 255 \<and> length (aPktRtpLen g) = 255 \<and>
     (\<forall>i<K. \<forall>bs. paPktRtp g ! i = Some bs \<longrightarrow> aPktRtpLen g ! i \<le> length bs)"

definition sizes_are :: "nat \<Rightarrow> nat \<Rightarrow> nat \<Rightarrow> 'd RTPFECContext \<Rightarrow> bool" where
  "sizes_are K M S s \<longleftrightarrow> rtp_pkt_num s = K \<and> k_fec_pkt_num s = M \<and> fec_dec_len s = S"

definition groups_ok :: "nat \<Rightarrow> nat \<Rightarrow> nat \<Rightarrow> 'd RTPFECContext \<Rightarrow> bool" where
  "groups_ok K M S s \<longleftrightarrow> windows_ok s \<and> pred_option (done_ok K) (GroupDone s) \<and>
     (have_fec s \<or> GroupCheckMiss s \<noteq> None \<or> GroupDone s \<noteq> None \<longrightarrow> sizes_are K M S s) \<and>
     (fec_inited s \<longrightarrow> coder_p s = fec_init K M S)"

definition queues_ok :: "nat \<Rightarrow> nat \<Rightarrow> nat \<Rightarrow> int \<Rightarrow> 'd RTPFECContext \<Rightarrow> bool" where
  "queues_ok K M S B s \<longleftrightarrow> queue_ok 2097152 B (ts_queue s) \<and>
     (\<forall>p \<in> set (fill (rtp_queue s)). buffer_ok (24 + S) p \<and> length (pkt_bytes p) \<le> S) \<and>
     (\<forall>p \<in> set (fill (fec_queue s)). buffer_ok (24 + S) p \<and> announces K M S (pkt_bytes p)) \<and>
     (\<forall>p \<in> set (fill (empty_buf_queue s)). buffer_ok (24 + S) p)"

definition rtpfec_ok :: "nat \<Rightarrow> nat \<Rightarrow> nat \<Rightarrow> int \<Rightarrow> 'd RTPFECContext \<Rightarrow> bool" where
  "rtpfec_ok K M S B s \<longleftrightarrow> groups_ok K M S s \<and> queues_ok K M S B s"

lemma group_done_ok: "group_ok K M S g \<Longrightarrow> done_ok K g"
  by (fastforce simp: group_ok_def done_ok_def)

lemma groups_ok_queues [simp]:
  "groups_ok K M S (s\<lparr>ts_queue := q\<rparr>) = groups_ok K M S s" "groups_ok K M S (s\<lparr>rtp_queue := q\<rparr>) = groups_ok K M S s"
  "groups_ok K M S (s\<lparr>fec_queue := q\<rparr>) = groups_ok K M S s" "groups_ok K M S (s\<lparr>empty_buf_queue := q\<rparr>) = groups_ok K M S s"
  "groups_ok K M S (s\<lparr>rtpdmx := d\<rparr>) = groups_ok K M S s" "groups_ok K M S (s\<lparr>is_exit := e\<rparr>) = groups_ok K M S s"
  "groups_ok K M S (s\<lparr>rtp_seq_lost := b\<rparr>) = groups_ok K M S s" "groups_ok K M S (s\<lparr>rtp_seq_next := n\<rparr>) = groups_ok K M S s"
  "groups_ok K M S (s\<lparr>check_count := c\<rparr>) = groups_ok K M S s"
  by (simp_all add: groups_ok_def windows_ok_def sizes_are_def)

lemma queues_ok_groups [simp]:
  "queues_ok K M S B (s\<lparr>GroupDone := g\<rparr>) = queues_ok K M S B s" "queues_ok K M S B (s\<lparr>GroupCheckMiss := g\<rparr>) = queues_ok K M S B s"
  "queues_ok K M S B (s\<lparr>GroupDownLoading := g\<rparr>) = queues_ok K M S B s" "queues_ok K M S B (s\<lparr>have_fec := b\<rparr>) = queues_ok K M S B s"
  "queues_ok K M S B (s\<lparr>check_count := c\<rparr>) = queues_ok K M S B s" "queues_ok K M S B (s\<lparr>is_exit := b\<rparr>) = queues_ok K M S B s"
  "queues_ok K M S B (s\<lparr>rtp_seq_lost := b\<rparr>) = queues_ok K M S B s" "queues_ok K M S B (s\<lparr>rtp_seq_next := n\<rparr>) = queues_ok K M S B s"
  "queues_ok K M S B (s\<lparr>fec_inited := b\<rparr>) = queues_ok K M S B s" "queues_ok K M S B (s\<lparr>coder_p := p\<rparr>) = queues_ok K M S B s"
  "queues_ok K M S B (s\<lparr>rtpdmx := d\<rparr>) = queues_ok K M S B s" "queues_ok K M S B (s\<lparr>rtp_pkt_num := n1\<rparr>) = queues_ok K M S B s"
  "queues_ok K M S B (s\<lparr>k_fec_pkt_num := n1\<rparr>) = queues_ok K M S B s" "queues_ok K M S B (s\<lparr>fec_dec_len := n1\<rparr>) = queues_ok K M S B s"
  by (simp_all add: queues_ok_def)

lemma queues_ok_ts: "queues_ok K M S B s \<Longrightarrow> queue_ok 2097152 B q \<Longrightarrow> queues_ok K M S B (s\<lparr>ts_queue := q\<rparr>)"
  by (simp add: queues_ok_def)

lemma parse_bytes_ok:
  assumes p: "parser_ok B waiting parse" and s: "rtpfec_ok K M S B s"
  shows "\<exists>taken d q. parse_bytes parse s bs = Some (taken, s\<lparr>rtpdmx := d, ts_queue := q\<rparr>) \<and> rtpfec_ok K M S B (s\<lparr>rtpdmx := d, ts_queue := q\<rparr>)"
proof -
  have q: "queue_ok 2097152 B (ts_queue s)" using s by (simp add: rtpfec_ok_def queues_ok_def)
  obtain taken d q' where e: "parse_packet parse bs (rtpdmx s) (ts_queue s) = Some (taken, d, q')" "queue_ok 2097152 B q'"
    using parse_packet_ok [OF p q] by blast
  then show ?thesis using s queues_ok_ts [of K M S B "s\<lparr>rtpdmx := d\<rparr>" q'] by (auto simp: parse_bytes_def rtpfec_ok_def)
qed

lemma keep_buffer_ok:
  assumes "rtpfec_ok K M S B s" "buffer_ok (24 + S) pkt"
  shows "rtpfec_ok K M S B (keep_buffer taken pkt s)"
  using assms spare_buffer_fill [of taken pkt "empty_buf_queue s"] by (auto simp: keep_buffer_def rtpfec_ok_def queues_ok_def)

lemma windows_done [simp]: "windows_ok (s\<lparr>GroupDone := g\<rparr>) = windows_ok s"
  by (simp add: windows_ok_def)

lemma release_ok: "rtpfec_ok K M S B s \<Longrightarrow> rtpfec_ok K M S B (rtpfec_group_done_release s)"
  by (simp add: rtpfec_ok_def groups_ok_def rtpfec_group_done_release_def sizes_are_def)

lemma set_done_ok:
  "rtpfec_ok K M S B s \<Longrightarrow> GroupDone s \<noteq> None \<Longrightarrow> done_ok K g \<Longrightarrow> rtpfec_ok K M S B (s\<lparr>GroupDone := Some g\<rparr>)"
  by (simp add: rtpfec_ok_def groups_ok_def sizes_are_def)

lemma read_done_ok:
  assumes p: "parser_ok B waiting parse" and s: "rtpfec_ok K M S B s" and g: "GroupDone s = Some g" and K: "K \<le> 255"
  shows "\<exists>s'. read_done parse s g = Some s' \<and> rtpfec_ok K M S B s'"
proof (cases "pkt_read_pos g \<ge> rtp_pkt_num s")
  case True
  then show ?thesis using release_ok [OF s] by (simp add: read_done_def)
next
  case False
  let ?pos = "pkt_read_pos g"
  have ok: "done_ok K g" "rtp_pkt_num s = K" using s g by (simp_all add: rtpfec_ok_def groups_ok_def sizes_are_def)
  have step: "done_ok K (g\<lparr>pkt_read_pos := ?pos + 1\<rparr>)"
    "done_ok K (g\<lparr>paPktRtp := (paPktRtp g)[?pos := None], aPktRtpLen := (aPktRtpLen g)[?pos := 0], pkt_read_pos := ?pos + 1\<rparr>)"
    using ok False K by (simp_all add: done_ok_def nth_list_update)
  have skip: "rtpfec_ok K M S B (s\<lparr>GroupDone := Some (g\<lparr>pkt_read_pos := ?pos + 1\<rparr>)\<rparr>)" using set_done_ok [OF s _ step(1)] g by simp
  show ?thesis
  proof (cases "paPktRtp g ! ?pos")
    case None
    then show ?thesis using False skip by (simp add: read_done_def)
  next
    case (Some bs)
    have l: "aPktRtpLen g ! ?pos \<le> length bs" using ok Some False by (simp add: done_ok_def)
    obtain taken d q where e: "parse_bytes parse s (take (aPktRtpLen g ! ?pos) bs) = Some (taken, s\<lparr>rtpdmx := d, ts_queue := q\<rparr>)"
      "rtpfec_ok K M S B (s\<lparr>rtpdmx := d, ts_queue := q\<rparr>)"
      using parse_bytes_ok [OF p s] by blast
    show ?thesis using False Some l e skip set_done_ok [OF e(2) _ step(1)] set_done_ok [OF e(2) _ step(2)] g
      by (auto simp: read_done_def Let_def)
  qed
qed

lemma groups_sizes:
  assumes "groups_ok K M S s" "have_fec s"
  shows "rtp_pkt_num s = K" "k_fec_pkt_num s = M" "fec_dec_len s = S" "windows_ok s" "GroupDownLoading s \<noteq> None"
  using assms unfolding groups_ok_def sizes_are_def windows_ok_def by blast+

lemma to_done_ok:
  assumes s: "groups_ok K M S s" and d: "GroupDone s = None" and c: "GroupCheckMiss s = Some c"
  shows "rtpfec_group_checkmiss_to_done s = (Size 0, s\<lparr>GroupDone := Some c, GroupCheckMiss := None\<rparr>)"
    "groups_ok K M S (s\<lparr>GroupDone := Some c, GroupCheckMiss := None\<rparr>)"
proof -
  show "rtpfec_group_checkmiss_to_done s = (Size 0, s\<lparr>GroupDone := Some c, GroupCheckMiss := None\<rparr>)"
    using d c by (simp add: rtpfec_group_checkmiss_to_done_def)
  have sz: "sizes_are K M S s" and w: "windows_ok s" and i: "fec_inited s \<longrightarrow> coder_p s = fec_init K M S"
    using s c by (simp_all add: groups_ok_def)
  have "group_ok K M S c" using w c sz by (simp add: windows_ok_def sizes_are_def)
  moreover have "windows_ok (s\<lparr>GroupDone := Some c, GroupCheckMiss := None\<rparr>)" using w by (simp add: windows_ok_def)
  ultimately show "groups_ok K M S (s\<lparr>GroupDone := Some c, GroupCheckMiss := None\<rparr>)"
    using sz i group_done_ok by (auto simp: groups_ok_def sizes_are_def)
qed

section \<open>Parity packets keep the invariant\<close>

lemma put_fec_ok:
  assumes g: "group_ok K M S g" and i: "i < M" "M \<le> 20" "K \<le> 255" and p: "buffer_ok (24 + S) pkt" and sz: "sizes_are K M S s"
  shows "\<exists>g'. put_fec s g i pkt = Some g' \<and> group_ok K M S g' \<and> rtp_seq_start g' = rtp_seq_start g"
proof -
  obtain b bs where d: "data pkt = Some (b, bs)" "24 + S \<le> length bs" using p by (auto simp: buffer_ok_def split: option.splits)
  obtain old where o: "paPktFec g ! i = Some old" "length old = S" using g i by (auto simp: group_ok_def)
  let ?new = "take S (drop 24 bs)"
  let ?g = "g\<lparr>paPktFec := (paPktFec g)[i := Some (?new @ drop (length ?new) old)], lost_map := (lost_map g)[K + i := 1]\<rparr>"
  have l: "length ?new = S" using d(2) by simp
  have e: "put_fec s g i pkt = Some ?g"
    using d o l sz by (simp add: put_fec_def into_slot_def sizes_are_def)
  have "map_option length ((paPktFec g)[i := Some (?new @ drop (length ?new) old)] ! j) = Some S" if "j < M" for j
    using g that l i o by (cases "j = i") (simp_all add: group_ok_def)
  moreover have "list_all (\<lambda>b. b \<le> 1) ((lost_map g)[K + i := 1])"
    using g set_update_subset_insert [of "lost_map g" "K + i" 1] by (auto simp: list_all_iff group_ok_def)
  ultimately have "group_ok K M S ?g" using g by (simp add: group_ok_def)
  then show ?thesis using e by simp
qed

lemma set_check_ok:
  assumes "groups_ok K M S s" "GroupCheckMiss s = Some c" "group_ok K M S c'" "rtp_seq_start c' = rtp_seq_start c"
  shows "groups_ok K M S (s\<lparr>GroupCheckMiss := Some c'\<rparr>)"
  using assms windows_check [of s c c'] by (simp add: groups_ok_def sizes_are_def)

lemma set_download_ok:
  assumes "groups_ok K M S s" "GroupDownLoading s = Some d" "group_ok K M S d'" "rtp_seq_start d' = rtp_seq_start d"
  shows "groups_ok K M S (s\<lparr>GroupDownLoading := Some d'\<rparr>)"
proof -
  have "have_fec s" "windows_ok s" using assms(1,2) by (simp_all add: groups_ok_def windows_ok_def)
  moreover have "sizes_are K M S s" using assms(1) calculation by (simp add: groups_ok_def)
  ultimately show ?thesis using assms windows_download [of s d d'] by (simp add: groups_ok_def sizes_are_def)
qed

lemma shift_ok:
  assumes s: "groups_ok K M S s" and d: "GroupDownLoading s = Some d" and n: "GroupDone s = None"
    and g: "group_ok K M S g" "rtp_seq_start g = (rtp_seq_start d + int K) mod 65536"
  shows "groups_ok K M S ((shift_groups s d)\<lparr>GroupDownLoading := Some g\<rparr>)"
proof -
  have h: "have_fec s" "windows_ok s" using s d by (simp_all add: groups_ok_def windows_ok_def)
  have sz: "sizes_are K M S s" and c: "fec_inited s \<longrightarrow> coder_p s = fec_init K M S" using s h(1) by (simp_all add: groups_ok_def)
  have "windows_ok ((shift_groups s d)\<lparr>GroupDownLoading := Some g\<rparr>)"
    using windows_shift [OF h(2) d] g sz by (simp add: sizes_are_def)
  moreover have "pred_option (done_ok K) (GroupDone (shift_groups s d))"
    using h(2) sz n by (auto simp: shift_groups_def windows_ok_def sizes_are_def group_done_ok split: option.splits)
  ultimately show ?thesis using sz c by (simp add: groups_ok_def sizes_are_def shift_groups_def)
qed

lemma fec_in_ok:
  assumes s: "groups_ok K M S s" and n: "GroupDone s = None" and f: "have_fec s" and p: "buffer_ok (24 + S) pkt"
    and i: "i < M" "M \<le> 20" "K \<le> 255"
  shows "\<exists>r s'. rtpfec_group_fecpkt_in (\<lambda>_. True) s pkt q i = Some (r, s') \<and> groups_ok K M S s' \<and> GroupDone s' = None \<and>
    (\<forall>K' M' S' B. queues_ok K' M' S' B s' = queues_ok K' M' S' B s)"
proof -
  note h = groups_sizes [OF s f]
  have sz: "sizes_are K M S s" using h by (simp add: sizes_are_def)
  obtain d where d: "GroupDownLoading s = Some d" using h(5) by blast
  have dok: "group_ok K M S d" using h d by (simp add: windows_ok_def)
  obtain d' where d': "put_fec s d i pkt = Some d'" "group_ok K M S d'" "rtp_seq_start d' = rtp_seq_start d"
    using put_fec_ok [OF dok i p sz] by blast
  note store = set_download_ok [OF s d d'(2,3)]
  show ?thesis
  proof (cases "GroupCheckMiss s")
    case None
    let ?start = "(rtp_seq_start d + int K) mod 65536"
    let ?fresh = "fresh_group K M S ?start"
    have fr: "group_ok K M S ?fresh" using i by (simp add: fresh_group_ok)
    define s1 where "s1 = (shift_groups s d)\<lparr>GroupDownLoading := Some ?fresh\<rparr>"
    have s1: "sizes_are K M S s1" using sz by (simp add: s1_def sizes_are_def shift_groups_def)
    obtain g where g: "put_fec s1 ?fresh i pkt = Some g" "group_ok K M S g" "rtp_seq_start g = ?start"
      using put_fec_ok [OF fr i p s1] by auto
    have e: "rtp_seq_end d = (rtp_seq_start d + int K - 1) mod 65536" using dok by (simp add: group_ok_def)
    then have e1: "(rtp_seq_end d + 1) mod 65536 = ?start" by (simp add: mod_simps)
    have "s\<lparr>GroupCheckMiss := Some d, GroupDownLoading := None, check_count := 0, GroupDownLoading := Some ?fresh\<rparr> = s1"
      using None n by (simp add: s1_def shift_groups_def)
    then have "rtpfec_create_group_downloading (\<lambda>_. True) (s\<lparr>GroupCheckMiss := Some d, GroupDownLoading := None, check_count := 0\<rparr>) ?start = (Size 0, s1)"
      using h by (simp add: create_fresh)
    then have c: "rtpfec_group_fecpkt_in (\<lambda>_. True) s pkt q i =
       (if q = rtp_seq_start d then Some (Size 0, s\<lparr>GroupDownLoading := Some d'\<rparr>)
        else if q = ?start then Some (Size 0, s1\<lparr>GroupDownLoading := Some g\<rparr>) else Some (Size 0, s))"
      using None d d'(1) g(1) e1 h by (simp add: rtpfec_group_fecpkt_in_def rtpfec_group_downloading_to_checkmiss_def Let_def s1_def)
    have "s1\<lparr>GroupDownLoading := Some g\<rparr> = (shift_groups s d)\<lparr>GroupDownLoading := Some g\<rparr>" by (simp add: s1_def)
    then have "groups_ok K M S (s1\<lparr>GroupDownLoading := Some g\<rparr>)" using shift_ok [OF s d n g(2,3)] by simp
    moreover have "GroupDone (s1\<lparr>GroupDownLoading := Some g\<rparr>) = None" using None n by (simp add: s1_def shift_groups_def)
    moreover have "queues_ok K' M' S' B (s1\<lparr>GroupDownLoading := Some g\<rparr>) = queues_ok K' M' S' B s" for K' M' S' B
      by (simp add: s1_def shift_groups_def)
    ultimately show ?thesis using c store n s by auto
  next
    case (Some c)
    have cok: "group_ok K M S c" using h Some by (simp add: windows_ok_def)
    obtain c' where c': "put_fec s c i pkt = Some c'" "group_ok K M S c'" "rtp_seq_start c' = rtp_seq_start c"
      using put_fec_ok [OF cok i p sz] by blast
    have e: "rtpfec_group_fecpkt_in (\<lambda>_. True) s pkt q i =
       (if q = rtp_seq_start c then Some (Size 0, s\<lparr>GroupCheckMiss := Some c'\<rparr>)
        else if q = rtp_seq_start d \<or> q = (rtp_seq_start d + int K) mod 65536 then Some (Size 0, s\<lparr>GroupDownLoading := Some d'\<rparr>) else Some (Size 0, s))"
      using Some d d'(1) c'(1) h
      by (simp add: rtpfec_group_fecpkt_in_def rtpfec_group_downloading_to_checkmiss_def rtpfec_create_group_downloading_def Let_def)
    show ?thesis using e store set_check_ok [OF s Some c'(2,3)] n s by auto
  qed
qed

lemma get_fec_queue_ok:
  assumes "queues_ok K M S B s" "pktq_get_pkt (fec_queue s) True 0 = (r, p, q)"
  shows "queues_ok K M S B (s\<lparr>fec_queue := q\<rparr>)" "p = Some pkt \<Longrightarrow> buffer_ok (24 + S) pkt \<and> announces K M S (pkt_bytes pkt)"
  using fill_get [OF assms(2)] assms(1) by (auto simp: queues_ok_def)

lemma pkt_bytes_length: "buffer_ok n pkt \<Longrightarrow> int (length (pkt_bytes pkt)) = data_size pkt"
  by (auto simp: buffer_ok_def pkt_bytes_def split: option.splits)

lemma header_ok:
  assumes "announces K M S bs" "24 < length bs" "fec_header s bs = Some (start, stop, num, fnum, i, l)"
  shows "num = K" "fnum = M" "l = S" "i < M" "is_seq start"
proof -
  have "AV_RB16 bs 12 < 65536" using unsigned_less [of "bs ! 12", where ?'a = nat] unsigned_less [of "bs ! (12 + 1)", where ?'a = nat] by (simp add: AV_RB16_def)
  then show "num = K" "fnum = M" "l = S" "i < M" "is_seq start"
    using assms by (auto simp: announces_def fec_header_def is_seq_def Let_def split: if_splits)
qed

lemma first_fec_ok:
  assumes s: "groups_ok K M S s" and n: "GroupDone s = None" "GroupCheckMiss s = None" and f: "\<not> have_fec s" and KM: "K \<le> 255" "M \<le> 20"
  shows "\<exists>s'. first_fec (\<lambda>_. True) s stop K M S = Some (Size 0, s') \<and> groups_ok K M S s' \<and> GroupDone s' = None \<and> have_fec s' \<and>
    (\<forall>K' M' S' B. queues_ok K' M' S' B s' = queues_ok K' M' S' B s)"
proof -
  have d: "GroupDownLoading s = None" using s f unfolding groups_ok_def windows_ok_def by blast
  let ?g = "fresh_group K M S ((stop + 1) mod 65536)"
  let ?s = "s\<lparr>have_fec := True, fec_dec_len := S, rtp_pkt_num := K, k_fec_pkt_num := M, GroupDownLoading := Some ?g\<rparr>"
  have "group_ok K M S ?g" using KM by (simp add: fresh_group_ok)
  then have "windows_ok ?s" using n KM by (simp add: windows_ok_def)
  then have "groups_ok K M S ?s" using n s by (simp add: groups_ok_def sizes_are_def)
  then show ?thesis using d n by (simp add: first_fec_def create_fresh)
qed

lemma get_fecpkt_ok:
  assumes s: "rtpfec_ok K M S B s" and n: "GroupDone s = None" and f: "have_fec s \<or> GroupCheckMiss s = None" and KM: "K \<le> 255" "M \<le> 20"
  shows "\<exists>r s'. rtpfec_get_fecpkt (\<lambda>_. True) s = Some (r, s') \<and> rtpfec_ok K M S B s' \<and> GroupDone s' = None"
proof -
  obtain r p q where e: "pktq_get_pkt (fec_queue s) True 0 = (r, p, q)" by (rule prod_cases3)
  define s0 where "s0 = s\<lparr>fec_queue := q\<rparr>"
  have s0: "rtpfec_ok K M S B s0" "GroupDone s0 = None"
    using s n get_fec_queue_ok(1) [OF _ e] by (simp_all add: rtpfec_ok_def s0_def)
  show ?thesis
  proof (cases "\<exists>k pkt h. r = Size k \<and> p = Some pkt \<and> 0 < k \<and> rtp_seq_lost s \<and> 24 < data_size pkt \<and> fec_header s0 (pkt_bytes pkt) = Some h")
    case False
    then show ?thesis using e s0 by (auto simp: rtpfec_get_fecpkt_def s0_def Let_def split: pktq_ret.splits option.splits)
  next
    case True
    then obtain k pkt start stop num fnum i l where h: "r = Size k" "p = Some pkt" "0 < k" "rtp_seq_lost s" "24 < data_size pkt"
      "fec_header s0 (pkt_bytes pkt) = Some (start, stop, num, fnum, i, l)" by (metis prod_cases6)
    have b: "buffer_ok (24 + S) pkt" "announces K M S (pkt_bytes pkt)" using get_fec_queue_ok(2) [OF _ e h(2), of K M S B] s by (simp_all add: rtpfec_ok_def)
    have "24 < length (pkt_bytes pkt)" using pkt_bytes_length [OF b(1)] h(5) by linarith
    note hd = header_ok [OF b(2) this h(6)]
    have g0: "groups_ok K M S s0" "queues_ok K M S B s0" using s0 by (simp_all add: rtpfec_ok_def)
    obtain s1 where s1: "(if have_fec s0 then Some (Size 0, s0) else first_fec (\<lambda>_. True) s0 stop num fnum l) = Some (Size 0, s1)"
      "groups_ok K M S s1" "GroupDone s1 = None" "have_fec s1" "queues_ok K M S B s1"
    proof (cases "have_fec s0")
      case True
      then show ?thesis using that [of s0] g0 s0(2) by simp
    next
      case False
      then show ?thesis using that first_fec_ok [OF g0(1) s0(2) _ False KM, of stop] f g0(2) hd by (auto simp: s0_def)
    qed
    obtain r2 s2 where "rtpfec_group_fecpkt_in (\<lambda>_. True) s1 pkt start i = Some (r2, s2)" "groups_ok K M S s2" "GroupDone s2 = None" "queues_ok K M S B s2"
      using fec_in_ok [OF s1(2,3,4) b(1) hd(4) KM(2,1), of start] s1(5) by blast
    moreover have "rtpfec_get_fecpkt (\<lambda>_. True) s = rtpfec_group_fecpkt_in (\<lambda>_. True) s1 pkt start i"
      using e h s1(1) by (cases "have_fec s0") (simp_all add: rtpfec_get_fecpkt_def s0_def [symmetric] Let_def)
    ultimately show ?thesis by (simp add: rtpfec_ok_def)
  qed
qed

section \<open>Repair keeps the invariant\<close>

text \<open>What holds of the state a pass ends in, and after a wait.\<close>

definition pass_holds :: "('d RTPFECContext \<Rightarrow> bool) \<Rightarrow> 'd pass \<Rightarrow> bool" where
  "pass_holds P r = (case r of Again s \<Rightarrow> P s | Read_out s \<Rightarrow> P s | Return _ s \<Rightarrow> P s | Wait s \<Rightarrow> P s \<and> GroupDone s = None)"

lemma windows_coder: "windows_ok (s\<lparr>coder_p := p, fec_inited := b, GroupCheckMiss := c'\<rparr>) = windows_ok (s\<lparr>GroupCheckMiss := c'\<rparr>)"
  by (simp add: windows_ok_def)

lemma ready_coder_ok:
  assumes i: "fec_inited s \<longrightarrow> coder_p s = fec_init K M S" and sz: "sizes_are K M S s" and p: "fec_init K M S = Some p"
  shows "ready_coder s = Some (s\<lparr>coder_p := Some p, fec_inited := True\<rparr>)"
proof (cases "fec_inited s")
  case True
  then have "s\<lparr>coder_p := Some p, fec_inited := True\<rparr> = s" using i p by simp
  then show ?thesis using True by (simp add: ready_coder_def)
next
  case False
  then show ?thesis using sz p by (simp add: ready_coder_def fec_init_adp_def sizes_are_def)
qed

lemma repaired_ok:
  assumes g: "group_ok K M S g" and r: "shape K S rows" and K: "K \<le> 255"
  shows "group_ok K M S (g\<lparr>paPktRtp := map Some rows @ drop K (paPktRtp g)\<rparr>)"
  using assms by (simp add: group_ok_def shape_def nth_append)

lemma repair_group_safe:
  assumes s: "rtpfec_ok K M S B s" and n: "GroupDone s = None" and c: "GroupCheckMiss s = Some g" and KM: "0 < K" "K + M \<le> 255" "M \<le> 20"
  shows "\<exists>r. repair_group s = Some r \<and> pass_holds (rtpfec_ok K M S B) r"
proof -
  have K: "K \<le> 255" using KM by simp
  have gs: "groups_ok K M S s" "queues_ok K M S B s" using s by (simp_all add: rtpfec_ok_def)
  have w: "windows_ok s" and sz: "sizes_are K M S s" and i: "fec_inited s \<longrightarrow> coder_p s = fec_init K M S" using gs(1) c unfolding groups_ok_def by blast+
  have g: "group_ok K M S g" using w c sz by (simp add: windows_ok_def sizes_are_def)
  have sizes: "rtp_pkt_num s = K" "k_fec_pkt_num s = M" "fec_dec_len s = S" using sz by (simp_all add: sizes_are_def)
  show ?thesis
  proof (cases "repairable (lost_map g) K M")
    case False
    then have "rtpfec_check_miss s = (False, s)" using check_miss_eq [OF c] sizes by simp
    then show ?thesis using to_done_ok [OF gs(1) n c] gs(2) by (simp add: repair_group_def pass_holds_def rtpfec_ok_def)
  next
    case True
    define g1 where "g1 = g\<lparr>aPktRtpLen := fold (\<lambda>i l. l[i := S]) (lost_data (lost_map g) K) (aPktRtpLen g)\<rparr>"
    have g1: "group_ok K M S g1" "repairable (lost_map g1) K M" "rtp_seq_start g1 = rtp_seq_start g"
      using g K True by (simp_all add: group_ok_def g1_def fold_set_nth)
    obtain p where p: "fec_init K M S = Some p" using rs.init_law [OF KM(1,2)] by blast
    obtain rows where rows: "fec_decode_adp (Some p) g1 = Some (Size 0, g1\<lparr>paPktRtp := map Some rows @ drop K (paPktRtp g1)\<rparr>)" "shape K S rows"
      using decode_returns [OF g1(1) KM g1(2) p] by blast
    define g2 where "g2 = g1\<lparr>paPktRtp := map Some rows @ drop K (paPktRtp g1)\<rparr>"
    have g2: "group_ok K M S g2" "rtp_seq_start g2 = rtp_seq_start g" using repaired_ok [OF g1(1) rows(2) K] g1(3) by (simp_all add: g2_def)
    let ?s1 = "s\<lparr>GroupCheckMiss := Some g1\<rparr>"
    let ?s2 = "s\<lparr>GroupCheckMiss := Some g1, coder_p := Some p, fec_inited := True\<rparr>"
    let ?s3 = "?s2\<lparr>GroupCheckMiss := Some g2\<rparr>"
    have "ready_coder ?s1 = Some ?s2" using ready_coder_ok [of ?s1 K M S p] i sz p by (simp add: sizes_are_def)
    then have dm: "decode_miss ?s1 = Some (Size 0, ?s3)" using rows(1) by (simp add: decode_miss_def g2_def)
    have "groups_ok K M S (s\<lparr>GroupCheckMiss := Some g2\<rparr>)" using set_check_ok [OF gs(1) c g2] .
    then have s3: "groups_ok K M S ?s3" using p unfolding groups_ok_def by (simp add: windows_coder sizes_are_def)
    have c3: "GroupDone ?s3 = None" "GroupCheckMiss ?s3 = Some g2" using n by simp_all
    note td = to_done_ok [OF s3 c3]
    have "rtpfec_check_miss s = (True, ?s1)" using check_miss_eq [OF c] sizes True by (simp add: g1_def)
    then show ?thesis using dm td n gs(2) by (simp add: repair_group_def pass_holds_def rtpfec_ok_def)
  qed
qed

section \<open>Data packets keep the invariant\<close>

lemma stop_ok:
  assumes s: "groups_ok K M S s" and d: "GroupDownLoading s = Some d" and n: "GroupDone s = None"
  shows "groups_ok K M S ((shift_groups s d)\<lparr>have_fec := False\<rparr>)"
proof -
  have h: "have_fec s" "windows_ok s" using s d by (simp_all add: groups_ok_def windows_ok_def)
  have sz: "sizes_are K M S s" and c: "fec_inited s \<longrightarrow> coder_p s = fec_init K M S" using s h(1) by (simp_all add: groups_ok_def)
  have "pred_option (done_ok K) (GroupDone (shift_groups s d))"
    using h(2) sz n by (auto simp: shift_groups_def windows_ok_def sizes_are_def group_done_ok split: option.splits)
  then show ?thesis using windows_stop [OF h(2) d] sz c by (simp add: groups_ok_def sizes_are_def shift_groups_def)
qed

lemma place_queues: "queues_ok K M S B (snd (place_rtp s bs q)) = queues_ok K M S B s"
  by (simp add: place_rtp_def place_download_def Let_def shift_groups_def split: option.splits)

lemma place_groups:
  assumes s: "groups_ok K M S s" and n: "GroupDone s = None" and f: "have_fec s" and l: "length bs \<le> S" and KM: "K \<le> 255" "M \<le> 20"
  shows "groups_ok K M S (snd (place_rtp s bs q))"
proof -
  note h = groups_sizes [OF s f]
  obtain d where d: "GroupDownLoading s = Some d" using h(5) by blast
  have ok: "group_ok K M S g" if "GroupCheckMiss s = Some g \<or> GroupDownLoading s = Some g" for g
    using h that by (auto simp: windows_ok_def)
  have o: "nat (offset a q) < K" if "offset a q < int K" for a using that offset_range [of a q] by linarith
  have dl: "groups_ok K M S (s\<lparr>GroupDownLoading := Some (stored d (nat (offset (rtp_seq_start d) q)) bs)\<rparr>)"
    if "offset (rtp_seq_start d) q < int K"
    using set_download_ok [OF s d] stored_ok [OF ok o [OF that] KM(1) l] d by simp
  have nx: "groups_ok K M S ((shift_groups s d)\<lparr>GroupDownLoading :=
      Some (stored (fresh_group K M S ((rtp_seq_start d + int K) mod 65536)) (nat (offset (rtp_seq_start d) q - int K)) bs)\<rparr>)"
    if "\<not> offset (rtp_seq_start d) q < int K" "offset (rtp_seq_start d) q < 2 * int K"
  proof -
    have "nat (offset (rtp_seq_start d) q - int K) < K" using that by linarith
    from stored_ok [OF fresh_group_ok [OF KM is_seq_mod] this KM(1) l] show ?thesis by (intro shift_ok [OF s d n]) simp_all
  qed
  note stop = stop_ok [OF s d n]
  show ?thesis
  proof (cases "GroupCheckMiss s")
    case None
    then show ?thesis using d dl nx stop h by (simp add: place_rtp_def place_download_def Let_def)
  next
    case (Some c)
    have "groups_ok K M S (s\<lparr>GroupCheckMiss := Some (stored c (nat (offset (rtp_seq_start c) q)) bs)\<rparr>)" if "offset (rtp_seq_start c) q < int K"
      using set_check_ok [OF s Some] stored_ok [OF ok o [OF that] KM(1) l] Some by simp
    then show ?thesis using Some d dl nx stop h by (simp add: place_rtp_def place_download_def Let_def)
  qed
qed

lemma rtp_seq_is_seq: "is_seq (rtp_seq pkt)"
proof -
  have "AV_RB16 bs 2 < 65536" for bs
    using unsigned_less [of "bs ! 2", where ?'a = nat] unsigned_less [of "bs ! (2 + 1)", where ?'a = nat] by (simp add: AV_RB16_def)
  then show ?thesis by (simp add: rtp_seq_def is_seq_def split: option.splits)
qed

lemma fetch_rtp_ok:
  assumes s: "rtpfec_ok K M S B s" and n: "GroupDone s = None"
  shows "case fetch_rtp s of Inl e \<Rightarrow> pass_holds (rtpfec_ok K M S B) e
    | Inr (pkt, s') \<Rightarrow> rtpfec_ok K M S B s' \<and> GroupDone s' = None \<and> buffer_ok (24 + S) pkt \<and> length (pkt_bytes pkt) \<le> S"
proof -
  define tm :: int where "tm = (if pktq_get_data_size (Some (ts_queue s)) > 0 then 0 else - 1)"
  obtain r p q where e: "pktq_get_pkt (rtp_queue s) True tm = (r, p, q)" by (rule prod_cases3)
  have q: "rtpfec_ok K M S B (s\<lparr>rtp_queue := q\<rparr>)" "\<And>pkt. p = Some pkt \<Longrightarrow> buffer_ok (24 + S) pkt \<and> length (pkt_bytes pkt) \<le> S"
    using fill_get [OF e] s by (auto simp: rtpfec_ok_def queues_ok_def)
  show ?thesis using e q n by (auto simp: fetch_rtp_def tm_def [symmetric] pass_holds_def Let_def split: pktq_ret.splits option.splits)
qed

lemma grouped_ok:
  assumes p: "parser_ok B waiting parse" and s: "rtpfec_ok K M S B s" and n: "GroupDone s = None" and f: "have_fec s"
    and pkt: "buffer_ok (24 + S) pkt" "length (pkt_bytes pkt) \<le> S" and KM: "K \<le> 255" "M \<le> 20"
  shows "\<exists>r. grouped_rtp (\<lambda>_. True) parse s pkt = Some r \<and> pass_holds (rtpfec_ok K M S B) r"
proof -
  let ?s = "s\<lparr>check_count := check_count s + 1\<rparr>"
  have gs: "groups_ok K M S ?s" "queues_ok K M S B ?s" using s by (simp_all add: rtpfec_ok_def)
  note h = groups_sizes [OF gs(1)]
  have "GroupDone ?s = None" "have_fec ?s" using n f by simp_all
  note place = place_groups [OF gs(1) this pkt(2) KM, of "rtp_seq pkt"]
  have "rtpfec_group_rtppkt_in (\<lambda>_. True) ?s pkt (rtp_seq pkt) = Some (place_rtp ?s (pkt_bytes pkt) (rtp_seq pkt))"
    using rtppkt_in_place [of ?s "rtp_seq pkt" pkt] h f n pkt(2) rtp_seq_is_seq by simp
  moreover obtain r s2 where r: "place_rtp ?s (pkt_bytes pkt) (rtp_seq pkt) = (r, s2)" by (rule prod.exhaust)
  moreover have s2: "rtpfec_ok K M S B s2" using place place_queues [of K M S B ?s "pkt_bytes pkt" "rtp_seq pkt"] gs(2) r by (simp add: rtpfec_ok_def)
  ultimately show ?thesis
    using parse_bytes_ok [OF p s2, of "pkt_bytes pkt"] keep_buffer_ok [OF _ pkt(1)]
    by (cases "r = Size 0") (auto simp: grouped_rtp_def Let_def pass_holds_def)
qed

lemma plain_ok:
  assumes p: "parser_ok B waiting parse" and s: "rtpfec_ok K M S B s" and pkt: "buffer_ok (24 + S) pkt"
  shows "\<exists>r. plain_rtp parse s pkt = Some r \<and> pass_holds (rtpfec_ok K M S B) r"
proof -
  define s1 where "s1 = (if rtp_seq_lost s then s else s\<lparr>rtp_seq_lost := (rtp_seq_next s \<noteq> None \<and> rtp_seq_next s \<noteq> Some (rtp_seq pkt)),
    rtp_seq_next := Some ((rtp_seq pkt + 1) mod 65536)\<rparr>)"
  have s1: "rtpfec_ok K M S B s1" using s by (simp add: s1_def rtpfec_ok_def)
  show ?thesis using parse_bytes_ok [OF p s1, of "pkt_bytes pkt"] keep_buffer_ok [OF _ pkt]
    by (auto simp: plain_rtp_def Let_def s1_def [symmetric] pass_holds_def)
qed

lemma fetch_pass_ok:
  assumes p: "parser_ok B waiting parse" and s: "rtpfec_ok K M S B s" and n: "GroupDone s = None" and KM: "K \<le> 255" "M \<le> 20"
  shows "\<exists>r. fetch_pass (\<lambda>_. True) parse s = Some r \<and> pass_holds (rtpfec_ok K M S B) r"
proof (cases "fetch_rtp s")
  case (Inl e)
  then show ?thesis using fetch_rtp_ok [OF s n] by (simp add: fetch_pass_def)
next
  case (Inr x)
  obtain pkt s1 where x: "x = (pkt, s1)" by (rule prod.exhaust)
  have s1: "rtpfec_ok K M S B s1" "GroupDone s1 = None" "buffer_ok (24 + S) pkt" "length (pkt_bytes pkt) \<le> S"
    using fetch_rtp_ok [OF s n] Inr x by simp_all
  show ?thesis using grouped_ok [OF p s1(1,2) _ s1(3,4) KM] plain_ok [OF p s1(1,3)] Inr x by (simp add: fetch_pass_def)
qed

lemma read_pass_ok:
  assumes p: "parser_ok B waiting parse" and s: "rtpfec_ok K M S B s" and KM: "0 < K" "K + M \<le> 255" "M \<le> 20"
  shows "\<exists>r. read_pass (\<lambda>_. True) parse s = Some r \<and> pass_holds (rtpfec_ok K M S B) r"
proof (cases "GroupDone s")
  case (Some g)
  then show ?thesis using read_done_ok [OF p s Some] KM by (auto simp: read_pass_def pass_holds_def)
next
  case None
  have gs: "groups_ok K M S s" "queues_ok K M S B s" using s by (simp_all add: rtpfec_ok_def)
  have K: "K \<le> 255" using KM by simp
  show ?thesis
  proof (cases "\<not> have_fec s \<and> GroupCheckMiss s \<noteq> None")
    case True
    then show ?thesis using None to_done_ok [OF gs(1) None] gs(2) by (auto simp: read_pass_def pass_holds_def rtpfec_ok_def)
  next
    case False
    then obtain r s1 where g: "rtpfec_get_fecpkt (\<lambda>_. True) s = Some (r, s1)" "rtpfec_ok K M S B s1" "GroupDone s1 = None"
      using get_fecpkt_ok [OF s None _ K KM(3)] by blast
    show ?thesis
    proof (cases "r = Size 0")
      case False
      then show ?thesis using None \<open>\<not> (\<not> have_fec s \<and> GroupCheckMiss s \<noteq> None)\<close> g by (auto simp: read_pass_def pass_holds_def)
    next
      case True
      then show ?thesis
        using None False g fetch_pass_ok [OF p g(2,3) K KM(3)] repair_group_safe [OF g(2,3) _ KM] by (auto simp: read_pass_def)
    qed
  qed
qed

section \<open>The receiving thread keeps the invariant\<close>

text \<open>What the network delivers in a round: data packets of at most \<open>S\<close> bytes and parity packets that announce the sizes of the stream.\<close>

definition round_ok :: "nat \<Rightarrow> nat \<Rightarrow> nat \<Rightarrow> round \<Rightarrow> bool" where
  "round_ok K M S r \<longleftrightarrow> pred_option (announces K M S) (fec_arrival r) \<and> pred_option (\<lambda>bs. length bs \<le> S) (rtp_arrival r)"

lemma queue_ok_exit: "queue_ok M B (snd (pktq_put_pkt True q None)) = queue_ok M B q"
  by (simp add: pktq_put_pkt_def queue_ok_def pktq_wf_def counts_ok_def bounds_ok_def within_def)

lemma fill_exit: "fill (snd (pktq_put_pkt True q None)) = fill q"
  by (simp add: pktq_put_pkt_def)

lemma thread_exit_ok:
  assumes "rtpfec_ok K M S B s" "thread_exit s t = (s', t')"
  shows "rtpfec_ok K M S B s' \<and> receiver_ok n (rx_buf t') \<and> GroupDone s' = GroupDone s"
  using assms by (auto simp: thread_exit_def rtpfec_ok_def queues_ok_def queue_ok_exit fill_exit receiver_ok_def)

lemma announces_take:
  assumes "announces K M S bs" "24 \<le> n"
  shows "announces K M S (take n bs)"
proof (cases "24 < length (take n bs)")
  case True
  then have "take n bs ! i = bs ! i" if "i < 24" for i using that by simp
  then show ?thesis using assms True by (simp add: announces_def AV_RB16_def AV_RB8_def)
next
  case False
  then show ?thesis by (auto simp: announces_def)
qed

lemma set_empty_ok:
  "rtpfec_ok K M S B s \<Longrightarrow> set (fill q) \<subseteq> set (fill (empty_buf_queue s)) \<Longrightarrow> rtpfec_ok K M S B (s\<lparr>empty_buf_queue := q\<rparr>)"
  by (auto simp: rtpfec_ok_def queues_ok_def)

lemma buffer_step:
  assumes s: "rtpfec_ok K M S B s" and b: "receiver_ok (24 + S) rx" and l: "24 + S \<le> len"
    and g: "get_buffer len fresh rx (empty_buf_queue s) = (ok, rx', eq)"
  shows "rtpfec_ok K M S B (s\<lparr>empty_buf_queue := eq\<rparr>)" "receiver_ok (24 + S) rx'" 
  using get_buffer_ok [OF g b _ l] set_empty_ok [OF s] s by (auto simp: rtpfec_ok_def queues_ok_def)

lemma nat_bufsize: "receiver_ok n rx \<Longrightarrow> rcv_buf rx \<noteq> None \<Longrightarrow> n \<le> nat (bufsize rx)"
  by (auto simp: receiver_ok_def)

lemma rx_fec_ok:
  assumes s: "rtpfec_ok K M S B s" and b: "receiver_ok (24 + S) (rx_buf t)" and l: "24 + S \<le> len" and r: "round_ok K M S r"
  shows "\<exists>ok s' t'. rx_fec len r s t = Some (ok, s', t') \<and> rtpfec_ok K M S B s' \<and> receiver_ok (24 + S) (rx_buf t') \<and>
    GroupDone s' = GroupDone s \<and> running t' = running t"
proof (cases "fec_arrival r")
  case None
  then show ?thesis using s b by (auto simp: rx_fec_def)
next
  case (Some bytes)
  have a: "announces K M S bytes" using r Some by (simp add: round_ok_def)
  obtain ok rx eq where g: "get_buffer len (fec_fresh r) (rx_buf t) (empty_buf_queue s) = (ok, rx, eq)" by (rule prod_cases3)
  note bs = buffer_step [OF s b l g]
  obtain rx' q where q: "receive_packet bytes rx (fec_queue s) = Some (rx', q)" "receiver_ok (24 + S) rx'"
    "\<forall>p \<in> set (fill q). p \<in> set (fill (fec_queue s)) \<or> (buffer_ok (24 + S) p \<and> pkt_bytes p = take (nat (bufsize rx)) bytes)"
    using receive_packet_ok [OF bs(2)] by blast
  have "rtpfec_ok K M S B (s\<lparr>empty_buf_queue := eq, fec_queue := q\<rparr>)"
  proof (cases "rcv_buf rx = None")
    case True
    then have "q = fec_queue s" using q(1) by (simp add: receive_packet_def)
    then show ?thesis using bs(1) by (simp add: rtpfec_ok_def queues_ok_def)
  next
    case False
    have "announces K M S (take (nat (bufsize rx)) bytes)" using announces_take [OF a] nat_bufsize [OF bs(2) False] by simp
    then show ?thesis using q(3) bs(1) by (auto simp: rtpfec_ok_def queues_ok_def)
  qed
  moreover have "rtpfec_ok K M S B (s\<lparr>empty_buf_queue := eq, is_exit := True\<rparr>)" using bs(1) by (simp add: rtpfec_ok_def)
  ultimately show ?thesis using Some g bs(2) q(1,2) by (cases ok) (simp_all add: rx_fec_def ex_bool_eq)
qed

lemma rx_rtp_ok:
  assumes s: "rtpfec_ok K M S B s" and b: "receiver_ok (24 + S) (rx_buf t)" and l: "24 + S \<le> len" and r: "round_ok K M S r"
  shows "\<exists>ok s' t'. rx_rtp len r s t = Some (ok, s', t') \<and> rtpfec_ok K M S B s' \<and> receiver_ok (24 + S) (rx_buf t') \<and>
    GroupDone s' = GroupDone s \<and> running t' = running t"
proof (cases "rtp_arrival r")
  case None
  then show ?thesis using s b by (auto simp: rx_rtp_def)
next
  case (Some bytes)
  have a: "length bytes \<le> S" using r Some by (simp add: round_ok_def)
  obtain ok rx eq where g: "get_buffer len (rtp_fresh r) (rx_buf t) (empty_buf_queue s) = (ok, rx, eq)" by (rule prod_cases3)
  note bs = buffer_step [OF s b l g]
  obtain rx' q where q: "receive_packet bytes rx (rtp_queue s) = Some (rx', q)" "receiver_ok (24 + S) rx'"
    "\<forall>p \<in> set (fill q). p \<in> set (fill (rtp_queue s)) \<or> (buffer_ok (24 + S) p \<and> pkt_bytes p = take (nat (bufsize rx)) bytes)"
    using receive_packet_ok [OF bs(2)] by blast
  have st: "rtpfec_ok K M S B (s\<lparr>empty_buf_queue := eq, rtp_queue := q\<rparr>)"
    using q(3) bs(1) a by (fastforce simp: rtpfec_ok_def queues_ok_def)
  obtain dropped t1 where d: "test_drops s (t\<lparr>rx_buf := rx\<rparr>) bytes = (dropped, t1)" by (rule prod.exhaust)
  have t1: "running t1 = running t" using d by (auto simp: test_drops_def Let_def split: if_splits)
  have ex: "rtpfec_ok K M S B (s\<lparr>empty_buf_queue := eq, is_exit := True\<rparr>)" using bs(1) by (simp add: rtpfec_ok_def)
  have nb: "receiver_ok (24 + S) (rx\<lparr>rcv_buf := None\<rparr>)" by (simp add: receiver_ok_def)
  show ?thesis using Some g bs q(1,2) st d t1 ex nb by (cases ok; cases dropped) (simp_all add: rx_rtp_def ex_bool_eq)
qed

lemma thread_round_ok:
  assumes s: "rtpfec_ok K M S B s" and b: "receiver_ok (24 + S) (rx_buf t)" and l: "24 + S \<le> len" and r: "round_ok K M S r"
  shows "\<exists>s' t'. rtp_stream_thread_round len r s t = Some (s', t') \<and> rtpfec_ok K M S B s' \<and> receiver_ok (24 + S) (rx_buf t') \<and> GroupDone s' = GroupDone s"
proof -
  have s': "rtpfec_ok K M S B (s\<lparr>is_exit := True\<rparr>)" using s by (simp add: rtpfec_ok_def)
  obtain ok s1 t1 where f: "rx_fec len r s t = Some (ok, s1, t1)" "rtpfec_ok K M S B s1" "receiver_ok (24 + S) (rx_buf t1)" "GroupDone s1 = GroupDone s"
    using rx_fec_ok [OF s b l r] by blast
  obtain ok2 s2 t2 where g: "rx_rtp len r s1 t1 = Some (ok2, s2, t2)" "rtpfec_ok K M S B s2" "receiver_ok (24 + S) (rx_buf t2)" "GroupDone s2 = GroupDone s"
    using rx_rtp_ok [OF f(2,3) l r] f(4) by auto
  have ex: "\<exists>s'' t''. thread_exit x y = (s'', t'') \<and> rtpfec_ok K M S B s'' \<and> receiver_ok (24 + S) (rx_buf t'') \<and> GroupDone s'' = GroupDone x"
    if "rtpfec_ok K M S B x" for x :: "'a RTPFECContext" and y
    using thread_exit_ok [OF that, of y] by (metis prod.exhaust)
  show ?thesis
    using s b f g ex [OF s, of t] ex [OF s', of t] ex [OF f(2), of t1] ex [OF g(2), of t2] by (auto simp: rtp_stream_thread_round_def)
qed

lemma thread_rounds_ok:
  assumes "24 + S \<le> len"
  shows "rtpfec_ok K M S B s \<Longrightarrow> receiver_ok (24 + S) (rx_buf t) \<Longrightarrow> list_all (round_ok K M S) rs \<Longrightarrow>
    \<exists>s' t'. thread_rounds len rs s t = Some (s', t') \<and> rtpfec_ok K M S B s' \<and> receiver_ok (24 + S) (rx_buf t') \<and> GroupDone s' = GroupDone s"
proof (induction rs arbitrary: s t)
  case Nil
  then show ?case by simp
next
  case (Cons r rs)
  obtain s1 t1 where r: "rtp_stream_thread_round len r s t = Some (s1, t1)" "rtpfec_ok K M S B s1" "receiver_ok (24 + S) (rx_buf t1)" "GroupDone s1 = GroupDone s"
    using thread_round_ok [OF Cons.prems(1,2) assms, of r] Cons.prems(3) by (auto simp del: split_paired_Ex)
  show ?case using Cons.IH [OF r(2,3)] Cons.prems(3) r by auto
qed

section \<open>Read calls keep the invariant\<close>

lemma read_out_ok:
  assumes "rtpfec_ok K M S B s"
  shows "\<exists>r s'. read_out s len = Some (r, s') \<and> rtpfec_ok K M S B s'"
proof -
  have "queue_ok 2097152 B (ts_queue s)" using assms by (simp add: rtpfec_ok_def queues_ok_def)
  then obtain r bs fr q where "pktq_read (ts_queue s) True len 0 = Some (r, bs, fr, q)" "queue_ok 2097152 B q"
    using pktq_read_spec by blast
  then show ?thesis using assms queues_ok_ts [of K M S B s q] by (auto simp: read_out_def rtpfec_ok_def)
qed

definition turn_ok :: "nat \<Rightarrow> nat \<Rightarrow> nat \<Rightarrow> turn \<Rightarrow> bool" where
  "turn_ok K M S tn = (case tn of (_, alloc, rounds) \<Rightarrow> alloc = (\<lambda>_. True) \<and> list_all (round_ok K M S) rounds)"

abbreviation pair_ok :: "nat \<Rightarrow> nat \<Rightarrow> nat \<Rightarrow> int \<Rightarrow> 'd stream \<Rightarrow> bool" where
  "pair_ok K M S B st \<equiv> rtpfec_ok K M S B (fst st) \<and> receiver_ok (24 + S) (rx_buf (snd st))"

lemma read_loop_ok:
  assumes p: "parser_ok B waiting parse" and KM: "0 < K" "K + M \<le> 255" "M \<le> 20" and l: "24 + S \<le> max_len"
  shows "pair_ok K M S B st \<Longrightarrow> (w \<longrightarrow> GroupDone (fst st) = None) \<Longrightarrow> list_all (turn_ok K M S) turns \<Longrightarrow>
    \<exists>res. rtpfec_read_loop max_len parse len w turns st = Some res \<and> (case res of Inl (_, st') \<Rightarrow> pair_ok K M S B st' | Inr st' \<Rightarrow> pair_ok K M S B st')"
proof (induction turns arbitrary: st w)
  case Nil
  then show ?case by simp
next
  case (Cons tn turns)
  obtain s t where st: "st = (s, t)" by (rule prod.exhaust)
  obtain i rounds where tn: "tn = (i, (\<lambda>_. True), rounds)" and rs: "list_all (round_ok K M S) rounds"
    using Cons.prems(3) by (cases tn) (auto simp: turn_ok_def)
  have s: "rtpfec_ok K M S B s" and b: "receiver_ok (24 + S) (rx_buf t)" using Cons.prems(1) st by simp_all
  let ?good = "\<lambda>out. \<exists>res. out = Some res \<and> (case res of Inl (_, st') \<Rightarrow> pair_ok K M S B st' | Inr st' \<Rightarrow> pair_ok K M S B st')"
  have out: "?good (map_option (\<lambda>(r, s'). Inl (r, s', t)) (read_out x len))" if x: "rtpfec_ok K M S B x" for x
  proof -
    obtain r s' where "read_out x len = Some (r, s')" "rtpfec_ok K M S B s'" using read_out_ok [OF x, of len] by blast
    then show ?thesis using b by simp
  qed
  have again: "?good (case thread_rounds max_len rounds x t of None \<Rightarrow> None | Some st' \<Rightarrow> rtpfec_read_loop max_len parse len w' turns st')"
    if x: "rtpfec_ok K M S B x" "w' \<longrightarrow> GroupDone x = None" for x w'
  proof -
    obtain s' t' where "thread_rounds max_len rounds x t = Some (s', t')" "rtpfec_ok K M S B s'" "receiver_ok (24 + S) (rx_buf t')" "GroupDone s' = GroupDone x"
      using thread_rounds_ok [OF l x(1) b rs] by blast
    then show ?thesis using Cons.IH [of "(s', t')" w'] Cons.prems(3) x(2) by simp
  qed
  have "\<exists>r. (if w then fetch_pass (\<lambda>_. True) parse s else read_pass (\<lambda>_. True) parse s) = Some r \<and> pass_holds (rtpfec_ok K M S B) r"
    using fetch_pass_ok [OF p s] read_pass_ok [OF p s KM] Cons.prems(2) st KM by simp
  then obtain r where r: "(if w then fetch_pass (\<lambda>_. True) parse s else read_pass (\<lambda>_. True) parse s) = Some r" "pass_holds (rtpfec_ok K M S B) r" by blast
  show ?case
  proof (cases "(\<not> w \<and> pktq_get_data_size (Some (ts_queue s)) \<ge> len) \<or> (\<not> w \<and> i)")
    case True
    then show ?thesis using out [OF s] s b st tn by (auto simp: rtpfec_ok_def)
  next
    case False
    then have e: "rtpfec_read_loop max_len parse len w (tn # turns) st = (case r of
          Again s' \<Rightarrow> (case thread_rounds max_len rounds s' t of None \<Rightarrow> None | Some st' \<Rightarrow> rtpfec_read_loop max_len parse len False turns st')
        | Wait s' \<Rightarrow> (case thread_rounds max_len rounds s' t of None \<Rightarrow> None | Some st' \<Rightarrow> rtpfec_read_loop max_len parse len True turns st')
        | Read_out s' \<Rightarrow> map_option (\<lambda>(r, s'). Inl (r, s', t)) (read_out s' len)
        | Return r s' \<Rightarrow> Some (Inl (Failed r, s', t)))"
      using st tn r(1) by (simp only: rtpfec_read_loop.simps Let_def) (auto split: pass.splits)
    show ?thesis unfolding e using r(2) out again b by (cases r) (simp_all add: pass_holds_def)
  qed
qed

end
