(* ===== verification/Rtp_Fec_Properties.thy ===== *)
theory Rtp_Fec_Properties
  imports Rtp_Fec_Safety
begin

text \<open>
  What is shown of the stream protocol with error correction, with examples.
\<close>

section \<open>Properties\<close>

text \<open>An environment in which everything succeeds.\<close>

definition example_open :: "unit open_env" where
  "example_open = \<lparr>fec_port_option = Some 5002, rtp_connects = True, fec_connects = True, queue_env = (\<lambda>_. (True, True, True)),
     parser_state = Some (), thread_starts = True, lost_rtp_property = False\<rparr>"

lemma open_ok:
  assumes "rtpfec_open env c = Some st" "0 \<le> B"
  shows "pair_ok K M S B st"
  using assms(1) create_queue_ok [OF _ assms(2)]
  by (auto simp: rtpfec_open_def rtpfec_ok_def groups_ok_def windows_ok_def queues_ok_def receiver_ok_def split: if_splits option.splits)

text \<open>A sequence of read calls; it ends when a call is still in its loop.\<close>

fun rtpfec_reads :: "nat \<Rightarrow> 'd parser \<Rightarrow> (int \<times> turn list) list \<Rightarrow> 'd stream \<Rightarrow> (read_ret list \<times> 'd stream) option" where
  "rtpfec_reads max_len parse [] st = Some ([], st)"
| "rtpfec_reads max_len parse ((len, turns) # calls) st =
     (case rtpfec_read max_len parse len turns st of None \<Rightarrow> None
      | Some (Inr st') \<Rightarrow> Some ([], st')
      | Some (Inl (r, st')) \<Rightarrow> map_option (\<lambda>(rs, st''). (r # rs, st'')) (rtpfec_reads max_len parse calls st'))"

lemma reads_ok:
  assumes p: "parser_ok B waiting parse" and KM: "0 < K" "K + M \<le> 255" "M \<le> 20" and l: "24 + S \<le> max_len"
  shows "pair_ok K M S B st \<Longrightarrow> list_all (\<lambda>(_, turns). list_all (turn_ok K M S) turns) calls \<Longrightarrow>
    \<exists>rs st'. rtpfec_reads max_len parse calls st = Some (rs, st') \<and> pair_ok K M S B st'"
proof (induction calls arbitrary: st)
  case Nil
  then show ?case by simp
next
  case (Cons c calls)
  obtain len turns where c: "c = (len, turns)" by (rule prod.exhaust)
  have "\<exists>res. rtpfec_read max_len parse len turns st = Some res \<and> (case res of Inl (_, st') \<Rightarrow> pair_ok K M S B st' | Inr st' \<Rightarrow> pair_ok K M S B st')"
    using read_loop_ok [OF p KM l Cons.prems(1), of False turns len] Cons.prems c by (auto simp: rtpfec_read_def)
  then obtain res where res: "rtpfec_read max_len parse len turns st = Some res"
    "case res of Inl (_, st') \<Rightarrow> pair_ok K M S B st' | Inr st' \<Rightarrow> pair_ok K M S B st'" by blast
  show ?case
  proof (cases res)
    case (Inl x)
    obtain r st1 where x: "x = (r, st1)" by (rule prod.exhaust)
    have "pair_ok K M S B st1" using res(2) Inl x by simp
    then show ?thesis using Cons.IH [of st1] Cons.prems(2) c res(1) Inl x by auto
  next
    case (Inr st1)
    then show ?thesis using res c by simp
  qed
qed


definition arrival :: "u8 list \<Rightarrow> turn" where
  "arrival bs = (False, (\<lambda>_. True), [\<lparr>rx_interrupted = False, fec_arrival = None, fec_fresh = None, rtp_arrival = Some bs, rtp_fresh = Some (7, \<lambda>_. 0)\<rparr>])"



definition example_context :: "unit RTPFECContext" where
  "example_context = \<lparr>ts_queue = example_queue, rtp_queue = example_queue, fec_queue = example_queue, empty_buf_queue = example_queue, rtpdmx = (),
     is_exit = False, GroupDone = None, GroupCheckMiss = None, GroupDownLoading = Some (fresh_group 4 3 2 65534), have_fec = True,
     rtp_seq_next = None, rtp_seq_lost = True, check_count = 0, fec_inited = False, fec_dec_len = 2, rtp_pkt_num = 4, k_fec_pkt_num = 3, coder_p = None,
     test_lost_rtp = False\<rparr>"

lemma example_windows: "windows_ok example_context"
  by (simp add: windows_ok_def example_context_def fresh_group_ok is_seq_def)


text \<open>
  \<open>_rtpfec_check_miss\<close> decides by counting: a group is decoded if data packets are missing and, with all parity packets there, they are
  fewer than the parity packets, or else the missing packets of both kinds are fewer than the parity packets minus one. So the array \<open>lost_pkt_idx\<close>
  of 20 entries is never overrun.
\<close>

theorem check_miss_counts:
  "(fst (rtpfec_check_miss s) \<longleftrightarrow> (\<exists>g. GroupCheckMiss s = Some g \<and> repairable (lost_map g) (rtp_pkt_num s) (k_fec_pkt_num s))) \<and>
   (case lost_rtp lm (int M) [0..<K] [] of None \<Rightarrow> True | Some lost_pkt_idx \<Rightarrow> length lost_pkt_idx \<le> M)"
  using check_miss_eq [of s] by (cases "GroupCheckMiss s") (simp_all add: rtpfec_check_miss_def lost_rtp_spec)


definition example_sent :: matrix where
  "example_sent = [[1, 2], [3, 4], [5, 6], [7, 8]]"

definition example_damaged :: "RS_fec \<Rightarrow> RTPFECPktGroup" where
  "example_damaged p = (fresh_group 4 3 2 65534)\<lparr>paPktRtp := [Some [1, 2], Some [0, 0], Some [5, 6], Some [7, 8]] @ replicate 251 None,
     paPktFec := map (\<lambda>i. Some (fec_encode p example_sent (blank 3 2) ! i)) [0..<3] @ replicate 17 None, lost_map := [1, 0, 1, 1, 1, 1, 1] @ replicate 268 0\<rparr>"

lemma less_3_4: "i < (4 :: nat) \<longleftrightarrow> i = 0 \<or> i = 1 \<or> i = 2 \<or> i = 3" "i < (3 :: nat) \<longleftrightarrow> i = 0 \<or> i = 1 \<or> i = 2"
  by auto

lemma example_damaged_ok:
  assumes p: "fec_init 4 3 2 = Some p"
  shows "group_ok 4 3 2 (example_damaged p)" "group_holds 4 3 example_sent (fec_encode p example_sent (blank 3 2)) (example_damaged p)"
    "repairable (lost_map (example_damaged p)) 4 3"
proof -
  have e: "length (fec_encode p example_sent (blank 3 2) ! i) = 2" if "i < 3" for i using rs.encode_law [OF p _ that] by simp
  have u: "[0..<3] = [0, 1, 2 :: nat]" "[0..<4] = [0, 1, 2, 3 :: nat]" by (simp_all add: upt_rec)
  have n: "(5 :: nat) = Suc (Suc (Suc (Suc (Suc 0))))" "(6 :: nat) = Suc (Suc (Suc (Suc (Suc (Suc 0)))))" by simp_all
  show "group_ok 4 3 2 (example_damaged p)"
    unfolding group_ok_def less_3_4 using e [of 0] e [of 1] e [of 2]
    by (simp add: example_damaged_def fresh_group_def zero_group_def is_seq_def list_all_iff u)
  show "group_holds 4 3 example_sent (fec_encode p example_sent (blank 3 2)) (example_damaged p)"
    unfolding group_holds_def less_3_4 by (simp add: example_damaged_def example_sent_def u numeral_eq_Suc)
  show "repairable (lost_map (example_damaged p)) 4 3"
    by (simp add: repairable_def example_damaged_def u numeral_eq_Suc)
qed


text \<open>
  C38: the length of a data packet is not checked. A packet for the group being downloaded that is longer than the length the parity packets
  announce is copied behind the end of its slot, whatever the allocator does.
\<close>

theorem long_packet_overruns_slot:
  assumes "windows_ok s" "GroupDone s = None" "is_seq q" "GroupDownLoading s = Some d" "GroupCheckMiss s = None"
    and "offset (rtp_seq_start d) q < int (rtp_pkt_num s)" "length (pkt_bytes pkt) > fec_dec_len s"
  shows "rtpfec_group_rtppkt_in alloc s pkt q = None"
proof -
  have ok: "group_ok (rtp_pkt_num s) (k_fec_pkt_num s) (fec_dec_len s) d" and K: "rtp_pkt_num s \<le> 255" using assms(1,4) by (simp_all add: windows_ok_def)
  note i = in_group [OF assms(1) ok assms(3)] and n = in_next [OF assms(1) ok assms(3)]
  let ?i = "nat (offset (rtp_seq_start d) q)"
  have "?i < rtp_pkt_num s" using assms(6) offset_range [of "rtp_seq_start d" q] by linarith
  then have "map_option length (paPktRtp d ! ?i) = Some (fec_dec_len s)" using ok by (simp add: group_ok_def)
  then have "put_rtp d ?i pkt = None" using assms(7) by (auto simp: put_rtp_def into_slot_def)
  moreover have "\<not> in_window s (rtpfec_get_index ((rtp_seq_end d + 1) mod 65536) ((rtp_seq_end d + int (rtp_pkt_num s)) mod 65536) q 65535)"
    using n(1) next_window [OF K, of "rtp_seq_start d" q] assms(6) by simp
  ultimately show ?thesis using assms(4,5,6) i by (simp add: rtpfec_group_rtppkt_in_def rtppkt_download_def Let_def)
qed

theorem long_packet_overruns_slot_witness:
  "rtpfec_group_rtppkt_in (\<lambda>_. True) example_context (packet 9 [5, 6, 7]) 1 = None"
  using long_packet_overruns_slot [OF example_windows, of 1 "fresh_group 4 3 2 65534" "packet 9 [5, 6, 7]" "\<lambda>_. True"]
  by (simp add: example_context_def is_seq_def packet_def pkt_bytes_def offset_def)

text \<open>
  C39: parity of the wrong group. While a group is being checked, a parity packet of the group after the one being downloaded is stored in the group being
  downloaded and marked as received there, because the result of \<open>_rtpfec_group_downloading_to_checkmiss\<close> is overwritten; the
  decoder then works with it.
\<close>

theorem parity_stored_in_wrong_group:
  assumes "GroupCheckMiss s = Some c" "GroupDownLoading s = Some d" "q = (rtp_seq_start d + int (rtp_pkt_num s)) mod 65536"
    and "q \<noteq> rtp_seq_start c" "q \<noteq> rtp_seq_start d" "put_fec s d i pkt = Some d'"
  shows "rtpfec_group_fecpkt_in alloc s pkt q i = Some (Size 0, s\<lparr>GroupDownLoading := Some d'\<rparr>)"
  using assms by (simp add: rtpfec_group_fecpkt_in_def rtpfec_group_downloading_to_checkmiss_def rtpfec_create_group_downloading_def Let_def)

theorem parity_stored_in_wrong_group_witness:
  "\<exists>g. rtpfec_group_fecpkt_in (\<lambda>_. True) (example_context\<lparr>GroupCheckMiss := Some (fresh_group 4 3 2 65530)\<rparr>) (packet 9 (replicate 24 0 @ [8, 9])) 2 0 =
      Some (Size 0, example_context\<lparr>GroupCheckMiss := Some (fresh_group 4 3 2 65530), GroupDownLoading := Some g\<rparr>) \<and>
      rtp_seq_start g = 65534 \<and> paPktFec g ! 0 = Some [8, 9] \<and> lost_map g ! 4 = 1"
proof -
  define s where "s = example_context\<lparr>GroupCheckMiss := Some (fresh_group 4 3 2 65530)\<rparr>"
  define g where "g = (fresh_group 4 3 2 65534)\<lparr>paPktFec := (paPktFec (fresh_group 4 3 2 65534))[0 := Some [8, 9]],
    lost_map := (lost_map (fresh_group 4 3 2 65534))[4 := 1]\<rparr>"
  have "paPktFec (fresh_group 4 3 2 65534) ! 0 = Some [0, 0]" by (simp add: fresh_group_def alloc_slots_def numeral_eq_Suc)
  then have p: "put_fec s (fresh_group 4 3 2 65534) 0 (packet 9 (replicate 24 0 @ [8, 9])) = Some g"
    by (simp add: put_fec_def into_slot_def packet_def s_def example_context_def g_def)
  have "rtpfec_group_fecpkt_in (\<lambda>_. True) s (packet 9 (replicate 24 0 @ [8, 9])) 2 0 = Some (Size 0, s\<lparr>GroupDownLoading := Some g\<rparr>)"
    by (rule parity_stored_in_wrong_group [OF _ _ _ _ _ p, where c = "fresh_group 4 3 2 65530"]) (simp_all add: s_def example_context_def)
  moreover have "paPktFec g ! 0 = Some [8, 9]" "lost_map g ! 4 = 1" "rtp_seq_start g = 65534"
    by (simp_all add: g_def fresh_group_def alloc_slots_def zero_group_def)
  ultimately show ?thesis unfolding s_def by blast
qed

lemma create_keeps:
  "coder_p (snd (rtpfec_create_group_downloading alloc s q)) = coder_p s" "fec_inited (snd (rtpfec_create_group_downloading alloc s q)) = fec_inited s"
  by (simp_all add: rtpfec_create_group_downloading_def Let_def)

text \<open>
  The coder is initialised once and never again. When the correction starts again with other sizes, the coder keeps the old ones; if it
  was made for more data packets than a group has now, decoding uses null slots.
\<close>

theorem stale_coder_uses_null_slots:
  assumes "GroupCheckMiss s = Some g" "length (paPktRtp g) = 255" "paPktRtp g ! rtp_pkt_num s = None"
    and "repairable (lost_map g) (rtp_pkt_num s) (k_fec_pkt_num s)"
    and "fec_inited s" "coder_p s = Some p" "rtp_pkt_num s < data_pkt_num p" "data_pkt_num p \<le> 255"
  shows "repair_group s = None \<and>
    (\<forall>alloc stop num fnum l r s1. first_fec alloc s stop num fnum l = Some (r, s1) \<longrightarrow> fec_inited s1 \<and> coder_p s1 = coder_p s)"
proof
  let ?K = "rtp_pkt_num s"
  define g1 where "g1 = g\<lparr>aPktRtpLen := fold (\<lambda>i l. l[i := fec_dec_len s]) (lost_data (lost_map g) ?K) (aPktRtpLen g)\<rparr>"
  have "take (data_pkt_num p) (paPktRtp g1) ! ?K = None" using assms(3,7) by (simp add: g1_def)
  moreover have "?K < length (take (data_pkt_num p) (paPktRtp g1))" using assms(2,7,8) by (simp add: g1_def)
  ultimately have "\<not> list_all (slot_ok (data_len p)) (take (data_pkt_num p) (paPktRtp g1))"
    by (metis list_all_length option.case(1) slot_ok_def)
  then have "fec_decode_adp (Some p) g1 = None" by (simp add: fec_decode_adp_def Let_def)
  moreover have "rtpfec_check_miss s = (True, s\<lparr>GroupCheckMiss := Some g1\<rparr>)" using check_miss_eq [OF assms(1)] assms(4) by (simp add: g1_def)
  ultimately show "repair_group s = None"
    using assms(5,6) by (simp add: repair_group_def decode_miss_def ready_coder_def)
  show "\<forall>alloc stop num fnum l r s1. first_fec alloc s stop num fnum l = Some (r, s1) \<longrightarrow> fec_inited s1 \<and> coder_p s1 = coder_p s"
  proof (intro allI impI)
    fix alloc stop num fnum l r s1
    assume f: "first_fec alloc s stop num fnum l = Some (r, s1)"
    let ?s = "s\<lparr>have_fec := True, fec_dec_len := l, rtp_pkt_num := num, k_fec_pkt_num := fnum\<rparr>"
    have "s1 = snd (rtpfec_create_group_downloading alloc ?s ((stop + 1) mod 65536))" using f by (auto simp: first_fec_def Let_def split: if_splits)
    then show "fec_inited s1 \<and> coder_p s1 = coder_p s" using create_keeps [of alloc ?s] assms(5) by simp
  qed
qed

theorem stale_coder_uses_null_slots_witness:
  "\<exists>p p5. fec_init 4 3 2 = Some p \<and> fec_init 5 3 2 = Some p5 \<and>
     repair_group (example_context\<lparr>GroupCheckMiss := Some (example_damaged p), fec_inited := True, coder_p := Some p5\<rparr>) = None"
proof -
  obtain p where p: "fec_init 4 3 2 = Some p" using rs.init_law [of 4 3 2] by auto
  obtain p5 where p5: "fec_init 5 3 2 = Some p5" using rs.init_law [of 5 3 2] by auto
  define s where "s = example_context\<lparr>GroupCheckMiss := Some (example_damaged p), fec_inited := True, coder_p := Some p5\<rparr>"
  have n: "paPktRtp (example_damaged p) ! 4 = None" by (simp add: example_damaged_def numeral_eq_Suc)
  have l: "length (paPktRtp (example_damaged p)) = 255" by (simp add: example_damaged_def)
  have "repair_group s = None"
    using stale_coder_uses_null_slots [of s "example_damaged p" p5] example_damaged_ok(3) [OF p] fec_init_sizes [OF p5] n l
    by (simp add: s_def example_context_def)
  then show ?thesis using p p5 unfolding s_def by blast
qed

section \<open>A thread that did not start\<close>

text \<open>The state of a stream on which nothing has arrived.\<close>

definition idle :: "'d RTPFECContext \<Rightarrow> bool" where
  "idle s \<longleftrightarrow> fill (fec_queue s) = [] \<and> fill (rtp_queue s) = [] \<and> \<not> exit (fec_queue s) \<and> \<not> exit (rtp_queue s) \<and> q_data_size (ts_queue s) = 0 \<and>
     GroupDone s = None \<and> GroupCheckMiss s = None \<and> \<not> have_fec s"

lemma idle_pass:
  assumes "idle s"
  shows "fetch_pass alloc parse s = Some (Wait s)" "read_pass alloc parse s = Some (Wait s)"
proof -
  have e: "s\<lparr>rtp_queue := rtp_queue s\<rparr> = s" "s\<lparr>fec_queue := fec_queue s\<rparr> = s" by simp_all
  show f: "fetch_pass alloc parse s = Some (Wait s)"
    using assms e(1) by (simp add: fetch_pass_def fetch_rtp_def idle_def pktq_get_pkt_def pktq_get_data_size_def)
  have "rtpfec_get_fecpkt alloc s = Some (Size 0, s)"
    using assms e(2) by (simp add: rtpfec_get_fecpkt_def idle_def pktq_get_pkt_def Let_def)
  then show "read_pass alloc parse s = Some (Wait s)" using assms f by (simp add: read_pass_def idle_def)
qed

lemma stopped_rounds: "\<not> running t \<Longrightarrow> thread_rounds len rs s t = Some (s, t)"
  by (induction rs) (simp_all add: rtp_stream_thread_round_def)

lemma idle_loop:
  assumes "idle s" "\<not> running t" "0 < len"
  shows "list_all (\<lambda>(interrupted, _). \<not> interrupted) turns \<Longrightarrow> rtpfec_read_loop max_len parse len w turns (s, t) = Some (Inr (s, t))"
proof (induction turns arbitrary: w)
  case Nil
  then show ?case by simp
next
  case (Cons tn turns)
  obtain i al rs where tn: "tn = (i, al, rs)" by (rule prod_cases3)
  have "(if w then fetch_pass al parse s else read_pass al parse s) = Some (Wait s)" using idle_pass [OF assms(1)] by simp
  moreover have "\<not> len \<le> pktq_get_data_size (Some (ts_queue s))" using assms by (simp add: idle_def pktq_get_data_size_def)
  moreover have "\<not> i" "list_all (\<lambda>(interrupted, _). \<not> interrupted) turns" using Cons.prems tn by simp_all
  ultimately show ?case using Cons.IH stopped_rounds [OF assms(2), of max_len rs s] tn by (simp add: Let_def)
qed

text \<open>
  \<open>rtpfec_open\<close> does not notice that the receiving thread could not be started, because \<open>pthread_create\<close> reports errors as positive numbers and
  the code looks for negative ones: the call succeeds, and every read of the stream waits without end unless the
  caller interrupts it.
\<close>

theorem reader_waits_without_thread:
  assumes "rtpfec_open env c = Some st" "\<not> thread_starts env" "0 < len" "list_all (\<lambda>(interrupted, _). \<not> interrupted) turns"
  shows "rtpfec_read max_len parse len turns st = Some (Inr st)"
proof -
  obtain s t where st: "st = (s, t)" by (rule prod.exhaust)
  have q: "fill q = [] \<and> q_data_size q = 0 \<and> \<not> exit q" if "create_queue e i m f = Some q" for e i m f q
    using that by (auto simp: create_queue_def pktq_create_def split: prod.splits if_splits)
  have "idle s" "\<not> running t" "\<not> is_exit s"
    using assms(1,2) st by (auto simp: rtpfec_open_def idle_def q split: if_splits option.splits)
  then show ?thesis using idle_loop [OF _ _ assms(3,4)] st by (simp add: rtpfec_read_def)
qed

theorem reader_waits_without_thread_witness:
  "\<exists>st. rtpfec_open (example_open\<lparr>thread_starts := False\<rparr>) None = Some st \<and>
     rtpfec_read 1500 example_parser 3 [arrival [1, 2, 3], arrival [4]] st = Some (Inr st)"
proof -
  obtain st where st: "rtpfec_open (example_open\<lparr>thread_starts := False\<rparr>) None = Some st"
    by (simp add: rtpfec_open_def example_open_def create_queue_def pktq_create_def)
  then show ?thesis using reader_waits_without_thread [OF st, of 3 "[arrival [1, 2, 3], arrival [4]]" 1500 example_parser]
    by (simp add: arrival_def)
qed

end
