(* ===== verification/Hi_Rtp.thy ===== *)
theory Hi_Rtp
  imports Rtp_Receive
begin

text \<open>
  The stream protocol of \<open>libformat_open/hirtpproto.c\<close>: a thread receives RTP packets, and control packets if there is a connection for them, gives up if
  nothing arrives for five seconds after the start, and connects again when a running stream falls silent; the reader gives the packets to the parser and returns the
  bytes of the stream. Each function is one definition; the loops of the thread and of \<open>hirtp_read\<close> are split into rounds and passes. Left
  out are the text of the addresses, the log output and \<open>_rtp_test_max_pkt_size\<close>, which is not called.
\<close>

section \<open>Context and connection\<close>

text \<open>The handles are null or not; \<open>'d\<close> is the state of the packet parser.\<close>

record 'd HiRTPContext =
  rtp_hd :: bool
  rtcp_hd :: bool
  rtp_fd :: int
  rtcp_fd :: int
  h_ts_queue :: PKTQueue
  h_rtp_queue :: PKTQueue
  h_empty_queue :: PKTQueue
  h_rtpdmx :: 'd
  h_exit :: bool

definition close_connection :: "'d HiRTPContext \<Rightarrow> 'd HiRTPContext" where
  "close_connection s =
     (let s1 = (if rtp_hd s then s\<lparr>rtp_hd := False, rtp_fd := - 1\<rparr> else s)
      in if rtcp_hd s1 then s1\<lparr>rtcp_hd := False, rtcp_fd := - 1\<rparr> else s1)"

text \<open>
  The two connections, each with the descriptor the network library gives for it, none if it cannot be opened. A stream
  without the connection for control packets is allowed.
\<close>

type_synonym connects = "int option \<times> int option"

definition open_connection :: "connects \<Rightarrow> 'd HiRTPContext \<Rightarrow> bool \<times> 'd HiRTPContext" where
  "open_connection cn s =
     (case fst cn of None \<Rightarrow> (False, close_connection (s\<lparr>rtp_hd := False\<rparr>))
      | Some fd \<Rightarrow>
         (let s1 = s\<lparr>rtp_hd := True, rtcp_hd := (snd cn \<noteq> None), rtp_fd := fd\<rparr>
          in (True, case snd cn of None \<Rightarrow> s1\<lparr>rtcp_fd := - 1\<rparr> | Some fd' \<Rightarrow> s1\<lparr>rtcp_fd := fd'\<rparr>)))"

section \<open>The receiving thread\<close>

text \<open>The local variables of the thread.\<close>

record hirtp_thread =
  h_rcv :: receiver
  fd_num :: nat
  fd_max :: int
  fd0 :: int
  fd1 :: int
  check_reconnect_cnt :: nat
  timeout_start_time :: int
  last_pkt_recv_time :: int
  last_reconnect_time :: int
  h_running :: bool

definition HIRTP_MAX_PKT_SIZE :: nat where
  "HIRTP_MAX_PKT_SIZE = 1472"

definition HIRTP_READ_TIME_OUT :: int where
  "HIRTP_READ_TIME_OUT = 5000000"

definition HIRTP_RECONNECT_CYCLE :: int where
  "HIRTP_RECONNECT_CYCLE = 1000000"

definition HIRTP_CHECK_RECONNECT_MAX_CNT :: nat where
  "HIRTP_CHECK_RECONNECT_MAX_CNT = 10"

definition make_fd_array :: "'d HiRTPContext \<Rightarrow> hirtp_thread \<Rightarrow> hirtp_thread" where
  "make_fd_array s t =
     (if rtp_fd s < 0 then t
      else t\<lparr>fd0 := rtp_fd s, fd1 := rtcp_fd s, fd_max := max (rtp_fd s) (rtcp_fd s), fd_num := (if rtcp_fd s \<ge> 0 then 2 else 1)\<rparr>)"

text \<open>
  One round of the loop. The environment gives: whether the caller interrupts, the clock at the two places where it is read, the
  outcome of a new connection, the result of \<open>select\<close>, and for each descriptor that is ready the bytes it delivers (none if the
  read fails), the clock then, and a new buffer if one is needed.
\<close>

type_synonym delivery = "u8 list \<times> int \<times> (nat \<times> (nat \<Rightarrow> u8)) option"

record hirtp_round =
  h_interrupted :: bool
  clock1 :: int
  clock2 :: int
  reconnect :: connects
  select_ret :: int
  ready0 :: "delivery option"
  ready1 :: "delivery option"

definition reconnect_due :: "int \<Rightarrow> hirtp_thread \<Rightarrow> bool" where
  "reconnect_due now_time t \<longleftrightarrow> check_reconnect_cnt t \<ge> HIRTP_CHECK_RECONNECT_MAX_CNT \<and> timeout_start_time t < 0 \<and> last_pkt_recv_time t > 0 \<and>
     now_time - last_pkt_recv_time t \<ge> HIRTP_READ_TIME_OUT \<and> now_time - last_reconnect_time t \<ge> HIRTP_RECONNECT_CYCLE"

definition check_reconnect :: "hirtp_round \<Rightarrow> 'd HiRTPContext \<Rightarrow> hirtp_thread \<Rightarrow> 'd HiRTPContext \<times> hirtp_thread" where
  "check_reconnect r s t =
     (let now_time = clock2 r in
      if reconnect_due now_time t
      then
        (case open_connection (reconnect r) (close_connection s) of (ok, s1) \<Rightarrow>
           let t1 = t\<lparr>fd_num := 0, last_reconnect_time := now_time\<rparr> in
           if ok then (s1, (make_fd_array s1 t1)\<lparr>check_reconnect_cnt := 0, last_pkt_recv_time := now_time\<rparr>) else (s1, t1))
      else (s, t))"

text \<open>The packets the queue accepted in a read: the thread gives its buffer away.\<close>

definition accepted_packet :: "u8 list \<Rightarrow> receiver \<Rightarrow> receiver \<Rightarrow> u8 list list" where
  "accepted_packet bytes rx rx' = (if rcv_buf rx \<noteq> None \<and> rcv_buf rx' = None then [take (nat (bufsize rx)) bytes] else [])"

text \<open>
  A descriptor that is ready. The first result is false if there is no memory, which ends the loop over the descriptors and the thread; the second are
  the packets that went into the queue.
\<close>

definition receive_from ::
  "delivery option \<Rightarrow> 'd HiRTPContext \<Rightarrow> hirtp_thread \<Rightarrow> (bool \<times> u8 list list \<times> 'd HiRTPContext \<times> hirtp_thread) option" where
  "receive_from dl s t =
     (case dl of None \<Rightarrow> Some (True, [], s, t)
      | Some (bytes, now_time, fresh) \<Rightarrow>
         (case get_buffer HIRTP_MAX_PKT_SIZE fresh (h_rcv t) (h_empty_queue s) of (ok, rx, eq) \<Rightarrow>
            let s1 = s\<lparr>h_empty_queue := eq\<rparr>; t1 = t\<lparr>h_rcv := rx\<rparr> in
            if \<not> ok then Some (False, [], s1\<lparr>h_exit := True\<rparr>, t1)
            else case receive_packet bytes rx (h_rtp_queue s1) of None \<Rightarrow> None
              | Some (rx', q) \<Rightarrow>
                  (let t2 = (if rcv_buf rx \<noteq> None \<and> take (nat (bufsize rx)) bytes \<noteq> []
                             then t1\<lparr>check_reconnect_cnt := 0, last_pkt_recv_time := now_time,
                                     timeout_start_time := (if timeout_start_time t > 0 then - 1 else timeout_start_time t)\<rparr> else t1)
                   in Some (True, accepted_packet bytes rx rx', s1\<lparr>h_rtp_queue := q\<rparr>, t2\<lparr>h_rcv := rx'\<rparr>))))"

definition hirtp_thread_exit :: "'d HiRTPContext \<Rightarrow> hirtp_thread \<Rightarrow> 'd HiRTPContext \<times> hirtp_thread" where
  "hirtp_thread_exit s t =
     (s\<lparr>h_ts_queue := snd (pktq_put_pkt True (h_ts_queue s) None), h_rtp_queue := snd (pktq_put_pkt True (h_rtp_queue s) None),
        h_empty_queue := snd (pktq_put_pkt True (h_empty_queue s) None)\<rparr>,
      t\<lparr>h_rcv := (h_rcv t)\<lparr>rcv_buf := None\<rparr>, h_running := False\<rparr>)"

definition hirtp_select :: "hirtp_round \<Rightarrow> 'd HiRTPContext \<Rightarrow> hirtp_thread \<Rightarrow> (u8 list list \<times> 'd HiRTPContext \<times> hirtp_thread) option" where
  "hirtp_select r s t =
     (if fd_num t = 0 then Some ([], s, t)
      else if select_ret r \<le> 0 then Some ([], s, t\<lparr>check_reconnect_cnt := check_reconnect_cnt t + 1\<rparr>)
      else case receive_from (ready0 r) s t of None \<Rightarrow> None
        | Some (ok, ps, s1, t1) \<Rightarrow>
            if \<not> ok \<or> fd_num t < 2 then Some (ps, s1, t1)
            else map_option (\<lambda>(_, ps', s2, t2). (ps @ ps', s2, t2)) (receive_from (ready1 r) s1 t1))"

definition hirtp_thread_round :: "hirtp_round \<Rightarrow> 'd HiRTPContext \<Rightarrow> hirtp_thread \<Rightarrow> (u8 list list \<times> 'd HiRTPContext \<times> hirtp_thread) option" where
  "hirtp_thread_round r s t =
     (let leave = (\<lambda>s t. case hirtp_thread_exit s t of (s', t') \<Rightarrow> Some ([], s', t')) in
      if \<not> h_running t then Some ([], s, t)
      else if h_exit s then leave s t
      else if h_interrupted r \<or> (timeout_start_time t > 0 \<and> \<bar>clock1 r - timeout_start_time t\<bar> > HIRTP_READ_TIME_OUT) then leave (s\<lparr>h_exit := True\<rparr>) t
      else case check_reconnect r s t of (s1, t1) \<Rightarrow> hirtp_select r s1 t1)"

text \<open>Several rounds; an exit set in one round is seen at the start of the next.\<close>

fun hirtp_rounds :: "hirtp_round list \<Rightarrow> 'd HiRTPContext \<Rightarrow> hirtp_thread \<Rightarrow> (u8 list list \<times> 'd HiRTPContext \<times> hirtp_thread) option" where
  "hirtp_rounds [] s t = Some ([], s, t)"
| "hirtp_rounds (r # rs) s t =
     (case hirtp_thread_round r s t of None \<Rightarrow> None
      | Some (ps, s', t') \<Rightarrow> map_option (\<lambda>(ps', s'', t''). (ps @ ps', s'', t'')) (hirtp_rounds rs s' t'))"

section \<open>Reading\<close>

datatype hirtp_ret = Hi_got "u8 list" | Hi_failed pktq_ret | Hi_eof

datatype 'd hirtp_outcome = Hi_again "'d HiRTPContext" | Hi_read_out "'d HiRTPContext" | Hi_return pktq_ret "'d HiRTPContext" | Hi_wait "'d HiRTPContext"

text \<open>One pass of the loop of \<open>hirtp_read\<close>, from the check for stream bytes on.\<close>

definition hirtp_pass :: "'d parser \<Rightarrow> 'd HiRTPContext \<Rightarrow> 'd hirtp_outcome option" where
  "hirtp_pass parse s =
     (let timeout_ms = (if pktq_get_data_size (Some (h_ts_queue s)) > 0 then 0 else - 1) in
      case pktq_get_pkt (h_rtp_queue s) True timeout_ms of (ret, p, q) \<Rightarrow>
        (let s1 = s\<lparr>h_rtp_queue := q\<rparr>;
             stop = (if pktq_get_data_size (Some (h_ts_queue s1)) > 0 then Hi_read_out s1 else Hi_return ret s1) in
         case (ret, p) of
           (Waits, _) \<Rightarrow> Some (Hi_wait s1)
         | (Size n, Some rtppkt) \<Rightarrow>
             if n \<le> 0 then Some stop
             else map_option (\<lambda>(taken, d, ts). Hi_again (s1\<lparr>h_rtpdmx := d, h_empty_queue := spare_buffer taken rtppkt (h_empty_queue s1), h_ts_queue := ts\<rparr>))
                    (parse_packet parse (pkt_bytes rtppkt) (h_rtpdmx s1) (h_ts_queue s1))
         | _ \<Rightarrow> Some stop))"

definition hirtp_read_out :: "'d HiRTPContext \<Rightarrow> int \<Rightarrow> (hirtp_ret \<times> 'd HiRTPContext) option" where
  "hirtp_read_out s len = map_option (\<lambda>(r, bs, _, q). ((case r of Size _ \<Rightarrow> Hi_got bs | _ \<Rightarrow> Hi_failed r), s\<lparr>h_ts_queue := q\<rparr>))
     (pktq_read (h_ts_queue s) True len 0)"

text \<open>
  The loop, with one argument per pass: whether the caller interrupts, and the rounds of the thread before the next pass or
  before a waiting reader looks into the queue again. The results are the packets the thread received meanwhile, the result of
  the call (none if it is still in the loop when the arguments are used up) and the state.
\<close>

type_synonym hirtp_turn = "bool \<times> hirtp_round list"

type_synonym 'd hirtp_state = "'d HiRTPContext \<times> hirtp_thread"

fun hirtp_read_loop ::
  "'d parser \<Rightarrow> int \<Rightarrow> bool \<Rightarrow> hirtp_turn list \<Rightarrow> 'd hirtp_state \<Rightarrow> (u8 list list \<times> hirtp_ret option \<times> 'd hirtp_state) option" where
  "hirtp_read_loop parse len waiting [] st = Some ([], None, st)"
| "hirtp_read_loop parse len waiting ((interrupted, rounds) # rest) (s, t) =
     (if \<not> waiting \<and> pktq_get_data_size (Some (h_ts_queue s)) \<ge> len then map_option (\<lambda>(r, s'). ([], Some r, s', t)) (hirtp_read_out s len)
      else if \<not> waiting \<and> interrupted then Some ([], Some Hi_eof, s\<lparr>h_exit := True\<rparr>, t)
      else
        (let go = (\<lambda>w s'. case hirtp_rounds rounds s' t of None \<Rightarrow> None
                    | Some (ps, st') \<Rightarrow> map_option (\<lambda>(ps', x). (ps @ ps', x)) (hirtp_read_loop parse len w rest st')) in
         case hirtp_pass parse s of None \<Rightarrow> None
         | Some (Hi_again s') \<Rightarrow> go False s'
         | Some (Hi_wait s') \<Rightarrow> go True s'
         | Some (Hi_read_out s') \<Rightarrow> map_option (\<lambda>(r, s'). ([], Some r, s', t)) (hirtp_read_out s' len)
         | Some (Hi_return r s') \<Rightarrow> Some ([], Some (Hi_failed r), s', t)))"

definition hirtp_read :: "'d parser \<Rightarrow> int \<Rightarrow> hirtp_turn list \<Rightarrow> 'd hirtp_state \<Rightarrow> (u8 list list \<times> hirtp_ret option \<times> 'd hirtp_state) option" where
  "hirtp_read parse len turns st =
     (if h_exit (fst st) then Some ([], Some Hi_eof, st) else hirtp_read_loop parse len False turns st)"

section \<open>Writing, opening and closing\<close>

text \<open>
  A packet is written to the connection its payload type selects; \<open>sr\<close> and \<open>app\<close> are the types \<open>RTCP_SR\<close> and \<open>RTCP_APP\<close> of the media library. The result says which
  connection is used, if it is open.
\<close>

datatype channel = Rtp | Rtcp

definition hirtp_write :: "nat \<Rightarrow> nat \<Rightarrow> 'd HiRTPContext \<Rightarrow> u8 list \<Rightarrow> channel option" where
  "hirtp_write sr app s buf =
     (if sr \<le> unat (buf ! 1) \<and> unat (buf ! 1) \<le> app then (if rtcp_hd s then Some Rtcp else None)
      else (if rtp_hd s then Some Rtp else None))"

record 'd hirtp_env =
  url_alloc :: bool
  connections :: connects
  hi_queue_env :: "nat \<Rightarrow> bool \<times> bool \<times> bool"
  hi_parser_state :: "'d option"
  hi_thread_starts :: bool
  start_time :: int

text \<open>
  The queues, the parser and the thread. A failure destroys what was created and is \<open>EIO\<close>; without memory for the address it is \<open>ENOMEM\<close>. Before its
  loop the thread collects the descriptors and reads the clock.
\<close>

definition new_thread :: "'d HiRTPContext \<Rightarrow> bool \<Rightarrow> int \<Rightarrow> hirtp_thread" where
  "new_thread s starts now_time =
     (make_fd_array s \<lparr>h_rcv = \<lparr>rcv_buf = None, bufsize = 0\<rparr>, fd_num = 0, fd_max = - 1, fd0 = 0, fd1 = 0, check_reconnect_cnt = 0,
        timeout_start_time = now_time, last_pkt_recv_time = - 1, last_reconnect_time = - 1, h_running = starts\<rparr>)"

definition hirtp_open :: "'d hirtp_env \<Rightarrow> 'd hirtp_state option" where
  "hirtp_open env =
     (if \<not> url_alloc env then None
      else case (create_queue (hi_queue_env env) 0 2097152 0, create_queue (hi_queue_env env) 1 20971520 4194304,
                 create_queue (hi_queue_env env) 2 (- 1) (- 1), hi_parser_state env) of
          (Some ts, Some rtp, Some spare, Some d) \<Rightarrow>
            (case open_connection (connections env) \<lparr>rtp_hd = False, rtcp_hd = False, rtp_fd = 0, rtcp_fd = 0, h_ts_queue = ts, h_rtp_queue = rtp,
                    h_empty_queue = spare, h_rtpdmx = d, h_exit = False\<rparr> of
               (ok, s) \<Rightarrow> if ok then Some (s, new_thread s (hi_thread_starts env) (start_time env)) else None)
        | _ \<Rightarrow> None)"

definition hirtp_close :: "'d HiRTPContext \<Rightarrow> nat list \<times> 'd HiRTPContext" where
  "hirtp_close s =
     (concat (map (\<lambda>q. fst (snd (pktq_destroy q))) [h_ts_queue s, h_rtp_queue s, h_empty_queue s]), close_connection (s\<lparr>h_exit := True\<rparr>))"

end
