(* ===== verification/Hi_Rtp_Order.thy ===== *)
theory Hi_Rtp_Order
  imports Hi_Rtp
begin

text \<open>
  That the bytes of a stream reach the caller of \<open>hirtp_read\<close> in order and complete, by an invariant that relates the state to what a reference, \<open>stream_out\<close>, makes of the
  packets; the end of a silent stream, and the distance between attempts to connect.
\<close>

section \<open>What a stream of packets means\<close>

text \<open>
  The reference: the bytes the parser makes of a packet, with those that were waiting, and of a list of packets, one after the other.
\<close>

definition av_bytes :: "AVPacket \<Rightarrow> u8 list" where
  "av_bytes ts = (case av_data ts of None \<Rightarrow> [] | Some (_, bs) \<Rightarrow> take (nat (av_size ts)) bs)"

partial_function (option) drain_out :: "'d parser \<Rightarrow> 'd \<Rightarrow> (u8 list \<times> 'd) option" where
  "drain_out parse d =
     (case parse d None of (ret, ts, _, d') \<Rightarrow>
        (let out = (if ret = 0 \<or> ret = 1 then av_bytes ts else []) in
         if ret = 1 then Option.bind (drain_out parse d') (\<lambda>(rest, d''). Some (out @ rest, d'')) else Some (out, d')))"

definition packet_out :: "'d parser \<Rightarrow> 'd \<Rightarrow> u8 list \<Rightarrow> (u8 list \<times> 'd) option" where
  "packet_out parse d bs =
     (case parse d (Some bs) of (ret, ts, _, d') \<Rightarrow>
        if ret = 1 then map_option (\<lambda>(rest, d''). (av_bytes ts @ rest, d'')) (drain_out parse d')
        else Some (if ret = 0 then av_bytes ts else [], d'))"

fun stream_out :: "'d parser \<Rightarrow> 'd \<Rightarrow> u8 list list \<Rightarrow> (u8 list \<times> 'd) option" where
  "stream_out parse d [] = Some ([], d)"
| "stream_out parse d (p # ps) =
     (case packet_out parse d p of None \<Rightarrow> None
      | Some (out, d') \<Rightarrow> map_option (\<lambda>(rest, d''). (out @ rest, d'')) (stream_out parse d' ps))"

lemma stream_out_snoc:
  "stream_out parse d ps = Some (out, d1) \<Longrightarrow> packet_out parse d1 p = Some (out', d2) \<Longrightarrow> stream_out parse d (ps @ [p]) = Some (out @ out', d2)"
  by (induction ps arbitrary: d out) (auto split: option.splits)

section \<open>The stream queue takes everything\<close>

text \<open>Only the first packet of the stream queue can be partly read, so the buffered bytes exceed the readable ones by less than a packet.\<close>

definition tight :: "int \<Rightarrow> PKTQueue \<Rightarrow> bool" where
  "tight B q \<longleftrightarrow> (\<forall>node \<in> set (fill q). buf_size node = data_size node + rd_idx node \<and> buf_size node \<le> B) \<and>
     (\<forall>node \<in> set (tl (fill q)). rd_idx node = 0)"

definition ts_ok :: "int \<Rightarrow> PKTQueue \<Rightarrow> bool" where
  "ts_ok B q \<longleftrightarrow> queue_ok 2097152 B q \<and> forbidden_size q = 0 \<and> tight B q"

lemma tight_slack:
  assumes "ts_ok B q" "0 \<le> B"
  shows "cur_buf_size q \<le> q_data_size q + B"
proof -
  have c: "cur_buf_size q = sum_list (map buf_size (fill q))" "q_data_size q = sum_list (map data_size (fill q))" "list_all node_ok (fill q)"
    using assms by (simp_all add: ts_ok_def queue_ok_def pktq_wf_def counts_ok_def)
  show ?thesis
  proof (cases "fill q")
    case Nil
    then show ?thesis using c assms(2) by simp
  next
    case (Cons node rest)
    have "sum_list (map buf_size rest) = sum_list (map data_size rest)"
      using assms Cons by (intro arg_cong [where f = sum_list] map_cong) (auto simp: ts_ok_def tight_def)
    moreover have "buf_size node \<le> data_size node + B" using assms Cons c(3) by (auto simp: ts_ok_def tight_def node_ok_def)
    ultimately show ?thesis using Cons c by simp
  qed
qed

lemma put_ts_spec:
  assumes q: "ts_ok B q" and av: "av_ok B ts" and room: "cur_buf_size q \<le> 2097152"
  shows "ts_ok B (put_ts q ts)" "contents (put_ts q ts) = contents q @ av_bytes ts"
    "cur_buf_size (put_ts q ts) = cur_buf_size q + int (length (av_bytes ts))"
proof -
  let ?p = "ts_packet ts"
  have m: "max_buf_size q = 2097152" "forbidden_size q = 0" using q by (simp_all add: ts_ok_def queue_ok_def bounds_ok_def within_def)
  have b: "bytes_of ?p = av_bytes ts" by (simp add: bytes_of_def ts_packet_def av_bytes_def split: option.splits)
  have n: "node_ok ?p" using av by (auto simp: av_ok_def node_ok_def ts_packet_def split: option.splits)
  then have lb: "int (length (av_bytes ts)) = av_size ts" using length_bytes [OF n] b by (simp add: ts_packet_def)
  show "ts_ok B (put_ts q ts)" "contents (put_ts q ts) = contents q @ av_bytes ts"
    "cur_buf_size (put_ts q ts) = cur_buf_size q + int (length (av_bytes ts))"
  proof -
    have "0 \<le> av_size ts" using av by (simp add: av_ok_def)
    then consider (empty) "av_size ts = 0" | (full) "0 < av_size ts" by linarith
    then have "ts_ok B (put_ts q ts) \<and> contents (put_ts q ts) = contents q @ av_bytes ts \<and>
      cur_buf_size (put_ts q ts) = cur_buf_size q + int (length (av_bytes ts))"
    proof cases
      case empty
      then have "put_ts q ts = q" by (simp add: put_ts_def pktq_put_pkt_def bad_packet_def ts_packet_def)
      then show ?thesis using q lb empty by simp
    next
      case full
      then have nb: "\<not> bad_packet ?p" by (simp add: bad_packet_def ts_packet_def)
      have f: "fill (put_ts q ts) = fill q @ [?p]" "cur_buf_size (put_ts q ts) = cur_buf_size q + av_size ts" "forbidden_size (put_ts q ts) = 0"
        using nb m room by (auto simp: put_ts_def pktq_put_pkt_def Let_def ts_packet_def)
      have "set (tl (fill q @ [?p])) \<subseteq> set (tl (fill q)) \<union> {?p}" by (cases "fill q") auto
      then have "tight B (put_ts q ts)" using q av f(1) by (auto simp: ts_ok_def tight_def ts_packet_def av_ok_def)
      moreover have "queue_ok 2097152 B (put_ts q ts)" using put_ts_ok [OF _ av] q by (simp add: ts_ok_def)
      moreover have "contents (put_ts q ts) = contents q @ av_bytes ts" using f(1) b by (simp add: contents_def)
      ultimately show ?thesis using f lb by (simp add: ts_ok_def)
    qed
    then show "ts_ok B (put_ts q ts)" "contents (put_ts q ts) = contents q @ av_bytes ts"
      "cur_buf_size (put_ts q ts) = cur_buf_size q + int (length (av_bytes ts))" by blast+
  qed
qed

text \<open>The loop over the waiting packets puts the bytes of the reference into the queue, if there is room.\<close>

lemma drain_spec:
  assumes p: "parser_ok B waiting parse"
  shows "\<exists>out d'. drain_out parse d = Some (out, d') \<and>
    (\<forall>q. ts_ok B q \<longrightarrow> cur_buf_size q + int (length out) \<le> 2097152 \<longrightarrow>
      (\<exists>q'. drain_parser parse d q = Some (d', q') \<and> ts_ok B q' \<and> contents q' = contents q @ out))"
proof (induction "waiting d" arbitrary: d rule: less_induct)
  case less
  obtain ret ts taken d1 where e: "parse d None = (ret, ts, taken, d1)" by (rule prod_cases4)
  note pd = parser_okD [OF p e]
  show ?case
  proof (cases "ret = 1")
    case True
    obtain out d' where IH: "drain_out parse d1 = Some (out, d')"
      "\<And>q. ts_ok B q \<Longrightarrow> cur_buf_size q + int (length out) \<le> 2097152 \<Longrightarrow>
        \<exists>q'. drain_parser parse d1 q = Some (d', q') \<and> ts_ok B q' \<and> contents q' = contents q @ out"
      using less [of d1] pd(2) True by auto
    have o: "drain_out parse d = Some (av_bytes ts @ out, d')" using True e IH(1) by (subst drain_out.simps) simp
    have "\<exists>q'. drain_parser parse d q = Some (d', q') \<and> ts_ok B q' \<and> contents q' = contents q @ av_bytes ts @ out"
      if q: "ts_ok B q" "cur_buf_size q + int (length (av_bytes ts @ out)) \<le> 2097152" for q
    proof -
      have av: "av_ok B ts" using pd(1) True by simp
      have "cur_buf_size q \<le> 2097152" using q(2) by simp
      note ps = put_ts_spec [OF q(1) av this]
      have "drain_parser parse d q = drain_parser parse d1 (put_ts q ts)" using True e by (subst drain_parser.simps) simp
      then show ?thesis using IH(2) [OF ps(1)] ps q(2) by auto
    qed
    then show ?thesis using o by blast
  next
    case False
    have o: "drain_out parse d = Some (if ret = 0 then av_bytes ts else [], d1)" using False e by (subst drain_out.simps) simp
    have "\<exists>q'. drain_parser parse d q = Some (d1, q') \<and> ts_ok B q' \<and> contents q' = contents q @ (if ret = 0 then av_bytes ts else [])"
      if q: "ts_ok B q" "cur_buf_size q + int (length (if ret = 0 then av_bytes ts else [])) \<le> 2097152" for q
    proof -
      have "drain_parser parse d q = Some (d1, if ret = 0 then put_ts q ts else q)" using False e by (subst drain_parser.simps) simp
      moreover have "cur_buf_size q \<le> 2097152" using q(2) by (auto split: if_splits)
      ultimately show ?thesis using q(1) put_ts_spec [OF q(1)] pd(1) by auto
    qed
    then show ?thesis using o by blast
  qed
qed

lemma parse_packet_spec:
  assumes p: "parser_ok B waiting parse"
  shows "\<exists>out d'. packet_out parse d bs = Some (out, d') \<and>
    (\<forall>q. ts_ok B q \<longrightarrow> cur_buf_size q + int (length out) \<le> 2097152 \<longrightarrow>
      (\<exists>taken q'. parse_packet parse bs d q = Some (taken, d', q') \<and> ts_ok B q' \<and> contents q' = contents q @ out))"
proof -
  obtain ret ts taken d1 where e: "parse d (Some bs) = (ret, ts, taken, d1)" by (rule prod_cases4)
  note pd = parser_okD [OF p e]
  show ?thesis
  proof (cases "ret = 1")
    case True
    obtain out d' where dr: "drain_out parse d1 = Some (out, d')"
      "\<And>q. ts_ok B q \<Longrightarrow> cur_buf_size q + int (length out) \<le> 2097152 \<Longrightarrow>
        \<exists>q'. drain_parser parse d1 q = Some (d', q') \<and> ts_ok B q' \<and> contents q' = contents q @ out"
      using drain_spec [OF p, of d1] by auto
    have "\<exists>q'. parse_packet parse bs d q = Some (taken, d', q') \<and> ts_ok B q' \<and> contents q' = contents q @ av_bytes ts @ out"
      if q: "ts_ok B q" "cur_buf_size q + int (length (av_bytes ts @ out)) \<le> 2097152" for q
    proof -
      have av: "av_ok B ts" using pd(1) True by simp
      have "cur_buf_size q \<le> 2097152" using q(2) by simp
      note ps = put_ts_spec [OF q(1) av this]
      obtain q' where "drain_parser parse d1 (put_ts q ts) = Some (d', q')" "ts_ok B q'" "contents q' = contents (put_ts q ts) @ out"
        using dr(2) [OF ps(1)] ps q(2) by auto
      then show ?thesis using True e ps(2) by (simp add: parse_packet_def deliver_def)
    qed
    moreover have "packet_out parse d bs = Some (av_bytes ts @ out, d')" using True e dr(1) by (simp add: packet_out_def)
    ultimately show ?thesis by blast
  next
    case False
    have "\<exists>q'. parse_packet parse bs d q = Some (taken, d1, q') \<and> ts_ok B q' \<and> contents q' = contents q @ (if ret = 0 then av_bytes ts else [])"
      if q: "ts_ok B q" "cur_buf_size q + int (length (if ret = 0 then av_bytes ts else [])) \<le> 2097152" for q
    proof -
      have "cur_buf_size q \<le> 2097152" using q(2) by (auto split: if_splits)
      then show ?thesis using False e q(1) put_ts_spec [OF q(1)] pd(1) by (auto simp: parse_packet_def deliver_def)
    qed
    moreover have "packet_out parse d bs = Some (if ret = 0 then av_bytes ts else [], d1)" using False e by (simp add: packet_out_def)
    ultimately show ?thesis by blast
  qed
qed

lemma drop_head_tight: "tight B q \<Longrightarrow> tight B (drop_head q)"
proof (cases "fill q")
  case Nil
  then show "tight B q \<Longrightarrow> tight B (drop_head q)" by (simp add: drop_head_def)
next
  case (Cons node rest)
  have "set (tl rest) \<subseteq> set rest" by (cases rest) auto
  then show "tight B q \<Longrightarrow> tight B (drop_head q)" using Cons by (auto simp: drop_head_def tight_def)
qed

lemma read_loop_tight:
  "read_loop left q = Some (bs, fr, q') \<Longrightarrow> tight B q \<Longrightarrow> tight B q' \<and> forbidden_size q' = forbidden_size q"
proof (induction left q arbitrary: bs fr rule: read_loop.induct)
  case (1 left q)
  obtain node rest where f: "fill q = node # rest"
    using "1.prems"(1) by (cases "fill q") (simp_all add: read_loop.simps [of left q])
  define n where "n = (if data_size node > left then left else data_size node)"
  obtain cp where cp: "copy_bytes node n = Some cp"
    using "1.prems"(1) f by (cases "copy_bytes node n") (simp_all add: read_loop.simps [of left q] n_def)
  let ?node = "node\<lparr>data_size := data_size node - n, rd_idx := rd_idx node + n\<rparr>"
  define q1 where "q1 = q\<lparr>fill := ?node # rest, q_data_size := q_data_size q - n\<rparr>"
  define fin where "fin = (data_size ?node \<le> 0)"
  define q2 where "q2 = (if fin then drop_head q1 else q1)"
  define fr1 where "fr1 = (if fin then block_of node else [])"
  have "tight B q1" using "1.prems"(2) f by (auto simp: tight_def q1_def)
  then have t2: "tight B q2" using drop_head_tight by (simp add: q2_def)
  have f2: "forbidden_size q2 = forbidden_size q" by (simp add: q2_def q1_def drop_head_def)
  have unf: "read_loop left q = (if left - n > 0 \<and> q_data_size q2 > 0
      then map_option (\<lambda>(bs', freed', q'). (cp @ bs', fr1 @ freed', q')) (read_loop (left - n) q2) else Some (cp, fr1, q2))"
    by (subst read_loop.simps) (simp only: f list.case Let_def n_def [symmetric] cp option.case q1_def [symmetric] fin_def [symmetric] q2_def [symmetric] fr1_def [symmetric])
  show ?case
  proof (cases "left - n > 0 \<and> q_data_size q2 > 0")
    case False
    then show ?thesis using "1.prems"(1) t2 f2 unfolding unf by (auto split: if_splits)
  next
    case True
    then obtain bs' fr' where r: "read_loop (left - n) q2 = Some (bs', fr', q')" using "1.prems"(1) unfolding unf by auto
    show ?thesis using "1.IH" [OF f n_def cp refl q1_def refl fin_def q2_def fr1_def True r t2] f2 by simp
  qed
qed

lemma ts_read:
  assumes "ts_ok B q"
  shows "\<exists>r bs fr q'. pktq_read q True len 0 = Some (r, bs, fr, q') \<and> ts_ok B q' \<and> contents q = bs @ contents q' \<and>
    (case r of Size _ \<Rightarrow> True | _ \<Rightarrow> bs = [])"
proof -
  have ok: "queue_ok 2097152 B q" "tight B q" "forbidden_size q = 0" using assms by (simp_all add: ts_ok_def)
  obtain r bs fr q' where e: "pktq_read q True len 0 = Some (r, bs, fr, q')" "queue_ok 2097152 B q'" "contents q = bs @ contents q'"
    using pktq_read_spec [OF ok(1)] by blast
  have "(tight B q' \<and> forbidden_size q' = forbidden_size q) \<and> (case r of Size _ \<Rightarrow> True | _ \<Rightarrow> bs = [])"
    using e(1) ok(2) read_loop_tight by (auto simp: pktq_read_def split: if_splits)
  then show ?thesis using e ok(3) by (auto simp: ts_ok_def)
qed

section \<open>The packet queue keeps the packets in order\<close>

lemma get_fill: "pktq_get_pkt q True t = (r, p, q') \<Longrightarrow> fill q = (case p of None \<Rightarrow> [] | Some x \<Rightarrow> [x]) @ fill q'"
  by (auto simp: pktq_get_pkt_def drop_head_def split: if_splits list.splits)

lemma put_fill:
  assumes "pktq_put_pkt True q (Some pkt) = (r, q')" "0 < data_size pkt"
  shows "fill q' = fill q @ (case r of Size n \<Rightarrow> if n > 0 then [pkt] else [] | _ \<Rightarrow> [])"
  using assms by (auto simp: pktq_put_pkt_def Let_def split: if_splits)

lemma receive_packet_log:
  assumes rx: "receiver_ok n rx" and r: "receive_packet bytes rx q = Some (rx', q')"
  shows "map pkt_bytes (fill q') = map pkt_bytes (fill q) @ accepted_packet bytes rx rx'"
proof (cases "rcv_buf rx = None \<or> take (nat (bufsize rx)) bytes = []")
  case True
  then show ?thesis using r by (auto simp: receive_packet_def accepted_packet_def split: option.splits)
next
  case False
  then obtain b old where x: "rcv_buf rx = Some (b, old)" by auto
  define bs where "bs = take (nat (bufsize rx)) bytes"
  define new where "new = bs @ drop (length bs) old"
  define pkt where "pkt = \<lparr>data = Some (b, new), priv = None, data_size = int (length bs), buf_size = bufsize rx, rd_idx = 0\<rparr>"
  obtain ret q1 where put: "pktq_put_pkt True q (Some pkt) = (ret, q1)" by (rule prod.exhaust)
  have ne: "bs \<noteq> []" using False by (simp add: bs_def)
  have "length bs \<le> length old" using rx x by (simp add: receiver_ok_def bs_def)
  then have e: "rx' = rx\<lparr>rcv_buf := (case ret of Size n \<Rightarrow> if n > 0 then None else Some (b, new) | _ \<Rightarrow> Some (b, new))\<rparr>" "q' = q1"
    using r put ne unfolding receive_packet_def Let_def bs_def [symmetric] x option.case prod.case new_def [symmetric] pkt_def by simp_all
  have "pkt_bytes pkt = bs" by (simp add: pkt_def pkt_bytes_def new_def)
  moreover have "fill q1 = fill q @ (case ret of Size n \<Rightarrow> if n > 0 then [pkt] else [] | _ \<Rightarrow> [])" using put_fill [OF put] ne by (simp add: pkt_def)
  ultimately show ?thesis using x e by (auto simp: accepted_packet_def bs_def [symmetric] split: pktq_ret.splits)
qed

section \<open>The invariant of a stream\<close>

text \<open>
  With the packets \<open>acc\<close> the thread has put into the queue and the bytes \<open>outs\<close> the caller got: the packets that have been taken out
  and those still queued are \<open>acc\<close>, and the bytes that have been read and those still in the stream queue are what
  the reference makes of the packets taken out.
\<close>

definition hirtp_buffers :: "'d HiRTPContext \<Rightarrow> hirtp_thread \<Rightarrow> bool" where
  "hirtp_buffers s t \<longleftrightarrow> (\<forall>p \<in> set (fill (h_rtp_queue s)). buffer_ok 0 p) \<and> (\<forall>p \<in> set (fill (h_empty_queue s)). buffer_ok 0 p) \<and> receiver_ok 0 (h_rcv t)"

definition in_order :: "'d parser \<Rightarrow> 'd \<Rightarrow> u8 list list \<Rightarrow> u8 list \<Rightarrow> 'd HiRTPContext \<Rightarrow> bool" where
  "in_order parse d0 acc outs s \<longleftrightarrow> (\<exists>taken. acc = taken @ map pkt_bytes (fill (h_rtp_queue s)) \<and>
     stream_out parse d0 taken = Some (outs @ contents (h_ts_queue s), h_rtpdmx s))"

definition hirtp_ok :: "int \<Rightarrow> 'd parser \<Rightarrow> 'd \<Rightarrow> u8 list list \<Rightarrow> u8 list \<Rightarrow> 'd hirtp_state \<Rightarrow> bool" where
  "hirtp_ok B parse d0 acc outs st \<longleftrightarrow> ts_ok B (h_ts_queue (fst st)) \<and> hirtp_buffers (fst st) (snd st) \<and> in_order parse d0 acc outs (fst st)"

lemma ts_exit: "ts_ok B (snd (pktq_put_pkt True q None)) = ts_ok B q" "contents (snd (pktq_put_pkt True q None)) = contents q"
  "fill (snd (pktq_put_pkt True q None)) = fill q"
  by (simp_all add: pktq_put_pkt_def ts_ok_def tight_def contents_def queue_ok_def pktq_wf_def counts_ok_def bounds_ok_def within_def)

lemma thread_exit_hirtp: "hirtp_ok B parse d0 acc outs (s, t) \<Longrightarrow> hirtp_ok B parse d0 acc outs (hirtp_thread_exit s t)"
  by (simp add: hirtp_ok_def hirtp_thread_exit_def ts_exit hirtp_buffers_def in_order_def receiver_ok_def)

lemma receive_from_ok:
  assumes ok: "hirtp_ok B parse d0 acc outs (s, t)"
  shows "\<exists>b ps s' t'. receive_from dl s t = Some (b, ps, s', t') \<and> hirtp_ok B parse d0 (acc @ ps) outs (s', t')"
proof (cases dl)
  case None
  then show ?thesis using ok by (auto simp: receive_from_def)
next
  case (Some x)
  obtain bytes now fresh where x: "x = (bytes, now, fresh)" by (rule prod_cases3)
  obtain b rx eq where g: "get_buffer HIRTP_MAX_PKT_SIZE fresh (h_rcv t) (h_empty_queue s) = (b, rx, eq)" by (rule prod_cases3)
  have bs: "\<forall>p \<in> set (fill (h_rtp_queue s)). buffer_ok 0 p" "\<forall>p \<in> set (fill (h_empty_queue s)). buffer_ok 0 p" "receiver_ok 0 (h_rcv t)"
    using ok by (simp_all add: hirtp_ok_def hirtp_buffers_def)
  have rx: "receiver_ok 0 rx" "set (fill eq) \<subseteq> set (fill (h_empty_queue s))" using get_buffer_ok [OF g bs(3,2)] by simp_all
  obtain rx' q where q: "receive_packet bytes rx (h_rtp_queue s) = Some (rx', q)" "receiver_ok 0 rx'"
    "\<forall>p \<in> set (fill q). p \<in> set (fill (h_rtp_queue s)) \<or> buffer_ok 0 p"
    using receive_packet_ok [OF rx(1), of bytes "h_rtp_queue s"] by blast
  note lg = receive_packet_log [OF rx(1) q(1)]
  have "in_order parse d0 (acc @ accepted_packet bytes rx rx') outs (s\<lparr>h_empty_queue := eq, h_rtp_queue := q\<rparr>)"
    using ok lg by (auto simp: hirtp_ok_def in_order_def)
  then show ?thesis
    using ok Some x g q bs rx by (auto simp: receive_from_def hirtp_ok_def hirtp_buffers_def in_order_def Let_def)
qed

lemma connection_keeps:
  "hirtp_ok B parse d0 acc outs (close_connection s, t) = hirtp_ok B parse d0 acc outs (s, t)"
  "hirtp_ok B parse d0 acc outs (snd (open_connection cn s), t) = hirtp_ok B parse d0 acc outs (s, t)"
  by (simp_all add: close_connection_def open_connection_def hirtp_ok_def hirtp_buffers_def in_order_def Let_def split: option.splits)

lemma thread_keeps:
  assumes "h_rcv t' = h_rcv t"
  shows "hirtp_ok B parse d0 acc outs (s, t') = hirtp_ok B parse d0 acc outs (s, t)"
  using assms by (simp add: hirtp_ok_def hirtp_buffers_def)

lemma make_fd_array_rcv [simp]: "h_rcv (make_fd_array s t) = h_rcv t"
  by (simp add: make_fd_array_def)

lemma check_reconnect_ok:
  assumes "hirtp_ok B parse d0 acc outs (s, t)" "check_reconnect r s t = (s', t')"
  shows "hirtp_ok B parse d0 acc outs (s', t')"
proof (cases "reconnect_due (clock2 r) t")
  case False
  then show ?thesis using assms by (simp add: check_reconnect_def)
next
  case True
  obtain ok s1 where o: "open_connection (reconnect r) (close_connection s) = (ok, s1)" by (rule prod.exhaust)
  have s1: "hirtp_ok B parse d0 acc outs (s1, t)"
    using connection_keeps(2) [of B parse d0 acc outs "reconnect r" "close_connection s" t] o assms(1) by (simp add: connection_keeps(1))
  have "s' = s1" "h_rcv t' = h_rcv t" using True o assms(2) by (auto simp: check_reconnect_def Let_def split: if_splits)
  then show ?thesis using s1 thread_keeps [of t' t B parse d0 acc outs s1] by simp
qed

lemma select_ok:
  assumes ok: "hirtp_ok B parse d0 acc outs (s, t)"
  shows "\<exists>ps s' t'. hirtp_select r s t = Some (ps, s', t') \<and> hirtp_ok B parse d0 (acc @ ps) outs (s', t')"
proof -
  obtain b ps s1 t1 where r0: "receive_from (ready0 r) s t = Some (b, ps, s1, t1)" "hirtp_ok B parse d0 (acc @ ps) outs (s1, t1)"
    using receive_from_ok [OF ok] by blast
  obtain b' ps' s2 t2 where r1: "receive_from (ready1 r) s1 t1 = Some (b', ps', s2, t2)" "hirtp_ok B parse d0 ((acc @ ps) @ ps') outs (s2, t2)"
    using receive_from_ok [OF r0(2)] by blast
  show ?thesis using ok r0 r1 thread_keeps [of "t\<lparr>check_reconnect_cnt := check_reconnect_cnt t + 1\<rparr>" t B parse d0 acc outs s] by (simp add: hirtp_select_def)
qed

lemma thread_round_hirtp:
  assumes ok: "hirtp_ok B parse d0 acc outs (s, t)"
  shows "\<exists>ps s' t'. hirtp_thread_round r s t = Some (ps, s', t') \<and> hirtp_ok B parse d0 (acc @ ps) outs (s', t')"
proof -
  obtain s1 t1 where c: "check_reconnect r s t = (s1, t1)" by (rule prod.exhaust)
  note sel = select_ok [OF check_reconnect_ok [OF ok c], of r]
  have x: "hirtp_ok B parse d0 acc outs (s\<lparr>h_exit := True\<rparr>, t)" using ok by (simp add: hirtp_ok_def hirtp_buffers_def in_order_def)
  have leave: "\<exists>s' t'. hirtp_thread_exit y t = (s', t') \<and> hirtp_ok B parse d0 (acc @ []) outs (s', t')"
    if "hirtp_ok B parse d0 acc outs (y, t)" for y using thread_exit_hirtp [OF that] by (cases "hirtp_thread_exit y t") simp
  show ?thesis using ok c sel leave [OF ok] leave [OF x] by (auto simp: hirtp_thread_round_def Let_def)
qed

lemma rounds_hirtp:
  "hirtp_ok B parse d0 acc outs (s, t) \<Longrightarrow> \<exists>ps s' t'. hirtp_rounds rs s t = Some (ps, s', t') \<and> hirtp_ok B parse d0 (acc @ ps) outs (s', t')"
proof (induction rs arbitrary: acc s t)
  case Nil
  then show ?case by simp
next
  case (Cons r rs)
  obtain ps s1 t1 where r: "hirtp_thread_round r s t = Some (ps, s1, t1)" "hirtp_ok B parse d0 (acc @ ps) outs (s1, t1)"
    using thread_round_hirtp [OF Cons.prems] by blast
  show ?case using Cons.IH [OF r(2)] r(1) by auto
qed

section \<open>Reads keep the order\<close>

definition output_bound :: "int \<Rightarrow> 'd parser \<Rightarrow> bool" where
  "output_bound P parse \<longleftrightarrow> (\<forall>d bs out d'. packet_out parse d bs = Some (out, d') \<longrightarrow> int (length out) \<le> P)"

definition hirtp_pass_holds :: "('d HiRTPContext \<Rightarrow> bool) \<Rightarrow> 'd hirtp_outcome \<Rightarrow> bool" where
  "hirtp_pass_holds I r = (case r of Hi_again s \<Rightarrow> I s | Hi_read_out s \<Rightarrow> I s | Hi_return _ s \<Rightarrow> I s | Hi_wait s \<Rightarrow> I s \<and> q_data_size (h_ts_queue s) \<le> 0)"

lemma pass_hirtp:
  assumes ok: "hirtp_ok B parse d0 acc outs (s, t)" and p: "parser_ok B waiting parse" and P: "output_bound P parse" and B: "0 \<le> B"
    and sz: "q_data_size (h_ts_queue s) < L" "L + B + P \<le> 2097152"
  shows "\<exists>r. hirtp_pass parse s = Some r \<and> hirtp_pass_holds (\<lambda>s'. hirtp_ok B parse d0 acc outs (s', t)) r"
proof -
  define tm :: int where "tm = (if pktq_get_data_size (Some (h_ts_queue s)) > 0 then 0 else - 1)"
  obtain ret x q where e: "pktq_get_pkt (h_rtp_queue s) True tm = (ret, x, q)" by (rule prod_cases3)
  have ts: "ts_ok B (h_ts_queue s)" and bf: "hirtp_buffers s t" using ok by (simp_all add: hirtp_ok_def)
  obtain taken where tk: "acc = taken @ map pkt_bytes (fill (h_rtp_queue s))" "stream_out parse d0 taken = Some (outs @ contents (h_ts_queue s), h_rtpdmx s)"
    using ok by (auto simp: hirtp_ok_def in_order_def)
  note fl = get_fill [OF e]
  show ?thesis
  proof (cases x)
    case None
    have "hirtp_ok B parse d0 acc outs (s\<lparr>h_rtp_queue := q\<rparr>, t)" using ok fl None by (simp add: hirtp_ok_def hirtp_buffers_def in_order_def)
    moreover have "tm = - 1" if "ret = Waits" using e that by (auto simp: pktq_get_pkt_def tm_def split: if_splits list.splits)
    ultimately show ?thesis using e None
      by (auto simp: hirtp_pass_def tm_def [symmetric] hirtp_pass_holds_def Let_def split: pktq_ret.splits)
        (auto simp: tm_def pktq_get_data_size_def split: if_splits)
  next
    case (Some pkt)
    have b: "buffer_ok 0 pkt" using bf fl Some by (simp add: hirtp_buffers_def)
    have r: "ret = Size (data_size pkt)" using get_size [of "h_rtp_queue s" True tm ret pkt q] e Some by simp
    have pos: "0 < data_size pkt" using b by (auto simp: buffer_ok_def split: option.splits)
    obtain out d' where po: "packet_out parse (h_rtpdmx s) (pkt_bytes pkt) = Some (out, d')"
      "\<And>q. ts_ok B q \<Longrightarrow> cur_buf_size q + int (length out) \<le> 2097152 \<Longrightarrow>
        \<exists>taken q'. parse_packet parse (pkt_bytes pkt) (h_rtpdmx s) q = Some (taken, d', q') \<and> ts_ok B q' \<and> contents q' = contents q @ out"
      using parse_packet_spec [OF p, of "h_rtpdmx s" "pkt_bytes pkt"] by auto
    have "int (length out) \<le> P" using P po(1) by (auto simp: output_bound_def)
    then have "cur_buf_size (h_ts_queue s) + int (length out) \<le> 2097152" using tight_slack [OF ts B] sz by linarith
    then obtain tkn q' where pp: "parse_packet parse (pkt_bytes pkt) (h_rtpdmx s) (h_ts_queue s) = Some (tkn, d', q')" "ts_ok B q'"
      "contents q' = contents (h_ts_queue s) @ out" using po(2) [OF ts] by blast
    let ?s = "s\<lparr>h_rtp_queue := q, h_rtpdmx := d', h_empty_queue := spare_buffer tkn pkt (h_empty_queue s), h_ts_queue := q'\<rparr>"
    have "in_order parse d0 acc outs ?s"
      unfolding in_order_def using tk(1) fl Some stream_out_snoc [OF tk(2) po(1)] pp(3)
      by (intro exI [of _ "taken @ [pkt_bytes pkt]"]) simp
    moreover have "hirtp_buffers ?s t" using bf fl Some b spare_buffer_fill [of tkn pkt "h_empty_queue s"] by (auto simp: hirtp_buffers_def)
    ultimately have "hirtp_ok B parse d0 acc outs (?s, t)" using pp(2) by (simp add: hirtp_ok_def)
    then show ?thesis using e Some r pos pp(1) by (simp add: hirtp_pass_def tm_def [symmetric] hirtp_pass_holds_def Let_def)
  qed
qed

definition read_bytes :: "hirtp_ret option \<Rightarrow> u8 list" where
  "read_bytes r = (case r of Some (Hi_got bs) \<Rightarrow> bs | _ \<Rightarrow> [])"

lemma read_out_hirtp:
  assumes ok: "hirtp_ok B parse d0 acc outs (s, t)"
  shows "\<exists>r s'. hirtp_read_out s len = Some (r, s') \<and> hirtp_ok B parse d0 acc (outs @ read_bytes (Some r)) (s', t)"
proof -
  have ts: "ts_ok B (h_ts_queue s)" using ok by (simp add: hirtp_ok_def)
  obtain r bs fr q where e: "pktq_read (h_ts_queue s) True len 0 = Some (r, bs, fr, q)" "ts_ok B q" "contents (h_ts_queue s) = bs @ contents q"
    "case r of Size _ \<Rightarrow> True | _ \<Rightarrow> bs = []" using ts_read [OF ts] by blast
  let ?r = "case r of Size _ \<Rightarrow> Hi_got bs | _ \<Rightarrow> Hi_failed r"
  have "read_bytes (Some ?r) = bs" using e(4) by (auto simp: read_bytes_def split: pktq_ret.splits)
  then have "hirtp_ok B parse d0 acc (outs @ read_bytes (Some ?r)) (s\<lparr>h_ts_queue := q\<rparr>, t)"
    using ok e(2,3) by (simp add: hirtp_ok_def hirtp_buffers_def in_order_def)
  then show ?thesis using e(1) by (simp add: hirtp_read_out_def)
qed

lemma round_ts: "hirtp_thread_round r s t = Some (ps, s', t') \<Longrightarrow> q_data_size (h_ts_queue s') = q_data_size (h_ts_queue s)"
proof -
  have c: "h_ts_queue (fst (check_reconnect r s t)) = h_ts_queue s"
    by (auto simp: check_reconnect_def open_connection_def close_connection_def Let_def split: option.splits if_splits prod.splits)
  have f: "h_ts_queue y' = h_ts_queue y" if "receive_from dl y z = Some (b, qs, y', z')" for dl and y y' :: "'a HiRTPContext" and z z' b qs
    using that by (auto simp: receive_from_def Let_def split: option.splits prod.splits if_splits)
  have l: "h_ts_queue y' = h_ts_queue y" if "hirtp_select r y z = Some (qs, y', z')" for y y' :: "'a HiRTPContext" and z z' qs
    using that f by (auto simp: hirtp_select_def split: option.splits prod.splits if_splits)
  have x: "q_data_size (h_ts_queue (fst (hirtp_thread_exit y z))) = q_data_size (h_ts_queue y)" for y :: "'a HiRTPContext" and z
    by (simp add: hirtp_thread_exit_def pktq_put_pkt_def)
  assume "hirtp_thread_round r s t = Some (ps, s', t')"
  then show ?thesis using l [of "fst (check_reconnect r s t)"] c x [of s t] x [of "s\<lparr>h_exit := True\<rparr>" t]
    by (auto simp: hirtp_thread_round_def Let_def split: prod.splits if_splits)
qed

lemma rounds_ts: "hirtp_rounds rs s t = Some (ps, s', t') \<Longrightarrow> q_data_size (h_ts_queue s') = q_data_size (h_ts_queue s)"
proof (induction rs arbitrary: s t ps)
  case Nil
  then show ?case by simp
next
  case (Cons r rs)
  then obtain ps1 s1 t1 ps2 where "hirtp_thread_round r s t = Some (ps1, s1, t1)" "hirtp_rounds rs s1 t1 = Some (ps2, s', t')"
    by (auto split: option.splits)
  then show ?case using Cons.IH round_ts by metis
qed

lemma loop_hirtp:
  assumes p: "parser_ok B waiting parse" and P: "output_bound P parse" and B: "0 \<le> B" and L: "len \<le> L" "0 < L" "L + B + P \<le> 2097152"
  shows "hirtp_ok B parse d0 acc outs st \<Longrightarrow> (w \<longrightarrow> q_data_size (h_ts_queue (fst st)) \<le> 0) \<Longrightarrow>
    \<exists>ps r st'. hirtp_read_loop parse len w turns st = Some (ps, r, st') \<and> hirtp_ok B parse d0 (acc @ ps) (outs @ read_bytes r) st'"
proof (induction turns arbitrary: st w acc)
  case Nil
  then show ?case by (simp add: read_bytes_def)
next
  case (Cons tn turns)
  obtain s t where st: "st = (s, t)" by (rule prod.exhaust)
  obtain i rs where tn: "tn = (i, rs)" by (rule prod.exhaust)
  have ok: "hirtp_ok B parse d0 acc outs (s, t)" using Cons.prems(1) st by simp
  let ?good = "\<lambda>out. \<exists>ps r st'. out = Some (ps, r, st') \<and> hirtp_ok B parse d0 (acc @ ps) (outs @ read_bytes r) st'"
  have out: "?good (map_option (\<lambda>(r, s'). ([], Some r, s', t)) (hirtp_read_out y len))" if y: "hirtp_ok B parse d0 acc outs (y, t)" for y
    using read_out_hirtp [OF y, of len] by auto
  have go: "?good (case hirtp_rounds rs y t of None \<Rightarrow> None
      | Some (ps, st') \<Rightarrow> map_option (\<lambda>(ps', x). (ps @ ps', x)) (hirtp_read_loop parse len w' turns st'))"
    if y: "hirtp_ok B parse d0 acc outs (y, t)" "w' \<longrightarrow> q_data_size (h_ts_queue y) \<le> 0" for y w'
  proof -
    obtain ps s1 t1 where r: "hirtp_rounds rs y t = Some (ps, s1, t1)" "hirtp_ok B parse d0 (acc @ ps) outs (s1, t1)"
      using rounds_hirtp [OF y(1)] by blast
    have "w' \<longrightarrow> q_data_size (h_ts_queue (fst (s1, t1))) \<le> 0" using y(2) rounds_ts [OF r(1)] by simp
    from Cons.IH [OF r(2) this] show ?thesis using r(1) by auto
  qed
  show ?case
  proof (cases "\<not> w \<and> (pktq_get_data_size (Some (h_ts_queue s)) \<ge> len \<or> i)")
    case True
    have "hirtp_ok B parse d0 acc outs (s\<lparr>h_exit := True\<rparr>, t)" using ok by (simp add: hirtp_ok_def hirtp_buffers_def in_order_def)
    then show ?thesis using True out [OF ok] st tn by (auto simp: read_bytes_def)
  next
    case False
    have "q_data_size (h_ts_queue s) < L" using False Cons.prems(2) st L by (auto simp: pktq_get_data_size_def)
    then obtain r where r: "hirtp_pass parse s = Some r" "hirtp_pass_holds (\<lambda>s'. hirtp_ok B parse d0 acc outs (s', t)) r"
      using pass_hirtp [OF ok p P B _ L(3)] by blast
    have e: "hirtp_read_loop parse len w (tn # turns) st = (case r of
          Hi_again s' \<Rightarrow> (case hirtp_rounds rs s' t of None \<Rightarrow> None
            | Some (ps, st') \<Rightarrow> map_option (\<lambda>(ps', x). (ps @ ps', x)) (hirtp_read_loop parse len False turns st'))
        | Hi_wait s' \<Rightarrow> (case hirtp_rounds rs s' t of None \<Rightarrow> None
            | Some (ps, st') \<Rightarrow> map_option (\<lambda>(ps', x). (ps @ ps', x)) (hirtp_read_loop parse len True turns st'))
        | Hi_read_out s' \<Rightarrow> map_option (\<lambda>(r, s'). ([], Some r, s', t)) (hirtp_read_out s' len)
        | Hi_return r s' \<Rightarrow> Some ([], Some (Hi_failed r), s', t))"
      using False st tn r(1) by (simp only: hirtp_read_loop.simps Let_def) (auto split: hirtp_outcome.splits)
    show ?thesis unfolding e using r(2) out go by (cases r) (simp_all add: hirtp_pass_holds_def read_bytes_def)
  qed
qed

section \<open>Properties\<close>

text \<open>A sequence of read calls, with the packets received meanwhile and the bytes read; it ends when a call is still in its loop.\<close>

fun hirtp_reads :: "'d parser \<Rightarrow> (int \<times> hirtp_turn list) list \<Rightarrow> 'd hirtp_state \<Rightarrow> (u8 list list \<times> u8 list \<times> 'd hirtp_state) option" where
  "hirtp_reads parse [] st = Some ([], [], st)"
| "hirtp_reads parse ((len, turns) # calls) st =
     (case hirtp_read parse len turns st of None \<Rightarrow> None
      | Some (ps, None, st') \<Rightarrow> Some (ps, [], st')
      | Some (ps, Some r, st') \<Rightarrow> map_option (\<lambda>(ps', outs, st''). (ps @ ps', read_bytes (Some r) @ outs, st'')) (hirtp_reads parse calls st'))"

lemma reads_hirtp:
  assumes p: "parser_ok B waiting parse" and P: "output_bound P parse" and B: "0 \<le> B" and L: "0 < L" "L + B + P \<le> 2097152"
  shows "hirtp_ok B parse d0 acc outs st \<Longrightarrow> list_all (\<lambda>(len, _). len \<le> L) calls \<Longrightarrow>
    \<exists>ps outs' st'. hirtp_reads parse calls st = Some (ps, outs', st') \<and> hirtp_ok B parse d0 (acc @ ps) (outs @ outs') st'"
proof (induction calls arbitrary: st acc outs)
  case Nil
  then show ?case by simp
next
  case (Cons c calls)
  obtain len turns where c: "c = (len, turns)" by (rule prod.exhaust)
  have len: "len \<le> L" using Cons.prems(2) c by simp
  have "\<exists>ps r st'. hirtp_read parse len turns st = Some (ps, r, st') \<and> hirtp_ok B parse d0 (acc @ ps) (outs @ read_bytes r) st'"
  proof (cases "h_exit (fst st)")
    case True
    then show ?thesis using Cons.prems(1) by (simp add: hirtp_read_def read_bytes_def)
  next
    case False
    then show ?thesis using loop_hirtp [OF p P B len L Cons.prems(1), of False turns] by (simp add: hirtp_read_def)
  qed
  then obtain ps r st' where r: "hirtp_read parse len turns st = Some (ps, r, st')" "hirtp_ok B parse d0 (acc @ ps) (outs @ read_bytes r) st'" by blast
  show ?case
  proof (cases r)
    case None
    then show ?thesis using r c by (simp add: read_bytes_def)
  next
    case (Some x)
    then show ?thesis using Cons.IH [OF r(2)] Cons.prems(2) c r(1) by auto
  qed
qed

lemma hirtp_open_fields:
  assumes "hirtp_open env = Some (s, t)"
  obtains ts rtp spare d where "create_queue (hi_queue_env env) 0 2097152 0 = Some ts" "create_queue (hi_queue_env env) 1 20971520 4194304 = Some rtp"
    "create_queue (hi_queue_env env) 2 (- 1) (- 1) = Some spare" "hi_parser_state env = Some d"
    "h_ts_queue s = ts" "h_rtp_queue s = rtp" "h_empty_queue s = spare" "h_rtpdmx s = d" "\<not> h_exit s" "t = new_thread s (hi_thread_starts env) (start_time env)"
  using assms by (auto simp: hirtp_open_def open_connection_def Let_def split: if_splits option.splits prod.splits)

lemma hirtp_open_ok:
  assumes o: "hirtp_open env = Some st" "hi_parser_state env = Some d0" and B: "0 \<le> B"
  shows "hirtp_ok B parse d0 [] [] st"
proof -
  obtain s t where st: "st = (s, t)" by (rule prod.exhaust)
  from o(1) [unfolded st] show ?thesis
  proof (rule hirtp_open_fields)
    fix ts rtp spare d
    assume q: "create_queue (hi_queue_env env) 0 2097152 0 = Some ts" "create_queue (hi_queue_env env) 1 20971520 4194304 = Some rtp"
      "create_queue (hi_queue_env env) 2 (- 1) (- 1) = Some spare" "hi_parser_state env = Some d"
      "h_ts_queue s = ts" "h_rtp_queue s = rtp" "h_empty_queue s = spare" "h_rtpdmx s = d" "t = new_thread s (hi_thread_starts env) (start_time env)"
    note a = create_queue_ok [OF q(1) B] create_queue_ok [OF q(2) B] create_queue_ok [OF q(3) B]
    have "ts_ok B ts" using a by (simp add: ts_ok_def tight_def)
    then show ?thesis using a q st o(2)
      by (simp add: hirtp_ok_def hirtp_buffers_def in_order_def new_thread_def make_fd_array_def receiver_ok_def)
  qed
qed

text \<open>
  C8: a network stream arrives in order and complete. After \<open>hirtp_open\<close>, for every sequence of reads of at most \<open>L\<close> bytes and every interleaving
  with the receiving thread, every step is defined, and the bytes the caller got, followed by those in the stream queue, are what the parser makes of the packets
  that have been taken from the packet queue; those and the packets still queued are exactly the packets the thread put in, in their
  order. So nothing the parser produced is lost: the stream queue, limited to 2 MB, never refuses a packet. \<open>B\<close> bounds a stream packet, \<open>P\<close> what the parser
  produces for one packet.
\<close>

theorem hirtp_bytes_in_order:
  assumes "hirtp_open env = Some st" "hi_parser_state env = Some d0" "parser_ok B waiting parse" "output_bound P parse"
    and "0 \<le> B" "0 < L" "L + B + P \<le> 2097152" "list_all (\<lambda>(len, _). len \<le> L) calls"
  shows "\<exists>received_pkts outs s t taken_pkts. hirtp_reads parse calls st = Some (received_pkts, outs, s, t) \<and>
    received_pkts = taken_pkts @ map pkt_bytes (fill (h_rtp_queue s)) \<and>
    stream_out parse d0 taken_pkts = Some (outs @ contents (h_ts_queue s), h_rtpdmx s)"
proof -
  obtain ps outs st' where r: "hirtp_reads parse calls st = Some (ps, outs, st')" "hirtp_ok B parse d0 ([] @ ps) ([] @ outs) st'"
    using reads_hirtp [OF assms(3-7) hirtp_open_ok [OF assms(1,2,5)] assms(8)] by blast
  obtain s t where st': "st' = (s, t)" by (rule prod.exhaust)
  show ?thesis using r st' by (auto simp: hirtp_ok_def in_order_def)
qed

definition example_hirtp :: "unit hirtp_env" where
  "example_hirtp = \<lparr>url_alloc = True, connections = (Some 3, Some 4), hi_queue_env = (\<lambda>_. (True, True, True)), hi_parser_state = Some (),
     hi_thread_starts = True, start_time = 1000\<rparr>"

definition quiet_round :: "int \<Rightarrow> hirtp_round" where
  "quiet_round now_time = \<lparr>h_interrupted = False, clock1 = now_time, clock2 = now_time, reconnect = (None, None), select_ret = 0, ready0 = None, ready1 = None\<rparr>"

definition packet_round :: "u8 list \<Rightarrow> hirtp_round" where
  "packet_round bs = (quiet_round 2000)\<lparr>select_ret := 1, ready0 := Some (bs, 2000, Some (5, \<lambda>_. 0))\<rparr>"

lemma example_output: "output_bound 1500 example_parser"
  by (auto simp: output_bound_def packet_out_def example_parser_def av_bytes_def)

theorem hirtp_bytes_in_order_witness:
  "\<exists>st received_pkts outs s t taken_pkts. hirtp_open example_hirtp = Some st \<and>
    hirtp_reads example_parser [(3, [(False, [packet_round (replicate 12 0 @ [1, 2, 3, 4])]), (False, []), (False, [])])] st =
      Some (received_pkts, outs, s, t) \<and>
    received_pkts = taken_pkts @ map pkt_bytes (fill (h_rtp_queue s)) \<and>
    stream_out example_parser () taken_pkts = Some (outs @ contents (h_ts_queue s), h_rtpdmx s)"
proof -
  obtain st where st: "hirtp_open example_hirtp = Some st"
    by (simp add: hirtp_open_def example_hirtp_def create_queue_def pktq_create_def open_connection_def)
  have d: "hi_parser_state example_hirtp = Some ()" by (simp add: example_hirtp_def)
  show ?thesis
    using hirtp_bytes_in_order [OF st d example_parser_ok example_output, of 3
        "[(3, [(False, [packet_round (replicate 12 0 @ [1, 2, 3, 4])]), (False, []), (False, [])])]"] st by simp
qed



text \<open>The times at which the thread opens a new connection.\<close>

definition reconnects_now :: "hirtp_round \<Rightarrow> 'd HiRTPContext \<Rightarrow> hirtp_thread \<Rightarrow> bool" where
  "reconnects_now r s t \<longleftrightarrow> h_running t \<and> \<not> h_exit s \<and> \<not> h_interrupted r \<and>
     \<not> (timeout_start_time t > 0 \<and> \<bar>clock1 r - timeout_start_time t\<bar> > HIRTP_READ_TIME_OUT) \<and> reconnect_due (clock2 r) t"

fun reconnect_times :: "hirtp_round list \<Rightarrow> 'd HiRTPContext \<Rightarrow> hirtp_thread \<Rightarrow> int list" where
  "reconnect_times [] s t = []"
| "reconnect_times (r # rs) s t = (if reconnects_now r s t then [clock2 r] else []) @
     (case hirtp_thread_round r s t of None \<Rightarrow> [] | Some (_, s', t') \<Rightarrow> reconnect_times rs s' t')"

lemma receive_reconnect: "receive_from dl s t = Some (b, ps, s', t') \<Longrightarrow> last_reconnect_time t' = last_reconnect_time t"
  by (auto simp: receive_from_def Let_def split: option.splits prod.splits if_splits)

lemma select_reconnect: "hirtp_select r s t = Some (ps, s', t') \<Longrightarrow> last_reconnect_time t' = last_reconnect_time t"
  by (auto simp: hirtp_select_def dest!: receive_reconnect split: option.splits prod.splits if_splits)

lemma round_reconnect:
  assumes "hirtp_thread_round r s t = Some (ps, s', t')"
  shows "last_reconnect_time t' = (if reconnects_now r s t then clock2 r else last_reconnect_time t)"
proof -
  obtain s1 t1 where c: "check_reconnect r s t = (s1, t1)" by (rule prod.exhaust)
  have "last_reconnect_time t1 = (if reconnect_due (clock2 r) t then clock2 r else last_reconnect_time t)"
    using c by (auto simp: check_reconnect_def make_fd_array_def Let_def split: prod.splits if_splits)
  then show ?thesis using assms c select_reconnect [of r s1 t1]
    by (auto simp: hirtp_thread_round_def reconnects_now_def hirtp_thread_exit_def Let_def split: if_splits)
qed

text \<open>
  The thread does not hammer the server: in every run of its loop, attempts to connect again are at least one second apart, from each other and from
  the last one before the run, whether they succeed or not.
\<close>

theorem reconnects_spaced:
  "successively (\<lambda>a b. a + 1000000 \<le> b) (last_reconnect_time t # reconnect_times rs s t)"
proof (induction rs arbitrary: s t)
  case Nil
  then show ?case by simp
next
  case (Cons r rs)
  show ?case
  proof (cases "hirtp_thread_round r s t")
    case None
    then show ?thesis by (auto simp: reconnects_now_def reconnect_due_def HIRTP_RECONNECT_CYCLE_def)
  next
    case (Some x)
    obtain ps s' t' where x: "x = (ps, s', t')" by (rule prod_cases3)
    note l = round_reconnect [of r s t ps s' t'] and IH = Cons.IH [of t' s']
    have "clock2 r - last_reconnect_time t \<ge> 1000000" if "reconnects_now r s t"
      using that by (simp add: reconnects_now_def reconnect_due_def HIRTP_RECONNECT_CYCLE_def)
    then show ?thesis using Some x l IH by (auto split: if_splits)
  qed
qed

end
