(* ===== verification/Spec2Isabelle.thy ===== *)
theory Spec2Isabelle
  imports Frame_Rate_Detect Pts_Recovery Omx_Buffers Omx_State Omx_Decoder Omx_Processor Omx_Channel Omx_Protocol Omx_Entry
    Omx_Proc Omx_Invariant Omx_Resources Omx_Behaviour Omx_Component Omx_Component_Events Omx_Component_States
    Omx_Component_Buffers Omx_Component_Properties Omx_Composition Packet_Queue Gf256 Rs_Fec Rtp_Receive Rtp_Fec Rtp_Groups
    Rtp_Fec_Safety Rtp_Fec_Properties Hi_Rtp Hi_Rtp_Order
begin

text \<open>
  Verification of the OMX video decoder, driver and component, and of the network stream protocols, with their packet queue and error
  correction, of the HiSTB Android SDK.

  \<^bold>\<open>The program.\<close> The driver is
  \<open>src/device/hisilicon/bigfish/sdk/source/msp/drv/omxvdec/\<close>. A user process opens the character device
  and creates channels. A channel owns a decoder (a channel of the VFMW firmware, \<open>decoder_vfmw.c\<close>), a
  post-processor instance with one port (VPSS, \<open>processor_vpss.c\<close>) and two tables of buffers: streams on the
  input side, frames on the output side (\<open>channel.c\<close>). The user binds buffers, hands in streams
  (\<open>EMPTY\<close>) and empty frames (\<open>FILL\<close>); the firmware takes streams and gives them back through callbacks;
  the post-processor reads decoded images, asks for frame buffers and reports finished frames through callbacks. All
  answers to the user go through a message queue. \<open>omxvdec.c\<close> dispatches the requests and holds the debug
  interface; \<open>drv_omxvdec_pts_recv.c\<close> recovers the time stamps of the images, with the frame-rate
  detector of \<open>drv_omxvdec_alg_frd.c\<close>. The user side of the driver is the OMX component
  \<open>src/device/hisilicon/bigfish/sdk/source/msp/api/omx/omx_vdec/normal/omx_vdec.c\<close>: it offers a media player the two ports and the states of
  the OMX standard, turns commands and buffers into requests to the driver, and the driver's messages into callbacks of the player, by way of three
  queues of events, a pipe that wakes up its event thread and a semaphore a client waits for. Apart from it, \<open>src/device/hisilicon/bigfish/external/libformat_open/\<close> brings
  network streams to the player: a thread receives RTP packets into a queue (\<open>svr_utils.c\<close>), the reader gives them to the packet parser of
  the media library and returns the bytes of the stream (\<open>hirtpproto.c\<close>). With error correction (\<open>rtpfecproto.c\<close>) a second connection delivers parity
  packets; once a packet is missing, packets are collected in groups and lost ones are restored by a Reed-Solomon coder over GF(256) (\<open>libfectest/RS_fec.cpp\<close>).

  \<^bold>\<open>The theories.\<close>
  \<^item> \<open>HiSTB_Prelude\<close>: word types, search in lists, and the interfaces the protocols implement: \<open>fifo\<close> (what is
    handed in comes out in order) and \<open>drain\<close> (a request is answered exactly once, when nothing is in use any more);
    \<open>total_fifo\<close> extends \<open>fifo\<close> by operations that are always possible.
  \<^item> \<open>Frame_Rate_Detect\<close> models \<open>drv_omxvdec_alg_frd.c\<close>: the detector on its history of 100 time
    stamps, in 32-bit arithmetic, undefined (\<open>None\<close>) where the source writes behind the array. A steady
    stream gives its rate, across wrap-around; exactly when a call is undefined; a rate drop that overruns.
  \<^item> \<open>Pts_Recovery\<close> models \<open>drv_omxvdec_pts_recv.c\<close> on its table of 16 channels: reachable tables,
    stamps that are kept or extrapolated, the frame-rate round trip.
  \<^item> \<open>Omx_Buffers\<close>: one side of a channel (\<open>port\<close>: table, queue, counter, flush flag) with the operations of all three
    files on it, its invariant \<open>port_wf\<close>, and the refinement of the address table to a bounded set (locale
    \<open>key_table\<close>).
  \<^item> \<open>Omx_State\<close>: the channel context \<open>OMXVDEC_CHAN_CTX\<close>, the driver, the calls out of the driver, the latency
    statistics of the low-delay mode, and the invariant \<open>chan_wf\<close> of a channel.
  \<^item> \<open>Omx_Decoder\<close>, \<open>Omx_Processor\<close>, \<open>Omx_Channel\<close>, \<open>Omx_Entry\<close> model the four source files of the same
    purpose, one definition per function, with the lemmas that every operation keeps \<open>chan_wf\<close>.
  \<^item> \<open>Omx_Protocol\<close>: streams in order, and flush and pause answered exactly once, as interpretations of \<open>fifo\<close> and \<open>drain\<close>.
  \<^item> \<open>Omx_Proc\<close>: the parser and the commands of the debug interface.
  \<^item> \<open>Omx_Invariant\<close>: the driver as a step relation over its entry points, the invariant of its reachable states, the search
    for channel numbers, the clean-up when a file is closed.
  \<^item> \<open>Omx_Resources\<close>: the ledger of memory, decoders, post-processors, ports and queues; no path leaks.
  \<^item> \<open>Omx_Behaviour\<close>: answers to changes of state, sizes, the last frame, dispatch of requests, and defects.
  \<^item> \<open>Omx_Component\<close> models \<open>omx_vdec.c\<close>, one definition per function, with a step (\<open>comp_do\<close>) for each call of the client, each message
    of the driver and each round of the event thread. \<open>Omx_Component_Events\<close> shows that every client that waits is answered,
    \<open>Omx_Component_States\<close> that the state machine is a refinement of that of the standard (\<open>omx_spec\<close>),
    \<open>Omx_Component_Buffers\<close> that the buffer tables stay well-formed (\<open>comp_wf\<close>); \<open>Omx_Component_Properties\<close> states these
    for reachable components, with three defects.
  \<^item> \<open>Omx_Composition\<close> joins driver and component, by the messages one posts and the other takes and the descriptors one binds and the other enters: a
    frame and a new picture size reach the client, and a buffer of plain memory stops the output.
  \<^item> \<open>Packet_Queue\<close> models \<open>svr_utils.c\<close>: creation, put, read, get, clear and destruction, with the waits as separate steps;
    bytes and blocks in order and exactly once, the counters and the limit, reads across packets, and three defects.
  \<^item> \<open>Gf256\<close>: the tables of \<open>RS_fec.h\<close>, the product they give is that of polynomials, and bytes with it are a field (an instance of
    the class \<open>field\<close>).
  \<^item> \<open>Rs_Fec\<close> models \<open>RS_fec.cpp\<close>: inversion of a matrix in place, coder and decoder. The inversion is right and total, decoding returns what was encoded;
    the locale \<open>erasure_code\<close> is what a receiver relies on, interpreted on the coder.
  \<^item> \<open>Rtp_Receive\<close>: what both protocols share, receive buffers and the way of a packet through the parser.
  \<^item> \<open>Hi_Rtp\<close> models \<open>hirtpproto.c\<close>; \<open>Hi_Rtp_Order\<close> shows that the bytes reach the caller in order and complete, that a silent stream ends, and that attempts
    to connect are spaced.
  \<^item> \<open>Rtp_Fec\<close> models \<open>rtpfecproto.c\<close>; \<open>Rtp_Groups\<close> holds the facts on groups of packets, by the laws of \<open>erasure_code\<close>, \<open>Rtp_Fec_Safety\<close> the invariant of reader and thread, and
    \<open>Rtp_Fec_Properties\<close> what follows: reads are free of undefined behaviour, lost packets are restored, packets go to the right group, and five defects.

  \<^bold>\<open>How code corresponds to definitions.\<close> State is passed explicitly: an operation takes the context and the \<open>world\<close> and
  returns both. A \<open>world\<close> is the list of calls made out of the driver and the table of the time-stamp recovery.
  Everything outside the repository that the driver calls (firmware, post-processor, memory manager, message queue, kernel) is the
  environment, a parameter \<open>env\<close>: a function of the calls made so far and the call now, returning its
  result and the words it writes back. Nothing is assumed of it but where a theorem says so (\<open>env_ok\<close>: allocated memory
  has a size and an address, handles are valid). Header constants outside the repository are the fields of \<open>platform\<close> and
  \<open>vpss_platform\<close>. \<open>HI_S32\<close> results are \<open>hi_ret\<close>; results the source takes from a callee are passed on.
  \<open>None\<close> as the result of an operation is undefined behaviour of the source: writing outside an array,
  linking a list node twice, dividing by zero. Machine integers are words. Messages
  posted to the user are the list \<open>msgs\<close> of the context. A table entry is named by its position; the list
  node of an entry is its place in \<open>queue\<close>. The driver's own last frame is the entry behind the table of the input side.
  The component is a record \<open>comp\<close> with its headers by address; its event queue is a parameter, relied on as a list (\<open>event_queue_ok\<close>), the
  results of its calls in one step are the record \<open>comp_env\<close>, and the calls and callbacks it makes are listed in \<open>outs\<close>. \<open>wild\<close> records a use of a
  header that is not alive, or a conversion without a defined result. A client that waits for the semaphore is counted and returns in a step of its own.

  \<^bold>\<open>Interleaving.\<close> Each entry point of the driver, and each call, message and event of the component, is one step. The source holds a lock of the channel over each access to a queue
  but not over a whole entry point; the model takes an entry point as atomic, except the loop that reports the
  last frame, which sleeps: what the rest of the system does meanwhile is the parameter \<open>others\<close>. In the stream protocols the rounds of
  the receiving thread happen between the passes of the reader's loop, any number of them, and while the reader waits for a packet.

  \<^bold>\<open>Bounds and termination.\<close> All loops of the source are structural recursion, but those of the packet queue, which end because
  every round consumes a packet or the request, and the search for a free channel number, a
  \<open>partial_function\<close> shown to end with fewer than $2^{32}$ channels. The loop over the packets that wait in the parser is one too; it ends for a parser whose number of
  waiting packets goes down (\<open>parser_ok\<close>). The loop that empties an event queue of the component is another, and ends for a queue that is a list. The loops of the readers and threads, which run as long as the stream, take one argument per pass, and the theorems hold for every list of them. The loop of the last frame
  has 501 attempts, as in the source.

  \<^bold>\<open>The build that is modelled\<close> is without \<open>HI_TVP_SUPPORT\<close>, with \<open>BPP_MODE_ENABLE\<close> and
  \<open>PRE_ALLOC_VDEC_VDH_MMZ\<close> zero.

  \<^bold>\<open>Not modelled.\<close> Printing (\<open>channel_show_*\<close>, \<open>omxvdec_read_proc\<close>), registration of the device and power
  management are kernel I/O. The file name a saved picture is written to (\<open>save_path\<close> of the reported
  frame) is left out. The remaining subsystems of the SDK (display, demultiplexer, audio, graphics, players) are not part of this
  development: they program registers, or call libraries and firmware that are not in the repository. Of the component the debug output (\<open>save_this_frame\<close>, low-delay events), the methods that only return constants or a
  field (version, extension index, roles, profiles), the checks of the handle and the loops around the two threads are left out. Of the stream protocols the text of the addresses, the log output and the failure of the allocation of a list node
  are left out; the packet parser, the sockets and the clock are parameters. The other protocols of \<open>libformat_open\<close> (HTTP, HLS, RTSP, TCP) are
  handlers derived from FFmpeg.
\<close>

end
